(* ===== verification/PC_Prelude.thy ===== *)
theory PC_Prelude
  imports Main "HOL-Library.AList" "HOL-Library.Product_Lexorder" "HOL-Library.Multiset"
begin

text \<open>
  Shared vocabulary of the development: the JavaScript containers and conversions that every
  component of the toolkit uses, with the lemmas that carry the component proofs.

  \<^item> A JavaScript \<open>Map\<close> is an association list in insertion order: \<open>Map.set\<close> is
    \<open>AList.update\<close> (a known key keeps its place, a new key goes to the end), \<open>Map.get\<close> is
    \<open>map_of\<close>, \<open>Map.delete\<close> is \<open>AList.delete\<close>.
  \<^item> A JavaScript \<open>Set\<close> is a list without duplicates in insertion order (\<open>js_set_add\<close>).
  \<^item> \<open>Array.prototype.sort\<close> is stable, as \<open>sort_key\<close> is; a comparator that compares first by
    one number and then by another is the lexicographic order on pairs.
  \<^item> A number that the code only ever uses as a whole number is an \<open>int\<close>; a \<open>Date\<close> is its epoch
    millisecond count, an \<open>int\<close>.
  \<^item> A thrown error is the left injection of a sum.
\<close>

named_theorems interval_simps "set equations of interval lists"
named_theorems policy_simps "defining equations of the policy operations"

type_synonym instant = int
type_synonym minute = int

section \<open>Nullish values and results\<close>

text \<open>The operator \<open>a ?? b\<close> on a nullable value.\<close>

fun nullish :: "'a option \<Rightarrow> 'a \<Rightarrow> 'a" where
  "nullish None d = d"
| "nullish (Some v) d = v"

text \<open>Sequencing of computations that may throw.\<close>

fun bindE :: "'e + 'a \<Rightarrow> ('a \<Rightarrow> 'e + 'b) \<Rightarrow> 'e + 'b" where
  "bindE (Inl e) f = Inl e"
| "bindE (Inr a) f = f a"

fun mapE :: "('a \<Rightarrow> 'e + 'b) \<Rightarrow> 'a list \<Rightarrow> 'e + 'b list" where
  "mapE f [] = Inr []"
| "mapE f (x # xs) = bindE (f x) (\<lambda>y. bindE (mapE f xs) (\<lambda>ys. Inr (y # ys)))"

fun foldE :: "('b \<Rightarrow> 'a \<Rightarrow> 'e + 'b) \<Rightarrow> 'b \<Rightarrow> 'a list \<Rightarrow> 'e + 'b" where
  "foldE f acc [] = Inr acc"
| "foldE f acc (x # xs) = bindE (f acc x) (\<lambda>acc'. foldE f acc' xs)"

lemma bindE_eq_Inr: "bindE m f = Inr b \<longleftrightarrow> (\<exists>a. m = Inr a \<and> f a = Inr b)"
  by (cases m) auto

lemma bindE_eq_Inl: "bindE m f = Inl e \<longleftrightarrow> m = Inl e \<or> (\<exists>a. m = Inr a \<and> f a = Inl e)"
  by (cases m) auto

lemma mapE_eq_Inr: "mapE f xs = Inr ys \<longleftrightarrow> list_all2 (\<lambda>x y. f x = Inr y) xs ys"
  by (induction xs arbitrary: ys) (auto simp: bindE_eq_Inr list_all2_Cons1)

lemma mapE_mem: "mapE f xs = Inr ys \<Longrightarrow> y \<in> set ys \<Longrightarrow> \<exists>x \<in> set xs. f x = Inr y"
  unfolding mapE_eq_Inr by (induction xs ys rule: list_all2_induct) auto

lemma mapE_Inl_if: "x \<in> set xs \<Longrightarrow> f x = Inl e \<Longrightarrow> \<exists>e'. mapE f xs = Inl e'"
proof (induction xs)
  case Nil
  then show ?case by simp
next
  case (Cons y ys)
  then show ?case by (cases "f y") auto
qed

lemma mapE_total: "(\<And>x. x \<in> set xs \<Longrightarrow> f x = Inr (g x)) \<Longrightarrow> mapE f xs = Inr (map g xs)"
  by (induction xs) auto

section \<open>Sets and maps in insertion order\<close>

definition js_set_add :: "'a \<Rightarrow> 'a list \<Rightarrow> 'a list" where
  "js_set_add x xs = (if x \<in> set xs then xs else xs @ [x])"

definition js_set_of :: "'a list \<Rightarrow> 'a list" where
  "js_set_of xs = fold js_set_add xs []"

lemma set_js_set_add [simp]: "set (js_set_add x xs) = insert x (set xs)"
  by (auto simp: js_set_add_def)

lemma distinct_js_set_add [simp]: "distinct (js_set_add x xs) = distinct xs"
  by (auto simp: js_set_add_def)

lemma set_fold_js_set_add [simp]: "set (fold js_set_add ys xs) = set xs \<union> set ys"
  by (induction ys arbitrary: xs) auto

lemma distinct_fold_js_set_add [simp]: "distinct (fold js_set_add ys xs) = distinct xs"
  by (induction ys arbitrary: xs) auto

lemma set_js_set_of [simp]: "set (js_set_of xs) = set xs"
  by (simp add: js_set_of_def)

lemma distinct_js_set_of [simp]: "distinct (js_set_of xs)"
  by (simp add: js_set_of_def)

lemma map_of_update [simp]: "map_of (AList.update k v m) = (map_of m)(k \<mapsto> v)"
  by (rule AList.update_conv')

lemma distinct_keys_update: "distinct (map fst m) \<Longrightarrow> distinct (map fst (AList.update k v m))"
  by (rule AList.distinct_update)

lemma keys_update [simp]: "fst ` set (AList.update k v m) = insert k (fst ` set m)"
  by (induction m) auto

lemma update_absent: "k \<notin> fst ` set m \<Longrightarrow> AList.update k v m = m @ [(k, v)]"
  by (induction m) auto

lemma foldE_append: "foldE f a (xs @ ys) = bindE (foldE f a xs) (\<lambda>b. foldE f b ys)"
proof (induction xs arbitrary: a)
  case (Cons x xs)
  then show ?case by (cases "f a x") simp_all
qed simp

lemma foldE_check:
  "foldE (\<lambda>_. chk) () xs = Inr () \<longleftrightarrow> (\<forall>x \<in> set xs. chk x = Inr ())"
proof (induction xs)
  case (Cons x xs)
  then show ?case by (cases "chk x") auto
qed simp

section \<open>Grouping rows by a key\<close>

text \<open>The idiom \<open>m.get(k) === undefined ? m.set(k, [x]) : m.get(k).push(x)\<close> over a list.\<close>

definition group_add :: "('a \<Rightarrow> 'k) \<Rightarrow> ('k \<times> 'a list) list \<Rightarrow> 'a \<Rightarrow> ('k \<times> 'a list) list" where
  "group_add key m x =
     (case map_of m (key x) of
        None \<Rightarrow> AList.update (key x) [x] m
      | Some rows \<Rightarrow> AList.update (key x) (rows @ [x]) m)"

definition group_by :: "('a \<Rightarrow> 'k) \<Rightarrow> 'a list \<Rightarrow> ('k \<times> 'a list) list" where
  "group_by key xs = foldl (group_add key) [] xs"

lemma group_by_snoc: "group_by key (xs @ [x]) = group_add key (group_by key xs) x"
  by (simp add: group_by_def)

lemma distinct_group_by: "distinct (map fst (group_by key xs))"
proof (induction xs rule: rev_induct)
  case (snoc x xs)
  then show ?case by (auto simp: group_by_snoc group_add_def distinct_update split: option.splits)
qed (simp add: group_by_def)

lemma map_of_group_by:
  "map_of (group_by key xs) k =
     (if k \<in> key ` set xs then Some (filter (\<lambda>x. key x = k) xs) else None)"
proof (induction xs rule: rev_induct)
  case (snoc x xs)
  then show ?case
    by (cases "key x \<in> key ` set xs")
      (auto simp: group_by_snoc group_add_def filter_empty_conv image_iff split: option.splits if_splits)
qed (simp add: group_by_def)

lemma mset_concat_update:
  assumes "distinct (map fst m)"
  shows "mset (concat (map snd (AList.update k v m))) + (case map_of m k of None \<Rightarrow> {#} | Some w \<Rightarrow> mset w)
    = mset (concat (map snd m)) + mset v"
  using assms by (induction m) (auto split: option.splits)

lemma mset_concat_group_by: "mset (concat (map snd (group_by key xs))) = mset xs"
proof (induction xs rule: rev_induct)
  case (snoc x xs)
  show ?case
  proof (cases "map_of (group_by key xs) (key x)")
    case None
    then show ?thesis
      using snoc mset_concat_update [OF distinct_group_by [of key xs], of "key x" "[x]"]
      by (simp add: group_by_snoc group_add_def)
  next
    case (Some rows)
    then show ?thesis
      using snoc mset_concat_update [OF distinct_group_by [of key xs], of "key x" "rows @ [x]"]
      by (simp add: group_by_snoc group_add_def)
  qed
qed (simp add: group_by_def)

text \<open>Selecting within each group selects, of all rows, those their own group selects.\<close>

lemma mset_concat_select:
  assumes "\<And>k rows. (k, rows) \<in> set m \<Longrightarrow> f rows = filter (P k) rows"
    and "\<And>k rows x. (k, rows) \<in> set m \<Longrightarrow> x \<in> set rows \<Longrightarrow> P k x = Q x"
  shows "mset (concat (map (\<lambda>(k, rows). f rows) m)) = filter_mset Q (mset (concat (map snd m)))"
  using assms
proof (induction m)
  case (Cons kr m)
  obtain k rows where kr: "kr = (k, rows)" by fastforce
  have "filter (P k) rows = filter Q rows" using Cons.prems(2) kr by (intro filter_cong) auto
  moreover have "f rows = filter (P k) rows" using Cons.prems(1) kr by simp
  moreover have "mset (concat (map (\<lambda>(k, rows). f rows) m)) = filter_mset Q (mset (concat (map snd m)))"
    using Cons.prems by (intro Cons.IH) (simp, meson list.set_intros(2))
  ultimately show ?case by (simp add: kr)
qed simp

section \<open>Decimal numerals\<close>

fun show_nat :: "nat \<Rightarrow> string" where
  "show_nat n = (if n < 10 then [''0123456789'' ! n] else show_nat (n div 10) @ [''0123456789'' ! (n mod 10)])"

declare show_nat.simps [simp del]

definition show_int :: "int \<Rightarrow> string" where
  "show_int i = (if i < 0 then CHR ''-'' # show_nat (nat (- i)) else show_nat (nat i))"

definition is_digit :: "char \<Rightarrow> bool" where
  "is_digit c \<longleftrightarrow> c \<in> set ''0123456789''"

definition digit_val :: "char \<Rightarrow> nat" where
  "digit_val c = of_char c - 48"

definition read_nat :: "string \<Rightarrow> nat" where
  "read_nat s = foldl (\<lambda>n c. 10 * n + digit_val c) 0 s"

lemma less_ten_cases:
  assumes "(n::nat) < 10"
  obtains "n = 0" | "n = 1" | "n = 2" | "n = 3" | "n = 4" | "n = 5" | "n = 6" | "n = 7" | "n = 8" | "n = 9"
  using assms by (auto simp: numeral_eq_Suc less_Suc_eq)

lemma digit_nth: "n < 10 \<Longrightarrow> digit_val (''0123456789'' ! n) = n \<and> is_digit (''0123456789'' ! n)"
  by (erule less_ten_cases) (simp_all add: digit_val_def is_digit_def)

lemma show_nat_digits: "c \<in> set (show_nat n) \<Longrightarrow> is_digit c"
proof (induction n rule: show_nat.induct)
  case (1 n)
  show ?case
  proof (cases "n < 10")
    case True
    with "1.prems" show ?thesis by (simp add: show_nat.simps [of n] digit_nth)
  next
    case False
    with "1.prems" have "c \<in> set (show_nat (n div 10)) \<or> c = ''0123456789'' ! (n mod 10)"
      by (auto simp: show_nat.simps [of n])
    moreover have "is_digit (''0123456789'' ! (n mod 10))"
      by (rule digit_nth [THEN conjunct2]) simp
    ultimately show ?thesis using "1.IH" False by blast
  qed
qed

lemma show_nat_nonempty [simp]: "show_nat n \<noteq> []"
  by (simp add: show_nat.simps [of n])

lemma read_show_nat [simp]: "read_nat (show_nat n) = n"
proof (induction n rule: show_nat.induct)
  case (1 n)
  show ?case
  proof (cases "n < 10")
    case True
    then show ?thesis by (simp add: show_nat.simps [of n] read_nat_def digit_nth)
  next
    case False
    then have "read_nat (show_nat (n div 10)) = n div 10" using "1.IH" by simp
    moreover have "digit_val (''0123456789'' ! (n mod 10)) = n mod 10"
      by (rule digit_nth [THEN conjunct1]) simp
    ultimately show ?thesis using False by (simp add: show_nat.simps [of n] read_nat_def)
  qed
qed

lemma show_nat_inject [simp]: "show_nat m = show_nat n \<longleftrightarrow> m = n"
  by (metis read_show_nat)

lemma minus_not_digit: "\<not> is_digit (CHR ''-'')"
  by (simp add: is_digit_def)

lemma show_nat_no_minus: "show_nat n \<noteq> CHR ''-'' # xs"
  using show_nat_digits [of "CHR ''-''" n] minus_not_digit by auto

lemma show_int_inject [simp]: "show_int i = show_int j \<longleftrightarrow> i = j"
proof
  assume eq: "show_int i = show_int j"
  show "i = j"
  proof (cases "i < 0"; cases "j < 0")
    assume "i < 0" "j < 0"
    with eq have "nat (- i) = nat (- j)" by (simp add: show_int_def)
    with \<open>i < 0\<close> \<open>j < 0\<close> show ?thesis by simp
  next
    assume "i < 0" "\<not> j < 0"
    with eq show ?thesis using show_nat_no_minus [of "nat j"] by (simp add: show_int_def) metis
  next
    assume "\<not> i < 0" "j < 0"
    with eq show ?thesis using show_nat_no_minus [of "nat i"] by (simp add: show_int_def)
  next
    assume "\<not> i < 0" "\<not> j < 0"
    with eq show ?thesis by (simp add: show_int_def)
  qed
qed simp

lemma show_int_chars: "c \<in> set (show_int i) \<Longrightarrow> is_digit c \<or> c = CHR ''-''"
  by (auto simp: show_int_def dest: show_nat_digits split: if_splits)

lemma colon_notin_show_int [simp]: "CHR '':'' \<notin> set (show_int i)"
  using show_int_chars [of "CHR '':''" i] by (auto simp: is_digit_def)

lemma show_int_nonempty [simp]: "show_int i \<noteq> []"
  by (simp add: show_int_def)

text \<open>A separator that neither side contains splits a string in one way.\<close>

lemma separator_split:
  "c \<notin> set a \<Longrightarrow> c \<notin> set a' \<Longrightarrow> a @ c # b = a' @ c # b' \<longleftrightarrow> a = a' \<and> b = b'"
proof (induction a arbitrary: a')
  case Nil
  then show ?case by (cases a') auto
next
  case (Cons x xs)
  then show ?case by (cases a') auto
qed

text \<open>\<open>Array.prototype.join\<close>, \<open>String.prototype.split\<close> on one character, and \<open>String.prototype.padStart(2, "0")\<close>.\<close>

fun js_join :: "string \<Rightarrow> string list \<Rightarrow> string" where
  "js_join sep [] = []"
| "js_join sep [x] = x"
| "js_join sep (x # y # ys) = x @ sep @ js_join sep (y # ys)"

fun js_split :: "char \<Rightarrow> string \<Rightarrow> string list" where
  "js_split c [] = [[]]"
| "js_split c (x # xs) =
     (if x = c then [] # js_split c xs
      else case js_split c xs of [] \<Rightarrow> [[x]] | l # ls \<Rightarrow> (x # l) # ls)"

lemma js_split_nonempty [simp]: "js_split c s \<noteq> []"
  by (cases s) (auto split: list.splits)

lemma js_split_plain: "c \<notin> set s \<Longrightarrow> js_split c s = [s]"
  by (induction s) auto

lemma js_split_append: "c \<notin> set s \<Longrightarrow> js_split c (s @ c # rest) = s # js_split c rest"
  by (induction s) auto

lemma js_split_join:
  assumes "ls \<noteq> []" "\<And>l. l \<in> set ls \<Longrightarrow> c \<notin> set l"
  shows "js_split c (js_join [c] ls) = ls"
  using assms by (induction "[c]" ls rule: js_join.induct) (auto simp: js_split_plain js_split_append)

definition pad2 :: "int \<Rightarrow> string" where
  "pad2 n = (let s = show_int n in if length s < 2 then replicate (2 - length s) (CHR ''0'') @ s else s)"

text \<open>The character classes \<open>[A-Za-z0-9]\<close> and \<open>[a-z]\<close>.\<close>

definition alphanumeric :: "char \<Rightarrow> bool" where
  "alphanumeric c \<longleftrightarrow> (let n = of_char c :: nat in 48 \<le> n \<and> n \<le> 57 \<or> 65 \<le> n \<and> n \<le> 90 \<or> 97 \<le> n \<and> n \<le> 122)"

definition lower_case :: "char \<Rightarrow> bool" where
  "lower_case c \<longleftrightarrow> (let n = of_char c :: nat in 97 \<le> n \<and> n \<le> 122)"

section \<open>Lists\<close>

lemma find_in_set: "List.find P xs = Some x \<Longrightarrow> x \<in> set xs \<and> P x"
  by (auto simp: find_Some_iff)

lemma find_cong_set: "(\<And>x. x \<in> set xs \<Longrightarrow> P x = Q x) \<Longrightarrow> List.find P xs = List.find Q xs"
  by (induction xs) auto

lemma find_split:
  "List.find P xs = Some x \<Longrightarrow> \<exists>us vs. xs = us @ x # vs \<and> P x \<and> (\<forall>u \<in> set us. \<not> P u)"
proof (induction xs)
  case (Cons y ys)
  show ?case
  proof (cases "P y")
    case True
    with Cons.prems have "y # ys = [] @ x # ys" "P x" by auto
    then show ?thesis by fastforce
  next
    case False
    with Cons obtain us vs where "ys = us @ x # vs" "P x" "\<forall>u \<in> set us. \<not> P u" by auto
    with False have "y # ys = (y # us) @ x # vs" "P x" "\<forall>u \<in> set (y # us). \<not> P u" by auto
    then show ?thesis by blast
  qed
qed simp

lemma find_append:
  "List.find P (xs @ ys) = (case List.find P xs of Some x \<Rightarrow> Some x | None \<Rightarrow> List.find P ys)"
  by (induction xs) auto

lemma find_map_conv: "List.find P (map f xs) = map_option f (List.find (\<lambda>x. P (f x)) xs)"
  by (induction xs) auto

lemma find_filter_conv: "List.find P (filter Q xs) = List.find (\<lambda>x. Q x \<and> P x) xs"
  by (induction xs) auto

lemma set_map_filter_iff [simp]: "y \<in> set (List.map_filter f xs) \<longleftrightarrow> (\<exists>x \<in> set xs. f x = Some y)"
  by (induction xs) (auto simp: List.map_filter_def)

lemma bex_map_filter: "(\<exists>y \<in> set (List.map_filter f xs). P y) \<longleftrightarrow> (\<exists>x \<in> set xs. \<exists>y. f x = Some y \<and> P y)"
  unfolding Bex_def set_map_filter_iff by blast

lemma distinct_map_int_upt [simp]: "distinct (map int [m..<n])"
  by (simp add: distinct_map)

lemma sorted_map_int_upt [simp]: "sorted (map int [m..<n])"
  by (simp add: sorted_map sorted_wrt_iff_nth_less)

lemma sum_list_nonneg_int: "(\<And>x. x \<in> set xs \<Longrightarrow> 0 \<le> f x) \<Longrightarrow> 0 \<le> sum_list (map f xs)" for f :: "'a \<Rightarrow> int"
  by (induction xs) auto

end
