(* ===== verification/JS_Date.thy ===== *)
theory JS_Date
  imports PC_Prelude
begin

text \<open>
  The part of the JavaScript \<open>Date\<close> object that the toolkit computes with: the proleptic
  Gregorian calendar of ECMAScript (day numbers, \<open>Date.UTC\<close>, the \<open>getUTC*\<close> readers), on whole
  numbers. Days are counted from 1970-01-01, instants are milliseconds from then. The lemmas give
  the two round trips between a day number and its calendar date, which the budget windows of
  \<open>Budget_Window\<close> rest on. The range check of \<open>TimeClip\<close> (about 270000 years either side of
  1970) is not modelled.
\<close>

definition msPerDay :: int where
  "msPerDay = 86400000"

section \<open>Years\<close>

definition day_from_year :: "int \<Rightarrow> int" where
  "day_from_year y = 365 * (y - 1970) + (y - 1969) div 4 - (y - 1901) div 100 + (y - 1601) div 400"

definition leap_year :: "int \<Rightarrow> bool" where
  "leap_year y \<longleftrightarrow> (y mod 4 = 0 \<and> y mod 100 \<noteq> 0) \<or> y mod 400 = 0"

definition year_of_day :: "int \<Rightarrow> int" where
  "year_of_day d =
     (let y = 1970 + (400 * d) div 146097
      in if d < day_from_year y then y - 1
         else if day_from_year (y + 1) \<le> d then y + 1 else y)"

lemma div_bounds:
  fixes a k :: int
  assumes "0 < k"
  shows "k * (a div k) \<le> a" "a < k * (a div k) + k"
  using mult_div_mod_eq [of k a] pos_mod_bound [OF assms, of a] pos_mod_sign [OF assms, of a]
  by linarith+

lemma div_less_int_iff:
  fixes a k n :: int
  assumes "0 < k"
  shows "a div k < n \<longleftrightarrow> a < n * k"
proof
  assume "a div k < n"
  then have "(a div k + 1) * k \<le> n * k" using assms by (intro mult_right_mono) auto
  then show "a < n * k" using div_bounds(2) [OF assms, of a] by (simp add: algebra_simps)
next
  assume "a < n * k"
  then have "k * (a div k) < k * n" using div_bounds(1) [OF assms, of a] by (simp add: mult.commute)
  then show "a div k < n" using assms by (simp add: mult_less_cancel_left_pos)
qed

lemma div_mod_Suc_step:
  fixes a k :: int
  assumes "1 < k"
  shows "(a + 1) div k = a div k + (if (a + 1) mod k = 0 then 1 else 0)"
proof (cases "a mod k + 1 = k")
  case True
  have "a + 1 = a div k * k + (a mod k + 1)" using div_mult_mod_eq [of a k] by simp
  then have "a + 1 = (a div k + 1) * k" unfolding True by (simp add: algebra_simps)
  then show ?thesis using assms by simp
next
  case False
  let ?q = "a div k" and ?r = "a mod k + 1"
  have a: "a + 1 = k * ?q + ?r" using mult_div_mod_eq [of k a] by simp
  have r: "0 < ?r" "?r < k"
    using False assms pos_mod_sign [of k a] pos_mod_bound [of k a] by linarith+
  have "(a + 1) div k = ?q" "(a + 1) mod k = ?r"
    using r int_div_pos_eq [OF a] int_mod_pos_eq [OF a] by simp_all
  then show ?thesis using r by simp
qed

lemma day_from_year_Suc:
  "day_from_year (y + 1) = day_from_year y + (if leap_year y then 366 else 365)"
proof -
  have 4: "(y + 1 - 1969) div 4 = (y - 1969) div 4 + (if y mod 4 = 0 then 1 else 0)"
    using div_mod_Suc_step [of 4 "y - 1969"] mod_mult_self2 [of "y - 1968" 4 492]
    by (simp add: algebra_simps)
  have 100: "(y + 1 - 1901) div 100 = (y - 1901) div 100 + (if y mod 100 = 0 then 1 else 0)"
    using div_mod_Suc_step [of 100 "y - 1901"] mod_mult_self2 [of "y - 1900" 100 19]
    by (simp add: algebra_simps)
  have 400: "(y + 1 - 1601) div 400 = (y - 1601) div 400 + (if y mod 400 = 0 then 1 else 0)"
    using div_mod_Suc_step [of 400 "y - 1601"] mod_mult_self2 [of "y - 1600" 400 4]
    by (simp add: algebra_simps)
  have "y mod 400 = 0 \<Longrightarrow> y mod 100 = 0" "y mod 100 = 0 \<Longrightarrow> y mod 4 = 0"
    using mod_mod_cancel [of 100 400 y] mod_mod_cancel [of 4 100 y] by simp_all
  then show ?thesis
    unfolding day_from_year_def 4 100 400 leap_year_def by auto
qed

lemma day_from_year_bounds:
  "146097 * (y - 1970) - 506 \<le> 400 * day_from_year y"
  "400 * day_from_year y \<le> 146097 * (y - 1970) + 589"
proof -
  define a b c where "a = (y - 1969) div 4" and "b = (y - 1901) div 100" and "c = (y - 1601) div 400"
  have a: "4 * a \<le> y - 1969" "y - 1969 < 4 * a + 4"
    unfolding a_def by (rule div_bounds; simp)+
  have b: "100 * b \<le> y - 1901" "y - 1901 < 100 * b + 100"
    unfolding b_def by (rule div_bounds; simp)+
  have c: "400 * c \<le> y - 1601" "y - 1601 < 400 * c + 400"
    unfolding c_def by (rule div_bounds; simp)+
  have day: "day_from_year y = 365 * (y - 1970) + a - b + c"
    unfolding day_from_year_def a_def b_def c_def ..
  show "146097 * (y - 1970) - 506 \<le> 400 * day_from_year y"
    unfolding day using a b c by (simp add: algebra_simps)
  show "400 * day_from_year y \<le> 146097 * (y - 1970) + 589"
    unfolding day using a b c by (simp add: algebra_simps)
qed

lemma year_of_day_bounds:
  "day_from_year (year_of_day d) \<le> d" "d < day_from_year (year_of_day d + 1)"
proof -
  define y where "y = 1970 + (400 * d) div 146097"
  have q: "146097 * (y - 1970) \<le> 400 * d" "400 * d < 146097 * (y - 1970) + 146097"
    using div_bounds [of 146097 "400 * d"] unfolding y_def by auto
  have below: "day_from_year (y - 1) \<le> d"
    using day_from_year_bounds(2) [of "y - 1"] q by (simp add: algebra_simps)
  have above: "d < day_from_year (y + 2)"
    using day_from_year_bounds(1) [of "y + 2"] q by (simp add: algebra_simps)
  have eq: "year_of_day d = (if d < day_from_year y then y - 1
      else if day_from_year (y + 1) \<le> d then y + 1 else y)"
    by (simp add: year_of_day_def y_def Let_def)
  show "day_from_year (year_of_day d) \<le> d" using below eq by auto
  show "d < day_from_year (year_of_day d + 1)" using above eq by (auto simp: add.assoc)
qed

lemma day_from_year_mono_add: "day_from_year y \<le> day_from_year (y + int n)"
proof (induction n)
  case (Suc n)
  have "day_from_year (y + int n + 1) \<ge> day_from_year (y + int n)"
    using day_from_year_Suc [of "y + int n"] by simp
  moreover have "y + int (Suc n) = y + int n + 1" by simp
  ultimately show ?case using Suc by (simp only: )
qed simp

lemma day_from_year_mono: "y \<le> y' \<Longrightarrow> day_from_year y \<le> day_from_year y'"
  using day_from_year_mono_add [of y "nat (y' - y)"] by simp

lemma year_of_day_unique:
  assumes "day_from_year y \<le> d" "d < day_from_year (y + 1)"
  shows "year_of_day d = y"
proof (rule ccontr)
  assume "year_of_day d \<noteq> y"
  then consider "year_of_day d + 1 \<le> y" | "y + 1 \<le> year_of_day d" by linarith
  then show False
  proof cases
    case 1
    then show False
      using day_from_year_mono [OF 1] year_of_day_bounds(2) [of d] assms(1) by linarith
  next
    case 2
    then show False
      using day_from_year_mono [OF 2] year_of_day_bounds(1) [of d] assms(2) by linarith
  qed
qed

section \<open>Months\<close>

text \<open>Days of the year before month \<open>m\<close> (\<open>1\<close> is January), and the month of a day of the year.\<close>

definition days_before :: "bool \<Rightarrow> int \<Rightarrow> int" where
  "days_before leap m =
     (if m \<le> 1 then 0 else if m = 2 then 31 else
      (if m = 3 then 59 else if m = 4 then 90 else if m = 5 then 120 else if m = 6 then 151
       else if m = 7 then 181 else if m = 8 then 212 else if m = 9 then 243 else if m = 10 then 273
       else if m = 11 then 304 else if m = 12 then 334 else 365) + (if leap then 1 else 0))"

definition month_of_yday :: "bool \<Rightarrow> int \<Rightarrow> int" where
  "month_of_yday leap n =
     (if n < days_before leap 2 then 1 else if n < days_before leap 3 then 2
      else if n < days_before leap 4 then 3 else if n < days_before leap 5 then 4
      else if n < days_before leap 6 then 5 else if n < days_before leap 7 then 6
      else if n < days_before leap 8 then 7 else if n < days_before leap 9 then 8
      else if n < days_before leap 10 then 9 else if n < days_before leap 11 then 10
      else if n < days_before leap 12 then 11 else 12)"

definition days_in_month :: "int \<Rightarrow> int \<Rightarrow> int" where
  "days_in_month y m = days_before (leap_year y) (m + 1) - days_before (leap_year y) m"

definition in_month :: "bool \<Rightarrow> int \<Rightarrow> int \<Rightarrow> bool" where
  "in_month leap n m \<longleftrightarrow> 1 \<le> m \<and> m \<le> 12 \<and> days_before leap m \<le> n \<and> n < days_before leap (m + 1)"

lemma if_intro: "(c \<Longrightarrow> P a) \<Longrightarrow> (\<not> c \<Longrightarrow> P b) \<Longrightarrow> P (if c then a else b)"
  by simp

lemma in_month_of_yday:
  assumes "0 \<le> n" "n < (if leap then 366 else 365)"
  shows "in_month leap n (month_of_yday leap n)"
  using assms unfolding month_of_yday_def
  by (intro if_intro [where P = "in_month leap n"]; cases leap) (simp_all add: in_month_def days_before_def)

lemma month_of_yday_bounds:
  assumes "0 \<le> n" "n < (if leap then 366 else 365)"
  shows "1 \<le> month_of_yday leap n" "month_of_yday leap n \<le> 12"
    "days_before leap (month_of_yday leap n) \<le> n" "n < days_before leap (month_of_yday leap n + 1)"
  using in_month_of_yday [OF assms] by (simp_all add: in_month_def)

lemma month_cases:
  assumes "1 \<le> m" "m \<le> (12::int)"
  obtains "m = 1" | "m = 2" | "m = 3" | "m = 4" | "m = 5" | "m = 6" | "m = 7" | "m = 8" | "m = 9"
    | "m = 10" | "m = 11" | "m = 12"
proof -
  have "m \<in> set [1..12]" using assms by simp
  then have "m = 1 \<or> m = 2 \<or> m = 3 \<or> m = 4 \<or> m = 5 \<or> m = 6 \<or> m = 7 \<or> m = 8 \<or> m = 9
      \<or> m = 10 \<or> m = 11 \<or> m = 12"
    by (simp add: upto_rec1 del: set_upto)
  then show ?thesis using that by blast
qed

lemma month_of_yday_unique:
  assumes "1 \<le> m" "m \<le> 12" "days_before leap m \<le> n" "n < days_before leap (m + 1)"
  shows "month_of_yday leap n = m"
  using assms(1,2)
  by (rule month_cases; insert assms(3,4)) (simp_all add: month_of_yday_def days_before_def split: if_splits)

section \<open>Calendar dates\<close>

type_synonym civil = "int \<times> int \<times> int" \<comment> \<open>year, month 1 to 12, day of the month\<close>

definition make_day :: "int \<Rightarrow> int \<Rightarrow> int \<Rightarrow> int" where
  "make_day y mon d =
     (let ym = y + mon div 12
      in day_from_year ym + days_before (leap_year ym) (mon mod 12 + 1) + d - 1)"

definition civil_of_day :: "int \<Rightarrow> civil" where
  "civil_of_day n =
     (let y = year_of_day n; yd = n - day_from_year y; m = month_of_yday (leap_year y) yd
      in (y, m, yd - days_before (leap_year y) m + 1))"

definition valid_civil :: "civil \<Rightarrow> bool" where
  "valid_civil c = (case c of (y, m, d) \<Rightarrow> 1 \<le> m \<and> m \<le> 12 \<and> 1 \<le> d \<and> d \<le> days_in_month y m)"

lemma make_day_month: "1 \<le> m \<Longrightarrow> m \<le> 12 \<Longrightarrow>
    make_day y (m - 1) d = day_from_year y + days_before (leap_year y) m + d - 1"
  by (simp add: make_day_def Let_def)

lemma make_day_add: "make_day y mon (d + n) = make_day y mon d + n"
  by (simp add: make_day_def Let_def)

lemma civil_of_day_valid: "valid_civil (civil_of_day n)"
proof -
  let ?y = "year_of_day n"
  have "0 \<le> n - day_from_year ?y" "n - day_from_year ?y < (if leap_year ?y then 366 else 365)"
    using year_of_day_bounds [of n] day_from_year_Suc [of ?y] by auto
  from month_of_yday_bounds [OF this] show ?thesis
    by (simp add: civil_of_day_def Let_def valid_civil_def days_in_month_def)
qed

lemma make_day_civil: "civil_of_day n = (y, m, d) \<Longrightarrow> make_day y (m - 1) d = n"
  using civil_of_day_valid [of n]
  by (auto simp: civil_of_day_def Let_def valid_civil_def make_day_month)

lemma days_before_mono: "1 \<le> m \<Longrightarrow> m \<le> 12 \<Longrightarrow> days_before leap (m + 1) \<le> (if leap then 366 else 365)"
  by (erule (1) month_cases) (simp_all add: days_before_def)

lemma days_before_nonneg: "0 \<le> days_before leap m"
  by (simp add: days_before_def)

lemma civil_make_day:
  assumes "valid_civil (y, m, d)"
  shows "civil_of_day (make_day y (m - 1) d) = (y, m, d)"
proof -
  define n where "n = make_day y (m - 1) d"
  from assms have m: "1 \<le> m" "m \<le> 12" and d: "1 \<le> d" "d \<le> days_in_month y m"
    by (auto simp: valid_civil_def)
  have n: "n = day_from_year y + (days_before (leap_year y) m + d - 1)"
    by (simp add: n_def make_day_month m)
  have yd: "days_before (leap_year y) m \<le> n - day_from_year y"
    "n - day_from_year y < days_before (leap_year y) (m + 1)"
    using d n by (auto simp: days_in_month_def)
  have "year_of_day n = y"
  proof (rule year_of_day_unique)
    show "day_from_year y \<le> n" using yd(1) days_before_nonneg [of "leap_year y" m] by linarith
    show "n < day_from_year (y + 1)"
      using yd(2) days_before_mono [OF m, of "leap_year y"] day_from_year_Suc [of y] by linarith
  qed
  moreover have "month_of_yday (leap_year y) (n - day_from_year y) = m"
    by (rule month_of_yday_unique [OF m yd])
  ultimately show ?thesis using n unfolding n_def [symmetric] by (simp add: civil_of_day_def Let_def)
qed

section \<open>\<open>Date.UTC\<close> and the UTC readers\<close>

text \<open>
  \<open>Date.UTC(year, month, day, hour, minute, second)\<close> with a month counted from zero; a year from
  0 to 99 is read as 1900 to 1999, as ECMAScript prescribes.
\<close>

definition full_year :: "int \<Rightarrow> int" where
  "full_year y = (if 0 \<le> y \<and> y \<le> 99 then 1900 + y else y)"

definition date_utc :: "int \<Rightarrow> int \<Rightarrow> int \<Rightarrow> int \<Rightarrow> int \<Rightarrow> int \<Rightarrow> instant" where
  "date_utc y mon d h mi s =
     make_day (full_year y) mon d * msPerDay + h * 3600000 + mi * 60000 + s * 1000"

definition utc_day :: "instant \<Rightarrow> int" where
  "utc_day t = t div msPerDay"

definition utc_civil :: "instant \<Rightarrow> civil" where
  "utc_civil t = civil_of_day (utc_day t)"

definition utc_hour :: "instant \<Rightarrow> int" where
  "utc_hour t = (t mod msPerDay) div 3600000"

definition utc_minute :: "instant \<Rightarrow> int" where
  "utc_minute t = (t mod 3600000) div 60000"

definition utc_second :: "instant \<Rightarrow> int" where
  "utc_second t = (t mod 60000) div 1000"

text \<open>\<open>getUTCDay\<close>: 0 is Sunday; 1970-01-01 was a Thursday.\<close>

definition utc_weekday :: "instant \<Rightarrow> int" where
  "utc_weekday t = (utc_day t + 4) mod 7"

lemma utc_fields_sum:
  "utc_day t * msPerDay + utc_hour t * 3600000 + utc_minute t * 60000 + utc_second t * 1000
     = t div 1000 * 1000"
  unfolding utc_day_def utc_hour_def utc_minute_def utc_second_def msPerDay_def
proof -
  have 1: "t mod 86400000 div 3600000 * 3600000 + t mod 3600000 = t mod 86400000"
    using div_mult_mod_eq [of "t mod 86400000" 3600000] by (simp add: mod_mod_cancel)
  have 2: "t mod 3600000 div 60000 * 60000 + t mod 60000 = t mod 3600000"
    using div_mult_mod_eq [of "t mod 3600000" 60000] by (simp add: mod_mod_cancel)
  have 3: "t mod 60000 div 1000 * 1000 + t mod 1000 = t mod 60000"
    using div_mult_mod_eq [of "t mod 60000" 1000] by (simp add: mod_mod_cancel)
  show "t div 86400000 * 86400000 + t mod 86400000 div 3600000 * 3600000
      + t mod 3600000 div 60000 * 60000 + t mod 60000 div 1000 * 1000 = t div 1000 * 1000"
    using 1 2 3 div_mult_mod_eq [of t 86400000] div_mult_mod_eq [of t 1000] by linarith
qed

lemma date_utc_of_fields:
  assumes "utc_civil t = (y, m, d)" "\<not> (0 \<le> y \<and> y \<le> 99)"
  shows "date_utc y (m - 1) d (utc_hour t) (utc_minute t) (utc_second t) = t div 1000 * 1000"
  using assms make_day_civil [of "utc_day t" y m d] utc_fields_sum [of t]
  by (auto simp: date_utc_def full_year_def utc_civil_def)

lemma utc_day_date_utc:
  "\<not> (0 \<le> y \<and> y \<le> 99) \<Longrightarrow> utc_day (date_utc y mon d 0 0 0) = make_day y mon d"
  by (auto simp: date_utc_def utc_day_def full_year_def msPerDay_def)

lemma utc_minute_of_day: "utc_hour t * 60 + utc_minute t = (t mod msPerDay) div 60000"
  unfolding utc_hour_def utc_minute_def msPerDay_def
proof -
  have 1: "t mod 3600000 = t mod 86400000 mod 3600000" by (simp add: mod_mod_cancel)
  have "t mod 86400000 = t mod 86400000 div 3600000 * 3600000 + t mod 3600000"
    unfolding 1 by simp
  then have "t mod 86400000 div 60000
      = (t mod 3600000 + t mod 86400000 div 3600000 * 60 * 60000) div 60000"
    by (simp add: algebra_simps)
  then show "t mod 86400000 div 3600000 * 60 + t mod 3600000 div 60000 = t mod 86400000 div 60000"
    by (simp only: div_mult_self1)
qed

end
