(* ===== verification/Policy_Model.thy ===== *)
theory Policy_Model
  imports PC_Prelude
begin

text \<open>
  The enumerated value sets of \<open>policy/enums.ts\<close>, their wire names, and the order in which the
  engine emits scopes (\<open>localeCompare\<close> on the three scope names, which for these lower case
  ASCII words is the alphabetical order).
\<close>

section \<open>Enumerations\<close>

datatype scope = Overall | Activity | Group

datatype platform = Linux | Windows

datatype budget_window = Daily | Weekly | Monthly

datatype activity_kind = App | App_Group | Domain_Kind | Domain_Group

datatype match_type = Exact | Substring | Glob | Regex

datatype schedule_action = Allow | Deny | Extend

datatype sound_profile = Sound_Off | Sound_Subtle | Sound_Prominent

datatype audit_outcome = Audit_Ok | Audit_Failed | Audit_Unreachable | Audit_Timeout | Audit_Parse_Error

datatype queue_status = Q_Pending | Q_Failed

datatype retention_category = Usage_Samples | Grant_Ledger | Audit_Log | Date_Overrides

section \<open>Wire names\<close>

fun scope_name :: "scope \<Rightarrow> string" where
  "scope_name Overall = ''overall''"
| "scope_name Activity = ''activity''"
| "scope_name Group = ''group''"

fun window_name :: "budget_window \<Rightarrow> string" where
  "window_name Daily = ''daily''"
| "window_name Weekly = ''weekly''"
| "window_name Monthly = ''monthly''"

lemma scope_name_inject [simp]: "scope_name a = scope_name b \<longleftrightarrow> a = b"
  by (cases a; cases b) simp_all

lemma window_name_inject [simp]: "window_name a = window_name b \<longleftrightarrow> a = b"
  by (cases a; cases b) simp_all

lemma colon_notin_scope_name [simp]: "CHR '':'' \<notin> set (scope_name s)"
  by (cases s) simp_all

lemma colon_notin_window_name [simp]: "CHR '':'' \<notin> set (window_name w)"
  by (cases w) simp_all

section \<open>The order of scopes\<close>

instantiation scope :: linorder
begin

definition less_eq_scope :: "scope \<Rightarrow> scope \<Rightarrow> bool" where
  "less_eq_scope a b \<longleftrightarrow> a = b \<or> a = Activity \<or> (a = Group \<and> b = Overall)"

definition less_scope :: "scope \<Rightarrow> scope \<Rightarrow> bool" where
  "less_scope a b \<longleftrightarrow> a \<noteq> b \<and> (a = Activity \<or> (a = Group \<and> b = Overall))"

instance
proof
  fix a b c :: scope
  show "a < b \<longleftrightarrow> a \<le> b \<and> \<not> b \<le> a"
    by (cases a; cases b) (simp_all add: less_eq_scope_def less_scope_def)
  show "a \<le> a" by (simp add: less_eq_scope_def)
  show "a \<le> b \<Longrightarrow> b \<le> c \<Longrightarrow> a \<le> c"
    by (cases a; cases b; cases c) (simp_all add: less_eq_scope_def)
  show "a \<le> b \<Longrightarrow> b \<le> a \<Longrightarrow> a = b"
    by (cases a; cases b) (simp_all add: less_eq_scope_def)
  show "a \<le> b \<or> b \<le> a"
    by (cases a; cases b) (simp_all add: less_eq_scope_def)
qed

end

section \<open>Target keys\<close>

text \<open>
  The engine keys its maps by \<open>`${scope}:${targetId}`\<close>, with a word in place of a null id; the
  keys of two targets are equal only if the targets are.
\<close>

definition target_key :: "scope \<Rightarrow> string \<Rightarrow> string" where
  "target_key s t = scope_name s @ CHR '':'' # t"

definition id_or :: "string \<Rightarrow> int option \<Rightarrow> string" where
  "id_or word i = (case i of None \<Rightarrow> word | Some n \<Rightarrow> show_int n)"

lemma target_key_inject [simp]: "target_key s t = target_key s' t' \<longleftrightarrow> s = s' \<and> t = t'"
  unfolding target_key_def by (subst separator_split) auto

lemma show_int_not_word:
  assumes "c \<in> set w" "\<not> is_digit c" "c \<noteq> CHR ''-''"
  shows "show_int n \<noteq> w"
  using assms show_int_chars [of c n] by metis

lemma id_or_inject:
  assumes "c \<in> set w" "\<not> is_digit c" "c \<noteq> CHR ''-''"
  shows "id_or w i = id_or w j \<longleftrightarrow> i = j"
  using show_int_not_word [OF assms] by (auto simp: id_or_def split: option.splits)

lemma id_or_overall_inject [simp]: "id_or ''overall'' i = id_or ''overall'' j \<longleftrightarrow> i = j"
  by (rule id_or_inject [of "CHR ''o''"]) (simp_all add: is_digit_def)

lemma id_or_null_inject [simp]: "id_or ''null'' i = id_or ''null'' j \<longleftrightarrow> i = j"
  by (rule id_or_inject [of "CHR ''n''"]) (simp_all add: is_digit_def)

end
