(* ===== verification/Budget_Window.thy ===== *)
theory Budget_Window
  imports JS_Date Policy_Model
begin

unbundle bit_operations_syntax

text \<open>
  \<open>policy/budget-window.ts\<close>: the one place local time enters the computation. A time zone is the
  function from an instant to the zone's offset from UTC in milliseconds, and the zone database of
  the runtime's \<open>Intl\<close> is a parameter, the partial function \<open>tzdb\<close> from zone names to zones.
  \<open>Intl.DateTimeFormat\<close> reads the calendar and clock fields of the instant shifted by the offset,
  to the second (\<open>zonedParts\<close>). Everything else is computed as the code computes it, the two-pass
  \<open>wallTimeToUtc\<close> included.
\<close>

section \<open>Zones\<close>

type_synonym zone = "instant \<Rightarrow> int"
type_synonym tzdb = "string \<Rightarrow> zone option"

record budget_bounds =
  bw_start :: instant
  bw_end :: instant
  bw_tz :: string

record timezone_change =
  tzc_at :: instant
  tzc_previousTz :: string

record zoned_parts =
  zp_year :: int
  zp_month :: int
  zp_day :: int
  zp_hour :: int
  zp_minute :: int
  zp_second :: int

datatype tz_error = InvalidTimeZone string

definition isValidTimeZone :: "tzdb \<Rightarrow> string \<Rightarrow> bool" where
  "isValidTimeZone db tz \<longleftrightarrow> length tz \<noteq> 0 \<and> db tz \<noteq> None"

definition assertTimeZone :: "tzdb \<Rightarrow> string \<Rightarrow> tz_error + unit" where
  "assertTimeZone db tz = (if isValidTimeZone db tz then Inr () else Inl (InvalidTimeZone tz))"

definition resolveEffectiveTz :: "string option \<Rightarrow> string \<Rightarrow> string" where
  "resolveEffectiveTz userTz defaultTz = nullish userTz defaultTz"

definition zone_of :: "tzdb \<Rightarrow> string \<Rightarrow> zone" where
  "zone_of db tz = (case db tz of Some z \<Rightarrow> z | None \<Rightarrow> (\<lambda>_. 0))"

section \<open>Wall-clock fields\<close>

definition zonedParts :: "zone \<Rightarrow> instant \<Rightarrow> zoned_parts" where
  "zonedParts z t =
     (let local = t + z t; (y, m, d) = utc_civil local
      in \<lparr>zp_year = y, zp_month = m, zp_day = d, zp_hour = utc_hour local,
          zp_minute = utc_minute local, zp_second = utc_second local\<rparr>)"

definition tzOffsetMs :: "zone \<Rightarrow> instant \<Rightarrow> int" where
  "tzOffsetMs z t =
     (let p = zonedParts z t
      in date_utc (zp_year p) (zp_month p - 1) (zp_day p) (zp_hour p) (zp_minute p) (zp_second p) - t)"

definition wallTimeToUtc :: "int \<Rightarrow> int \<Rightarrow> int \<Rightarrow> int \<Rightarrow> int \<Rightarrow> int \<Rightarrow> zone \<Rightarrow> instant" where
  "wallTimeToUtc y m d h mi s z =
     (let wallAsUtc = date_utc y (m - 1) d h mi s;
          firstOffset = tzOffsetMs z wallAsUtc;
          utc = wallAsUtc - firstOffset;
          secondOffset = tzOffsetMs z utc
      in if secondOffset \<noteq> firstOffset then wallAsUtc - secondOffset else utc)"

definition localMidnight :: "int \<Rightarrow> int \<Rightarrow> int \<Rightarrow> zone \<Rightarrow> instant" where
  "localMidnight y m d z = wallTimeToUtc y m d 0 0 0 z"

definition localWeekday :: "int \<Rightarrow> int \<Rightarrow> int \<Rightarrow> int" where
  "localWeekday y m d = utc_weekday (date_utc y (m - 1) d 0 0 0)"

text \<open>\<open>setUTCDate\<close> keeps the year, the month and the time of day and replaces the day.\<close>

definition set_utc_date :: "instant \<Rightarrow> int \<Rightarrow> instant" where
  "set_utc_date t n =
     (case utc_civil t of (y, m, _) \<Rightarrow> make_day y (m - 1) n * msPerDay + t mod msPerDay)"

definition addDays :: "int \<Rightarrow> int \<Rightarrow> int \<Rightarrow> int \<Rightarrow> civil" where
  "addDays y m d n =
     (let t = date_utc y (m - 1) d 0 0 0
      in utc_civil (set_utc_date t (snd (snd (utc_civil t)) + n)))"

section \<open>Windows\<close>

definition window_dates :: "budget_window \<Rightarrow> int \<Rightarrow> int \<Rightarrow> int \<Rightarrow> civil \<times> civil" where
  "window_dates w y m d =
     (case w of
        Daily \<Rightarrow> ((y, m, d), addDays y m d 1)
      | Weekly \<Rightarrow>
          let daysSinceMonday = (localWeekday y m d + 6) mod 7;
              (my, mm, md) = addDays y m d (- daysSinceMonday)
          in ((my, mm, md), addDays my mm md 7)
      | Monthly \<Rightarrow> ((y, m, 1), if m = 12 then (y + 1, 1, 1) else (y, m + 1, 1)))"

definition windowContaining ::
    "tzdb \<Rightarrow> budget_window \<Rightarrow> instant \<Rightarrow> string \<Rightarrow> tz_error + budget_bounds" where
  "windowContaining db w t tz =
     bindE (assertTimeZone db tz) (\<lambda>_.
       let z = zone_of db tz; p = zonedParts z t;
           ((sy, sm, sd), (ey, em, ed)) = window_dates w (zp_year p) (zp_month p) (zp_day p)
       in Inr \<lparr>bw_start = localMidnight sy sm sd z, bw_end = localMidnight ey em ed z, bw_tz = tz\<rparr>)"

definition localCalendarDate :: "tzdb \<Rightarrow> instant \<Rightarrow> string \<Rightarrow> tz_error + civil" where
  "localCalendarDate db t tz =
     bindE (assertTimeZone db tz) (\<lambda>_.
       let p = zonedParts (zone_of db tz) t in Inr (zp_year p, zp_month p, zp_day p))"

definition localTimeOfDayMinutes :: "tzdb \<Rightarrow> instant \<Rightarrow> string \<Rightarrow> tz_error + int" where
  "localTimeOfDayMinutes db t tz =
     bindE (assertTimeZone db tz) (\<lambda>_.
       let p = zonedParts (zone_of db tz) t in Inr (zp_hour p * 60 + zp_minute p))"

definition isoWeekday :: "int \<Rightarrow> int \<Rightarrow> int \<Rightarrow> int" where
  "isoWeekday y m d = (localWeekday y m d + 6) mod 7 + 1"

definition localDayBounds :: "tzdb \<Rightarrow> int \<Rightarrow> int \<Rightarrow> int \<Rightarrow> string \<Rightarrow> tz_error + budget_bounds" where
  "localDayBounds db y m d tz =
     bindE (assertTimeZone db tz) (\<lambda>_.
       let z = zone_of db tz; (ny, nm, nd) = addDays y m d 1
       in Inr \<lparr>bw_start = localMidnight y m d z, bw_end = localMidnight ny nm nd z, bw_tz = tz\<rparr>)"

definition effectiveWindow ::
    "tzdb \<Rightarrow> budget_window \<Rightarrow> instant \<Rightarrow> string \<Rightarrow> timezone_change option \<Rightarrow> tz_error + budget_bounds" where
  "effectiveWindow db w now effectiveTz change =
     (case change of
        None \<Rightarrow> windowContaining db w now effectiveTz
      | Some c \<Rightarrow>
          if now < tzc_at c then windowContaining db w now effectiveTz
          else bindE (windowContaining db w (tzc_at c) (tzc_previousTz c)) (\<lambda>pinned.
            if now < bw_end pinned then Inr pinned
            else bindE (windowContaining db w now effectiveTz) (\<lambda>natural.
              if bw_start natural < bw_end pinned
              then Inr \<lparr>bw_start = bw_end pinned, bw_end = bw_end natural, bw_tz = effectiveTz\<rparr>
              else Inr natural)))"

section \<open>Calendar lemmas\<close>

text \<open>
  The specification of a window: the day numbers of its first day and of the day after its last.
  From 1870 on no date falls into the years 0 to 99 that \<open>Date.UTC\<close> reads as 1900 to 1999.
\<close>

definition window_days :: "budget_window \<Rightarrow> int \<Rightarrow> int \<times> int" where
  "window_days w n =
     (case w of
        Daily \<Rightarrow> (n, n + 1)
      | Weekly \<Rightarrow> (n - (n + 3) mod 7, n - (n + 3) mod 7 + 7)
      | Monthly \<Rightarrow> (case civil_of_day n of (y, m, _) \<Rightarrow> (make_day y (m - 1) 1, make_day y m 1)))"

lemma modern_year:
  assumes "- 36500 \<le> n"
  shows "100 \<le> year_of_day n"
proof (rule ccontr)
  assume "\<not> 100 \<le> year_of_day n"
  then have "day_from_year (year_of_day n + 1) \<le> day_from_year 100"
    by (intro day_from_year_mono) simp
  moreover have "day_from_year 100 < - 36500" by (simp add: day_from_year_def)
  ultimately show False using year_of_day_bounds(2) [of n] assms by linarith
qed

lemma modern_civil: "- 36500 \<le> n \<Longrightarrow> civil_of_day n = (y, m, d) \<Longrightarrow> \<not> (0 \<le> y \<and> y \<le> 99)"
  using modern_year [of n] by (simp add: civil_of_day_def Let_def)

lemma date_utc_civil:
  assumes "- 36500 \<le> n" "civil_of_day n = (y, m, d)"
  shows "date_utc y (m - 1) d 0 0 0 = n * msPerDay"
proof -
  have "full_year y = y" using modern_civil [OF assms] unfolding full_year_def by (rule if_not_P)
  with make_day_civil [OF assms(2)] show ?thesis by (simp add: date_utc_def)
qed

lemma utc_civil_day: "utc_civil (n * msPerDay) = civil_of_day n"
  by (simp add: utc_civil_def utc_day_def msPerDay_def)

lemma addDays_civil:
  assumes "- 36500 \<le> n" "civil_of_day n = (y, m, d)"
  shows "addDays y m d k = civil_of_day (n + k)"
  using assms make_day_civil [OF assms(2)]
  by (simp add: addDays_def Let_def date_utc_civil [OF assms] utc_civil_day set_utc_date_def make_day_add)

lemma localWeekday_civil:
  assumes "- 36500 \<le> n" "civil_of_day n = (y, m, d)"
  shows "localWeekday y m d = (n + 4) mod 7"
  by (simp add: localWeekday_def date_utc_civil [OF assms] utc_weekday_def utc_day_def msPerDay_def)

lemma weekday_shift: "((n + 4) mod 7 + 6) mod 7 = (n + 3) mod (7::int)"
  using mod_add_self2 [of "n + 3" 7] mod_add_left_eq [of "n + 4" 7 6] by (simp add: add.assoc)

lemma isoWeekday_civil:
  assumes "- 36500 \<le> n" "civil_of_day n = (y, m, d)"
  shows "isoWeekday y m d = (n + 3) mod 7 + 1"
  by (simp add: isoWeekday_def localWeekday_civil [OF assms] weekday_shift)

lemma isoWeekday_bounds: "1 \<le> isoWeekday y m d" "isoWeekday y m d \<le> 7"
  using pos_mod_bound [of 7 "localWeekday y m d + 6"] by (simp_all add: isoWeekday_def)

lemma first_of_month_valid: "1 \<le> m \<Longrightarrow> m \<le> 12 \<Longrightarrow> valid_civil (y, m, 1)"
  by (erule (1) month_cases) (simp_all add: valid_civil_def days_in_month_def days_before_def)

lemma month_end:
  assumes "1 \<le> m" "m \<le> 12"
  shows "make_day y m 1 = make_day y (m - 1) 1 + days_in_month y m"
proof (cases "m = 12")
  case True
  have "make_day y 12 1 = day_from_year (y + 1)" by (simp add: make_day_def Let_def days_before_def)
  then show ?thesis using True make_day_month [of 12 y 1] day_from_year_Suc [of y]
    by (simp add: days_in_month_def days_before_def)
next
  case False
  then show ?thesis using assms make_day_month [of m y 1] make_day_month [of "m + 1" y 1]
    by (simp add: days_in_month_def)
qed

lemma civil_first_of_next:
  assumes "1 \<le> m" "m \<le> 12"
  shows "civil_of_day (make_day y m 1) = (if m = 12 then (y + 1, 1, 1) else (y, m + 1, 1))"
proof (cases "m = 12")
  case True
  have "make_day y 12 1 = make_day (y + 1) (1 - 1) 1" by (simp add: make_day_def Let_def)
  then show ?thesis using True civil_make_day [OF first_of_month_valid [of 1 "y + 1"]] by simp
next
  case False
  then show ?thesis using assms civil_make_day [OF first_of_month_valid [of "m + 1" y]] by simp
qed

lemma window_days_contains:
  assumes "window_days w n = (a, b)"
  shows "a \<le> n" "n < b" "n - 31 \<le> a"
proof -
  have week: "0 \<le> (n + 3) mod 7" "(n + 3) mod 7 < 7" by simp_all
  obtain y m d where c: "civil_of_day n = (y, m, d)" by (metis prod_cases3)
  with civil_of_day_valid [of n] have v: "1 \<le> m" "m \<le> 12" "1 \<le> d" "d \<le> days_in_month y m"
    by (simp_all add: valid_civil_def)
  have "n = make_day y (m - 1) 1 + (d - 1)"
    using make_day_civil [OF c] make_day_add [of y "m - 1" 1 "d - 1"] by simp
  moreover have "days_in_month y m \<le> 31"
    using v(1,2) by (rule month_cases) (simp_all add: days_in_month_def days_before_def)
  ultimately have "a \<le> n \<and> n < b \<and> n - 31 \<le> a"
    using assms c v month_end [OF v(1,2), of y] week
    by (cases w) (auto simp: window_days_def)
  then show "a \<le> n" "n < b" "n - 31 \<le> a" by simp_all
qed

lemma window_days_next:
  assumes "window_days w n = (a, b)"
  shows "fst (window_days w b) = b"
proof (cases w)
  case Monthly
  obtain y m d where c: "civil_of_day n = (y, m, d)" by (metis prod_cases3)
  with civil_of_day_valid [of n] have v: "1 \<le> m" "m \<le> 12" by (simp_all add: valid_civil_def)
  have "b = make_day y m 1" using assms Monthly c by (simp add: window_days_def)
  with Monthly civil_first_of_next [OF v, of y] show ?thesis
    by (auto simp: window_days_def make_day_def Let_def)
next
  case Weekly
  have "(n - (n + 3) mod 7 + 7 + 3) mod 7 = 0" by presburger
  with assms Weekly show ?thesis by (auto simp: window_days_def)
qed (use assms in \<open>simp add: window_days_def\<close>)

lemma window_dates_days:
  assumes "- 36400 \<le> n" "civil_of_day n = (y, m, d)" "window_days w n = (a, b)"
  shows "window_dates w y m d = (civil_of_day a, civil_of_day b)"
proof (cases w)
  case Daily
  with assms show ?thesis by (auto simp: window_dates_def window_days_def addDays_civil)
next
  case Weekly
  define k where "k = (n + 3) mod 7"
  have k: "0 \<le> k" "k < 7" by (simp_all add: k_def)
  obtain my mm md where mo: "civil_of_day (n - k) = (my, mm, md)" by (metis prod_cases3)
  have "addDays y m d (- ((localWeekday y m d + 6) mod 7)) = civil_of_day (n - k)"
    using assms(1,2) localWeekday_civil [of n y m d] addDays_civil [of n y m d "- k"]
    by (simp add: weekday_shift k_def)
  moreover have "addDays my mm md 7 = civil_of_day (n - k + 7)"
    using assms(1) k mo by (intro addDays_civil) auto
  ultimately show ?thesis using assms(3) Weekly mo
    by (auto simp: window_dates_def window_days_def Let_def k_def)
next
  case Monthly
  from assms(2) civil_of_day_valid [of n] have v: "1 \<le> m" "m \<le> 12" by (simp_all add: valid_civil_def)
  have "civil_of_day (make_day y (m - 1) 1) = (y, m, 1)"
    using civil_make_day [OF first_of_month_valid [OF v]] .
  with assms Monthly civil_first_of_next [OF v, of y] show ?thesis
    by (auto simp: window_dates_def window_days_def)
qed

section \<open>Local midnights\<close>

text \<open>
  What the code relies on of the zone database at a local midnight \<open>w\<close> (a wall-clock time as
  milliseconds): the clock shows \<open>w\<close> at one instant, earlier times before it and later times
  after it, and the offset there is one of the two the reconciliation tries.
\<close>

definition zone_ok :: "zone \<Rightarrow> bool" where
  "zone_ok z \<longleftrightarrow> (\<forall>t. z t mod 1000 = 0 \<and> \<bar>z t\<bar> < msPerDay)"

definition regular_midnight :: "zone \<Rightarrow> int \<Rightarrow> bool" where
  "regular_midnight z w \<longleftrightarrow>
     (\<exists>u. u + z u = w \<and> (\<forall>t. t < u \<longleftrightarrow> t + z t < w) \<and> z u \<in> {z w, z (w - z w)})"

definition shows_midnight :: "zone \<Rightarrow> int \<Rightarrow> instant \<Rightarrow> bool" where
  "shows_midnight z w u \<longleftrightarrow> u + z u = w \<and> (\<forall>t. t < u \<longleftrightarrow> t + z t < w)"

lemma tzOffsetMs_exact:
  assumes "t mod 1000 = 0" "z t mod 1000 = 0" "- 36500 * msPerDay \<le> t + z t"
  shows "tzOffsetMs z t = z t"
proof -
  obtain y m d where c: "utc_civil (t + z t) = (y, m, d)" by (metis prod_cases3)
  have "- 36500 \<le> utc_day (t + z t)" using assms(3) by (simp add: utc_day_def msPerDay_def)
  then have "\<not> (0 \<le> y \<and> y \<le> 99)" using modern_civil c by (auto simp: utc_civil_def)
  moreover have "(t + z t) div 1000 * 1000 = t + z t"
    using assms(1,2) by (metis dvd_add dvd_div_mult_self mod_0_imp_dvd)
  ultimately show ?thesis using date_utc_of_fields [OF c]
    by (simp add: tzOffsetMs_def zonedParts_def c Let_def)
qed

lemma localMidnight_shows:
  assumes z: "zone_ok z" and n: "- 36400 \<le> n" and c: "civil_of_day n = (y, m, d)"
    and reg: "regular_midnight z (n * msPerDay)"
  shows "shows_midnight z (n * msPerDay) (localMidnight y m d z)"
proof -
  let ?w = "n * msPerDay"
  have sec: "z t mod 1000 = 0" and small: "\<bar>z t\<bar> < msPerDay" for t
    using z by (auto simp: zone_ok_def)
  have w: "?w mod 1000 = 0" "- 36400 * msPerDay \<le> ?w"
    using n by (simp_all add: msPerDay_def mod_mult_right_eq [symmetric])
  have ms: "msPerDay = 86400000" by (rule msPerDay_def)
  have off1: "tzOffsetMs z ?w = z ?w"
    using w small [of ?w] sec ms by (intro tzOffsetMs_exact) (simp_all add: abs_less_iff)
  have "(?w - z ?w) mod 1000 = 0" using w(1) sec [of ?w] by (simp add: mod_diff_eq [symmetric])
  then have off2: "tzOffsetMs z (?w - z ?w) = z (?w - z ?w)"
    using w small [of ?w] small [of "?w - z ?w"] sec ms
    by (intro tzOffsetMs_exact) (simp_all add: abs_less_iff)
  obtain u where u: "u + z u = ?w" "\<forall>t. t < u \<longleftrightarrow> t + z t < ?w" "z u \<in> {z ?w, z (?w - z ?w)}"
    using reg by (auto simp: regular_midnight_def)
  have "localMidnight y m d z = (if z (?w - z ?w) \<noteq> z ?w then ?w - z (?w - z ?w) else ?w - z ?w)"
    using date_utc_civil [OF _ c] n by (simp add: localMidnight_def wallTimeToUtc_def Let_def off1 off2)
  moreover have "z (?w - z ?w) = z ?w" if "z u = z ?w"
    using u(1) that by (metis add_diff_cancel_right')
  ultimately have "localMidnight y m d z = u" using u(1,3) by auto
  then show ?thesis using u by (simp add: shows_midnight_def)
qed

section \<open>Windows in a regular zone\<close>

definition local_day :: "zone \<Rightarrow> instant \<Rightarrow> int" where
  "local_day z t = utc_day (t + z t)"

lemma zonedParts_civil:
  "(zp_year (zonedParts z t), zp_month (zonedParts z t), zp_day (zonedParts z t)) = civil_of_day (local_day z t)"
  by (cases "utc_civil (t + z t)") (simp add: zonedParts_def local_day_def utc_civil_def Let_def)

lemma assertTimeZone_ok: "db tz = Some z \<Longrightarrow> tz \<noteq> [] \<Longrightarrow> assertTimeZone db tz = Inr ()"
  by (simp add: assertTimeZone_def isValidTimeZone_def)

text \<open>The two edges of the window of a local day are local midnights of its specification.\<close>

lemma windowContaining_edges:
  assumes db: "db tz = Some z" "tz \<noteq> []" and z: "zone_ok z" and n: "0 \<le> local_day z t"
    and days: "window_days w (local_day z t) = (a, b)"
    and reg: "regular_midnight z (a * msPerDay)" "regular_midnight z (b * msPerDay)"
  shows "\<exists>r. windowContaining db w t tz = Inr r \<and> shows_midnight z (a * msPerDay) (bw_start r)
    \<and> shows_midnight z (b * msPerDay) (bw_end r) \<and> bw_tz r = tz"
proof -
  let ?p = "zonedParts z t"
  obtain sy sm sd where s: "civil_of_day a = (sy, sm, sd)" by (metis prod_cases3)
  obtain ey em ed where e: "civil_of_day b = (ey, em, ed)" by (metis prod_cases3)
  from window_days_contains [OF days] n have ab: "- 36400 \<le> a" "- 36400 \<le> b" by linarith+
  have "window_dates w (zp_year ?p) (zp_month ?p) (zp_day ?p) = ((sy, sm, sd), (ey, em, ed))"
    using window_dates_days [OF _ zonedParts_civil [symmetric] days] n by (simp add: s e)
  moreover have "zone_of db tz = z" using db(1) by (simp add: zone_of_def)
  ultimately have "windowContaining db w t tz
      = Inr \<lparr>bw_start = localMidnight sy sm sd z, bw_end = localMidnight ey em ed z, bw_tz = tz\<rparr>"
    by (simp add: windowContaining_def assertTimeZone_ok [of db tz, OF db] Let_def)
  with localMidnight_shows [OF z ab(1) s reg(1)] localMidnight_shows [OF z ab(2) e reg(2)]
  show ?thesis by simp
qed

lemma shows_midnight_order:
  assumes "shows_midnight z (n * msPerDay) u"
  shows "t < u \<longleftrightarrow> local_day z t < n"
proof -
  have "t < u \<longleftrightarrow> t + z t < n * msPerDay" using assms by (simp add: shows_midnight_def)
  also have "\<dots> \<longleftrightarrow> local_day z t < n"
    unfolding local_day_def utc_day_def by (simp add: div_less_int_iff msPerDay_def)
  finally show ?thesis .
qed

lemma shows_midnight_day: "shows_midnight z (n * msPerDay) u \<Longrightarrow> local_day z u = n"
  by (simp add: shows_midnight_def local_day_def utc_day_def msPerDay_def)

lemma shows_midnight_unique: "shows_midnight z w u \<Longrightarrow> shows_midnight z w v \<Longrightarrow> u = v"
  unfolding shows_midnight_def by (metis linorder_neqE less_irrefl)

section \<open>Properties\<close>

text \<open>
  In a zone whose midnights at the window's edges are regular, the window contains the instant it
  was asked for, contains exactly the instants whose local day lies in the calendar window
  (Monday to Sunday, first to last of the month), and is longer or shorter than its whole days by
  the change of offset.
\<close>

theorem windowContaining_spec:
  assumes "db tz = Some z" "tz \<noteq> []" "zone_ok z" "0 \<le> local_day z t"
    and "window_days w (local_day z t) = (a, b)"
    and "regular_midnight z (a * msPerDay)" "regular_midnight z (b * msPerDay)"
  shows "\<exists>r. windowContaining db w t tz = Inr r \<and> bw_start r \<le> t \<and> t < bw_end r
    \<and> (\<forall>s. bw_start r \<le> s \<and> s < bw_end r \<longleftrightarrow> a \<le> local_day z s \<and> local_day z s < b)
    \<and> bw_end r - bw_start r = (b - a) * msPerDay - (z (bw_end r) - z (bw_start r))"
proof -
  obtain r where r: "windowContaining db w t tz = Inr r"
    and sa: "shows_midnight z (a * msPerDay) (bw_start r)" and sb: "shows_midnight z (b * msPerDay) (bw_end r)"
    using windowContaining_edges [of db tz, OF assms] by blast
  note order = shows_midnight_order [OF sa] shows_midnight_order [OF sb]
  have inside: "bw_start r \<le> s \<and> s < bw_end r \<longleftrightarrow> a \<le> local_day z s \<and> local_day z s < b" for s
    using order by (meson not_le)
  moreover have "bw_start r \<le> t \<and> t < bw_end r"
    unfolding inside using window_days_contains [OF assms(5)] by simp
  moreover have "bw_end r - bw_start r = (b - a) * msPerDay - (z (bw_end r) - z (bw_start r))"
    using sa sb by (simp add: shows_midnight_def algebra_simps)
  ultimately show ?thesis using r by blast
qed

text \<open>Adjacent windows tile: the window asked for at a window's end starts at that end.\<close>

theorem windowContaining_tiles:
  assumes "db tz = Some z" "tz \<noteq> []" "zone_ok z" "0 \<le> local_day z t"
    and "window_days w (local_day z t) = (a, b)" "window_days w b = (b', c)"
    and "regular_midnight z (a * msPerDay)" "regular_midnight z (b * msPerDay)"
      "regular_midnight z (c * msPerDay)"
    and "windowContaining db w t tz = Inr r"
  shows "\<exists>r'. windowContaining db w (bw_end r) tz = Inr r' \<and> bw_start r' = bw_end r"
proof -
  have sb: "shows_midnight z (b * msPerDay) (bw_end r)"
    using windowContaining_edges [of db tz, OF assms(1-5,7,8)] assms(10) by auto
  have b': "b' = b" using window_days_next [OF assms(5)] assms(6) by simp
  have day: "local_day z (bw_end r) = b" by (rule shows_midnight_day [OF sb])
  have "0 \<le> b" using assms(4) window_days_contains(2) [OF assms(5)] by simp
  then obtain r' where "windowContaining db w (bw_end r) tz = Inr r'"
      "shows_midnight z (b * msPerDay) (bw_start r')"
    using windowContaining_edges [of db tz z "bw_end r" w b c, OF assms(1-3)] assms(6,8,9) b' day by auto
  with shows_midnight_unique [OF _ sb] show ?thesis by blast
qed

text \<open>New York in 2025: UTC-5, UTC-4 between 9 March 07:00 UTC and 2 November 06:00 UTC.\<close>

definition new_york_2025 :: zone where
  "new_york_2025 t =
     (if t < 1741503600000 then - 18000000 else if t < 1762063200000 then - 14400000 else - 18000000)"

definition sample_tzdb :: tzdb where
  "sample_tzdb tz = (if tz = ''America/New_York'' then Some new_york_2025 else None)"

lemma new_york_ok: "zone_ok new_york_2025"
  by (simp add: zone_ok_def new_york_2025_def msPerDay_def)

lemma new_york_midnight:
  assumes "20000 \<le> n" "n \<le> 20156"
  shows "regular_midnight new_york_2025 (n * msPerDay)"
  unfolding regular_midnight_def
  using assms by (intro exI [of _ "n * msPerDay + 18000000"]) (auto simp: new_york_2025_def msPerDay_def)

lemma new_york_midnight_summer:
  assumes "20157 \<le> n" "n \<le> 20300"
  shows "regular_midnight new_york_2025 (n * msPerDay)"
  unfolding regular_midnight_def
  using assms by (intro exI [of _ "n * msPerDay + 14400000"]) (auto simp: new_york_2025_def msPerDay_def)

lemma new_york_march_9: "local_day new_york_2025 1741521600000 = 20156"
  by (simp add: local_day_def new_york_2025_def utc_day_def msPerDay_def)

lemma new_york_march_1:
  "windowContaining sample_tzdb Daily 1740830400000 ''America/New_York'' =
    Inr \<lparr>bw_start = 1740805200000, bw_end = 1740891600000, bw_tz = ''America/New_York''\<rparr>"
proof -
  have day: "local_day new_york_2025 1740830400000 = 20148"
    by (simp add: local_day_def new_york_2025_def utc_day_def msPerDay_def)
  obtain r where r: "windowContaining sample_tzdb Daily 1740830400000 ''America/New_York'' = Inr r"
      "shows_midnight new_york_2025 (20148 * msPerDay) (bw_start r)" "shows_midnight new_york_2025 (20149 * msPerDay) (bw_end r)"
    using windowContaining_edges [of sample_tzdb "''America/New_York''" new_york_2025 1740830400000 Daily 20148 20149]
      new_york_ok new_york_midnight [of 20148] new_york_midnight [of 20149]
    by (auto simp: sample_tzdb_def window_days_def day)
  moreover have "shows_midnight new_york_2025 (20148 * msPerDay) 1740805200000" "shows_midnight new_york_2025 (20149 * msPerDay) 1740891600000"
    by (auto simp: shows_midnight_def new_york_2025_def msPerDay_def)
  moreover have "bw_tz r = ''America/New_York''" using r(1) by (auto simp: windowContaining_def bindE_eq_Inr Let_def split: prod.splits)
  ultimately show ?thesis using shows_midnight_unique by (metis budget_bounds.surjective old.unit.exhaust)
qed

lemma new_york_march_1_date: "localCalendarDate sample_tzdb 1740830400000 ''America/New_York'' = Inr (2025, 3, 1)"
  by code_simp

lemma windowContaining_spec_witness:
  "\<exists>r. windowContaining sample_tzdb Daily 1741521600000 ''America/New_York'' = Inr r
     \<and> bw_start r \<le> 1741521600000 \<and> 1741521600000 < bw_end r"
  using windowContaining_spec [of sample_tzdb "''America/New_York''" new_york_2025 1741521600000 Daily 20156 20157]
    new_york_ok new_york_midnight [of 20156] new_york_midnight_summer [of 20157]
  by (auto simp: sample_tzdb_def new_york_march_9 window_days_def)

lemma windowContaining_tiles_witness:
  "\<exists>r r'. windowContaining sample_tzdb Daily 1741521600000 ''America/New_York'' = Inr r
     \<and> windowContaining sample_tzdb Daily (bw_end r) ''America/New_York'' = Inr r' \<and> bw_start r' = bw_end r"
proof -
  obtain r where "windowContaining sample_tzdb Daily 1741521600000 ''America/New_York'' = Inr r"
    using windowContaining_edges [of sample_tzdb "''America/New_York''" new_york_2025 1741521600000 Daily 20156 20157]
      new_york_ok new_york_midnight [of 20156] new_york_midnight_summer [of 20157]
    by (auto simp: sample_tzdb_def new_york_march_9 window_days_def)
  then show ?thesis
    using windowContaining_tiles [of sample_tzdb "''America/New_York''" new_york_2025 1741521600000 Daily 20156 20157
        20157 20158 r]
      new_york_ok new_york_midnight [of 20156] new_york_midnight_summer [of 20157]
      new_york_midnight_summer [of 20158]
    by (auto simp: sample_tzdb_def new_york_march_9 window_days_def)
qed

text \<open>
  A time zone change never moves the window in flight: while the window that was open at the change
  lasts, it is returned unchanged; the first window in the new zone starts no earlier than its end,
  so no instant is counted in both, and it still contains the current instant.
\<close>

theorem effectiveWindow_pinned:
  assumes "windowContaining db w (tzc_at c) (tzc_previousTz c) = Inr p"
    and "bw_start p \<le> tzc_at c" "tzc_at c \<le> now"
    and "windowContaining db w now tz = Inr n" "bw_start n \<le> now" "now < bw_end n"
  shows "\<exists>r. effectiveWindow db w now tz (Some c) = Inr r \<and> bw_start r \<le> now \<and> now < bw_end r
    \<and> (if now < bw_end p then r = p else bw_end p \<le> bw_start r \<and> bw_end r = bw_end n \<and> bw_tz r = bw_tz n)"
proof -
  have "bw_tz n = tz"
    using assms(4) by (auto simp: windowContaining_def bindE_eq_Inr Let_def split: prod.splits)
  then show ?thesis using assms by (auto simp: effectiveWindow_def)
qed

lemma effectiveWindow_pinned_witness:
  "\<exists>r. effectiveWindow sample_tzdb Daily 1741521600000 ''America/New_York''
      (Some \<lparr>tzc_at = 1741521500000, tzc_previousTz = ''America/New_York''\<rparr>) = Inr r
    \<and> bw_start r \<le> 1741521600000"
proof -
  have march_9: "local_day new_york_2025 1741521500000 = 20156"
    by (simp add: local_day_def new_york_2025_def utc_day_def msPerDay_def)
  obtain p where p: "windowContaining sample_tzdb Daily 1741521500000 ''America/New_York'' = Inr p"
      "bw_start p \<le> 1741521500000"
    using windowContaining_edges [of sample_tzdb "''America/New_York''" new_york_2025 1741521500000 Daily 20156 20157]
      shows_midnight_order [of new_york_2025 20156 _ 1741521500000]
      new_york_ok new_york_midnight [of 20156] new_york_midnight_summer [of 20157] march_9
    by (fastforce simp: sample_tzdb_def window_days_def)
  obtain n where n: "windowContaining sample_tzdb Daily 1741521600000 ''America/New_York'' = Inr n"
      "bw_start n \<le> 1741521600000" "1741521600000 < bw_end n"
    using windowContaining_edges [of sample_tzdb "''America/New_York''" new_york_2025 1741521600000 Daily 20156 20157]
      shows_midnight_order [of new_york_2025 20156 _ 1741521600000]
      shows_midnight_order [of new_york_2025 20157 _ 1741521600000]
      new_york_ok new_york_midnight [of 20156] new_york_midnight_summer [of 20157] new_york_march_9
    by (fastforce simp: sample_tzdb_def window_days_def)
  show ?thesis
    using effectiveWindow_pinned [of sample_tzdb Daily "\<lparr>tzc_at = 1741521500000, tzc_previousTz = ''America/New_York''\<rparr>"
        p 1741521600000 "''America/New_York''" n] p n by auto
qed

section \<open>A midnight the clocks skip\<close>

definition santiago_2025 :: zone where
  "santiago_2025 t = (if t < 1757217600000 then - 14400000 else - 10800000)"

definition santiago_tzdb :: tzdb where
  "santiago_tzdb tz = (if tz = ''America/Santiago'' then Some santiago_2025 else None)"

lemmas civil_eval =
  civil_of_day_def year_of_day_def day_from_year_def month_of_yday_def days_before_def leap_year_def
  Let_def

lemma september_2025:
  "civil_of_day 20337 = (2025, 9, 6)" "civil_of_day 20338 = (2025, 9, 7)"
  by (simp_all add: civil_eval)

lemma santiago_offset:
  assumes "t mod 1000 = 0" "1000000000000 \<le> t"
  shows "tzOffsetMs santiago_2025 t = santiago_2025 t"
  using assms by (intro tzOffsetMs_exact) (simp_all add: santiago_2025_def msPerDay_def)

lemma santiago_midnight:
  assumes "civil_of_day n = (y, m, d)" "20000 \<le> n"
  shows "localMidnight y m d santiago_2025 =
    (let w = n * 86400000 in
     if santiago_2025 (w - santiago_2025 w) \<noteq> santiago_2025 w
     then w - santiago_2025 (w - santiago_2025 w) else w - santiago_2025 w)"
proof -
  have w: "n * 86400000 mod 1000 = 0" by (simp add: mod_mult_right_eq [symmetric])
  then have "(n * 86400000 - santiago_2025 (n * 86400000)) mod 1000 = 0"
    by (simp add: santiago_2025_def mod_diff_right_eq [symmetric] mod_add_right_eq [symmetric])
  with w assms(2) show ?thesis
    using date_utc_civil [OF _ assms(1)] santiago_offset [of "n * 86400000"]
      santiago_offset [of "n * 86400000 - santiago_2025 (n * 86400000)"]
    by (simp add: localMidnight_def wallTimeToUtc_def Let_def msPerDay_def santiago_2025_def)
qed

text \<open>
  Where the clocks spring forward at local midnight west of UTC (Santiago on 7 September 2025: UTC-4,
  UTC-3 from 04:00 UTC), the two-pass reconciliation puts that midnight at 23:00 of the day before,
  an hour before the transition, so the daily window asked for in that hour ends before it.
\<close>

theorem midnight_gap_window_misses_instant:
  "windowContaining santiago_tzdb Daily 1757215800000 ''America/Santiago''
     = Inr \<lparr>bw_start = 1757131200000, bw_end = 1757214000000, bw_tz = ''America/Santiago''\<rparr>
   \<and> (1757214000000::int) < 1757215800000"
proof -
  have zone: "zone_of santiago_tzdb ''America/Santiago'' = santiago_2025"
    by (simp add: zone_of_def santiago_tzdb_def)
  have day: "local_day santiago_2025 1757215800000 = 20337"
    by (simp add: local_day_def utc_day_def msPerDay_def santiago_2025_def)
  have dates: "window_dates Daily 2025 9 6 = ((2025, 9, 6), (2025, 9, 7))"
    using window_dates_days [of 20337 2025 9 6 Daily 20337 20338]
    by (simp add: september_2025 window_days_def)
  have fields: "zp_year (zonedParts santiago_2025 1757215800000) = 2025"
      "zp_month (zonedParts santiago_2025 1757215800000) = 9"
      "zp_day (zonedParts santiago_2025 1757215800000) = 6"
    using zonedParts_civil [of santiago_2025 1757215800000] by (simp_all add: day september_2025)
  have midnights: "localMidnight 2025 9 6 santiago_2025 = 1757131200000"
      "localMidnight 2025 9 7 santiago_2025 = 1757214000000"
    using santiago_midnight [OF september_2025(1)] santiago_midnight [OF september_2025(2)]
    by (simp_all add: santiago_2025_def Let_def)
  have valid: "assertTimeZone santiago_tzdb ''America/Santiago'' = Inr ()"
    by (simp add: assertTimeZone_def isValidTimeZone_def santiago_tzdb_def)
  show ?thesis unfolding windowContaining_def valid zone fields Let_def dates
    by (simp add: fields dates midnights)
qed

end
