(* ===== verification/Schedule_Precedence.thy ===== *)
theory Schedule_Precedence
  imports Policy_Model
begin

text \<open>
  \<open>policy/schedule-precedence.ts\<close>: which schedule rule is in effect. Rules are evaluated in
  ascending (ordinal, id) order and the first active one wins. The file also renumbers rules after
  a drag-to-reorder save, warns about rules an earlier rule makes unreachable, and lists the rules
  in effect now for the editor's badge.

  Whether a rule is active at an instant is injected by the caller (\<open>RuleActivePredicate\<close>), so
  it is the parameter of the locale \<open>rule_activity\<close>, whose one law is that rules with the same
  window are equally active. \<open>Effective_Policy\<close> interprets it on \<open>isRuleActiveAt\<close>.
\<close>

section \<open>Rules and their order\<close>

record schedule_rule =
  sr_id :: int
  sr_ordinal :: int
  sr_targetKind :: scope
  sr_targetId :: "int option"
  sr_recurrenceDays :: "int option"
  sr_recurrenceStartMinute :: "minute option"
  sr_recurrenceEndMinute :: "minute option"
  sr_effectiveFrom :: "instant option"
  sr_effectiveTo :: "instant option"
  sr_action :: schedule_action

definition rule_rank :: "schedule_rule \<Rightarrow> int \<times> int" where
  "rule_rank r = (sr_ordinal r, sr_id r)"

definition byOrdinal :: "schedule_rule list \<Rightarrow> schedule_rule list" where
  "byOrdinal rules = sort_key rule_rank rules"

definition resolveEffectiveRule :: "schedule_rule list \<Rightarrow> (schedule_rule \<Rightarrow> bool) \<Rightarrow> schedule_rule option" where
  "resolveEffectiveRule rules isActive = List.find isActive (byOrdinal rules)"

definition resolveEffectiveAction ::
    "schedule_rule list \<Rightarrow> (schedule_rule \<Rightarrow> bool) \<Rightarrow> schedule_action \<Rightarrow> schedule_action" where
  "resolveEffectiveAction rules isActive fallback =
     nullish (map_option sr_action (resolveEffectiveRule rules isActive)) fallback"

definition nextOrdinal :: "schedule_rule list \<Rightarrow> int" where
  "nextOrdinal rules = foldl (\<lambda>m r. max m (sr_ordinal r + 1)) 0 rules"

section \<open>Reordering\<close>

datatype reorder_error = WrongLength int int | UnknownId int | RepeatedId int

fun reorder_from ::
    "(int \<times> schedule_rule) list \<Rightarrow> int list \<Rightarrow> int \<Rightarrow> int list \<Rightarrow> reorder_error + schedule_rule list" where
  "reorder_from byId seen index [] = Inr []"
| "reorder_from byId seen index (i # ids) =
     (case map_of byId i of
        None \<Rightarrow> Inl (UnknownId i)
      | Some r \<Rightarrow>
          if i \<in> set seen then Inl (RepeatedId i)
          else bindE (reorder_from byId (js_set_add i seen) (index + 1) ids)
                 (\<lambda>rest. Inr (r\<lparr>sr_ordinal := index\<rparr> # rest)))"

definition rules_by_id :: "schedule_rule list \<Rightarrow> (int \<times> schedule_rule) list" where
  "rules_by_id rules = foldl (\<lambda>m r. AList.update (sr_id r) r m) [] rules"

definition reorder :: "schedule_rule list \<Rightarrow> int list \<Rightarrow> reorder_error + schedule_rule list" where
  "reorder rules orderedIds =
     (if length orderedIds \<noteq> length rules
      then Inl (WrongLength (int (length rules)) (int (length orderedIds)))
      else reorder_from (rules_by_id rules) [] 0 orderedIds)"

section \<open>Shadowed rules\<close>

record shadow_finding =
  sf_shadowedId :: int
  sf_shadowedById :: int

definition targetSupersetOf :: "schedule_rule \<Rightarrow> schedule_rule \<Rightarrow> bool" where
  "targetSupersetOf earlier later \<longleftrightarrow>
     sr_targetKind earlier = Overall \<or>
     (sr_targetKind earlier = sr_targetKind later \<and> sr_targetId earlier = sr_targetId later)"

definition sameInstant :: "instant option \<Rightarrow> instant option \<Rightarrow> bool" where
  "sameInstant a b \<longleftrightarrow>
     (case (a, b) of (Some x, Some y) \<Rightarrow> x = y | _ \<Rightarrow> a = None \<and> b = None)"

definition sameWindow :: "schedule_rule \<Rightarrow> schedule_rule \<Rightarrow> bool" where
  "sameWindow a b \<longleftrightarrow>
     sr_recurrenceDays a = sr_recurrenceDays b \<and>
     sr_recurrenceStartMinute a = sr_recurrenceStartMinute b \<and>
     sr_recurrenceEndMinute a = sr_recurrenceEndMinute b \<and>
     sameInstant (sr_effectiveFrom a) (sr_effectiveFrom b) \<and>
     sameInstant (sr_effectiveTo a) (sr_effectiveTo b)"

fun shadow_scan :: "schedule_rule list \<Rightarrow> schedule_rule list \<Rightarrow> shadow_finding list" where
  "shadow_scan earlier [] = []"
| "shadow_scan earlier (later # rest) =
     (case List.find (\<lambda>e. sameWindow e later \<and> targetSupersetOf e later) earlier of
        None \<Rightarrow> []
      | Some e \<Rightarrow> [\<lparr>sf_shadowedId = sr_id later, sf_shadowedById = sr_id e\<rparr>])
     @ shadow_scan (earlier @ [later]) rest"

definition findShadowedRules :: "schedule_rule list \<Rightarrow> shadow_finding list" where
  "findShadowedRules rules = shadow_scan [] (byOrdinal rules)"

section \<open>Rules in effect now\<close>

definition rule_target_key :: "schedule_rule \<Rightarrow> string" where
  "rule_target_key r = target_key (sr_targetKind r) (id_or ''overall'' (sr_targetId r))"

definition target_winner ::
    "schedule_rule list \<Rightarrow> (schedule_rule \<Rightarrow> bool) \<Rightarrow> schedule_rule \<Rightarrow> schedule_rule option" where
  "target_winner ordered isActive rule =
     resolveEffectiveRule (filter (\<lambda>candidate. targetSupersetOf candidate rule) ordered) isActive"

fun effective_scan ::
    "schedule_rule list \<Rightarrow> (schedule_rule \<Rightarrow> bool) \<Rightarrow> int list \<Rightarrow> string list \<Rightarrow> schedule_rule list \<Rightarrow> int list" where
  "effective_scan ordered isActive winners seen [] = winners"
| "effective_scan ordered isActive winners seen (rule # rest) =
     (if rule_target_key rule \<in> set seen then effective_scan ordered isActive winners seen rest
      else effective_scan ordered isActive
             (case target_winner ordered isActive rule of
                None \<Rightarrow> winners | Some w \<Rightarrow> js_set_add (sr_id w) winners)
             (js_set_add (rule_target_key rule) seen) rest)"

definition effectiveRuleIds :: "schedule_rule list \<Rightarrow> (schedule_rule \<Rightarrow> bool) \<Rightarrow> int list" where
  "effectiveRuleIds rules isActive = effective_scan (byOrdinal rules) isActive [] [] (byOrdinal rules)"

section \<open>Order lemmas\<close>

lemma set_byOrdinal [simp]: "set (byOrdinal rules) = set rules"
  by (simp add: byOrdinal_def)

lemma mset_byOrdinal [simp]: "mset (byOrdinal rules) = mset rules"
  by (simp add: byOrdinal_def)

lemma length_byOrdinal [simp]: "length (byOrdinal rules) = length rules"
  by (simp add: byOrdinal_def)

lemma sorted_byOrdinal: "sorted (map rule_rank (byOrdinal rules))"
  by (simp add: byOrdinal_def)

lemma byOrdinal_id: "sorted (map rule_rank rules) \<Longrightarrow> byOrdinal rules = rules"
  by (simp add: byOrdinal_def sort_key_id_if_sorted)

lemma byOrdinal_filter: "byOrdinal (filter P (byOrdinal rules)) = filter P (byOrdinal rules)"
  by (intro byOrdinal_id sorted_filter sorted_byOrdinal)

lemma resolveEffectiveRule_None:
  "resolveEffectiveRule rules isActive = None \<longleftrightarrow> (\<forall>r \<in> set rules. \<not> isActive r)"
  by (auto simp: resolveEffectiveRule_def find_None_iff)

lemma resolveEffectiveRule_first:
  assumes "resolveEffectiveRule rules isActive = Some r" "s \<in> set rules" "isActive s"
  shows "rule_rank r \<le> rule_rank s"
proof -
  from find_split [OF assms(1) [unfolded resolveEffectiveRule_def]]
  obtain us vs where split: "byOrdinal rules = us @ r # vs" "\<forall>u \<in> set us. \<not> isActive u" by blast
  with assms(2,3) have "s \<in> set (r # vs)"
    using set_byOrdinal [of rules] by auto
  with sorted_byOrdinal [of rules] split(1) show ?thesis by (auto simp: sorted_append)
qed

lemma nextOrdinal_foldl:
  "m \<le> foldl (\<lambda>m r. max m (sr_ordinal r + 1)) m rules \<and>
   (\<forall>r \<in> set rules. sr_ordinal r < foldl (\<lambda>m r. max m (sr_ordinal r + 1)) m rules)"
proof (induction rules arbitrary: m)
  case (Cons x xs)
  show ?case using Cons [of "max m (sr_ordinal x + 1)"] by auto
qed simp

lemma nextOrdinal_bounds:
  "0 \<le> nextOrdinal rules" "r \<in> set rules \<Longrightarrow> sr_ordinal r < nextOrdinal rules"
  using nextOrdinal_foldl [of 0 rules] by (auto simp: nextOrdinal_def)

section \<open>Reorder lemmas\<close>

lemma map_of_rules_by_id_foldl:
  "map_of (foldl (\<lambda>m r. AList.update (sr_id r) r m) m rules) i =
     (case List.find (\<lambda>r. sr_id r = i) (rev rules) of Some r \<Rightarrow> Some r | None \<Rightarrow> map_of m i)"
proof (induction rules arbitrary: m)
  case (Cons x xs)
  show ?case using Cons [of "AList.update (sr_id x) x m"]
    by (cases "List.find (\<lambda>r. sr_id r = i) (rev xs)") (auto simp: find_append)
qed simp

lemma rules_by_id_Some: "map_of (rules_by_id rules) i = Some r \<Longrightarrow> r \<in> set rules \<and> sr_id r = i"
  by (auto simp: rules_by_id_def map_of_rules_by_id_foldl find_Some_iff split: option.splits)
    (metis nth_mem set_rev length_rev)+

lemma rules_by_id_None: "map_of (rules_by_id rules) i = None \<longleftrightarrow> i \<notin> sr_id ` set rules"
  by (auto simp: rules_by_id_def map_of_rules_by_id_foldl find_None_iff split: option.splits
    dest: find_in_set)

lemma rules_by_id_distinct:
  assumes "distinct (map sr_id rules)" "r \<in> set rules"
  shows "map_of (rules_by_id rules) (sr_id r) = Some r"
proof (cases "map_of (rules_by_id rules) (sr_id r)")
  case None
  with assms(2) show ?thesis by (auto simp: rules_by_id_None)
next
  case (Some s)
  with rules_by_id_Some [OF Some] assms show ?thesis
    by (auto simp: distinct_map dest: inj_onD)
qed

definition renumbered :: "(int \<times> schedule_rule) list \<Rightarrow> int \<Rightarrow> int list \<Rightarrow> schedule_rule list" where
  "renumbered byId k ids =
     map2 (\<lambda>i n. (the (map_of byId i))\<lparr>sr_ordinal := n\<rparr>) ids [k..k + int (length ids) - 1]"

lemma renumbered_Cons:
  "renumbered byId k (i # ids) =
     (the (map_of byId i))\<lparr>sr_ordinal := k\<rparr> # renumbered byId (k + 1) ids"
  by (simp add: renumbered_def upto_rec1 [of k] algebra_simps)

lemma reorder_from_iff:
  "reorder_from byId seen k ids = Inr rs \<longleftrightarrow>
     (\<forall>i \<in> set ids. map_of byId i \<noteq> None) \<and> distinct ids \<and> set ids \<inter> set seen = {}
     \<and> rs = renumbered byId k ids"
proof (induction ids arbitrary: seen k rs)
  case Nil
  then show ?case by (auto simp: renumbered_def)
next
  case (Cons i ids)
  show ?case
    by (cases "map_of byId i") (auto simp: bindE_eq_Inr Cons renumbered_Cons)
qed

lemma renumbered_ordinals:
  "map sr_ordinal (renumbered byId k ids) = [k..k + int (length ids) - 1]"
  by (rule nth_equalityI) (simp_all add: renumbered_def)

lemma renumbered_ids:
  assumes "\<forall>i \<in> set ids. \<exists>r. map_of byId i = Some r \<and> sr_id r = i"
  shows "map sr_id (renumbered byId k ids) = ids"
  using assms by (induction ids arbitrary: k) (auto simp: renumbered_Cons renumbered_def [of _ _ "[]"])

lemma renumbered_erase:
  "map (sr_ordinal_update (\<lambda>_. n)) (renumbered byId k ids)
     = map (\<lambda>i. (the (map_of byId i))\<lparr>sr_ordinal := n\<rparr>) ids"
  by (induction ids arbitrary: k) (simp_all add: renumbered_Cons renumbered_def [of _ _ "[]"])

lemma sorted_ranks_of_ordinals:
  assumes "sorted (map sr_ordinal rs)" "distinct (map sr_ordinal rs)"
  shows "sorted (map rule_rank rs)"
  using assms by (induction rs) (auto simp: rule_rank_def less_eq_prod_def order_less_le)

lemma reorder_Inr_iff:
  "reorder rules ids = Inr rs \<longleftrightarrow>
     distinct (map sr_id rules) \<and> mset ids = mset (map sr_id rules)
     \<and> rs = renumbered (rules_by_id rules) 0 ids"
proof
  assume "reorder rules ids = Inr rs"
  then have len: "length ids = length rules" and d: "distinct ids"
    and known: "\<forall>i \<in> set ids. map_of (rules_by_id rules) i \<noteq> None"
    and rs: "rs = renumbered (rules_by_id rules) 0 ids"
    by (auto simp: reorder_def reorder_from_iff split: if_splits)
  have sub: "set ids \<subseteq> set (map sr_id rules)" using known by (auto simp: rules_by_id_None)
  have card: "card (set ids) = length (map sr_id rules)" using d len by (simp add: distinct_card)
  have eq: "set ids = set (map sr_id rules)"
    using card_mono [OF _ sub] card card_length [of "map sr_id rules"]
    by (intro card_subset_eq [OF _ sub]) auto
  then have "distinct (map sr_id rules)" using card by (intro card_distinct) simp
  moreover have "mset ids = mset (map sr_id rules)"
    using d calculation eq set_eq_iff_mset_eq_distinct [of ids "map sr_id rules"] by blast
  ultimately show "distinct (map sr_id rules) \<and> mset ids = mset (map sr_id rules)
     \<and> rs = renumbered (rules_by_id rules) 0 ids" using rs by simp
next
  assume h: "distinct (map sr_id rules) \<and> mset ids = mset (map sr_id rules)
     \<and> rs = renumbered (rules_by_id rules) 0 ids"
  then have "set ids = set (map sr_id rules)" "distinct ids" "length ids = length (map sr_id rules)"
    by (metis mset_eq_setD, metis mset_eq_imp_distinct_iff, metis mset_eq_length)
  with h show "reorder rules ids = Inr rs"
    by (auto simp: reorder_def reorder_from_iff rules_by_id_None)
qed

section \<open>Shadowing lemmas\<close>

lemma targetSupersetOf_refl [simp]: "targetSupersetOf r r"
  by (simp add: targetSupersetOf_def)

lemma targetSupersetOf_trans:
  "targetSupersetOf a b \<Longrightarrow> targetSupersetOf b c \<Longrightarrow> targetSupersetOf a c"
  by (auto simp: targetSupersetOf_def)

lemma sameInstant_iff [simp]: "sameInstant a b \<longleftrightarrow> a = b"
  by (auto simp: sameInstant_def split: option.splits)

text \<open>A finding names two rules of the list, the shadowing one strictly earlier.\<close>

lemma shadow_scan_sound:
  assumes "f \<in> set (shadow_scan earlier rest)"
  shows "\<exists>us l vs e. earlier @ rest = us @ l # vs \<and> e \<in> set us \<and> sameWindow e l \<and> targetSupersetOf e l
    \<and> f = \<lparr>sf_shadowedId = sr_id l, sf_shadowedById = sr_id e\<rparr>"
  using assms
proof (induction earlier rest rule: shadow_scan.induct)
  case (2 earlier later rest)
  from "2.prems" consider
      e where "List.find (\<lambda>e. sameWindow e later \<and> targetSupersetOf e later) earlier = Some e"
        "f = \<lparr>sf_shadowedId = sr_id later, sf_shadowedById = sr_id e\<rparr>"
    | "f \<in> set (shadow_scan (earlier @ [later]) rest)"
    by (cases "List.find (\<lambda>e. sameWindow e later \<and> targetSupersetOf e later) earlier") auto
  then show ?case
  proof cases
    case 1
    with find_in_set [OF 1(1)] show ?thesis by blast
  next
    case 2
    from "2.IH" [OF 2] show ?thesis by simp
  qed
qed simp

lemma findShadowedRules_sound:
  assumes "f \<in> set (findShadowedRules rules)"
  obtains us l vs e where "byOrdinal rules = us @ l # vs" "e \<in> set us" "sameWindow e l"
    "targetSupersetOf e l" "sf_shadowedId f = sr_id l" "sf_shadowedById f = sr_id e"
  using shadow_scan_sound [OF assms [unfolded findShadowedRules_def]] by fastforce

lemma shadow_scan_complete:
  assumes "rest = us @ l # vs" "e \<in> set (earlier @ us)" "sameWindow e l" "targetSupersetOf e l"
  shows "sr_id l \<in> sf_shadowedId ` set (shadow_scan earlier rest)"
  using assms
proof (induction earlier rest arbitrary: us rule: shadow_scan.induct)
  case (2 earlier later rest)
  show ?case
  proof (cases us)
    case Nil
    with "2.prems" have "List.find (\<lambda>e. sameWindow e later \<and> targetSupersetOf e later) earlier \<noteq> None"
      by (auto simp: find_None_iff)
    with Nil "2.prems"(1) show ?thesis by auto
  next
    case (Cons u us')
    with "2.IH" [of us'] "2.prems" show ?thesis by (auto simp: image_Un)
  qed
qed simp

lemma effective_scan_distinct:
  "distinct winners \<Longrightarrow> distinct (effective_scan ordered isActive winners seen rest)"
proof (induction ordered isActive winners seen rest rule: effective_scan.induct)
  case (2 ordered isActive winners seen rule rest)
  then show ?case by (auto split: if_splits option.splits)
qed simp

lemma target_winner_Some:
  "target_winner (byOrdinal rules) isActive rule = Some w \<Longrightarrow>
     w \<in> set rules \<and> isActive w \<and> targetSupersetOf w rule"
  by (auto simp: target_winner_def resolveEffectiveRule_def dest: find_in_set)

lemma target_winner_key:
  "rule_target_key r = rule_target_key r' \<Longrightarrow> target_winner o' isActive r = target_winner o' isActive r'"
  by (simp add: rule_target_key_def target_winner_def targetSupersetOf_def)

lemma effective_scan_set:
  "set (effective_scan ordered isActive winners seen rest) = set winners \<union>
     {sr_id w | r w. r \<in> set rest \<and> rule_target_key r \<notin> set seen
        \<and> target_winner ordered isActive r = Some w}"
proof (induction ordered isActive winners seen rest rule: effective_scan.induct)
  case (2 ordered isActive winners seen rule rest)
  show ?case
  proof (cases "rule_target_key rule \<in> set seen")
    case True
    with "2.IH"(1) show ?thesis by auto
  next
    case False
    have other: "target_winner ordered isActive r = target_winner ordered isActive rule"
      if "rule_target_key r = rule_target_key rule" for r
      using target_winner_key [OF that] .
    show ?thesis
      using False "2.IH"(2) [OF False]
      by (cases "target_winner ordered isActive rule") (auto, (metis other option.inject option.distinct(1))+)
  qed
qed simp

lemma effectiveRuleIds_set:
  "set (effectiveRuleIds rules isActive) =
     {sr_id w | r w. r \<in> set rules \<and> target_winner (byOrdinal rules) isActive r = Some w}"
  by (auto simp: effectiveRuleIds_def effective_scan_set)

section \<open>The interface of an activity predicate\<close>

locale rule_activity =
  fixes isActive :: "schedule_rule \<Rightarrow> bool"
  assumes same_window: "sameWindow a b \<Longrightarrow> isActive a = isActive b"
begin

text \<open>For every target a shadowed rule covers, its shadower comes first.\<close>

lemma shadowed_loses:
  assumes "byOrdinal rules = us @ l # vs" "e \<in> set us" "sameWindow e l" "targetSupersetOf e l"
    and "distinct (map sr_id rules)"
  shows "target_winner (byOrdinal rules) isActive rule \<noteq> Some l"
proof
  let ?P = "\<lambda>candidate. targetSupersetOf candidate rule"
  assume win: "target_winner (byOrdinal rules) isActive rule = Some l"
  then have "isActive l" "?P l" using target_winner_Some by blast+
  with assms(3,4) have act: "isActive e" "?P e"
    using same_window targetSupersetOf_trans by blast+
  from win have "List.find isActive (filter ?P (us @ l # vs)) = Some l"
    unfolding target_winner_def resolveEffectiveRule_def assms(1) [symmetric] byOrdinal_filter .
  then have "List.find isActive (filter ?P us) = Some l \<or> List.find isActive (filter ?P us) = None"
    by (auto simp: find_append split: option.splits)
  moreover have "List.find isActive (filter ?P us) \<noteq> None"
    using act assms(2) by (auto simp: find_None_iff)
  ultimately have "l \<in> set us" by (auto dest: find_in_set)
  moreover have "distinct (byOrdinal rules)"
    using assms(5) by (metis distinct_map mset_byOrdinal mset_eq_imp_distinct_iff)
  ultimately show False using assms(1) by simp
qed

lemma shadowed_not_effective:
  assumes "f \<in> set (findShadowedRules rules)" "distinct (map sr_id rules)"
  shows "sf_shadowedId f \<notin> set (effectiveRuleIds rules isActive)"
proof
  assume "sf_shadowedId f \<in> set (effectiveRuleIds rules isActive)"
  then obtain rule w where w: "target_winner (byOrdinal rules) isActive rule = Some w"
    "sr_id w = sf_shadowedId f"
    by (auto simp: effectiveRuleIds_set)
  from assms(1) obtain us l vs e where s: "byOrdinal rules = us @ l # vs" "e \<in> set us"
      "sameWindow e l" "targetSupersetOf e l" "sf_shadowedId f = sr_id l"
    by (rule findShadowedRules_sound)
  have "l \<in> set rules" using s(1) set_byOrdinal [of rules] by auto
  then have "w = l"
    using w s(5) target_winner_Some [OF w(1)] assms(2) by (auto simp: distinct_map dest: inj_onD)
  with shadowed_loses [OF s(1-4) assms(2)] w(1) show False by simp
qed

end

section \<open>Properties\<close>

text \<open>
  A reorder request succeeds exactly for the permutations of the rules' ids; the result lists the
  rules in the requested order with dense ordinals, in evaluation order, every other field kept.
\<close>

theorem reorder_permutation:
  "case reorder rules ids of
     Inl _ \<Rightarrow> \<not> (distinct (map sr_id rules) \<and> mset ids = mset (map sr_id rules))
   | Inr rs \<Rightarrow> map sr_id rs = ids \<and> map sr_ordinal rs = map int [0..<length rules] \<and> byOrdinal rs = rs
       \<and> mset (map (sr_ordinal_update (\<lambda>_. 0)) rs) = mset (map (sr_ordinal_update (\<lambda>_. 0)) rules)"
proof (cases "reorder rules ids")
  case (Inl e)
  then have "\<not> (distinct (map sr_id rules) \<and> mset ids = mset (map sr_id rules))"
    using reorder_Inr_iff [of rules ids] by auto
  with Inl show ?thesis by simp
next
  case (Inr rs)
  then have d: "distinct (map sr_id rules)" and ids: "mset ids = mset (map sr_id rules)"
    and rs: "rs = renumbered (rules_by_id rules) 0 ids"
    by (auto simp: reorder_Inr_iff)
  have known: "\<forall>i \<in> set ids. \<exists>r. map_of (rules_by_id rules) i = Some r \<and> sr_id r = i"
    using mset_eq_setD [OF ids] rules_by_id_distinct [OF d] by auto
  have len: "length ids = length rules" using mset_eq_length [OF ids] by simp
  have ords: "map sr_ordinal rs = map int [0..<length rules]"
    unfolding rs renumbered_ordinals len by (rule nth_equalityI) simp_all
  have "byOrdinal rs = rs"
    unfolding rs by (intro byOrdinal_id sorted_ranks_of_ordinals) (simp_all add: renumbered_ordinals)
  moreover have "map (sr_ordinal_update (\<lambda>_. 0)) rs
      = map (\<lambda>i. (the (map_of (rules_by_id rules) i))\<lparr>sr_ordinal := 0\<rparr>) ids"
    unfolding rs by (rule renumbered_erase)
  then have "mset (map (sr_ordinal_update (\<lambda>_. 0)) rs)
      = mset (map (\<lambda>r. (the (map_of (rules_by_id rules) (sr_id r)))\<lparr>sr_ordinal := 0\<rparr>) rules)"
    by (simp add: ids multiset.map_comp comp_def)
  moreover have "map (\<lambda>r. (the (map_of (rules_by_id rules) (sr_id r)))\<lparr>sr_ordinal := 0\<rparr>) rules
      = map (sr_ordinal_update (\<lambda>_. 0)) rules"
    by (simp add: rules_by_id_distinct [OF d])
  ultimately show ?thesis using Inr ords renumbered_ids [OF known, of 0] rs by simp
qed

text \<open>
  A rule the editor warns about has an earlier rule that covers its target with the same window,
  and each rule that has one is warned about.
\<close>

theorem findShadowedRules_exact:
  "sf_shadowedId ` set (findShadowedRules rules) =
     {sr_id l | us l vs e. byOrdinal rules = us @ l # vs \<and> e \<in> set us
        \<and> sameWindow e l \<and> targetSupersetOf e l}"
proof (intro equalityI subsetI)
  fix i
  assume "i \<in> sf_shadowedId ` set (findShadowedRules rules)"
  then obtain f where "f \<in> set (findShadowedRules rules)" "i = sf_shadowedId f" by blast
  then show "i \<in> {sr_id l | us l vs e. byOrdinal rules = us @ l # vs \<and> e \<in> set us
        \<and> sameWindow e l \<and> targetSupersetOf e l}"
    by (elim findShadowedRules_sound) auto
next
  fix i
  assume "i \<in> {sr_id l | us l vs e. byOrdinal rules = us @ l # vs \<and> e \<in> set us
        \<and> sameWindow e l \<and> targetSupersetOf e l}"
  then obtain us l vs e where h: "byOrdinal rules = us @ l # vs" "e \<in> set ([] @ us)" "sameWindow e l"
      "targetSupersetOf e l" "i = sr_id l" by auto
  from shadow_scan_complete [OF h(1-4)] h(5)
  show "i \<in> sf_shadowedId ` set (findShadowedRules rules)" by (simp add: findShadowedRules_def)
qed

end
