(* ===== verification/Recurrence.thy ===== *)
theory Recurrence
  imports Schedule_Precedence
begin

text \<open>
  \<open>policy/recurrence.ts\<close>: the bounds of a weekday mask and of a minute of the day, and the
  cross-field checks of \<open>scheduleRecurrenceSchema\<close>. The schema library (zod) applies the field
  bounds first and the refinement only to a value that passed them; the two effective instants
  are given by their \<open>Date.parse\<close> values. The well-formed rules below are the ones the checks let
  through, and the invariant the resolver relies on.
\<close>

definition WEEKDAY_MASK_MIN :: int where "WEEKDAY_MASK_MIN = 1"

definition WEEKDAY_MASK_MAX :: int where "WEEKDAY_MASK_MAX = 127"

definition MINUTES_PER_DAY :: int where "MINUTES_PER_DAY = 1440"

definition MINUTE_OF_DAY_MIN :: int where "MINUTE_OF_DAY_MIN = 0"

definition MINUTE_OF_DAY_MAX :: int where "MINUTE_OF_DAY_MAX = MINUTES_PER_DAY"

definition weekdayMaskSchema :: "int \<Rightarrow> bool" where
  "weekdayMaskSchema n \<longleftrightarrow> WEEKDAY_MASK_MIN \<le> n \<and> n \<le> WEEKDAY_MASK_MAX"

definition minuteOfDaySchema :: "int \<Rightarrow> bool" where
  "minuteOfDaySchema n \<longleftrightarrow> MINUTE_OF_DAY_MIN \<le> n \<and> n \<le> MINUTE_OF_DAY_MAX"

record schedule_recurrence =
  rc_days :: "int option"
  rc_startMinute :: "minute option"
  rc_endMinute :: "minute option"
  rc_from :: "instant option"
  rc_to :: "instant option"

datatype recurrence_field = RecurrenceDays | RecurrenceStartMinute | RecurrenceEndMinute | EffectiveTo

datatype recurrence_issue =
    OutOfRange recurrence_field
  | SetTogether recurrence_field
  | EndNotAfterStart recurrence_field
  | ToNotAfterFrom recurrence_field

text \<open>A field that is \<open>nullable().default(null)\<close> is checked when it is present.\<close>

definition nullable_issue ::
    "(int \<Rightarrow> bool) \<Rightarrow> recurrence_field \<Rightarrow> int option \<Rightarrow> recurrence_issue list" where
  "nullable_issue schema f v =
     (case v of None \<Rightarrow> [] | Some n \<Rightarrow> if schema n then [] else [OutOfRange f])"

definition recurrence_base_issues :: "schedule_recurrence \<Rightarrow> recurrence_issue list" where
  "recurrence_base_issues v =
     nullable_issue weekdayMaskSchema RecurrenceDays (rc_days v)
     @ nullable_issue minuteOfDaySchema RecurrenceStartMinute (rc_startMinute v)
     @ nullable_issue minuteOfDaySchema RecurrenceEndMinute (rc_endMinute v)"

definition recurrence_refine_issues :: "schedule_recurrence \<Rightarrow> recurrence_issue list" where
  "recurrence_refine_issues v =
     (let startSet = rc_startMinute v \<noteq> None; endSet = rc_endMinute v \<noteq> None in
      (if startSet \<noteq> endSet
       then [SetTogether (if endSet then RecurrenceStartMinute else RecurrenceEndMinute)]
       else case (rc_startMinute v, rc_endMinute v) of
              (Some s, Some e) \<Rightarrow> if e \<le> s then [EndNotAfterStart RecurrenceEndMinute] else []
            | _ \<Rightarrow> [])
      @ (case (rc_from v, rc_to v) of
           (Some f, Some t) \<Rightarrow> if t \<le> f then [ToNotAfterFrom EffectiveTo] else []
         | _ \<Rightarrow> []))"

definition scheduleRecurrenceSchema ::
    "schedule_recurrence \<Rightarrow> recurrence_issue list + schedule_recurrence" where
  "scheduleRecurrenceSchema v =
     (if recurrence_base_issues v \<noteq> [] then Inl (recurrence_base_issues v)
      else if recurrence_refine_issues v \<noteq> [] then Inl (recurrence_refine_issues v)
      else Inr v)"

definition rule_recurrence :: "schedule_rule \<Rightarrow> schedule_recurrence" where
  "rule_recurrence r =
     \<lparr>rc_days = sr_recurrenceDays r, rc_startMinute = sr_recurrenceStartMinute r,
      rc_endMinute = sr_recurrenceEndMinute r, rc_from = sr_effectiveFrom r, rc_to = sr_effectiveTo r\<rparr>"

section \<open>Well-formed rules\<close>

definition wf_minutes :: "minute option \<Rightarrow> minute option \<Rightarrow> bool" where
  "wf_minutes s e \<longleftrightarrow>
     (case (s, e) of (None, None) \<Rightarrow> True | (Some a, Some b) \<Rightarrow> 0 \<le> a \<and> a < b \<and> b \<le> 1440 | _ \<Rightarrow> False)"

definition wf_rule :: "schedule_rule \<Rightarrow> bool" where
  "wf_rule r \<longleftrightarrow>
     wf_minutes (sr_recurrenceStartMinute r) (sr_recurrenceEndMinute r)
     \<and> (case sr_recurrenceDays r of None \<Rightarrow> True | Some m \<Rightarrow> 1 \<le> m \<and> m \<le> 127)
     \<and> (case (sr_effectiveFrom r, sr_effectiveTo r) of (Some a, Some b) \<Rightarrow> a < b | _ \<Rightarrow> True)"

lemmas recurrence_bounds =
  WEEKDAY_MASK_MIN_def WEEKDAY_MASK_MAX_def MINUTES_PER_DAY_def MINUTE_OF_DAY_MIN_def
  MINUTE_OF_DAY_MAX_def weekdayMaskSchema_def minuteOfDaySchema_def

text \<open>The recurrence schema accepts exactly the well-formed rules, and returns them unchanged.\<close>

theorem scheduleRecurrenceSchema_exact:
  "scheduleRecurrenceSchema (rule_recurrence r) =
     (if wf_rule r then Inr (rule_recurrence r)
      else Inl (recurrence_base_issues (rule_recurrence r) @
        (if recurrence_base_issues (rule_recurrence r) = []
         then recurrence_refine_issues (rule_recurrence r) else [])))"
  unfolding scheduleRecurrenceSchema_def wf_rule_def
  by (simp add: recurrence_base_issues_def recurrence_refine_issues_def nullable_issue_def
      rule_recurrence_def wf_minutes_def recurrence_bounds Let_def not_le not_less split: option.splits; fail)

end
