(* ===== verification/Intervals.thy ===== *)
theory Intervals
  imports PC_Prelude
begin

text \<open>
  Half-open intervals \<open>[start, end)\<close> and the contract of a routine that merges them, shared by the
  allowed-access windows of \<open>policy/resolve.ts\<close> (minutes) and the usage intervals of
  \<open>transport/activitywatch/normalise.ts\<close> (milliseconds). The contract is the locale
  \<open>interval_merger\<close>; \<open>Effective_Policy\<close> and \<open>Usage_Normalise\<close> interpret it on the two routines
  of the code.
\<close>

datatype 'a interval = Interval (iv_start: 'a) (iv_end: 'a)

definition proper :: "'a::linorder interval \<Rightarrow> bool" where
  "proper w \<longleftrightarrow> iv_start w < iv_end w"

definition inside :: "'a::linorder interval \<Rightarrow> 'a \<Rightarrow> bool" where
  "inside w m \<longleftrightarrow> iv_start w \<le> m \<and> m < iv_end w"

definition covers :: "'a::linorder interval list \<Rightarrow> 'a \<Rightarrow> bool" where
  "covers ws m \<longleftrightarrow> (\<exists>w \<in> set ws. inside w m)"

definition before :: "'a::linorder interval \<Rightarrow> 'a interval \<Rightarrow> bool" where
  "before a b \<longleftrightarrow> iv_end a < iv_start b"

text \<open>Ascending, nonempty, and with a gap between any two: the minimal list of maximal intervals.\<close>

definition normal :: "'a::linorder interval list \<Rightarrow> bool" where
  "normal ws \<longleftrightarrow> (\<forall>w \<in> set ws. proper w) \<and> sorted_wrt before ws"

lemma covers_Nil [simp]: "\<not> covers [] m"
  by (simp add: covers_def)

lemma covers_Cons [interval_simps]: "covers (w # ws) m \<longleftrightarrow> inside w m \<or> covers ws m"
  by (simp add: covers_def)

lemma covers_append [interval_simps]: "covers (us @ ws) m \<longleftrightarrow> covers us m \<or> covers ws m"
  by (auto simp: covers_def)

lemma covers_filter_proper [interval_simps]: "covers (filter proper ws) m = covers ws m"
  by (auto simp: covers_def proper_def inside_def)

lemma covers_cong_set: "set us = set ws \<Longrightarrow> covers us m = covers ws m"
  by (simp add: covers_def)

lemma normal_Nil [simp]: "normal []"
  by (simp add: normal_def)

lemma normal_proper: "normal ws \<Longrightarrow> \<forall>w \<in> set ws. proper w"
  by (simp add: normal_def)

lemma normal_Cons: "normal (w # ws) \<longleftrightarrow> proper w \<and> (\<forall>v \<in> set ws. before w v) \<and> normal ws"
  by (auto simp: normal_def)

lemma normal_snoc: "normal (ws @ [w]) \<longleftrightarrow> normal ws \<and> proper w \<and> (\<forall>v \<in> set ws. before v w)"
  by (auto simp: normal_def sorted_wrt_append)

section \<open>Normal lists are determined by their points\<close>

lemma normal_before_rest:
  "normal (w # ws) \<Longrightarrow> m \<le> iv_end w \<Longrightarrow> \<not> covers ws m"
  by (fastforce simp: normal_Cons covers_def inside_def before_def)

lemma normal_first_point:
  assumes "normal (w # ws)"
  shows "covers (w # ws) (iv_start w)" "m < iv_start w \<Longrightarrow> \<not> covers (w # ws) m"
    "\<not> covers (w # ws) (iv_end w)" "iv_start w \<le> m \<Longrightarrow> m < iv_end w \<Longrightarrow> covers (w # ws) m"
  using assms normal_before_rest [OF assms]
  by (auto simp: covers_Cons inside_def normal_Cons proper_def)

lemma normal_unique:
  assumes "normal us" "normal ws" "\<And>m. covers us m = covers ws m"
  shows "us = ws"
  using assms
proof (induction us arbitrary: ws)
  case Nil
  then show ?case using normal_first_point(1) by (cases ws) auto
next
  case (Cons u us)
  then obtain w ws' where ws: "ws = w # ws'"
    using normal_first_point(1) [OF Cons.prems(1)] by (cases ws) auto
  note nu = normal_first_point [OF Cons.prems(1)] and nw = normal_first_point [OF Cons.prems(2) [unfolded ws]]
  have same: "covers (u # us) m = covers (w # ws') m" for m using Cons.prems(3) ws by simp
  have start: "iv_start u = iv_start w" using nu(1,2) nw(1,2) same by (metis linorder_neqE)
  have proper: "iv_start u < iv_end u" "iv_start w < iv_end w"
    using Cons.prems(1,2) ws by (auto simp: normal_Cons proper_def)
  have "iv_end u = iv_end w"
    using nu(3,4) nw(3,4) same start proper by (metis linorder_neqE less_imp_le)
  with start have uw: "u = w" by (cases u; cases w) simp
  have "covers us m = covers ws' m" for m
  proof (cases "m < iv_end u")
    case True
    then show ?thesis using normal_before_rest [OF Cons.prems(1), of m]
      normal_before_rest [OF Cons.prems(2) [unfolded ws], of m] uw by simp
  next
    case False
    then show ?thesis using same [of m] uw by (simp add: covers_Cons inside_def)
  qed
  moreover have "normal us" "normal ws'" using Cons.prems(1,2) ws by (simp_all add: normal_Cons)
  ultimately show ?case using Cons.IH [of ws'] ws uw by simp
qed

section \<open>The sweep over sorted intervals\<close>

definition merge_step :: "'a::linorder interval list \<Rightarrow> 'a interval \<Rightarrow> 'a interval list" where
  "merge_step merged w =
     (if merged \<noteq> [] \<and> iv_start w \<le> iv_end (last merged)
      then butlast merged @ [Interval (iv_start (last merged)) (max (iv_end (last merged)) (iv_end w))]
      else merged @ [Interval (iv_start w) (iv_end w)])"

lemma merge_step_snoc:
  "merge_step (us @ [l]) w =
     (if iv_start w \<le> iv_end l then us @ [Interval (iv_start l) (max (iv_end l) (iv_end w))]
      else us @ [l, Interval (iv_start w) (iv_end w)])"
  by (simp add: merge_step_def)

lemma merge_step_normal:
  assumes "normal merged" "proper w" "\<And>l. merged \<noteq> [] \<Longrightarrow> iv_start (last merged) \<le> iv_start w"
  shows "normal (merge_step merged w)" "covers (merge_step merged w) m \<longleftrightarrow> covers merged m \<or> inside w m"
    "merge_step merged w \<noteq> []" "iv_start (last (merge_step merged w)) \<le> iv_start w"
proof -
  have "normal (merge_step merged w) \<and> (covers (merge_step merged w) m \<longleftrightarrow> covers merged m \<or> inside w m)
    \<and> merge_step merged w \<noteq> [] \<and> iv_start (last (merge_step merged w)) \<le> iv_start w"
  proof (cases merged rule: rev_cases)
    case Nil
    with assms show ?thesis
      by (simp add: merge_step_def normal_Cons covers_Cons inside_def proper_def)
  next
    case (snoc us l)
    with assms(3) have le: "iv_start l \<le> iv_start w" by simp
    from assms(1) snoc have n: "normal us" "proper l" "\<forall>v \<in> set us. before v l" by (simp_all add: normal_snoc)
    show ?thesis
    proof (cases "iv_start w \<le> iv_end l")
      case True
      with n le assms(2) show ?thesis
        unfolding snoc merge_step_snoc
        by (auto simp: normal_snoc covers_append covers_Cons inside_def proper_def before_def less_max_iff_disj)
    next
      case False
      have "us @ [l, Interval (iv_start w) (iv_end w)] = (us @ [l]) @ [w]" by simp
      moreover have "\<forall>v \<in> set (us @ [l]). before v w"
        using n False by (fastforce simp: before_def proper_def)
      ultimately show ?thesis using False n assms(1,2) snoc
        unfolding snoc merge_step_snoc by (simp add: normal_snoc [of "us @ [l]", simplified]
          normal_snoc covers_append covers_Cons inside_def)
    qed
  qed
  then show "normal (merge_step merged w)" "covers (merge_step merged w) m \<longleftrightarrow> covers merged m \<or> inside w m"
    "merge_step merged w \<noteq> []" "iv_start (last (merge_step merged w)) \<le> iv_start w"
    by blast+
qed

lemma merge_sweep:
  assumes "normal merged" "\<forall>w \<in> set ws. proper w" "sorted (map iv_start ws)"
    and "merged \<noteq> [] \<Longrightarrow> \<forall>w \<in> set ws. iv_start (last merged) \<le> iv_start w"
  shows "normal (foldl merge_step merged ws)
    \<and> (covers (foldl merge_step merged ws) m \<longleftrightarrow> covers merged m \<or> covers ws m)"
  using assms
proof (induction ws arbitrary: merged)
  case (Cons w ws)
  have w: "proper w" "merged \<noteq> [] \<Longrightarrow> iv_start (last merged) \<le> iv_start w" using Cons.prems by auto
  note step = merge_step_normal [OF Cons.prems(1) w]
  have "normal (foldl merge_step (merge_step merged w) ws)
    \<and> (covers (foldl merge_step (merge_step merged w) ws) m \<longleftrightarrow> covers (merge_step merged w) m \<or> covers ws m)"
    using Cons.prems step(4) by (intro Cons.IH step(1)) (auto intro: order_trans)
  then show ?case using step(2) by (auto simp: covers_Cons)
qed simp

section \<open>The contract of a merger\<close>

locale interval_merger =
  fixes merge :: "'a::linorder interval list \<Rightarrow> 'a interval list"
  assumes merge_normal: "\<forall>w \<in> set ws. proper w \<Longrightarrow> normal (merge ws)"
    and merge_covers: "\<forall>w \<in> set ws. proper w \<Longrightarrow> covers (merge ws) m = covers ws m"
begin

lemma merge_fixes_normal: "normal ws \<Longrightarrow> merge ws = ws"
  using normal_proper [of ws] by (intro normal_unique) (simp_all add: merge_normal merge_covers)

lemma merge_idem: "\<forall>w \<in> set ws. proper w \<Longrightarrow> merge (merge ws) = merge ws"
  by (intro merge_fixes_normal merge_normal)

lemma merge_perm:
  assumes "set us = set ws" "\<forall>w \<in> set ws. proper w"
  shows "merge us = merge ws"
proof (rule normal_unique)
  show "normal (merge us)" using assms by (intro merge_normal) simp
  show "normal (merge ws)" by (rule merge_normal [OF assms(2)])
  have "\<forall>w \<in> set us. proper w" using assms by simp
  then show "covers (merge us) m = covers (merge ws) m" for m
    using merge_covers [OF \<open>\<forall>w \<in> set us. proper w\<close>] merge_covers [OF assms(2)] covers_cong_set [OF assms(1)]
    by simp
qed

lemma merge_minimal:
  assumes "\<forall>w \<in> set ws. proper w" "normal us" "\<And>m. covers us m = covers ws m"
  shows "us = merge ws"
  using assms merge_normal merge_covers by (intro normal_unique) auto

end

end
