(* ===== verification/Effective_Policy.thy ===== *)
theory Effective_Policy
  imports Budget_Window Recurrence Intervals
begin

text \<open>
  \<open>policy/resolve.ts\<close>: what applies for a user on a local calendar day. The recurrence and date
  gates decide which rules are in play; the overall rules, with the day's exceptions ahead of them,
  become the allowed-access windows; the budgets of the weekday and the live grants become the
  overall allowance and the quotas. Windows are in local minutes from midnight.
\<close>

section \<open>Inputs and results\<close>

record budget_input =
  bi_scope :: scope
  bi_targetId :: "int option"
  bi_window :: budget_window
  bi_secondsAllowed :: int
  bi_recurrenceDays :: "int option"

record grant_input =
  gi_scope :: scope
  gi_targetId :: "int option"
  gi_secondsGranted :: int
  gi_grantedAt :: instant
  gi_expiresAt :: instant
  gi_revokedAt :: "instant option"

record exception_input =
  xi_id :: int
  xi_targetKind :: scope
  xi_targetId :: "int option"
  xi_action :: schedule_action
  xi_effectiveFrom :: "instant option"
  xi_expiresAt :: instant
  xi_createdAt :: instant

type_synonym allowed_window = "minute interval"

record active_rule =
  ar_id :: int
  ar_targetKind :: scope
  ar_targetId :: "int option"
  ar_action :: schedule_action
  ar_startMinute :: minute
  ar_endMinute :: minute

record activity_quota =
  aq_scope :: scope
  aq_targetId :: int
  aq_seconds :: int

record effective_policy =
  ep_date :: string
  ep_tz :: string
  ep_allowedWindows :: "allowed_window list"
  ep_overallSeconds :: "int option"
  ep_perActivitySeconds :: "activity_quota list"
  ep_activeRules :: "active_rule list"

record policy_input =
  pi_date :: civil
  pi_tz :: string
  pi_schedules :: "schedule_rule list"
  pi_budgets :: "budget_input list"
  pi_grants :: "grant_input list"
  pi_exceptions :: "exception_input list"

section \<open>Gates\<close>

definition weekdayBit :: "int \<Rightarrow> int" where
  "weekdayBit weekday = push_bit (nat (weekday - 1)) 1"

definition isAlwaysOn :: "schedule_rule \<Rightarrow> bool" where
  "isAlwaysOn r \<longleftrightarrow>
     sr_recurrenceDays r = None \<and> sr_recurrenceStartMinute r = None \<and> sr_recurrenceEndMinute r = None"

definition isRuleActiveAt :: "tzdb \<Rightarrow> schedule_rule \<Rightarrow> instant \<Rightarrow> string \<Rightarrow> tz_error + bool" where
  "isRuleActiveAt db r t tz =
     (if (case sr_effectiveFrom r of None \<Rightarrow> False | Some f \<Rightarrow> t < f) then Inr False
      else if (case sr_effectiveTo r of None \<Rightarrow> False | Some u \<Rightarrow> t \<ge> u) then Inr False
      else if isAlwaysOn r then Inr True
      else
        bindE (case sr_recurrenceDays r of
                 None \<Rightarrow> Inr True
               | Some days \<Rightarrow>
                   bindE (localCalendarDate db t tz) (\<lambda>(y, m, d).
                     Inr (days AND weekdayBit (isoWeekday y m d) \<noteq> 0)))
          (\<lambda>dayOk.
            if \<not> dayOk then Inr False
            else case (sr_recurrenceStartMinute r, sr_recurrenceEndMinute r) of
                (Some s, Some e) \<Rightarrow>
                  bindE (localTimeOfDayMinutes db t tz) (\<lambda>minute. Inr (\<not> (minute < s \<or> minute \<ge> e)))
              | _ \<Rightarrow> Inr True))"

text \<open>The predicate bound to an instant and a zone; it throws only for an unknown zone.\<close>

definition ruleActiveAt :: "tzdb \<Rightarrow> instant \<Rightarrow> string \<Rightarrow> schedule_rule \<Rightarrow> bool" where
  "ruleActiveAt db t tz r = (case isRuleActiveAt db r t tz of Inl _ \<Rightarrow> False | Inr b \<Rightarrow> b)"

definition pad2_date :: "int \<Rightarrow> string" where
  "pad2_date n = (if n < 10 then CHR ''0'' # show_int n else show_int n)"

definition appliesOnDay :: "schedule_rule \<Rightarrow> int \<Rightarrow> instant \<Rightarrow> instant \<Rightarrow> bool" where
  "appliesOnDay r weekday dayStart dayEnd \<longleftrightarrow>
     \<not> (case sr_effectiveFrom r of None \<Rightarrow> False | Some f \<Rightarrow> f \<ge> dayEnd)
     \<and> \<not> (case sr_effectiveTo r of None \<Rightarrow> False | Some u \<Rightarrow> u \<le> dayStart)
     \<and> \<not> (case sr_recurrenceDays r of None \<Rightarrow> False | Some days \<Rightarrow> days AND weekdayBit weekday = 0)"

definition ruleWindow :: "schedule_rule \<Rightarrow> minute \<times> minute" where
  "ruleWindow r = (nullish (sr_recurrenceStartMinute r) 0, nullish (sr_recurrenceEndMinute r) MINUTES_PER_DAY)"

section \<open>Allowed windows\<close>

definition mergeWindows :: "allowed_window list \<Rightarrow> allowed_window list" where
  "mergeWindows windows = foldl merge_step [] (sort_key iv_start (filter proper windows))"

fun segments :: "'a list \<Rightarrow> ('a \<times> 'a) list" where
  "segments (a # b # ps) = (a, b) # segments (b # ps)"
| "segments _ = []"

definition edge_add :: "minute list \<Rightarrow> active_rule \<Rightarrow> minute list" where
  "edge_add es r = js_set_add (ar_endMinute r) (js_set_add (ar_startMinute r) es)"

definition window_edges :: "active_rule list \<Rightarrow> minute list" where
  "window_edges rules = sort (foldl edge_add [0, MINUTES_PER_DAY] rules)"

definition segment_winner :: "active_rule list \<Rightarrow> minute \<Rightarrow> minute \<Rightarrow> active_rule option" where
  "segment_winner rules start end =
     List.find (\<lambda>r. ar_startMinute r \<le> start \<and> ar_endMinute r \<ge> end) rules"

definition winner_allows :: "active_rule option \<Rightarrow> bool" where
  "winner_allows winner \<longleftrightarrow> (case winner of None \<Rightarrow> True | Some r \<Rightarrow> ar_action r \<noteq> Deny)"

definition first_match_windows :: "active_rule list \<Rightarrow> allowed_window list" where
  "first_match_windows rules =
     map (\<lambda>(start, end). Interval start end)
       (filter (\<lambda>(start, end). winner_allows (segment_winner rules start end)) (segments (window_edges rules)))"

definition extend_windows :: "active_rule list \<Rightarrow> allowed_window list" where
  "extend_windows rules =
     map (\<lambda>r. Interval (ar_startMinute r) (ar_endMinute r)) (filter (\<lambda>r. ar_action r = Extend) rules)"

definition resolveAllowedWindows :: "active_rule list \<Rightarrow> allowed_window list" where
  "resolveAllowedWindows overallRules = mergeWindows (first_match_windows overallRules @ extend_windows overallRules)"

section \<open>Exceptions, grants and budgets of a day\<close>

definition MS_PER_MINUTE :: int where "MS_PER_MINUTE = 60000"

text \<open>\<open>Math.round\<close> of a quotient: the floor of the quotient plus one half.\<close>

definition round_div :: "int \<Rightarrow> int \<Rightarrow> int" where
  "round_div a b = (2 * a + b) div (2 * b)"

definition exceptionWindowOnDay :: "exception_input \<Rightarrow> instant \<Rightarrow> instant \<Rightarrow> (minute \<times> minute) option" where
  "exceptionWindowOnDay x dayStart dayEnd =
     (let fromMs = nullish (xi_effectiveFrom x) (xi_createdAt x);
          startMs = max fromMs dayStart;
          endMs = min (xi_expiresAt x) dayEnd
      in if startMs \<ge> endMs then None
         else Some (round_div (startMs - dayStart) MS_PER_MINUTE, round_div (endMs - dayStart) MS_PER_MINUTE))"

definition grantOverlapsDay :: "grant_input \<Rightarrow> instant \<Rightarrow> instant \<Rightarrow> bool" where
  "grantOverlapsDay g dayStart dayEnd \<longleftrightarrow>
     gi_revokedAt g = None \<and> gi_grantedAt g < dayEnd \<and> gi_expiresAt g > dayStart"

definition budgetSlotKey :: "budget_input \<Rightarrow> string" where
  "budgetSlotKey b =
     scope_name (bi_scope b) @ CHR '':'' # window_name (bi_window b) @ CHR '':'' # id_or ''null'' (bi_targetId b)"

definition covers_weekday :: "int \<Rightarrow> budget_input \<Rightarrow> bool" where
  "covers_weekday wd b \<longleftrightarrow> (case bi_recurrenceDays b of None \<Rightarrow> False | Some days \<Rightarrow> days AND wd \<noteq> 0)"

definition slot_rows_for_weekday :: "int \<Rightarrow> budget_input list \<Rightarrow> budget_input list" where
  "slot_rows_for_weekday wd rows =
     (let specific = filter (covers_weekday wd) rows
      in if length specific > 0 then specific else filter (\<lambda>b. bi_recurrenceDays b = None) rows)"

definition selectBudgetsForWeekday :: "budget_input list \<Rightarrow> int \<Rightarrow> budget_input list" where
  "selectBudgetsForWeekday budgets weekday =
     concat (map (\<lambda>(key, rows). slot_rows_for_weekday (weekdayBit weekday) rows) (group_by budgetSlotKey budgets))"

definition is_overall_daily :: "budget_input \<Rightarrow> bool" where
  "is_overall_daily b \<longleftrightarrow> bi_scope b = Overall \<and> bi_window b = Daily"

definition overallDailySecondsForWeekday :: "budget_input list \<Rightarrow> int \<Rightarrow> int option" where
  "overallDailySecondsForWeekday budgets weekday =
     (let daily = filter is_overall_daily (selectBudgetsForWeekday budgets weekday)
      in if length daily = 0 then None else Some (foldl (\<lambda>sum b. sum + bi_secondsAllowed b) 0 daily))"

definition resolveOverallSeconds ::
    "budget_input list \<Rightarrow> grant_input list \<Rightarrow> instant \<Rightarrow> instant \<Rightarrow> int option" where
  "resolveOverallSeconds budgets grants dayStart dayEnd =
     (let dailyOverall = filter is_overall_daily budgets
      in if length dailyOverall = 0 then None
         else Some (foldl (\<lambda>seconds g. if gi_scope g = Overall \<and> grantOverlapsDay g dayStart dayEnd
                                        then seconds + gi_secondsGranted g else seconds)
                     (foldl (\<lambda>sum b. sum + bi_secondsAllowed b) 0 dailyOverall) grants))"

section \<open>Quotas\<close>

type_synonym quota_map = "(string \<times> activity_quota) list"

definition quota_add_budget :: "quota_map \<Rightarrow> budget_input \<Rightarrow> quota_map" where
  "quota_add_budget quotas b =
     (if bi_window b \<noteq> Daily then quotas
      else case bi_targetId b of
          None \<Rightarrow> quotas
        | Some target \<Rightarrow>
            if bi_scope b \<noteq> Activity \<and> bi_scope b \<noteq> Group then quotas
            else
              let key = target_key (bi_scope b) (show_int target);
                  existing = nullish (map_option aq_seconds (map_of quotas key)) 0
              in AList.update key
                   \<lparr>aq_scope = bi_scope b, aq_targetId = target, aq_seconds = existing + bi_secondsAllowed b\<rparr> quotas)"

definition quota_add_grant :: "instant \<Rightarrow> instant \<Rightarrow> quota_map \<Rightarrow> grant_input \<Rightarrow> quota_map" where
  "quota_add_grant dayStart dayEnd quotas g =
     (if gi_scope g \<noteq> Activity \<and> gi_scope g \<noteq> Group then quotas
      else case gi_targetId g of
          None \<Rightarrow> quotas
        | Some target \<Rightarrow>
            if \<not> grantOverlapsDay g dayStart dayEnd then quotas
            else
              let key = target_key (gi_scope g) (show_int target)
              in case map_of quotas key of
                   None \<Rightarrow> quotas
                 | Some q \<Rightarrow> AList.update key (q\<lparr>aq_seconds := aq_seconds q + gi_secondsGranted g\<rparr>) quotas)"

definition quota_rank :: "activity_quota \<Rightarrow> scope \<times> int" where
  "quota_rank q = (aq_scope q, aq_targetId q)"

definition buildActivityQuotas ::
    "budget_input list \<Rightarrow> grant_input list \<Rightarrow> instant \<Rightarrow> instant \<Rightarrow> activity_quota list" where
  "buildActivityQuotas budgets grants dayStart dayEnd =
     sort_key quota_rank
       (map snd (foldl (quota_add_grant dayStart dayEnd) (foldl quota_add_budget [] budgets) grants))"

section \<open>The effective policy\<close>

definition day_rules :: "schedule_rule list \<Rightarrow> int \<Rightarrow> instant \<Rightarrow> instant \<Rightarrow> active_rule list" where
  "day_rules schedules weekday dayStart dayEnd =
     map (\<lambda>r. case ruleWindow r of (s, e) \<Rightarrow>
            \<lparr>ar_id = sr_id r, ar_targetKind = sr_targetKind r, ar_targetId = sr_targetId r,
             ar_action = sr_action r, ar_startMinute = s, ar_endMinute = e\<rparr>)
       (filter (\<lambda>r. appliesOnDay r weekday dayStart dayEnd) (byOrdinal schedules))"

definition exception_rules :: "exception_input list \<Rightarrow> instant \<Rightarrow> instant \<Rightarrow> active_rule list" where
  "exception_rules exceptions dayStart dayEnd =
     concat (map (\<lambda>x. case exceptionWindowOnDay x dayStart dayEnd of
         None \<Rightarrow> []
       | Some (s, e) \<Rightarrow>
           [\<lparr>ar_id = xi_id x, ar_targetKind = xi_targetKind x, ar_targetId = xi_targetId x,
             ar_action = xi_action x, ar_startMinute = s, ar_endMinute = e\<rparr>]) exceptions)"

definition overall_rules :: "active_rule list \<Rightarrow> active_rule list" where
  "overall_rules rules = filter (\<lambda>r. ar_targetKind r = Overall) rules"

definition effectivePolicy :: "tzdb \<Rightarrow> policy_input \<Rightarrow> tz_error + effective_policy" where
  "effectivePolicy db inp =
     (case pi_date inp of (y, m, d) \<Rightarrow>
       bindE (localDayBounds db y m d (pi_tz inp)) (\<lambda>bounds.
         let dayStart = bw_start bounds; dayEnd = bw_end bounds;
             weekday = isoWeekday y m d;
             activeRules = day_rules (pi_schedules inp) weekday dayStart dayEnd;
             exceptionRules = exception_rules (pi_exceptions inp) dayStart dayEnd;
             budgetsForDay = selectBudgetsForWeekday (pi_budgets inp) weekday
         in Inr \<lparr>ep_date = show_int y @ CHR ''-'' # pad2_date m @ CHR ''-'' # pad2_date d,
                 ep_tz = pi_tz inp,
                 ep_allowedWindows =
                   resolveAllowedWindows (overall_rules exceptionRules @ overall_rules activeRules),
                 ep_overallSeconds = resolveOverallSeconds budgetsForDay (pi_grants inp) dayStart dayEnd,
                 ep_perActivitySeconds = buildActivityQuotas budgetsForDay (pi_grants inp) dayStart dayEnd,
                 ep_activeRules = activeRules\<rparr>))"

section \<open>The merger of windows\<close>

lemma mergeWindows_sweep:
  "normal (mergeWindows ws) \<and> (covers (mergeWindows ws) m \<longleftrightarrow> covers ws m)"
  using merge_sweep [of "[]" "sort_key iv_start (filter proper ws)" m]
    covers_cong_set [of "sort_key iv_start (filter proper ws)" "filter proper ws" m]
  by (simp add: mergeWindows_def covers_filter_proper)

lemma mergeWindows_normal: "normal (mergeWindows ws)"
  using mergeWindows_sweep [of ws 0] by simp

lemma mergeWindows_covers [interval_simps]: "covers (mergeWindows ws) m = covers ws m"
  using mergeWindows_sweep [of ws m] by simp

interpretation windows: interval_merger mergeWindows
  by unfold_locales (simp_all add: mergeWindows_normal mergeWindows_covers)

section \<open>Segments between edges\<close>

lemma segments_in_list:
  "(a, b) \<in> set (segments ps) \<Longrightarrow> a \<in> set ps \<and> b \<in> set ps"
  by (induction ps rule: segments.induct) auto

lemma segments_gap:
  fixes ps :: "'a::linorder list"
  assumes "sorted_wrt (<) ps" "(a, b) \<in> set (segments ps)" "p \<in> set ps"
  shows "a < b \<and> (p \<le> a \<or> b \<le> p)"
  using assms
proof (induction ps arbitrary: p rule: segments.induct)
  case (1 x y ps)
  show ?case
  proof (cases "(a, b) = (x, y)")
    case True
    with "1.prems" show ?thesis by auto
  next
    case False
    then have tl: "(a, b) \<in> set (segments (y # ps))" using "1.prems"(2) by auto
    show ?thesis
    proof (cases "p = x")
      case True
      have "y \<le> a" using segments_in_list [OF tl] "1.prems"(1) by auto
      moreover have "a < b" using "1.IH" [OF _ tl, of a] segments_in_list [OF tl] "1.prems"(1) by auto
      ultimately show ?thesis using "1.prems"(1) True by auto
    next
      case False
      with "1.prems" tl show ?thesis by (intro "1.IH") auto
    qed
  qed
qed auto

lemma segments_cover:
  fixes ps :: "'a::linorder list"
  assumes "sorted_wrt (<) ps" "ps \<noteq> []"
  shows "(\<exists>a b. (a, b) \<in> set (segments ps) \<and> a \<le> m \<and> m < b) \<longleftrightarrow> hd ps \<le> m \<and> m < last ps"
  using assms
proof (induction ps rule: segments.induct)
  case (1 x y ps)
  have "(\<exists>a b. (a, b) \<in> set (segments (x # y # ps)) \<and> a \<le> m \<and> m < b)
      \<longleftrightarrow> x \<le> m \<and> m < y \<or> (\<exists>a b. (a, b) \<in> set (segments (y # ps)) \<and> a \<le> m \<and> m < b)"
    by auto
  also have "\<dots> \<longleftrightarrow> x \<le> m \<and> m < y \<or> y \<le> m \<and> m < last (y # ps)"
    using "1.IH" "1.prems" by simp
  also have "\<dots> \<longleftrightarrow> x \<le> m \<and> m < last (y # ps)"
  proof -
    have "y \<le> last (y # ps)" using "1.prems"(1) by (cases ps) (auto intro!: less_imp_le)
    moreover have "x < y" using "1.prems"(1) by simp
    ultimately show ?thesis by auto
  qed
  finally show ?case by simp
qed auto

lemma edges_distinct: "distinct es \<Longrightarrow> distinct (foldl edge_add es rules)"
  by (induction rules arbitrary: es) (simp_all add: edge_add_def)

lemma edges_set: "set (foldl edge_add es rules) = set es \<union> ar_startMinute ` set rules \<union> ar_endMinute ` set rules"
  by (induction rules arbitrary: es) (auto simp: edge_add_def)

lemma window_edges_set:
  "set (window_edges rules) = {0, 1440} \<union> ar_startMinute ` set rules \<union> ar_endMinute ` set rules"
  by (auto simp: window_edges_def edges_set MINUTES_PER_DAY_def)

lemma window_edges_sorted: "sorted_wrt (<) (window_edges rules)"
  using edges_distinct [of "[0, MINUTES_PER_DAY]" rules]
  by (simp add: window_edges_def strict_sorted_iff MINUTES_PER_DAY_def)

definition in_day :: "active_rule \<Rightarrow> bool" where
  "in_day r \<longleftrightarrow> 0 \<le> ar_startMinute r \<and> ar_startMinute r \<le> 1440 \<and> 0 \<le> ar_endMinute r \<and> ar_endMinute r \<le> 1440"

lemma sorted_last: "sorted xs \<Longrightarrow> x \<in> set xs \<Longrightarrow> x \<le> last xs"
  by (induction xs) auto

lemma window_edges_span:
  assumes "\<forall>r \<in> set rules. in_day r"
  shows "window_edges rules \<noteq> []" "hd (window_edges rules) = 0" "last (window_edges rules) = 1440"
proof -
  let ?ps = "window_edges rules"
  have bound: "\<forall>p \<in> set ?ps. 0 \<le> p \<and> p \<le> 1440"
    using assms by (auto simp: window_edges_set in_day_def)
  have mem: "0 \<in> set ?ps" "1440 \<in> set ?ps" by (simp_all add: window_edges_set)
  then show ne: "?ps \<noteq> []" by auto
  have sorted: "sorted ?ps" using window_edges_sorted by (simp add: strict_sorted_iff)
  have "hd ?ps \<le> 0" using sorted mem(1) by (cases ?ps) auto
  moreover have "hd ?ps \<in> set ?ps" using ne by simp
  ultimately show "hd ?ps = 0" using bound by force
  have "1440 \<le> last ?ps" by (rule sorted_last [OF sorted mem(2)])
  moreover have "last ?ps \<in> set ?ps" using ne by simp
  ultimately show "last ?ps = 1440" using bound by force
qed

section \<open>The allowed windows, minute by minute\<close>

definition rule_at :: "minute \<Rightarrow> active_rule \<Rightarrow> bool" where
  "rule_at m r \<longleftrightarrow> ar_startMinute r \<le> m \<and> m < ar_endMinute r"

text \<open>
  The specification: a minute is allowed when an extension covers it, or when the first rule that
  covers it is not a denial.
\<close>

definition access_allowed :: "active_rule list \<Rightarrow> minute \<Rightarrow> bool" where
  "access_allowed rules m \<longleftrightarrow>
     (\<exists>r \<in> set rules. ar_action r = Extend \<and> rule_at m r) \<or> winner_allows (List.find (rule_at m) rules)"

lemma segment_winner_at:
  assumes "(a, b) \<in> set (segments (window_edges rules))" "a \<le> m" "m < b"
  shows "segment_winner rules a b = List.find (rule_at m) rules"
  unfolding segment_winner_def
proof (rule find_cong_set)
  fix r assume r: "r \<in> set rules"
  then have "ar_startMinute r \<in> set (window_edges rules)" "ar_endMinute r \<in> set (window_edges rules)"
    by (simp_all add: window_edges_set)
  then show "(ar_startMinute r \<le> a \<and> ar_endMinute r \<ge> b) = rule_at m r"
    using segments_gap [OF window_edges_sorted assms(1)] assms(2,3) unfolding rule_at_def by force
qed

lemma first_match_windows_covers:
  assumes "\<forall>r \<in> set rules. in_day r"
  shows "covers (first_match_windows rules) m \<longleftrightarrow>
    0 \<le> m \<and> m < 1440 \<and> winner_allows (List.find (rule_at m) rules)"
proof -
  have "covers (first_match_windows rules) m \<longleftrightarrow>
     (\<exists>a b. (a, b) \<in> set (segments (window_edges rules)) \<and> a \<le> m \<and> m < b \<and>
        winner_allows (segment_winner rules a b))"
    by (fastforce simp: first_match_windows_def covers_def inside_def)
  also have "\<dots> \<longleftrightarrow> (\<exists>a b. (a, b) \<in> set (segments (window_edges rules)) \<and> a \<le> m \<and> m < b)
      \<and> winner_allows (List.find (rule_at m) rules)"
    using segment_winner_at [of _ _ rules m] by metis
  also have "\<dots> \<longleftrightarrow> 0 \<le> m \<and> m < 1440 \<and> winner_allows (List.find (rule_at m) rules)"
    using segments_cover [OF window_edges_sorted window_edges_span(1) [OF assms], of m]
      window_edges_span [OF assms] by simp
  finally show ?thesis .
qed

lemma extend_windows_covers:
  "covers (extend_windows rules) m \<longleftrightarrow> (\<exists>r \<in> set rules. ar_action r = Extend \<and> rule_at m r)"
  by (auto simp: extend_windows_def covers_def inside_def rule_at_def)

lemma resolveAllowedWindows_covers:
  assumes "\<forall>r \<in> set rules. in_day r"
  shows "covers (resolveAllowedWindows rules) m \<longleftrightarrow> 0 \<le> m \<and> m < 1440 \<and> access_allowed rules m"
proof -
  have "rule_at m r \<Longrightarrow> 0 \<le> m \<and> m < 1440" if "r \<in> set rules" for r
    using assms that by (auto simp: in_day_def rule_at_def)
  then show ?thesis
    unfolding resolveAllowedWindows_def access_allowed_def
    by (auto simp: interval_simps first_match_windows_covers [OF assms] extend_windows_covers)
qed

lemma resolveAllowedWindows_normal: "normal (resolveAllowedWindows rules)"
  by (simp add: resolveAllowedWindows_def mergeWindows_normal)

section \<open>Budgets of a weekday\<close>

lemma budgetSlotKey_eq:
  "budgetSlotKey a = budgetSlotKey b \<longleftrightarrow>
     bi_scope a = bi_scope b \<and> bi_window a = bi_window b \<and> bi_targetId a = bi_targetId b"
  unfolding budgetSlotKey_def by (subst separator_split; simp?) (subst separator_split; simp?)+

definition slot_specific :: "budget_input list \<Rightarrow> int \<Rightarrow> string \<Rightarrow> bool" where
  "slot_specific budgets wd key \<longleftrightarrow> (\<exists>c \<in> set budgets. budgetSlotKey c = key \<and> covers_weekday wd c)"

lemma slot_rows_filter:
  assumes "rows = filter (\<lambda>x. budgetSlotKey x = key) budgets"
  shows "slot_rows_for_weekday wd rows =
    filter (\<lambda>b. if slot_specific budgets wd key then covers_weekday wd b else bi_recurrenceDays b = None) rows"
proof (cases "slot_specific budgets wd key")
  case True
  then have "filter (covers_weekday wd) rows \<noteq> []"
    using assms by (auto simp: slot_specific_def filter_empty_conv)
  with True show ?thesis by (simp add: slot_rows_for_weekday_def Let_def)
next
  case False
  then have "filter (covers_weekday wd) rows = []"
    using assms by (auto simp: slot_specific_def filter_empty_conv)
  with False show ?thesis by (simp add: slot_rows_for_weekday_def Let_def)
qed

lemma selectBudgets_mset:
  "mset (selectBudgetsForWeekday budgets weekday) =
     filter_mset (\<lambda>b. if slot_specific budgets (weekdayBit weekday) (budgetSlotKey b)
        then covers_weekday (weekdayBit weekday) b else bi_recurrenceDays b = None) (mset budgets)"
proof -
  let ?wd = "weekdayBit weekday"
  have rows: "rows = filter (\<lambda>x. budgetSlotKey x = key) budgets"
    if "(key, rows) \<in> set (group_by budgetSlotKey budgets)" for key rows
    using map_of_is_SomeI [OF distinct_group_by that] by (simp add: map_of_group_by split: if_splits)
  have "mset (concat (map (\<lambda>(key, rows). slot_rows_for_weekday ?wd rows) (group_by budgetSlotKey budgets)))
    = filter_mset (\<lambda>b. if slot_specific budgets ?wd (budgetSlotKey b) then covers_weekday ?wd b
        else bi_recurrenceDays b = None) (mset (concat (map snd (group_by budgetSlotKey budgets))))"
    by (rule mset_concat_select [OF slot_rows_filter [OF rows]]) (use rows in fastforce)+
  then show ?thesis by (simp add: selectBudgetsForWeekday_def mset_concat_group_by)
qed

section \<open>Quota lemmas\<close>

definition daily_for :: "scope \<Rightarrow> int \<Rightarrow> budget_input \<Rightarrow> bool" where
  "daily_for s t b \<longleftrightarrow> bi_window b = Daily \<and> bi_scope b = s \<and> bi_targetId b = Some t"

definition daily_seconds :: "budget_input list \<Rightarrow> scope \<Rightarrow> int \<Rightarrow> int" where
  "daily_seconds budgets s t = sum_list (map bi_secondsAllowed (filter (daily_for s t) budgets))"

definition granted_seconds :: "grant_input list \<Rightarrow> instant \<Rightarrow> instant \<Rightarrow> scope \<Rightarrow> int \<Rightarrow> int" where
  "granted_seconds grants dayStart dayEnd s t = sum_list (map gi_secondsGranted
     (filter (\<lambda>g. gi_scope g = s \<and> gi_targetId g = Some t \<and> grantOverlapsDay g dayStart dayEnd) grants))"

definition quota_key :: "activity_quota \<Rightarrow> string" where
  "quota_key q = target_key (aq_scope q) (show_int (aq_targetId q))"

definition wf_quotas :: "quota_map \<Rightarrow> bool" where
  "wf_quotas m \<longleftrightarrow> distinct (map fst m) \<and> (\<forall>k q. map_of m k = Some q \<longrightarrow> k = quota_key q \<and> aq_scope q \<noteq> Overall)"

lemma scope_cases: "s \<noteq> Activity \<and> s \<noteq> Group \<longleftrightarrow> s = Overall"
  by (cases s) simp_all

lemma quotas_of_budgets:
  "wf_quotas (foldl quota_add_budget [] budgets) \<and>
   (\<forall>s t. s \<noteq> Overall \<longrightarrow> map_of (foldl quota_add_budget [] budgets) (target_key s (show_int t)) =
      (if \<exists>b \<in> set budgets. daily_for s t b
       then Some \<lparr>aq_scope = s, aq_targetId = t, aq_seconds = daily_seconds budgets s t\<rparr> else None))"
proof (induction budgets rule: rev_induct)
  case Nil
  then show ?case by (simp add: wf_quotas_def)
next
  case (snoc b bs)
  let ?m = "foldl quota_add_budget [] bs"
  show ?case
  proof (cases "bi_window b = Daily \<and> bi_scope b \<noteq> Overall \<and> bi_targetId b \<noteq> None")
    case False
    then have "quota_add_budget ?m b = ?m" "\<And>s t. s \<noteq> Overall \<Longrightarrow> \<not> daily_for s t b"
      by (auto simp: quota_add_budget_def scope_cases daily_for_def split: option.splits)
    with snoc show ?thesis by (simp add: daily_seconds_def)
  next
    case True
    then obtain t where t: "bi_targetId b = Some t" by auto
    let ?s = "bi_scope b"
    have for_b: "daily_for s' t' b \<longleftrightarrow> s' = ?s \<and> t' = t" for s' t'
      using True t by (auto simp: daily_for_def)
    have old: "nullish (map_option aq_seconds (map_of ?m (target_key ?s (show_int t)))) 0 = daily_seconds bs ?s t"
      using snoc True by (auto simp: daily_seconds_def filter_empty_conv)
    have add: "quota_add_budget ?m b = AList.update (target_key ?s (show_int t))
        \<lparr>aq_scope = ?s, aq_targetId = t, aq_seconds = daily_seconds bs ?s t + bi_secondsAllowed b\<rparr> ?m"
      using True t old by (simp add: quota_add_budget_def scope_cases Let_def)
    have sum: "daily_seconds (bs @ [b]) s' t' = daily_seconds bs s' t' +
        (if s' = ?s \<and> t' = t then bi_secondsAllowed b else 0)" for s' t'
      by (simp add: daily_seconds_def for_b)
    have "wf_quotas (quota_add_budget ?m b)"
      using snoc True by (auto simp: wf_quotas_def add distinct_update quota_key_def)
    with snoc show ?thesis by (auto simp: add sum for_b)
  qed
qed

lemma quotas_of_grants:
  assumes "wf_quotas m"
  shows "wf_quotas (foldl (quota_add_grant dayStart dayEnd) m grants) \<and>
   (\<forall>s t. s \<noteq> Overall \<longrightarrow> map_of (foldl (quota_add_grant dayStart dayEnd) m grants) (target_key s (show_int t)) =
      map_option (\<lambda>q. q\<lparr>aq_seconds := aq_seconds q + granted_seconds grants dayStart dayEnd s t\<rparr>)
        (map_of m (target_key s (show_int t))))"
proof (induction grants rule: rev_induct)
  case Nil
  then show ?case using assms by (simp add: granted_seconds_def option.map_ident)
next
  case (snoc g gs)
  let ?m = "foldl (quota_add_grant dayStart dayEnd) m gs"
  show ?case
  proof (cases "gi_scope g \<noteq> Overall \<and> gi_targetId g \<noteq> None \<and> grantOverlapsDay g dayStart dayEnd")
    case False
    then have "quota_add_grant dayStart dayEnd ?m g = ?m"
      "\<And>s t. s \<noteq> Overall \<Longrightarrow> \<not> (gi_scope g = s \<and> gi_targetId g = Some t \<and> grantOverlapsDay g dayStart dayEnd)"
      by (auto simp: quota_add_grant_def scope_cases split: option.splits)
    with snoc show ?thesis by (auto simp: granted_seconds_def)
  next
    case True
    then obtain t where t: "gi_targetId g = Some t" by auto
    let ?s = "gi_scope g" and ?k = "target_key (gi_scope g) (show_int t)"
    have sum: "granted_seconds (gs @ [g]) dayStart dayEnd s' t' = granted_seconds gs dayStart dayEnd s' t' +
        (if s' = ?s \<and> t' = t then gi_secondsGranted g else 0)" for s' t'
      using True t by (auto simp: granted_seconds_def)
    show ?thesis
    proof (cases "map_of ?m ?k")
      case None
      then have "quota_add_grant dayStart dayEnd ?m g = ?m"
        using True t by (simp add: quota_add_grant_def scope_cases Let_def)
      with snoc None True show ?thesis by (auto simp: sum)
    next
      case (Some q)
      then have add: "quota_add_grant dayStart dayEnd ?m g =
          AList.update ?k (q\<lparr>aq_seconds := aq_seconds q + gi_secondsGranted g\<rparr>) ?m"
        using True t by (simp add: quota_add_grant_def scope_cases Let_def)
      have q: "?k = quota_key q" "aq_scope q \<noteq> Overall" using snoc Some by (auto simp: wf_quotas_def)
      then have "wf_quotas (quota_add_grant dayStart dayEnd ?m g)"
        using snoc unfolding wf_quotas_def add by (auto simp: distinct_update quota_key_def)
      moreover have "\<forall>s' t'. s' \<noteq> Overall \<longrightarrow>
          map_of (quota_add_grant dayStart dayEnd ?m g) (target_key s' (show_int t')) =
          map_option (\<lambda>q. q\<lparr>aq_seconds := aq_seconds q + granted_seconds (gs @ [g]) dayStart dayEnd s' t'\<rparr>)
            (map_of m (target_key s' (show_int t')))"
        using snoc Some True by (auto simp: add sum)
      ultimately show ?thesis by simp
    qed
  qed
qed

definition quota_specs ::
    "budget_input list \<Rightarrow> grant_input list \<Rightarrow> instant \<Rightarrow> instant \<Rightarrow> activity_quota set" where
  "quota_specs budgets grants dayStart dayEnd =
     {\<lparr>aq_scope = s, aq_targetId = t,
       aq_seconds = daily_seconds budgets s t + granted_seconds grants dayStart dayEnd s t\<rparr> | s t.
       s \<noteq> Overall \<and> (\<exists>b \<in> set budgets. daily_for s t b)}"

lemma wf_quotas_values:
  assumes "wf_quotas m"
  shows "q \<in> snd ` set m \<longleftrightarrow> aq_scope q \<noteq> Overall \<and> map_of m (quota_key q) = Some q"
proof -
  have d: "distinct (map fst m)" using assms by (simp add: wf_quotas_def)
  show ?thesis
  proof
    assume "q \<in> snd ` set m"
    then obtain k where "(k, q) \<in> set m" by auto
    then have "map_of m k = Some q" using d by simp
    with assms show "aq_scope q \<noteq> Overall \<and> map_of m (quota_key q) = Some q"
      by (metis wf_quotas_def)
  next
    assume "aq_scope q \<noteq> Overall \<and> map_of m (quota_key q) = Some q"
    then have "(quota_key q, q) \<in> set m" by (blast dest: map_of_SomeD)
    then show "q \<in> snd ` set m" by force
  qed
qed

lemma wf_quotas_ranks:
  assumes "wf_quotas m"
  shows "distinct (map quota_rank (map snd m))"
proof -
  have keys: "map fst m = map (\<lambda>e. quota_key (snd e)) m"
    using assms by (auto simp: wf_quotas_def)
  have "map quota_key (map snd m) = map fst m" unfolding keys by simp
  then have "distinct (map quota_key (map snd m))"
    using assms by (simp only: wf_quotas_def)
  then show ?thesis
    by (auto simp: distinct_map inj_on_def quota_key_def quota_rank_def)
qed

lemma distinct_map_sort_key: "distinct (map f (sort_key g xs)) = distinct (map f xs)"
proof -
  have "mset (map f (sort_key g xs)) = mset (map f xs)" by simp
  then show ?thesis by (rule mset_eq_imp_distinct_iff)
qed

lemma sorted_distinct_keys:
  "sorted (map f xs) \<Longrightarrow> distinct (map f xs) \<Longrightarrow> sorted_wrt (\<lambda>a b. f a < f b) xs"
  by (induction xs) (auto simp: order_less_le)

section \<open>Activity at an instant\<close>

lemma isRuleActiveAt_same_window:
  assumes "sameWindow a b"
  shows "isRuleActiveAt db a t tz = isRuleActiveAt db b t tz"
proof -
  have same: "sr_recurrenceDays a = sr_recurrenceDays b"
      "sr_recurrenceStartMinute a = sr_recurrenceStartMinute b"
      "sr_recurrenceEndMinute a = sr_recurrenceEndMinute b"
      "sr_effectiveFrom a = sr_effectiveFrom b" "sr_effectiveTo a = sr_effectiveTo b"
    using assms by (simp_all add: sameWindow_def)
  show ?thesis unfolding isRuleActiveAt_def isAlwaysOn_def same ..
qed

interpretation active: rule_activity "ruleActiveAt db t tz" for db t tz
  by unfold_locales (simp add: ruleActiveAt_def isRuleActiveAt_same_window)

lemma isRuleActiveAt_total:
  assumes "db tz = Some z" "tz \<noteq> []"
  shows "isRuleActiveAt db r t tz = Inr (ruleActiveAt db t tz r)"
proof -
  have "assertTimeZone db tz = Inr ()" by (rule assertTimeZone_ok [of db tz, OF assms])
  then have "\<exists>b. isRuleActiveAt db r t tz = Inr b"
    by (auto simp: isRuleActiveAt_def localCalendarDate_def localTimeOfDayMinutes_def Let_def split: option.splits)
  then show ?thesis by (auto simp: ruleActiveAt_def)
qed

definition local_minute :: "zone \<Rightarrow> instant \<Rightarrow> minute" where
  "local_minute z t = utc_hour (t + z t) * 60 + utc_minute (t + z t)"

lemma local_minute_bounds: "0 \<le> local_minute z t" "local_minute z t < 1440"
  unfolding local_minute_def utc_minute_of_day msPerDay_def
  by (simp_all add: div_less_int_iff pos_mod_bound)

text \<open>A date bound that falls on the edge of the day, as the schedule model fixes.\<close>

definition day_aligned :: "instant \<Rightarrow> instant \<Rightarrow> schedule_rule \<Rightarrow> bool" where
  "day_aligned dayStart dayEnd r \<longleftrightarrow>
     (case sr_effectiveFrom r of None \<Rightarrow> True | Some f \<Rightarrow> f \<le> dayStart \<or> dayEnd \<le> f)
     \<and> (case sr_effectiveTo r of None \<Rightarrow> True | Some u \<Rightarrow> u \<le> dayStart \<or> dayEnd \<le> u)"

lemma rule_active_on_day:
  assumes db: "db tz = Some z" "tz \<noteq> []" and c: "civil_of_day (local_day z t) = (y, m, d)"
    and t: "dayStart \<le> t" "t < dayEnd" and r: "wf_rule r" "day_aligned dayStart dayEnd r"
  shows "ruleActiveAt db t tz r \<longleftrightarrow> appliesOnDay r (isoWeekday y m d) dayStart dayEnd
     \<and> fst (ruleWindow r) \<le> local_minute z t \<and> local_minute z t < snd (ruleWindow r)"
proof -
  have valid: "assertTimeZone db tz = Inr ()" and zone: "zone_of db tz = z"
    using assertTimeZone_ok [of db tz, OF db] db(1) by (simp_all add: zone_of_def)
  have date: "localCalendarDate db t tz = Inr (y, m, d)"
    using zonedParts_civil [of z t] c by (simp add: localCalendarDate_def valid zone Let_def)
  have time: "localTimeOfDayMinutes db t tz = Inr (local_minute z t)"
    by (simp add: localTimeOfDayMinutes_def valid zone Let_def zonedParts_def local_minute_def split: prod.split)
  have gate: "(case sr_effectiveFrom r of None \<Rightarrow> False | Some f \<Rightarrow> t < f) =
      (case sr_effectiveFrom r of None \<Rightarrow> False | Some f \<Rightarrow> f \<ge> dayEnd)"
    "(case sr_effectiveTo r of None \<Rightarrow> False | Some u \<Rightarrow> t \<ge> u) =
      (case sr_effectiveTo r of None \<Rightarrow> False | Some u \<Rightarrow> u \<le> dayStart)"
    using t r(2) by (auto simp: day_aligned_def split: option.splits)
  have minutes: "wf_minutes (sr_recurrenceStartMinute r) (sr_recurrenceEndMinute r)"
    using r(1) by (simp add: wf_rule_def)
  show ?thesis
    using minutes local_minute_bounds [of z t]
    unfolding ruleActiveAt_def isRuleActiveAt_def gate appliesOnDay_def
    by (cases "sr_recurrenceDays r"; cases "sr_recurrenceStartMinute r"; cases "sr_recurrenceEndMinute r")
      (auto simp: isAlwaysOn_def date time ruleWindow_def wf_minutes_def MINUTES_PER_DAY_def)
qed

section \<open>The policy of a day\<close>

definition project_rule :: "schedule_rule \<Rightarrow> active_rule" where
  "project_rule r = \<lparr>ar_id = sr_id r, ar_targetKind = sr_targetKind r, ar_targetId = sr_targetId r,
     ar_action = sr_action r, ar_startMinute = fst (ruleWindow r), ar_endMinute = snd (ruleWindow r)\<rparr>"

lemma overall_day_rules:
  "overall_rules (day_rules schedules weekday dayStart dayEnd) = map project_rule
     (filter (\<lambda>r. sr_targetKind r = Overall \<and> appliesOnDay r weekday dayStart dayEnd) (byOrdinal schedules))"
  by (simp add: overall_rules_def day_rules_def project_rule_def filter_map comp_def case_prod_unfold conj_commute)

lemma project_rule_in_day: "wf_rule r \<Longrightarrow> in_day (project_rule r)"
  by (auto simp: wf_rule_def wf_minutes_def in_day_def project_rule_def ruleWindow_def MINUTES_PER_DAY_def
      split: option.splits)

lemma localDayBounds_daily:
  assumes "civil_of_day (local_day (zone_of db tz) t) = (y, m, d)"
  shows "localDayBounds db y m d tz = windowContaining db Daily t tz"
proof -
  have "zp_year (zonedParts (zone_of db tz) t) = y" "zp_month (zonedParts (zone_of db tz) t) = m"
    "zp_day (zonedParts (zone_of db tz) t) = d"
    using zonedParts_civil [of "zone_of db tz" t] assms by simp_all
  then show ?thesis by (simp add: localDayBounds_def windowContaining_def window_dates_def Let_def split: prod.split)
qed

lemma effectivePolicy_bounds:
  assumes "localDayBounds db y m d (pi_tz inp) = Inr b" "pi_date inp = (y, m, d)"
  obtains ep where "effectivePolicy db inp = Inr ep"
    "ep_allowedWindows ep = resolveAllowedWindows
       (overall_rules (exception_rules (pi_exceptions inp) (bw_start b) (bw_end b))
        @ overall_rules (day_rules (pi_schedules inp) (isoWeekday y m d) (bw_start b) (bw_end b)))"
  using assms by (simp add: effectivePolicy_def Let_def)

lemma access_allowed_projected:
  assumes "\<And>r. r \<in> set schedules \<Longrightarrow>
      act r \<longleftrightarrow> appliesOnDay r weekday dayStart dayEnd \<and> rule_at m (project_rule r)"
  shows "access_allowed (overall_rules (day_rules schedules weekday dayStart dayEnd)) m \<longleftrightarrow>
    (\<exists>r \<in> set schedules. sr_targetKind r = Overall \<and> sr_action r = Extend \<and> act r) \<or>
    resolveEffectiveAction (filter (\<lambda>r. sr_targetKind r = Overall) schedules) act Allow \<noteq> Deny"
proof -
  let ?O = "\<lambda>r. sr_targetKind r = Overall" and ?ap = "\<lambda>r. appliesOnDay r weekday dayStart dayEnd"
  have extend: "(\<exists>r \<in> set (map project_rule (filter (\<lambda>r. ?O r \<and> ?ap r) (byOrdinal schedules))).
        ar_action r = Extend \<and> rule_at m r)
      \<longleftrightarrow> (\<exists>r \<in> set schedules. ?O r \<and> sr_action r = Extend \<and> act r)"
    using assms by (auto simp: project_rule_def)
  have "List.find (\<lambda>r. (?O r \<and> ?ap r) \<and> rule_at m (project_rule r)) (byOrdinal schedules)
      = List.find (\<lambda>r. ?O r \<and> act r) (byOrdinal schedules)"
    by (rule find_cong_set) (use assms in auto)
  also have "\<dots> = resolveEffectiveRule (filter ?O schedules) act"
    unfolding resolveEffectiveRule_def byOrdinal_def filter_sort [symmetric] by (simp add: find_filter_conv)
  finally have "List.find (rule_at m) (map project_rule (filter (\<lambda>r. ?O r \<and> ?ap r) (byOrdinal schedules)))
      = map_option project_rule (resolveEffectiveRule (filter ?O schedules) act)"
    by (simp add: find_map_conv find_filter_conv)
  then show ?thesis
    unfolding access_allowed_def overall_day_rules extend
    by (auto simp: winner_allows_def resolveEffectiveAction_def project_rule_def split: option.splits)
qed

section \<open>Properties\<close>

text \<open>
  C1 The allowed windows of a day are right minute by minute: a minute of the day is in one of them
  exactly when an extension covers it, or the first rule in precedence order that covers it is not
  a denial (baseline allow).
\<close>

theorem resolveAllowedWindows_pointwise:
  assumes "\<forall>r \<in> set rules. in_day r"
  shows "covers (resolveAllowedWindows rules) m \<longleftrightarrow> 0 \<le> m \<and> m < 1440 \<and> access_allowed rules m"
  using assms by (rule resolveAllowedWindows_covers)

definition bedtime_rules :: "active_rule list" where
  "bedtime_rules =
     [\<lparr>ar_id = 1, ar_targetKind = Overall, ar_targetId = None, ar_action = Deny, ar_startMinute = 1260, ar_endMinute = 1440\<rparr>,
      \<lparr>ar_id = 2, ar_targetKind = Overall, ar_targetId = None, ar_action = Extend, ar_startMinute = 1200, ar_endMinute = 1290\<rparr>]"

lemma resolveAllowedWindows_pointwise_witness:
  "covers (resolveAllowedWindows bedtime_rules) 1280 \<and> \<not> covers (resolveAllowedWindows bedtime_rules) 1300"
  using resolveAllowedWindows_pointwise [of bedtime_rules 1280] resolveAllowedWindows_pointwise [of bedtime_rules 1300]
  by (simp add: bedtime_rules_def in_day_def access_allowed_def rule_at_def winner_allows_def)

text \<open>
  \<open>mergeWindows\<close> computes the minimal list of maximal windows: it is the only ascending list of
  nonempty windows with gaps between them that covers the same minutes.
\<close>

theorem mergeWindows_characterised:
  "normal us \<and> (\<forall>m. covers us m = covers ws m) \<longleftrightarrow> us = mergeWindows ws"
  using normal_unique [of us "mergeWindows ws"] mergeWindows_normal [of ws] mergeWindows_covers [of ws] by metis

text \<open>
  C2 The view of the day and the view of the instant agree on days without exceptions: in a known zone
  with regular midnights at both ends of the day, and when the rules are well formed and dated to whole
  days, the current minute lies in an allowed window of today exactly when an extension is active right
  now or the rule in effect right now is not a denial.
\<close>

theorem allowed_windows_agree_with_now:
  assumes db: "db tz = Some z" "tz \<noteq> []" "zone_ok z" "0 \<le> local_day z t"
    and reg: "regular_midnight z (local_day z t * msPerDay)" "regular_midnight z ((local_day z t + 1) * msPerDay)"
    and inp: "pi_date inp = civil_of_day (local_day z t)" "pi_tz inp = tz" "pi_exceptions inp = []"
    and bounds: "windowContaining db Daily t tz = Inr b"
    and rules: "\<forall>r \<in> set (pi_schedules inp). wf_rule r \<and> day_aligned (bw_start b) (bw_end b) r"
  shows "\<exists>ep. effectivePolicy db inp = Inr ep \<and>
    (covers (ep_allowedWindows ep) (local_minute z t) \<longleftrightarrow>
      (\<exists>r \<in> set (pi_schedules inp). sr_targetKind r = Overall \<and> sr_action r = Extend \<and> ruleActiveAt db t tz r) \<or>
      resolveEffectiveAction (filter (\<lambda>r. sr_targetKind r = Overall) (pi_schedules inp)) (ruleActiveAt db t tz) Allow
        \<noteq> Deny)"
proof -
  obtain y m d where c: "civil_of_day (local_day z t) = (y, m, d)" by (metis prod_cases3)
  have zone: "zone_of db tz = z" using db(1) by (simp add: zone_of_def)
  have days: "window_days Daily (local_day z t) = (local_day z t, local_day z t + 1)" by (simp add: window_days_def)
  have t: "bw_start b \<le> t" "t < bw_end b"
    using windowContaining_spec [of db tz, OF db days reg] bounds by auto
  have ldb: "localDayBounds db y m d (pi_tz inp) = Inr b"
    using localDayBounds_daily [of db tz t y m d] c zone bounds inp(2) by simp
  from effectivePolicy_bounds [OF ldb] inp(1) c obtain ep where ep: "effectivePolicy db inp = Inr ep"
    "ep_allowedWindows ep = resolveAllowedWindows
       (overall_rules (exception_rules (pi_exceptions inp) (bw_start b) (bw_end b))
        @ overall_rules (day_rules (pi_schedules inp) (isoWeekday y m d) (bw_start b) (bw_end b)))" by auto
  let ?R = "overall_rules (day_rules (pi_schedules inp) (isoWeekday y m d) (bw_start b) (bw_end b))"
  have ws: "ep_allowedWindows ep = resolveAllowedWindows ?R"
    using ep(2) inp(3) by (simp add: exception_rules_def overall_rules_def)
  have "\<forall>r \<in> set ?R. in_day r" using rules by (auto simp: overall_day_rules intro: project_rule_in_day)
  then have "covers (ep_allowedWindows ep) (local_minute z t) = access_allowed ?R (local_minute z t)"
    using resolveAllowedWindows_covers local_minute_bounds [of z t] by (simp add: ws)
  also have "\<dots> = ((\<exists>r \<in> set (pi_schedules inp). sr_targetKind r = Overall \<and> sr_action r = Extend \<and> ruleActiveAt db t tz r) \<or>
      resolveEffectiveAction (filter (\<lambda>r. sr_targetKind r = Overall) (pi_schedules inp)) (ruleActiveAt db t tz) Allow
        \<noteq> Deny)"
    by (rule access_allowed_projected)
      (use rules rule_active_on_day [of db tz, OF db(1,2) c t] in \<open>auto simp: rule_at_def project_rule_def\<close>)
  finally show ?thesis using ep(1) by blast
qed

definition night_rule :: schedule_rule where
  "night_rule = \<lparr>sr_id = 7, sr_ordinal = 0, sr_targetKind = Overall, sr_targetId = None,
     sr_recurrenceDays = Some 127, sr_recurrenceStartMinute = Some 0, sr_recurrenceEndMinute = Some 540,
     sr_effectiveFrom = None, sr_effectiveTo = None, sr_action = Deny\<rparr>"

definition march_9_input :: policy_input where
  "march_9_input = \<lparr>pi_date = civil_of_day 20156, pi_tz = ''America/New_York'', pi_schedules = [night_rule],
     pi_budgets = [], pi_grants = [], pi_exceptions = []\<rparr>"

lemma allowed_windows_agree_with_now_witness:
  "\<exists>ep. effectivePolicy sample_tzdb march_9_input = Inr ep \<and>
    (covers (ep_allowedWindows ep) (local_minute new_york_2025 1741521600000) \<longleftrightarrow>
      (\<exists>r \<in> {night_rule}. sr_targetKind r = Overall \<and> sr_action r = Extend
         \<and> ruleActiveAt sample_tzdb 1741521600000 ''America/New_York'' r) \<or>
      resolveEffectiveAction (filter (\<lambda>r. sr_targetKind r = Overall) [night_rule])
        (ruleActiveAt sample_tzdb 1741521600000 ''America/New_York'') Allow \<noteq> Deny)"
proof -
  obtain b where b: "windowContaining sample_tzdb Daily 1741521600000 ''America/New_York'' = Inr b"
    using windowContaining_edges [of sample_tzdb "''America/New_York''" new_york_2025 1741521600000 Daily 20156 20157]
      new_york_ok new_york_midnight [of 20156] new_york_midnight_summer [of 20157]
    by (auto simp: sample_tzdb_def new_york_march_9 window_days_def)
  show ?thesis
    using allowed_windows_agree_with_now [of sample_tzdb "''America/New_York''" new_york_2025 1741521600000
        march_9_input b]
      new_york_ok new_york_midnight [of 20156] new_york_midnight_summer [of 20157] b
    by (simp add: sample_tzdb_def new_york_march_9 march_9_input_def night_rule_def wf_rule_def wf_minutes_def
        day_aligned_def)
qed

lemma effectivePolicy_windows:
  assumes "\<forall>r \<in> set (pi_schedules inp). wf_rule r" "pi_exceptions inp = []" "effectivePolicy db inp = Inr ep"
  shows "normal (ep_allowedWindows ep) \<and> (\<forall>w \<in> set (ep_allowedWindows ep). 0 \<le> iv_start w \<and> iv_end w \<le> 1440)"
proof -
  obtain y m d where c: "pi_date inp = (y, m, d)" by (metis prod_cases3)
  with assms(3) obtain b where b: "localDayBounds db y m d (pi_tz inp) = Inr b"
    by (auto simp: effectivePolicy_def bindE_eq_Inr)
  let ?R = "overall_rules (day_rules (pi_schedules inp) (isoWeekday y m d) (bw_start b) (bw_end b))"
  have ws: "ep_allowedWindows ep = resolveAllowedWindows ?R"
    using effectivePolicy_bounds [OF b c] assms(2,3) by (auto simp: exception_rules_def overall_rules_def)
  have day: "\<forall>r \<in> set ?R. in_day r" using assms(1) by (auto simp: overall_day_rules intro: project_rule_in_day)
  have "0 \<le> iv_start w \<and> iv_end w \<le> 1440" if w: "w \<in> set (resolveAllowedWindows ?R)" for w
  proof -
    have p: "iv_start w < iv_end w"
      using w normal_proper [OF resolveAllowedWindows_normal] by (auto simp: proper_def)
    then have "covers (resolveAllowedWindows ?R) (iv_start w)" "covers (resolveAllowedWindows ?R) (iv_end w - 1)"
      using w by (auto simp: covers_def inside_def)
    then show ?thesis using resolveAllowedWindows_covers [OF day] by simp
  qed
  then show ?thesis using ws resolveAllowedWindows_normal by simp
qed

text \<open>
  With well-formed rules and no exceptions the resolved windows are ascending, nonempty, separated
  and lie inside the day, which is what the allowed-hours builder asserts of its input.
\<close>

theorem effectivePolicy_windows_normal:
  assumes "\<forall>r \<in> set (pi_schedules inp). wf_rule r" "pi_exceptions inp = []" "effectivePolicy db inp = Inr ep"
  shows "normal (ep_allowedWindows ep) \<and> (\<forall>w \<in> set (ep_allowedWindows ep). 0 \<le> iv_start w \<and> iv_end w \<le> 1440)"
  using assms by (rule effectivePolicy_windows)

lemma effectivePolicy_windows_normal_witness:
  "\<exists>ep. effectivePolicy sample_tzdb march_9_input = Inr ep \<and> normal (ep_allowedWindows ep)"
proof -
  obtain ep where "effectivePolicy sample_tzdb march_9_input = Inr ep"
    by (cases "effectivePolicy sample_tzdb march_9_input")
      (auto simp: effectivePolicy_def bindE_eq_Inl localDayBounds_def assertTimeZone_def isValidTimeZone_def
        march_9_input_def sample_tzdb_def Let_def split: prod.splits)
  then show ?thesis
    using effectivePolicy_windows_normal [of march_9_input sample_tzdb ep]
    by (simp add: march_9_input_def night_rule_def wf_rule_def wf_minutes_def)
qed

text \<open>
  A rule the editor marks as shadowed is never in effect: whatever the instant and the zone, its id
  is not among the rules in effect now.
\<close>

theorem shadowed_rule_never_in_effect:
  assumes "f \<in> set (findShadowedRules rules)" "distinct (map sr_id rules)"
  shows "sf_shadowedId f \<notin> set (effectiveRuleIds rules (ruleActiveAt db t tz))"
  using assms by (rule active.shadowed_not_effective)

definition extend_night_rule :: schedule_rule where
  "extend_night_rule = night_rule\<lparr>sr_id := 8, sr_ordinal := 1, sr_action := Extend\<rparr>"

lemma shadowed_rule_never_in_effect_witness:
  "8 \<notin> set (effectiveRuleIds [night_rule, extend_night_rule] (ruleActiveAt sample_tzdb 1741521600000 ''America/New_York''))"
  using shadowed_rule_never_in_effect [of "\<lparr>sf_shadowedId = 8, sf_shadowedById = 7\<rparr>" "[night_rule, extend_night_rule]"]
  by (simp add: findShadowedRules_def byOrdinal_def night_rule_def extend_night_rule_def rule_rank_def
      sameWindow_def targetSupersetOf_def)

text \<open>
  Yet such a rule can change the day: an extension shadowed by a denial of the same window is
  reported as never applying, but its window is united onto the allowed windows, so removing it
  turns an unrestricted day into one with a gap.
\<close>

theorem shadowed_extension_still_widens:
  "findShadowedRules [night_rule, extend_night_rule] = [\<lparr>sf_shadowedId = 8, sf_shadowedById = 7\<rparr>]
   \<and> resolveAllowedWindows (overall_rules (day_rules [night_rule, extend_night_rule] 1 0 86400000)) = [Interval 0 1440]
   \<and> resolveAllowedWindows (overall_rules (day_rules [night_rule] 1 0 86400000)) = [Interval 540 1440]"
proof (intro conjI)
  show "findShadowedRules [night_rule, extend_night_rule] = [\<lparr>sf_shadowedId = 8, sf_shadowedById = 7\<rparr>]"
    by (simp add: findShadowedRules_def byOrdinal_def night_rule_def extend_night_rule_def rule_rank_def
      sameWindow_def targetSupersetOf_def)
  have both: "overall_rules (day_rules [night_rule, extend_night_rule] 1 0 86400000)
      = [project_rule night_rule, project_rule extend_night_rule]"
    by (simp add: overall_day_rules byOrdinal_def night_rule_def extend_night_rule_def rule_rank_def
        appliesOnDay_def weekdayBit_def)
  have one: "overall_rules (day_rules [night_rule] 1 0 86400000) = [project_rule night_rule]"
    by (simp add: overall_day_rules byOrdinal_def night_rule_def rule_rank_def appliesOnDay_def weekdayBit_def)
  note eval = resolveAllowedWindows_def first_match_windows_def extend_windows_def mergeWindows_def
    window_edges_def edge_add_def js_set_add_def segment_winner_def winner_allows_def merge_step_def proper_def
    project_rule_def ruleWindow_def night_rule_def extend_night_rule_def MINUTES_PER_DAY_def
  show "resolveAllowedWindows (overall_rules (day_rules [night_rule, extend_night_rule] 1 0 86400000)) = [Interval 0 1440]"
    unfolding both by (simp add: eval)
  show "resolveAllowedWindows (overall_rules (day_rules [night_rule] 1 0 86400000)) = [Interval 540 1440]"
    unfolding one by (simp add: eval)
qed

text \<open>
  Per (scope, window, target) slot the rows of the weekday shadow the uniform rows, and no row is
  lost or duplicated: the selection is the multiset of the rows that apply.
\<close>

theorem selectBudgetsForWeekday_exact:
  "mset (selectBudgetsForWeekday budgets weekday) =
     filter_mset (\<lambda>b. if \<exists>c. c \<in> set budgets \<and> bi_scope c = bi_scope b \<and> bi_window c = bi_window b
          \<and> bi_targetId c = bi_targetId b \<and> covers_weekday (weekdayBit weekday) c
        then covers_weekday (weekdayBit weekday) b else bi_recurrenceDays b = None) (mset budgets)"
  unfolding selectBudgets_mset slot_specific_def budgetSlotKey_eq
  by (intro arg_cong2 [of _ _ _ _ filter_mset] ext) (auto simp: Bex_def conj_assoc)

lemma buildActivityQuotas_quotas:
  "set (buildActivityQuotas budgets grants dayStart dayEnd) = quota_specs budgets grants dayStart dayEnd
   \<and> sorted_wrt (\<lambda>a b. quota_rank a < quota_rank b) (buildActivityQuotas budgets grants dayStart dayEnd)"
proof
  let ?m = "foldl quota_add_budget [] budgets"
  let ?m' = "foldl (quota_add_grant dayStart dayEnd) ?m grants"
  note m = quotas_of_budgets [of budgets]
  note m' = quotas_of_grants [OF m [THEN conjunct1], of dayStart dayEnd grants]
  have "q \<in> snd ` set ?m' \<longleftrightarrow> q \<in> quota_specs budgets grants dayStart dayEnd" for q
  proof (cases "aq_scope q = Overall")
    case True
    then show ?thesis using wf_quotas_values [OF m' [THEN conjunct1]] by (auto simp: quota_specs_def)
  next
    case False
    then show ?thesis
      using m m' unfolding wf_quotas_values [OF m' [THEN conjunct1]] quota_key_def
      by (cases q) (auto simp: quota_specs_def)
  qed
  then show "set (buildActivityQuotas budgets grants dayStart dayEnd) = quota_specs budgets grants dayStart dayEnd"
    by (auto simp: buildActivityQuotas_def)
  have "distinct (map quota_rank (map snd ?m'))" by (rule wf_quotas_ranks [OF m' [THEN conjunct1]])
  then show "sorted_wrt (\<lambda>a b. quota_rank a < quota_rank b) (buildActivityQuotas budgets grants dayStart dayEnd)"
    unfolding buildActivityQuotas_def
    by (intro sorted_distinct_keys) (simp_all only: distinct_map_sort_key sorted_sort_key)
qed

text \<open>
  The quotas are, for every activity and group with a daily budget, the sum of its daily budgets and
  its live grants, once each, in ascending order; a target with grants only stays unlimited.
\<close>

theorem buildActivityQuotas_exact:
  "set (buildActivityQuotas budgets grants dayStart dayEnd) = quota_specs budgets grants dayStart dayEnd
   \<and> sorted_wrt (\<lambda>a b. quota_rank a < quota_rank b) (buildActivityQuotas budgets grants dayStart dayEnd)"
  by (rule buildActivityQuotas_quotas)

end
