(* ===== verification/Policy_Store.thy ===== *)
theory Policy_Store
  imports Effective_Policy
begin

text \<open>
  The part of \<open>policy/schema.ts\<close> and \<open>policy/repository.ts\<close> the policy engine reads: groups and
  memberships, activities, budgets, schedules and exceptions, for users and for user groups, and
  usage samples, grants and notification policies. A
  table is the list of its rows; a query is a filter and a sort on it. Schedules keep their
  autoincrement sequence and their storage checks, so that the invariant of the stored rules can be
  stated and proved for every operation that writes them. An operation that violates a check
  writes nothing.
\<close>

section \<open>Tables\<close>

record activity_row =
  act_id :: int
  act_kind :: activity_kind
  act_matcher :: string
  act_matchType :: match_type

text \<open>Timestamps of a usage sample are whole seconds, held in milliseconds.\<close>

record sample_row =
  us_id :: int
  us_userId :: int
  us_clientId :: int
  us_activityId :: int
  us_startedAt :: instant
  us_endedAt :: instant

record notification_row =
  np_userId :: int
  np_enabled :: bool
  np_soundProfile :: sound_profile
  np_graceSeconds :: int
  np_cadenceOverridesJson :: "string option"

record store =
  st_groups :: "(int \<times> string) list"
  st_groupSeq :: int
  st_memberships :: "(int \<times> int) list"
  st_activities :: "activity_row list"
  st_activitySeq :: int
  st_activityGroups :: "(int \<times> string) list"
  st_activityGroupSeq :: int
  st_activityMembers :: "(int \<times> int) list"
  st_budgets :: "(int \<times> int \<times> budget_input) list"
  st_budgetSeq :: int
  st_groupBudgets :: "(int \<times> int \<times> budget_input) list"
  st_groupBudgetSeq :: int
  st_schedules :: "(int \<times> schedule_rule) list"
  st_scheduleSeq :: int
  st_groupSchedules :: "(int \<times> schedule_rule) list"
  st_groupScheduleSeq :: int
  st_exceptions :: "(int \<times> exception_input) list"
  st_exceptionSeq :: int
  st_groupExceptions :: "(int \<times> exception_input) list"
  st_groupExceptionSeq :: int
  st_samples :: "sample_row list"
  st_sampleSeq :: int
  st_grants :: "(int \<times> grant_input) list"
  st_notifications :: "notification_row list"

definition empty_store :: store where
  "empty_store = \<lparr>st_groups = [], st_groupSeq = 0, st_memberships = [], st_activities = [], st_activitySeq = 0,
     st_activityGroups = [], st_activityGroupSeq = 0, st_activityMembers = [],
     st_budgets = [], st_budgetSeq = 0, st_groupBudgets = [], st_groupBudgetSeq = 0,
     st_schedules = [], st_scheduleSeq = 0, st_groupSchedules = [], st_groupScheduleSeq = 0,
     st_exceptions = [], st_exceptionSeq = 0, st_groupExceptions = [], st_groupExceptionSeq = 0,
     st_samples = [], st_sampleSeq = 0, st_grants = [], st_notifications = []\<rparr>"

text \<open>A \<open>timestamp\<close> column keeps whole seconds.\<close>

definition stored_timestamp :: "instant \<Rightarrow> instant" where
  "stored_timestamp t = t div 1000 * 1000"

section \<open>Groups and memberships\<close>

definition listUserGroups :: "store \<Rightarrow> (int \<times> string) list" where
  "listUserGroups st = sort_key fst (st_groups st)"

definition getUserGroup :: "store \<Rightarrow> int \<Rightarrow> (int \<times> string) option" where
  "getUserGroup st i = List.find (\<lambda>g. fst g = i) (st_groups st)"

definition listUserGroupsForUser :: "store \<Rightarrow> int \<Rightarrow> (int \<times> string) list" where
  "listUserGroupsForUser st userId =
     sort_key fst (concat (map (\<lambda>(u, gid). if u = userId then filter (\<lambda>g. fst g = gid) (st_groups st) else [])
       (st_memberships st)))"

definition isUserGroupMember :: "store \<Rightarrow> int \<Rightarrow> int \<Rightarrow> bool" where
  "isUserGroupMember st groupId userId \<longleftrightarrow> (userId, groupId) \<in> set (st_memberships st)"

definition addUserToGroup :: "store \<Rightarrow> int \<Rightarrow> int \<Rightarrow> store" where
  "addUserToGroup st groupId userId =
     st\<lparr>st_memberships := (if (userId, groupId) \<in> set (st_memberships st) then st_memberships st
        else st_memberships st @ [(userId, groupId)])\<rparr>"

definition removeUserFromGroup :: "store \<Rightarrow> int \<Rightarrow> int \<Rightarrow> store \<times> bool" where
  "removeUserFromGroup st groupId userId =
     (st\<lparr>st_memberships := filter (\<lambda>m. m \<noteq> (userId, groupId)) (st_memberships st)\<rparr>,
      (userId, groupId) \<in> set (st_memberships st))"

section \<open>Activities\<close>

definition listActivities :: "store \<Rightarrow> activity_row list" where
  "listActivities st = sort_key act_id (st_activities st)"

definition getActivity :: "store \<Rightarrow> int \<Rightarrow> activity_row option" where
  "getActivity st i = List.find (\<lambda>a. act_id a = i) (st_activities st)"

definition listGroupActivities :: "store \<Rightarrow> int \<Rightarrow> activity_row list" where
  "listGroupActivities st groupId =
     sort_key act_id (concat (map (\<lambda>(aid, g). if g = groupId then filter (\<lambda>a. act_id a = aid) (st_activities st) else [])
       (st_activityMembers st)))"

definition isGroupMember :: "store \<Rightarrow> int \<Rightarrow> int \<Rightarrow> bool" where
  "isGroupMember st groupId activityId \<longleftrightarrow> (activityId, groupId) \<in> set (st_activityMembers st)"

definition addActivityToGroup :: "store \<Rightarrow> int \<Rightarrow> int \<Rightarrow> store" where
  "addActivityToGroup st groupId activityId =
     st\<lparr>st_activityMembers := (if (activityId, groupId) \<in> set (st_activityMembers st) then st_activityMembers st
        else st_activityMembers st @ [(activityId, groupId)])\<rparr>"

definition removeActivityFromGroup :: "store \<Rightarrow> int \<Rightarrow> int \<Rightarrow> store \<times> bool" where
  "removeActivityFromGroup st groupId activityId =
     (st\<lparr>st_activityMembers := filter (\<lambda>m. m \<noteq> (activityId, groupId)) (st_activityMembers st)\<rparr>,
      (activityId, groupId) \<in> set (st_activityMembers st))"

text \<open>Deleting an activity cascades to its memberships and its usage samples.\<close>

definition deleteActivity :: "store \<Rightarrow> int \<Rightarrow> store \<times> bool" where
  "deleteActivity st i =
     (st\<lparr>st_activities := filter (\<lambda>a. act_id a \<noteq> i) (st_activities st),
         st_activityMembers := filter (\<lambda>m. fst m \<noteq> i) (st_activityMembers st),
         st_samples := filter (\<lambda>s. us_activityId s \<noteq> i) (st_samples st)\<rparr>,
      \<exists>a \<in> set (st_activities st). act_id a = i)"

section \<open>Reads by owner\<close>

definition listUserBudgets :: "store \<Rightarrow> int \<Rightarrow> budget_input list" where
  "listUserBudgets st userId = map (\<lambda>(i, u, b). b) (sort_key fst (filter (\<lambda>(i, u, b). u = userId) (st_budgets st)))"

definition listGroupBudgets :: "store \<Rightarrow> int \<Rightarrow> budget_input list" where
  "listGroupBudgets st groupId = map (\<lambda>(i, g, b). b) (sort_key fst (filter (\<lambda>(i, g, b). g = groupId) (st_groupBudgets st)))"

definition owned :: "int \<Rightarrow> (int \<times> 'r) list \<Rightarrow> 'r list" where
  "owned k rows = map snd (filter (\<lambda>r. fst r = k) rows)"

definition listUserSchedules :: "store \<Rightarrow> int \<Rightarrow> schedule_rule list" where
  "listUserSchedules st userId = sort_key rule_rank (owned userId (st_schedules st))"

definition listGroupSchedules :: "store \<Rightarrow> int \<Rightarrow> schedule_rule list" where
  "listGroupSchedules st groupId = sort_key rule_rank (owned groupId (st_groupSchedules st))"

definition exception_rank :: "exception_input \<Rightarrow> instant \<times> int" where
  "exception_rank x = (xi_expiresAt x, xi_id x)"

definition listUserExceptions :: "store \<Rightarrow> int \<Rightarrow> exception_input list" where
  "listUserExceptions st userId = sort_key exception_rank (owned userId (st_exceptions st))"

definition listGroupExceptions :: "store \<Rightarrow> int \<Rightarrow> exception_input list" where
  "listGroupExceptions st groupId = sort_key exception_rank (owned groupId (st_groupExceptions st))"

section \<open>Schedules\<close>

datatype store_error = CheckViolation | Reorder reorder_error

text \<open>The storage checks of a schedule row: target coherence, mask, minutes, effective window.\<close>

definition targetCoherence :: "scope \<Rightarrow> int option \<Rightarrow> bool" where
  "targetCoherence kind target \<longleftrightarrow> (kind = Overall) = (target = None)"

definition schedule_checks :: "schedule_rule \<Rightarrow> bool" where
  "schedule_checks r \<longleftrightarrow>
     targetCoherence (sr_targetKind r) (sr_targetId r)
     \<and> (case sr_recurrenceDays r of None \<Rightarrow> True | Some d \<Rightarrow> WEEKDAY_MASK_MIN \<le> d \<and> d \<le> WEEKDAY_MASK_MAX)
     \<and> ((sr_recurrenceStartMinute r = None) = (sr_recurrenceEndMinute r = None)
        \<and> (case (sr_recurrenceStartMinute r, sr_recurrenceEndMinute r) of
             (Some s, Some e) \<Rightarrow> s \<ge> MINUTE_OF_DAY_MIN \<and> e \<le> MINUTE_OF_DAY_MAX \<and> s < e
           | _ \<Rightarrow> True))
     \<and> (case (sr_effectiveFrom r, sr_effectiveTo r) of (Some f, Some u) \<Rightarrow> f < u | _ \<Rightarrow> True)"

record schedule_create =
  sc_targetKind :: scope
  sc_targetId :: "int option"
  sc_action :: schedule_action
  sc_recurrenceDays :: "int option"
  sc_recurrenceStartMinute :: "minute option"
  sc_recurrenceEndMinute :: "minute option"
  sc_effectiveFrom :: "instant option"
  sc_effectiveTo :: "instant option"
  sc_ordinal :: "int option"

definition schedule_values :: "int \<Rightarrow> schedule_create \<Rightarrow> schedule_rule" where
  "schedule_values i c =
     \<lparr>sr_id = i, sr_ordinal = nullish (sc_ordinal c) 0, sr_targetKind = sc_targetKind c,
      sr_targetId = sc_targetId c, sr_recurrenceDays = sc_recurrenceDays c,
      sr_recurrenceStartMinute = sc_recurrenceStartMinute c, sr_recurrenceEndMinute = sc_recurrenceEndMinute c,
      sr_effectiveFrom = map_option stored_timestamp (sc_effectiveFrom c),
      sr_effectiveTo = map_option stored_timestamp (sc_effectiveTo c), sr_action = sc_action c\<rparr>"

definition createSchedule :: "store \<Rightarrow> int \<Rightarrow> schedule_create \<Rightarrow> store_error + store \<times> schedule_rule" where
  "createSchedule st userId c =
     (let row = schedule_values (st_scheduleSeq st + 1) c in
      if \<not> schedule_checks row then Inl CheckViolation
      else Inr (st\<lparr>st_schedules := st_schedules st @ [(userId, row)], st_scheduleSeq := st_scheduleSeq st + 1\<rparr>, row))"

definition createGroupSchedule :: "store \<Rightarrow> int \<Rightarrow> schedule_create \<Rightarrow> store_error + store \<times> schedule_rule" where
  "createGroupSchedule st groupId c =
     (let row = schedule_values (st_groupScheduleSeq st + 1) c in
      if \<not> schedule_checks row then Inl CheckViolation
      else Inr (st\<lparr>st_groupSchedules := st_groupSchedules st @ [(groupId, row)],
                   st_groupScheduleSeq := st_groupScheduleSeq st + 1\<rparr>, row))"

text \<open>A patch: an omitted key (\<open>None\<close>) leaves the column unchanged.\<close>

record schedule_update =
  su_targetKind :: "scope option"
  su_targetId :: "int option option"
  su_action :: "schedule_action option"
  su_recurrenceDays :: "int option option"
  su_recurrenceStartMinute :: "minute option option"
  su_recurrenceEndMinute :: "minute option option"
  su_effectiveFrom :: "instant option option"
  su_effectiveTo :: "instant option option"
  su_ordinal :: "int option"

definition patch_schedule :: "schedule_update \<Rightarrow> schedule_rule \<Rightarrow> schedule_rule" where
  "patch_schedule p r =
     \<lparr>sr_id = sr_id r, sr_ordinal = nullish (su_ordinal p) (sr_ordinal r),
      sr_targetKind = nullish (su_targetKind p) (sr_targetKind r),
      sr_targetId = nullish (su_targetId p) (sr_targetId r),
      sr_recurrenceDays = nullish (su_recurrenceDays p) (sr_recurrenceDays r),
      sr_recurrenceStartMinute = nullish (su_recurrenceStartMinute p) (sr_recurrenceStartMinute r),
      sr_recurrenceEndMinute = nullish (su_recurrenceEndMinute p) (sr_recurrenceEndMinute r),
      sr_effectiveFrom = nullish (map_option (map_option stored_timestamp) (su_effectiveFrom p)) (sr_effectiveFrom r),
      sr_effectiveTo = nullish (map_option (map_option stored_timestamp) (su_effectiveTo p)) (sr_effectiveTo r),
      sr_action = nullish (su_action p) (sr_action r)\<rparr>"

definition update_rows ::
    "int \<Rightarrow> (schedule_rule \<Rightarrow> schedule_rule) \<Rightarrow> (int \<times> schedule_rule) list \<Rightarrow> (int \<times> schedule_rule) list" where
  "update_rows i f rows = map (\<lambda>(u, r). if sr_id r = i then (u, f r) else (u, r)) rows"

definition find_schedule :: "int \<Rightarrow> (int \<times> schedule_rule) list \<Rightarrow> schedule_rule option" where
  "find_schedule i rows = map_option snd (List.find (\<lambda>(u, r). sr_id r = i) rows)"

definition updateSchedule ::
    "store \<Rightarrow> int \<Rightarrow> schedule_update \<Rightarrow> store_error + store \<times> schedule_rule option" where
  "updateSchedule st i p =
     (let rows = update_rows i (patch_schedule p) (st_schedules st) in
      if \<not> list_all (\<lambda>(u, r). schedule_checks r) rows then Inl CheckViolation
      else Inr (st\<lparr>st_schedules := rows\<rparr>, find_schedule i rows))"

definition deleteSchedule :: "store \<Rightarrow> int \<Rightarrow> store \<times> bool" where
  "deleteSchedule st i =
     (st\<lparr>st_schedules := filter (\<lambda>(u, r). sr_id r \<noteq> i) (st_schedules st)\<rparr>,
      find_schedule i (st_schedules st) \<noteq> None)"

definition write_ordinals :: "schedule_rule list \<Rightarrow> (int \<times> schedule_rule) list \<Rightarrow> (int \<times> schedule_rule) list" where
  "write_ordinals reordered rows =
     foldl (\<lambda>t rule. update_rows (sr_id rule) (\<lambda>x. x\<lparr>sr_ordinal := sr_ordinal rule\<rparr>) t) rows reordered"

definition reorderUserSchedules :: "store \<Rightarrow> int \<Rightarrow> int list \<Rightarrow> store_error + store \<times> schedule_rule list" where
  "reorderUserSchedules st userId orderedIds =
     (case reorder (listUserSchedules st userId) orderedIds of
        Inl e \<Rightarrow> Inl (Reorder e)
      | Inr reordered \<Rightarrow>
          let st' = st\<lparr>st_schedules := write_ordinals reordered (st_schedules st)\<rparr>
          in Inr (st', listUserSchedules st' userId))"

definition reorderGroupSchedules :: "store \<Rightarrow> int \<Rightarrow> int list \<Rightarrow> store_error + store \<times> schedule_rule list" where
  "reorderGroupSchedules st groupId orderedIds =
     (case reorder (listGroupSchedules st groupId) orderedIds of
        Inl e \<Rightarrow> Inl (Reorder e)
      | Inr reordered \<Rightarrow>
          let st' = st\<lparr>st_groupSchedules := write_ordinals reordered (st_groupSchedules st)\<rparr>
          in Inr (st', listGroupSchedules st' groupId))"

section \<open>Histories of a schedule table\<close>

datatype schedule_op =
    Op_Create int schedule_create
  | Op_Update int schedule_update
  | Op_Delete int
  | Op_Reorder int "int list"

text \<open>A failed operation leaves the store as it was.\<close>

fun apply_op :: "store \<Rightarrow> schedule_op \<Rightarrow> store" where
  "apply_op st (Op_Create userId c) = (case createSchedule st userId c of Inl _ \<Rightarrow> st | Inr (st', _) \<Rightarrow> st')"
| "apply_op st (Op_Update i p) = (case updateSchedule st i p of Inl _ \<Rightarrow> st | Inr (st', _) \<Rightarrow> st')"
| "apply_op st (Op_Delete i) = fst (deleteSchedule st i)"
| "apply_op st (Op_Reorder userId ids) = (case reorderUserSchedules st userId ids of Inl _ \<Rightarrow> st | Inr (st', _) \<Rightarrow> st')"

definition run_ops :: "schedule_op list \<Rightarrow> store" where
  "run_ops ops = foldl apply_op empty_store ops"

section \<open>The invariant of stored schedules\<close>

definition schedules_ok :: "store \<Rightarrow> bool" where
  "schedules_ok st \<longleftrightarrow>
     distinct (map (sr_id \<circ> snd) (st_schedules st))
     \<and> (\<forall>(u, r) \<in> set (st_schedules st). sr_id r \<le> st_scheduleSeq st \<and> schedule_checks r)"

lemma schedule_checks_wf: "schedule_checks r \<Longrightarrow> wf_rule r"
  by (auto simp: schedule_checks_def wf_rule_def wf_minutes_def recurrence_bounds split: option.splits)

lemma checks_ordinal [simp]: "schedule_checks (r\<lparr>sr_ordinal := n\<rparr>) = schedule_checks r"
  by (simp add: schedule_checks_def)

lemma update_rows_ids:
  assumes "\<And>r. sr_id (f r) = sr_id r"
  shows "map (sr_id \<circ> snd) (update_rows i f rows) = map (sr_id \<circ> snd) rows"
  using assms by (auto simp: update_rows_def)

lemma write_ordinals_snoc:
  "write_ordinals (rs @ [r]) rows = update_rows (sr_id r) (\<lambda>x. x\<lparr>sr_ordinal := sr_ordinal r\<rparr>) (write_ordinals rs rows)"
  by (simp add: write_ordinals_def)

lemma write_ordinals_ids: "map (sr_id \<circ> snd) (write_ordinals rs rows) = map (sr_id \<circ> snd) rows"
proof (induction rs rule: rev_induct)
  case (snoc r rs)
  have "map (sr_id \<circ> snd) (update_rows i (\<lambda>x. x\<lparr>sr_ordinal := n\<rparr>) t) = map (sr_id \<circ> snd) t" for i n t
    by (rule update_rows_ids) simp
  then show ?case unfolding write_ordinals_snoc using snoc by (simp only:)
qed (simp add: write_ordinals_def)

lemma write_ordinals_map:
  "write_ordinals rs rows = map (\<lambda>(u, x). (u, case List.find (\<lambda>r. sr_id r = sr_id x) (rev rs) of
      None \<Rightarrow> x | Some r \<Rightarrow> x\<lparr>sr_ordinal := sr_ordinal r\<rparr>)) rows"
proof (induction rs rule: rev_induct)
  case Nil
  then show ?case by (simp add: write_ordinals_def)
next
  case (snoc r rs)
  show ?case
    unfolding write_ordinals_snoc snoc update_rows_def
    by (auto split: option.splits simp: case_prod_unfold)
qed

lemma schedules_ok_step: "schedules_ok st \<Longrightarrow> schedules_ok (apply_op st op)"
proof (cases op)
  case (Op_Create userId c)
  moreover assume "schedules_ok st"
  ultimately show ?thesis
    by (auto simp: createSchedule_def Let_def schedules_ok_def schedule_values_def split: if_splits)
next
  case (Op_Update i p)
  moreover assume ok: "schedules_ok st"
  moreover have ids: "map (sr_id \<circ> snd) (update_rows i (patch_schedule p) (st_schedules st)) = map (sr_id \<circ> snd) (st_schedules st)"
    by (rule update_rows_ids) (simp add: patch_schedule_def)
  moreover have "\<forall>(u, r) \<in> set (update_rows i (patch_schedule p) (st_schedules st)). sr_id r \<le> st_scheduleSeq st"
    using ok by (auto simp: update_rows_def schedules_ok_def patch_schedule_def split: if_splits)
  ultimately show ?thesis
    by (auto simp: updateSchedule_def Let_def schedules_ok_def list_all_iff split: if_splits)
next
  case (Op_Delete i)
  moreover assume "schedules_ok st"
  ultimately show ?thesis
    by (auto simp: deleteSchedule_def schedules_ok_def distinct_map intro: inj_on_subset)
next
  case (Op_Reorder userId ids)
  moreover assume ok: "schedules_ok st"
  moreover have "\<forall>(u, r) \<in> set (write_ordinals rs (st_schedules st)). sr_id r \<le> st_scheduleSeq st \<and> schedule_checks r" for rs
    using ok unfolding write_ordinals_map by (auto simp: schedules_ok_def split: option.splits)
  ultimately show ?thesis
    by (auto simp: reorderUserSchedules_def Let_def schedules_ok_def write_ordinals_ids split: sum.splits)
qed

lemma schedules_ok_run: "schedules_ok (run_ops ops)"
proof (induction ops rule: rev_induct)
  case (snoc op ops)
  then show ?case using schedules_ok_step by (simp add: run_ops_def)
qed (simp add: run_ops_def empty_store_def schedules_ok_def)

lemma set_listUserSchedules: "set (listUserSchedules st u) = {r. (u, r) \<in> set (st_schedules st)}"
  by (force simp: listUserSchedules_def owned_def)

lemma listUserSchedules_distinct:
  assumes "schedules_ok st"
  shows "distinct (map sr_id (listUserSchedules st u))"
proof -
  have "distinct (map (sr_id \<circ> snd) (filter (\<lambda>r. fst r = u) (st_schedules st)))"
    using assms by (simp add: schedules_ok_def distinct_map_filter)
  then have "distinct (map sr_id (owned u (st_schedules st)))" by (simp add: owned_def)
  then show ?thesis by (simp add: listUserSchedules_def distinct_map_sort_key)
qed

text \<open>The rows of a user after a reorder are the renumbered rules; the rows of others are untouched.\<close>

lemma find_rev_reordered:
  assumes "distinct (map sr_id rs)" "r \<in> set rs"
  shows "List.find (\<lambda>x. sr_id x = sr_id r) (rev rs) = Some r"
proof -
  obtain x where "List.find (\<lambda>x. sr_id x = sr_id r) (rev rs) = Some x"
    using assms(2) by (cases "List.find (\<lambda>x. sr_id x = sr_id r) (rev rs)") (auto simp: find_None_iff)
  moreover from find_in_set [OF this] have "x = r"
    using assms by (auto simp: distinct_map dest: inj_onD)
  ultimately show ?thesis by simp
qed

lemma write_ordinals_other:
  assumes "schedules_ok st" "sr_id ` set rs \<subseteq> sr_id ` set (listUserSchedules st u)" "v \<noteq> u"
  shows "owned v (write_ordinals rs (st_schedules st)) = owned v (st_schedules st)"
proof -
  have "List.find (\<lambda>r. sr_id r = sr_id x) (rev rs) = None" if x: "(v, x) \<in> set (st_schedules st)" for x
  proof (rule ccontr)
    assume "List.find (\<lambda>r. sr_id r = sr_id x) (rev rs) \<noteq> None"
    then obtain r where "r \<in> set rs" "sr_id r = sr_id x" by (auto dest: find_in_set)
    then have "sr_id x \<in> sr_id ` set rs" by (metis imageI)
    with assms(2) obtain s where "(u, s) \<in> set (st_schedules st)" "sr_id s = sr_id x"
      by (auto simp: set_listUserSchedules)
    with x assms(1) have "(u, s) = (v, x)"
      using inj_onD [of "sr_id \<circ> snd" "set (st_schedules st)" "(u, s)" "(v, x)"]
      by (simp add: schedules_ok_def distinct_map)
    with assms(3) show False by simp
  qed
  then show ?thesis
    unfolding owned_def write_ordinals_map
    by (auto simp: filter_map comp_def case_prod_unfold intro!: map_cong)
qed

lemma write_ordinals_own:
  assumes ok: "schedules_ok st" and rs: "reorder (listUserSchedules st u) ids = Inr rs"
  shows "mset (owned u (write_ordinals rs (st_schedules st))) = mset rs"
proof -
  let ?L = "listUserSchedules st u" and ?g = "\<lambda>x. case List.find (\<lambda>r. sr_id r = sr_id x) (rev rs) of
      None \<Rightarrow> x | Some r \<Rightarrow> x\<lparr>sr_ordinal := sr_ordinal r\<rparr>"
  have p: "map sr_id rs = ids" "distinct (map sr_id ?L)" "mset ids = mset (map sr_id ?L)"
    and e: "mset (map (sr_ordinal_update (\<lambda>_. 0)) rs) = mset (map (sr_ordinal_update (\<lambda>_. 0)) ?L)"
    using reorder_permutation [of ?L ids] rs reorder_Inr_iff [of ?L ids rs] by auto
  have d: "distinct (map sr_id rs)" using p by (metis mset_eq_imp_distinct_iff)
  have g: "?g x = r" if "r \<in> set rs" "x = r\<lparr>sr_ordinal := n\<rparr>" for x r n
    using find_rev_reordered [OF d that(1)] that(2) by simp
  have "owned u (write_ordinals rs (st_schedules st)) = map ?g (owned u (st_schedules st))"
    unfolding owned_def write_ordinals_map by (auto simp: filter_map comp_def case_prod_unfold)
  then have "mset (owned u (write_ordinals rs (st_schedules st))) = image_mset ?g (mset ?L)"
    by (simp add: listUserSchedules_def)
  also have "\<dots> = image_mset ?g (mset (map (sr_ordinal_update (\<lambda>_. 0)) ?L))"
  proof -
    have "?g x = ?g (x\<lparr>sr_ordinal := 0\<rparr>)" if x: "x \<in> set ?L" for x
    proof -
      have "x\<lparr>sr_ordinal := 0\<rparr> \<in> set (map (sr_ordinal_update (\<lambda>_. 0)) rs)"
        using mset_eq_setD [OF e] x by auto
      then obtain r where r: "r \<in> set rs" "x\<lparr>sr_ordinal := 0\<rparr> = r\<lparr>sr_ordinal := 0\<rparr>" by auto
      have "x = (x\<lparr>sr_ordinal := 0\<rparr>)\<lparr>sr_ordinal := sr_ordinal x\<rparr>" by simp
      then have "x = r\<lparr>sr_ordinal := sr_ordinal x\<rparr>" unfolding r(2) by simp
      with r show ?thesis using g [OF r(1)] by metis
    qed
    then have "map ?g ?L = map ?g (map (sr_ordinal_update (\<lambda>_. 0)) ?L)"
      unfolding map_map by (intro map_cong) (simp_all only: comp_apply)
    then show ?thesis by (metis mset_map)
  qed
  also have "\<dots> = image_mset ?g (mset (map (sr_ordinal_update (\<lambda>_. 0)) rs))" by (simp only: e)
  also have "\<dots> = mset rs"
  proof -
    have "map ?g (map (sr_ordinal_update (\<lambda>_. 0)) rs) = map id rs"
      unfolding map_map by (rule map_cong) (use g in auto)
    then show ?thesis by (metis mset_map list.map_id)
  qed
  finally show ?thesis .
qed

section \<open>Properties\<close>

text \<open>
  Whatever the history of creations, updates, deletions and reorders, and whichever of them failed,
  the schedules of every user are well formed, so the resolver's assumptions hold of what it reads.
\<close>

theorem stored_schedules_well_formed:
  "list_all wf_rule (listUserSchedules (run_ops ops) userId)
   \<and> distinct (map sr_id (listUserSchedules (run_ops ops) userId))
   \<and> byOrdinal (listUserSchedules (run_ops ops) userId) = listUserSchedules (run_ops ops) userId"
proof (intro conjI)
  show "list_all wf_rule (listUserSchedules (run_ops ops) userId)"
    using schedules_ok_run [of ops] schedule_checks_wf
    by (auto simp: list_all_iff set_listUserSchedules schedules_ok_def)
  show "distinct (map sr_id (listUserSchedules (run_ops ops) userId))"
    by (rule listUserSchedules_distinct [OF schedules_ok_run])
  show "byOrdinal (listUserSchedules (run_ops ops) userId) = listUserSchedules (run_ops ops) userId"
    by (rule byOrdinal_id) (simp add: listUserSchedules_def)
qed

text \<open>
  A reorder of a user's schedules either fails and writes nothing, or returns the rules in exactly
  the requested order with dense ordinals, leaving the rules of every other user as they were.
\<close>

theorem reorderUserSchedules_persists:
  assumes "schedules_ok st"
  shows "case reorderUserSchedules st userId ids of
     Inl _ \<Rightarrow> mset ids \<noteq> mset (map sr_id (listUserSchedules st userId))
   | Inr (st', rows) \<Rightarrow> map sr_id rows = ids \<and> map sr_ordinal rows = map int [0..<length ids]
       \<and> rows = listUserSchedules st' userId
       \<and> (\<forall>v. v = userId \<or> listUserSchedules st' v = listUserSchedules st v)"
proof (cases "reorder (listUserSchedules st userId) ids")
  case (Inl e)
  then show ?thesis
    using reorder_permutation [of "listUserSchedules st userId" ids] listUserSchedules_distinct [OF assms, of userId]
    by (auto simp: reorderUserSchedules_def)
next
  case (Inr rs)
  let ?st' = "st\<lparr>st_schedules := write_ordinals rs (st_schedules st)\<rparr>"
  have p: "map sr_id rs = ids" "map sr_ordinal rs = map int [0..<length (listUserSchedules st userId)]" "byOrdinal rs = rs"
    and e: "mset (map (sr_ordinal_update (\<lambda>_. 0)) rs) = mset (map (sr_ordinal_update (\<lambda>_. 0)) (listUserSchedules st userId))"
    using reorder_permutation [of "listUserSchedules st userId" ids] Inr by auto
  have len: "length ids = length (listUserSchedules st userId)"
    using p(1,2) by (metis length_map length_upt diff_zero)
  have own: "mset (owned userId (write_ordinals rs (st_schedules st))) = mset rs"
    by (rule write_ordinals_own [OF assms Inr])
  have "inj_on sr_ordinal (set rs)" "distinct rs"
    using p(2) by (metis distinct_map distinct_map_int_upt)+
  then have "inj_on rule_rank (set (owned userId (write_ordinals rs (st_schedules st))))"
    unfolding mset_eq_setD [OF own] by (auto simp: inj_on_def rule_rank_def)
  then have rows: "listUserSchedules ?st' userId = rs"
    using sort_key_inj_key_eq [OF own] sorted_byOrdinal [of rs] p(3) by (simp add: listUserSchedules_def)
  have other: "listUserSchedules ?st' v = listUserSchedules st v" if "v \<noteq> userId" for v
  proof -
    have ids: "sr_id ` set rs \<subseteq> sr_id ` set (listUserSchedules st userId)"
      using reorder_Inr_iff [of "listUserSchedules st userId" ids rs] Inr p(1) by (metis mset_eq_setD order_refl set_map)
    show ?thesis using write_ordinals_other [OF assms ids that] by (simp add: listUserSchedules_def)
  qed
  have "reorderUserSchedules st userId ids = Inr (?st', listUserSchedules ?st' userId)"
    using Inr by (simp add: reorderUserSchedules_def Let_def)
  then show ?thesis using p(1,2) len rows other by auto
qed

definition two_rule_store :: store where
  "two_rule_store = run_ops
     [Op_Create 1 \<lparr>sc_targetKind = Overall, sc_targetId = None, sc_action = Deny, sc_recurrenceDays = None,
        sc_recurrenceStartMinute = None, sc_recurrenceEndMinute = None, sc_effectiveFrom = None,
        sc_effectiveTo = None, sc_ordinal = None\<rparr>,
      Op_Create 1 \<lparr>sc_targetKind = Overall, sc_targetId = None, sc_action = Allow, sc_recurrenceDays = None,
        sc_recurrenceStartMinute = Some 60, sc_recurrenceEndMinute = Some 120, sc_effectiveFrom = None,
        sc_effectiveTo = None, sc_ordinal = Some 1\<rparr>]"

lemma reorderUserSchedules_persists_witness:
  "\<exists>st' rows. reorderUserSchedules two_rule_store 1 [2, 1] = Inr (st', rows) \<and> map sr_id rows = [2, 1]
     \<and> rows = listUserSchedules st' 1"
proof -
  have ok: "schedules_ok two_rule_store" unfolding two_rule_store_def by (rule schedules_ok_run)
  have "mset [2, 1] = mset (map sr_id (listUserSchedules two_rule_store 1))"
    by (simp add: two_rule_store_def run_ops_def empty_store_def createSchedule_def schedule_values_def
        schedule_checks_def targetCoherence_def recurrence_bounds listUserSchedules_def owned_def rule_rank_def Let_def)
  then show ?thesis
    using reorderUserSchedules_persists [OF ok, where userId = 1 and ids = "[2, 1]"] by (auto split: sum.splits prod.splits)
qed

end
