(* ===== verification/Control_Store.thy ===== *)
theory Control_Store
  imports Policy_Store
begin

text \<open>
  The control-plane part of \<open>policy/schema.ts\<close> and \<open>policy/repository.ts\<close>: supervised users,
  enrolled clients, the links between them and the transport queue, beside the policy tables of
  \<open>Policy_Store\<close>. The record \<open>db\<close> is the \<open>PolicyDb\<close> handle the transports take. Each write is a
  function from a database to a database or a constraint violation; a violated constraint leaves
  the database as it was, as the storage engine does. Columns that no modelled operation reads
  (creation times, component versions) are left out. A \<open>timestamp\<close> column keeps
  whole seconds.
\<close>

section \<open>Tables\<close>

datatype json = JNull | JBool bool | JNum int | JStr string | JArr "json list" | JObj "(string \<times> json) list"

record user_row =
  user_id :: int
  user_displayName :: string
  user_tz :: "string option"

record client_row =
  client_id :: int
  client_hostname :: string
  client_friendlyName :: "string option"
  client_sshUser :: string
  client_bearerTokenHash :: "string option"
  client_lastSeen :: "instant option"
  client_sshTarget :: "string option"
  client_lastTelemetryPullAt :: "instant option"
  client_agentVersion :: "string option"
  client_versionsReportedAt :: "instant option"
  client_platform :: platform
  client_updateRequired :: bool
  client_lastVerifiedAt :: "instant option"
  client_lastVerifyReachable :: "bool option"
  client_lastVerifyReason :: "string option"
  client_capabilities :: "string list option"
  client_reportedIps :: "string list option"

record link_row =
  link_userId :: int
  link_clientId :: int
  link_osUsername :: string
  link_osUserRef :: string

record queued_row =
  q_id :: int
  q_clientId :: int
  q_coalesceKey :: string
  q_kind :: string
  q_payload :: json
  q_status :: queue_status
  q_attempts :: int
  q_lastError :: "string option"
  q_enqueuedAt :: instant
  q_updatedAt :: instant

record db =
  db_users :: "user_row list"
  db_userSeq :: int
  db_clients :: "client_row list"
  db_clientSeq :: int
  db_links :: "link_row list"
  db_policy :: store
  db_queue :: "queued_row list"
  db_queueSeq :: int

definition empty_db :: db where
  "empty_db = \<lparr>db_users = [], db_userSeq = 0, db_clients = [], db_clientSeq = 0, db_links = [],
     db_policy = empty_store, db_queue = [], db_queueSeq = 0\<rparr>"

datatype violation = Unique_Violation | Foreign_Key_Violation

definition update_where :: "('r \<Rightarrow> bool) \<Rightarrow> ('r \<Rightarrow> 'r) \<Rightarrow> 'r list \<Rightarrow> 'r list" where
  "update_where P f rows = map (\<lambda>r. if P r then f r else r) rows"

section \<open>Users\<close>

record user_create =
  uc_displayName :: string
  uc_tz :: "string option"

record user_update =
  uu_displayName :: "string option"
  uu_tz :: "string option option"

definition listUsers :: "db \<Rightarrow> user_row list" where
  "listUsers d = sort_key user_id (db_users d)"

definition getUser :: "db \<Rightarrow> int \<Rightarrow> user_row option" where
  "getUser d i = List.find (\<lambda>u. user_id u = i) (db_users d)"

definition createUser :: "db \<Rightarrow> user_create \<Rightarrow> db \<times> user_row" where
  "createUser d input =
     (let i = db_userSeq d + 1;
          row = \<lparr>user_id = i, user_displayName = uc_displayName input, user_tz = uc_tz input\<rparr>
      in (d\<lparr>db_users := db_users d @ [row], db_userSeq := i\<rparr>, row))"

definition patch_user :: "user_update \<Rightarrow> user_row \<Rightarrow> user_row" where
  "patch_user p u =
     u\<lparr>user_displayName := nullish (uu_displayName p) (user_displayName u), user_tz := nullish (uu_tz p) (user_tz u)\<rparr>"

definition updateUser :: "db \<Rightarrow> int \<Rightarrow> user_update \<Rightarrow> db \<times> user_row option" where
  "updateUser d i p =
     (let d' = d\<lparr>db_users := update_where (\<lambda>u. user_id u = i) (patch_user p) (db_users d)\<rparr> in (d', getUser d' i))"

text \<open>The rows that \<open>ON DELETE CASCADE\<close> removes with a user.\<close>

definition forget_user :: "int \<Rightarrow> store \<Rightarrow> store" where
  "forget_user i st =
     st\<lparr>st_memberships := filter (\<lambda>m. fst m \<noteq> i) (st_memberships st),
        st_budgets := filter (\<lambda>b. fst (snd b) \<noteq> i) (st_budgets st),
        st_schedules := filter (\<lambda>r. fst r \<noteq> i) (st_schedules st),
        st_exceptions := filter (\<lambda>x. fst x \<noteq> i) (st_exceptions st),
        st_samples := filter (\<lambda>s. us_userId s \<noteq> i) (st_samples st),
        st_grants := filter (\<lambda>g. fst g \<noteq> i) (st_grants st),
        st_notifications := filter (\<lambda>n. np_userId n \<noteq> i) (st_notifications st)\<rparr>"

definition deleteUser :: "db \<Rightarrow> int \<Rightarrow> db \<times> bool" where
  "deleteUser d i =
     (d\<lparr>db_users := filter (\<lambda>u. user_id u \<noteq> i) (db_users d),
        db_links := filter (\<lambda>l. link_userId l \<noteq> i) (db_links d),
        db_policy := forget_user i (db_policy d)\<rparr>,
      getUser d i \<noteq> None)"

section \<open>Clients\<close>

record client_create =
  cc_hostname :: string
  cc_sshUser :: string
  cc_friendlyName :: "string option"

record client_update =
  cu_hostname :: "string option"
  cu_sshUser :: "string option"
  cu_friendlyName :: "string option"
  cu_sshTarget :: "string option option"

definition listClients :: "db \<Rightarrow> client_row list" where
  "listClients d = sort_key client_id (db_clients d)"

definition getClient :: "db \<Rightarrow> int \<Rightarrow> client_row option" where
  "getClient d i = List.find (\<lambda>c. client_id c = i) (db_clients d)"

definition createClient :: "db \<Rightarrow> client_create \<Rightarrow> violation + db \<times> client_row" where
  "createClient d input =
     (let i = db_clientSeq d + 1;
          row = \<lparr>client_id = i, client_hostname = cc_hostname input, client_friendlyName = cc_friendlyName input,
                 client_sshUser = cc_sshUser input, client_bearerTokenHash = None, client_lastSeen = None,
                 client_sshTarget = None, client_lastTelemetryPullAt = None, client_agentVersion = None, client_versionsReportedAt = None,
                 client_platform = Linux, client_updateRequired = False, client_lastVerifiedAt = None,
                 client_lastVerifyReachable = None, client_lastVerifyReason = None, client_capabilities = None, client_reportedIps = None\<rparr>
      in if cc_hostname input \<in> client_hostname ` set (db_clients d) then Inl Unique_Violation
         else Inr (d\<lparr>db_clients := db_clients d @ [row], db_clientSeq := i\<rparr>, row))"

definition patch_client :: "client_update \<Rightarrow> client_row \<Rightarrow> client_row" where
  "patch_client p c =
     c\<lparr>client_hostname := nullish (cu_hostname p) (client_hostname c),
       client_sshUser := nullish (cu_sshUser p) (client_sshUser c),
       client_friendlyName := (case cu_friendlyName p of None \<Rightarrow> client_friendlyName c | Some n \<Rightarrow> Some n),
       client_sshTarget := nullish (cu_sshTarget p) (client_sshTarget c)\<rparr>"

definition hostname_taken :: "db \<Rightarrow> int \<Rightarrow> string \<Rightarrow> bool" where
  "hostname_taken d i h \<longleftrightarrow> (\<exists>c \<in> set (db_clients d). client_id c \<noteq> i \<and> client_hostname c = h)"

definition updateClient :: "db \<Rightarrow> int \<Rightarrow> client_update \<Rightarrow> violation + db \<times> client_row option" where
  "updateClient d i p =
     (if getClient d i \<noteq> None \<and> (case cu_hostname p of None \<Rightarrow> False | Some h \<Rightarrow> hostname_taken d i h)
      then Inl Unique_Violation
      else let d' = d\<lparr>db_clients := update_where (\<lambda>c. client_id c = i) (patch_client p) (db_clients d)\<rparr>
           in Inr (d', getClient d' i))"

text \<open>Links, queued actions and usage samples go with their client.\<close>

definition forget_client :: "int \<Rightarrow> store \<Rightarrow> store" where
  "forget_client i st = st\<lparr>st_samples := filter (\<lambda>s. us_clientId s \<noteq> i) (st_samples st)\<rparr>"

definition deleteClient :: "db \<Rightarrow> int \<Rightarrow> db \<times> bool" where
  "deleteClient d i =
     (d\<lparr>db_clients := filter (\<lambda>c. client_id c \<noteq> i) (db_clients d),
        db_links := filter (\<lambda>l. link_clientId l \<noteq> i) (db_links d),
        db_queue := filter (\<lambda>q. q_clientId q \<noteq> i) (db_queue d),
        db_policy := forget_client i (db_policy d)\<rparr>,
      getClient d i \<noteq> None)"

definition findClientByBearerTokenHash :: "db \<Rightarrow> string \<Rightarrow> client_row option" where
  "findClientByBearerTokenHash d h = List.find (\<lambda>c. client_bearerTokenHash c = Some h) (db_clients d)"

text \<open>Columns the system observes; each write touches the one row, if there is one.\<close>

definition set_client :: "db \<Rightarrow> int \<Rightarrow> (client_row \<Rightarrow> client_row) \<Rightarrow> db" where
  "set_client d i f = d\<lparr>db_clients := update_where (\<lambda>c. client_id c = i) f (db_clients d)\<rparr>"

definition touchClientLastSeen :: "db \<Rightarrow> int \<Rightarrow> instant \<Rightarrow> db" where
  "touchClientLastSeen d i t = set_client d i (client_lastSeen_update (\<lambda>_. Some (stored_timestamp t)))"

definition recordClientLastSeen :: "db \<Rightarrow> int \<Rightarrow> instant \<Rightarrow> db \<times> client_row option" where
  "recordClientLastSeen d i t = (let d' = touchClientLastSeen d i t in (d', getClient d' i))"

definition recordClientVerification ::
    "db \<Rightarrow> int \<Rightarrow> bool \<Rightarrow> string option \<Rightarrow> instant \<Rightarrow> db \<times> client_row option" where
  "recordClientVerification d i reachable reason t =
     (let d' = set_client d i (\<lambda>c.
        c\<lparr>client_lastVerifiedAt := Some (stored_timestamp t), client_lastVerifyReachable := Some reachable,
          client_lastVerifyReason := (if reachable then None else reason),
          client_lastSeen := (if reachable then Some (stored_timestamp t) else client_lastSeen c)\<rparr>)
      in (d', getClient d' i))"

definition recordClientAgentVersion :: "db \<Rightarrow> int \<Rightarrow> string \<Rightarrow> instant \<Rightarrow> db" where
  "recordClientAgentVersion d i version t =
     set_client d i (\<lambda>c. c\<lparr>client_agentVersion := Some version, client_versionsReportedAt := Some (stored_timestamp t)\<rparr>)"

definition setClientUpdateRequired :: "db \<Rightarrow> int \<Rightarrow> bool \<Rightarrow> db" where
  "setClientUpdateRequired d i v = set_client d i (client_updateRequired_update (\<lambda>_. v))"

definition recordClientCapabilities :: "db \<Rightarrow> int \<Rightarrow> string list \<Rightarrow> db" where
  "recordClientCapabilities d i caps = set_client d i (client_capabilities_update (\<lambda>_. Some (js_set_of caps)))"

section \<open>Links\<close>

definition listUserLinks :: "db \<Rightarrow> int \<Rightarrow> link_row list" where
  "listUserLinks d u = sort_key link_clientId (filter (\<lambda>l. link_userId l = u) (db_links d))"

definition listClientLinks :: "db \<Rightarrow> int \<Rightarrow> link_row list" where
  "listClientLinks d c = sort_key link_userId (filter (\<lambda>l. link_clientId l = c) (db_links d))"

definition listUserClientIds :: "db \<Rightarrow> int \<Rightarrow> int list" where
  "listUserClientIds d u = map link_clientId (listUserLinks d u)"

definition same_link :: "int \<Rightarrow> int \<Rightarrow> link_row \<Rightarrow> bool" where
  "same_link u c l \<longleftrightarrow> link_userId l = u \<and> link_clientId l = c"

definition upsertLink :: "db \<Rightarrow> int \<Rightarrow> int \<Rightarrow> string \<Rightarrow> string \<Rightarrow> violation + db \<times> link_row" where
  "upsertLink d u c osUsername osUserRef =
     (let row = \<lparr>link_userId = u, link_clientId = c, link_osUsername = osUsername, link_osUserRef = osUserRef\<rparr> in
      if getUser d u = None \<or> getClient d c = None then Inl Foreign_Key_Violation
      else if \<exists>l \<in> set (db_links d). \<not> same_link u c l \<and> link_clientId l = c \<and> link_osUserRef l = osUserRef
      then Inl Unique_Violation
      else if \<exists>l \<in> set (db_links d). same_link u c l
      then Inr (d\<lparr>db_links := update_where (same_link u c) (\<lambda>_. row) (db_links d)\<rparr>, row)
      else Inr (d\<lparr>db_links := db_links d @ [row]\<rparr>, row))"

definition deleteLink :: "db \<Rightarrow> int \<Rightarrow> int \<Rightarrow> db \<times> link_row option" where
  "deleteLink d u c =
     (d\<lparr>db_links := filter (\<lambda>l. \<not> same_link u c l) (db_links d)\<rparr>, List.find (same_link u c) (db_links d))"

end
