(* ===== verification/Policy_Records.thy ===== *)
theory Policy_Records
  imports Control_Store
begin

text \<open>
  The rest of the policy tables of \<open>policy/repository.ts\<close>: user groups and their members, activities and
  activity groups, budgets, exceptions and their group-targeted forms, and the notification settings.
  (Schedules are in \<open>Policy_Store\<close>, users, clients and links in \<open>Control_Store\<close>.) A table with an
  auto-incremented key counts in its own sequence. The free-text reason of an exception and the creation time
  of a group are left out.
\<close>

section \<open>User groups\<close>

definition createUserGroup :: "store \<Rightarrow> string \<Rightarrow> violation + store \<times> (int \<times> string)" where
  "createUserGroup st name =
     (if name \<in> snd ` set (st_groups st) then Inl Unique_Violation
      else let row = (st_groupSeq st + 1, name) in Inr (st\<lparr>st_groups := st_groups st @ [row], st_groupSeq := fst row\<rparr>, row))"

definition renamed :: "int \<Rightarrow> string option \<Rightarrow> (int \<times> string) list \<Rightarrow> (int \<times> string) list" where
  "renamed i name rows = map (\<lambda>g. if fst g = i then (i, nullish name (snd g)) else g) rows"

definition name_taken :: "int \<Rightarrow> string option \<Rightarrow> (int \<times> string) list \<Rightarrow> bool" where
  "name_taken i name rows \<longleftrightarrow>
     i \<in> fst ` set rows \<and> (case name of None \<Rightarrow> False | Some n \<Rightarrow> \<exists>g \<in> set rows. fst g \<noteq> i \<and> snd g = n)"

definition updateUserGroup :: "store \<Rightarrow> int \<Rightarrow> string option \<Rightarrow> violation + store \<times> (int \<times> string) option" where
  "updateUserGroup st i name =
     (if name_taken i name (st_groups st) then Inl Unique_Violation
      else let rows = renamed i name (st_groups st) in
           Inr (st\<lparr>st_groups := rows\<rparr>, List.find (\<lambda>g. fst g = i) rows))"

text \<open>Deleting a group cascades to its memberships, schedules, exceptions and budgets.\<close>

definition deleteUserGroup :: "store \<Rightarrow> int \<Rightarrow> store \<times> bool" where
  "deleteUserGroup st i =
     (st\<lparr>st_groups := filter (\<lambda>g. fst g \<noteq> i) (st_groups st),
         st_memberships := filter (\<lambda>m. snd m \<noteq> i) (st_memberships st),
         st_groupSchedules := filter (\<lambda>r. fst r \<noteq> i) (st_groupSchedules st),
         st_groupExceptions := filter (\<lambda>x. fst x \<noteq> i) (st_groupExceptions st),
         st_groupBudgets := filter (\<lambda>(b, g, _). g \<noteq> i) (st_groupBudgets st)\<rparr>,
      getUserGroup st i \<noteq> None)"

definition listGroupMembers :: "db \<Rightarrow> int \<Rightarrow> user_row list" where
  "listGroupMembers d groupId =
     sort_key user_id (concat (map (\<lambda>(u, g). if g = groupId then filter (\<lambda>r. user_id r = u) (db_users d) else [])
       (st_memberships (db_policy d))))"

section \<open>Activities and activity groups\<close>

record activity_create =
  acc_kind :: activity_kind
  acc_matcher :: string
  acc_matchType :: "match_type option"

record activity_update =
  au_kind :: "activity_kind option"
  au_matcher :: "string option"
  au_matchType :: "match_type option"

definition createActivity :: "store \<Rightarrow> activity_create \<Rightarrow> store \<times> activity_row" where
  "createActivity st c =
     (let row = \<lparr>act_id = st_activitySeq st + 1, act_kind = acc_kind c, act_matcher = acc_matcher c,
                 act_matchType = nullish (acc_matchType c) Exact\<rparr>
      in (st\<lparr>st_activities := st_activities st @ [row], st_activitySeq := act_id row\<rparr>, row))"

definition patch_activity :: "activity_update \<Rightarrow> activity_row \<Rightarrow> activity_row" where
  "patch_activity p a =
     a\<lparr>act_kind := nullish (au_kind p) (act_kind a), act_matcher := nullish (au_matcher p) (act_matcher a),
       act_matchType := nullish (au_matchType p) (act_matchType a)\<rparr>"

definition updateActivity :: "store \<Rightarrow> int \<Rightarrow> activity_update \<Rightarrow> store \<times> activity_row option" where
  "updateActivity st i p =
     (let rows = update_where (\<lambda>a. act_id a = i) (patch_activity p) (st_activities st) in
      (st\<lparr>st_activities := rows\<rparr>, List.find (\<lambda>a. act_id a = i) rows))"

definition listActivityGroups :: "store \<Rightarrow> (int \<times> string) list" where
  "listActivityGroups st = sort_key fst (st_activityGroups st)"

definition getActivityGroup :: "store \<Rightarrow> int \<Rightarrow> (int \<times> string) option" where
  "getActivityGroup st i = List.find (\<lambda>g. fst g = i) (st_activityGroups st)"

definition createActivityGroup :: "store \<Rightarrow> string \<Rightarrow> violation + store \<times> (int \<times> string)" where
  "createActivityGroup st name =
     (if name \<in> snd ` set (st_activityGroups st) then Inl Unique_Violation
      else let row = (st_activityGroupSeq st + 1, name)
           in Inr (st\<lparr>st_activityGroups := st_activityGroups st @ [row], st_activityGroupSeq := fst row\<rparr>, row))"

definition updateActivityGroup :: "store \<Rightarrow> int \<Rightarrow> string option \<Rightarrow> violation + store \<times> (int \<times> string) option" where
  "updateActivityGroup st i name =
     (if name_taken i name (st_activityGroups st) then Inl Unique_Violation
      else let rows = renamed i name (st_activityGroups st) in
           Inr (st\<lparr>st_activityGroups := rows\<rparr>, List.find (\<lambda>g. fst g = i) rows))"

definition deleteActivityGroup :: "store \<Rightarrow> int \<Rightarrow> store \<times> bool" where
  "deleteActivityGroup st i =
     (st\<lparr>st_activityGroups := filter (\<lambda>g. fst g \<noteq> i) (st_activityGroups st),
         st_activityMembers := filter (\<lambda>m. snd m \<noteq> i) (st_activityMembers st)\<rparr>,
      getActivityGroup st i \<noteq> None)"

section \<open>Budgets\<close>

type_synonym budget_row = "int \<times> int \<times> budget_input"

definition budget_checks :: "budget_input \<Rightarrow> bool" where
  "budget_checks b \<longleftrightarrow>
     0 \<le> bi_secondsAllowed b \<and> targetCoherence (bi_scope b) (bi_targetId b)
     \<and> (case bi_recurrenceDays b of None \<Rightarrow> True
        | Some days \<Rightarrow> WEEKDAY_MASK_MIN \<le> days \<and> days \<le> WEEKDAY_MASK_MAX \<and> bi_window b = Daily)"

record budget_update =
  bu_scope :: "scope option"
  bu_targetId :: "int option option"
  bu_window :: "budget_window option"
  bu_secondsAllowed :: "int option"
  bu_recurrenceDays :: "int option option"

definition patch_budget :: "budget_update \<Rightarrow> budget_input \<Rightarrow> budget_input" where
  "patch_budget p b =
     \<lparr>bi_scope = nullish (bu_scope p) (bi_scope b), bi_targetId = nullish (bu_targetId p) (bi_targetId b),
      bi_window = nullish (bu_window p) (bi_window b), bi_secondsAllowed = nullish (bu_secondsAllowed p) (bi_secondsAllowed b),
      bi_recurrenceDays = nullish (bu_recurrenceDays p) (bi_recurrenceDays b)\<rparr>"

definition find_budget :: "int \<Rightarrow> budget_row list \<Rightarrow> budget_row option" where
  "find_budget i rows = List.find (\<lambda>r. fst r = i) rows"

definition patch_budgets :: "int \<Rightarrow> budget_update \<Rightarrow> budget_row list \<Rightarrow> budget_row list" where
  "patch_budgets i p rows = map (\<lambda>(j, owner, b). if j = i then (j, owner, patch_budget p b) else (j, owner, b)) rows"

definition listBudgets :: "store \<Rightarrow> budget_row list" where
  "listBudgets st = sort_key fst (st_budgets st)"

definition getBudget :: "store \<Rightarrow> int \<Rightarrow> budget_row option" where
  "getBudget st i = find_budget i (st_budgets st)"

definition createBudget :: "store \<Rightarrow> int \<Rightarrow> budget_input \<Rightarrow> store_error + store \<times> budget_row" where
  "createBudget st userId b =
     (let row = (st_budgetSeq st + 1, userId, b) in
      if \<not> budget_checks b then Inl CheckViolation
      else Inr (st\<lparr>st_budgets := st_budgets st @ [row], st_budgetSeq := fst row\<rparr>, row))"

definition updateBudget :: "store \<Rightarrow> int \<Rightarrow> budget_update \<Rightarrow> store_error + store \<times> budget_row option" where
  "updateBudget st i p =
     (let rows = patch_budgets i p (st_budgets st) in
      if (case find_budget i rows of None \<Rightarrow> False | Some (_, _, b) \<Rightarrow> \<not> budget_checks b) then Inl CheckViolation
      else Inr (st\<lparr>st_budgets := rows\<rparr>, find_budget i rows))"

definition deleteBudget :: "store \<Rightarrow> int \<Rightarrow> store \<times> bool" where
  "deleteBudget st i = (st\<lparr>st_budgets := filter (\<lambda>r. fst r \<noteq> i) (st_budgets st)\<rparr>, getBudget st i \<noteq> None)"

definition getGroupBudget :: "store \<Rightarrow> int \<Rightarrow> budget_row option" where
  "getGroupBudget st i = find_budget i (st_groupBudgets st)"

definition createGroupBudget :: "store \<Rightarrow> int \<Rightarrow> budget_input \<Rightarrow> store_error + store \<times> budget_row" where
  "createGroupBudget st groupId b =
     (let row = (st_groupBudgetSeq st + 1, groupId, b) in
      if \<not> budget_checks b then Inl CheckViolation
      else Inr (st\<lparr>st_groupBudgets := st_groupBudgets st @ [row], st_groupBudgetSeq := fst row\<rparr>, row))"

definition updateGroupBudget :: "store \<Rightarrow> int \<Rightarrow> budget_update \<Rightarrow> store_error + store \<times> budget_row option" where
  "updateGroupBudget st i p =
     (let rows = patch_budgets i p (st_groupBudgets st) in
      if (case find_budget i rows of None \<Rightarrow> False | Some (_, _, b) \<Rightarrow> \<not> budget_checks b) then Inl CheckViolation
      else Inr (st\<lparr>st_groupBudgets := rows\<rparr>, find_budget i rows))"

definition deleteGroupBudget :: "store \<Rightarrow> int \<Rightarrow> store \<times> bool" where
  "deleteGroupBudget st i =
     (st\<lparr>st_groupBudgets := filter (\<lambda>r. fst r \<noteq> i) (st_groupBudgets st)\<rparr>, getGroupBudget st i \<noteq> None)"

section \<open>Exceptions\<close>

type_synonym exception_row = "int \<times> exception_input"

definition exception_checks :: "exception_input \<Rightarrow> bool" where
  "exception_checks x \<longleftrightarrow>
     targetCoherence (xi_targetKind x) (xi_targetId x)
     \<and> (case xi_effectiveFrom x of None \<Rightarrow> True | Some f \<Rightarrow> f < xi_expiresAt x)"

record exception_create =
  xc_targetKind :: scope
  xc_targetId :: "int option"
  xc_action :: schedule_action
  xc_effectiveFrom :: "instant option"
  xc_expiresAt :: instant

record exception_update =
  xu_targetKind :: "scope option"
  xu_targetId :: "int option option"
  xu_action :: "schedule_action option"
  xu_effectiveFrom :: "instant option option"
  xu_expiresAt :: "instant option"

definition exception_values :: "int \<Rightarrow> instant \<Rightarrow> exception_create \<Rightarrow> exception_input" where
  "exception_values i now c =
     \<lparr>xi_id = i, xi_targetKind = xc_targetKind c, xi_targetId = xc_targetId c, xi_action = xc_action c,
      xi_effectiveFrom = map_option stored_timestamp (xc_effectiveFrom c), xi_expiresAt = stored_timestamp (xc_expiresAt c),
      xi_createdAt = stored_timestamp now\<rparr>"

definition patch_exception :: "exception_update \<Rightarrow> exception_input \<Rightarrow> exception_input" where
  "patch_exception p x =
     \<lparr>xi_id = xi_id x, xi_targetKind = nullish (xu_targetKind p) (xi_targetKind x),
      xi_targetId = nullish (xu_targetId p) (xi_targetId x), xi_action = nullish (xu_action p) (xi_action x),
      xi_effectiveFrom = nullish (map_option (map_option stored_timestamp) (xu_effectiveFrom p)) (xi_effectiveFrom x),
      xi_expiresAt = nullish (map_option stored_timestamp (xu_expiresAt p)) (xi_expiresAt x), xi_createdAt = xi_createdAt x\<rparr>"

definition find_exception :: "int \<Rightarrow> exception_row list \<Rightarrow> exception_row option" where
  "find_exception i rows = List.find (\<lambda>r. xi_id (snd r) = i) rows"

definition patch_exceptions :: "int \<Rightarrow> exception_update \<Rightarrow> exception_row list \<Rightarrow> exception_row list" where
  "patch_exceptions i p rows = map (\<lambda>(owner, x). if xi_id x = i then (owner, patch_exception p x) else (owner, x)) rows"

definition listExceptions :: "store \<Rightarrow> exception_row list" where
  "listExceptions st = sort_key (xi_id \<circ> snd) (st_exceptions st)"

definition getException :: "store \<Rightarrow> int \<Rightarrow> exception_row option" where
  "getException st i = find_exception i (st_exceptions st)"

definition createException :: "store \<Rightarrow> instant \<Rightarrow> int \<Rightarrow> exception_create \<Rightarrow> store_error + store \<times> exception_row" where
  "createException st now userId c =
     (let x = exception_values (st_exceptionSeq st + 1) now c in
      if \<not> exception_checks x then Inl CheckViolation
      else Inr (st\<lparr>st_exceptions := st_exceptions st @ [(userId, x)], st_exceptionSeq := xi_id x\<rparr>, (userId, x)))"

definition updateException :: "store \<Rightarrow> int \<Rightarrow> exception_update \<Rightarrow> store_error + store \<times> exception_row option" where
  "updateException st i p =
     (let rows = patch_exceptions i p (st_exceptions st) in
      if (case find_exception i rows of None \<Rightarrow> False | Some (_, x) \<Rightarrow> \<not> exception_checks x) then Inl CheckViolation
      else Inr (st\<lparr>st_exceptions := rows\<rparr>, find_exception i rows))"

definition deleteException :: "store \<Rightarrow> int \<Rightarrow> store \<times> bool" where
  "deleteException st i =
     (st\<lparr>st_exceptions := filter (\<lambda>r. xi_id (snd r) \<noteq> i) (st_exceptions st)\<rparr>, getException st i \<noteq> None)"

definition getGroupException :: "store \<Rightarrow> int \<Rightarrow> exception_row option" where
  "getGroupException st i = find_exception i (st_groupExceptions st)"

definition createGroupException :: "store \<Rightarrow> instant \<Rightarrow> int \<Rightarrow> exception_create \<Rightarrow> store_error + store \<times> exception_row" where
  "createGroupException st now groupId c =
     (let x = exception_values (st_groupExceptionSeq st + 1) now c in
      if \<not> exception_checks x then Inl CheckViolation
      else Inr (st\<lparr>st_groupExceptions := st_groupExceptions st @ [(groupId, x)], st_groupExceptionSeq := xi_id x\<rparr>, (groupId, x)))"

definition updateGroupException :: "store \<Rightarrow> int \<Rightarrow> exception_update \<Rightarrow> store_error + store \<times> exception_row option" where
  "updateGroupException st i p =
     (let rows = patch_exceptions i p (st_groupExceptions st) in
      if (case find_exception i rows of None \<Rightarrow> False | Some (_, x) \<Rightarrow> \<not> exception_checks x) then Inl CheckViolation
      else Inr (st\<lparr>st_groupExceptions := rows\<rparr>, find_exception i rows))"

definition deleteGroupException :: "store \<Rightarrow> int \<Rightarrow> store \<times> bool" where
  "deleteGroupException st i =
     (st\<lparr>st_groupExceptions := filter (\<lambda>r. xi_id (snd r) \<noteq> i) (st_groupExceptions st)\<rparr>, getGroupException st i \<noteq> None)"

section \<open>Group schedules and single reads\<close>

type_synonym schedule_row = "int \<times> schedule_rule"

definition find_schedule_row :: "int \<Rightarrow> schedule_row list \<Rightarrow> schedule_row option" where
  "find_schedule_row i rows = List.find (\<lambda>r. sr_id (snd r) = i) rows"

definition listSchedules :: "store \<Rightarrow> schedule_row list" where
  "listSchedules st = sort_key (sr_id \<circ> snd) (st_schedules st)"

definition getSchedule :: "store \<Rightarrow> int \<Rightarrow> schedule_row option" where
  "getSchedule st i = find_schedule_row i (st_schedules st)"

definition getGroupSchedule :: "store \<Rightarrow> int \<Rightarrow> schedule_row option" where
  "getGroupSchedule st i = find_schedule_row i (st_groupSchedules st)"

definition updateGroupSchedule :: "store \<Rightarrow> int \<Rightarrow> schedule_update \<Rightarrow> store_error + store \<times> schedule_rule option" where
  "updateGroupSchedule st i p =
     (let rows = update_rows i (patch_schedule p) (st_groupSchedules st) in
      if (case find_schedule i rows of None \<Rightarrow> False | Some r \<Rightarrow> \<not> schedule_checks r) then Inl CheckViolation
      else Inr (st\<lparr>st_groupSchedules := rows\<rparr>, find_schedule i rows))"

definition deleteGroupSchedule :: "store \<Rightarrow> int \<Rightarrow> store \<times> bool" where
  "deleteGroupSchedule st i =
     (st\<lparr>st_groupSchedules := filter (\<lambda>(g, r). sr_id r \<noteq> i) (st_groupSchedules st)\<rparr>,
      find_schedule i (st_groupSchedules st) \<noteq> None)"

section \<open>Notification settings\<close>

definition GRACE_SECONDS_MIN :: int where "GRACE_SECONDS_MIN = 0"

definition GRACE_SECONDS_MAX :: int where "GRACE_SECONDS_MAX = 60"

definition default_notification :: "int \<Rightarrow> notification_row" where
  "default_notification userId =
     \<lparr>np_userId = userId, np_enabled = True, np_soundProfile = Sound_Subtle, np_graceSeconds = 15, np_cadenceOverridesJson = None\<rparr>"

record notification_upsert =
  nu_enabled :: "bool option"
  nu_soundProfile :: "sound_profile option"
  nu_graceSeconds :: "int option"
  nu_cadenceOverrides :: "string option option"

definition notification_checks :: "notification_row \<Rightarrow> bool" where
  "notification_checks n \<longleftrightarrow> GRACE_SECONDS_MIN \<le> np_graceSeconds n \<and> np_graceSeconds n \<le> GRACE_SECONDS_MAX"

definition patch_notification :: "notification_upsert \<Rightarrow> notification_row \<Rightarrow> notification_row" where
  "patch_notification u n =
     n\<lparr>np_enabled := nullish (nu_enabled u) (np_enabled n), np_soundProfile := nullish (nu_soundProfile u) (np_soundProfile n),
       np_graceSeconds := nullish (nu_graceSeconds u) (np_graceSeconds n),
       np_cadenceOverridesJson := nullish (nu_cadenceOverrides u) (np_cadenceOverridesJson n)\<rparr>"

definition getNotificationPolicy :: "store \<Rightarrow> int \<Rightarrow> notification_row option" where
  "getNotificationPolicy st userId = List.find (\<lambda>n. np_userId n = userId) (st_notifications st)"

definition upsertNotificationPolicy ::
  "store \<Rightarrow> int \<Rightarrow> notification_upsert \<Rightarrow> store_error + store \<times> notification_row" where
  "upsertNotificationPolicy st userId u =
     (let fresh = patch_notification u (default_notification userId);
          rows = (if getNotificationPolicy st userId = None then st_notifications st @ [fresh]
                  else update_where (\<lambda>n. np_userId n = userId) (patch_notification u) (st_notifications st))
      in if (case List.find (\<lambda>n. np_userId n = userId) rows of None \<Rightarrow> False | Some n \<Rightarrow> \<not> notification_checks n) then Inl CheckViolation
         else Inr (st\<lparr>st_notifications := rows\<rparr>, nullish (List.find (\<lambda>n. np_userId n = userId) rows) fresh))"

definition deleteNotificationPolicy :: "store \<Rightarrow> int \<Rightarrow> store \<times> bool" where
  "deleteNotificationPolicy st userId =
     (st\<lparr>st_notifications := filter (\<lambda>n. np_userId n \<noteq> userId) (st_notifications st)\<rparr>,
      getNotificationPolicy st userId \<noteq> None)"

end
