(* ===== verification/Offline_Queue.thy ===== *)
theory Offline_Queue
  imports Control_Store
begin

text \<open>
  \<open>transport/queue\<close>: the durable queue of actions that could not be pushed to a client
  (\<open>repository.ts\<close>), the replay loop (\<open>drainer.ts\<close>), the call-site facade (\<open>facade.ts\<close>), the
  dispatch on the kind of an action (\<open>composite.ts\<close>), the adapter of policy pushes
  (\<open>policy-push.ts\<close>) and one pass of the scheduler (\<open>scheduler.ts\<close>). The executor is a parameter. It
  is a function on the whole world, a database beside an outside world of any type, because the code
  awaits it: whatever other tasks do to the database meanwhile is part of its effect. The clock
  is read from the outside world. The contract of the queue the drainer relies on is the locale
  \<open>action_queue\<close>, interpreted on the repository.
\<close>

section \<open>Repository\<close>

record new_action =
  na_clientId :: int
  na_coalesceKey :: string
  na_kind :: string
  na_payload :: json

definition same_target :: "int \<Rightarrow> string \<Rightarrow> queued_row \<Rightarrow> bool" where
  "same_target c k q \<longleftrightarrow> q_clientId q = c \<and> q_coalesceKey q = k"

definition enqueue :: "instant \<Rightarrow> db \<Rightarrow> new_action \<Rightarrow> violation + db \<times> queued_row" where
  "enqueue now d a =
     (if getClient d (na_clientId a) = None then Inl Foreign_Key_Violation
      else case List.find (same_target (na_clientId a) (na_coalesceKey a)) (db_queue d) of
          Some old \<Rightarrow>
            let row = old\<lparr>q_kind := na_kind a, q_payload := na_payload a, q_status := Q_Pending, q_attempts := 0,
                          q_lastError := None, q_updatedAt := stored_timestamp now\<rparr>
            in Inr (d\<lparr>db_queue := update_where (\<lambda>q. q_id q = q_id old) (\<lambda>_. row) (db_queue d)\<rparr>, row)
        | None \<Rightarrow>
            let i = db_queueSeq d + 1;
                row = \<lparr>q_id = i, q_clientId = na_clientId a, q_coalesceKey = na_coalesceKey a, q_kind = na_kind a,
                       q_payload = na_payload a, q_status = Q_Pending, q_attempts = 0, q_lastError = None,
                       q_enqueuedAt = stored_timestamp now, q_updatedAt = stored_timestamp now\<rparr>
            in Inr (d\<lparr>db_queue := db_queue d @ [row], db_queueSeq := i\<rparr>, row))"

definition getQueued :: "db \<Rightarrow> int \<Rightarrow> queued_row option" where
  "getQueued d i = List.find (\<lambda>q. q_id q = i) (db_queue d)"

definition set_queued :: "int \<Rightarrow> (queued_row \<Rightarrow> queued_row) \<Rightarrow> db \<Rightarrow> db" where
  "set_queued i f d = d\<lparr>db_queue := update_where (\<lambda>q. q_id q = i) f (db_queue d)\<rparr>"

definition updateActionPayload :: "instant \<Rightarrow> db \<Rightarrow> int \<Rightarrow> json \<Rightarrow> db \<times> bool" where
  "updateActionPayload now d i payload =
     (set_queued i (\<lambda>q. q\<lparr>q_payload := payload, q_updatedAt := stored_timestamp now\<rparr>) d, getQueued d i \<noteq> None)"

definition listPendingForClient :: "db \<Rightarrow> int \<Rightarrow> queued_row list" where
  "listPendingForClient d c =
     sort_key q_id (filter (\<lambda>q. q_clientId q = c \<and> q_status q = Q_Pending) (db_queue d))"

definition listForClient :: "db \<Rightarrow> int \<Rightarrow> queued_row list" where
  "listForClient d c = sort_key q_id (filter (\<lambda>q. q_clientId q = c) (db_queue d))"

definition clientsWithPending :: "db \<Rightarrow> int list" where
  "clientsWithPending d = sort (remdups (map q_clientId (filter (\<lambda>q. q_status q = Q_Pending) (db_queue d))))"

definition countPendingByClient :: "db \<Rightarrow> (int \<times> int) list" where
  "countPendingByClient d =
     map (\<lambda>c. (c, int (length (filter (\<lambda>q. q_status q = Q_Pending \<and> q_clientId q = c) (db_queue d))))) (clientsWithPending d)"

record queue_summary =
  qs_pending :: int
  qs_failed :: int
  qs_oldestPendingAt :: "instant option"

definition queueSummary :: "db \<Rightarrow> queue_summary" where
  "queueSummary d =
     (let pending = filter (\<lambda>q. q_status q = Q_Pending) (db_queue d);
          failed = filter (\<lambda>q. q_status q = Q_Failed) (db_queue d)
      in \<lparr>qs_pending = int (length pending), qs_failed = int (length failed),
          qs_oldestPendingAt =
            (case sort_key (\<lambda>q. (q_enqueuedAt q, q_id q)) pending of [] \<Rightarrow> None | q # _ \<Rightarrow> Some (q_enqueuedAt q))\<rparr>)"

definition markDrained :: "db \<Rightarrow> int \<Rightarrow> db \<times> bool" where
  "markDrained d i = (d\<lparr>db_queue := filter (\<lambda>q. q_id q \<noteq> i) (db_queue d)\<rparr>, getQueued d i \<noteq> None)"

definition recordAttempt :: "instant \<Rightarrow> db \<Rightarrow> int \<Rightarrow> string \<Rightarrow> db \<times> queued_row option" where
  "recordAttempt now d i lastError =
     (let d' = set_queued i (\<lambda>q. q\<lparr>q_attempts := q_attempts q + 1, q_lastError := Some lastError,
                                  q_updatedAt := stored_timestamp now\<rparr>) d
      in (d', getQueued d' i))"

definition markFailed :: "instant \<Rightarrow> db \<Rightarrow> int \<Rightarrow> string \<Rightarrow> db \<times> queued_row option" where
  "markFailed now d i lastError =
     (let d' = set_queued i (\<lambda>q. q\<lparr>q_status := Q_Failed, q_attempts := q_attempts q + 1, q_lastError := Some lastError,
                                  q_updatedAt := stored_timestamp now\<rparr>) d
      in (d', getQueued d' i))"

section \<open>Executors and the replay loop\<close>

record queued_action =
  qa_id :: "int option"
  qa_clientId :: int
  qa_coalesceKey :: string
  qa_kind :: string
  qa_payload :: json

text \<open>A rejection, reduced to what the queue reads of it: its \<open>retriable\<close> flag and its message.\<close>

record rejection =
  rej_retriable :: bool
  rej_message :: string

definition isRetriable :: "rejection \<Rightarrow> bool" where
  "isRetriable e = rej_retriable e"

definition errorMessage :: "rejection \<Rightarrow> string" where
  "errorMessage e = rej_message e"

type_synonym 'w world = "db \<times> 'w"
type_synonym 'w executor = "queued_action \<Rightarrow> 'w world \<Rightarrow> (rejection + unit) \<times> 'w world"

definition toAction :: "queued_row \<Rightarrow> queued_action" where
  "toAction q = \<lparr>qa_id = Some (q_id q), qa_clientId = q_clientId q, qa_coalesceKey = q_coalesceKey q,
     qa_kind = q_kind q, qa_payload = q_payload q\<rparr>"

record drain_summary =
  ds_drained :: int
  ds_failed :: int
  ds_deferred :: int

fun drain_rows ::
    "('w \<Rightarrow> instant) \<Rightarrow> 'w executor \<Rightarrow> queued_row list \<Rightarrow> int \<Rightarrow> int \<Rightarrow> 'w world \<Rightarrow> drain_summary \<times> 'w world" where
  "drain_rows clock executor [] drained failed s = (\<lparr>ds_drained = drained, ds_failed = failed, ds_deferred = 0\<rparr>, s)"
| "drain_rows clock executor (row # rows) drained failed s =
     (case executor (toAction row) s of
        (Inr _, d, w) \<Rightarrow> drain_rows clock executor rows (drained + 1) failed (fst (markDrained d (q_id row)), w)
      | (Inl e, d, w) \<Rightarrow>
          if isRetriable e
          then (\<lparr>ds_drained = drained, ds_failed = failed, ds_deferred = int (length (row # rows))\<rparr>,
                fst (recordAttempt (clock w) d (q_id row) (errorMessage e)), w)
          else drain_rows clock executor rows drained (failed + 1)
                 (fst (markFailed (clock w) d (q_id row) (errorMessage e)), w))"

definition drainClient ::
    "('w \<Rightarrow> instant) \<Rightarrow> 'w executor \<Rightarrow> int \<Rightarrow> 'w world \<Rightarrow> drain_summary \<times> 'w world" where
  "drainClient clock executor clientId s =
     drain_rows clock executor (listPendingForClient (fst s) clientId) 0 0 s"

datatype push_outcome = Pushed | Queued string

text \<open>The facade also rejects when the insert does: the client of the action is gone.\<close>

datatype push_error = Rejected rejection | Storage violation

definition pushOrEnqueue ::
    "('w \<Rightarrow> instant) \<Rightarrow> 'w executor \<Rightarrow> new_action \<Rightarrow> 'w world \<Rightarrow> (push_error + push_outcome) \<times> 'w world" where
  "pushOrEnqueue clock executor a s =
     (case executor \<lparr>qa_id = None, qa_clientId = na_clientId a, qa_coalesceKey = na_coalesceKey a,
                     qa_kind = na_kind a, qa_payload = na_payload a\<rparr> s of
        (Inr _, s') \<Rightarrow> (Inr Pushed, s')
      | (Inl e, d, w) \<Rightarrow>
          if \<not> isRetriable e then (Inl (Rejected e), d, w)
          else case enqueue (clock w) d a of
              Inl v \<Rightarrow> (Inl (Storage v), d, w)
            | Inr (d', _) \<Rightarrow> (Inr (Queued (errorMessage e)), d', w))"

definition compositeExecutor :: "(string \<Rightarrow> 'w executor option) \<Rightarrow> 'w executor" where
  "compositeExecutor byKind a s =
     (case byKind (qa_kind a) of
        None \<Rightarrow> (Inl \<lparr>rej_retriable = False,
                     rej_message = ''offline queue: no executor registered for action kind '' @ CHR 0x22 # qa_kind a @ [CHR 0x22]\<rparr>, s)
      | Some executor \<Rightarrow> executor a s)"

section \<open>Policy pushes as queued actions\<close>

record push_command =
  pc_clientId :: int
  pc_userId :: "int option"
  pc_reason :: string
  pc_detail :: json

definition POLICY_PUSH_KIND :: string where "POLICY_PUSH_KIND = ''policy.push''"

definition queuedActionFromPolicyPush :: "push_command \<Rightarrow> new_action" where
  "queuedActionFromPolicyPush c =
     \<lparr>na_clientId = pc_clientId c,
      na_coalesceKey = (case pc_userId c of None \<Rightarrow> ''client'' | Some u \<Rightarrow> ''user:'' @ show_int u),
      na_kind = POLICY_PUSH_KIND,
      na_payload = JObj [(''userId'', case pc_userId c of None \<Rightarrow> JNull | Some u \<Rightarrow> JNum u),
                         (''reason'', JStr (pc_reason c)), (''detail'', pc_detail c)]\<rparr>"

section \<open>One pass of the scheduler\<close>

text \<open>
  A probe answers, or throws, which the pass logs and skips. \<open>clientsWithPending\<close> is read once.
\<close>

type_synonym 'w probe = "int \<Rightarrow> 'w world \<Rightarrow> (unit + bool) \<times> 'w world"

fun tick_clients :: "('w \<Rightarrow> instant) \<Rightarrow> 'w probe \<Rightarrow> 'w executor \<Rightarrow> int list \<Rightarrow> 'w world \<Rightarrow> 'w world" where
  "tick_clients clock probe executor [] s = s"
| "tick_clients clock probe executor (c # cs) s =
     (case probe c s of
        (Inr True, s') \<Rightarrow> tick_clients clock probe executor cs (snd (drainClient clock executor c s'))
      | (_, s') \<Rightarrow> tick_clients clock probe executor cs s')"

definition drainer_tick :: "('w \<Rightarrow> instant) \<Rightarrow> 'w probe \<Rightarrow> 'w executor \<Rightarrow> 'w world \<Rightarrow> 'w world" where
  "drainer_tick clock probe executor s = tick_clients clock probe executor (clientsWithPending (fst s)) s"

section \<open>The invariant of the database\<close>

definition users_ok :: "db \<Rightarrow> bool" where
  "users_ok d \<longleftrightarrow> distinct (map user_id (db_users d)) \<and> (\<forall>u \<in> set (db_users d). user_id u \<le> db_userSeq d)"

definition clients_ok :: "db \<Rightarrow> bool" where
  "clients_ok d \<longleftrightarrow>
     distinct (map client_id (db_clients d)) \<and> (\<forall>c \<in> set (db_clients d). client_id c \<le> db_clientSeq d)
     \<and> distinct (map client_hostname (db_clients d))"

definition link_key :: "link_row \<Rightarrow> int \<times> int" where
  "link_key l = (link_userId l, link_clientId l)"

definition link_ref :: "link_row \<Rightarrow> int \<times> string" where
  "link_ref l = (link_clientId l, link_osUserRef l)"

definition links_ok :: "db \<Rightarrow> bool" where
  "links_ok d \<longleftrightarrow>
     distinct (map link_key (db_links d)) \<and> distinct (map link_ref (db_links d))
     \<and> link_userId ` set (db_links d) \<subseteq> user_id ` set (db_users d)
     \<and> link_clientId ` set (db_links d) \<subseteq> client_id ` set (db_clients d)"

definition queue_target :: "queued_row \<Rightarrow> int \<times> string" where
  "queue_target q = (q_clientId q, q_coalesceKey q)"

definition queue_ok :: "db \<Rightarrow> bool" where
  "queue_ok d \<longleftrightarrow>
     distinct (map q_id (db_queue d)) \<and> (\<forall>q \<in> set (db_queue d). q_id q \<le> db_queueSeq d \<and> 0 \<le> q_attempts q)
     \<and> distinct (map queue_target (db_queue d))
     \<and> q_clientId ` set (db_queue d) \<subseteq> client_id ` set (db_clients d)"

definition db_ok :: "db \<Rightarrow> bool" where
  "db_ok d \<longleftrightarrow> users_ok d \<and> clients_ok d \<and> links_ok d \<and> queue_ok d"

text \<open>Every write, with a refused one leaving the database as it was.\<close>

datatype db_op =
    Create_User user_create
  | Update_User int user_update
  | Delete_User int
  | Create_Client client_create
  | Update_Client int client_update
  | Delete_Client int
  | Touch_Last_Seen int instant
  | Record_Verification int bool "string option" instant
  | Record_Agent_Version int string instant
  | Set_Update_Required int bool
  | Record_Capabilities int "string list"
  | Upsert_Link int int string string
  | Delete_Link int int
  | Enqueue instant new_action
  | Update_Payload instant int json
  | Mark_Drained int
  | Record_Attempt instant int string
  | Mark_Failed instant int string

fun committed :: "db \<Rightarrow> violation + db \<times> 'r \<Rightarrow> db" where
  "committed d (Inl _) = d"
| "committed d (Inr (d', _)) = d'"

fun db_step :: "db \<Rightarrow> db_op \<Rightarrow> db" where
  "db_step d (Create_User c) = fst (createUser d c)"
| "db_step d (Update_User i p) = fst (updateUser d i p)"
| "db_step d (Delete_User i) = fst (deleteUser d i)"
| "db_step d (Create_Client c) = committed d (createClient d c)"
| "db_step d (Update_Client i p) = committed d (updateClient d i p)"
| "db_step d (Delete_Client i) = fst (deleteClient d i)"
| "db_step d (Touch_Last_Seen i t) = fst (recordClientLastSeen d i t)"
| "db_step d (Record_Verification i b r t) = fst (recordClientVerification d i b r t)"
| "db_step d (Record_Agent_Version i v t) = recordClientAgentVersion d i v t"
| "db_step d (Set_Update_Required i b) = setClientUpdateRequired d i b"
| "db_step d (Record_Capabilities i cs) = recordClientCapabilities d i cs"
| "db_step d (Upsert_Link u c n r) = committed d (upsertLink d u c n r)"
| "db_step d (Delete_Link u c) = fst (deleteLink d u c)"
| "db_step d (Enqueue now a) = committed d (enqueue now d a)"
| "db_step d (Update_Payload now i p) = fst (updateActionPayload now d i p)"
| "db_step d (Mark_Drained i) = fst (markDrained d i)"
| "db_step d (Record_Attempt now i e) = fst (recordAttempt now d i e)"
| "db_step d (Mark_Failed now i e) = fst (markFailed now d i e)"

definition run_db :: "db_op list \<Rightarrow> db" where
  "run_db ops = foldl db_step empty_db ops"

lemma map_update_where [simp]:
  "(\<And>r. P r \<Longrightarrow> key (f r) = key r) \<Longrightarrow> map key (update_where P f rows) = map key rows"
  by (induction rows) (simp_all add: update_where_def)

lemma set_update_where: "set (update_where P f rows) = f ` {r \<in> set rows. P r} \<union> {r \<in> set rows. \<not> P r}"
  by (auto simp: update_where_def)

lemma image_update_where:
  assumes "\<And>r. P r \<Longrightarrow> key (f r) = key r"
  shows "key ` set (update_where P f rows) = key ` set rows"
  using arg_cong [OF map_update_where [of P key f rows, OF assms], of set] by simp

declare distinct_map_filter [simp]

lemma find_None_set: "List.find P xs = None \<longleftrightarrow> (\<forall>x \<in> set xs. \<not> P x)"
  by (auto simp: find_None_iff)

lemma getClient_None: "getClient d i = None \<longleftrightarrow> i \<notin> client_id ` set (db_clients d)"
  by (auto simp: getClient_def find_None_set)

lemma getUser_None: "getUser d i = None \<longleftrightarrow> i \<notin> user_id ` set (db_users d)"
  by (auto simp: getUser_def find_None_set)

text \<open>Writes to the columns of one client that are neither keys nor hostnames.\<close>

lemma set_client_ok:
  assumes "db_ok d" "\<And>c. client_id (f c) = client_id c" "\<And>c. client_hostname (f c) = client_hostname c"
  shows "db_ok (set_client d i f)"
proof -
  have "map client_id (db_clients (set_client d i f)) = map client_id (db_clients d)"
    "map client_hostname (db_clients (set_client d i f)) = map client_hostname (db_clients d)"
    using assms(2,3) by (simp_all add: set_client_def)
  moreover from this have "client_id ` set (db_clients (set_client d i f)) = client_id ` set (db_clients d)"
    by (metis set_map)
  ultimately show ?thesis
    using assms(1)
    by (auto simp: db_ok_def users_ok_def clients_ok_def links_ok_def queue_ok_def set_client_def [of d] set_update_where assms(2))
qed

text \<open>Writes to the columns of one queued action that are no keys and keep the count of attempts nonnegative.\<close>

lemma set_queued_ok:
  assumes "db_ok d" "\<And>q. q_id (f q) = q_id q" "\<And>q. queue_target (f q) = queue_target q"
    "\<And>q. 0 \<le> q_attempts q \<Longrightarrow> 0 \<le> q_attempts (f q)"
  shows "db_ok (set_queued i f d)"
proof -
  have "map q_id (db_queue (set_queued i f d)) = map q_id (db_queue d)"
    "map queue_target (db_queue (set_queued i f d)) = map queue_target (db_queue d)"
    using assms(2,3) by (simp_all add: set_queued_def)
  moreover have "q_clientId (f q) = q_clientId q" for q using assms(3) [of q] by (simp add: queue_target_def)
  ultimately show ?thesis
    using assms(1,2,4)
    by (auto simp: db_ok_def users_ok_def clients_ok_def links_ok_def queue_ok_def set_queued_def [of i f d] set_update_where)
qed

lemma fresh_key: "\<forall>r \<in> set rows. key r \<le> (n::int) \<Longrightarrow> n + 1 \<notin> key ` set rows"
  by force

lemma createUser_ok: "db_ok d \<Longrightarrow> db_ok (fst (createUser d c))"
  using fresh_key [of "db_users d" user_id "db_userSeq d"]
  by (auto simp: createUser_def Let_def db_ok_def users_ok_def clients_ok_def links_ok_def queue_ok_def)

lemma updateUser_ok:
  assumes "db_ok d"
  shows "db_ok (fst (updateUser d i p))"
proof -
  have "map user_id (db_users (fst (updateUser d i p))) = map user_id (db_users d)"
    by (simp add: updateUser_def Let_def patch_user_def)
  moreover from this have "user_id ` set (db_users (fst (updateUser d i p))) = user_id ` set (db_users d)"
    by (metis set_map)
  ultimately show ?thesis
    using assms
    by (auto simp: db_ok_def users_ok_def clients_ok_def links_ok_def queue_ok_def updateUser_def [of d] Let_def
        set_update_where patch_user_def)
qed

lemma deleteUser_ok: "db_ok d \<Longrightarrow> db_ok (fst (deleteUser d i))"
  by (auto simp: deleteUser_def db_ok_def users_ok_def clients_ok_def links_ok_def queue_ok_def)

lemma createClient_ok: "db_ok d \<Longrightarrow> db_ok (committed d (createClient d c))"
  using fresh_key [of "db_clients d" client_id "db_clientSeq d"]
  by (auto simp: createClient_def Let_def db_ok_def users_ok_def clients_ok_def links_ok_def queue_ok_def)

lemma deleteClient_ok: "db_ok d \<Longrightarrow> db_ok (fst (deleteClient d i))"
  by (auto simp: deleteClient_def db_ok_def users_ok_def clients_ok_def links_ok_def queue_ok_def)

lemma distinct_map_update_where:
  assumes "distinct (map key rows)"
    and "\<And>r r'. r \<in> set rows \<Longrightarrow> r' \<in> set rows \<Longrightarrow> P r \<Longrightarrow> r' \<noteq> r \<Longrightarrow> key (f r) \<noteq> (if P r' then key (f r') else key r')"
  shows "distinct (map key (update_where P f rows))"
proof -
  have "distinct rows" using assms(1) by (simp add: distinct_map)
  moreover have "inj_on (\<lambda>r. key (if P r then f r else r)) (set rows)"
  proof (rule inj_onI)
    fix r r' assume r: "r \<in> set rows" "r' \<in> set rows"
      and eq: "key (if P r then f r else r) = key (if P r' then f r' else r')"
    show "r = r'"
    proof (cases "P r \<or> P r'")
      case True
      then show ?thesis using assms(2) [of r r'] assms(2) [of r' r] r eq by (auto split: if_splits)
    next
      case False
      then show ?thesis using assms(1) r eq by (auto simp: distinct_map inj_on_eq_iff)
    qed
  qed
  ultimately show ?thesis by (simp add: update_where_def distinct_map comp_def)
qed

lemma updateClient_ok:
  assumes "db_ok d"
  shows "db_ok (committed d (updateClient d i p))"
proof (cases "updateClient d i p")
  case (Inr r)
  let ?upd = "update_where (\<lambda>c. client_id c = i) (patch_client p)"
  have r: "committed d (updateClient d i p) = d\<lparr>db_clients := ?upd (db_clients d)\<rparr>"
    and free: "getClient d i = None \<or> (case cu_hostname p of None \<Rightarrow> True | Some h \<Rightarrow> \<not> hostname_taken d i h)"
    using Inr by (auto simp: updateClient_def Let_def split: if_splits option.splits)
  have ids: "map client_id (?upd (db_clients d)) = map client_id (db_clients d)"
    by (simp add: patch_client_def)
  then have set_ids: "client_id ` set (?upd (db_clients d)) = client_id ` set (db_clients d)" by (metis set_map)
  have "distinct (map client_id (db_clients d))" "distinct (map client_hostname (db_clients d))"
    using assms by (simp_all add: db_ok_def clients_ok_def)
  then have "distinct (map client_hostname (?upd (db_clients d)))"
    using free
    by (intro distinct_map_update_where)
      (auto simp: patch_client_def hostname_taken_def getClient_None distinct_map inj_on_def split: option.splits)
  moreover have "\<forall>c \<in> set (?upd (db_clients d)). client_id c \<le> db_clientSeq d"
    using assms by (auto simp: db_ok_def clients_ok_def set_update_where patch_client_def)
  ultimately show ?thesis
    using assms ids set_ids unfolding r
    by (auto simp: db_ok_def users_ok_def clients_ok_def links_ok_def queue_ok_def)
qed (use assms in simp)

lemma upsertLink_ok:
  assumes "db_ok d"
  shows "db_ok (committed d (upsertLink d u c n r))"
proof (cases "upsertLink d u c n r")
  case (Inr res)
  define row where "row = \<lparr>link_userId = u, link_clientId = c, link_osUsername = n, link_osUserRef = r\<rparr>"
  have ex: "u \<in> user_id ` set (db_users d)" "c \<in> client_id ` set (db_clients d)"
    and free: "\<forall>l \<in> set (db_links d). \<not> same_link u c l \<longrightarrow> link_ref l \<noteq> link_ref row"
    using Inr by (auto simp: upsertLink_def Let_def getUser_None getClient_None link_ref_def row_def split: if_splits)
  have key: "link_key l = link_key row \<longleftrightarrow> same_link u c l" for l by (simp add: link_key_def same_link_def row_def)
  have ok: "distinct (map link_key (db_links d))" "distinct (map link_ref (db_links d))"
    using assms by (simp_all add: db_ok_def links_ok_def)
  show ?thesis
  proof (cases "\<exists>l \<in> set (db_links d). same_link u c l")
    case True
    let ?new = "update_where (same_link u c) (\<lambda>_. row) (db_links d)"
    have eq: "committed d (upsertLink d u c n r) = d\<lparr>db_links := ?new\<rparr>"
      using Inr True by (auto simp: upsertLink_def Let_def row_def split: if_splits)
    have "link_key row = link_key l" if "same_link u c l" for l using key that by metis
    then have "distinct (map link_key ?new)" using ok(1) by (subst map_update_where) simp_all
    moreover have "distinct (map link_ref ?new)"
    proof (rule distinct_map_update_where [OF ok(2)])
      fix l l' assume l: "l \<in> set (db_links d)" "l' \<in> set (db_links d)" "same_link u c l" "l' \<noteq> l"
      have "inj_on link_key (set (db_links d))" using ok(1) by (simp add: distinct_map)
      then have "link_key l' \<noteq> link_key l" using l by (auto dest: inj_onD)
      then have "\<not> same_link u c l'" using l(3) key by metis
      then show "link_ref row \<noteq> (if same_link u c l' then link_ref row else link_ref l')" using free l(2) by auto
    qed
    moreover have "link_userId row = u" "link_clientId row = c" by (simp_all add: row_def)
    ultimately show ?thesis
      using assms ex unfolding eq
      by (auto simp: db_ok_def users_ok_def clients_ok_def links_ok_def queue_ok_def set_update_where)
  next
    case False
    then have "committed d (upsertLink d u c n r) = d\<lparr>db_links := db_links d @ [row]\<rparr>"
      using Inr by (auto simp: upsertLink_def Let_def row_def split: if_splits)
    moreover have "link_key row \<notin> link_key ` set (db_links d)" "link_ref row \<notin> link_ref ` set (db_links d)"
      using False key free by (auto, metis)
    moreover have "link_userId row = u" "link_clientId row = c" by (simp_all add: row_def)
    ultimately show ?thesis
      using assms ex by (auto simp: db_ok_def users_ok_def clients_ok_def links_ok_def queue_ok_def)
  qed
qed (use assms in simp)

lemma deleteLink_ok: "db_ok d \<Longrightarrow> db_ok (fst (deleteLink d u c))"
  by (auto simp: deleteLink_def db_ok_def users_ok_def clients_ok_def links_ok_def queue_ok_def)

lemma enqueue_ok:
  assumes "db_ok d"
  shows "db_ok (committed d (enqueue now d a))"
proof (cases "List.find (same_target (na_clientId a) (na_coalesceKey a)) (db_queue d)")
  case None
  then have "(na_clientId a, na_coalesceKey a) \<notin> queue_target ` set (db_queue d)"
    by (auto simp: find_None_set same_target_def queue_target_def)
  then show ?thesis
    using assms None fresh_key [of "db_queue d" q_id "db_queueSeq d"]
    by (auto simp: enqueue_def Let_def getClient_None db_ok_def users_ok_def clients_ok_def links_ok_def queue_ok_def
        queue_target_def)
next
  case (Some old)
  then have old: "old \<in> set (db_queue d)" "same_target (na_clientId a) (na_coalesceKey a) old"
    by (auto dest: find_in_set)
  have "distinct (map q_id (db_queue d))" using assms by (simp add: db_ok_def queue_ok_def)
  then have only: "q = old" if "q \<in> set (db_queue d)" "q_id q = q_id old" for q
    using old(1) that by (auto simp: distinct_map inj_on_def)
  define f :: "queued_row \<Rightarrow> queued_row" where "f = (\<lambda>q. q\<lparr>q_kind := na_kind a, q_payload := na_payload a, q_status := Q_Pending, q_attempts := 0,
    q_lastError := None, q_updatedAt := stored_timestamp now\<rparr>)"
  have "update_where (\<lambda>q. q_id q = q_id old) (\<lambda>_. f old) (db_queue d) = update_where (\<lambda>q. q_id q = q_id old) f (db_queue d)"
    using only by (auto simp: update_where_def)
  then have "committed d (enqueue now d a) = (if getClient d (na_clientId a) = None then d else set_queued (q_id old) f d)"
    using Some by (simp add: enqueue_def Let_def f_def set_queued_def)
  then show ?thesis
    using assms by (auto intro!: set_queued_ok simp: f_def queue_target_def)
qed

lemma markDrained_ok: "db_ok d \<Longrightarrow> db_ok (fst (markDrained d i))"
  by (auto simp: markDrained_def db_ok_def users_ok_def clients_ok_def links_ok_def queue_ok_def)

lemma db_step_ok: "db_ok d \<Longrightarrow> db_ok (db_step d op)"
  by (cases op)
    (auto simp: createUser_ok updateUser_ok deleteUser_ok createClient_ok updateClient_ok deleteClient_ok upsertLink_ok
      deleteLink_ok enqueue_ok markDrained_ok recordClientLastSeen_def touchClientLastSeen_def recordClientVerification_def
      recordClientAgentVersion_def setClientUpdateRequired_def recordClientCapabilities_def updateActionPayload_def
      recordAttempt_def markFailed_def queue_target_def Let_def intro!: set_client_ok set_queued_ok)

lemma run_db_ok: "db_ok (run_db ops)"
proof -
  have "db_ok d \<Longrightarrow> db_ok (foldl db_step d ops)" for d
    by (induction ops arbitrary: d) (simp_all add: db_step_ok)
  moreover have "db_ok empty_db"
    by (simp add: empty_db_def db_ok_def users_ok_def clients_ok_def links_ok_def queue_ok_def)
  ultimately show ?thesis by (simp add: run_db_def)
qed

section \<open>The contract of the queue\<close>

text \<open>What became of one attempt, with what is recorded of a failure.\<close>

datatype 'e verdict = Done | Retry 'e | Bury 'e

text \<open>
  A queue of rows under ids, as the replay loop uses it: the pending ids of a client in replay order,
  and the three ways to settle an attempt.
\<close>

locale action_queue =
  fixes lookup :: "'q \<Rightarrow> int \<Rightarrow> 'r option"
    and pending :: "'q \<Rightarrow> int \<Rightarrow> int list"
    and remove :: "'q \<Rightarrow> int \<Rightarrow> 'q"
    and retry bury :: "'q \<Rightarrow> int \<Rightarrow> 'e \<Rightarrow> 'q"
    and retried buried :: "'e \<Rightarrow> 'r \<Rightarrow> 'r"
  assumes lookup_remove: "lookup (remove q i) j = (if j = i then None else lookup q j)"
    and lookup_retry: "lookup (retry q i e) j = (if j = i then map_option (retried e) (lookup q j) else lookup q j)"
    and lookup_bury: "lookup (bury q i e) j = (if j = i then map_option (buried e) (lookup q j) else lookup q j)"
    and pending_remove: "pending (remove q i) c = filter (\<lambda>j. j \<noteq> i) (pending q c)"
    and pending_retry: "pending (retry q i e) c = pending q c"
    and pending_bury: "pending (bury q i e) c = filter (\<lambda>j. j \<noteq> i) (pending q c)"
begin

definition settle :: "'q \<Rightarrow> int \<times> 'e verdict \<Rightarrow> 'q" where
  "settle q o1 = (case snd o1 of Done \<Rightarrow> remove q (fst o1) | Retry e \<Rightarrow> retry q (fst o1) e | Bury e \<Rightarrow> bury q (fst o1) e)"

definition settled_row :: "'e verdict \<Rightarrow> 'r option \<Rightarrow> 'r option" where
  "settled_row v r = (case v of Done \<Rightarrow> None | Retry e \<Rightarrow> map_option (retried e) r | Bury e \<Rightarrow> map_option (buried e) r)"

lemma lookup_settle: "lookup (settle q (i, v)) j = (if j = i then settled_row v (lookup q j) else lookup q j)"
  by (simp add: settle_def settled_row_def lookup_remove lookup_retry lookup_bury split: verdict.split)

lemma pending_settle:
  "pending (settle q (i, v)) c = filter (\<lambda>j. j \<noteq> i \<or> (\<exists>e. v = Retry e)) (pending q c)"
  by (cases v) (simp_all add: settle_def pending_remove pending_retry pending_bury)

lemma lookup_settled:
  "distinct (map fst os) \<Longrightarrow>
    lookup (foldl settle q os) j = (case map_of os j of None \<Rightarrow> lookup q j | Some v \<Rightarrow> settled_row v (lookup q j))"
proof (induction os arbitrary: q)
  case (Cons o1 os)
  obtain i v where o1: "o1 = (i, v)" by fastforce
  have "map_of os i = None" using Cons.prems by (simp add: o1 map_of_eq_None_iff)
  then show ?case using Cons by (cases "j = i") (simp_all add: o1 lookup_settle split: option.split)
qed simp

lemma pending_settled:
  "pending (foldl settle q os) c = filter (\<lambda>j. \<forall>(i, v) \<in> set os. j = i \<longrightarrow> (\<exists>e. v = Retry e)) (pending q c)"
proof (induction os arbitrary: q)
  case (Cons o1 os)
  obtain i v where o1: "o1 = (i, v)" by fastforce
  show ?case
    unfolding foldl_Cons Cons.IH o1 pending_settle filter_filter by (intro filter_cong) auto
qed simp

end

definition retried_row :: "instant \<times> string \<Rightarrow> queued_row \<Rightarrow> queued_row" where
  "retried_row e q =
     q\<lparr>q_attempts := q_attempts q + 1, q_lastError := Some (snd e), q_updatedAt := stored_timestamp (fst e)\<rparr>"

definition buried_row :: "instant \<times> string \<Rightarrow> queued_row \<Rightarrow> queued_row" where
  "buried_row e q =
     q\<lparr>q_status := Q_Failed, q_attempts := q_attempts q + 1, q_lastError := Some (snd e),
       q_updatedAt := stored_timestamp (fst e)\<rparr>"

definition pending_ids :: "db \<Rightarrow> int \<Rightarrow> int list" where
  "pending_ids d c = map q_id (listPendingForClient d c)"

lemma find_update_where:
  assumes "\<And>q. q_id (f q) = q_id q"
  shows "List.find (\<lambda>q. q_id q = j) (update_where (\<lambda>q. q_id q = i) f rows)
    = (if j = i then map_option f (List.find (\<lambda>q. q_id q = j) rows) else List.find (\<lambda>q. q_id q = j) rows)"
  by (induction rows) (auto simp: update_where_def assms)

lemma find_remove_id:
  "List.find (\<lambda>q. q_id q = j) (filter (\<lambda>q. q_id q \<noteq> i) rows)
    = (if j = i then None else List.find (\<lambda>q. q_id q = j) rows)"
  by (induction rows) (auto simp: find_None_set)

lemma getQueued_set_queued:
  "(\<And>q. q_id (f q) = q_id q) \<Longrightarrow>
    getQueued (set_queued i f d) j = (if j = i then map_option f (getQueued d j) else getQueued d j)"
  by (simp add: getQueued_def set_queued_def find_update_where)

lemma pending_ids_sort:
  "pending_ids d c = sort (map q_id (filter (\<lambda>q. q_clientId q = c \<and> q_status q = Q_Pending) (db_queue d)))"
  unfolding pending_ids_def listPendingForClient_def
  by (rule sym, rule properties_for_sort) simp_all

lemma sort_filter_ids: "sort (map q_id (filter (\<lambda>q. q_id q \<noteq> i) rows)) = filter (\<lambda>j. j \<noteq> i) (sort (map q_id rows))"
proof -
  have "map q_id (filter (\<lambda>q. q_id q \<noteq> i) rows) = filter (\<lambda>j. j \<noteq> i) (map q_id rows)"
    by (simp add: filter_map comp_def)
  then show ?thesis by (simp add: filter_sort)
qed

interpretation tq: action_queue getQueued pending_ids
  "\<lambda>d i. fst (markDrained d i)" "\<lambda>d i e. fst (recordAttempt (fst e) d i (snd e))"
  "\<lambda>d i e. fst (markFailed (fst e) d i (snd e))" retried_row buried_row
proof unfold_locales
  fix d i j c and e :: "instant \<times> string"
  show "getQueued (fst (markDrained d i)) j = (if j = i then None else getQueued d j)"
    by (simp add: markDrained_def getQueued_def find_remove_id)
  have r: "fst (recordAttempt (fst e) d i (snd e)) = set_queued i (retried_row e) d"
    by (simp add: recordAttempt_def Let_def retried_row_def [abs_def])
  have b: "fst (markFailed (fst e) d i (snd e)) = set_queued i (buried_row e) d"
    by (simp add: markFailed_def Let_def buried_row_def [abs_def])
  show "getQueued (fst (recordAttempt (fst e) d i (snd e))) j
      = (if j = i then map_option (retried_row e) (getQueued d j) else getQueued d j)"
    unfolding r by (rule getQueued_set_queued) (simp add: retried_row_def)
  show "getQueued (fst (markFailed (fst e) d i (snd e))) j
      = (if j = i then map_option (buried_row e) (getQueued d j) else getQueued d j)"
    unfolding b by (rule getQueued_set_queued) (simp add: retried_row_def buried_row_def)
  have swap: "filter P (filter (\<lambda>q. q_id q \<noteq> i) rows) = filter (\<lambda>q. q_id q \<noteq> i) (filter P rows)" for P rows
    by (auto intro: filter_cong)
  show "pending_ids (fst (markDrained d i)) c = filter (\<lambda>j. j \<noteq> i) (pending_ids d c)"
    by (simp add: pending_ids_sort markDrained_def swap sort_filter_ids del: filter_filter)
  have keep: "map q_id (filter P (update_where (\<lambda>q. q_id q = i) f rows)) = map q_id (filter P rows)"
    if "\<And>q. q_id (f q) = q_id q" "\<And>q. P (f q) = P q" for P f rows
    using that by (induction rows) (auto simp: update_where_def)
  show "pending_ids (fst (recordAttempt (fst e) d i (snd e))) c = pending_ids d c"
    by (simp add: pending_ids_sort r set_queued_def keep retried_row_def)
  have drop: "map q_id (filter P (update_where (\<lambda>q. q_id q = i) f rows)) = map q_id (filter (\<lambda>q. q_id q \<noteq> i) (filter P rows))"
    if "\<And>q. \<not> P (f q)" for P f rows
    using that by (induction rows) (auto simp: update_where_def)
  show "pending_ids (fst (markFailed (fst e) d i (snd e))) c = filter (\<lambda>j. j \<noteq> i) (pending_ids d c)"
    by (simp add: pending_ids_sort b set_queued_def drop buried_row_def sort_filter_ids del: filter_filter)
qed

section \<open>The replay loop against its specification\<close>

text \<open>
  An executor that only acts on the outside world, and the attempts a replay makes with it: each row
  in order, up to and including the first retriable rejection.
\<close>

definition remote :: "(queued_action \<Rightarrow> 'w \<Rightarrow> (rejection + unit) \<times> 'w) \<Rightarrow> 'w executor" where
  "remote f a s = (let (r, w) = f a (snd s) in (r, fst s, w))"

fun attempts ::
    "('w \<Rightarrow> instant) \<Rightarrow> (queued_action \<Rightarrow> 'w \<Rightarrow> (rejection + unit) \<times> 'w) \<Rightarrow> queued_row list \<Rightarrow> 'w
      \<Rightarrow> (int \<times> (instant \<times> string) verdict) list \<times> 'w" where
  "attempts clock f [] w = ([], w)"
| "attempts clock f (row # rows) w =
     (case f (toAction row) w of
        (Inr _, w1) \<Rightarrow> (let (os, w2) = attempts clock f rows w1 in ((q_id row, Done) # os, w2))
      | (Inl e, w1) \<Rightarrow>
          if isRetriable e then ([(q_id row, Retry (clock w1, errorMessage e))], w1)
          else (let (os, w2) = attempts clock f rows w1
                in ((q_id row, Bury (clock w1, errorMessage e)) # os, w2)))"

definition is_done :: "int \<times> 'e verdict \<Rightarrow> bool" where "is_done o1 \<longleftrightarrow> snd o1 = Done"
definition is_bury :: "int \<times> 'e verdict \<Rightarrow> bool" where "is_bury o1 \<longleftrightarrow> (\<exists>e. snd o1 = Bury e)"

lemma attempts_prefix:
  "attempts clock f rows w = (os, w') \<Longrightarrow>
    \<exists>rest. map q_id rows = map fst os @ rest
      \<and> (rest = [] \<or> (\<exists>os' i e. os = os' @ [(i, Retry e)]))
      \<and> (\<forall>i e. (i, Retry e) \<in> set os \<longrightarrow> (\<exists>os'. os = os' @ [(i, Retry e)] \<and> (\<forall>o1 \<in> set os'. is_done o1 \<or> is_bury o1)))"
proof (induction rows arbitrary: w os w')
  case (Cons row rows)
  obtain out w1 where out: "f (toAction row) w = (out, w1)" by fastforce
  show ?case
  proof (cases "\<exists>e. out = Inl e \<and> isRetriable e")
    case True
    then show ?thesis using Cons.prems out by auto
  next
    case False
    obtain os2 w2 where rec: "attempts clock f rows w1 = (os2, w2)" by fastforce
    obtain v where v: "os = (q_id row, v) # os2" "v = Done \<or> (\<exists>e. v = Bury e)"
      using Cons.prems out rec False by (cases out) auto
    from Cons.IH [OF rec] obtain rest where rest: "map q_id rows = map fst os2 @ rest"
      "rest = [] \<or> (\<exists>os' i e. os2 = os' @ [(i, Retry e)])"
      "\<forall>i e. (i, Retry e) \<in> set os2 \<longrightarrow> (\<exists>os'. os2 = os' @ [(i, Retry e)] \<and> (\<forall>o1 \<in> set os'. is_done o1 \<or> is_bury o1))"
      by blast
    have "\<exists>os'. os = os' @ [(i, Retry e)] \<and> (\<forall>o1 \<in> set os'. is_done o1 \<or> is_bury o1)"
      if "(i, Retry e) \<in> set os" for i e
    proof -
      from that v have "(i, Retry e) \<in> set os2" by auto
      with rest(3) obtain os' where "os2 = os' @ [(i, Retry e)]" "\<forall>o1 \<in> set os'. is_done o1 \<or> is_bury o1" by blast
      then show ?thesis using v by (intro exI [of _ "(q_id row, v) # os'"]) (auto simp: is_done_def is_bury_def)
    qed
    moreover have "rest = [] \<or> (\<exists>os' i e. os = os' @ [(i, Retry e)])"
      using rest(2) v(1) by (metis append_Cons)
    ultimately show ?thesis using rest(1) v(1) by auto
  qed
qed auto

lemma drain_rows_attempts:
  assumes "attempts clock f rows w = (os, w')"
  shows "drain_rows clock (remote f) rows a b (d, w) =
    (\<lparr>ds_drained = a + int (length (filter is_done os)), ds_failed = b + int (length (filter is_bury os)),
      ds_deferred = int (length rows) - int (length (filter is_done os)) - int (length (filter is_bury os))\<rparr>,
     foldl tq.settle d os, w')"
  using assms
proof (induction rows arbitrary: w os w' a b d)
  case (Cons row rows)
  obtain out w1 where out: "f (toAction row) w = (out, w1)" by fastforce
  show ?case
  proof (cases "\<exists>e. out = Inl e \<and> isRetriable e")
    case True
    then show ?thesis
      using Cons.prems out by (auto simp: remote_def is_done_def is_bury_def tq.settle_def)
  next
    case False
    obtain os2 w2 where rec: "attempts clock f rows w1 = (os2, w2)" by fastforce
    show ?thesis
      using Cons.prems out rec False Cons.IH [OF rec]
      by (cases out) (auto simp: remote_def is_done_def is_bury_def tq.settle_def)
  qed
qed simp

lemma count_settled:
  "\<forall>o1 \<in> set os. is_done o1 \<or> is_bury o1 \<Longrightarrow> length (filter is_done os) + length (filter is_bury os) = length os"
  by (induction os) (auto simp: is_done_def is_bury_def)

lemma retry_unsettled [simp]: "\<not> is_done (i, Retry e)" "\<not> is_bury (i, Retry e)"
  by (simp_all add: is_done_def is_bury_def)

lemma attempts_shape:
  assumes "attempts clock f rows w = (os, w')"
  obtains (all) "map q_id rows = map fst os" "\<forall>o1 \<in> set os. is_done o1 \<or> is_bury o1"
  | (stop) os' i e rest where "os = os' @ [(i, Retry e)]" "map q_id rows = map fst os' @ i # rest"
      "\<forall>o1 \<in> set os'. is_done o1 \<or> is_bury o1"
proof -
  from attempts_prefix [OF assms] obtain rest where rest: "map q_id rows = map fst os @ rest"
    "rest = [] \<or> (\<exists>os' i e. os = os' @ [(i, Retry e)])"
    "\<forall>i e. (i, Retry e) \<in> set os \<longrightarrow> (\<exists>os'. os = os' @ [(i, Retry e)] \<and> (\<forall>o1 \<in> set os'. is_done o1 \<or> is_bury o1))"
    by blast
  show ?thesis
  proof (cases "\<exists>i e. (i, Retry e) \<in> set os")
    case True
    then obtain i e os' where "os = os' @ [(i, Retry e)]" "\<forall>o1 \<in> set os'. is_done o1 \<or> is_bury o1" using rest(3) by blast
    then show ?thesis using rest(1) stop by simp
  next
    case False
    then have "is_done o1 \<or> is_bury o1" if "o1 \<in> set os" for o1
      using that by (cases o1; cases "snd o1") (auto simp: is_done_def is_bury_def)
    moreover have "rest = []" using rest(2) False by force
    ultimately show ?thesis using rest(1) all by simp
  qed
qed

fun verdict_row :: "(instant \<times> string) verdict \<Rightarrow> queued_row option \<Rightarrow> queued_row option" where
  "verdict_row Done r = None"
| "verdict_row (Retry e) r = map_option (retried_row e) r"
| "verdict_row (Bury e) r = map_option (buried_row e) r"

lemma settled_verdict: "tq.settled_row = verdict_row"
  by (intro ext) (simp add: tq.settled_row_def split: verdict.split)

lemma distinct_pending_ids: "db_ok d \<Longrightarrow> distinct (pending_ids d c)"
  by (simp add: pending_ids_sort db_ok_def queue_ok_def)

lemma settled_pending_ids:
  assumes "attempts clock f (listPendingForClient d c) w = (os, w')" "db_ok d"
  shows "pending_ids (foldl tq.settle d os) c
      = drop (length (filter is_done os) + length (filter is_bury os)) (pending_ids d c)"
    "map fst os = take (length os) (pending_ids d c)"
proof -
  let ?keep = "\<lambda>j. \<forall>(i, v) \<in> set os. j = i \<longrightarrow> (\<exists>e. v = Retry e)"
  have dist: "distinct (pending_ids d c)" by (rule distinct_pending_ids [OF assms(2)])
  have "filter ?keep (pending_ids d c) = drop (length (filter is_done os) + length (filter is_bury os)) (pending_ids d c)
    \<and> map fst os = take (length os) (pending_ids d c)"
    using assms(1)
  proof (cases rule: attempts_shape)
    case all
    have "\<not> ?keep j" if "j \<in> set (map fst os)" for j
      using that all(2) by (fastforce simp: is_done_def is_bury_def)
    then have "filter ?keep (map fst os) = []" by (simp add: filter_empty_conv)
    then show ?thesis using all by (simp add: pending_ids_def count_settled)
  next
    case (stop os' i e rest)
    have ids: "pending_ids d c = map fst os' @ i # rest" using stop(2) by (simp add: pending_ids_def)
    have "\<not> ?keep j" if "j \<in> set (map fst os')" for j
      using that stop(1,3) by (fastforce simp: is_done_def is_bury_def)
    then have "filter ?keep (map fst os') = []" by (simp add: filter_empty_conv)
    moreover have "filter ?keep (i # rest) = i # rest"
    proof (rule filter_True, rule ballI)
      fix j assume j: "j \<in> set (i # rest)"
      then have "j \<notin> fst ` set os'" using dist ids by auto
      then show "?keep j" unfolding stop(1) by (auto simp: image_iff)
    qed
    ultimately show ?thesis using stop(1,3) ids by (simp add: count_settled)
  qed
  then show "pending_ids (foldl tq.settle d os) c
      = drop (length (filter is_done os) + length (filter is_bury os)) (pending_ids d c)"
    "map fst os = take (length os) (pending_ids d c)"
    by (simp_all add: tq.pending_settled)
qed

text \<open>
  C21 Draining a client replays its pending actions oldest first and stops at the first retriable
  rejection: a success removes its row, a rejection that is not retriable dead-letters it, a
  retriable one counts the attempt and leaves it at the head; every other row of the queue is as
  before, and the counts add up to the pending actions.
\<close>

theorem drain_client_exact:
  assumes "db_ok d" "attempts clock f (listPendingForClient d c) w = (os, w1)"
    "drainClient clock (remote f) c (d, w) = (summary, d', w2)"
  shows "w2 = w1 \<and> map fst os = take (length os) (pending_ids d c)
    \<and> ds_drained summary = int (length (filter is_done os)) \<and> ds_failed summary = int (length (filter is_bury os))
    \<and> ds_drained summary + ds_failed summary + ds_deferred summary = int (length (pending_ids d c))
    \<and> pending_ids d' c = drop (nat (ds_drained summary + ds_failed summary)) (pending_ids d c)
    \<and> getQueued d' i = (case map_of os i of None \<Rightarrow> getQueued d i | Some v \<Rightarrow> verdict_row v (getQueued d i))"
proof -
  note run = drain_rows_attempts [OF assms(2), of 0 0 d]
  have eq: "d' = foldl tq.settle d os" "w2 = w1" "ds_drained summary = int (length (filter is_done os))"
    "ds_failed summary = int (length (filter is_bury os))"
    "ds_deferred summary = int (length (listPendingForClient d c)) - int (length (filter is_done os)) - int (length (filter is_bury os))"
    using assms(3) run unfolding drainClient_def fst_conv by auto
  note ids = settled_pending_ids [OF assms(2,1)]
  have "distinct (map fst os)" unfolding ids(2) using distinct_pending_ids [OF assms(1)] by simp
  note row = tq.lookup_settled [OF this, of d i, unfolded settled_verdict]
  show ?thesis
    using eq ids row by (simp add: pending_ids_def nat_int_add)
qed

definition one_client_db :: db where
  "one_client_db = run_db
     [Create_Client \<lparr>cc_hostname = ''kids-pc'', cc_sshUser = ''pct-agent'', cc_friendlyName = None\<rparr>,
      Enqueue 0 \<lparr>na_clientId = 1, na_coalesceKey = ''user:1'', na_kind = ''policy.push'', na_payload = JStr ''a''\<rparr>,
      Enqueue 0 \<lparr>na_clientId = 1, na_coalesceKey = ''user:2'', na_kind = ''policy.push'', na_payload = JStr ''b''\<rparr>,
      Enqueue 0 \<lparr>na_clientId = 1, na_coalesceKey = ''user:3'', na_kind = ''policy.push'', na_payload = JStr ''c''\<rparr>]"

text \<open>An outside world that is a log of payloads; the second action finds the host unreachable.\<close>

definition flaky :: "queued_action \<Rightarrow> json list \<Rightarrow> (rejection + unit) \<times> json list" where
  "flaky a log = ((if qa_payload a = JStr ''b'' then Inl \<lparr>rej_retriable = True, rej_message = ''unreachable''\<rparr> else Inr ()),
                  log @ [qa_payload a])"

lemmas queue_run_simps = run_db_def empty_db_def createClient_def enqueue_def getClient_def same_target_def
  listPendingForClient_def stored_timestamp_def Let_def

lemma drain_client_exact_witness:
  "pending_ids (fst (snd (drainClient (\<lambda>_. 0) (remote flaky) 1 (one_client_db, [])))) 1 = [2, 3]"
proof -
  have ok: "db_ok one_client_db" unfolding one_client_db_def by (rule run_db_ok)
  obtain os w1 where a: "attempts (\<lambda>_. 0) flaky (listPendingForClient one_client_db 1) [] = (os, w1)" by fastforce
  obtain summary d' w2 where r: "drainClient (\<lambda>_. 0) (remote flaky) 1 (one_client_db, []) = (summary, d', w2)"
    by (metis prod.collapse)
  have "pending_ids one_client_db 1 = [1, 2, 3]"
    by (simp add: pending_ids_def one_client_db_def queue_run_simps)
  moreover have "os = [(1, Done), (2, Retry (0, ''unreachable''))]"
    using a by (simp add: one_client_db_def queue_run_simps toAction_def flaky_def isRetriable_def errorMessage_def)
  ultimately show ?thesis
    using drain_client_exact [OF ok a r, of 1] r by (simp add: is_done_def is_bury_def)
qed

text \<open>
  The queue's tables stay sound under any sequence of writes: ids are unique and never reused,
  a client has one row per target key, a link and a queued action belong to rows that exist, a host
  name and an account of a client are unique.
\<close>

theorem reachable_database_sound: "db_ok (run_db ops)"
  by (rule run_db_ok)

lemma enqueue_cases:
  assumes "enqueue now d a = Inr (d', row)"
  obtains (new) "(na_clientId a, na_coalesceKey a) \<notin> queue_target ` set (db_queue d)"
      "d' = d\<lparr>db_queue := db_queue d @ [row], db_queueSeq := db_queueSeq d + 1\<rparr>" "q_id row = db_queueSeq d + 1"
      "queue_target row = (na_clientId a, na_coalesceKey a)" "q_status row = Q_Pending" "q_kind row = na_kind a"
      "q_payload row = na_payload a" "q_attempts row = 0" "q_lastError row = None"
  | (coalesced) us old vs where "db_queue d = us @ old # vs"
      "queue_target old = (na_clientId a, na_coalesceKey a)"
      "d' = d\<lparr>db_queue := update_where (\<lambda>q. q_id q = q_id old) (\<lambda>_. row) (db_queue d)\<rparr>" "q_id row = q_id old"
      "queue_target row = (na_clientId a, na_coalesceKey a)" "q_status row = Q_Pending" "q_kind row = na_kind a"
      "q_payload row = na_payload a" "q_attempts row = 0" "q_lastError row = None"
proof -
  have fk: "getClient d (na_clientId a) \<noteq> None"
  proof
    assume "getClient d (na_clientId a) = None"
    with assms show False by (simp add: enqueue_def)
  qed
  have target: "same_target (na_clientId a) (na_coalesceKey a) = (\<lambda>q. queue_target q = (na_clientId a, na_coalesceKey a))"
    by (auto simp: same_target_def queue_target_def fun_eq_iff)
  show ?thesis
  proof (cases "List.find (\<lambda>q. queue_target q = (na_clientId a, na_coalesceKey a)) (db_queue d)")
    case None
    define r where "r = \<lparr>q_id = db_queueSeq d + 1, q_clientId = na_clientId a, q_coalesceKey = na_coalesceKey a,
      q_kind = na_kind a, q_payload = na_payload a, q_status = Q_Pending, q_attempts = 0, q_lastError = None,
      q_enqueuedAt = stored_timestamp now, q_updatedAt = stored_timestamp now\<rparr>"
    have "enqueue now d a = Inr (d\<lparr>db_queue := db_queue d @ [r], db_queueSeq := db_queueSeq d + 1\<rparr>, r)"
      unfolding enqueue_def if_not_P [OF fk] target None option.case Let_def r_def by (rule refl)
    then have row: "row = r" "d' = d\<lparr>db_queue := db_queue d @ [r], db_queueSeq := db_queueSeq d + 1\<rparr>"
      using assms by simp_all
    have "(na_clientId a, na_coalesceKey a) \<notin> queue_target ` set (db_queue d)"
      using None by (auto simp: find_None_set)
    then show ?thesis using row by (intro new) (simp_all add: r_def queue_target_def)
  next
    case (Some old)
    then obtain us vs where split: "db_queue d = us @ old # vs" and old: "queue_target old = (na_clientId a, na_coalesceKey a)"
      using find_split [OF Some] by blast
    define r where "r = old\<lparr>q_kind := na_kind a, q_payload := na_payload a, q_status := Q_Pending, q_attempts := 0,
      q_lastError := None, q_updatedAt := stored_timestamp now\<rparr>"
    have "enqueue now d a = Inr (d\<lparr>db_queue := update_where (\<lambda>q. q_id q = q_id old) (\<lambda>_. r) (db_queue d)\<rparr>, r)"
      unfolding enqueue_def if_not_P [OF fk] target Some option.case Let_def r_def by (rule refl)
    then have row: "row = r" "d' = d\<lparr>db_queue := update_where (\<lambda>q. q_id q = q_id old) (\<lambda>_. r) (db_queue d)\<rparr>"
      using assms by simp_all
    have "queue_target r = queue_target old" by (simp add: r_def queue_target_def)
    with split old row show ?thesis by (intro coalesced) (simp_all add: r_def)
  qed
qed

text \<open>
  Coalescing: after an action is queued its client has exactly one row for that target, pending,
  with the new kind and payload, no attempts and no error, in the place and under the id of the
  row it replaced, or at the end under a new id; no other row changes.
\<close>

theorem enqueue_coalesces:
  assumes "db_ok d" "enqueue now d a = Inr (d', row)"
  shows "filter (\<lambda>q. queue_target q = (na_clientId a, na_coalesceKey a)) (db_queue d') = [row]
    \<and> q_status row = Q_Pending \<and> q_kind row = na_kind a \<and> q_payload row = na_payload a \<and> q_attempts row = 0
    \<and> q_lastError row = None
    \<and> filter (\<lambda>q. queue_target q \<noteq> (na_clientId a, na_coalesceKey a)) (db_queue d')
      = filter (\<lambda>q. queue_target q \<noteq> (na_clientId a, na_coalesceKey a)) (db_queue d)
    \<and> map q_id (db_queue d') = map q_id (db_queue d) @
        (if (na_clientId a, na_coalesceKey a) \<in> queue_target ` set (db_queue d) then [] else [db_queueSeq d + 1])"
  using assms(2)
proof (cases rule: enqueue_cases)
  case new
  then have "filter (\<lambda>q. queue_target q = (na_clientId a, na_coalesceKey a)) (db_queue d) = []"
    by (force simp: filter_empty_conv)
  then show ?thesis using new by simp
next
  case (coalesced us old vs)
  have "distinct (map q_id (db_queue d))" "distinct (map queue_target (db_queue d))"
    using assms(1) by (simp_all add: db_ok_def queue_ok_def)
  then have rest: "queue_target q \<noteq> (na_clientId a, na_coalesceKey a) \<and> q_id q \<noteq> q_id old" if "q \<in> set us \<union> set vs" for q
    using that coalesced(2) unfolding coalesced(1) by (auto simp: image_iff)
  then have "update_where (\<lambda>q. q_id q = q_id old) (\<lambda>_. row) (db_queue d) = us @ row # vs"
    unfolding coalesced(1) update_where_def by (auto intro!: map_idI)
  then have queue: "db_queue d' = us @ row # vs" using coalesced(3) by simp
  have "filter (\<lambda>q. queue_target q = (na_clientId a, na_coalesceKey a)) us = []"
    "filter (\<lambda>q. queue_target q = (na_clientId a, na_coalesceKey a)) vs = []"
    using rest by (auto simp: filter_empty_conv)
  then show ?thesis using coalesced unfolding queue coalesced(1) by simp
qed

definition replay_edit :: new_action where
  "replay_edit = \<lparr>na_clientId = 1, na_coalesceKey = ''user:2'', na_kind = ''policy.push'', na_payload = JStr ''newer''\<rparr>"

lemma enqueue_coalesces_witness:
  "\<exists>d' row. enqueue 0 one_client_db replay_edit = Inr (d', row)
     \<and> map q_id (db_queue d') = [1, 2, 3] \<and> q_payload row = JStr ''newer''"
proof -
  have ok: "db_ok one_client_db" unfolding one_client_db_def by (rule run_db_ok)
  obtain d' row where e: "enqueue 0 one_client_db replay_edit = Inr (d', row)"
    by (simp add: one_client_db_def queue_run_simps replay_edit_def)
  have "map q_id (db_queue one_client_db) = [1, 2, 3]"
    "(na_clientId replay_edit, na_coalesceKey replay_edit) \<in> queue_target ` set (db_queue one_client_db)"
    by (simp_all add: one_client_db_def queue_run_simps queue_target_def replay_edit_def)
  then show ?thesis using enqueue_coalesces [OF ok e] e by (simp add: replay_edit_def)
qed

section \<open>Pushing offline, replaying online\<close>

text \<open>
  What a client's queue holds, abstractly: a map from target keys to desired states, in the order the
  keys first appeared. Queueing is an update of that map.
\<close>

type_synonym desired = "(string \<times> string \<times> json) list"

definition desired_of :: "db \<Rightarrow> desired" where
  "desired_of d = map (\<lambda>q. (q_coalesceKey q, q_kind q, q_payload q)) (db_queue d)"

definition want :: "desired \<Rightarrow> new_action \<Rightarrow> desired" where
  "want m a = AList.update (na_coalesceKey a) (na_kind a, na_payload a) m"

definition only_pending :: "int \<Rightarrow> db \<Rightarrow> bool" where
  "only_pending c d \<longleftrightarrow>
     (\<forall>q \<in> set (db_queue d). q_clientId q = c \<and> q_status q = Q_Pending) \<and> sorted (map q_id (db_queue d))"

lemma update_present:
  "k \<notin> fst ` set us \<Longrightarrow> AList.update k v (us @ (k, v') # vs) = us @ (k, v) # vs"
  by (induction us) auto

lemma enqueue_wants:
  assumes "db_ok d" "only_pending c d" "na_clientId a = c" "enqueue now d a = Inr (d', row)"
  shows "desired_of d' = want (desired_of d) a \<and> only_pending c d' \<and> db_ok d' \<and> db_clients d' = db_clients d"
proof -
  have ok: "db_ok d'" using enqueue_ok [OF assms(1), of now a] assms(4) by simp
  from assms(4) show ?thesis
  proof (cases rule: enqueue_cases)
    case new
    have "na_coalesceKey a \<notin> fst ` set (desired_of d)"
      using new(1) assms(2,3) by (force simp: desired_of_def only_pending_def queue_target_def)
    then have "desired_of d' = want (desired_of d) a"
      using new by (simp add: want_def update_absent desired_of_def queue_target_def)
    moreover have "sorted (map q_id (db_queue d'))"
      using new assms(1,2) by (fastforce simp: only_pending_def sorted_append db_ok_def queue_ok_def)
    then have "only_pending c d'" using new assms(2,3) by (auto simp: only_pending_def queue_target_def)
    ultimately show ?thesis using ok new(2) by simp
  next
    case (coalesced us old vs)
    have "distinct (map q_id (db_queue d))" "distinct (map queue_target (db_queue d))"
      using assms(1) by (simp_all add: db_ok_def queue_ok_def)
    then have rest: "queue_target q \<noteq> (na_clientId a, na_coalesceKey a) \<and> q_id q \<noteq> q_id old" if "q \<in> set us \<union> set vs" for q
      using that coalesced(2) unfolding coalesced(1) by (auto simp: image_iff)
    then have "update_where (\<lambda>q. q_id q = q_id old) (\<lambda>_. row) (db_queue d) = us @ row # vs"
      unfolding coalesced(1) update_where_def by (auto intro!: map_idI)
    then have queue: "db_queue d' = us @ row # vs" and clients: "db_clients d' = db_clients d" using coalesced(3) by simp_all
    have key: "q_clientId row = c" "q_coalesceKey row = na_coalesceKey a" "q_coalesceKey old = na_coalesceKey a"
      using coalesced(2,5) assms(3) by (simp_all add: queue_target_def)
    have "\<forall>q \<in> set us. q_clientId q = c" using assms(2) unfolding only_pending_def coalesced(1) by simp
    then have "\<forall>q \<in> set us. na_coalesceKey a \<noteq> q_coalesceKey q" using rest assms(3) by (fastforce simp: queue_target_def)
    then have "na_coalesceKey a \<notin> fst ` set (map (\<lambda>q. (q_coalesceKey q, q_kind q, q_payload q)) us)"
      unfolding set_map image_image fst_conv by blast
    then have "desired_of d' = want (desired_of d) a"
      by (simp add: desired_of_def want_def queue coalesced(1,7,8) key update_present)
    moreover have "map q_id (db_queue d') = map q_id (db_queue d)" using coalesced(4) by (simp add: queue coalesced(1))
    then have "only_pending c d'" using assms(2) coalesced(6) key(1) unfolding only_pending_def queue coalesced(1) by auto
    ultimately show ?thesis using ok clients by simp
  qed
qed

text \<open>An outside world that logs what is executed: the host down, and the host up.\<close>

definition host_down :: "queued_action \<Rightarrow> 'w \<Rightarrow> (rejection + unit) \<times> 'w" where
  "host_down a w = (Inl \<lparr>rej_retriable = True, rej_message = ''unreachable''\<rparr>, w)"

definition host_up :: "queued_action \<Rightarrow> queued_action list \<Rightarrow> (rejection + unit) \<times> queued_action list" where
  "host_up a log = (Inr (), log @ [a])"

definition push_all :: "('w \<Rightarrow> instant) \<Rightarrow> 'w executor \<Rightarrow> new_action list \<Rightarrow> 'w world \<Rightarrow> 'w world" where
  "push_all clock executor as s = foldl (\<lambda>s a. snd (pushOrEnqueue clock executor a s)) s as"

lemma push_down:
  assumes "getClient d (na_clientId a) \<noteq> None"
  obtains d' row where "enqueue (clock w) d a = Inr (d', row)" "snd (pushOrEnqueue clock (remote host_down) a (d, w)) = (d', w)"
proof -
  obtain d' row where e: "enqueue (clock w) d a = Inr (d', row)"
    using assms by (cases "enqueue (clock w) d a") (auto simp: enqueue_def Let_def split: option.splits if_splits)
  have "snd (pushOrEnqueue clock (remote host_down) a (d, w)) = (d', w)"
    by (simp add: pushOrEnqueue_def remote_def host_down_def isRetriable_def e)
  with e that show ?thesis by blast
qed

lemma push_all_down:
  assumes "db_ok d" "only_pending c d" "getClient d c \<noteq> None" "\<forall>a \<in> set as. na_clientId a = c"
  shows "\<exists>d'. push_all clock (remote host_down) as (d, w) = (d', w) \<and> desired_of d' = foldl want (desired_of d) as
    \<and> only_pending c d' \<and> db_ok d'"
  using assms
proof (induction as arbitrary: d)
  case (Cons a as)
  have c: "na_clientId a = c" using Cons.prems(4) by simp
  then obtain d1 row where e: "enqueue (clock w) d a = Inr (d1, row)"
    "snd (pushOrEnqueue clock (remote host_down) a (d, w)) = (d1, w)"
    using Cons.prems(3) by (metis push_down)
  note w = enqueue_wants [OF Cons.prems(1,2) c e(1)]
  have "getClient d1 c \<noteq> None" using w Cons.prems(3) by (simp add: getClient_def)
  with Cons.IH [of d1] w Cons.prems(4) show ?case by (simp add: push_all_def e(2))
qed (simp add: push_all_def)

lemma attempts_up:
  "attempts clock host_up rows log = (map (\<lambda>q. (q_id q, Done)) rows, log @ map toAction rows)"
  by (induction rows arbitrary: log) (simp_all add: host_up_def)

lemma queue_settle_done: "db_queue (tq.settle d (i, Done)) = filter (\<lambda>q. q_id q \<noteq> i) (db_queue d)"
  unfolding tq.settle_def by (simp add: markDrained_def)

lemma queue_settle_all_done:
  "db_queue (foldl tq.settle d (map (\<lambda>i. (i, Done)) is)) = filter (\<lambda>q. q_id q \<notin> set is) (db_queue d)"
  by (induction "is" rule: rev_induct) (auto simp: queue_settle_done intro!: filter_cong)

text \<open>
  Pushes to a client that is down, however many and in whatever order, and then one drain once it is
  up: the executor receives for each target the last desired state only, in the order the targets
  first appeared, and the queue is empty afterwards.
\<close>

theorem offline_replay_latest:
  assumes "db_ok d" "db_queue d = []" "getClient d c \<noteq> None" "\<forall>a \<in> set as. na_clientId a = c"
    "push_all (\<lambda>_. now) (remote host_down) as (d, []) = s1"
    "drainClient (\<lambda>_. now) (remote host_up) c s1 = (summary, d2, log)"
  shows "map (\<lambda>a. (qa_coalesceKey a, qa_kind a, qa_payload a)) log = foldl want [] as
    \<and> db_queue d2 = [] \<and> ds_failed summary = 0 \<and> ds_deferred summary = 0"
proof -
  have "only_pending c d" "desired_of d = []" using assms(2) by (simp_all add: only_pending_def desired_of_def)
  then obtain d1 where d1: "s1 = (d1, [])" "desired_of d1 = foldl want [] as" "only_pending c d1" "db_ok d1"
    using push_all_down [OF assms(1) _ assms(3,4), of "\<lambda>_. now" "[]"] assms(5) by auto
  have all: "listPendingForClient d1 c = db_queue d1"
    using d1(3) unfolding listPendingForClient_def only_pending_def by (simp add: filter_True sort_key_id_if_sorted)
  let ?os = "map (\<lambda>q. (q_id q, Done :: (instant \<times> string) verdict)) (db_queue d1)"
  have counts: "length (filter is_done ?os) = length (db_queue d1)" "length (filter is_bury ?os) = 0"
    by (simp_all add: is_done_def is_bury_def filter_map comp_def)
  have run: "drainClient (\<lambda>_. now) (remote host_up) c s1 =
      (\<lparr>ds_drained = int (length (db_queue d1)), ds_failed = 0, ds_deferred = 0\<rparr>, foldl tq.settle d1 ?os, map toAction (db_queue d1))"
    unfolding drainClient_def d1(1) fst_conv all drain_rows_attempts [OF attempts_up] counts by simp
  have os: "?os = map (\<lambda>i. (i, Done)) (map q_id (db_queue d1))" by simp
  have "db_queue (foldl tq.settle d1 ?os) = []" unfolding os queue_settle_all_done by (simp add: filter_empty_conv)
  then have "db_queue d2 = []" using assms(6) run by simp
  moreover have "map (\<lambda>a. (qa_coalesceKey a, qa_kind a, qa_payload a)) log = foldl want [] as"
  proof -
    have "log = map toAction (db_queue d1)" using assms(6) run by simp
    then show ?thesis using d1(2) by (simp add: desired_of_def toAction_def comp_def)
  qed
  moreover have "summary = \<lparr>ds_drained = int (length (db_queue d1)), ds_failed = 0, ds_deferred = 0\<rparr>"
    using assms(6) run by simp
  ultimately show ?thesis by simp
qed

definition enrolled_db :: db where
  "enrolled_db = run_db
     [Create_Client \<lparr>cc_hostname = ''kids-pc'', cc_sshUser = ''pct-agent'', cc_friendlyName = None\<rparr>]"

definition user_push :: "string \<Rightarrow> string \<Rightarrow> new_action" where
  "user_push key payload = \<lparr>na_clientId = 1, na_coalesceKey = key, na_kind = ''policy.push'', na_payload = JStr payload\<rparr>"

lemma offline_replay_latest_witness:
  "map qa_payload (snd (snd (drainClient (\<lambda>_. 0) (remote host_up) 1
     (push_all (\<lambda>_. 0) (remote host_down) [user_push ''user:1'' ''a'', user_push ''user:2'' ''b'', user_push ''user:1'' ''c'']
       (enrolled_db, []))))) = [JStr ''c'', JStr ''b'']"
proof -
  let ?as = "[user_push ''user:1'' ''a'', user_push ''user:2'' ''b'', user_push ''user:1'' ''c'']"
  have ok: "db_ok enrolled_db" unfolding enrolled_db_def by (rule run_db_ok)
  have d: "db_queue enrolled_db = []" "getClient enrolled_db 1 \<noteq> None" "\<forall>a \<in> set ?as. na_clientId a = 1"
    by (simp_all add: enrolled_db_def queue_run_simps user_push_def)
  obtain summary d2 log where r: "drainClient (\<lambda>_. 0) (remote host_up) 1
      (push_all (\<lambda>_. 0) (remote host_down) ?as (enrolled_db, [])) = (summary, d2, log)"
    by (metis prod.collapse)
  have "map (\<lambda>a. (qa_coalesceKey a, qa_kind a, qa_payload a)) log
      = [(''user:1'', ''policy.push'', JStr ''c''), (''user:2'', ''policy.push'', JStr ''b'')]"
    using offline_replay_latest [OF ok d refl r] by (simp add: want_def user_push_def)
  then have "map (\<lambda>x. snd (snd x)) (map (\<lambda>a. (qa_coalesceKey a, qa_kind a, qa_payload a)) log) = [JStr ''c'', JStr ''b'']"
    by simp
  then have "map qa_payload log = [JStr ''c'', JStr ''b'']" by (simp only: map_map comp_def snd_conv)
  with r show ?thesis by simp
qed

section \<open>A race of the replay loop\<close>

text \<open>
  The executor is awaited, and another task may queue a newer action for the target being replayed.
\<close>

definition raced ::
    "instant \<Rightarrow> new_action \<Rightarrow> (queued_action \<Rightarrow> 'w \<Rightarrow> (rejection + unit) \<times> 'w) \<Rightarrow> 'w executor" where
  "raced now newer f a s =
     (case f a (snd s) of (r, w) \<Rightarrow>
       (r, if qa_clientId a = na_clientId newer \<and> qa_coalesceKey a = na_coalesceKey newer
           then committed (fst s) (enqueue now (fst s) newer) else fst s, w))"

lemma attempted_once:
  assumes "attempts clock f rows w = (os, w')" "distinct (map q_id rows)"
  shows "distinct (map fst os)"
  using attempts_prefix [OF assms(1)] assms(2) by auto

text \<open>The database holds one row of the target, the row \<open>i\<close>.\<close>

definition one_row :: "new_action \<Rightarrow> int \<Rightarrow> db \<Rightarrow> bool" where
  "one_row newer i d \<longleftrightarrow> getClient d (na_clientId newer) \<noteq> None
     \<and> (\<exists>q \<in> set (db_queue d). same_target (na_clientId newer) (na_coalesceKey newer) q)
     \<and> (\<forall>q \<in> set (db_queue d). same_target (na_clientId newer) (na_coalesceKey newer) q \<longrightarrow> q_id q = i)"

lemma filter_updated: "(\<And>q. key (f q) = i) \<Longrightarrow>
    filter (\<lambda>q. key q \<noteq> i) (update_where (\<lambda>q. key q = i) f qs) = filter (\<lambda>q. key q \<noteq> i) qs"
  by (induction qs) (auto simp: update_where_def)

lemma enqueued_then_drained:
  assumes "one_row newer i d"
  shows "fst (markDrained (committed d (enqueue now d newer)) i) = fst (markDrained d i)"
proof -
  obtain old where old: "List.find (same_target (na_clientId newer) (na_coalesceKey newer)) (db_queue d) = Some old"
    using assms by (cases "List.find (same_target (na_clientId newer) (na_coalesceKey newer)) (db_queue d)")
      (auto simp: one_row_def find_None_set)
  from find_in_set [OF old] have "q_id old = i" using assms by (auto simp: one_row_def)
  then show ?thesis using assms old by (auto simp: one_row_def enqueue_def Let_def markDrained_def filter_updated)
qed

lemma settle_verdicts:
  "tq.settle d (i, Done) = fst (markDrained d i)"
  "tq.settle d (i, Retry e) = fst (recordAttempt (fst e) d i (snd e))"
  "tq.settle d (i, Bury e) = fst (markFailed (fst e) d i (snd e))"
  unfolding tq.settle_def by simp_all

text \<open>Settling an attempt keeps the client, the other rows, and the keys and targets of all rows; success removes the row.\<close>

lemma settle_client: "getClient (tq.settle d (j, v)) c = getClient d c"
  unfolding getClient_def
  by (cases v; simp only: settle_verdicts)
    (simp_all add: markDrained_def recordAttempt_def markFailed_def set_queued_def Let_def)

lemma settle_rows:
  "q \<in> set (db_queue (tq.settle d (j, v))) \<Longrightarrow>
     \<exists>q0 \<in> set (db_queue d). q_id q0 = q_id q \<and> queue_target q0 = queue_target q \<and> (v = Done \<longrightarrow> q_id q \<noteq> j)"
  by (cases v; simp only: settle_verdicts)
    (auto simp: markDrained_def recordAttempt_def markFailed_def set_queued_def Let_def update_where_def queue_target_def)

lemma settle_others: "q \<in> set (db_queue d) \<Longrightarrow> q_id q \<noteq> j \<Longrightarrow> q \<in> set (db_queue (tq.settle d (j, v)))"
  by (cases v; simp only: settle_verdicts)
    (auto simp: markDrained_def recordAttempt_def markFailed_def set_queued_def Let_def update_where_def image_iff)

lemma same_target_key: "same_target c k q \<longleftrightarrow> queue_target q = (c, k)"
  by (auto simp: same_target_def queue_target_def)

lemma one_row_settle:
  assumes "one_row newer i d" "j \<noteq> i"
  shows "one_row newer i (tq.settle d (j, v))"
proof -
  obtain q where q: "q \<in> set (db_queue d)" "same_target (na_clientId newer) (na_coalesceKey newer) q" "q_id q = i"
    using assms(1) by (auto simp: one_row_def)
  have "q_id q' = i" if q': "q' \<in> set (db_queue (tq.settle d (j, v)))"
      "same_target (na_clientId newer) (na_coalesceKey newer) q'" for q'
    using settle_rows [OF q'(1)] q'(2) assms(1) by (auto simp: one_row_def same_target_key)
  moreover have "q \<in> set (db_queue (tq.settle d (j, v)))" using q assms(2) by (intro settle_others) simp_all
  ultimately show ?thesis using assms(1) q(2) unfolding one_row_def settle_client by blast
qed

lemma raced_other:
  assumes "\<not> same_target (na_clientId newer) (na_coalesceKey newer) row"
  shows "raced now newer f (toAction row) s = remote f (toAction row) s"
  using assms by (auto simp: raced_def remote_def same_target_def toAction_def split: prod.split)

lemma raced_rows:
  assumes "attempts clock f rows w = (os, w')" "distinct (map q_id rows)"
    and "\<forall>q \<in> set rows. same_target (na_clientId newer) (na_coalesceKey newer) q \<longleftrightarrow> q_id q = i"
    and "\<forall>v. (i, v) \<in> set os \<longrightarrow> v = Done" "i \<in> q_id ` set rows \<longrightarrow> one_row newer i d"
  shows "drain_rows clock (raced now newer f) rows a b (d, w) = drain_rows clock (remote f) rows a b (d, w)"
  using assms
proof (induction rows arbitrary: w os a b d)
  case (Cons row rows)
  obtain out w1 where out: "f (toAction row) w = (out, w1)" by fastforce
  have rest: "\<forall>q \<in> set rows. same_target (na_clientId newer) (na_coalesceKey newer) q \<longleftrightarrow> q_id q = i"
    "distinct (map q_id rows)" using Cons.prems by simp_all
  show ?case
  proof (cases "q_id row = i")
    case True
    obtain v os2 where "os = (i, v) # os2"
      using Cons.prems(1) out True by (cases out) (auto split: if_splits prod.splits)
    with Cons.prems(4) have "v = Done" by simp
    with \<open>os = (i, v) # os2\<close> obtain w2 where ok: "out = Inr ()" "attempts clock f rows w1 = (os2, w2)" "w2 = w'"
      using Cons.prems(1) out True by (cases out) (auto split: if_splits prod.splits)
    have "i \<notin> q_id ` set rows" using Cons.prems(2) True by auto
    moreover have "fst (markDrained (committed d (enqueue now d newer)) i) = fst (markDrained d i)"
      using Cons.prems(5) True by (intro enqueued_then_drained) auto
    moreover have "\<forall>v. (i, v) \<in> set os2 \<longrightarrow> v = Done" using Cons.prems(4) \<open>os = (i, v) # os2\<close> by simp
    moreover have "qa_clientId (toAction row) = na_clientId newer" "qa_coalesceKey (toAction row) = na_coalesceKey newer"
      using Cons.prems(3) True by (simp_all add: same_target_def toAction_def)
    moreover have "raced now newer f (toAction row) (d, w) = (Inr (), committed d (enqueue now d newer), w1)"
      "remote f (toAction row) (d, w) = (Inr (), d, w1)"
      using calculation(4,5) by (simp_all add: raced_def remote_def out ok(1))
    ultimately show ?thesis
      using Cons.IH [OF ok(2)[unfolded ok(3)] rest(2,1), of "fst (markDrained d i)"] by (simp add: True)
  next
    case False
    then have same: "raced now newer f (toAction row) (d, w) = remote f (toAction row) (d, w)"
      using Cons.prems(3) by (intro raced_other) simp
    have keep: "i \<in> q_id ` set rows \<longrightarrow> one_row newer i (tq.settle d (q_id row, v))" for v
      using Cons.prems(5) False by (auto intro: one_row_settle)
    show ?thesis
    proof (cases "\<exists>e. out = Inl e \<and> isRetriable e")
      case True
      moreover have "remote f (toAction row) (d, w) = (out, d, w1)" by (simp add: remote_def out)
      ultimately show ?thesis using same by auto
    next
      case go: False
      obtain os2 w2 where rec: "attempts clock f rows w1 = (os2, w2)" by fastforce
      have "w2 = w'" "set os2 \<subseteq> set os" using Cons.prems(1) out rec go by (cases out; auto)+
      then have "\<forall>v. (i, v) \<in> set os2 \<longrightarrow> v = Done" using Cons.prems(4) by blast
      from Cons.IH [OF rec [unfolded \<open>w2 = w'\<close>] rest(2,1) this keep]
      have "drain_rows clock (raced now newer f) rows a b (tq.settle d (q_id row, v), w1)
          = drain_rows clock (remote f) rows a b (tq.settle d (q_id row, v), w1)" for a b v .
      note next_row = this [where v = Done] this [where v = "Bury e" for e]
      have "remote f (toAction row) (d, w) = (out, d, w1)" by (simp add: remote_def out)
      then show ?thesis using go same next_row unfolding settle_verdicts by (cases out) auto
    qed
  qed
qed simp

lemma settled_targets:
  "q \<in> set (db_queue (foldl tq.settle d os)) \<Longrightarrow>
     (\<exists>q0 \<in> set (db_queue d). q_id q0 = q_id q \<and> queue_target q0 = queue_target q) \<and> (q_id q, Done) \<notin> set os"
proof (induction os arbitrary: q rule: rev_induct)
  case (snoc o1 os)
  obtain j v where o1: "o1 = (j, v)" by fastforce
  have "q \<in> set (db_queue (tq.settle (foldl tq.settle d os) (j, v)))" using snoc.prems by (simp only: o1 foldl_append foldl.simps)
  from settle_rows [OF this]
  obtain q1 where "q1 \<in> set (db_queue (foldl tq.settle d os))" "q_id q1 = q_id q" "queue_target q1 = queue_target q"
    "v = Done \<longrightarrow> q_id q \<noteq> j" by blast
  with snoc.IH [of q1] show ?case by (auto simp: o1)
qed auto

text \<open>
  C22 A newer action for a target that is queued while the older action of that target is being executed with
  success leaves no trace: whatever the other rows do, the drain ends in the same database, the same outside
  world and the same counts as if the newer action had never been queued, and no row of the target is left. The
  newer payload coalesces onto the row in flight, which is then removed as drained.
\<close>

theorem drain_drops_newer_action:
  assumes "db_ok d" "row \<in> set (listPendingForClient d c)" "na_clientId newer = c" "na_coalesceKey newer = q_coalesceKey row"
    and "attempts clock f (listPendingForClient d c) w = (os, w')" "(q_id row, Done) \<in> set os"
  shows "drainClient clock (raced now newer f) c (d, w) = drainClient clock (remote f) c (d, w)
    \<and> snd (snd (drainClient clock (raced now newer f) c (d, w))) = w'
    \<and> \<not> (\<exists>q \<in> set (db_queue (fst (snd (drainClient clock (raced now newer f) c (d, w))))).
          same_target c (na_coalesceKey newer) q)"
proof -
  have ids: "distinct (map q_id (db_queue d))" "distinct (map queue_target (db_queue d))"
    and ref: "q_clientId ` set (db_queue d) \<subseteq> client_id ` set (db_clients d)"
    using assms(1) by (simp_all add: db_ok_def queue_ok_def)
  have row: "row \<in> set (db_queue d)" "q_clientId row = c" using assms(2) by (auto simp: listPendingForClient_def)
  have same: "same_target c (na_coalesceKey newer) q \<longleftrightarrow> q_id q = q_id row" if "q \<in> set (db_queue d)" for q
  proof -
    have "q_id q = q_id row \<longleftrightarrow> q = row" using that row(1) ids(1) by (auto simp: distinct_map dest: inj_onD)
    moreover have "queue_target q = queue_target row \<longleftrightarrow> q = row" using that row(1) ids(2) by (auto simp: distinct_map dest: inj_onD)
    ultimately show ?thesis using assms(4) row(2) by (auto simp: same_target_def queue_target_def)
  qed
  have one: "one_row newer (q_id row) d"
    using row ref same assms(3) by (auto simp: one_row_def getClient_None)
  have pending: "set (listPendingForClient d c) \<subseteq> set (db_queue d)" "distinct (map q_id (listPendingForClient d c))"
    using ids(1) by (auto simp: listPendingForClient_def distinct_map intro: inj_on_subset)
  have once: "\<forall>v. (q_id row, v) \<in> set os \<longrightarrow> v = Done"
    using eq_key_imp_eq_value [OF attempted_once [OF assms(5) pending(2)] _ assms(6)] by blast
  have "\<forall>q \<in> set (listPendingForClient d c). same_target (na_clientId newer) (na_coalesceKey newer) q \<longleftrightarrow> q_id q = q_id row"
    using same pending(1) assms(3) by auto
  note raced_rows [OF assms(5) pending(2) this once, of d now 0 0]
  with one have drained: "drainClient clock (raced now newer f) c (d, w) = drainClient clock (remote f) c (d, w)"
    by (simp add: drainClient_def)
  have state: "snd (drainClient clock (remote f) c (d, w)) = (foldl tq.settle d os, w')"
    using drain_rows_attempts [OF assms(5), of 0 0 d] by (simp add: drainClient_def)
  have "\<not> same_target c (na_coalesceKey newer) q" if "q \<in> set (db_queue (foldl tq.settle d os))" for q
    using settled_targets [OF that] assms(6) same by (force simp: same_target_def queue_target_def)
  then show ?thesis unfolding drained state by auto
qed

lemma drain_drops_newer_action_witness:
  "drainClient (\<lambda>_. 0) (raced 0 (user_push ''user:1'' ''newer'') host_up) 1
      (committed enrolled_db (enqueue 0 enrolled_db (user_push ''user:1'' ''older'')), [])
    = drainClient (\<lambda>_. 0) (remote host_up) 1 (committed enrolled_db (enqueue 0 enrolled_db (user_push ''user:1'' ''older'')), [])"
proof -
  let ?d = "committed enrolled_db (enqueue 0 enrolled_db (user_push ''user:1'' ''older''))"
  have ok: "db_ok ?d" unfolding enrolled_db_def by (rule enqueue_ok [OF run_db_ok])
  have row: "\<exists>row. listPendingForClient ?d 1 = [row] \<and> q_coalesceKey row = ''user:1''"
    by (simp add: enrolled_db_def queue_run_simps user_push_def)
  then obtain row where row: "listPendingForClient ?d 1 = [row]" "q_coalesceKey row = ''user:1''" by blast
  note run = attempts_up [of "\<lambda>_. 0" "listPendingForClient ?d 1" "[]"]
  show ?thesis
    using drain_drops_newer_action [OF ok _ _ _ run, where row = row and newer = "user_push ''user:1'' ''newer''" and now = 0] row
    by (simp add: user_push_def)
qed

end
