(* ===== verification/Group_Resolution.thy ===== *)
theory Group_Resolution
  imports Policy_Store "HOL-Library.List_Lexorder" "HOL-Library.Char_ord"
begin

text \<open>
  \<open>policy/group-resolution.ts\<close> and \<open>policy/domain-denies.ts\<close>: a user's own rules, budgets and
  exceptions merged with those of the groups the user belongs to, and the domains a user is always
  denied. A gathered row is the row with its source. The lemmas give the precedence contract: own
  rules come first, and a budget slot is sourced from one place only.
\<close>

section \<open>Gathered rows\<close>

datatype rule_source = From_User | From_Group int

type_synonym gathered_rule = "schedule_rule \<times> rule_source"
type_synonym gathered_budget = "budget_input \<times> rule_source"

definition pickScheduleRuleFields :: "schedule_rule \<Rightarrow> schedule_rule" where
  "pickScheduleRuleFields r =
     \<lparr>sr_id = sr_id r, sr_ordinal = sr_ordinal r, sr_targetKind = sr_targetKind r, sr_targetId = sr_targetId r,
      sr_recurrenceDays = sr_recurrenceDays r, sr_recurrenceStartMinute = sr_recurrenceStartMinute r,
      sr_recurrenceEndMinute = sr_recurrenceEndMinute r, sr_effectiveFrom = sr_effectiveFrom r,
      sr_effectiveTo = sr_effectiveTo r, sr_action = sr_action r\<rparr>"

definition resequence :: "gathered_rule list \<Rightarrow> gathered_rule list" where
  "resequence gs = map2 (\<lambda>g index. ((fst g)\<lparr>sr_ordinal := index\<rparr>, snd g)) gs (map int [0..<length gs])"

definition mergeScheduleRulesWithGroups :: "store \<Rightarrow> int \<Rightarrow> schedule_rule list \<Rightarrow> gathered_rule list" where
  "mergeScheduleRulesWithGroups st userId ownRules =
     (let own = sort_key (\<lambda>g. rule_rank (fst g)) (map (\<lambda>r. (pickScheduleRuleFields r, From_User)) ownRules);
          inherited = concat (map (\<lambda>g. map (\<lambda>r. (pickScheduleRuleFields r, From_Group (fst g)))
                        (listGroupSchedules st (fst g))) (listUserGroupsForUser st userId))
      in resequence (own @ inherited))"

definition gatherUserScheduleRules :: "store \<Rightarrow> int \<Rightarrow> gathered_rule list" where
  "gatherUserScheduleRules st userId = mergeScheduleRulesWithGroups st userId (listUserSchedules st userId)"

section \<open>Budgets\<close>

type_synonym budget_merge = "gathered_budget list \<times> string list"

definition inherit_row :: "rule_source \<Rightarrow> string list \<Rightarrow> budget_merge \<Rightarrow> budget_input \<Rightarrow> budget_merge" where
  "inherit_row src covered acc row =
     (case acc of (result, groupSlots) \<Rightarrow>
        if budgetSlotKey row \<in> set covered then (result, groupSlots)
        else (result @ [(row, src)], js_set_add (budgetSlotKey row) groupSlots))"

definition inherit_group :: "store \<Rightarrow> budget_merge \<Rightarrow> int \<times> string \<Rightarrow> budget_merge" where
  "inherit_group st acc g =
     (case acc of (result, covered) \<Rightarrow>
        case foldl (inherit_row (From_Group (fst g)) covered) (result, []) (listGroupBudgets st (fst g)) of
          (result', groupSlots) \<Rightarrow> (result', fold js_set_add groupSlots covered))"

definition own_budget :: "budget_merge \<Rightarrow> budget_input \<Rightarrow> budget_merge" where
  "own_budget acc row =
     (case acc of (result, covered) \<Rightarrow> (result @ [(row, From_User)], js_set_add (budgetSlotKey row) covered))"

definition mergeBudgetsWithGroups :: "store \<Rightarrow> int \<Rightarrow> budget_input list \<Rightarrow> gathered_budget list" where
  "mergeBudgetsWithGroups st userId ownBudgets =
     fst (foldl (inherit_group st) (foldl own_budget ([], []) ownBudgets) (listUserGroupsForUser st userId))"

definition gatherUserBudgets :: "store \<Rightarrow> int \<Rightarrow> gathered_budget list" where
  "gatherUserBudgets st userId = mergeBudgetsWithGroups st userId (listUserBudgets st userId)"

section \<open>Exceptions\<close>

definition pickExceptionFields :: "exception_input \<Rightarrow> exception_input" where
  "pickExceptionFields x =
     \<lparr>xi_id = xi_id x, xi_targetKind = xi_targetKind x, xi_targetId = xi_targetId x, xi_action = xi_action x,
      xi_effectiveFrom = xi_effectiveFrom x, xi_expiresAt = xi_expiresAt x, xi_createdAt = xi_createdAt x\<rparr>"

definition newestFirst :: "exception_input \<Rightarrow> int \<times> int" where
  "newestFirst x = (- xi_createdAt x, - xi_id x)"

definition gatherUserExceptions :: "store \<Rightarrow> int \<Rightarrow> exception_input list" where
  "gatherUserExceptions st userId =
     sort_key newestFirst (map pickExceptionFields (listUserExceptions st userId))
     @ concat (map (\<lambda>g. sort_key newestFirst (map pickExceptionFields (listGroupExceptions st (fst g))))
         (listUserGroupsForUser st userId))"

section \<open>Always-on domain denials\<close>

definition isAlwaysOnRule :: "schedule_rule \<Rightarrow> bool" where
  "isAlwaysOnRule r \<longleftrightarrow>
     sr_recurrenceDays r = None \<and> sr_recurrenceStartMinute r = None \<and> sr_recurrenceEndMinute r = None
     \<and> sr_effectiveFrom r = None \<and> sr_effectiveTo r = None"

definition domainsForDenyRule :: "store \<Rightarrow> schedule_rule \<Rightarrow> string list" where
  "domainsForDenyRule st r =
     (case sr_targetId r of
        None \<Rightarrow> []
      | Some target \<Rightarrow>
          case sr_targetKind r of
            Activity \<Rightarrow>
              (case getActivity st target of
                 None \<Rightarrow> []
               | Some a \<Rightarrow> if act_kind a = Domain_Kind then [act_matcher a] else [])
          | Group \<Rightarrow> map act_matcher (filter (\<lambda>a. act_kind a = Domain_Kind) (listGroupActivities st target))
          | Overall \<Rightarrow> [])"

definition resolveAlwaysOnDomainDenies :: "store \<Rightarrow> int \<Rightarrow> string list" where
  "resolveAlwaysOnDomainDenies st userId =
     sort (fold js_set_add
       (concat (map (\<lambda>g. domainsForDenyRule st (fst g))
          (filter (\<lambda>g. sr_action (fst g) = Deny \<and> isAlwaysOnRule (fst g)) (gatherUserScheduleRules st userId)))) [])"

section \<open>Lemmas on the merge of rules\<close>

lemma pickScheduleRuleFields_id [simp]: "pickScheduleRuleFields r = r"
  by (simp add: pickScheduleRuleFields_def)

lemma pickExceptionFields_id [simp]: "pickExceptionFields x = x"
  by (simp add: pickExceptionFields_def)

lemma resequence_ordinals: "map (sr_ordinal \<circ> fst) (resequence gs) = map int [0..<length gs]"
  by (rule nth_equalityI) (simp_all add: resequence_def)

lemma resequence_sources: "map snd (resequence gs) = map snd gs"
  by (rule nth_equalityI) (simp_all add: resequence_def)

lemma resequence_order: "byOrdinal (map fst (resequence gs)) = map fst (resequence gs)"
proof (intro byOrdinal_id sorted_ranks_of_ordinals)
  have "map sr_ordinal (map fst (resequence gs)) = map int [0..<length gs]"
    using resequence_ordinals [of gs] by simp
  then show "sorted (map sr_ordinal (map fst (resequence gs)))" "distinct (map sr_ordinal (map fst (resequence gs)))"
    by (simp_all add: distinct_map_int_upt sorted_map_int_upt)
qed

lemma find_renumbered:
  assumes "\<And>r n. act (r\<lparr>sr_ordinal := n\<rparr>) = act r" "length ks = length gs"
  shows "map_option sr_action (List.find act (map2 (\<lambda>g k. (fst g)\<lparr>sr_ordinal := k\<rparr>) gs ks))
    = map_option sr_action (List.find act (map fst gs))"
  using assms(2) by (induction gs ks rule: list_induct2') (auto simp: assms(1))

lemma insort_key_map_pair:
  "insort_key (\<lambda>g. f (fst g)) (x, c) (map (\<lambda>r. (r, c)) xs) = map (\<lambda>r. (r, c)) (insort_key f x xs)"
  by (induction xs) simp_all

lemma sort_key_map_pair:
  "sort_key (\<lambda>g. f (fst g)) (map (\<lambda>r. (r, c)) xs) = map (\<lambda>r. (r, c)) (sort_key f xs)"
  by (induction xs) (simp_all add: sort_key_simps insort_key_map_pair)

lemma merged_rules_list:
  "map fst (sort_key (\<lambda>g. rule_rank (fst g)) (map (\<lambda>r. (r, From_User)) own)) = byOrdinal own"
  by (simp add: sort_key_map_pair byOrdinal_def comp_def)

section \<open>Lemmas on the merge of budgets\<close>

definition tag_rows :: "rule_source \<Rightarrow> budget_input list \<Rightarrow> gathered_budget list" where
  "tag_rows src rows = map (\<lambda>b. (b, src)) rows"

lemma tag_rows_empty [simp]: "tag_rows src rows = [] \<longleftrightarrow> rows = []" "tag_rows src [] = []"
  by (simp_all add: tag_rows_def)

lemma own_budgets_fold:
  "foldl own_budget (result, covered) rows
     = (result @ tag_rows From_User rows, fold js_set_add (map budgetSlotKey rows) covered)"
  by (induction rows arbitrary: result covered) (simp_all add: own_budget_def tag_rows_def)

lemma inherit_rows_fold:
  "foldl (inherit_row src covered) (result, slots) rows
     = (result @ tag_rows src (filter (\<lambda>b. budgetSlotKey b \<notin> set covered) rows),
        fold js_set_add (map budgetSlotKey (filter (\<lambda>b. budgetSlotKey b \<notin> set covered) rows)) slots)"
  by (induction rows arbitrary: result slots) (simp_all add: inherit_row_def tag_rows_def)

lemma inherit_group_step:
  obtains covered' where
    "inherit_group st (result, covered) g = (result @ tag_rows (From_Group (fst g))
       (filter (\<lambda>b. budgetSlotKey b \<notin> set covered) (listGroupBudgets st (fst g))), covered')"
    "set covered' = set covered \<union> budgetSlotKey ` set (listGroupBudgets st (fst g))"
proof
  let ?new = "filter (\<lambda>b. budgetSlotKey b \<notin> set covered) (listGroupBudgets st (fst g))"
  let ?cov = "fold js_set_add (fold js_set_add (map budgetSlotKey ?new) []) covered"
  show "inherit_group st (result, covered) g = (result @ tag_rows (From_Group (fst g)) ?new, ?cov)"
    by (simp add: inherit_group_def inherit_rows_fold)
  show "set ?cov = set covered \<union> budgetSlotKey ` set (listGroupBudgets st (fst g))" by auto
qed

text \<open>The rows of a slot come from the first source that has any.\<close>

definition source_budgets :: "store \<Rightarrow> budget_input list \<Rightarrow> rule_source \<Rightarrow> budget_input list" where
  "source_budgets st own src = (case src of From_User \<Rightarrow> own | From_Group g \<Rightarrow> listGroupBudgets st g)"

definition slot_rows :: "string \<Rightarrow> budget_input list \<Rightarrow> budget_input list" where
  "slot_rows key rows = filter (\<lambda>b. budgetSlotKey b = key) rows"

definition first_source :: "(rule_source \<Rightarrow> budget_input list) \<Rightarrow> string \<Rightarrow> rule_source list \<Rightarrow> gathered_budget list" where
  "first_source rows_of key sources =
     (case List.find (\<lambda>src. slot_rows key (rows_of src) \<noteq> []) sources of
        None \<Rightarrow> [] | Some src \<Rightarrow> tag_rows src (slot_rows key (rows_of src)))"

lemma slot_rows_Nil: "slot_rows key rows = [] \<longleftrightarrow> key \<notin> budgetSlotKey ` set rows"
  by (auto simp: slot_rows_def filter_empty_conv)

lemma filter_tag_rows: "filter (\<lambda>g. budgetSlotKey (fst g) = key) (tag_rows src rows) = tag_rows src (slot_rows key rows)"
  by (simp add: tag_rows_def slot_rows_def filter_map comp_def)

lemma slot_rows_uncovered:
  "slot_rows key (filter (\<lambda>b. budgetSlotKey b \<notin> C) rows) = (if key \<in> C then [] else slot_rows key rows)"
  by (auto simp: slot_rows_def filter_empty_conv intro: filter_cong)

lemma inherit_groups_slot:
  "filter (\<lambda>g. budgetSlotKey (fst g) = key) (fst (foldl (inherit_group st) (result, covered) groups))
     = filter (\<lambda>g. budgetSlotKey (fst g) = key) result @
       (if key \<in> set covered then [] else
        first_source (source_budgets st own) key (map (\<lambda>g. From_Group (fst g)) groups))"
proof (induction groups arbitrary: result covered)
  case Nil
  then show ?case by (simp add: first_source_def)
next
  case (Cons g groups)
  obtain covered' where step: "inherit_group st (result, covered) g = (result @ tag_rows (From_Group (fst g))
       (filter (\<lambda>b. budgetSlotKey b \<notin> set covered) (listGroupBudgets st (fst g))), covered')"
    and cov: "set covered' = set covered \<union> budgetSlotKey ` set (listGroupBudgets st (fst g))"
    by (rule inherit_group_step)
  show ?case
    by (cases "key \<in> set covered"; cases "key \<in> budgetSlotKey ` set (listGroupBudgets st (fst g))")
      (simp_all add: step Cons cov filter_tag_rows slot_rows_uncovered first_source_def source_budgets_def
        slot_rows_Nil)
qed

lemma merge_budgets_slot:
  "filter (\<lambda>g. budgetSlotKey (fst g) = key) (mergeBudgetsWithGroups st userId own) =
     first_source (source_budgets st own) key
       (From_User # map (\<lambda>g. From_Group (fst g)) (listUserGroupsForUser st userId))"
  unfolding mergeBudgetsWithGroups_def own_budgets_fold inherit_groups_slot [where own = own]
  by (auto simp: filter_tag_rows first_source_def slot_rows_Nil source_budgets_def)

section \<open>Properties\<close>

lemma merge_gathers:
  "mergeScheduleRulesWithGroups st userId own =
     resequence (map (\<lambda>r. (r, From_User)) (byOrdinal own)
       @ concat (map (\<lambda>g. map (\<lambda>r. (r, From_Group (fst g))) (listGroupSchedules st (fst g)))
           (listUserGroupsForUser st userId)))"
  by (simp add: mergeScheduleRulesWithGroups_def Let_def sort_key_map_pair byOrdinal_def)

lemma user_groups_ascend: "sorted (map fst (listUserGroupsForUser st userId))"
  by (simp add: listUserGroupsForUser_def)

lemma resequence_renumbers: "resequence gs = map2 (\<lambda>(r, src) n. (r\<lparr>sr_ordinal := int n\<rparr>, src)) gs [0..<length gs]"
  by (rule nth_equalityI) (simp_all add: resequence_def case_prod_unfold)

lemma merged_action:
  "resolveEffectiveAction (map fst (mergeScheduleRulesWithGroups st userId own)) (ruleActiveAt db t tz) fallback =
     (case resolveEffectiveRule own (ruleActiveAt db t tz) of
        Some r \<Rightarrow> sr_action r
      | None \<Rightarrow>
          (case List.find (ruleActiveAt db t tz)
             (concat (map (\<lambda>g. listGroupSchedules st (fst g)) (listUserGroupsForUser st userId))) of
             Some r \<Rightarrow> sr_action r | None \<Rightarrow> fallback))"
proof -
  let ?act = "ruleActiveAt db t tz"
  let ?own = "sort_key (\<lambda>g. rule_rank (fst g)) (map (\<lambda>r. (r, From_User)) own)"
  let ?inh = "concat (map (\<lambda>g. map (\<lambda>r. (r, From_Group (fst g))) (listGroupSchedules st (fst g)))
      (listUserGroupsForUser st userId))"
  have order: "?act (r\<lparr>sr_ordinal := n\<rparr>) = ?act r" for r n
    by (rule active.same_window) (simp add: sameWindow_def)
  have rules: "map fst (resequence gs) = map2 (\<lambda>g k. (fst g)\<lparr>sr_ordinal := k\<rparr>) gs (map int [0..<length gs])" for gs
    by (simp add: resequence_def case_prod_unfold comp_def)
  have inh: "map fst ?inh = concat (map (\<lambda>g. listGroupSchedules st (fst g)) (listUserGroupsForUser st userId))"
    by (simp add: map_concat comp_def)
  have "resolveEffectiveRule (map fst (resequence (?own @ ?inh))) ?act
      = List.find ?act (map fst (resequence (?own @ ?inh)))"
    unfolding resolveEffectiveRule_def resequence_order ..
  moreover have "map_option sr_action (List.find ?act (map fst (resequence (?own @ ?inh))))
      = map_option sr_action (List.find ?act (map fst (?own @ ?inh)))"
    unfolding rules by (rule find_renumbered [OF order]) simp
  moreover have "map fst (?own @ ?inh) = byOrdinal own @ map fst ?inh"
    by (simp add: merged_rules_list)
  ultimately have "map_option sr_action (resolveEffectiveRule
        (map fst (mergeScheduleRulesWithGroups st userId own)) ?act)
      = map_option sr_action (List.find ?act (byOrdinal own @ map fst ?inh))"
    by (simp add: mergeScheduleRulesWithGroups_def Let_def)
  then show ?thesis
    unfolding resolveEffectiveAction_def inh find_append resolveEffectiveRule_def
    by (auto split: option.splits)
qed

text \<open>
  C13 A user's own rules win over inherited ones. The gathered list holds the user's own rules in the order of
  their ordinals and then the rules of the user's groups, group by group in ascending order, each with its source
  and all of its fields, except that the ordinals are renumbered from 0. At any instant the list gives the action
  of the first active own rule, and only when no own rule is active that of the first active rule of the groups.
\<close>

theorem own_rules_win:
  "(let gathered = map (\<lambda>r. (r, From_User)) (byOrdinal own)
          @ concat (map (\<lambda>g. map (\<lambda>r. (r, From_Group (fst g))) (listGroupSchedules st (fst g)))
              (listUserGroupsForUser st userId))
    in mergeScheduleRulesWithGroups st userId own
        = map2 (\<lambda>(r, src) n. (r\<lparr>sr_ordinal := int n\<rparr>, src)) gathered [0..<length gathered])
   \<and> mset (byOrdinal own) = mset own \<and> sorted (map rule_rank (byOrdinal own))
   \<and> sorted (map fst (listUserGroupsForUser st userId))
   \<and> resolveEffectiveAction (map fst (mergeScheduleRulesWithGroups st userId own)) (ruleActiveAt db t tz) fallback =
     (case resolveEffectiveRule own (ruleActiveAt db t tz) of
        Some r \<Rightarrow> sr_action r
      | None \<Rightarrow>
          (case List.find (ruleActiveAt db t tz)
             (concat (map (\<lambda>g. listGroupSchedules st (fst g)) (listUserGroupsForUser st userId))) of
             Some r \<Rightarrow> sr_action r | None \<Rightarrow> fallback))"
  by (simp only: Let_def merge_gathers [symmetric] resequence_renumbers [symmetric] merged_action mset_byOrdinal
      sorted_byOrdinal user_groups_ascend simp_thms)

text \<open>
  Every budget slot is sourced from exactly one place: the merged rows of a slot are the rows of the
  first source that has the slot, the user before the groups in ascending order, and nothing else.
\<close>

theorem budget_slot_has_one_source:
  "filter (\<lambda>g. budgetSlotKey (fst g) = key) (mergeBudgetsWithGroups st userId own) =
     first_source (source_budgets st own) key
       (From_User # map (\<lambda>g. From_Group (fst g)) (listUserGroupsForUser st userId))"
  by (rule merge_budgets_slot)

text \<open>
  The always-denied domains are the matchers of the domain activities that an always-on denial
  names, directly or through an activity group, each once and in order.
\<close>

theorem always_on_domain_denies_exact:
  "set (resolveAlwaysOnDomainDenies st userId) =
     {act_matcher a | a r src t. (r, src) \<in> set (gatherUserScheduleRules st userId) \<and> sr_action r = Deny
        \<and> isAlwaysOnRule r \<and> sr_targetId r = Some t \<and> act_kind a = Domain_Kind
        \<and> (sr_targetKind r = Activity \<and> getActivity st t = Some a
           \<or> sr_targetKind r = Group \<and> a \<in> set (listGroupActivities st t))}
   \<and> sorted (resolveAlwaysOnDomainDenies st userId) \<and> distinct (resolveAlwaysOnDomainDenies st userId)"
proof (intro conjI)
  have one: "d \<in> set (domainsForDenyRule st r) \<longleftrightarrow> (\<exists>a t. d = act_matcher a \<and> sr_targetId r = Some t
      \<and> act_kind a = Domain_Kind \<and> (sr_targetKind r = Activity \<and> getActivity st t = Some a
           \<or> sr_targetKind r = Group \<and> a \<in> set (listGroupActivities st t)))" for d r
    by (cases "sr_targetId r"; cases "sr_targetKind r") (auto simp: domainsForDenyRule_def split: option.splits)
  show "set (resolveAlwaysOnDomainDenies st userId) =
     {act_matcher a | a r src t. (r, src) \<in> set (gatherUserScheduleRules st userId) \<and> sr_action r = Deny
        \<and> isAlwaysOnRule r \<and> sr_targetId r = Some t \<and> act_kind a = Domain_Kind
        \<and> (sr_targetKind r = Activity \<and> getActivity st t = Some a
           \<or> sr_targetKind r = Group \<and> a \<in> set (listGroupActivities st t))}"
    by (fastforce simp: resolveAlwaysOnDomainDenies_def one)
qed (simp_all add: resolveAlwaysOnDomainDenies_def)

end
