(* ===== verification/Next_Transition.thy ===== *)
theory Next_Transition
  imports Group_Resolution
begin

text \<open>
  \<open>policy/next-transition.ts\<close> and \<open>policy/weekly-windows.ts\<close>: when overall access next flips, from
  the allowed windows of today and tomorrow, and the allowed windows of the seven days of the week
  that the recurring push sends to the client.
\<close>

section \<open>The next transition\<close>

datatype transition_kind = Access_Ends | Access_Resumes

record next_transition =
  nt_kind :: transition_kind
  nt_localDate :: string
  nt_atMinuteOfDay :: minute

definition isAccessAllowedAt :: "minute \<Rightarrow> allowed_window list \<Rightarrow> bool" where
  "isAccessAllowedAt m windows \<longleftrightarrow> list_ex (\<lambda>w. m \<ge> iv_start w \<and> m < iv_end w) windows"

definition boundary_add :: "minute \<Rightarrow> minute \<Rightarrow> minute list \<Rightarrow> allowed_window \<Rightarrow> minute list" where
  "boundary_add lo hi s w =
     (let s1 = if iv_start w \<ge> lo \<and> iv_start w < hi then js_set_add (iv_start w) s else s
      in if iv_end w \<ge> lo \<and> iv_end w < hi then js_set_add (iv_end w) s1 else s1)"

definition boundariesIn :: "allowed_window list \<Rightarrow> minute \<Rightarrow> minute \<Rightarrow> minute list" where
  "boundariesIn windows lo hi = sort (foldl (boundary_add lo hi) [] windows)"

definition flip_at :: "allowed_window list \<Rightarrow> string \<Rightarrow> minute \<Rightarrow> next_transition" where
  "flip_at windows date m =
     \<lparr>nt_kind = (if isAccessAllowedAt m windows then Access_Resumes else Access_Ends),
      nt_localDate = date, nt_atMinuteOfDay = m\<rparr>"

definition nextOverallTransition ::
    "allowed_window list \<Rightarrow> minute \<Rightarrow> string \<Rightarrow> allowed_window list \<Rightarrow> string \<Rightarrow> next_transition option" where
  "nextOverallTransition today nowMinute todayDate tomorrow tomorrowDate =
     (let state = isAccessAllowedAt nowMinute today in
      case List.find (\<lambda>m. isAccessAllowedAt m today \<noteq> state) (boundariesIn today (nowMinute + 1) MINUTES_PER_DAY) of
        Some m \<Rightarrow> Some (flip_at today todayDate m)
      | None \<Rightarrow>
          (case List.find (\<lambda>m. isAccessAllowedAt m tomorrow \<noteq> state) (0 # boundariesIn tomorrow 1 MINUTES_PER_DAY) of
             Some m \<Rightarrow> Some (flip_at tomorrow tomorrowDate m)
           | None \<Rightarrow> None))"

section \<open>Weekly windows\<close>

type_synonym weekly_windows = "(int \<times> allowed_window list) list"

definition addCalendarDays :: "civil \<Rightarrow> int \<Rightarrow> civil" where
  "addCalendarDays date days =
     (case date of (y, m, d) \<Rightarrow> utc_civil (date_utc y (m - 1) (d + days) 0 0 0))"

definition day_input :: "civil \<Rightarrow> string \<Rightarrow> schedule_rule list \<Rightarrow> policy_input" where
  "day_input date tz schedules =
     \<lparr>pi_date = date, pi_tz = tz, pi_schedules = schedules, pi_budgets = [], pi_grants = [], pi_exceptions = []\<rparr>"

definition resolveWeeklyAllowedWindows ::
    "tzdb \<Rightarrow> schedule_rule list \<Rightarrow> string \<Rightarrow> instant \<Rightarrow> tz_error + weekly_windows" where
  "resolveWeeklyAllowedWindows db schedules tz reference =
     bindE (localCalendarDate db reference tz) (\<lambda>(y, m, d).
       let monday = addCalendarDays (y, m, d) (- (isoWeekday y m d - 1)) in
       mapE (\<lambda>offset. bindE (effectivePolicy db (day_input (addCalendarDays monday offset) tz schedules))
               (\<lambda>ep. Inr (offset + 1, ep_allowedWindows ep))) [0, 1, 2, 3, 4, 5, 6])"

section \<open>Lemmas on boundaries\<close>

lemma isAccessAllowedAt_covers: "isAccessAllowedAt m windows = covers windows m"
  by (auto simp: isAccessAllowedAt_def covers_def inside_def list_ex_iff)

lemma set_boundary_fold:
  "set (foldl (boundary_add lo hi) s windows) =
     set s \<union> {b. lo \<le> b \<and> b < hi \<and> b \<in> iv_start ` set windows \<union> iv_end ` set windows}"
  by (induction windows arbitrary: s) (auto simp: boundary_add_def Let_def)

lemma set_boundariesIn:
  "set (boundariesIn windows lo hi) =
     {b. lo \<le> b \<and> b < hi \<and> b \<in> iv_start ` set windows \<union> iv_end ` set windows}"
  by (simp add: boundariesIn_def set_boundary_fold)

lemma sorted_boundariesIn: "sorted (boundariesIn windows lo hi)"
  by (simp add: boundariesIn_def)

text \<open>Coverage changes only where a window starts or ends.\<close>

lemma flip_is_boundary:
  fixes m :: minute
  assumes "covers windows (m - 1) \<noteq> covers windows m"
  shows "m \<in> iv_start ` set windows \<union> iv_end ` set windows"
proof -
  obtain w where "w \<in> set windows" "inside w (m - 1) \<noteq> inside w m"
    using assms by (auto simp: covers_def)
  then have "iv_start w = m \<or> iv_end w = m" by (auto simp: inside_def)
  with \<open>w \<in> set windows\<close> show ?thesis by auto
qed

lemma steady_between:
  assumes "\<And>b. b \<in> set (boundariesIn windows (lo + 1) hi) \<Longrightarrow> b \<le> m \<Longrightarrow> covers windows b = s"
    and "covers windows lo = s" "lo \<le> m" "m < hi"
  shows "covers windows m = s"
  using assms(3,4,1)
proof (induction m rule: int_ge_induct)
  case base
  then show ?case using assms(2) by simp
next
  case (step i)
  then have prev: "covers windows i = s" by simp
  show ?case
  proof (rule ccontr)
    assume c: "covers windows (i + 1) \<noteq> s"
    with prev have "i + 1 \<in> set (boundariesIn windows (lo + 1) hi)"
      using flip_is_boundary [of windows "i + 1"] step.hyps step.prems(1) by (simp add: set_boundariesIn)
    with step.prems(2) [of "i + 1"] c show False by simp
  qed
qed

lemma sorted_find_least:
  assumes "sorted xs" "List.find P xs = Some x" "y \<in> set xs" "P y"
  shows "x \<le> y"
  using find_split [OF assms(2)] assms(1,3,4) by (auto simp: sorted_append)

definition steady :: "allowed_window list \<Rightarrow> minute \<Rightarrow> minute \<Rightarrow> bool \<Rightarrow> bool" where
  "steady windows lo hi s \<longleftrightarrow> (\<forall>m. lo \<le> m \<and> m < hi \<longrightarrow> isAccessAllowedAt m windows = s)"

definition flips_first :: "allowed_window list \<Rightarrow> minute \<Rightarrow> minute \<Rightarrow> bool \<Rightarrow> bool" where
  "flips_first windows lo b s \<longleftrightarrow> isAccessAllowedAt b windows \<noteq> s \<and> steady windows lo b s"

text \<open>The first flip after \<open>lo\<close> among the boundaries is the first minute at which coverage differs.\<close>

lemma no_flip:
  assumes "isAccessAllowedAt lo windows = s"
    and "List.find (\<lambda>m. isAccessAllowedAt m windows \<noteq> s) (boundariesIn windows (lo + 1) hi) = None"
  shows "steady windows lo hi s"
proof -
  have "covers windows b = s" if "b \<in> set (boundariesIn windows (lo + 1) hi)" for b
    using assms(2) that by (auto simp: find_None_iff isAccessAllowedAt_covers)
  then have "covers windows m = s" if "lo \<le> m" "m < hi" for m
    using steady_between [OF _ _ that] assms(1) by (metis isAccessAllowedAt_covers)
  then show ?thesis by (simp add: steady_def isAccessAllowedAt_covers)
qed

lemma first_flip:
  assumes "isAccessAllowedAt lo windows = s"
    and "List.find (\<lambda>m. isAccessAllowedAt m windows \<noteq> s) (boundariesIn windows (lo + 1) hi) = Some b"
  shows "lo < b" "b < hi" "flips_first windows lo b s"
proof -
  from find_in_set [OF assms(2)]
  have b: "b \<in> set (boundariesIn windows (lo + 1) hi)" "covers windows b \<noteq> s"
    by (simp_all add: isAccessAllowedAt_covers)
  then show "lo < b" "b < hi" by (simp_all add: set_boundariesIn)
  have "covers windows m = s" if "lo \<le> m" "m < b" for m
  proof (rule steady_between [OF _ _ that(1)])
    show "m < hi" using b that by (simp add: set_boundariesIn)
    show "covers windows lo = s" using assms(1) by (simp add: isAccessAllowedAt_covers)
    fix c assume c: "c \<in> set (boundariesIn windows (lo + 1) hi)" "c \<le> m"
    show "covers windows c = s"
      using sorted_find_least [OF sorted_boundariesIn assms(2) c(1)] c(2) that(2)
      by (auto simp: isAccessAllowedAt_covers)
  qed
  with b show "flips_first windows lo b s" by (simp add: flips_first_def steady_def isAccessAllowedAt_covers)
qed

lemma flip_at_fields [simp]:
  "nt_atMinuteOfDay (flip_at windows date m) = m"
  "nt_kind (flip_at windows date m) = Access_Resumes \<longleftrightarrow> isAccessAllowedAt m windows"
  by (simp_all add: flip_at_def)

section \<open>Weekly lemmas\<close>

lemma addCalendarDays_civil:
  assumes "- 36400 \<le> n" "civil_of_day n = (y, m, d)"
  shows "addCalendarDays (y, m, d) k = civil_of_day (n + k)"
  using modern_civil [OF _ assms(2)] assms make_day_civil [OF assms(2)]
  by (auto simp: addCalendarDays_def date_utc_def full_year_def make_day_add utc_civil_day)

lemma effectivePolicy_total:
  assumes "assertTimeZone db (pi_tz inp) = Inr ()"
  shows "\<exists>ep. effectivePolicy db inp = Inr ep"
proof -
  obtain y m d where c: "pi_date inp = (y, m, d)" by (metis prod_cases3)
  obtain b where "localDayBounds db y m d (pi_tz inp) = Inr b"
    using assms by (cases "addDays y m d 1") (simp add: localDayBounds_def Let_def)
  from effectivePolicy_bounds [OF this c] show ?thesis by blast
qed

lemma weekly_total:
  assumes "assertTimeZone db tz = Inr ()"
  shows "\<exists>weekly. resolveWeeklyAllowedWindows db schedules tz reference = Inr weekly"
proof -
  define g where "g = (\<lambda>date k. (k :: int, ep_allowedWindows (projr (effectivePolicy db (day_input date tz schedules)))))"
  have g: "bindE (effectivePolicy db (day_input date tz schedules)) (\<lambda>ep. Inr (k, ep_allowedWindows ep)) = Inr (g date k)"
    for date k
    using effectivePolicy_total [of db "day_input date tz schedules"] assms by (auto simp: day_input_def g_def)
  have "mapE (\<lambda>k. bindE (effectivePolicy db (day_input (dt k) tz schedules))
      (\<lambda>ep. Inr (k + 1, ep_allowedWindows ep))) ks = Inr (map (\<lambda>k. g (dt k) (k + 1)) ks)" for dt ks
    by (rule mapE_total) (rule g)
  then show ?thesis
    unfolding resolveWeeklyAllowedWindows_def localCalendarDate_def assms bindE.simps Let_def prod.case by blast
qed

section \<open>Properties\<close>

text \<open>
  The reported transition is the first one: today's if access flips before midnight, at the first
  minute where it differs from now; otherwise tomorrow's first differing minute, midnight included;
  none only when access stays as it is to the end of tomorrow.
\<close>

theorem nextOverallTransition_first:
  assumes "0 \<le> nowMinute" "nowMinute < 1440"
  shows "case nextOverallTransition today nowMinute todayDate tomorrow tomorrowDate of
     None \<Rightarrow> steady today nowMinute 1440 (isAccessAllowedAt nowMinute today)
       \<and> steady tomorrow 0 1440 (isAccessAllowedAt nowMinute today)
   | Some t \<Rightarrow>
       (nt_kind t = Access_Resumes \<longleftrightarrow> \<not> isAccessAllowedAt nowMinute today) \<and>
       ((t = flip_at today todayDate (nt_atMinuteOfDay t) \<and> nowMinute < nt_atMinuteOfDay t \<and> nt_atMinuteOfDay t < 1440
         \<and> flips_first today nowMinute (nt_atMinuteOfDay t) (isAccessAllowedAt nowMinute today))
        \<or> (t = flip_at tomorrow tomorrowDate (nt_atMinuteOfDay t) \<and> 0 \<le> nt_atMinuteOfDay t \<and> nt_atMinuteOfDay t < 1440
         \<and> steady today nowMinute 1440 (isAccessAllowedAt nowMinute today)
         \<and> flips_first tomorrow 0 (nt_atMinuteOfDay t) (isAccessAllowedAt nowMinute today)))"
proof -
  define s where "s = isAccessAllowedAt nowMinute today"
  define r where "r = List.find (\<lambda>m. isAccessAllowedAt m today \<noteq> s) (boundariesIn today (nowMinute + 1) 1440)"
  define q where "q = List.find (\<lambda>m. isAccessAllowedAt m tomorrow \<noteq> s) (boundariesIn tomorrow (0 + 1) 1440)"
  have nxt: "nextOverallTransition today nowMinute todayDate tomorrow tomorrowDate =
     (case r of Some m \<Rightarrow> Some (flip_at today todayDate m)
      | None \<Rightarrow> if isAccessAllowedAt 0 tomorrow \<noteq> s then Some (flip_at tomorrow tomorrowDate 0)
                else map_option (flip_at tomorrow tomorrowDate) q)"
    unfolding nextOverallTransition_def r_def q_def MINUTES_PER_DAY_def Let_def s_def by (auto split: option.split)
  have flips: "isAccessAllowedAt b ws \<longleftrightarrow> \<not> s" if "flips_first ws lo b s" for ws lo b
    using that by (auto simp: flips_first_def)
  show ?thesis
  proof (cases r)
    case (Some b)
    note f = first_flip [OF s_def [symmetric] Some [unfolded r_def]]
    show ?thesis unfolding nxt Some using f assms flips [OF f(3)] by (simp flip: s_def)
  next
    case None
    note st = no_flip [OF s_def [symmetric] None [unfolded r_def]]
    show ?thesis
    proof (cases "isAccessAllowedAt 0 tomorrow = s")
      case False
      then have f: "flips_first tomorrow 0 0 s" by (auto simp: flips_first_def steady_def)
      show ?thesis unfolding nxt None using st f False flips [OF f] by (simp flip: s_def)
    next
      case True
      show ?thesis
      proof (cases q)
        case None
        note st' = no_flip [OF True None [unfolded q_def]]
        show ?thesis unfolding nxt \<open>r = None\<close> None using True st st' by (simp flip: s_def)
      next
        case (Some b)
        note f = first_flip [OF True Some [unfolded q_def]]
        show ?thesis unfolding nxt \<open>r = None\<close> Some using True st f flips [OF f(3)] by (simp flip: s_def)
      qed
    qed
  qed
qed

lemma nextOverallTransition_first_witness:
  "nt_atMinuteOfDay (the (nextOverallTransition [Interval 0 1260] 600 ''a'' [Interval 0 1260] ''b'')) = 1260
   \<and> (nt_kind (the (nextOverallTransition [Interval 0 1260] 600 ''a'' [Interval 0 1260] ''b'')) = Access_Resumes
       \<longleftrightarrow> \<not> isAccessAllowedAt 600 [Interval 0 1260])"
  using nextOverallTransition_first [where nowMinute = 600 and today = "[Interval 0 1260]" and todayDate = "''a''"
      and tomorrow = "[Interval 0 1260]" and tomorrowDate = "''b''"]
  by (simp add: nextOverallTransition_def boundariesIn_def boundary_add_def isAccessAllowedAt_def MINUTES_PER_DAY_def
      js_set_add_def flip_at_def)

text \<open>
  The weekly grid holds one entry per ISO weekday, Monday first, and each is the resolver's answer
  for the day of the reference's week that falls on that weekday.
\<close>

theorem weekly_windows_per_weekday:
  assumes "db tz = Some z" "tz \<noteq> []" "0 \<le> local_day z reference"
    and "resolveWeeklyAllowedWindows db schedules tz reference = Inr weekly"
  shows "list_all2 (\<lambda>k entry. \<exists>n y m d ep. n = local_day z reference - (local_day z reference + 3) mod 7 + k
      \<and> civil_of_day n = (y, m, d) \<and> isoWeekday y m d = k + 1
      \<and> effectivePolicy db (day_input (y, m, d) tz schedules) = Inr ep
      \<and> entry = (k + 1, ep_allowedWindows ep)) [0, 1, 2, 3, 4, 5, 6] weekly"
proof -
  let ?n = "local_day z reference" and ?k = "(local_day z reference + 3) mod 7"
  obtain y m d where c: "civil_of_day ?n = (y, m, d)" by (metis prod_cases3)
  have k: "0 \<le> ?k" "?k < 7" by simp_all
  have zone: "zone_of db tz = z" "assertTimeZone db tz = Inr ()"
    using assms(1) assertTimeZone_ok [of db tz, OF assms(1,2)] by (simp_all add: zone_of_def)
  have date: "localCalendarDate db reference tz = Inr (y, m, d)"
    using zonedParts_civil [of z reference] c by (simp add: localCalendarDate_def zone Let_def)
  have iso: "isoWeekday y m d = ?k + 1" using isoWeekday_civil [OF _ c] assms(3) by simp
  obtain my mm md where mo: "civil_of_day (?n - ?k) = (my, mm, md)" by (metis prod_cases3)
  have monday: "addCalendarDays (y, m, d) (- (isoWeekday y m d - 1)) = (my, mm, md)"
    using addCalendarDays_civil [OF _ c, of "- ?k"] assms(3) mo by (simp add: iso)
  have day: "addCalendarDays (my, mm, md) j = civil_of_day (?n - ?k + j)" for j
    using addCalendarDays_civil [OF _ mo, of j] assms(3) k by simp
  have weekday: "isoWeekday y' m' d' = j + 1"
    if "civil_of_day (?n - ?k + j) = (y', m', d')" "0 \<le> j" "j < 7" for y' m' d' j
  proof -
    have "(?n - ?k + j + 3) mod 7 = (?n + 3 - ?k + j) mod 7" by (simp add: algebra_simps)
    also have "?n + 3 - ?k = 7 * ((?n + 3) div 7)" using mult_div_mod_eq [of 7 "?n + 3"] by linarith
    also have "(7 * ((?n + 3) div 7) + j) mod 7 = j" using that(2,3) by simp
    finally have "(?n - ?k + j + 3) mod 7 = j" .
    then show ?thesis using isoWeekday_civil [OF _ that(1)] assms(3) k that(2) by simp
  qed
  let ?f = "\<lambda>offset. bindE (effectivePolicy db (day_input (civil_of_day (?n - ?k + offset)) tz schedules))
      (\<lambda>ep. Inr (offset + 1, ep_allowedWindows ep))"
  have "mapE ?f [0, 1, 2, 3, 4, 5, 6] = Inr weekly"
    using assms(4) unfolding resolveWeeklyAllowedWindows_def date bindE.simps prod.case monday Let_def day .
  then have "list_all2 (\<lambda>k e. ?f k = Inr e) [0, 1, 2, 3, 4, 5, 6] weekly" by (simp only: mapE_eq_Inr)
  then show ?thesis
  proof (rule list.rel_mono_strong)
    fix j e
    assume j: "j \<in> set [0, 1, 2, 3, 4, 5, 6]" and "?f j = Inr e"
    then obtain ep where ep: "effectivePolicy db (day_input (civil_of_day (?n - ?k + j)) tz schedules) = Inr ep"
        "e = (j + 1, ep_allowedWindows ep)"
      by (auto simp: bindE_eq_Inr)
    obtain y' m' d' where c': "civil_of_day (?n - ?k + j) = (y', m', d')" by (metis prod_cases3)
    have "isoWeekday y' m' d' = j + 1" using weekday [OF c'] j by auto
    with ep c' show "\<exists>n y m d ep. n = ?n - ?k + j \<and> civil_of_day n = (y, m, d) \<and> isoWeekday y m d = j + 1
      \<and> effectivePolicy db (day_input (y, m, d) tz schedules) = Inr ep \<and> e = (j + 1, ep_allowedWindows ep)"
      by (intro exI [of _ "?n - ?k + j"] exI [of _ y'] exI [of _ m'] exI [of _ d'] exI [of _ ep]) simp
  qed
qed

lemma weekly_windows_per_weekday_witness:
  "\<exists>weekly. resolveWeeklyAllowedWindows sample_tzdb [night_rule] ''America/New_York'' 1741521600000 = Inr weekly
     \<and> list_all2 (\<lambda>k entry. fst entry = k + 1) [0, 1, 2, 3, 4, 5, 6] weekly"
proof -
  have "assertTimeZone sample_tzdb ''America/New_York'' = Inr ()"
    by (simp add: assertTimeZone_def isValidTimeZone_def sample_tzdb_def)
  from weekly_total [OF this] obtain weekly where
    w: "resolveWeeklyAllowedWindows sample_tzdb [night_rule] ''America/New_York'' 1741521600000 = Inr weekly" by blast
  have "list_all2 (\<lambda>k entry. fst entry = k + 1) [0, 1, 2, 3, 4, 5, 6] weekly"
    by (rule list.rel_mono_strong [OF weekly_windows_per_weekday
          [of sample_tzdb "''America/New_York''" new_york_2025 1741521600000 "[night_rule]" weekly]])
      (auto simp: sample_tzdb_def new_york_march_9 w)
  with w show ?thesis by blast
qed

end
