(* ===== verification/Timekpr.thy ===== *)
theory Timekpr
  imports Intervals
begin

text \<open>
  \<open>transport/timekpr\<close>: the argument vectors for the \<open>timekpra\<close> command line (\<open>commands.ts\<close>), the
  translation of allowed windows into its allowed-hours grammar (\<open>allowed-hours.ts\<close>), and the
  parser of its \<open>--userinfo\<close> output (\<open>userinfo.ts\<close>). Every \<open>TimekprArgumentError\<close> of the code is
  a constructor of \<open>timekpr_error\<close>. A number is whole by type; \<open>isSafeInteger\<close> is the bound below.
\<close>

section \<open>Errors and values\<close>

datatype timekpr_error =
    EmptyUsername
  | InvalidUsername string
  | BadSeconds string int
  | EmptyDays string
  | BadWeekday string int
  | BadHoursDay int
  | BadHour int
  | MinutePairIncomplete int
  | MinuteWindow int int int
  | EmptyHours
  | EmptyActivities
  | BadMask string
  | BadDescription string
  | BadOperation string
  | WindowBounds minute minute
  | WindowOrder minute minute minute
  | HourFragmented int
  | NoAllowedDays

datatype hours_day = Day int | All_Days

record allowed_hour =
  ah_hour :: int
  ah_startMinute :: "int option"
  ah_endMinute :: "int option"
  ah_unaccounted :: "bool option"

record playtime_activity =
  pa_mask :: string
  pa_description :: "string option"

type_synonym argv = "string list"

section \<open>Formatting\<close>

text \<open>\<open>/[\s;[\]\x00-\x1f]/\<close>: white space, separators, brackets and control characters.\<close>

definition username_reject :: "char \<Rightarrow> bool" where
  "username_reject c \<longleftrightarrow> (of_char c :: nat) \<le> 32 \<or> (of_char c :: nat) = 160 \<or> c \<in> {CHR '';'', CHR ''['', CHR '']''}"

definition assertUsername :: "string \<Rightarrow> timekpr_error + unit" where
  "assertUsername u =
     (if length u = 0 then Inl EmptyUsername
      else if list_ex username_reject u then Inl (InvalidUsername u) else Inr ())"

definition MAX_SAFE_INTEGER :: int where "MAX_SAFE_INTEGER = 9007199254740991"

definition assertSeconds :: "int \<Rightarrow> string \<Rightarrow> timekpr_error + unit" where
  "assertSeconds v label = (if v > MAX_SAFE_INTEGER \<or> v < 0 then Inl (BadSeconds label v) else Inr ())"

definition formatSecondsList :: "int list \<Rightarrow> string \<Rightarrow> timekpr_error + string" where
  "formatSecondsList perDaySeconds label =
     (if length perDaySeconds = 0 then Inl (EmptyDays label)
      else bindE (foldE (\<lambda>_ s. assertSeconds s label) () perDaySeconds)
             (\<lambda>_. Inr (js_join '';'' (map show_int perDaySeconds))))"

definition assertDay :: "string \<Rightarrow> int \<Rightarrow> timekpr_error + unit" where
  "assertDay label day = (if day < 1 \<or> day > 7 then Inl (BadWeekday label day) else Inr ())"

definition formatDays :: "int list \<Rightarrow> string \<Rightarrow> timekpr_error + string" where
  "formatDays days label =
     (if length days = 0 then Inl (EmptyDays label)
      else bindE (foldE (\<lambda>_. assertDay label) () days) (\<lambda>_. Inr (js_join '';'' (map show_int days))))"

fun formatAllowedHoursDay :: "hours_day \<Rightarrow> timekpr_error + string" where
  "formatAllowedHoursDay All_Days = Inr ''ALL''"
| "formatAllowedHoursDay (Day d) = (if d < 1 \<or> d > 7 then Inl (BadHoursDay d) else Inr (show_int d))"

definition formatAllowedHour :: "allowed_hour \<Rightarrow> timekpr_error + string" where
  "formatAllowedHour entry =
     (let hour = ah_hour entry in
      if hour < 0 \<or> hour > 23 then Inl (BadHour hour)
      else
        bindE (case (ah_startMinute entry, ah_endMinute entry) of
                 (None, None) \<Rightarrow> Inr []
               | (Some start, Some end) \<Rightarrow>
                   if start < 0 \<or> end > 59 \<or> start \<ge> end then Inl (MinuteWindow hour start end)
                   else Inr (''['' @ pad2 start @ ''-'' @ pad2 end @ '']'')
               | _ \<Rightarrow> Inl (MinutePairIncomplete hour))
          (\<lambda>bracket. Inr ((if ah_unaccounted entry = Some True then ''!'' else []) @ show_int hour @ bracket)))"

definition formatAllowedHours :: "allowed_hour list \<Rightarrow> timekpr_error + string" where
  "formatAllowedHours hours =
     (if length hours = 0 then Inl EmptyHours
      else bindE (mapE formatAllowedHour hours) (\<lambda>ss. Inr (js_join '';'' ss)))"

definition list_reject :: "char \<Rightarrow> bool" where
  "list_reject c \<longleftrightarrow> c \<in> {CHR '';'', CHR ''['', CHR '']''}"

definition formatActivity :: "playtime_activity \<Rightarrow> timekpr_error + string" where
  "formatActivity a =
     (if length (pa_mask a) = 0 \<or> list_ex list_reject (pa_mask a) then Inl (BadMask (pa_mask a))
      else case pa_description a of
          None \<Rightarrow> Inr (pa_mask a)
        | Some d \<Rightarrow>
            if d = [] then Inr (pa_mask a)
            else if list_ex list_reject d then Inl (BadDescription d)
            else Inr (pa_mask a @ ''['' @ d @ '']''))"

definition formatActivities :: "playtime_activity list \<Rightarrow> timekpr_error + string" where
  "formatActivities activities =
     (if length activities = 0 then Inl EmptyActivities
      else bindE (mapE formatActivity activities) (\<lambda>ss. Inr (js_join '';'' ss)))"

definition formatBool :: "bool \<Rightarrow> string" where
  "formatBool v = (if v then ''true'' else ''false'')"

section \<open>Argument vectors\<close>

definition buildSetAllowedDays :: "string \<Rightarrow> int list \<Rightarrow> timekpr_error + argv" where
  "buildSetAllowedDays u days =
     bindE (assertUsername u) (\<lambda>_. bindE (formatDays days ''allowed days'') (\<lambda>d. Inr [''--setalloweddays'', u, d]))"

definition buildSetAllowedHours :: "string \<Rightarrow> hours_day \<Rightarrow> allowed_hour list \<Rightarrow> timekpr_error + argv" where
  "buildSetAllowedHours u day hours =
     bindE (assertUsername u) (\<lambda>_. bindE (formatAllowedHoursDay day) (\<lambda>d.
       bindE (formatAllowedHours hours) (\<lambda>h. Inr [''--setallowedhours'', u, d, h])))"

definition buildSetTimeLimits :: "string \<Rightarrow> int list \<Rightarrow> timekpr_error + argv" where
  "buildSetTimeLimits u perDaySeconds =
     bindE (assertUsername u) (\<lambda>_. bindE (formatSecondsList perDaySeconds ''daily time limits'')
       (\<lambda>s. Inr [''--settimelimits'', u, s]))"

definition buildSetTimeLimitWeek :: "string \<Rightarrow> int \<Rightarrow> timekpr_error + argv" where
  "buildSetTimeLimitWeek u seconds =
     bindE (assertUsername u) (\<lambda>_. bindE (assertSeconds seconds ''weekly time limit'')
       (\<lambda>_. Inr [''--settimelimitweek'', u, show_int seconds]))"

definition buildSetTimeLimitMonth :: "string \<Rightarrow> int \<Rightarrow> timekpr_error + argv" where
  "buildSetTimeLimitMonth u seconds =
     bindE (assertUsername u) (\<lambda>_. bindE (assertSeconds seconds ''monthly time limit'')
       (\<lambda>_. Inr [''--settimelimitmonth'', u, show_int seconds]))"

definition TIME_LEFT_OPERATIONS :: "string list" where
  "TIME_LEFT_OPERATIONS = [''+'', ''-'', ''='']"

definition buildSetTimeLeft :: "string \<Rightarrow> string \<Rightarrow> int \<Rightarrow> timekpr_error + argv" where
  "buildSetTimeLeft u operation seconds =
     bindE (assertUsername u) (\<lambda>_.
       if operation \<notin> set TIME_LEFT_OPERATIONS then Inl (BadOperation operation)
       else bindE (assertSeconds seconds ''time-left adjustment'')
         (\<lambda>_. Inr [''--settimeleft'', u, operation, show_int seconds]))"

definition buildSetPlayTimeEnabled :: "string \<Rightarrow> bool \<Rightarrow> timekpr_error + argv" where
  "buildSetPlayTimeEnabled u v = bindE (assertUsername u) (\<lambda>_. Inr [''--setplaytimeenabled'', u, formatBool v])"

definition buildSetPlayTimeLimitOverride :: "string \<Rightarrow> bool \<Rightarrow> timekpr_error + argv" where
  "buildSetPlayTimeLimitOverride u v =
     bindE (assertUsername u) (\<lambda>_. Inr [''--setplaytimelimitoverride'', u, formatBool v])"

definition buildSetPlayTimeUnaccountedIntervalsEnabled :: "string \<Rightarrow> bool \<Rightarrow> timekpr_error + argv" where
  "buildSetPlayTimeUnaccountedIntervalsEnabled u v =
     bindE (assertUsername u) (\<lambda>_. Inr [''--setplaytimeunaccountedintervalsenabled'', u, formatBool v])"

definition buildSetPlayTimeAllowedDays :: "string \<Rightarrow> int list \<Rightarrow> timekpr_error + argv" where
  "buildSetPlayTimeAllowedDays u days =
     bindE (assertUsername u) (\<lambda>_. bindE (formatDays days ''PlayTime allowed days'')
       (\<lambda>d. Inr [''--setplaytimealloweddays'', u, d]))"

definition buildSetPlayTimeLimits :: "string \<Rightarrow> int list \<Rightarrow> timekpr_error + argv" where
  "buildSetPlayTimeLimits u perDaySeconds =
     bindE (assertUsername u) (\<lambda>_. bindE (formatSecondsList perDaySeconds ''PlayTime daily limits'')
       (\<lambda>s. Inr [''--setplaytimelimits'', u, s]))"

definition buildSetPlayTimeActivities :: "string \<Rightarrow> playtime_activity list \<Rightarrow> timekpr_error + argv" where
  "buildSetPlayTimeActivities u activities =
     bindE (assertUsername u) (\<lambda>_. bindE (formatActivities activities)
       (\<lambda>s. Inr [''--setplaytimeactivities'', u, s]))"

definition buildUserInfo :: "string \<Rightarrow> timekpr_error + argv" where
  "buildUserInfo u = bindE (assertUsername u) (\<lambda>_. Inr [''--userinfo'', u])"

section \<open>Allowed hours\<close>

type_synonym time_window = "minute interval"

fun assertWindows :: "minute \<Rightarrow> time_window list \<Rightarrow> timekpr_error + unit" where
  "assertWindows prevEnd [] = Inr ()"
| "assertWindows prevEnd (w # ws) =
     (if iv_start w < 0 \<or> iv_end w > 1440 \<or> iv_start w \<ge> iv_end w then Inl (WindowBounds (iv_start w) (iv_end w))
      else if iv_start w \<le> prevEnd then Inl (WindowOrder (iv_start w) (iv_end w) prevEnd)
      else assertWindows (iv_end w) ws)"

definition hour_entry :: "time_window \<Rightarrow> int \<Rightarrow> allowed_hour" where
  "hour_entry w hour =
     (let hourStart = hour * 60;
          startMinute = max (iv_start w) hourStart - hourStart;
          endMinute = min (iv_end w) (hourStart + 60) - hourStart;
          coversWholeHour = (startMinute = 0 \<and> endMinute = 60)
      in if coversWholeHour
         then \<lparr>ah_hour = hour, ah_startMinute = None, ah_endMinute = None, ah_unaccounted = None\<rparr>
         else \<lparr>ah_hour = hour, ah_startMinute = Some startMinute, ah_endMinute = Some endMinute, ah_unaccounted = None\<rparr>)"

type_synonym hour_map = "(int \<times> allowed_hour) list"

definition add_hour :: "time_window \<Rightarrow> hour_map \<Rightarrow> int \<Rightarrow> timekpr_error + hour_map" where
  "add_hour w byHour hour =
     (if map_of byHour hour \<noteq> None then Inl (HourFragmented hour)
      else Inr (AList.update hour (hour_entry w hour) byHour))"

definition touched_hours :: "time_window \<Rightarrow> int list" where
  "touched_hours w = [iv_start w div 60..(iv_end w - 1) div 60]"

definition add_window :: "hour_map \<Rightarrow> time_window \<Rightarrow> timekpr_error + hour_map" where
  "add_window byHour w = foldE (add_hour w) byHour (touched_hours w)"

definition allowedWindowsToAllowedHours :: "time_window list \<Rightarrow> timekpr_error + allowed_hour list" where
  "allowedWindowsToAllowedHours windows =
     bindE (assertWindows (- 1) windows) (\<lambda>_.
       bindE (foldE add_window [] windows) (\<lambda>byHour. Inr (map snd (sort_key fst byHour))))"

definition sameAllowedHours :: "allowed_hour list \<Rightarrow> allowed_hour list \<Rightarrow> bool" where
  "sameAllowedHours a b \<longleftrightarrow>
     length a = length b
     \<and> list_all (\<lambda>i. ah_hour (a ! i) = ah_hour (b ! i) \<and> ah_startMinute (a ! i) = ah_startMinute (b ! i)
         \<and> ah_endMinute (a ! i) = ah_endMinute (b ! i) \<and> ah_unaccounted (a ! i) = ah_unaccounted (b ! i)) [0..<length a]"

definition ALL_ISO_WEEKDAYS :: "int list" where
  "ALL_ISO_WEEKDAYS = [1, 2, 3, 4, 5, 6, 7]"

definition weekly_allowed :: "(int \<times> time_window list) list \<Rightarrow> timekpr_error + (int \<times> allowed_hour list) list" where
  "weekly_allowed weekly =
     foldE (\<lambda>allowed weekday.
       let windows = nullish (map_of weekly weekday) [] in
       if length windows = 0 then Inr allowed
       else bindE (allowedWindowsToAllowedHours windows) (\<lambda>hours. Inr (allowed @ [(weekday, hours)]))) [] ALL_ISO_WEEKDAYS"

definition buildWeeklyAllowedHoursCommands ::
    "string \<Rightarrow> (int \<times> time_window list) list \<Rightarrow> timekpr_error + argv list" where
  "buildWeeklyAllowedHoursCommands u weekly =
     bindE (weekly_allowed weekly) (\<lambda>allowed.
       case allowed of
         [] \<Rightarrow> Inl NoAllowedDays
       | first # _ \<Rightarrow>
           bindE (buildSetAllowedDays u (map fst allowed)) (\<lambda>days.
             if length allowed = length ALL_ISO_WEEKDAYS
                \<and> list_all (\<lambda>a. sameAllowedHours (snd a) (snd first)) allowed
             then bindE (buildSetAllowedHours u All_Days (snd first)) (\<lambda>hours. Inr [days, hours])
             else bindE (mapE (\<lambda>a. buildSetAllowedHours u (Day (fst a)) (snd a)) allowed)
                    (\<lambda>hours. Inr (days # hours))))"

section \<open>Parsing \<open>--userinfo\<close>\<close>

datatype userinfo_issue = ExpectedKeyValue string | NoKeyValueLines

definition is_js_space :: "char \<Rightarrow> bool" where
  "is_js_space c \<longleftrightarrow> (of_char c :: nat) \<in> {9, 10, 11, 12, 13, 32, 160}"

definition is_key_char :: "char \<Rightarrow> bool" where
  "is_key_char c \<longleftrightarrow> c \<in> set ''ABCDEFGHIJKLMNOPQRSTUVWXYZ0123456789_''"

definition strip_cr :: "string \<Rightarrow> string" where
  "strip_cr l = (if l \<noteq> [] \<and> last l = CHR 0x0D then butlast l else l)"

text \<open>\<open>/^([A-Z0-9_]+):[ \t]*(.*)$/\<close>; the dot does not match a line terminator.\<close>

definition match_key_value :: "string \<Rightarrow> (string \<times> string) option" where
  "match_key_value line =
     (let key = takeWhile is_key_char line; rest = dropWhile is_key_char line in
      if key = [] then None
      else case rest of
          [] \<Rightarrow> None
        | c # rest' \<Rightarrow>
            if c \<noteq> CHR '':'' then None
            else let v = dropWhile (\<lambda>c. c = CHR '' '' \<or> c = CHR 0x09) rest'
                 in if CHR 0x0D \<in> set v \<or> CHR 0x0A \<in> set v then None else Some (key, v))"

definition userinfo_line ::
    "(string \<times> string) list \<times> bool \<Rightarrow> string \<Rightarrow> userinfo_issue + (string \<times> string) list \<times> bool" where
  "userinfo_line acc rawLine =
     (let line = strip_cr rawLine in
      if list_all is_js_space line then Inr acc
      else case match_key_value line of
          None \<Rightarrow> Inl (ExpectedKeyValue line)
        | Some (k, v) \<Rightarrow> Inr (AList.update k v (fst acc), True))"

definition timekprUserInfoSchema :: "string \<Rightarrow> userinfo_issue + (string \<times> string) list" where
  "timekprUserInfoSchema raw =
     bindE (foldE userinfo_line ([], False) (js_split (CHR 0x0A) raw)) (\<lambda>(info, sawAny).
       if \<not> sawAny then Inl NoKeyValueLines else Inr info)"

definition userinfo_get :: "(string \<times> string) list \<Rightarrow> string \<Rightarrow> string option" where
  "userinfo_get info key = map_of info key"

definition userinfo_keys :: "(string \<times> string) list \<Rightarrow> string list" where
  "userinfo_keys info = map fst info"

section \<open>Lemmas on windows and hours\<close>

lemma assertWindows_iff:
  "assertWindows p ws = Inr () \<longleftrightarrow>
     normal ws \<and> (\<forall>w \<in> set ws. 0 \<le> iv_start w \<and> iv_end w \<le> 1440 \<and> p < iv_start w)"
proof (induction p ws rule: assertWindows.induct)
  case (2 p w ws)
  show ?case
  proof (cases "0 \<le> iv_start w \<and> iv_end w \<le> 1440 \<and> iv_start w < iv_end w \<and> p < iv_start w")
    case True
    then have step: "assertWindows p (w # ws) = assertWindows (iv_end w) ws" by simp
    have IH: "assertWindows (iv_end w) ws = Inr () \<longleftrightarrow>
        normal ws \<and> (\<forall>v \<in> set ws. 0 \<le> iv_start v \<and> iv_end v \<le> 1440 \<and> iv_end w < iv_start v)"
      using 2 True by simp
    have "iv_end w < iv_start v \<Longrightarrow> p < iv_start v" for v :: time_window using True by simp
    then show ?thesis
      unfolding step IH normal_Cons proper_def before_def set_simps ball_simps using True by blast
  next
    case False
    then have "assertWindows p (w # ws) \<noteq> Inr ()" by auto
    with False show ?thesis by (auto simp: normal_Cons proper_def)
  qed
qed simp

definition entry_allows :: "allowed_hour \<Rightarrow> minute \<Rightarrow> bool" where
  "entry_allows e m \<longleftrightarrow> ah_hour e = m div 60
     \<and> (case (ah_startMinute e, ah_endMinute e) of
          (Some s, Some t) \<Rightarrow> s \<le> m mod 60 \<and> m mod 60 < t | _ \<Rightarrow> True)"

lemma hour_split:
  fixes m h :: int
  assumes "m div 60 = h"
  shows "m = h * 60 + m mod 60" "0 \<le> m mod 60" "m mod 60 < 60"
  using div_mult_mod_eq [of m 60] assms by auto

lemma hour_entry_allows:
  assumes "m div 60 = h"
  shows "entry_allows (hour_entry w h) m \<longleftrightarrow> inside w m"
proof -
  define r where "r = m mod 60"
  have r: "m = h * 60 + r" "0 \<le> r" "r < 60" unfolding r_def using hour_split [OF assms] by simp_all
  show ?thesis
    unfolding entry_allows_def hour_entry_def Let_def inside_def assms r_def [symmetric]
    using r by (auto simp: max_def min_def split: if_splits)
qed

lemma hour_entry_hour [simp]: "ah_hour (hour_entry w h) = h"
  by (simp add: hour_entry_def Let_def)

lemma touched_hours_iff: "h \<in> set (touched_hours w) \<longleftrightarrow> iv_start w div 60 \<le> h \<and> h \<le> (iv_end w - 1) div 60"
  by (simp add: touched_hours_def)

lemma touched_entries_allow:
  "(\<exists>h \<in> set (touched_hours w). entry_allows (hour_entry w h) m) \<longleftrightarrow> inside w m"
proof
  assume "\<exists>h \<in> set (touched_hours w). entry_allows (hour_entry w h) m"
  then obtain h where "entry_allows (hour_entry w h) m" by blast
  moreover from this have "m div 60 = h" by (simp add: entry_allows_def)
  ultimately show "inside w m" using hour_entry_allows by blast
next
  assume w: "inside w m"
  then have "m div 60 \<in> set (touched_hours w)"
    unfolding touched_hours_iff inside_def by (intro conjI zdiv_mono1) simp_all
  moreover have "entry_allows (hour_entry w (m div 60)) m" using w hour_entry_allows by simp
  ultimately show "\<exists>h \<in> set (touched_hours w). entry_allows (hour_entry w h) m" by blast
qed

lemma add_hours:
  assumes "distinct hs"
  shows "foldE (add_hour w) m hs =
    (case List.find (\<lambda>h. h \<in> fst ` set m) hs of
       Some h \<Rightarrow> Inl (HourFragmented h) | None \<Rightarrow> Inr (m @ map (\<lambda>h. (h, hour_entry w h)) hs))"
  using assms
proof (induction hs arbitrary: m)
  case (Cons h hs)
  show ?case
  proof (cases "h \<in> fst ` set m")
    case True
    then show ?thesis by (auto simp: add_hour_def map_of_eq_None_iff)
  next
    case False
    have "List.find (\<lambda>x. x \<in> fst ` set (m @ [(h, hour_entry w h)])) hs = List.find (\<lambda>x. x \<in> fst ` set m) hs"
      using Cons.prems by (intro find_cong_set) auto
    with False Cons show ?thesis
      by (simp add: add_hour_def map_of_eq_None_iff update_absent split: option.splits)
  qed
qed simp

definition apart :: "time_window \<Rightarrow> time_window \<Rightarrow> bool" where
  "apart v w \<longleftrightarrow> set (touched_hours v) \<inter> set (touched_hours w) = {}"

definition window_entries :: "time_window \<Rightarrow> hour_map" where
  "window_entries w = map (\<lambda>h. (h, hour_entry w h)) (touched_hours w)"

lemma add_window_eq:
  "add_window m w =
    (case List.find (\<lambda>h. h \<in> fst ` set m) (touched_hours w) of
       Some h \<Rightarrow> Inl (HourFragmented h) | None \<Rightarrow> Inr (m @ window_entries w))"
  unfolding add_window_def window_entries_def by (rule add_hours) (simp add: touched_hours_def)

lemma fst_window_entries: "fst ` set (window_entries w) = set (touched_hours w)"
  by (force simp: window_entries_def)

text \<open>The whole walk succeeds exactly when no two windows touch one hour, and then appends the entries.\<close>

lemma add_windows:
  "foldE add_window m ws = Inr m' \<longleftrightarrow>
     sorted_wrt apart ws \<and> (\<forall>w \<in> set ws. fst ` set m \<inter> set (touched_hours w) = {})
     \<and> m' = m @ concat (map window_entries ws)"
proof (induction ws arbitrary: m)
  case (Cons w ws)
  show ?case
  proof (cases "fst ` set m \<inter> set (touched_hours w) = {}")
    case True
    then have "List.find (\<lambda>h. h \<in> fst ` set m) (touched_hours w) = None"
      by (auto simp: find_None_iff)
    then have step: "foldE add_window m (w # ws) = foldE add_window (m @ window_entries w) ws"
      by (simp add: add_window_eq [of m])
    have split: "fst ` set (m @ window_entries w) \<inter> set (touched_hours v) = {} \<longleftrightarrow>
        fst ` set m \<inter> set (touched_hours v) = {} \<and> apart w v" for v
      by (auto simp: image_Un fst_window_entries apart_def)
    show ?thesis
      unfolding step Cons.IH split ball_conj_distrib using True by simp blast
  next
    case False
    then obtain h where "List.find (\<lambda>h. h \<in> fst ` set m) (touched_hours w) = Some h"
      by (cases "List.find (\<lambda>h. h \<in> fst ` set m) (touched_hours w)") (auto simp: find_None_iff)
    then have "foldE add_window m (w # ws) = Inl (HourFragmented h)"
      by (simp add: add_window_eq [of m])
    then show ?thesis using False by simp
  qed
qed auto

lemma distinct_window_entries:
  "sorted_wrt apart ws \<Longrightarrow> distinct (map fst (concat (map window_entries ws)))"
proof (induction ws)
  case (Cons w ws)
  have "distinct (map fst (window_entries w))" by (simp add: window_entries_def comp_def touched_hours_def)
  moreover have "set (map fst (window_entries w)) \<inter> set (map fst (concat (map window_entries ws))) = {}"
    using Cons.prems by (fastforce simp: apart_def window_entries_def)
  moreover have "distinct (map fst (concat (map window_entries ws)))" using Cons by simp
  ultimately show ?case by simp
qed simp

lemma allowedHours_iff:
  "allowedWindowsToAllowedHours ws = Inr hs \<longleftrightarrow>
     assertWindows (- 1) ws = Inr () \<and> sorted_wrt apart ws
     \<and> hs = map snd (sort_key fst (concat (map window_entries ws)))"
  unfolding allowedWindowsToAllowedHours_def bindE_eq_Inr add_windows by auto

lemma allowedHours_set:
  assumes "allowedWindowsToAllowedHours ws = Inr hs"
  shows "e \<in> set hs \<longleftrightarrow> (\<exists>w \<in> set ws. \<exists>h \<in> set (touched_hours w). e = hour_entry w h)"
  using assms unfolding allowedHours_iff by (force simp: window_entries_def)

lemma apart_ascending:
  assumes "proper v" "proper w" "before v w"
  shows "apart v w \<longleftrightarrow> (iv_end v - 1) div 60 < iv_start w div 60"
proof -
  have "iv_start v div 60 \<le> (iv_end v - 1) div 60" "(iv_end v - 1) div 60 \<le> iv_start w div 60"
    "iv_start w div 60 \<le> (iv_end w - 1) div 60"
    using assms by (auto simp: proper_def before_def intro!: zdiv_mono1)
  then show ?thesis
    unfolding apart_def by (auto simp: touched_hours_iff set_eq_iff)
qed

section \<open>Lemmas on formatting\<close>

lemma format_whole_or_partial:
  assumes "proper w" "0 \<le> iv_start w" "iv_end w \<le> 1440" "h \<in> set (touched_hours w)"
  shows "(\<exists>s. formatAllowedHour (hour_entry w h) = Inr s) \<longleftrightarrow>
    \<not> (h * 60 < iv_start w \<and> h * 60 + 60 \<le> iv_end w)"
proof -
  have h: "h * 60 < iv_end w" "iv_start w < h * 60 + 60" "0 \<le> h" "h \<le> 23"
  proof -
    have "iv_start w div 60 \<le> h" "h \<le> (iv_end w - 1) div 60" using assms(4) by (simp_all add: touched_hours_iff)
    moreover have "0 \<le> iv_start w div 60" "(iv_end w - 1) div 60 \<le> 1439 div 60"
      using assms(2,3) by (simp, intro zdiv_mono1) simp_all
    moreover have "iv_start w < 60 * (iv_start w div 60) + 60" using hour_split [of "iv_start w"] by simp
    moreover have "60 * ((iv_end w - 1) div 60) \<le> iv_end w - 1" using hour_split [of "iv_end w - 1"] by simp
    ultimately show "h * 60 < iv_end w" "iv_start w < h * 60 + 60" "0 \<le> h" "h \<le> 23" by simp_all
  qed
  show ?thesis
    using assms(1) h unfolding formatAllowedHour_def hour_entry_def Let_def proper_def
    by (auto simp: max_def min_def split: if_splits)
qed

lemma mapE_ok_iff: "(\<exists>ys. mapE f xs = Inr ys) \<longleftrightarrow> (\<forall>x \<in> set xs. \<exists>y. f x = Inr y)"
proof (induction xs)
  case (Cons x xs)
  then show ?case by (cases "f x"; cases "mapE f xs") auto
qed simp

lemma mid_hour_start:
  fixes s :: int
  shows "(\<exists>h. s div 60 \<le> h \<and> h \<le> (e - 1) div 60 \<and> h * 60 < s \<and> h * 60 + 60 \<le> e) \<longleftrightarrow>
    s mod 60 \<noteq> 0 \<and> (s div 60 + 1) * 60 \<le> e"
proof -
  define q r where qr: "q = s div 60" "r = s mod 60"
  have sp: "s = q * 60 + r" "0 \<le> r" "r < 60" unfolding qr using hour_split [OF refl, of s] by simp_all
  show ?thesis
    unfolding qr [symmetric]
  proof
    assume "\<exists>h. q \<le> h \<and> h \<le> (e - 1) div 60 \<and> h * 60 < s \<and> h * 60 + 60 \<le> e"
    then obtain h where h: "q \<le> h" "h * 60 < s" "h * 60 + 60 \<le> e" by blast
    then have "h = q" using sp by linarith
    then show "r \<noteq> 0 \<and> (q + 1) * 60 \<le> e" using h sp by (simp add: algebra_simps)
  next
    assume a: "r \<noteq> 0 \<and> (q + 1) * 60 \<le> e"
    then have "s \<le> e - 1" "q * 60 < s" "q * 60 + 60 \<le> e" using sp by (simp_all add: algebra_simps)
    moreover from this have "q \<le> (e - 1) div 60" unfolding qr by (intro zdiv_mono1) simp_all
    ultimately show "\<exists>h. q \<le> h \<and> h \<le> (e - 1) div 60 \<and> h * 60 < s \<and> h * 60 + 60 \<le> e" by blast
  qed
qed

lemma hours_allow:
  assumes "allowedWindowsToAllowedHours ws = Inr hs"
  shows "(\<exists>e. e \<in> set hs \<and> entry_allows e m) \<longleftrightarrow> covers ws m"
  unfolding allowedHours_set [OF assms] covers_def touched_entries_allow [symmetric] by blast

lemma sameAllowedHours_eq: "sameAllowedHours a b \<longleftrightarrow> a = b"
  by (auto simp: sameAllowedHours_def list_all_iff intro!: nth_equalityI allowed_hour.equality)

definition day_windows :: "(int \<times> time_window list) list \<Rightarrow> int \<Rightarrow> time_window list" where
  "day_windows weekly k = nullish (map_of weekly k) []"

definition open_days :: "(int \<times> time_window list) list \<Rightarrow> int list" where
  "open_days weekly = filter (\<lambda>k. day_windows weekly k \<noteq> []) ALL_ISO_WEEKDAYS"

lemma weekly_allowed_iff:
  "weekly_allowed weekly = Inr allowed \<longleftrightarrow>
     map fst allowed = open_days weekly
     \<and> (\<forall>(k, hs) \<in> set allowed. allowedWindowsToAllowedHours (day_windows weekly k) = Inr hs)"
proof -
  let ?step = "\<lambda>allowed weekday.
       let windows = nullish (map_of weekly weekday) [] in
       if length windows = 0 then Inr allowed
       else bindE (allowedWindowsToAllowedHours windows) (\<lambda>hours. Inr (allowed @ [(weekday, hours)]))"
  have "foldE ?step acc ks = Inr res \<longleftrightarrow>
      (\<exists>added. res = acc @ added \<and> map fst added = filter (\<lambda>k. day_windows weekly k \<noteq> []) ks
        \<and> (\<forall>(k, hs) \<in> set added. allowedWindowsToAllowedHours (day_windows weekly k) = Inr hs))" for acc ks res
  proof (induction ks arbitrary: acc)
    case (Cons k ks)
    show ?case
    proof (cases "day_windows weekly k = []")
      case True
      then have "?step acc k = Inr acc" by (simp add: day_windows_def)
      then show ?thesis using Cons.IH [of acc] True by simp
    next
      case False
      then have step: "?step acc k = bindE (allowedWindowsToAllowedHours (day_windows weekly k)) (\<lambda>hours. Inr (acc @ [(k, hours)]))"
        by (simp add: day_windows_def)
      show ?thesis
        unfolding foldE.simps step bindE_eq_Inr using Cons.IH False by (auto simp: map_eq_Cons_conv)
    qed
  qed auto
  then show ?thesis by (simp add: weekly_allowed_def open_days_def)
qed

section \<open>Properties\<close>

text \<open>
  The translated hours mean what the windows mean: an hour entry admits a minute exactly when a
  window covers it, the entries ascend, and each is an hour of the day.
\<close>

theorem allowed_hours_same_minutes:
  assumes "allowedWindowsToAllowedHours ws = Inr hs"
  shows "((\<exists>e. e \<in> set hs \<and> entry_allows e m) \<longleftrightarrow> covers ws m)
    \<and> sorted_wrt (\<lambda>a b. ah_hour a < ah_hour b) hs \<and> ah_hour ` set hs \<subseteq> {0..23}"
proof (intro conjI)
  show "(\<exists>e. e \<in> set hs \<and> entry_allows e m) \<longleftrightarrow> covers ws m"
    by (rule hours_allow [OF assms])
  let ?m = "concat (map window_entries ws)"
  have hs: "hs = map snd (sort_key fst ?m)" and ap: "sorted_wrt apart ws" and aw: "assertWindows (- 1) ws = Inr ()"
    using assms unfolding allowedHours_iff by simp_all
  have "\<forall>x \<in> set ?m. ah_hour (snd x) = fst x" by (auto simp: window_entries_def)
  then have "map ah_hour hs = map fst (sort_key fst ?m)" unfolding hs by simp
  moreover have "distinct (map fst (sort_key fst ?m))"
    using distinct_window_entries [OF ap] mset_eq_imp_distinct_iff [of "map fst (sort_key fst ?m)" "map fst ?m"] by simp
  moreover have "sorted (map fst (sort_key fst ?m))" by simp
  ultimately have "sorted_wrt (<) (map ah_hour hs)" by (simp add: strict_sorted_iff)
  then show "sorted_wrt (\<lambda>a b. ah_hour a < ah_hour b) hs" by (simp add: sorted_wrt_map)
  show "ah_hour ` set hs \<subseteq> {0..23}"
  proof
    fix h assume "h \<in> ah_hour ` set hs"
    then obtain w where w: "w \<in> set ws" "h \<in> set (touched_hours w)"
      using allowedHours_set [OF assms] by auto
    with aw have "0 \<le> iv_start w" "iv_end w \<le> 1440" by (auto simp: assertWindows_iff)
    then have "0 \<le> iv_start w div 60" "(iv_end w - 1) div 60 \<le> 1439 div 60" by (simp, intro zdiv_mono1) simp_all
    with w(2) show "h \<in> {0..23}" by (simp add: touched_hours_iff)
  qed
qed

lemma allowed_hours_same_minutes_witness:
  "\<exists>hs. allowedWindowsToAllowedHours [Interval 450 500] = Inr hs
     \<and> (\<exists>e. e \<in> set hs \<and> entry_allows e 460) \<and> \<not> (\<exists>e. e \<in> set hs \<and> entry_allows e 510)"
proof -
  obtain hs where hs: "allowedWindowsToAllowedHours [Interval 450 500] = Inr hs"
    by (simp add: allowedHours_iff)
  show ?thesis
    using allowed_hours_same_minutes [OF hs, of 460] allowed_hours_same_minutes [OF hs, of 510] hs
    by (simp add: covers_def inside_def)
qed

text \<open>
  A window list that passes the assertions translates exactly when no clock hour is shared by two
  windows, the sub-hour fragmentation the grammar cannot express.
\<close>

theorem allowed_hours_fragmentation:
  assumes "assertWindows (- 1) ws = Inr ()"
  shows "(\<exists>hs. allowedWindowsToAllowedHours ws = Inr hs) \<longleftrightarrow>
    sorted_wrt (\<lambda>v w. (iv_end v - 1) div 60 < iv_start w div 60) ws"
proof -
  have n: "sorted_wrt before ws" "\<forall>w \<in> set ws. proper w"
    using assms by (simp_all add: assertWindows_iff normal_def)
  have "sorted_wrt apart ws \<longleftrightarrow> sorted_wrt (\<lambda>v w. (iv_end v - 1) div 60 < iv_start w div 60) ws"
    using n by (induction ws) (auto simp: apart_ascending)
  with assms show ?thesis by (simp add: allowedHours_iff)
qed

lemma allowed_hours_fragmentation_witness:
  "\<not> (\<exists>hs. allowedWindowsToAllowedHours [Interval 0 20, Interval 40 60] = Inr hs)"
  using allowed_hours_fragmentation [of "[Interval 0 20, Interval 40 60]"] by simp

text \<open>
  The translated hours of a nonempty list can be formatted as an argument vector exactly when no
  window starts inside a clock hour and reaches the end of that hour: such a window yields an entry
  that ends at minute 60, which \<open>formatAllowedHour\<close> rejects.
\<close>

theorem allowed_hours_formattable:
  assumes "allowedWindowsToAllowedHours ws = Inr hs" "ws \<noteq> []" "assertUsername u = Inr ()"
  shows "(\<exists>args. buildSetAllowedHours u All_Days hs = Inr args) \<longleftrightarrow>
    \<not> (\<exists>w. w \<in> set ws \<and> iv_start w mod 60 \<noteq> 0 \<and> (iv_start w div 60 + 1) * 60 \<le> iv_end w)"
proof -
  have aw: "\<forall>w \<in> set ws. proper w \<and> 0 \<le> iv_start w \<and> iv_end w \<le> 1440"
    using assms(1) by (auto simp: allowedHours_iff assertWindows_iff normal_def)
  obtain w0 where "w0 \<in> set ws" using assms(2) by (cases ws) auto
  moreover from this aw have "iv_start w0 div 60 \<in> set (touched_hours w0)"
    by (auto simp: touched_hours_iff proper_def intro!: zdiv_mono1)
  ultimately have "hs \<noteq> []" using allowedHours_set [OF assms(1)] by fastforce
  then have args: "(\<exists>args. buildSetAllowedHours u All_Days hs = Inr args) \<longleftrightarrow> (\<exists>ss. mapE formatAllowedHour hs = Inr ss)"
    using assms(3) by (auto simp: buildSetAllowedHours_def formatAllowedHours_def bindE_eq_Inr)
  have sets: "set hs = (\<Union>w \<in> set ws. hour_entry w ` set (touched_hours w))"
    using allowedHours_set [OF assms(1)] by blast
  note args
  also have "(\<exists>ss. mapE formatAllowedHour hs = Inr ss) \<longleftrightarrow>
      (\<forall>w \<in> set ws. \<forall>h \<in> set (touched_hours w). \<exists>s. formatAllowedHour (hour_entry w h) = Inr s)"
    by (simp add: mapE_ok_iff sets)
  also have "\<dots> \<longleftrightarrow> (\<forall>w \<in> set ws. \<not> (\<exists>h \<in> set (touched_hours w). h * 60 < iv_start w \<and> h * 60 + 60 \<le> iv_end w))"
    using aw format_whole_or_partial by blast
  also have "\<dots> \<longleftrightarrow> (\<forall>w \<in> set ws. \<not> (iv_start w mod 60 \<noteq> 0 \<and> (iv_start w div 60 + 1) * 60 \<le> iv_end w))"
    unfolding mid_hour_start [symmetric] by (simp add: touched_hours_iff Bex_def conj_assoc)
  finally show ?thesis by blast
qed

lemma allowed_hours_formattable_witness:
  "\<exists>hs. allowedWindowsToAllowedHours [Interval 930 1200] = Inr hs
     \<and> \<not> (\<exists>args. buildSetAllowedHours ''alice'' All_Days hs = Inr args)"
proof -
  obtain hs where hs: "allowedWindowsToAllowedHours [Interval 930 1200] = Inr hs" by (simp add: allowedHours_iff)
  have u: "assertUsername ''alice'' = Inr ()" by (simp add: assertUsername_def username_reject_def)
  have "\<not> (\<exists>args. buildSetAllowedHours ''alice'' All_Days hs = Inr args)"
    using allowed_hours_formattable [OF hs _ u] by simp
  with hs show ?thesis by blast
qed

definition hours_argv :: "string \<Rightarrow> hours_day \<Rightarrow> allowed_hour list \<Rightarrow> argv \<Rightarrow> bool" where
  "hours_argv u day hs argv \<longleftrightarrow>
     (\<exists>d h. formatAllowedHoursDay day = Inr d \<and> formatAllowedHours hs = Inr h \<and> argv = [''--setallowedhours'', u, d, h])"

text \<open>
  A week of windows becomes one command that names exactly the weekdays with access, and then either
  one command for all days or one for each such weekday; the hours sent for a weekday admit exactly the
  minutes its windows cover.
\<close>

theorem weekly_commands_exact:
  assumes "buildWeeklyAllowedHoursCommands u weekly = Inr commands"
  shows "\<exists>allowed. map fst allowed = open_days weekly \<and> allowed \<noteq> []
    \<and> (\<forall>a \<in> set allowed. \<forall>m. (\<exists>e. e \<in> set (snd a) \<and> entry_allows e m) \<longleftrightarrow> covers (day_windows weekly (fst a)) m)
    \<and> hd commands = [''--setalloweddays'', u, js_join '';'' (map show_int (open_days weekly))]
    \<and> ((open_days weekly = ALL_ISO_WEEKDAYS \<and> (\<forall>a \<in> set allowed. snd a = snd (hd allowed))
          \<and> list_all2 (hours_argv u All_Days) [snd (hd allowed)] (tl commands))
       \<or> list_all2 (\<lambda>a. hours_argv u (Day (fst a)) (snd a)) allowed (tl commands))"
proof -
  from assms obtain allowed where a: "weekly_allowed weekly = Inr allowed"
    unfolding buildWeeklyAllowedHoursCommands_def bindE_eq_Inr by blast
  have "allowed \<noteq> []"
  proof
    assume "allowed = []"
    with assms a show False by (simp add: buildWeeklyAllowedHoursCommands_def)
  qed
  then obtain a0 as where a0: "allowed = a0 # as" by (cases allowed) auto
  have days: "map fst allowed = open_days weekly"
    and hours: "\<forall>(k, hs) \<in> set allowed. allowedWindowsToAllowedHours (day_windows weekly k) = Inr hs"
    using a by (simp_all add: weekly_allowed_iff)
  have argv: "buildSetAllowedHours u day hs = Inr x \<Longrightarrow> hours_argv u day hs x" for day hs x
    by (auto simp: buildSetAllowedHours_def hours_argv_def bindE_eq_Inr)
  let ?all = "length allowed = length ALL_ISO_WEEKDAYS \<and> list_all (\<lambda>x. sameAllowedHours (snd x) (snd a0)) allowed"
  obtain first where first: "buildSetAllowedDays u (map fst allowed) = Inr first"
    and rest: "(if ?all then bindE (buildSetAllowedHours u All_Days (snd a0)) (\<lambda>hours. Inr [first, hours])
             else bindE (mapE (\<lambda>a. buildSetAllowedHours u (Day (fst a)) (snd a)) allowed) (\<lambda>hours. Inr (first # hours))) = Inr commands"
    using assms a a0 by (auto simp: buildWeeklyAllowedHoursCommands_def bindE_eq_Inr)
  have "first = [''--setalloweddays'', u, js_join '';'' (map show_int (open_days weekly))]"
    using first days by (auto simp: buildSetAllowedDays_def formatDays_def bindE_eq_Inr split: if_splits)
  moreover have "hd commands = first" using rest by (auto simp: bindE_eq_Inr split: if_splits)
  moreover have "(open_days weekly = ALL_ISO_WEEKDAYS \<and> (\<forall>a \<in> set allowed. snd a = snd (hd allowed))
          \<and> list_all2 (hours_argv u All_Days) [snd (hd allowed)] (tl commands))
       \<or> list_all2 (\<lambda>a. hours_argv u (Day (fst a)) (snd a)) allowed (tl commands)"
  proof (cases ?all)
    case True
    have "length (open_days weekly) = length ALL_ISO_WEEKDAYS" using True days by (metis length_map)
    then have "open_days weekly = ALL_ISO_WEEKDAYS"
      unfolding open_days_def by (metis filter_cong filter_id_conv length_filter_less not_less_iff_gr_or_eq)
    moreover have "\<forall>a \<in> set allowed. snd a = snd (hd allowed)"
      using True a0 by (simp add: list_all_iff sameAllowedHours_eq)
    moreover have "\<exists>x. buildSetAllowedHours u All_Days (snd a0) = Inr x \<and> commands = [first, x]"
      using rest True by (simp add: bindE_eq_Inr) blast
    ultimately show ?thesis using argv a0 by auto
  next
    case False
    then obtain xs where "mapE (\<lambda>a. buildSetAllowedHours u (Day (fst a)) (snd a)) allowed = Inr xs" "commands = first # xs"
      using rest unfolding if_not_P [OF False] bindE_eq_Inr by blast
    then have "list_all2 (\<lambda>a. hours_argv u (Day (fst a)) (snd a)) allowed (tl commands)"
      using argv by (simp add: mapE_eq_Inr) (erule list_all2_mono, simp)
    then show ?thesis ..
  qed
  ultimately show ?thesis using days hours \<open>allowed \<noteq> []\<close> hours_allow by (intro exI [of _ allowed]) fastforce
qed

lemma weekly_commands_exact_witness:
  "\<exists>commands. buildWeeklyAllowedHoursCommands ''alice'' [(1, [Interval 480 1200]), (6, [Interval 540 1260])] = Inr commands
     \<and> hd commands = [''--setalloweddays'', ''alice'', ''1;6'']"
proof -
  let ?w = "[(1, [Interval 480 1200]), (6, [Interval 540 1260])] :: (int \<times> time_window list) list"
  have u: "assertUsername ''alice'' = Inr ()" by (simp add: assertUsername_def username_reject_def)
  obtain commands where c: "buildWeeklyAllowedHoursCommands ''alice'' ?w = Inr commands"
    by (simp add: buildWeeklyAllowedHoursCommands_def u weekly_allowed_def ALL_ISO_WEEKDAYS_def allowedWindowsToAllowedHours_def
        touched_hours_def add_window_def add_hour_def hour_entry_def Let_def buildSetAllowedDays_def formatDays_def assertDay_def
        buildSetAllowedHours_def formatAllowedHours_def formatAllowedHour_def upto_rec1 upto_empty)
  have "open_days ?w = [1, 6]" by (simp add: open_days_def ALL_ISO_WEEKDAYS_def day_windows_def)
  moreover have "js_join '';'' (map show_int [1, 6]) = ''1;6''" by (simp add: show_int_def show_nat.simps)
  ultimately show ?thesis using weekly_commands_exact [OF c] c by auto
qed

section \<open>Round trip of \<open>--userinfo\<close>\<close>

definition well_formed_field :: "string \<times> string \<Rightarrow> bool" where
  "well_formed_field kv \<longleftrightarrow>
     fst kv \<noteq> [] \<and> list_all is_key_char (fst kv)
     \<and> CHR 0x0A \<notin> set (snd kv) \<and> CHR 0x0D \<notin> set (snd kv)
     \<and> (snd kv = [] \<or> hd (snd kv) \<noteq> CHR '' '' \<and> hd (snd kv) \<noteq> CHR 0x09)"

definition render_field :: "string \<times> string \<Rightarrow> string" where
  "render_field kv = fst kv @ '': '' @ snd kv"

definition render_userinfo :: "(string \<times> string) list \<Rightarrow> string" where
  "render_userinfo info = js_join [CHR 0x0A] (map render_field info)"

lemma not_key_chars [simp]:
  "\<not> is_key_char (CHR '':'')" "\<not> is_key_char (CHR 0x0A)" "\<not> is_key_char (CHR 0x0D)"
  by (simp_all add: is_key_char_def)

lemma key_char_not_space: "is_key_char c \<Longrightarrow> \<not> is_js_space c"
  by (auto simp: is_key_char_def is_js_space_def)

lemma render_field_chars:
  assumes "well_formed_field kv"
  shows "CHR 0x0A \<notin> set (render_field kv)" "CHR 0x0D \<notin> set (render_field kv)"
    "\<not> list_all is_js_space (render_field kv)"
proof -
  have k: "fst kv \<noteq> []" "\<forall>c \<in> set (fst kv). is_key_char c" and v: "CHR 0x0A \<notin> set (snd kv)" "CHR 0x0D \<notin> set (snd kv)"
    using assms by (simp_all add: well_formed_field_def list_all_iff)
  have "CHR 0x0A \<notin> set (fst kv)" "CHR 0x0D \<notin> set (fst kv)" using k(2) not_key_chars(2,3) by blast+
  then show "CHR 0x0A \<notin> set (render_field kv)" "CHR 0x0D \<notin> set (render_field kv)"
    using v by (simp_all add: render_field_def)
  have "\<not> is_js_space (hd (fst kv))" using k key_char_not_space by simp
  then show "\<not> list_all is_js_space (render_field kv)"
    using k(1) by (cases "fst kv") (simp_all add: render_field_def)
qed

lemma match_render_field:
  assumes "well_formed_field kv"
  shows "match_key_value (render_field kv) = Some kv"
proof -
  obtain k v where kv: "kv = (k, v)" by fastforce
  have k: "k \<noteq> []" "\<forall>c \<in> set k. is_key_char c" and v: "CHR 0x0A \<notin> set v" "CHR 0x0D \<notin> set v"
    and hd_v: "dropWhile (\<lambda>c. c = CHR '' '' \<or> c = CHR 0x09) v = v"
    using assms unfolding kv well_formed_field_def list_all_iff fst_conv snd_conv
    by (blast, blast, blast, blast, cases v) simp_all
  have "takeWhile is_key_char (k @ '': '' @ v) = k" "dropWhile is_key_char (k @ '': '' @ v) = '': '' @ v"
    using k(2) by (simp_all add: takeWhile_append2 dropWhile_append2)
  then show ?thesis using k(1) v hd_v by (simp add: kv render_field_def match_key_value_def Let_def)
qed

lemma userinfo_line_render:
  assumes "well_formed_field kv"
  shows "userinfo_line (m, b) (render_field kv) = Inr (AList.update (fst kv) (snd kv) m, True)"
proof -
  have "render_field kv \<noteq> [] \<Longrightarrow> last (render_field kv) \<noteq> CHR 0x0D"
    using render_field_chars(2) [OF assms] last_in_set by metis
  then have "strip_cr (render_field kv) = render_field kv" by (auto simp: strip_cr_def)
  then show ?thesis
    using render_field_chars(3) [OF assms] match_render_field [OF assms]
    by (simp add: userinfo_line_def Let_def split_beta)
qed

lemma userinfo_lines_render:
  assumes "\<forall>kv \<in> set info. well_formed_field kv" "distinct (map fst (m @ info))"
  shows "foldE userinfo_line (m, b) (map render_field info) = Inr (m @ info, b \<or> info \<noteq> [])"
  using assms
proof (induction info arbitrary: m b)
  case (Cons kv info)
  then have "AList.update (fst kv) (snd kv) m = m @ [kv]" by (subst update_absent) auto
  then have "foldE userinfo_line (m, b) (map render_field (kv # info))
      = foldE userinfo_line (m @ [kv], True) (map render_field info)"
    using Cons.prems(1) by (simp add: userinfo_line_render)
  also have "\<dots> = Inr (m @ kv # info, True)" using Cons.prems by (subst Cons.IH) auto
  finally show ?case by simp
qed simp

text \<open>
  Parsing is inverse to printing: the block of lines \<open>KEY: VALUE\<close> of a configuration with
  distinct keys parses back to that configuration, keys in the order printed.
\<close>

theorem userinfo_roundtrip:
  assumes "info \<noteq> []" "\<forall>kv \<in> set info. well_formed_field kv" "distinct (map fst info)"
  shows "timekprUserInfoSchema (render_userinfo info) = Inr info
    \<and> (\<forall>kv \<in> set info. userinfo_get info (fst kv) = Some (snd kv)) \<and> userinfo_keys info = map fst info"
proof (intro conjI)
  have "js_split (CHR 0x0A) (render_userinfo info) = map render_field info"
    unfolding render_userinfo_def using assms(1,2) render_field_chars(1) by (intro js_split_join) auto
  moreover have "foldE userinfo_line ([], False) (map render_field info) = Inr (info, True)"
    using userinfo_lines_render [of info "[]" False] assms by simp
  ultimately show "timekprUserInfoSchema (render_userinfo info) = Inr info"
    by (simp add: timekprUserInfoSchema_def)
  show "\<forall>kv \<in> set info. userinfo_get info (fst kv) = Some (snd kv)"
    using assms(3) by (simp add: userinfo_get_def)
qed (simp add: userinfo_keys_def)

lemma userinfo_roundtrip_witness:
  "timekprUserInfoSchema (render_userinfo [(''TIME_LIMIT_PER_WEEK'', ''86400''), (''LOCKOUT_TYPE'', ''lock'')])
     = Inr [(''TIME_LIMIT_PER_WEEK'', ''86400''), (''LOCKOUT_TYPE'', ''lock'')]"
  by (rule userinfo_roundtrip [THEN conjunct1]) (simp_all add: well_formed_field_def is_key_char_def)

end
