(* ===== verification/Policy_Push.thy ===== *)
theory Policy_Push
  imports Offline_Queue Group_Resolution Next_Transition Timekpr
begin

text \<open>
  \<open>transport/policy-push\<close> and the client of \<open>transport/timekpr/client.ts\<close>: resolving a user's policy
  into the inputs of a push (\<open>resolve.ts\<close>), the preview of what a push changes (\<open>diff.ts\<close>), the
  validation of a queued payload (\<open>payload.ts\<close>), the registry of platform runners, the Linux runner,
  the executor behind the queue, the commands a mutation computes (\<open>transport/stub.ts\<close>) and the manual
  push. The SSH transport, the time zone database and the clock are parameters; an awaited call is an
  action on the world (\<open>'w act\<close>) that may reject. The private key and the port of a target are left
  out, and so are the texts of the argument errors. Text outside ASCII is its UTF-8 bytes.
\<close>

section \<open>Actions on the world\<close>

type_synonym 'w act = "'w world \<Rightarrow> (rejection + unit) \<times> 'w world"

definition skip :: "'w act" where "skip s = (Inr (), s)"

definition throw :: "rejection \<Rightarrow> 'w act" where "throw e s = (Inl e, s)"

definition and_then :: "'w act \<Rightarrow> 'w act \<Rightarrow> 'w act" where
  "and_then f g s = (case f s of (Inl e, s') \<Rightarrow> (Inl e, s') | (Inr _, s') \<Rightarrow> g s')"

fun run_all :: "'w act list \<Rightarrow> 'w act" where
  "run_all [] s = skip s"
| "run_all (f # fs) s = and_then f (run_all fs) s"

definition fatal :: "string \<Rightarrow> rejection" where
  "fatal msg = \<lparr>rej_retriable = False, rej_message = msg\<rparr>"

section \<open>Resolving a push\<close>

definition DAYS_PER_WEEK :: int where "DAYS_PER_WEEK = 7"
definition SECONDS_PER_DAY :: int where "SECONDS_PER_DAY = 86400"
definition DAYS_PER_MONTH_MAX :: int where "DAYS_PER_MONTH_MAX = 31"

record resolved_push =
  rp_perWeekdaySeconds :: "int list option"
  rp_weeklySeconds :: "int option"
  rp_monthlySeconds :: "int option"
  rp_weekly :: weekly_windows

definition rollingOverallSeconds :: "budget_input list \<Rightarrow> budget_window \<Rightarrow> int option" where
  "rollingOverallSeconds budgets window =
     (let matching = filter (\<lambda>b. bi_scope b = Overall \<and> bi_window b = window) budgets
      in if length matching = 0 then None else Some (foldl (\<lambda>sum b. sum + bi_secondsAllowed b) 0 matching))"

definition resolvePolicyPush ::
    "tzdb \<Rightarrow> string \<Rightarrow> schedule_rule list \<Rightarrow> budget_input list \<Rightarrow> instant \<Rightarrow> tz_error + resolved_push" where
  "resolvePolicyPush zdb tz schedules budgets now =
     bindE (resolveWeeklyAllowedWindows zdb schedules tz now) (\<lambda>weekly.
       let perWeekday = map (overallDailySecondsForWeekday budgets) ALL_ISO_WEEKDAYS in
       Inr \<lparr>rp_perWeekdaySeconds =
              (if list_all (\<lambda>s. s = None) perWeekday then None
               else Some (map (\<lambda>s. nullish s SECONDS_PER_DAY) perWeekday)),
            rp_weeklySeconds = rollingOverallSeconds budgets Weekly,
            rp_monthlySeconds = rollingOverallSeconds budgets Monthly,
            rp_weekly = weekly\<rparr>)"

definition unrestrictedPolicyPush :: resolved_push where
  "unrestrictedPolicyPush =
     \<lparr>rp_perWeekdaySeconds = Some (replicate (nat DAYS_PER_WEEK) SECONDS_PER_DAY),
      rp_weeklySeconds = Some (SECONDS_PER_DAY * DAYS_PER_WEEK),
      rp_monthlySeconds = Some (SECONDS_PER_DAY * DAYS_PER_MONTH_MAX),
      rp_weekly = map (\<lambda>day. (day, [Interval 0 MINUTES_PER_DAY])) ALL_ISO_WEEKDAYS\<rparr>"

section \<open>The preview of a push\<close>

datatype change_field = Daily_Overall | Weekly_Limit | Monthly_Limit | Allowed_Hours
datatype change_kind = Added | Removed | Changed

record push_change =
  ch_field :: change_field
  ch_kind :: change_kind
  ch_weekday :: "int option"
  ch_before :: "string option"
  ch_after :: "string option"
  ch_summary :: string

record push_diff =
  pd_hasChanges :: bool
  pd_changes :: "push_change list"

definition WEEKDAY_LABELS :: "int \<Rightarrow> string" where
  "WEEKDAY_LABELS d = [''Mon'', ''Tue'', ''Wed'', ''Thu'', ''Fri'', ''Sat'', ''Sun''] ! nat (d - 1)"

definition arrow :: string where "arrow = [CHR '' '', CHR 0xE2, CHR 0x86, CHR 0x92, CHR '' '']"
definition en_dash :: string where "en_dash = [CHR 0xE2, CHR 0x80, CHR 0x93]"

definition formatDuration :: "int \<Rightarrow> string" where
  "formatDuration seconds =
     (let hours = seconds div 3600; minutes = seconds mod 3600 div 60 in
      if hours > 0 \<and> minutes > 0 then show_int hours @ ''h '' @ show_int minutes @ ''m''
      else if hours > 0 then show_int hours @ ''h''
      else show_int minutes @ ''m'')"

definition formatLimit :: "int option \<Rightarrow> string" where
  "formatLimit s = (case s of None \<Rightarrow> ''no limit'' | Some v \<Rightarrow> formatDuration v)"

definition formatMinuteOfDay :: "minute \<Rightarrow> string" where
  "formatMinuteOfDay m = pad2 (m div 60) @ '':'' @ pad2 (m mod 60)"

definition formatWindows :: "time_window list \<Rightarrow> string" where
  "formatWindows ws =
     (if length ws = 0 then ''none''
      else js_join '', '' (map (\<lambda>w. formatMinuteOfDay (iv_start w) @ en_dash @ formatMinuteOfDay (iv_end w)) ws))"

definition windowsEqual :: "time_window list \<Rightarrow> time_window list \<Rightarrow> bool" where
  "windowsEqual a b \<longleftrightarrow>
     length a = length b
     \<and> list_all (\<lambda>i. iv_start (a ! i) = iv_start (b ! i) \<and> iv_end (a ! i) = iv_end (b ! i)) [0..<length a]"

definition changeKind :: "int option \<Rightarrow> int option \<Rightarrow> change_kind" where
  "changeKind old new = (if old = None then Added else if new = None then Removed else Changed)"

definition scalarLimitChange :: "change_field \<Rightarrow> string \<Rightarrow> int option \<Rightarrow> int option \<Rightarrow> push_change option" where
  "scalarLimitChange field label old new =
     (if old = new then None
      else Some \<lparr>ch_field = field, ch_kind = changeKind old new, ch_weekday = None,
                 ch_before = map_option formatDuration old, ch_after = map_option formatDuration new,
                 ch_summary = label @ '': '' @ formatLimit old @ arrow @ formatLimit new\<rparr>)"

definition isUniform :: "int list \<Rightarrow> bool" where
  "isUniform perWeekday \<longleftrightarrow> list_all (\<lambda>v. v = hd perWeekday) perWeekday"

definition dailyFor :: "int list option \<Rightarrow> int \<Rightarrow> int option" where
  "dailyFor perWeekday weekday =
     (case perWeekday of
        None \<Rightarrow> None
      | Some xs \<Rightarrow> if 1 \<le> weekday \<and> weekday \<le> int (length xs) then Some (xs ! nat (weekday - 1)) else None)"

definition daily_change :: "int list option \<Rightarrow> int list option \<Rightarrow> int \<Rightarrow> push_change list" where
  "daily_change old new weekday =
     (let b = dailyFor old weekday; a = dailyFor new weekday in
      if b = a then []
      else [\<lparr>ch_field = Daily_Overall, ch_kind = changeKind b a, ch_weekday = Some weekday,
             ch_before = map_option formatDuration b, ch_after = map_option formatDuration a,
             ch_summary = ''Daily overall limit ('' @ WEEKDAY_LABELS weekday @ ''): '' @ formatLimit b @ arrow @ formatLimit a\<rparr>])"

definition diffDailyOverall :: "int list option \<Rightarrow> int list option \<Rightarrow> push_change list" where
  "diffDailyOverall old new =
     (if old = None \<and> new = None then []
      else if pred_option isUniform old \<and> pred_option isUniform new
      then (case scalarLimitChange Daily_Overall ''Daily overall limit'' (dailyFor old 1) (dailyFor new 1) of
              None \<Rightarrow> [] | Some c \<Rightarrow> [c])
      else concat (map (daily_change old new) ALL_ISO_WEEKDAYS))"

definition hasAnyAllowedWindow :: "weekly_windows \<Rightarrow> bool" where
  "hasAnyAllowedWindow weekly \<longleftrightarrow> list_ex (\<lambda>e. length (snd e) > 0) weekly"

definition windows_of :: "weekly_windows \<Rightarrow> int \<Rightarrow> time_window list" where
  "windows_of weekly weekday = nullish (map_of weekly weekday) []"

definition hours_change :: "weekly_windows \<Rightarrow> weekly_windows \<Rightarrow> int \<Rightarrow> push_change list" where
  "hours_change old new weekday =
     (let b = windows_of old weekday; a = windows_of new weekday in
      if windowsEqual a b then []
      else [\<lparr>ch_field = Allowed_Hours,
             ch_kind = (if length b = 0 then Added else if length a = 0 then Removed else Changed),
             ch_weekday = Some weekday, ch_before = Some (formatWindows b), ch_after = Some (formatWindows a),
             ch_summary = ''Allowed hours ('' @ WEEKDAY_LABELS weekday @ ''): '' @ formatWindows b @ arrow @ formatWindows a\<rparr>])"

definition diffAllowedHours :: "weekly_windows \<Rightarrow> weekly_windows \<Rightarrow> push_change list" where
  "diffAllowedHours old new =
     (if \<not> hasAnyAllowedWindow new then [] else concat (map (hours_change old new) ALL_ISO_WEEKDAYS))"

definition change_list :: "push_change option \<Rightarrow> push_change list" where
  "change_list c = (case c of None \<Rightarrow> [] | Some x \<Rightarrow> [x])"

definition diffResolvedPush :: "resolved_push \<Rightarrow> resolved_push \<Rightarrow> push_diff" where
  "diffResolvedPush old new =
     (let changes =
        diffDailyOverall (rp_perWeekdaySeconds old) (rp_perWeekdaySeconds new)
        @ change_list (scalarLimitChange Weekly_Limit ''Weekly overall limit'' (rp_weeklySeconds old) (rp_weeklySeconds new))
        @ change_list (scalarLimitChange Monthly_Limit ''Monthly overall limit'' (rp_monthlySeconds old) (rp_monthlySeconds new))
        @ diffAllowedHours (rp_weekly old) (rp_weekly new)
      in \<lparr>pd_hasChanges = length changes > 0, pd_changes = changes\<rparr>)"

section \<open>The timekpra client\<close>

record ssh_target =
  tgt_host :: string
  tgt_username :: string

type_synonym 'w exec_checked = "ssh_target \<Rightarrow> argv \<Rightarrow> 'w act"

definition sshHostForClient :: "client_row \<Rightarrow> string" where
  "sshHostForClient c = nullish (client_sshTarget c) (client_hostname c)"

definition targetFromClient :: "client_row \<Rightarrow> ssh_target" where
  "targetFromClient c = \<lparr>tgt_host = sshHostForClient c, tgt_username = client_sshUser c\<rparr>"

definition DEFAULT_TIMEKPRA_BINARY :: argv where "DEFAULT_TIMEKPRA_BINARY = [''sudo'', ''timekpra'']"

record timekpr_client =
  tc_target :: ssh_target
  tc_username :: string
  tc_binary :: argv

definition argument_error :: rejection where "argument_error = fatal ''TimekprArgumentError''"

definition new_TimekprClient :: "ssh_target \<Rightarrow> string \<Rightarrow> argv \<Rightarrow> rejection + timekpr_client" where
  "new_TimekprClient target username binary =
     (if length binary = 0 then Inl argument_error
      else case buildUserInfo username of
          Inl _ \<Rightarrow> Inl argument_error
        | Inr _ \<Rightarrow> Inr \<lparr>tc_target = target, tc_username = username, tc_binary = binary\<rparr>)"

definition tc_exec :: "'w exec_checked \<Rightarrow> timekpr_client \<Rightarrow> timekpr_error + argv \<Rightarrow> 'w act" where
  "tc_exec transport tc build =
     (case build of Inl _ \<Rightarrow> throw argument_error | Inr argv \<Rightarrow> transport (tc_target tc) (tc_binary tc @ argv))"

definition setTimeLimits :: "'w exec_checked \<Rightarrow> timekpr_client \<Rightarrow> int list \<Rightarrow> 'w act" where
  "setTimeLimits transport tc perDay = tc_exec transport tc (buildSetTimeLimits (tc_username tc) perDay)"

definition setTimeLimitWeek :: "'w exec_checked \<Rightarrow> timekpr_client \<Rightarrow> int \<Rightarrow> 'w act" where
  "setTimeLimitWeek transport tc seconds = tc_exec transport tc (buildSetTimeLimitWeek (tc_username tc) seconds)"

definition setTimeLimitMonth :: "'w exec_checked \<Rightarrow> timekpr_client \<Rightarrow> int \<Rightarrow> 'w act" where
  "setTimeLimitMonth transport tc seconds = tc_exec transport tc (buildSetTimeLimitMonth (tc_username tc) seconds)"

definition setTimeLeft :: "'w exec_checked \<Rightarrow> timekpr_client \<Rightarrow> string \<Rightarrow> int \<Rightarrow> 'w act" where
  "setTimeLeft transport tc operation seconds = tc_exec transport tc (buildSetTimeLeft (tc_username tc) operation seconds)"

definition setWeeklyAllowedHours :: "'w exec_checked \<Rightarrow> timekpr_client \<Rightarrow> weekly_windows \<Rightarrow> 'w act" where
  "setWeeklyAllowedHours transport tc weekly =
     (case buildWeeklyAllowedHoursCommands (tc_username tc) weekly of
        Inl _ \<Rightarrow> throw argument_error
      | Inr commands \<Rightarrow> run_all (map (\<lambda>argv. transport (tc_target tc) (tc_binary tc @ argv)) commands))"

section \<open>Platform runners\<close>

record enforcement_context =
  ec_client :: client_row
  ec_username :: string
  ec_userId :: int
  ec_reason :: string
  ec_tz :: string
  ec_schedules :: "schedule_rule list"
  ec_budgets :: "budget_input list"
  ec_now :: instant

record unmanage_context =
  uc_client :: client_row
  uc_username :: string
  uc_userId :: int
  uc_reason :: string

record 'w runner =
  run_platform :: platform
  run_enforce :: "enforcement_context \<Rightarrow> 'w act"
  run_unmanage :: "unmanage_context \<Rightarrow> 'w act"

definition createPlatformRunnerRegistry :: "'w runner list \<Rightarrow> string + (platform \<times> 'w runner) list" where
  "createPlatformRunnerRegistry runners =
     foldE (\<lambda>byPlatform r.
       if map_of byPlatform (run_platform r) \<noteq> None then Inl ''duplicate transport runner''
       else Inr (AList.update (run_platform r) r byPlatform)) [] runners"

definition applyResolvedPush :: "'w exec_checked \<Rightarrow> timekpr_client \<Rightarrow> resolved_push \<Rightarrow> 'w act" where
  "applyResolvedPush transport tc resolved =
     and_then (case rp_perWeekdaySeconds resolved of None \<Rightarrow> skip | Some xs \<Rightarrow> setTimeLimits transport tc xs)
    (and_then (case rp_weeklySeconds resolved of None \<Rightarrow> skip | Some n \<Rightarrow> setTimeLimitWeek transport tc n)
    (and_then (case rp_monthlySeconds resolved of None \<Rightarrow> skip | Some n \<Rightarrow> setTimeLimitMonth transport tc n)
       (if list_ex (\<lambda>e. length (snd e) > 0) (rp_weekly resolved)
        then setWeeklyAllowedHours transport tc (rp_weekly resolved) else skip)))"

definition linux_client :: "client_row \<Rightarrow> string \<Rightarrow> rejection + timekpr_client" where
  "linux_client client username = new_TimekprClient (targetFromClient client) username DEFAULT_TIMEKPRA_BINARY"

definition linux_enforce :: "tzdb \<Rightarrow> 'w exec_checked \<Rightarrow> enforcement_context \<Rightarrow> 'w act" where
  "linux_enforce zdb transport ctx =
     (case resolvePolicyPush zdb (ec_tz ctx) (ec_schedules ctx) (ec_budgets ctx) (ec_now ctx) of
        Inl _ \<Rightarrow> throw (fatal ''InvalidTimeZoneError'')
      | Inr resolved \<Rightarrow>
          (case linux_client (ec_client ctx) (ec_username ctx) of
             Inl e \<Rightarrow> throw e
           | Inr tc \<Rightarrow> applyResolvedPush transport tc resolved))"

definition linux_unmanage :: "'w exec_checked \<Rightarrow> unmanage_context \<Rightarrow> 'w act" where
  "linux_unmanage transport ctx =
     (case linux_client (uc_client ctx) (uc_username ctx) of
        Inl e \<Rightarrow> throw e
      | Inr tc \<Rightarrow> applyResolvedPush transport tc unrestrictedPolicyPush)"

definition createLinuxPolicyRunner :: "tzdb \<Rightarrow> 'w exec_checked \<Rightarrow> 'w runner" where
  "createLinuxPolicyRunner zdb transport =
     \<lparr>run_platform = Linux, run_enforce = linux_enforce zdb transport, run_unmanage = linux_unmanage transport\<rparr>"

section \<open>The executor\<close>

fun json_fields :: "json \<Rightarrow> (string \<times> json) list option" where
  "json_fields (JObj fs) = Some fs"
| "json_fields _ = None"

definition json_get :: "string \<Rightarrow> json \<Rightarrow> json option" where
  "json_get k j = (case json_fields j of None \<Rightarrow> None | Some fs \<Rightarrow> map_of fs k)"

fun nonempty_string :: "json option \<Rightarrow> string option" where
  "nonempty_string (Some (JStr s)) = (if length s < 1 then None else Some s)"
| "nonempty_string _ = None"

fun nullable_int :: "json option \<Rightarrow> int option option" where
  "nullable_int (Some JNull) = Some None"
| "nullable_int (Some (JNum n)) = Some (Some n)"
| "nullable_int _ = None"

record push_payload =
  pp_userId :: "int option"
  pp_reason :: string
  pp_detail :: json

definition policyPushPayloadSchema :: "json \<Rightarrow> push_payload option" where
  "policyPushPayloadSchema j =
     (case (nullable_int (json_get ''userId'' j), nonempty_string (json_get ''reason'' j), json_get ''detail'' j) of
        (Some u, Some r, Some d) \<Rightarrow>
          if json_fields d = None then None else Some \<lparr>pp_userId = u, pp_reason = r, pp_detail = d\<rparr>
      | _ \<Rightarrow> None)"

definition LINK_DELETED_REASON :: string where "LINK_DELETED_REASON = ''link.deleted''"

definition unlinkDetailSchema :: "json \<Rightarrow> string option" where
  "unlinkDetailSchema d = nonempty_string (json_get ''osUsername'' d)"

definition enforcement_of :: "db \<Rightarrow> string \<Rightarrow> instant \<Rightarrow> client_row \<Rightarrow> int \<Rightarrow> string \<Rightarrow> link_row \<Rightarrow> enforcement_context" where
  "enforcement_of d defaultTz now client userId reason link =
     \<lparr>ec_client = client, ec_username = link_osUsername link, ec_userId = userId, ec_reason = reason,
      ec_tz = nullish (case getUser d userId of None \<Rightarrow> None | Some u \<Rightarrow> user_tz u) defaultTz,
      ec_schedules = map fst (gatherUserScheduleRules (db_policy d) userId),
      ec_budgets = map fst (gatherUserBudgets (db_policy d) userId),
      ec_now = now\<rparr>"

definition policy_push_execute ::
    "(platform \<times> 'w runner) list \<Rightarrow> string \<Rightarrow> ('w \<Rightarrow> instant) \<Rightarrow> 'w executor" where
  "policy_push_execute registry defaultTz clock action s =
     (let d = fst s in
      case policyPushPayloadSchema (qa_payload action) of
        None \<Rightarrow> throw (fatal ''ZodError'') s
      | Some p \<Rightarrow>
      (case pp_userId p of
        None \<Rightarrow> skip s
      | Some userId \<Rightarrow>
      (case getClient d (qa_clientId action) of
        None \<Rightarrow> skip s
      | Some client \<Rightarrow>
      (case map_of registry (client_platform client) of
        None \<Rightarrow> skip s
      | Some runner \<Rightarrow>
      (case List.find (\<lambda>l. link_clientId l = qa_clientId action) (listUserLinks d userId) of
        None \<Rightarrow>
          if pp_reason p \<noteq> LINK_DELETED_REASON then skip s
          else (case unlinkDetailSchema (pp_detail p) of
              None \<Rightarrow> skip s
            | Some osUsername \<Rightarrow>
                run_unmanage runner \<lparr>uc_client = client, uc_username = osUsername, uc_userId = userId, uc_reason = pp_reason p\<rparr> s)
      | Some link \<Rightarrow>
          run_enforce runner (enforcement_of d defaultTz (clock (snd s)) client userId (pp_reason p) link) s)))))"

section \<open>The commands of a mutation, and the manual push\<close>

definition userPushCommands :: "string \<Rightarrow> int \<Rightarrow> int list \<Rightarrow> json \<Rightarrow> push_command list" where
  "userPushCommands reason userId clientIds detail =
     map (\<lambda>c. \<lparr>pc_clientId = c, pc_userId = Some userId, pc_reason = reason, pc_detail = detail\<rparr>) clientIds"

definition clientPushCommands :: "string \<Rightarrow> int \<Rightarrow> json \<Rightarrow> push_command list" where
  "clientPushCommands reason clientId detail =
     [\<lparr>pc_clientId = clientId, pc_userId = None, pc_reason = reason, pc_detail = detail\<rparr>]"

definition linkPushCommands :: "string \<Rightarrow> int \<Rightarrow> int \<Rightarrow> json \<Rightarrow> push_command list" where
  "linkPushCommands reason userId clientId detail =
     [\<lparr>pc_clientId = clientId, pc_userId = Some userId, pc_reason = reason, pc_detail = detail\<rparr>]"

datatype push_now_status = Now_Pushed | Now_Queued | Now_Failed
datatype push_now_error = Not_Linked_To_Client int int | Not_Linked int

record client_push_result =
  cp_clientId :: int
  cp_hostname :: string
  cp_osUsername :: string
  cp_status :: push_now_status
  cp_error :: "string option"

definition push_now_link ::
    "('w \<Rightarrow> instant) \<Rightarrow> 'w executor \<Rightarrow> int \<Rightarrow> client_push_result list \<times> 'w world \<Rightarrow> link_row
      \<Rightarrow> client_push_result list \<times> 'w world" where
  "push_now_link clock executor userId acc link =
     (case acc of (results, s) \<Rightarrow>
      let result = (\<lambda>hostname status err. \<lparr>cp_clientId = link_clientId link, cp_hostname = hostname,
                     cp_osUsername = link_osUsername link, cp_status = status, cp_error = err\<rparr>) in
      case getClient (fst s) (link_clientId link) of
        None \<Rightarrow> (results @ [result (''client '' @ show_int (link_clientId link)) Now_Failed
                    (Some (''Client '' @ show_int (link_clientId link) @ '' no longer exists''))], s)
      | Some client \<Rightarrow>
          let command = \<lparr>pc_clientId = link_clientId link, pc_userId = Some userId, pc_reason = ''user.updated'',
                         pc_detail = JObj [(''trigger'', JStr ''manual.push-now'')]\<rparr> in
          case pushOrEnqueue clock executor (queuedActionFromPolicyPush command) s of
            (Inr Pushed, s') \<Rightarrow> (results @ [result (client_hostname client) Now_Pushed None], s')
          | (Inr (Queued reason), s') \<Rightarrow> (results @ [result (client_hostname client) Now_Queued (Some reason)], s')
          | (Inl (Rejected e), s') \<Rightarrow> (results @ [result (client_hostname client) Now_Failed (Some (errorMessage e))], s')
          | (Inl (Storage v), s') \<Rightarrow> (results @ [result (client_hostname client) Now_Failed (Some ''SqliteError'')], s'))"

definition pushUserPolicyNow ::
    "('w \<Rightarrow> instant) \<Rightarrow> 'w executor \<Rightarrow> int \<Rightarrow> int option \<Rightarrow> 'w world
      \<Rightarrow> push_now_error + client_push_result list \<times> 'w world" where
  "pushUserPolicyNow clock executor userId clientId s =
     (let links = listUserLinks (fst s) userId;
          targets = (case clientId of None \<Rightarrow> links | Some c \<Rightarrow> filter (\<lambda>l. link_clientId l = c) links)
      in case (clientId, targets) of
           (Some c, []) \<Rightarrow> Inl (Not_Linked_To_Client userId c)
         | (None, []) \<Rightarrow> Inl (Not_Linked userId)
         | _ \<Rightarrow> Inr (foldl (push_now_link clock executor userId) ([], s) targets))"

section \<open>Lemmas on actions\<close>

text \<open>An SSH transport that never fails and whose outside world is the log of what it was sent.\<close>

type_synonym command_log = "(ssh_target \<times> argv) list"

definition log_exec :: "command_log exec_checked" where
  "log_exec target argv s = (Inr (), fst s, snd s @ [(target, argv)])"

text \<open>An action that leaves the database alone and only sends \<open>timekpra\<close> commands for one account of one host.\<close>

definition addresses :: "ssh_target \<Rightarrow> string \<Rightarrow> ssh_target \<times> argv \<Rightarrow> bool" where
  "addresses target username x \<longleftrightarrow>
     fst x = target \<and> (\<exists>flag rest. snd x = DEFAULT_TIMEKPRA_BINARY @ [flag, username] @ rest)"

definition sends_only :: "(ssh_target \<times> argv \<Rightarrow> bool) \<Rightarrow> command_log act \<Rightarrow> bool" where
  "sends_only P f \<longleftrightarrow> (\<forall>d log. \<exists>r more. f (d, log) = (r, d, log @ more) \<and> (\<forall>x \<in> set more. P x))"

lemma sends_only_skip [intro]: "sends_only P skip"
  by (simp add: sends_only_def skip_def)

lemma sends_only_throw [intro]: "sends_only P (throw e)"
  by (simp add: sends_only_def throw_def)

lemma sends_only_log [intro]: "P (target, argv) \<Longrightarrow> sends_only P (log_exec target argv)"
  by (simp add: sends_only_def log_exec_def)

lemma sends_only_and_then [intro]:
  assumes "sends_only P f" "sends_only P g"
  shows "sends_only P (and_then f g)"
  unfolding sends_only_def
proof (intro allI)
  fix d log
  obtain r more where f: "f (d, log) = (r, d, log @ more)" "\<forall>x \<in> set more. P x" using assms(1) unfolding sends_only_def by blast
  obtain r' more' where g: "g (d, log @ more) = (r', d, (log @ more) @ more')" "\<forall>x \<in> set more'. P x"
    using assms(2) by (metis sends_only_def)
  show "\<exists>r more. and_then f g (d, log) = (r, d, log @ more) \<and> (\<forall>x \<in> set more. P x)"
  proof (cases r)
    case (Inl e)
    then show ?thesis using f by (intro exI [of _ "Inl e"] exI [of _ more]) (simp add: and_then_def)
  next
    case (Inr u)
    then show ?thesis using f g by (intro exI [of _ r'] exI [of _ "more @ more'"]) (auto simp: and_then_def)
  qed
qed

lemma run_all_Cons: "run_all (f # fs) = and_then f (run_all fs)"
  by (rule ext) simp

lemma sends_only_run_all [intro]: "(\<And>f. f \<in> set fs \<Longrightarrow> sends_only P f) \<Longrightarrow> sends_only P (run_all fs)"
proof (induction fs)
  case Nil
  have "run_all [] = skip" by (rule ext) simp
  then show ?case by (simp add: sends_only_skip)
qed (simp add: run_all_Cons sends_only_and_then del: run_all.simps)

lemma argv_shape:
  "buildSetTimeLimits u xs = Inr argv \<Longrightarrow> \<exists>flag rest. argv = [flag, u] @ rest"
  "buildSetTimeLimitWeek u n = Inr argv \<Longrightarrow> \<exists>flag rest. argv = [flag, u] @ rest"
  "buildSetTimeLimitMonth u n = Inr argv \<Longrightarrow> \<exists>flag rest. argv = [flag, u] @ rest"
  "buildSetTimeLeft u op n = Inr argv \<Longrightarrow> \<exists>flag rest. argv = [flag, u] @ rest"
  "buildSetAllowedDays u ds = Inr argv \<Longrightarrow> \<exists>flag rest. argv = [flag, u] @ rest"
  "buildSetAllowedHours u day hs = Inr argv \<Longrightarrow> \<exists>flag rest. argv = [flag, u] @ rest"
  by (auto simp: buildSetTimeLimits_def buildSetTimeLimitWeek_def buildSetTimeLimitMonth_def buildSetTimeLeft_def
      buildSetAllowedDays_def buildSetAllowedHours_def bindE_eq_Inr split: if_splits)

lemma weekly_argv_shape:
  assumes "buildWeeklyAllowedHoursCommands u weekly = Inr commands" "argv \<in> set commands"
  shows "\<exists>flag rest. argv = [flag, u] @ rest"
proof -
  have hours: "mapE (\<lambda>a. buildSetAllowedHours u (Day (fst a)) (snd a)) allowed = Inr xs \<Longrightarrow> x \<in> set xs \<Longrightarrow>
      \<exists>flag rest. x = [flag, u] @ rest" for allowed xs x
    unfolding mapE_eq_Inr by (induction allowed xs rule: list_all2_induct) (auto dest: argv_shape(6))
  from assms(1) obtain allowed where "weekly_allowed weekly = Inr allowed"
    and c: "(case allowed of [] \<Rightarrow> Inl NoAllowedDays | first # _ \<Rightarrow>
           bindE (buildSetAllowedDays u (map fst allowed)) (\<lambda>days.
             if length allowed = length ALL_ISO_WEEKDAYS
                \<and> list_all (\<lambda>a. sameAllowedHours (snd a) (snd first)) allowed
             then bindE (buildSetAllowedHours u All_Days (snd first)) (\<lambda>hours. Inr [days, hours])
             else bindE (mapE (\<lambda>a. buildSetAllowedHours u (Day (fst a)) (snd a)) allowed)
                    (\<lambda>hours. Inr (days # hours)))) = Inr commands"
    unfolding buildWeeklyAllowedHoursCommands_def bindE_eq_Inr by blast
  from c assms(2) show ?thesis
    by (cases allowed) (auto simp only: list.case bindE_eq_Inr Inr_not_Inl if_split_mem2 set_simps empty_iff insert_iff
        dest: argv_shape(5,6) hours split: if_splits)
qed

lemma weekly_flags:
  assumes "buildWeeklyAllowedHoursCommands u weekly = Inr commands" "argv \<in> set commands"
  shows "hd argv = ''--setalloweddays'' \<or> hd argv = ''--setallowedhours''"
proof -
  have hour: "buildSetAllowedHours u day hs = Inr x \<Longrightarrow> hd x = ''--setallowedhours''" for day hs x
    by (auto simp: buildSetAllowedHours_def bindE_eq_Inr)
  have day: "buildSetAllowedDays u ds = Inr x \<Longrightarrow> hd x = ''--setalloweddays''" for ds x
    by (auto simp: buildSetAllowedDays_def bindE_eq_Inr)
  have hours: "mapE (\<lambda>a. buildSetAllowedHours u (Day (fst a)) (snd a)) allowed = Inr xs \<Longrightarrow> x \<in> set xs \<Longrightarrow>
      hd x = ''--setallowedhours''" for allowed xs x
    unfolding mapE_eq_Inr by (induction allowed xs rule: list_all2_induct) (auto dest: hour)
  from assms(1) obtain allowed where "weekly_allowed weekly = Inr allowed"
    and c: "(case allowed of [] \<Rightarrow> Inl NoAllowedDays | first # _ \<Rightarrow>
           bindE (buildSetAllowedDays u (map fst allowed)) (\<lambda>days.
             if length allowed = length ALL_ISO_WEEKDAYS
                \<and> list_all (\<lambda>a. sameAllowedHours (snd a) (snd first)) allowed
             then bindE (buildSetAllowedHours u All_Days (snd first)) (\<lambda>hours. Inr [days, hours])
             else bindE (mapE (\<lambda>a. buildSetAllowedHours u (Day (fst a)) (snd a)) allowed)
                    (\<lambda>hours. Inr (days # hours)))) = Inr commands"
    unfolding buildWeeklyAllowedHoursCommands_def bindE_eq_Inr by blast
  from c assms(2) show ?thesis
    by (cases allowed) (auto simp only: list.case bindE_eq_Inr Inr_not_Inl if_split_mem2 set_simps empty_iff insert_iff
        dest: day hour hours split: if_splits)
qed

lemma tc_exec_sends:
  assumes "\<And>argv. build = Inr argv \<Longrightarrow> \<exists>flag rest. argv = [flag, tc_username tc] @ rest" "tc_binary tc = DEFAULT_TIMEKPRA_BINARY"
  shows "sends_only (addresses (tc_target tc) (tc_username tc)) (tc_exec log_exec tc build)"
  using assms by (cases build) (auto simp: tc_exec_def addresses_def)

lemma apply_sends:
  assumes "tc_binary tc = DEFAULT_TIMEKPRA_BINARY"
  shows "sends_only (addresses (tc_target tc) (tc_username tc)) (applyResolvedPush log_exec tc resolved)"
proof -
  let ?P = "addresses (tc_target tc) (tc_username tc)"
  have "sends_only ?P (setTimeLimits log_exec tc xs)" "sends_only ?P (setTimeLimitWeek log_exec tc n)"
    "sends_only ?P (setTimeLimitMonth log_exec tc n)" for xs n
    unfolding setTimeLimits_def setTimeLimitWeek_def setTimeLimitMonth_def
    by (rule tc_exec_sends [OF argv_shape(1) assms], assumption, rule tc_exec_sends [OF argv_shape(2) assms], assumption,
        rule tc_exec_sends [OF argv_shape(3) assms], assumption)
  moreover have "sends_only ?P (setWeeklyAllowedHours log_exec tc weekly)" for weekly
  proof (cases "buildWeeklyAllowedHoursCommands (tc_username tc) weekly")
    case (Inr commands)
    have "sends_only ?P (log_exec (tc_target tc) (tc_binary tc @ argv))" if "argv \<in> set commands" for argv
      using weekly_argv_shape [OF Inr that] assms by (intro sends_only_log) (simp add: addresses_def)
    then show ?thesis unfolding setWeeklyAllowedHours_def Inr sum.case by (intro sends_only_run_all) auto
  qed (simp add: setWeeklyAllowedHours_def sends_only_throw)
  ultimately show ?thesis unfolding applyResolvedPush_def
    by (intro sends_only_and_then) (auto split: option.split)
qed

lemma linux_client_shape:
  assumes "linux_client c u = Inr tc"
  shows "tc_target tc = targetFromClient c" "tc_username tc = u" "tc_binary tc = DEFAULT_TIMEKPRA_BINARY"
  using assms by (auto simp: linux_client_def new_TimekprClient_def DEFAULT_TIMEKPRA_BINARY_def split: sum.splits)

lemma linux_enforce_sends:
  "sends_only (addresses (targetFromClient (ec_client ctx)) (ec_username ctx)) (linux_enforce zdb log_exec ctx)"
  unfolding linux_enforce_def using apply_sends linux_client_shape
  by (auto split: sum.split) (metis apply_sends linux_client_shape)

lemma linux_unmanage_sends:
  "sends_only (addresses (targetFromClient (uc_client ctx)) (uc_username ctx)) (linux_unmanage log_exec ctx)"
  unfolding linux_unmanage_def
  by (auto split: sum.split) (metis apply_sends linux_client_shape)

definition linux_registry :: "tzdb \<Rightarrow> 'w exec_checked \<Rightarrow> (platform \<times> 'w runner) list" where
  "linux_registry zdb transport = [(Linux, createLinuxPolicyRunner zdb transport)]"

lemma linux_registry_created: "createPlatformRunnerRegistry [createLinuxPolicyRunner zdb transport] = Inr (linux_registry zdb transport)"
  by (simp add: createPlatformRunnerRegistry_def linux_registry_def createLinuxPolicyRunner_def)

text \<open>The account an action may touch on its client: the linked one, or the one named by an unlink.\<close>

definition may_touch :: "db \<Rightarrow> queued_action \<Rightarrow> string \<Rightarrow> bool" where
  "may_touch d action username \<longleftrightarrow>
     (\<exists>p userId. policyPushPayloadSchema (qa_payload action) = Some p \<and> pp_userId p = Some userId
       \<and> (case List.find (\<lambda>l. link_clientId l = qa_clientId action) (listUserLinks d userId) of
            Some link \<Rightarrow> username = link_osUsername link
          | None \<Rightarrow> pp_reason p = LINK_DELETED_REASON \<and> unlinkDetailSchema (pp_detail p) = Some username))"

section \<open>Properties\<close>

text \<open>
  A policy push only ever sends \<open>timekpra\<close> commands, to the host of the action's client, which is a
  Linux client, for the account the user is linked to there, or, when that link is gone, for the
  account an unlink names; it does not write the database.
\<close>

theorem push_addresses_linked_account:
  assumes "policy_push_execute (linux_registry zdb log_exec) defaultTz clock action (d, log) = (r, d', log')"
  shows "d' = d \<and> (\<exists>more. log' = log @ more \<and> (more = [] \<or> (\<exists>client username.
      getClient d (qa_clientId action) = Some client \<and> client_platform client = Linux \<and> may_touch d action username
      \<and> (\<forall>x \<in> set more. addresses (targetFromClient client) username x))))"
proof -
  let ?goal = "\<lambda>f. \<exists>client username. getClient d (qa_clientId action) = Some client \<and> client_platform client = Linux
      \<and> may_touch d action username \<and> f = (r, d', log') \<and> (\<exists>more. d' = d \<and> log' = log @ more
      \<and> (\<forall>x \<in> set more. addresses (targetFromClient client) username x))"
  have quiet: "d' = d \<and> log' = log" if "(x, d, log) = (r, d', log')" for x :: "rejection + unit" using that by simp
  show ?thesis
  proof (cases "\<exists>p userId client. policyPushPayloadSchema (qa_payload action) = Some p \<and> pp_userId p = Some userId
      \<and> getClient d (qa_clientId action) = Some client \<and> client_platform client = Linux")
    case False
    then have "d' = d \<and> log' = log"
      using assms
      by (auto simp: policy_push_execute_def Let_def skip_def throw_def linux_registry_def split: option.splits if_splits)
    then show ?thesis by simp
  next
    case True
    then obtain p userId client where p: "policyPushPayloadSchema (qa_payload action) = Some p" "pp_userId p = Some userId"
      "getClient d (qa_clientId action) = Some client" "client_platform client = Linux" by blast
    have reg: "map_of (linux_registry zdb log_exec) Linux = Some (createLinuxPolicyRunner zdb log_exec)"
      by (simp add: linux_registry_def)
    note exec = assms [unfolded policy_push_execute_def Let_def fst_conv snd_conv p option.case reg]
    show ?thesis
    proof (cases "List.find (\<lambda>l. link_clientId l = qa_clientId action) (listUserLinks d userId)")
      case (Some link)
      let ?ctx = "enforcement_of d defaultTz (clock log) client userId (pp_reason p) link"
      have ctx: "ec_client ?ctx = client" "ec_username ?ctx = link_osUsername link"
        "linux_enforce zdb log_exec ?ctx (d, log) = (r, d', log')"
        using exec unfolding Some option.case createLinuxPolicyRunner_def by (simp_all add: enforcement_of_def)
      obtain r2 more where "linux_enforce zdb log_exec ?ctx (d, log) = (r2, d, log @ more)"
        "\<forall>x \<in> set more. addresses (targetFromClient client) (link_osUsername link) x"
        using linux_enforce_sends [of ?ctx zdb] ctx(1,2) unfolding sends_only_def by metis
      moreover have "may_touch d action (link_osUsername link)" using p Some by (simp add: may_touch_def)
      ultimately show ?thesis using ctx(3) p(3,4) by auto
    next
      case None
      show ?thesis
      proof (cases "pp_reason p = LINK_DELETED_REASON \<and> unlinkDetailSchema (pp_detail p) \<noteq> None")
        case True
        then obtain osUsername where u: "unlinkDetailSchema (pp_detail p) = Some osUsername" by auto
        let ?ctx = "\<lparr>uc_client = client, uc_username = osUsername, uc_userId = userId, uc_reason = pp_reason p\<rparr>"
        have ctx: "uc_client ?ctx = client" "uc_username ?ctx = osUsername"
          "linux_unmanage log_exec ?ctx (d, log) = (r, d', log')"
          using exec True unfolding None option.case createLinuxPolicyRunner_def u by simp_all
        obtain r2 more where "linux_unmanage log_exec ?ctx (d, log) = (r2, d, log @ more)"
          "\<forall>x \<in> set more. addresses (targetFromClient client) osUsername x"
          using linux_unmanage_sends [of ?ctx] ctx(1,2) unfolding sends_only_def by metis
        moreover have "may_touch d action osUsername" using p None u True by (simp add: may_touch_def)
        ultimately show ?thesis using ctx(3) p(3,4) by auto
      next
        case False
        then have "d' = d \<and> log' = log"
          using exec unfolding None option.case by (auto simp: skip_def split: if_splits option.splits)
        then show ?thesis by simp
      qed
    qed
  qed
qed

definition linked_db :: db where
  "linked_db = run_db
     [Create_User \<lparr>uc_displayName = ''Alice'', uc_tz = None\<rparr>,
      Create_Client \<lparr>cc_hostname = ''kids-pc'', cc_sshUser = ''pct-agent'', cc_friendlyName = None\<rparr>,
      Upsert_Link 1 1 ''alice'' ''1001'']"

lemma linked_db_eq:
  "getClient linked_db 1 = Some \<lparr>client_id = 1, client_hostname = ''kids-pc'', client_friendlyName = None,
     client_sshUser = ''pct-agent'', client_bearerTokenHash = None, client_lastSeen = None, client_sshTarget = None,
     client_lastTelemetryPullAt = None,
     client_agentVersion = None, client_versionsReportedAt = None, client_platform = Linux, client_updateRequired = False,
     client_lastVerifiedAt = None, client_lastVerifyReachable = None, client_lastVerifyReason = None,
     client_capabilities = None, client_reportedIps = None\<rparr>"
  "listUserLinks linked_db 1 = [\<lparr>link_userId = 1, link_clientId = 1, link_osUsername = ''alice'', link_osUserRef = ''1001''\<rparr>]"
  by (simp_all add: linked_db_def run_db_def empty_db_def createUser_def createClient_def upsertLink_def getUser_def
      getClient_def listUserLinks_def Let_def)

definition edit_action :: queued_action where
  "edit_action = \<lparr>qa_id = None, qa_clientId = 1, qa_coalesceKey = ''user:1'', qa_kind = POLICY_PUSH_KIND,
     qa_payload = JObj [(''userId'', JNum 1), (''reason'', JStr ''user.updated''), (''detail'', JObj [])]\<rparr>"

lemma push_addresses_linked_account_witness:
  "list_all (addresses \<lparr>tgt_host = ''kids-pc'', tgt_username = ''pct-agent''\<rparr> ''alice'')
     (snd (snd (policy_push_execute (linux_registry sample_tzdb log_exec) ''America/New_York''
        (\<lambda>_. 1741521600000) edit_action (linked_db, []))))"
proof -
  obtain r d' log' where e: "policy_push_execute (linux_registry sample_tzdb log_exec) ''America/New_York''
      (\<lambda>_. 1741521600000) edit_action (linked_db, []) = (r, d', log')" by (metis prod_cases3)
  have "may_touch linked_db edit_action u \<Longrightarrow> u = ''alice''" for u
    by (simp add: may_touch_def edit_action_def policyPushPayloadSchema_def json_get_def linked_db_eq)
  moreover have "getClient linked_db (qa_clientId edit_action) = Some c \<Longrightarrow>
      targetFromClient c = \<lparr>tgt_host = ''kids-pc'', tgt_username = ''pct-agent''\<rparr>" for c
    by (auto simp: edit_action_def linked_db_eq targetFromClient_def sshHostForClient_def)
  ultimately show ?thesis using push_addresses_linked_account [OF e] unfolding e snd_conv list_all_iff by fastforce
qed

text \<open>The commands that lift every limit of an account.\<close>

definition unrestricted_commands :: "string \<Rightarrow> argv list" where
  "unrestricted_commands u =
     [[''--settimelimits'', u, ''86400;86400;86400;86400;86400;86400;86400''],
      [''--settimelimitweek'', u, ''604800''],
      [''--settimelimitmonth'', u, ''2678400''],
      [''--setalloweddays'', u, ''1;2;3;4;5;6;7''],
      [''--setallowedhours'', u, ''ALL'', ''0;1;2;3;4;5;6;7;8;9;10;11;12;13;14;15;16;17;18;19;20;21;22;23'']]"

lemma show_int_limits:
  "show_int 86400 = ''86400''" "show_int 604800 = ''604800''" "show_int 2678400 = ''2678400''"
  by (simp_all add: show_int_def show_nat.simps)

lemma all_day_hours:
  "allowedWindowsToAllowedHours [Interval 0 1440] =
    Inr (map (\<lambda>h. \<lparr>ah_hour = h, ah_startMinute = None, ah_endMinute = None, ah_unaccounted = None\<rparr>) [0..23])"
proof -
  have t: "touched_hours (Interval 0 1440) = [0..23]" by (simp add: touched_hours_def)
  have e: "hour_entry (Interval 0 1440) h = \<lparr>ah_hour = h, ah_startMinute = None, ah_endMinute = None, ah_unaccounted = None\<rparr>"
    if "0 \<le> h" "h \<le> 23" for h
    using that by (simp add: hour_entry_def Let_def max_def min_def)
  have "sort_key fst (window_entries (Interval 0 1440)) = window_entries (Interval 0 1440)"
    by (rule sort_key_id_if_sorted) (simp add: window_entries_def comp_def t)
  then show ?thesis
    unfolding allowedHours_iff using e by (simp add: assertWindows_iff normal_Cons proper_def window_entries_def t)
qed

lemma all_day_argv:
  assumes "assertUsername u = Inr ()"
  shows "buildWeeklyAllowedHoursCommands u (rp_weekly unrestrictedPolicyPush) =
    Inr [[''--setalloweddays'', u, ''1;2;3;4;5;6;7''],
         [''--setallowedhours'', u, ''ALL'', ''0;1;2;3;4;5;6;7;8;9;10;11;12;13;14;15;16;17;18;19;20;21;22;23'']]"
proof -
  let ?hs = "map (\<lambda>h. \<lparr>ah_hour = h, ah_startMinute = None, ah_endMinute = None, ah_unaccounted = None\<rparr>) [0..23]"
  have "weekly_allowed (rp_weekly unrestrictedPolicyPush) = Inr (map (\<lambda>k. (k, ?hs)) ALL_ISO_WEEKDAYS)"
    unfolding weekly_allowed_iff
    by (simp add: open_days_def day_windows_def unrestrictedPolicyPush_def ALL_ISO_WEEKDAYS_def MINUTES_PER_DAY_def all_day_hours)
  moreover have "buildSetAllowedDays u ALL_ISO_WEEKDAYS = Inr [''--setalloweddays'', u, ''1;2;3;4;5;6;7'']"
    using assms by (simp add: buildSetAllowedDays_def formatDays_def ALL_ISO_WEEKDAYS_def assertDay_def show_int_def show_nat.simps)
  moreover have "buildSetAllowedHours u All_Days ?hs = Inr [''--setallowedhours'', u, ''ALL'',
      ''0;1;2;3;4;5;6;7;8;9;10;11;12;13;14;15;16;17;18;19;20;21;22;23'']"
    using assms by (simp add: buildSetAllowedHours_def formatAllowedHours_def formatAllowedHour_def upto_rec1 upto_empty
        show_int_def show_nat.simps)
  ultimately show ?thesis
    by (simp add: buildWeeklyAllowedHoursCommands_def sameAllowedHours_eq list_all_iff ALL_ISO_WEEKDAYS_def del: upto_rec1)
qed

lemma unmanage_log:
  assumes "assertUsername u = Inr ()"
  shows "linux_unmanage log_exec \<lparr>uc_client = c, uc_username = u, uc_userId = i, uc_reason = why\<rparr> (d, log)
    = (Inr (), d, log @ map (\<lambda>argv. (targetFromClient c, DEFAULT_TIMEKPRA_BINARY @ argv)) (unrestricted_commands u))"
proof -
  define tc where "tc = \<lparr>tc_target = targetFromClient c, tc_username = u, tc_binary = DEFAULT_TIMEKPRA_BINARY\<rparr>"
  have lc: "linux_client c u = Inr tc"
    using assms by (simp add: linux_client_def new_TimekprClient_def DEFAULT_TIMEKPRA_BINARY_def buildUserInfo_def tc_def)
  have limits: "buildSetTimeLimits u (replicate 7 86400) = Inr [''--settimelimits'', u, ''86400;86400;86400;86400;86400;86400;86400'']"
    "buildSetTimeLimitWeek u 604800 = Inr [''--settimelimitweek'', u, ''604800'']"
    "buildSetTimeLimitMonth u 2678400 = Inr [''--settimelimitmonth'', u, ''2678400'']"
    using assms
    by (simp_all add: buildSetTimeLimits_def buildSetTimeLimitWeek_def buildSetTimeLimitMonth_def formatSecondsList_def
        assertSeconds_def MAX_SAFE_INTEGER_def show_int_limits numeral_eq_Suc)
  have push: "rp_perWeekdaySeconds unrestrictedPolicyPush = Some (replicate 7 86400)"
    "rp_weeklySeconds unrestrictedPolicyPush = Some 604800" "rp_monthlySeconds unrestrictedPolicyPush = Some 2678400"
    by (simp_all add: unrestrictedPolicyPush_def DAYS_PER_WEEK_def SECONDS_PER_DAY_def DAYS_PER_MONTH_MAX_def)
  have open_week: "list_ex (\<lambda>e. length (snd e) > 0) (rp_weekly unrestrictedPolicyPush)"
    unfolding unrestrictedPolicyPush_def ALL_ISO_WEEKDAYS_def by simp
  show ?thesis
    unfolding linux_unmanage_def unmanage_context.select_convs lc sum.case applyResolvedPush_def if_P [OF open_week]
    by (simp add: push setTimeLimits_def setTimeLimitWeek_def setTimeLimitMonth_def
        setWeeklyAllowedHours_def tc_exec_def and_then_def log_exec_def skip_def tc_def limits all_day_argv [OF assms]
        unrestricted_commands_def)
qed

text \<open>The action a push site hands the executor for a command.\<close>

definition action_of :: "push_command \<Rightarrow> queued_action" where
  "action_of c = (let a = queuedActionFromPolicyPush c in
     \<lparr>qa_id = None, qa_clientId = na_clientId a, qa_coalesceKey = na_coalesceKey a, qa_kind = na_kind a,
      qa_payload = na_payload a\<rparr>)"

lemma action_of_payload:
  assumes "json_fields (pc_detail c) \<noteq> None" "pc_reason c \<noteq> []"
  shows "policyPushPayloadSchema (qa_payload (action_of c))
    = Some \<lparr>pp_userId = pc_userId c, pp_reason = pc_reason c, pp_detail = pc_detail c\<rparr>"
    "qa_clientId (action_of c) = pc_clientId c"
proof -
  have p: "qa_payload (action_of c) = JObj [(''userId'', case pc_userId c of None \<Rightarrow> JNull | Some u \<Rightarrow> JNum u),
      (''reason'', JStr (pc_reason c)), (''detail'', pc_detail c)]"
    by (simp add: action_of_def queuedActionFromPolicyPush_def Let_def)
  have "nullable_int (Some (case pc_userId c of None \<Rightarrow> JNull | Some u \<Rightarrow> JNum u)) = Some (pc_userId c)"
    by (cases "pc_userId c") simp_all
  moreover have "nonempty_string (Some (JStr (pc_reason c))) = Some (pc_reason c)" using assms(2) by (cases "pc_reason c") simp_all
  ultimately show "policyPushPayloadSchema (qa_payload (action_of c))
    = Some \<lparr>pp_userId = pc_userId c, pp_reason = pc_reason c, pp_detail = pc_detail c\<rparr>"
    using assms(1) by (simp add: p policyPushPayloadSchema_def json_get_def)
  show "qa_clientId (action_of c) = pc_clientId c" by (simp add: action_of_def queuedActionFromPolicyPush_def Let_def)
qed

section \<open>Properties of the preview\<close>

lemma windowsEqual_eq: "windowsEqual a b \<longleftrightarrow> a = b"
  by (auto simp: windowsEqual_def list_all_iff intro!: nth_equalityI interval.expand)

lemma weekly_keys: "resolveWeeklyAllowedWindows zdb schedules tz now = Inr weekly \<Longrightarrow> map fst weekly = ALL_ISO_WEEKDAYS"
  by (auto simp: resolveWeeklyAllowedWindows_def bindE_eq_Inr ALL_ISO_WEEKDAYS_def Let_def split: prod.splits)

lemma resolve_shape:
  assumes "resolvePolicyPush zdb tz schedules budgets now = Inr rp"
  shows "map fst (rp_weekly rp) = ALL_ISO_WEEKDAYS" "pred_option (\<lambda>xs. length xs = 7) (rp_perWeekdaySeconds rp)"
  using assms weekly_keys
  by (auto simp: resolvePolicyPush_def bindE_eq_Inr Let_def ALL_ISO_WEEKDAYS_def split: if_splits)

lemma weekly_by_day:
  assumes "map fst weekly = ALL_ISO_WEEKDAYS"
  shows "weekly = map (\<lambda>k. (k, windows_of weekly k)) ALL_ISO_WEEKDAYS"
proof -
  have "distinct (map fst weekly)" unfolding assms by (simp add: ALL_ISO_WEEKDAYS_def)
  then have "x = (fst x, windows_of weekly (fst x))" if "x \<in> set weekly" for x
    using that by (cases x) (simp add: windows_of_def)
  then have "weekly = map (\<lambda>x. (fst x, windows_of weekly (fst x))) weekly" by (simp add: map_idI)
  also have "\<dots> = map (\<lambda>k. (k, windows_of weekly k)) (map fst weekly)" by simp
  finally show ?thesis unfolding assms .
qed

lemma weekly_eq_iff:
  assumes "map fst a = ALL_ISO_WEEKDAYS" "map fst b = ALL_ISO_WEEKDAYS"
  shows "a = b \<longleftrightarrow> (\<forall>k \<in> set ALL_ISO_WEEKDAYS. windows_of a k = windows_of b k)"
  using weekly_by_day [OF assms(1)] weekly_by_day [OF assms(2)] by (metis (no_types, lifting) map_cong)

lemma diffAllowedHours_Nil:
  assumes "map fst old = ALL_ISO_WEEKDAYS" "map fst new = ALL_ISO_WEEKDAYS"
  shows "diffAllowedHours old new = [] \<longleftrightarrow> (hasAnyAllowedWindow new \<longrightarrow> new = old)"
  unfolding weekly_eq_iff [OF assms(2,1)]
  by (auto simp: diffAllowedHours_def hours_change_def Let_def windowsEqual_eq split: if_splits)

lemma week_list_eq:
  assumes "length xs = 7" "length ys = 7"
  shows "xs = ys \<longleftrightarrow> (\<forall>k \<in> set ALL_ISO_WEEKDAYS. dailyFor (Some xs) k = dailyFor (Some ys) k)"
proof
  assume *: "\<forall>k \<in> set ALL_ISO_WEEKDAYS. dailyFor (Some xs) k = dailyFor (Some ys) k"
  show "xs = ys"
  proof (rule nth_equalityI)
    fix i assume "i < length xs"
    then have "int i + 1 \<in> set ALL_ISO_WEEKDAYS" using assms(1) by (auto simp: ALL_ISO_WEEKDAYS_def)
    with * have "dailyFor (Some xs) (int i + 1) = dailyFor (Some ys) (int i + 1)" by blast
    with \<open>i < length xs\<close> show "xs ! i = ys ! i" using assms by (simp add: dailyFor_def)
  qed (use assms in simp)
qed simp

lemma uniform_week: "length xs = 7 \<Longrightarrow> isUniform xs \<Longrightarrow> xs = replicate 7 (hd xs)"
  by (auto simp: isUniform_def list_all_iff intro: replicate_eqI)

lemma diffDailyOverall_Nil:
  assumes "pred_option (\<lambda>xs. length xs = 7) old" "pred_option (\<lambda>xs. length xs = 7) new"
  shows "diffDailyOverall old new = [] \<longleftrightarrow> new = old"
proof (cases "pred_option isUniform old \<and> pred_option isUniform new")
  case True
  have first: "dailyFor (Some xs) 1 = Some (hd xs)" if "length xs = 7" for xs
    using that by (cases xs) (simp_all add: dailyFor_def)
  have none: "dailyFor None 1 = None" by (simp add: dailyFor_def)
  have eq: "hd xs = hd ys \<Longrightarrow> length xs = 7 \<Longrightarrow> length ys = 7 \<Longrightarrow> isUniform xs \<Longrightarrow> isUniform ys \<Longrightarrow> xs = ys" for xs ys
    using uniform_week by metis
  have "diffDailyOverall old new = [] \<longleftrightarrow> dailyFor old 1 = dailyFor new 1"
    using True by (auto simp: diffDailyOverall_def scalarLimitChange_def none)
  also have "\<dots> \<longleftrightarrow> new = old"
    using assms True by (cases old; cases new) (auto simp: first none intro: eq)
  finally show ?thesis .
next
  case False
  then have "diffDailyOverall old new = [] \<longleftrightarrow> (\<forall>k \<in> set ALL_ISO_WEEKDAYS. dailyFor old k = dailyFor new k)"
    by (auto simp: diffDailyOverall_def daily_change_def Let_def)
  also have "\<dots> \<longleftrightarrow> new = old"
  proof (cases old; cases new)
    fix xs ys assume "old = Some xs" "new = Some ys"
    then show ?thesis using assms week_list_eq [of xs ys] by auto
  next
    fix xs assume "old = Some xs" "new = None"
    moreover have "dailyFor (Some xs) 1 \<noteq> None" using \<open>old = Some xs\<close> assms(1) by (simp add: dailyFor_def)
    ultimately show ?thesis by (auto simp: ALL_ISO_WEEKDAYS_def) (simp add: dailyFor_def)
  next
    fix ys assume "old = None" "new = Some ys"
    moreover have "dailyFor (Some ys) 1 \<noteq> None" using \<open>new = Some ys\<close> assms(2) by (simp add: dailyFor_def)
    ultimately show ?thesis by (auto simp: ALL_ISO_WEEKDAYS_def) (simp add: dailyFor_def)
  qed auto
  finally show ?thesis .
qed

text \<open>
  The preview of an edit reports no change exactly when the push after the edit has the same daily,
  weekly and monthly limits and, unless it denies the whole week and so sends no grid, the same windows
  on every weekday.
\<close>

theorem preview_no_change_exact:
  assumes "resolvePolicyPush zdb tz schedules budgets now = Inr old"
    "resolvePolicyPush zdb' tz' schedules' budgets' now' = Inr new"
  shows "\<not> pd_hasChanges (diffResolvedPush old new) \<longleftrightarrow>
    rp_perWeekdaySeconds new = rp_perWeekdaySeconds old \<and> rp_weeklySeconds new = rp_weeklySeconds old
    \<and> rp_monthlySeconds new = rp_monthlySeconds old \<and> (hasAnyAllowedWindow (rp_weekly new) \<longrightarrow> rp_weekly new = rp_weekly old)"
  using diffDailyOverall_Nil [OF resolve_shape(2) [OF assms(1)] resolve_shape(2) [OF assms(2)]]
    diffAllowedHours_Nil [OF resolve_shape(1) [OF assms(1)] resolve_shape(1) [OF assms(2)]]
  by (auto simp: diffResolvedPush_def Let_def change_list_def scalarLimitChange_def split: option.splits if_splits)

lemma sample_resolves:
  "\<exists>rp. resolvePolicyPush sample_tzdb ''America/New_York'' schedules budgets 1741521600000 = Inr rp"
proof -
  have "assertTimeZone sample_tzdb ''America/New_York'' = Inr ()"
    by (simp add: assertTimeZone_def isValidTimeZone_def sample_tzdb_def)
  from weekly_total [OF this] obtain weekly where
    "resolveWeeklyAllowedWindows sample_tzdb schedules ''America/New_York'' 1741521600000 = Inr weekly" by blast
  then show ?thesis by (simp add: resolvePolicyPush_def Let_def)
qed

definition two_hours :: budget_input where
  "two_hours = \<lparr>bi_scope = Overall, bi_targetId = None, bi_window = Daily, bi_secondsAllowed = 7200, bi_recurrenceDays = None\<rparr>"

lemma two_hours_every_day:
  assumes "resolvePolicyPush zdb tz schedules [two_hours] now = Inr rp"
  shows "rp_perWeekdaySeconds rp = Some (replicate 7 7200)"
proof -
  have "overallDailySecondsForWeekday [two_hours] k = Some 7200" for k
    by (simp add: overallDailySecondsForWeekday_def selectBudgetsForWeekday_def slot_rows_for_weekday_def group_by_def
        group_add_def is_overall_daily_def two_hours_def Let_def)
  then show ?thesis
    using assms by (auto simp: resolvePolicyPush_def bindE_eq_Inr Let_def ALL_ISO_WEEKDAYS_def numeral_eq_Suc)
qed

lemma no_budgets:
  assumes "resolvePolicyPush zdb tz schedules [] now = Inr rp"
  shows "rp_perWeekdaySeconds rp = None"
proof -
  have "overallDailySecondsForWeekday [] k = None" for k
    by (simp add: overallDailySecondsForWeekday_def selectBudgetsForWeekday_def group_by_def Let_def)
  then show ?thesis using assms by (auto simp: resolvePolicyPush_def bindE_eq_Inr Let_def ALL_ISO_WEEKDAYS_def)
qed

lemma preview_no_change_exact_witness:
  "\<exists>old new. resolvePolicyPush sample_tzdb ''America/New_York'' [] [two_hours] 1741521600000 = Inr old
     \<and> resolvePolicyPush sample_tzdb ''America/New_York'' [] [] 1741521600000 = Inr new
     \<and> pd_hasChanges (diffResolvedPush old new)"
proof -
  obtain old new where r: "resolvePolicyPush sample_tzdb ''America/New_York'' [] [two_hours] 1741521600000 = Inr old"
    "resolvePolicyPush sample_tzdb ''America/New_York'' [] [] 1741521600000 = Inr new"
    using sample_resolves by blast
  then show ?thesis
    using preview_no_change_exact [OF r] two_hours_every_day [OF r(1)] no_budgets [OF r(2)] by auto
qed

text \<open>
  Dropping the last overall limit of a window is previewed as its removal, yet the push that follows
  sends no command for that window, so the client keeps the limit: the executor sends limits only
  when there are some.
\<close>

theorem removed_limit_not_pushed:
  assumes "rp_perWeekdaySeconds old = Some (replicate 7 n)" "rp_perWeekdaySeconds new = None"
    "linux_client client u = Inr tc" "applyResolvedPush log_exec tc new (d, []) = (r, d', log)"
  shows "(\<exists>change. change \<in> set (pd_changes (diffResolvedPush old new)) \<and> ch_field change = Daily_Overall
      \<and> ch_kind change = Removed \<and> ch_after change = None)
    \<and> (\<forall>x \<in> set log. snd x ! 2 \<noteq> ''--settimelimits'')"
proof
  have "dailyFor (Some (replicate 7 n)) 1 = Some n" by (simp add: dailyFor_def)
  then have "diffDailyOverall (rp_perWeekdaySeconds old) (rp_perWeekdaySeconds new)
      = [\<lparr>ch_field = Daily_Overall, ch_kind = Removed, ch_weekday = None, ch_before = Some (formatDuration n), ch_after = None,
          ch_summary = ''Daily overall limit: '' @ formatDuration n @ arrow @ ''no limit''\<rparr>]"
    using assms(1,2)
    by (simp add: diffDailyOverall_def isUniform_def list_all_iff scalarLimitChange_def dailyFor_def changeKind_def formatLimit_def)
  then show "\<exists>change. change \<in> set (pd_changes (diffResolvedPush old new)) \<and> ch_field change = Daily_Overall
      \<and> ch_kind change = Removed \<and> ch_after change = None"
    by (simp add: diffResolvedPush_def Let_def) (rule exI, rule conjI, rule disjI1, rule refl, simp)
  let ?P = "\<lambda>x. snd x ! 2 \<noteq> ''--settimelimits''"
  have bin: "tc_binary tc = [''sudo'', ''timekpra'']"
    using linux_client_shape(3) [OF assms(3)] by (simp add: DEFAULT_TIMEKPRA_BINARY_def)
  have week: "sends_only ?P (setTimeLimitWeek log_exec tc k)" "sends_only ?P (setTimeLimitMonth log_exec tc k)" for k
    unfolding setTimeLimitWeek_def setTimeLimitMonth_def tc_exec_def
    by (auto split: sum.split simp: bin buildSetTimeLimitWeek_def buildSetTimeLimitMonth_def bindE_eq_Inr)
  have flags: "hd argv = ''--setalloweddays'' \<or> hd argv = ''--setallowedhours''"
    if "buildWeeklyAllowedHoursCommands u weekly = Inr commands" "argv \<in> set commands" for u weekly commands argv
    using that by (rule weekly_flags)
  have "sends_only ?P (setWeeklyAllowedHours log_exec tc weekly)" for weekly
  proof (cases "buildWeeklyAllowedHoursCommands (tc_username tc) weekly")
    case (Inr commands)
    have "sends_only ?P (log_exec (tc_target tc) (tc_binary tc @ argv))" if "argv \<in> set commands" for argv
      using flags [OF Inr that] weekly_argv_shape [OF Inr that] by (intro sends_only_log) (auto simp: bin)
    then show ?thesis unfolding setWeeklyAllowedHours_def Inr sum.case by (intro sends_only_run_all) auto
  qed (simp add: setWeeklyAllowedHours_def sends_only_throw)
  then have "sends_only ?P (applyResolvedPush log_exec tc new)"
    unfolding applyResolvedPush_def assms(2) option.case using week
    by (intro sends_only_and_then) (auto split: option.split)
  then show "\<forall>x \<in> set log. ?P x" using assms(4) unfolding sends_only_def by (metis append_Nil prod.inject)
qed

lemma removed_limit_not_pushed_witness:
  "\<exists>old new client tc r d' log. getClient linked_db 1 = Some client \<and> linux_client client ''alice'' = Inr tc
     \<and> resolvePolicyPush sample_tzdb ''America/New_York'' [] [two_hours] 1741521600000 = Inr old
     \<and> resolvePolicyPush sample_tzdb ''America/New_York'' [] [] 1741521600000 = Inr new
     \<and> applyResolvedPush log_exec tc new (linked_db, []) = (r, d', log)
     \<and> (\<forall>x \<in> set log. snd x ! 2 \<noteq> ''--settimelimits'')"
proof -
  obtain old new where r: "resolvePolicyPush sample_tzdb ''America/New_York'' [] [two_hours] 1741521600000 = Inr old"
    "resolvePolicyPush sample_tzdb ''America/New_York'' [] [] 1741521600000 = Inr new"
    using sample_resolves by blast
  obtain client where c: "getClient linked_db 1 = Some client" by (simp add: linked_db_eq)
  have "assertUsername ''alice'' = Inr ()" by (simp add: assertUsername_def username_reject_def)
  then obtain tc where tc: "linux_client client ''alice'' = Inr tc"
    by (simp add: linux_client_def new_TimekprClient_def DEFAULT_TIMEKPRA_BINARY_def buildUserInfo_def)
  obtain res d' log where run: "applyResolvedPush log_exec tc new (linked_db, []) = (res, d', log)" by (metis prod_cases3)
  show ?thesis
    using removed_limit_not_pushed [OF two_hours_every_day [OF r(1)] no_budgets [OF r(2)] tc run] r c tc run by blast
qed

text \<open>
  Whatever the rules, as long as they are well formed, the windows resolved for a week pass the
  assertions of the allowed-hours translation, so only a sub-hour pattern can make the push of a grid
  fail.
\<close>

theorem resolved_week_passes_assertions:
  assumes "resolvePolicyPush zdb tz schedules budgets now = Inr rp" "\<forall>r \<in> set schedules. wf_rule r"
  shows "\<forall>day \<in> set (rp_weekly rp). assertWindows (- 1) (snd day) = Inr ()"
proof
  fix day assume day: "day \<in> set (rp_weekly rp)"
  have "resolveWeeklyAllowedWindows zdb schedules tz now = Inr (rp_weekly rp)"
    using assms(1) by (auto simp: resolvePolicyPush_def bindE_eq_Inr Let_def)
  moreover obtain c where c: "localCalendarDate zdb now tz = Inr c"
    using calculation by (auto simp: resolveWeeklyAllowedWindows_def bindE_eq_Inr simp del: mapE.simps)
  moreover obtain y m d where "c = (y, m, d)" by (cases c)
  ultimately obtain monday where "mapE (\<lambda>offset. bindE (effectivePolicy zdb (day_input (addCalendarDays monday offset) tz schedules))
      (\<lambda>ep. Inr (offset + 1, ep_allowedWindows ep))) [0, 1, 2, 3, 4, 5, 6] = Inr (rp_weekly rp)"
    by (simp add: resolveWeeklyAllowedWindows_def Let_def del: mapE.simps)
  from mapE_mem [OF this day] obtain offset where
    "bindE (effectivePolicy zdb (day_input (addCalendarDays monday offset) tz schedules))
      (\<lambda>ep. Inr (offset + 1, ep_allowedWindows ep)) = Inr day" by blast
  then obtain ep where
    ep: "effectivePolicy zdb (day_input (addCalendarDays monday offset) tz schedules) = Inr ep" "snd day = ep_allowedWindows ep"
    by (auto simp: bindE_eq_Inr)
  have "normal (snd day) \<and> (\<forall>w \<in> set (snd day). 0 \<le> iv_start w \<and> iv_end w \<le> 1440)"
    unfolding ep(2) using assms(2) by (intro effectivePolicy_windows [OF _ _ ep(1)]) (simp_all add: day_input_def)
  then show "assertWindows (- 1) (snd day) = Inr ()" unfolding assertWindows_iff by fastforce
qed

lemma resolved_week_passes_assertions_witness:
  "\<exists>rp. resolvePolicyPush sample_tzdb ''America/New_York'' [night_rule] [] 1741521600000 = Inr rp
     \<and> (\<forall>day \<in> set (rp_weekly rp). assertWindows (- 1) (snd day) = Inr ())"
proof -
  obtain rp where r: "resolvePolicyPush sample_tzdb ''America/New_York'' [night_rule] [] 1741521600000 = Inr rp"
    using sample_resolves by blast
  have "wf_rule night_rule" by (simp add: night_rule_def wf_rule_def wf_minutes_def)
  then show ?thesis using resolved_week_passes_assertions [OF r] r by simp
qed

end
