(* ===== verification/Policy_Api.thy ===== *)
theory Policy_Api
  imports Policy_Records Policy_Push JS_Date
begin

text \<open>
  The policy routes: \<open>api/policy/routes\<close> with their shared guards and error mappers (\<open>shared.ts\<close>) and the
  reordering of \<open>api/policy/schedule-order.ts\<close>. A handler acts on the database and on the commands handed to
  the policy push so far, and throws an \<open>ApiError\<close> of a status and a code; a request has passed the schemas
  and the admin check. The message texts of errors are left out.
\<close>

section \<open>Handlers\<close>

datatype api_error = Api_Error int string | Internal_Error

type_synonym api_state = "db \<times> push_command list"
type_synonym 'a handler = "api_state \<Rightarrow> (api_error + 'a) \<times> api_state"

definition reply :: "'a \<Rightarrow> 'a handler" where
  "reply x s = (Inr x, s)"

definition api_throw :: "api_error \<Rightarrow> 'a handler" where
  "api_throw e s = (Inl e, s)"

definition then_api :: "'a handler \<Rightarrow> ('a \<Rightarrow> 'b handler) \<Rightarrow> 'b handler" where
  "then_api m f s = (case m s of (Inl e, s') \<Rightarrow> (Inl e, s') | (Inr x, s') \<Rightarrow> f x s')"

definition query :: "(db \<Rightarrow> 'a) \<Rightarrow> 'a handler" where
  "query f s = (Inr (f (fst s)), s)"

definition db_write :: "(db \<Rightarrow> db \<times> 'a) \<Rightarrow> 'a handler" where
  "db_write f s = (case f (fst s) of (d, x) \<Rightarrow> (Inr x, d, snd s))"

definition push_commands :: "push_command list \<Rightarrow> unit handler" where
  "push_commands cmds s = (Inr (), fst s, snd s @ cmds)"

definition asConflict :: "(db \<Rightarrow> violation + db \<times> 'a) \<Rightarrow> 'a handler" where
  "asConflict f s =
     (case f (fst s) of
        Inl Unique_Violation \<Rightarrow> (Inl (Api_Error 409 ''conflict''), s)
      | Inl Foreign_Key_Violation \<Rightarrow> (Inl Internal_Error, s)
      | Inr (d, x) \<Rightarrow> (Inr x, d, snd s))"

definition asValidated :: "(db \<Rightarrow> store_error + db \<times> 'a) \<Rightarrow> 'a handler" where
  "asValidated f s =
     (case f (fst s) of
        Inl CheckViolation \<Rightarrow> (Inl (Api_Error 400 ''validation_error''), s)
      | Inl (Reorder e) \<Rightarrow> (Inl Internal_Error, s)
      | Inr (d, x) \<Rightarrow> (Inr x, d, snd s))"

definition notFound :: api_error where "notFound = Api_Error 404 ''not_found''"

definition assertFound :: "'a option \<Rightarrow> 'a handler" where
  "assertFound row = (case row of None \<Rightarrow> api_throw notFound | Some r \<Rightarrow> reply r)"

definition assertRemoved :: "bool \<Rightarrow> unit handler" where
  "assertRemoved removed = (if \<not> removed then api_throw notFound else reply ())"

definition bad_target :: api_error where "bad_target = Api_Error 400 ''validation_error''"

definition assertTarget :: "scope \<Rightarrow> int option \<Rightarrow> unit handler" where
  "assertTarget kind targetId =
     (if kind = Overall then (if targetId \<noteq> None then api_throw bad_target else reply ())
      else case targetId of
          None \<Rightarrow> api_throw bad_target
        | Some t \<Rightarrow>
            then_api (query db_policy) (\<lambda>st.
              if kind = Activity \<and> getActivity st t = None then api_throw bad_target
              else if kind = Group \<and> getActivityGroup st t = None then api_throw bad_target
              else reply ()))"

text \<open>A write of the policy tables, as a write of the database.\<close>

definition with_store :: "(store \<Rightarrow> 'e + store \<times> 'a) \<Rightarrow> db \<Rightarrow> 'e + db \<times> 'a" where
  "with_store f d = (case f (db_policy d) of Inl e \<Rightarrow> Inl e | Inr (st, x) \<Rightarrow> Inr (d\<lparr>db_policy := st\<rparr>, x))"

definition on_store :: "(store \<Rightarrow> store \<times> 'a) \<Rightarrow> db \<Rightarrow> db \<times> 'a" where
  "on_store f d = (case f (db_policy d) of (st, x) \<Rightarrow> (d\<lparr>db_policy := st\<rparr>, x))"

definition push_to_user :: "string \<Rightarrow> int \<Rightarrow> json \<Rightarrow> unit handler" where
  "push_to_user reason userId detail =
     then_api (query (\<lambda>d. listUserClientIds d userId)) (\<lambda>clientIds. push_commands (userPushCommands reason userId clientIds detail))"

definition groupMemberPushCommands :: "db \<Rightarrow> string \<Rightarrow> int \<Rightarrow> json \<Rightarrow> push_command list" where
  "groupMemberPushCommands d reason groupId detail =
     concat (map (\<lambda>m. userPushCommands reason (user_id m) (listUserClientIds d (user_id m)) detail) (listGroupMembers d groupId))"

definition push_to_members :: "string \<Rightarrow> int \<Rightarrow> json \<Rightarrow> unit handler" where
  "push_to_members reason groupId detail =
     then_api (query (\<lambda>d. groupMemberPushCommands d reason groupId detail)) push_commands"

section \<open>The details of a command\<close>

definition json_id :: "int option \<Rightarrow> json" where
  "json_id t = (case t of None \<Rightarrow> JNull | Some i \<Rightarrow> JNum i)"

definition given :: "string \<Rightarrow> ('a \<Rightarrow> json) \<Rightarrow> 'a option \<Rightarrow> (string \<times> json) list" where
  "given k f v = (case v of None \<Rightarrow> [] | Some x \<Rightarrow> [(k, f x)])"

definition json_text :: "string option \<Rightarrow> json" where
  "json_text t = (case t of None \<Rightarrow> JNull | Some x \<Rightarrow> JStr x)"

fun action_name :: "schedule_action \<Rightarrow> string" where
  "action_name Allow = ''allow''"
| "action_name Deny = ''deny''"
| "action_name Extend = ''extend''"

fun profile_name :: "sound_profile \<Rightarrow> string" where
  "profile_name Sound_Off = ''off''"
| "profile_name Sound_Subtle = ''subtle''"
| "profile_name Sound_Prominent = ''prominent''"

definition target_fields :: "string \<Rightarrow> scope \<Rightarrow> int option \<Rightarrow> (string \<times> json) list" where
  "target_fields k kind target = [(k, JStr (scope_name kind)), (''targetId'', json_id target)]"

definition budget_fields :: "budget_input \<Rightarrow> (string \<times> json) list" where
  "budget_fields b = target_fields ''scope'' (bi_scope b) (bi_targetId b)
     @ [(''window'', JStr (window_name (bi_window b))), (''secondsAllowed'', JNum (bi_secondsAllowed b))]"

definition budget_patch_fields :: "budget_update \<Rightarrow> (string \<times> json) list" where
  "budget_patch_fields p =
     given ''scope'' (JStr \<circ> scope_name) (bu_scope p) @ given ''targetId'' json_id (bu_targetId p)
     @ given ''window'' (JStr \<circ> window_name) (bu_window p) @ given ''secondsAllowed'' JNum (bu_secondsAllowed p)
     @ given ''recurrenceDays'' json_id (bu_recurrenceDays p)"

definition user_patch_fields :: "user_update \<Rightarrow> (string \<times> json) list" where
  "user_patch_fields p = given ''displayName'' JStr (uu_displayName p) @ given ''tz'' json_text (uu_tz p)"

definition client_patch_fields :: "client_update \<Rightarrow> (string \<times> json) list" where
  "client_patch_fields p =
     given ''hostname'' JStr (cu_hostname p) @ given ''sshUser'' JStr (cu_sshUser p)
     @ given ''friendlyName'' JStr (cu_friendlyName p) @ given ''sshTarget'' json_text (cu_sshTarget p)"

definition pad :: "nat \<Rightarrow> int \<Rightarrow> string" where
  "pad n v = (let s = show_int v in replicate (n - length s) (CHR ''0'') @ s)"

text \<open>\<open>Date.toISOString\<close> for the years 0 to 9999.\<close>

definition toISOString :: "instant \<Rightarrow> string" where
  "toISOString t =
     (case utc_civil t of (y, m, d) \<Rightarrow>
        pad 4 y @ ''-'' @ pad 2 m @ ''-'' @ pad 2 d @ ''T'' @ pad 2 (utc_hour t) @ '':'' @ pad 2 (utc_minute t) @ '':''
        @ pad 2 (utc_second t) @ ''.'' @ pad 3 (t mod 1000) @ ''Z'')"

definition schedule_fields :: "schedule_rule \<Rightarrow> (string \<times> json) list" where
  "schedule_fields r = target_fields ''targetKind'' (sr_targetKind r) (sr_targetId r)
     @ [(''action'', JStr (action_name (sr_action r))), (''ordinal'', JNum (sr_ordinal r))]"

definition exception_fields :: "exception_input \<Rightarrow> (string \<times> json) list" where
  "exception_fields x = target_fields ''targetKind'' (xi_targetKind x) (xi_targetId x)
     @ [(''action'', JStr (action_name (xi_action x))), (''expiresAt'', JStr (toISOString (xi_expiresAt x)))]"

section \<open>Users, clients and links\<close>

definition post_user :: "user_create \<Rightarrow> user_row handler" where
  "post_user body =
     then_api (db_write (\<lambda>d. createUser d body)) (\<lambda>row.
     then_api (push_to_user ''user.created'' (user_id row)
                 (JObj [(''displayName'', JStr (user_displayName row)), (''tz'', json_text (user_tz row))])) (\<lambda>_.
     reply row))"

definition patch_user_route :: "int \<Rightarrow> user_update \<Rightarrow> user_row handler" where
  "patch_user_route i body =
     then_api (db_write (\<lambda>d. updateUser d i body)) (\<lambda>found.
     then_api (assertFound found) (\<lambda>row.
     then_api (push_to_user ''user.updated'' (user_id row) (JObj (user_patch_fields body))) (\<lambda>_. reply row)))"

definition delete_user :: "int \<Rightarrow> unit handler" where
  "delete_user i =
     then_api (query (\<lambda>d. listUserClientIds d i)) (\<lambda>clientIds.
     then_api (db_write (\<lambda>d. deleteUser d i)) (\<lambda>removed.
     then_api (assertRemoved removed) (\<lambda>_.
     push_commands (userPushCommands ''user.deleted'' i clientIds (JObj [])))))"

definition post_client :: "client_create \<Rightarrow> client_row handler" where
  "post_client body =
     then_api (asConflict (\<lambda>d. createClient d body)) (\<lambda>row.
     then_api (push_commands (clientPushCommands ''client.created'' (client_id row)
                 (JObj [(''hostname'', JStr (client_hostname row)), (''sshUser'', JStr (client_sshUser row))]))) (\<lambda>_.
     reply row))"

definition patch_client_route :: "int \<Rightarrow> client_update \<Rightarrow> client_row handler" where
  "patch_client_route i body =
     then_api (asConflict (\<lambda>d. updateClient d i body)) (\<lambda>found.
     then_api (assertFound found) (\<lambda>row.
     then_api (push_commands (clientPushCommands ''client.updated'' (client_id row) (JObj (client_patch_fields body)))) (\<lambda>_.
     reply row)))"

definition delete_client :: "int \<Rightarrow> unit handler" where
  "delete_client i =
     then_api (db_write (\<lambda>d. deleteClient d i)) (\<lambda>removed.
     then_api (assertRemoved removed) (\<lambda>_.
     push_commands (clientPushCommands ''client.deleted'' i (JObj []))))"

definition put_link :: "int \<Rightarrow> int \<Rightarrow> string \<Rightarrow> string \<Rightarrow> link_row handler" where
  "put_link userId clientId osUsername osUserRef =
     then_api (query (\<lambda>d. getUser d userId)) (\<lambda>u.
     then_api (assertFound u) (\<lambda>_.
     then_api (query (\<lambda>d. getClient d clientId)) (\<lambda>c.
     then_api (assertFound c) (\<lambda>_.
     then_api (asConflict (\<lambda>d. upsertLink d userId clientId osUsername osUserRef)) (\<lambda>row.
     then_api (push_commands (linkPushCommands ''link.upserted'' userId clientId
                 (JObj [(''osUsername'', JStr (link_osUsername row)), (''osUserRef'', JStr (link_osUserRef row))]))) (\<lambda>_.
     reply row))))))"

definition delete_link :: "int \<Rightarrow> int \<Rightarrow> unit handler" where
  "delete_link userId clientId =
     then_api (db_write (\<lambda>d. deleteLink d userId clientId)) (\<lambda>found.
     then_api (assertFound found) (\<lambda>removed.
     push_commands (linkPushCommands LINK_DELETED_REASON userId clientId
       (JObj [(''osUsername'', JStr (link_osUsername removed)), (''osUserRef'', JStr (link_osUserRef removed))]))))"

section \<open>Groups, activities and memberships\<close>

definition post_user_group :: "string \<Rightarrow> (int \<times> string) handler" where
  "post_user_group name = asConflict (with_store (\<lambda>st. createUserGroup st name))"

definition patch_user_group :: "int \<Rightarrow> string option \<Rightarrow> (int \<times> string) handler" where
  "patch_user_group i name = then_api (asConflict (with_store (\<lambda>st. updateUserGroup st i name))) assertFound"

definition delete_user_group :: "int \<Rightarrow> unit handler" where
  "delete_user_group i = then_api (db_write (on_store (\<lambda>st. deleteUserGroup st i))) assertRemoved"

definition put_member :: "int \<Rightarrow> int \<Rightarrow> unit handler" where
  "put_member groupId userId =
     then_api (query (\<lambda>d. getUserGroup (db_policy d) groupId)) (\<lambda>g.
     then_api (assertFound g) (\<lambda>_.
     then_api (query (\<lambda>d. getUser d userId)) (\<lambda>u.
     then_api (assertFound u) (\<lambda>_.
     db_write (on_store (\<lambda>st. (addUserToGroup st groupId userId, ())))))))"

definition delete_member :: "int \<Rightarrow> int \<Rightarrow> unit handler" where
  "delete_member groupId userId = then_api (db_write (on_store (\<lambda>st. removeUserFromGroup st groupId userId))) assertRemoved"

definition post_activity :: "activity_create \<Rightarrow> activity_row handler" where
  "post_activity body = db_write (on_store (\<lambda>st. createActivity st body))"

definition patch_activity_route :: "(match_type \<Rightarrow> string \<Rightarrow> bool) \<Rightarrow> int \<Rightarrow> activity_update \<Rightarrow> activity_row handler" where
  "patch_activity_route isValidMatcher i body =
     then_api (query (\<lambda>d. getActivity (db_policy d) i)) (\<lambda>found.
     then_api (assertFound found) (\<lambda>existing.
     if \<not> isValidMatcher (nullish (au_matchType body) (act_matchType existing)) (nullish (au_matcher body) (act_matcher existing))
     then api_throw (Api_Error 400 ''validation_error'')
     else then_api (db_write (on_store (\<lambda>st. updateActivity st i body))) assertFound))"

definition delete_activity :: "int \<Rightarrow> unit handler" where
  "delete_activity i = then_api (db_write (on_store (\<lambda>st. deleteActivity st i))) assertRemoved"

definition post_activity_group :: "string \<Rightarrow> (int \<times> string) handler" where
  "post_activity_group name = asConflict (with_store (\<lambda>st. createActivityGroup st name))"

definition patch_activity_group :: "int \<Rightarrow> string option \<Rightarrow> (int \<times> string) handler" where
  "patch_activity_group i name = then_api (asConflict (with_store (\<lambda>st. updateActivityGroup st i name))) assertFound"

definition delete_activity_group :: "int \<Rightarrow> unit handler" where
  "delete_activity_group i = then_api (db_write (on_store (\<lambda>st. deleteActivityGroup st i))) assertRemoved"

definition put_group_activity :: "int \<Rightarrow> int \<Rightarrow> unit handler" where
  "put_group_activity groupId activityId =
     then_api (query (\<lambda>d. getActivityGroup (db_policy d) groupId)) (\<lambda>g.
     then_api (assertFound g) (\<lambda>_.
     then_api (query (\<lambda>d. getActivity (db_policy d) activityId)) (\<lambda>a.
     then_api (assertFound a) (\<lambda>_.
     db_write (on_store (\<lambda>st. (addActivityToGroup st groupId activityId, ())))))))"

definition delete_group_activity :: "int \<Rightarrow> int \<Rightarrow> unit handler" where
  "delete_group_activity groupId activityId =
     then_api (db_write (on_store (\<lambda>st. removeActivityFromGroup st groupId activityId))) assertRemoved"

section \<open>Budgets\<close>

definition post_budget :: "int \<Rightarrow> budget_input \<Rightarrow> budget_row handler" where
  "post_budget userId body =
     then_api (query (\<lambda>d. getUser d userId)) (\<lambda>u.
     then_api (assertFound u) (\<lambda>_.
     then_api (assertTarget (bi_scope body) (bi_targetId body)) (\<lambda>_.
     then_api (asValidated (with_store (\<lambda>st. createBudget st userId body))) (\<lambda>row.
     then_api (push_to_user ''budget.created'' userId (JObj ((''budgetId'', JNum (fst row)) # budget_fields (snd (snd row))))) (\<lambda>_.
     reply row)))))"

definition patch_budget_route :: "int \<Rightarrow> budget_update \<Rightarrow> budget_row handler" where
  "patch_budget_route i body =
     then_api (query (\<lambda>d. getBudget (db_policy d) i)) (\<lambda>found.
     then_api (assertFound found) (\<lambda>existing.
     then_api (assertTarget (nullish (bu_scope body) (bi_scope (snd (snd existing))))
                 (nullish (bu_targetId body) (bi_targetId (snd (snd existing))))) (\<lambda>_.
     then_api (asValidated (with_store (\<lambda>st. updateBudget st i body))) (\<lambda>updated.
     then_api (assertFound updated) (\<lambda>row.
     then_api (push_to_user ''budget.updated'' (fst (snd row)) (JObj ((''budgetId'', JNum (fst row)) # budget_patch_fields body))) (\<lambda>_.
     reply row))))))"

definition delete_budget :: "int \<Rightarrow> unit handler" where
  "delete_budget i =
     then_api (query (\<lambda>d. getBudget (db_policy d) i)) (\<lambda>found.
     then_api (assertFound found) (\<lambda>existing.
     then_api (query (\<lambda>d. listUserClientIds d (fst (snd existing)))) (\<lambda>clientIds.
     then_api (db_write (on_store (\<lambda>st. deleteBudget st i))) (\<lambda>_.
     push_commands (userPushCommands ''budget.deleted'' (fst (snd existing)) clientIds (JObj [(''budgetId'', JNum (fst existing))]))))))"

definition post_group_budget :: "int \<Rightarrow> budget_input \<Rightarrow> budget_row handler" where
  "post_group_budget groupId body =
     then_api (query (\<lambda>d. getUserGroup (db_policy d) groupId)) (\<lambda>g.
     then_api (assertFound g) (\<lambda>_.
     then_api (assertTarget (bi_scope body) (bi_targetId body)) (\<lambda>_.
     then_api (asValidated (with_store (\<lambda>st. createGroupBudget st groupId body))) (\<lambda>row.
     then_api (push_to_members ''budget.created'' groupId
                 (JObj ((''groupBudgetId'', JNum (fst row)) # (''userGroupId'', JNum groupId) # budget_fields (snd (snd row))))) (\<lambda>_.
     reply row)))))"

definition patch_group_budget :: "int \<Rightarrow> budget_update \<Rightarrow> budget_row handler" where
  "patch_group_budget i body =
     then_api (query (\<lambda>d. getGroupBudget (db_policy d) i)) (\<lambda>found.
     then_api (assertFound found) (\<lambda>existing.
     then_api (assertTarget (nullish (bu_scope body) (bi_scope (snd (snd existing))))
                 (nullish (bu_targetId body) (bi_targetId (snd (snd existing))))) (\<lambda>_.
     then_api (asValidated (with_store (\<lambda>st. updateGroupBudget st i body))) (\<lambda>updated.
     then_api (assertFound updated) (\<lambda>row.
     then_api (push_to_members ''budget.updated'' (fst (snd row))
                 (JObj ((''groupBudgetId'', JNum (fst row)) # (''userGroupId'', JNum (fst (snd row))) # budget_patch_fields body))) (\<lambda>_.
     reply row))))))"

definition delete_group_budget :: "int \<Rightarrow> unit handler" where
  "delete_group_budget i =
     then_api (query (\<lambda>d. getGroupBudget (db_policy d) i)) (\<lambda>found.
     then_api (assertFound found) (\<lambda>existing.
     then_api (query (\<lambda>d. groupMemberPushCommands d ''budget.deleted'' (fst (snd existing))
                 (JObj [(''groupBudgetId'', JNum (fst existing)), (''userGroupId'', JNum (fst (snd existing)))]))) (\<lambda>commands.
     then_api (db_write (on_store (\<lambda>st. deleteGroupBudget st i))) (\<lambda>_. push_commands commands))))"

section \<open>Schedules\<close>

definition post_schedule :: "int \<Rightarrow> schedule_create \<Rightarrow> schedule_rule handler" where
  "post_schedule userId body =
     then_api (query (\<lambda>d. getUser d userId)) (\<lambda>u.
     then_api (assertFound u) (\<lambda>_.
     then_api (assertTarget (sc_targetKind body) (sc_targetId body)) (\<lambda>_.
     then_api (asValidated (with_store (\<lambda>st. createSchedule st userId body))) (\<lambda>row.
     then_api (push_to_user ''schedule.created'' userId (JObj ((''scheduleId'', JNum (sr_id row)) # schedule_fields row))) (\<lambda>_.
     reply row)))))"

definition patch_schedule_route :: "int \<Rightarrow> schedule_update \<Rightarrow> schedule_rule handler" where
  "patch_schedule_route i body =
     then_api (query (\<lambda>d. getSchedule (db_policy d) i)) (\<lambda>found.
     then_api (assertFound found) (\<lambda>existing.
     then_api (assertTarget (nullish (su_targetKind body) (sr_targetKind (snd existing)))
                 (nullish (su_targetId body) (sr_targetId (snd existing)))) (\<lambda>_.
     then_api (asValidated (with_store (\<lambda>st. updateSchedule st i body))) (\<lambda>updated.
     then_api (assertFound updated) (\<lambda>row.
     then_api (push_to_user ''schedule.updated'' (fst existing) (JObj [(''scheduleId'', JNum (sr_id row))])) (\<lambda>_.
     reply row))))))"

definition delete_schedule :: "int \<Rightarrow> unit handler" where
  "delete_schedule i =
     then_api (query (\<lambda>d. getSchedule (db_policy d) i)) (\<lambda>found.
     then_api (assertFound found) (\<lambda>existing.
     then_api (query (\<lambda>d. listUserClientIds d (fst existing))) (\<lambda>clientIds.
     then_api (db_write (on_store (\<lambda>st. deleteSchedule st i))) (\<lambda>_.
     push_commands (userPushCommands ''schedule.deleted'' (fst existing) clientIds (JObj [(''scheduleId'', JNum (sr_id (snd existing)))]))))))"

definition post_group_schedule :: "int \<Rightarrow> schedule_create \<Rightarrow> schedule_rule handler" where
  "post_group_schedule groupId body =
     then_api (query (\<lambda>d. getUserGroup (db_policy d) groupId)) (\<lambda>g.
     then_api (assertFound g) (\<lambda>_.
     then_api (assertTarget (sc_targetKind body) (sc_targetId body)) (\<lambda>_.
     then_api (asValidated (with_store (\<lambda>st. createGroupSchedule st groupId body))) (\<lambda>row.
     then_api (push_to_members ''schedule.created'' groupId
                 (JObj ((''groupScheduleId'', JNum (sr_id row)) # (''userGroupId'', JNum groupId) # schedule_fields row))) (\<lambda>_.
     reply row)))))"

definition patch_group_schedule :: "int \<Rightarrow> schedule_update \<Rightarrow> schedule_rule handler" where
  "patch_group_schedule i body =
     then_api (query (\<lambda>d. getGroupSchedule (db_policy d) i)) (\<lambda>found.
     then_api (assertFound found) (\<lambda>existing.
     then_api (assertTarget (nullish (su_targetKind body) (sr_targetKind (snd existing)))
                 (nullish (su_targetId body) (sr_targetId (snd existing)))) (\<lambda>_.
     then_api (asValidated (with_store (\<lambda>st. updateGroupSchedule st i body))) (\<lambda>updated.
     then_api (assertFound updated) (\<lambda>row.
     then_api (push_to_members ''schedule.updated'' (fst existing)
                 (JObj [(''groupScheduleId'', JNum (sr_id row)), (''userGroupId'', JNum (fst existing))])) (\<lambda>_.
     reply row))))))"

definition delete_group_schedule :: "int \<Rightarrow> unit handler" where
  "delete_group_schedule i =
     then_api (query (\<lambda>d. getGroupSchedule (db_policy d) i)) (\<lambda>found.
     then_api (assertFound found) (\<lambda>existing.
     then_api (query (\<lambda>d. groupMemberPushCommands d ''schedule.deleted'' (fst existing)
                 (JObj [(''groupScheduleId'', JNum (sr_id (snd existing))), (''userGroupId'', JNum (fst existing))]))) (\<lambda>commands.
     then_api (db_write (on_store (\<lambda>st. deleteGroupSchedule st i))) (\<lambda>_. push_commands commands))))"

section \<open>Exceptions\<close>

text \<open>The time of the request is the creation time of a row.\<close>

definition post_exception :: "instant \<Rightarrow> int \<Rightarrow> exception_create \<Rightarrow> exception_row handler" where
  "post_exception now userId body =
     then_api (query (\<lambda>d. getUser d userId)) (\<lambda>u.
     then_api (assertFound u) (\<lambda>_.
     then_api (assertTarget (xc_targetKind body) (xc_targetId body)) (\<lambda>_.
     then_api (asValidated (with_store (\<lambda>st. createException st now userId body))) (\<lambda>row.
     then_api (push_to_user ''exception.created'' (fst row)
                 (JObj ((''exceptionId'', JNum (xi_id (snd row))) # exception_fields (snd row)))) (\<lambda>_.
     reply row)))))"

definition patch_exception_route :: "int \<Rightarrow> exception_update \<Rightarrow> exception_row handler" where
  "patch_exception_route i body =
     then_api (query (\<lambda>d. getException (db_policy d) i)) (\<lambda>found.
     then_api (assertFound found) (\<lambda>existing.
     then_api (assertTarget (nullish (xu_targetKind body) (xi_targetKind (snd existing)))
                 (nullish (xu_targetId body) (xi_targetId (snd existing)))) (\<lambda>_.
     then_api (asValidated (with_store (\<lambda>st. updateException st i body))) (\<lambda>updated.
     then_api (assertFound updated) (\<lambda>row.
     then_api (push_to_user ''exception.updated'' (fst row) (JObj [(''exceptionId'', JNum (xi_id (snd row)))])) (\<lambda>_.
     reply row))))))"

definition delete_exception :: "int \<Rightarrow> unit handler" where
  "delete_exception i =
     then_api (query (\<lambda>d. getException (db_policy d) i)) (\<lambda>found.
     then_api (assertFound found) (\<lambda>existing.
     then_api (query (\<lambda>d. listUserClientIds d (fst existing))) (\<lambda>clientIds.
     then_api (db_write (on_store (\<lambda>st. deleteException st i))) (\<lambda>_.
     push_commands (userPushCommands ''exception.deleted'' (fst existing) clientIds
       (JObj [(''exceptionId'', JNum (xi_id (snd existing)))]))))))"

definition post_group_exception :: "instant \<Rightarrow> int \<Rightarrow> exception_create \<Rightarrow> exception_row handler" where
  "post_group_exception now groupId body =
     then_api (query (\<lambda>d. getUserGroup (db_policy d) groupId)) (\<lambda>g.
     then_api (assertFound g) (\<lambda>_.
     then_api (assertTarget (xc_targetKind body) (xc_targetId body)) (\<lambda>_.
     then_api (asValidated (with_store (\<lambda>st. createGroupException st now groupId body))) (\<lambda>row.
     then_api (push_to_members ''exception.created'' groupId
                 (JObj ((''groupExceptionId'', JNum (xi_id (snd row))) # (''userGroupId'', JNum groupId)
                   # exception_fields (snd row)))) (\<lambda>_.
     reply row)))))"

definition patch_group_exception :: "int \<Rightarrow> exception_update \<Rightarrow> exception_row handler" where
  "patch_group_exception i body =
     then_api (query (\<lambda>d. getGroupException (db_policy d) i)) (\<lambda>found.
     then_api (assertFound found) (\<lambda>existing.
     then_api (assertTarget (nullish (xu_targetKind body) (xi_targetKind (snd existing)))
                 (nullish (xu_targetId body) (xi_targetId (snd existing)))) (\<lambda>_.
     then_api (asValidated (with_store (\<lambda>st. updateGroupException st i body))) (\<lambda>updated.
     then_api (assertFound updated) (\<lambda>row.
     then_api (push_to_members ''exception.updated'' (fst row)
                 (JObj [(''groupExceptionId'', JNum (xi_id (snd row))), (''userGroupId'', JNum (fst row))])) (\<lambda>_.
     reply row))))))"

definition delete_group_exception :: "int \<Rightarrow> unit handler" where
  "delete_group_exception i =
     then_api (query (\<lambda>d. getGroupException (db_policy d) i)) (\<lambda>found.
     then_api (assertFound found) (\<lambda>existing.
     then_api (query (\<lambda>d. groupMemberPushCommands d ''exception.deleted'' (fst existing)
                 (JObj [(''groupExceptionId'', JNum (xi_id (snd existing))), (''userGroupId'', JNum (fst existing))]))) (\<lambda>commands.
     then_api (db_write (on_store (\<lambda>st. deleteGroupException st i))) (\<lambda>_. push_commands commands))))"

section \<open>Notification settings\<close>

text \<open>The stored cadence overrides are the text of a JSON value, read back by \<open>parse\<close>.\<close>

definition notification_fields :: "(string \<Rightarrow> json) \<Rightarrow> notification_row \<Rightarrow> (string \<times> json) list" where
  "notification_fields parse n =
     [(''enabled'', JBool (np_enabled n)), (''soundProfile'', JStr (profile_name (np_soundProfile n))),
      (''graceSeconds'', JNum (np_graceSeconds n)),
      (''cadenceOverrides'', case np_cadenceOverridesJson n of None \<Rightarrow> JNull | Some c \<Rightarrow> parse c)]"

definition put_notification :: "(string \<Rightarrow> json) \<Rightarrow> int \<Rightarrow> notification_upsert \<Rightarrow> notification_row handler" where
  "put_notification parse userId body =
     then_api (query (\<lambda>d. getUser d userId)) (\<lambda>u.
     then_api (assertFound u) (\<lambda>_.
     then_api (asValidated (with_store (\<lambda>st. upsertNotificationPolicy st userId body))) (\<lambda>row.
     then_api (push_to_user ''notification.upserted'' userId (JObj (notification_fields parse row))) (\<lambda>_.
     reply row))))"

definition delete_notification :: "int \<Rightarrow> unit handler" where
  "delete_notification userId =
     then_api (query (\<lambda>d. listUserClientIds d userId)) (\<lambda>clientIds.
     then_api (db_write (on_store (\<lambda>st. deleteNotificationPolicy st userId))) (\<lambda>removed.
     if \<not> removed then api_throw notFound
     else push_commands (userPushCommands ''notification.deleted'' userId clientIds (JObj []))))"

section \<open>Reordering\<close>

text \<open>A stale order is a conflict.\<close>

definition asReordered :: "(store \<Rightarrow> store_error + store \<times> schedule_rule list) \<Rightarrow> schedule_rule list handler" where
  "asReordered f s =
     (case with_store f (fst s) of
        Inl (Reorder _) \<Rightarrow> (Inl (Api_Error 409 ''conflict''), s)
      | Inl CheckViolation \<Rightarrow> (Inl Internal_Error, s)
      | Inr (d, rows) \<Rightarrow> (Inr rows, d, snd s))"

definition put_user_order :: "int \<Rightarrow> int list \<Rightarrow> schedule_rule list handler" where
  "put_user_order userId orderedIds =
     then_api (query (\<lambda>d. getUser d userId)) (\<lambda>u.
     then_api (assertFound u) (\<lambda>_.
     asReordered (\<lambda>st. reorderUserSchedules st userId orderedIds)))"

definition put_group_order :: "int \<Rightarrow> int list \<Rightarrow> schedule_rule list handler" where
  "put_group_order groupId orderedIds =
     then_api (query (\<lambda>d. getUserGroup (db_policy d) groupId)) (\<lambda>g.
     then_api (assertFound g) (\<lambda>_.
     asReordered (\<lambda>st. reorderGroupSchedules st groupId orderedIds)))"

section \<open>Requests\<close>

datatype api_request =
    Post_User user_create
  | Patch_User int user_update
  | Delete_User_Request int
  | Post_Client client_create
  | Patch_Client int client_update
  | Delete_Client_Request int
  | Put_Link int int string string
  | Delete_Link_Request int int
  | Post_User_Group string
  | Patch_User_Group int "string option"
  | Delete_User_Group int
  | Put_Member int int
  | Delete_Member int int
  | Post_Activity activity_create
  | Patch_Activity int activity_update
  | Delete_Activity int
  | Post_Activity_Group string
  | Patch_Activity_Group int "string option"
  | Delete_Activity_Group int
  | Put_Group_Activity int int
  | Delete_Group_Activity int int
  | Post_Budget int budget_input
  | Patch_Budget int budget_update
  | Delete_Budget int
  | Post_Group_Budget int budget_input
  | Patch_Group_Budget int budget_update
  | Delete_Group_Budget int
  | Post_Schedule int schedule_create
  | Patch_Schedule int schedule_update
  | Delete_Schedule int
  | Post_Group_Schedule int schedule_create
  | Patch_Group_Schedule int schedule_update
  | Delete_Group_Schedule int
  | Post_Exception int exception_create
  | Patch_Exception int exception_update
  | Delete_Exception int
  | Post_Group_Exception int exception_create
  | Patch_Group_Exception int exception_update
  | Delete_Group_Exception int
  | Put_Notification int notification_upsert
  | Delete_Notification int
  | Put_User_Order int "int list"
  | Put_Group_Order int "int list"

definition answered :: "'a handler \<Rightarrow> unit handler" where
  "answered h = then_api h (\<lambda>_. reply ())"

record api_env =
  env_now :: instant
  env_validMatcher :: "match_type \<Rightarrow> string \<Rightarrow> bool"
  env_parse :: "string \<Rightarrow> json"

fun serve :: "api_env \<Rightarrow> api_request \<Rightarrow> unit handler" where
  "serve e (Post_User c) = answered (post_user c)"
| "serve e (Patch_User i p) = answered (patch_user_route i p)"
| "serve e (Delete_User_Request i) = delete_user i"
| "serve e (Post_Client c) = answered (post_client c)"
| "serve e (Patch_Client i p) = answered (patch_client_route i p)"
| "serve e (Delete_Client_Request i) = delete_client i"
| "serve e (Put_Link u c n r) = answered (put_link u c n r)"
| "serve e (Delete_Link_Request u c) = delete_link u c"
| "serve e (Post_User_Group n) = answered (post_user_group n)"
| "serve e (Patch_User_Group i n) = answered (patch_user_group i n)"
| "serve e (Delete_User_Group i) = delete_user_group i"
| "serve e (Put_Member g u) = put_member g u"
| "serve e (Delete_Member g u) = delete_member g u"
| "serve e (Post_Activity c) = answered (post_activity c)"
| "serve e (Patch_Activity i p) = answered (patch_activity_route (env_validMatcher e) i p)"
| "serve e (Delete_Activity i) = delete_activity i"
| "serve e (Post_Activity_Group n) = answered (post_activity_group n)"
| "serve e (Patch_Activity_Group i n) = answered (patch_activity_group i n)"
| "serve e (Delete_Activity_Group i) = delete_activity_group i"
| "serve e (Put_Group_Activity g a) = put_group_activity g a"
| "serve e (Delete_Group_Activity g a) = delete_group_activity g a"
| "serve e (Post_Budget u b) = answered (post_budget u b)"
| "serve e (Patch_Budget i p) = answered (patch_budget_route i p)"
| "serve e (Delete_Budget i) = delete_budget i"
| "serve e (Post_Group_Budget g b) = answered (post_group_budget g b)"
| "serve e (Patch_Group_Budget i p) = answered (patch_group_budget i p)"
| "serve e (Delete_Group_Budget i) = delete_group_budget i"
| "serve e (Post_Schedule u c) = answered (post_schedule u c)"
| "serve e (Patch_Schedule i p) = answered (patch_schedule_route i p)"
| "serve e (Delete_Schedule i) = delete_schedule i"
| "serve e (Post_Group_Schedule g c) = answered (post_group_schedule g c)"
| "serve e (Patch_Group_Schedule i p) = answered (patch_group_schedule i p)"
| "serve e (Delete_Group_Schedule i) = delete_group_schedule i"
| "serve e (Post_Exception u c) = answered (post_exception (env_now e) u c)"
| "serve e (Patch_Exception i p) = answered (patch_exception_route i p)"
| "serve e (Delete_Exception i) = delete_exception i"
| "serve e (Post_Group_Exception g c) = answered (post_group_exception (env_now e) g c)"
| "serve e (Patch_Group_Exception i p) = answered (patch_group_exception i p)"
| "serve e (Delete_Group_Exception i) = delete_group_exception i"
| "serve e (Put_Notification u n) = answered (put_notification (env_parse e) u n)"
| "serve e (Delete_Notification u) = delete_notification u"
| "serve e (Put_User_Order u ids) = answered (put_user_order u ids)"
| "serve e (Put_Group_Order g ids) = answered (put_group_order g ids)"

definition served :: "(api_env \<times> api_request) list \<Rightarrow> api_state" where
  "served rs = foldl (\<lambda>s (e, r). snd (serve e r s)) (empty_db, []) rs"

end
