(* ===== verification/Auth_Session.thy ===== *)
theory Auth_Session
  imports Policy_Api "HOL-Library.Countable"
begin

text \<open>
  Who may call the server: the failed-attempt limiter (\<open>auth/rate-limit.ts\<close>), the signed admin and PIN session
  cookies (\<open>auth/session.ts\<close>, \<open>auth/pin-session.ts\<close>) with their guards, and the two login routes
  (\<open>auth/routes.ts\<close>, \<open>api/app/routes.ts\<close>). The cookie signature, the JSON and base64url codecs and the
  password hash are parameters. A login waits for the password hash between the check of the limiter and the
  record of the outcome, so a login is two steps: what happens in between is up to the other requests.
\<close>

section \<open>The limiter\<close>

definition DEFAULT_MAX_FAILED_ATTEMPTS :: int where "DEFAULT_MAX_FAILED_ATTEMPTS = 5"

definition DEFAULT_RATE_LIMIT_WINDOW_MS :: int where "DEFAULT_RATE_LIMIT_WINDOW_MS = 15 * 60 * 1000"

record attempt_window =
  aw_count :: int
  aw_startedAt :: instant

record limiter =
  lim_maxAttempts :: int
  lim_windowMs :: int
  lim_windows :: "(string \<times> attempt_window) list"

definition new_FixedWindowRateLimiter :: "int option \<Rightarrow> int option \<Rightarrow> limiter" where
  "new_FixedWindowRateLimiter maxAttempts windowMs =
     \<lparr>lim_maxAttempts = nullish maxAttempts DEFAULT_MAX_FAILED_ATTEMPTS,
      lim_windowMs = nullish windowMs DEFAULT_RATE_LIMIT_WINDOW_MS, lim_windows = []\<rparr>"

definition lim_current :: "instant \<Rightarrow> string \<Rightarrow> limiter \<Rightarrow> attempt_window option \<times> limiter" where
  "lim_current now key l =
     (case map_of (lim_windows l) key of
        None \<Rightarrow> (None, l)
      | Some w \<Rightarrow>
          if now - aw_startedAt w \<ge> lim_windowMs l then (None, l\<lparr>lim_windows := AList.delete key (lim_windows l)\<rparr>)
          else (Some w, l))"

definition isBlocked :: "instant \<Rightarrow> string \<Rightarrow> limiter \<Rightarrow> bool \<times> limiter" where
  "isBlocked now key l =
     (case lim_current now key l of (w, l') \<Rightarrow>
        ((case w of None \<Rightarrow> False | Some w \<Rightarrow> aw_count w \<ge> lim_maxAttempts l'), l'))"

definition recordFailure :: "instant \<Rightarrow> string \<Rightarrow> limiter \<Rightarrow> limiter" where
  "recordFailure now key l =
     (case lim_current now key l of
        (None, l') \<Rightarrow> l'\<lparr>lim_windows := AList.update key \<lparr>aw_count = 1, aw_startedAt = now\<rparr> (lim_windows l')\<rparr>
      | (Some w, l') \<Rightarrow> l'\<lparr>lim_windows := AList.update key (w\<lparr>aw_count := aw_count w + 1\<rparr>) (lim_windows l')\<rparr>)"

definition recordSuccess :: "string \<Rightarrow> limiter \<Rightarrow> limiter" where
  "recordSuccess key l = l\<lparr>lim_windows := AList.delete key (lim_windows l)\<rparr>"

section \<open>Session cookies\<close>

definition SESSION_COOKIE :: string where "SESSION_COOKIE = ''pct_session''"
definition SESSION_TTL_SECONDS :: int where "SESSION_TTL_SECONDS = 7 * 24 * 60 * 60"
definition PIN_SESSION_COOKIE :: string where "PIN_SESSION_COOKIE = ''pct_pin_session''"
definition PIN_SESSION_TTL_SECONDS :: int where "PIN_SESSION_TTL_SECONDS = 12 * 60 * 60"

text \<open>
  The codec of the cookies: \<open>@fastify/cookie\<close> signs a value (not the name of the cookie) and gives it back when the
  signature is right, and a payload is written as base64url of JSON and read back.
\<close>

record cookie_codec =
  ck_sign :: "string \<Rightarrow> string"
  ck_unsign :: "string \<Rightarrow> string option"
  ck_write :: "json \<Rightarrow> string"
  ck_read :: "string \<Rightarrow> json option"

type_synonym cookies = "(string \<times> string) list"

record session =
  ses_sub :: string
  ses_iat :: int

record pin_session =
  pin_uid :: int
  pin_iat :: int

definition epoch_seconds :: "instant \<Rightarrow> int" where "epoch_seconds now = now div 1000"

fun positive_int :: "json option \<Rightarrow> int option" where
  "positive_int (Some (JNum n)) = (if 0 < n then Some n else None)"
| "positive_int _ = None"

definition sessionPayloadSchema :: "json \<Rightarrow> session option" where
  "sessionPayloadSchema j =
     (case (nonempty_string (json_get ''sub'' j), positive_int (json_get ''iat'' j)) of
        (Some s, Some t) \<Rightarrow> Some \<lparr>ses_sub = s, ses_iat = t\<rparr>
      | _ \<Rightarrow> None)"

definition pinSessionPayloadSchema :: "json \<Rightarrow> pin_session option" where
  "pinSessionPayloadSchema j =
     (case (positive_int (json_get ''uid'' j), positive_int (json_get ''iat'' j)) of
        (Some u, Some t) \<Rightarrow> Some \<lparr>pin_uid = u, pin_iat = t\<rparr>
      | _ \<Rightarrow> None)"

definition encodeSession :: "cookie_codec \<Rightarrow> session \<Rightarrow> string" where
  "encodeSession ck s = ck_write ck (JObj [(''sub'', JStr (ses_sub s)), (''iat'', JNum (ses_iat s))])"

definition encodePinSession :: "cookie_codec \<Rightarrow> pin_session \<Rightarrow> string" where
  "encodePinSession ck s = ck_write ck (JObj [(''uid'', JNum (pin_uid s)), (''iat'', JNum (pin_iat s))])"

definition decodeSession :: "cookie_codec \<Rightarrow> string \<Rightarrow> session option" where
  "decodeSession ck raw = Option.bind (ck_read ck raw) sessionPayloadSchema"

definition decodePinSession :: "cookie_codec \<Rightarrow> string \<Rightarrow> pin_session option" where
  "decodePinSession ck raw = Option.bind (ck_read ck raw) pinSessionPayloadSchema"

text \<open>Issuing sets a cookie of the browser, clearing removes it.\<close>

definition issueSession :: "cookie_codec \<Rightarrow> instant \<Rightarrow> string \<Rightarrow> cookies \<Rightarrow> cookies" where
  "issueSession ck now username =
     AList.update SESSION_COOKIE (ck_sign ck (encodeSession ck \<lparr>ses_sub = username, ses_iat = epoch_seconds now\<rparr>))"

definition clearSession :: "cookies \<Rightarrow> cookies" where
  "clearSession = AList.delete SESSION_COOKIE"

definition issuePinSession :: "cookie_codec \<Rightarrow> instant \<Rightarrow> int \<Rightarrow> cookies \<Rightarrow> cookies" where
  "issuePinSession ck now userId =
     AList.update PIN_SESSION_COOKIE (ck_sign ck (encodePinSession ck \<lparr>pin_uid = userId, pin_iat = epoch_seconds now\<rparr>))"

definition clearPinSession :: "cookies \<Rightarrow> cookies" where
  "clearPinSession = AList.delete PIN_SESSION_COOKIE"

definition readSession :: "cookie_codec \<Rightarrow> instant \<Rightarrow> cookies \<Rightarrow> session option" where
  "readSession ck now cs =
     (case map_of cs SESSION_COOKIE of None \<Rightarrow> None
      | Some raw \<Rightarrow>
      (case ck_unsign ck raw of None \<Rightarrow> None
      | Some v \<Rightarrow>
      (case decodeSession ck v of None \<Rightarrow> None
      | Some s \<Rightarrow> if epoch_seconds now - ses_iat s > SESSION_TTL_SECONDS then None else Some s)))"

definition readPinSession :: "cookie_codec \<Rightarrow> instant \<Rightarrow> cookies \<Rightarrow> pin_session option" where
  "readPinSession ck now cs =
     (case map_of cs PIN_SESSION_COOKIE of None \<Rightarrow> None
      | Some raw \<Rightarrow>
      (case ck_unsign ck raw of None \<Rightarrow> None
      | Some v \<Rightarrow>
      (case decodePinSession ck v of None \<Rightarrow> None
      | Some s \<Rightarrow> if epoch_seconds now - pin_iat s > PIN_SESSION_TTL_SECONDS then None else Some s)))"

section \<open>Guards\<close>

definition auth_not_configured :: api_error where "auth_not_configured = Api_Error 503 ''auth_not_configured''"
definition unauthorized :: api_error where "unauthorized = Api_Error 401 ''unauthorized''"
definition invalid_credentials :: api_error where "invalid_credentials = Api_Error 401 ''invalid_credentials''"
definition too_many_requests :: api_error where "too_many_requests = Api_Error 429 ''too_many_requests''"

definition assertAuthConfigured :: "bool \<Rightarrow> api_error + unit" where
  "assertAuthConfigured authConfigured = (if \<not> authConfigured then Inl auth_not_configured else Inr ())"

definition requireAdmin :: "bool \<Rightarrow> cookie_codec \<Rightarrow> instant \<Rightarrow> cookies \<Rightarrow> api_error + string" where
  "requireAdmin authConfigured ck now cs =
     bindE (assertAuthConfigured authConfigured) (\<lambda>_.
       case readSession ck now cs of None \<Rightarrow> Inl unauthorized | Some s \<Rightarrow> Inr (ses_sub s))"

definition requirePinSession :: "bool \<Rightarrow> cookie_codec \<Rightarrow> instant \<Rightarrow> cookies \<Rightarrow> api_error + int" where
  "requirePinSession authConfigured ck now cs =
     bindE (assertAuthConfigured authConfigured) (\<lambda>_.
       case readPinSession ck now cs of None \<Rightarrow> Inl unauthorized | Some s \<Rightarrow> Inr (pin_uid s))"

section \<open>Logins\<close>

record admin_credential =
  adm_username :: string
  adm_passwordHash :: string

text \<open>The rows the logins read: the one admin, and a PIN hash per user. A deleted user loses the PIN.\<close>

record auth_db =
  adb_admin :: "admin_credential option"
  adb_pins :: "(int \<times> string) list"

definition setUserPin :: "auth_db \<Rightarrow> int \<Rightarrow> string \<Rightarrow> auth_db" where
  "setUserPin a userId h = a\<lparr>adb_pins := AList.update userId h (adb_pins a)\<rparr>"

definition getUserPinHash :: "auth_db \<Rightarrow> int \<Rightarrow> string option" where
  "getUserPinHash a userId = map_of (adb_pins a) userId"

definition hasUserPin :: "auth_db \<Rightarrow> int \<Rightarrow> bool" where
  "hasUserPin a userId \<longleftrightarrow> getUserPinHash a userId \<noteq> None"

definition clearUserPin :: "auth_db \<Rightarrow> int \<Rightarrow> auth_db \<times> bool" where
  "clearUserPin a userId = (a\<lparr>adb_pins := AList.delete userId (adb_pins a)\<rparr>, userId \<in> fst ` set (adb_pins a))"

text \<open>\<open>bootstrapAdmin\<close>: the admin of the environment is seeded once.\<close>

datatype bootstrap_result = Already_Exists | Seeded | Unconfigured

definition bootstrapAdmin :: "(string \<Rightarrow> string) \<Rightarrow> string option \<Rightarrow> string option \<Rightarrow> auth_db \<Rightarrow> bootstrap_result \<times> auth_db" where
  "bootstrapAdmin hashPassword username password a =
     (if adb_admin a \<noteq> None then (Already_Exists, a)
      else case (username, password) of
          (Some u, Some p) \<Rightarrow> (Seeded, a\<lparr>adb_admin := Some \<lparr>adm_username = u, adm_passwordHash = hashPassword p\<rparr>\<rparr>)
        | _ \<Rightarrow> (Unconfigured, a))"

text \<open>
  A login up to the password hash, and from the answer of the hash on. Between them the request waits; the
  limiter is shared.
\<close>

definition login_begin :: "bool \<Rightarrow> instant \<Rightarrow> string \<Rightarrow> limiter \<Rightarrow> (api_error + unit) \<times> limiter" where
  "login_begin authConfigured now key l =
     (case assertAuthConfigured authConfigured of
        Inl e \<Rightarrow> (Inl e, l)
      | Inr _ \<Rightarrow> (case isBlocked now key l of (b, l') \<Rightarrow> (if b then Inl too_many_requests else Inr (), l')))"

definition login_end :: "instant \<Rightarrow> string \<Rightarrow> 'a option \<Rightarrow> limiter \<Rightarrow> (api_error + 'a) \<times> limiter" where
  "login_end now key who l =
     (case who of
        None \<Rightarrow> (Inl invalid_credentials, recordFailure now key l)
      | Some p \<Rightarrow> (Inr p, recordSuccess key l))"

definition admin_principal :: "(string \<Rightarrow> string \<Rightarrow> bool) \<Rightarrow> auth_db \<Rightarrow> string \<Rightarrow> string \<Rightarrow> string option" where
  "admin_principal verifyPassword a username password =
     (case adb_admin a of
        None \<Rightarrow> None
      | Some adm \<Rightarrow>
          if adm_username adm \<noteq> username then None
          else if \<not> verifyPassword (adm_passwordHash adm) password then None else Some (adm_username adm))"

definition pin_principal :: "(string \<Rightarrow> string \<Rightarrow> bool) \<Rightarrow> db \<Rightarrow> auth_db \<Rightarrow> int \<Rightarrow> string \<Rightarrow> int option" where
  "pin_principal verifyPassword d a userId pin =
     (case (getUser d userId, getUserPinHash a userId) of
        (Some u, Some h) \<Rightarrow> if \<not> verifyPassword h pin then None else Some (user_id u)
      | _ \<Rightarrow> None)"

definition loginKey :: "int \<Rightarrow> string \<Rightarrow> string" where
  "loginKey userId ip = show_int userId @ '':'' @ ip"

text \<open>\<open>POST /auth/login\<close> and \<open>POST /app/session\<close> when nothing happens during the hash.\<close>

definition post_login ::
    "cookie_codec \<Rightarrow> (string \<Rightarrow> string \<Rightarrow> bool) \<Rightarrow> bool \<Rightarrow> instant \<Rightarrow> string \<Rightarrow> string \<Rightarrow> string \<Rightarrow> auth_db \<Rightarrow> limiter \<times> cookies
      \<Rightarrow> (api_error + string) \<times> limiter \<times> cookies" where
  "post_login ck verifyPassword authConfigured now ip username password a s =
     (case login_begin authConfigured now ip (fst s) of
        (Inl e, l) \<Rightarrow> (Inl e, l, snd s)
      | (Inr _, l) \<Rightarrow>
          (case login_end now ip (admin_principal verifyPassword a username password) l of
             (Inl e, l') \<Rightarrow> (Inl e, l', snd s)
           | (Inr u, l') \<Rightarrow> (Inr u, l', issueSession ck now u (snd s))))"

definition post_pin_login ::
    "cookie_codec \<Rightarrow> (string \<Rightarrow> string \<Rightarrow> bool) \<Rightarrow> bool \<Rightarrow> instant \<Rightarrow> string \<Rightarrow> int \<Rightarrow> string \<Rightarrow> db \<Rightarrow> auth_db \<Rightarrow> limiter \<times> cookies
      \<Rightarrow> (api_error + int) \<times> limiter \<times> cookies" where
  "post_pin_login ck verifyPassword authConfigured now ip userId pin d a s =
     (case login_begin authConfigured now (loginKey userId ip) (fst s) of
        (Inl e, l) \<Rightarrow> (Inl e, l, snd s)
      | (Inr _, l) \<Rightarrow>
          (case login_end now (loginKey userId ip) (pin_principal verifyPassword d a userId pin) l of
             (Inl e, l') \<Rightarrow> (Inl e, l', snd s)
           | (Inr u, l') \<Rightarrow> (Inr u, l', issuePinSession ck now u (snd s))))"

text \<open>\<open>GET /app/session\<close> and \<open>GET /app/me\<close>: the session of a deleted user is no login.\<close>

definition get_pin_session :: "cookie_codec \<Rightarrow> bool \<Rightarrow> instant \<Rightarrow> db \<Rightarrow> cookies \<Rightarrow> api_error + user_row option" where
  "get_pin_session ck authConfigured now d cs =
     bindE (assertAuthConfigured authConfigured) (\<lambda>_.
       Inr (case readPinSession ck now cs of None \<Rightarrow> None | Some s \<Rightarrow> getUser d (pin_uid s)))"

definition get_me :: "cookie_codec \<Rightarrow> bool \<Rightarrow> instant \<Rightarrow> db \<Rightarrow> cookies \<Rightarrow> api_error + user_row" where
  "get_me ck authConfigured now d cs =
     bindE (requirePinSession authConfigured ck now cs) (\<lambda>userId.
       case getUser d userId of None \<Rightarrow> Inl unauthorized | Some u \<Rightarrow> Inr u)"

text \<open>\<open>GET /auth/session\<close>, and the admin's routes for the PIN of a user.\<close>

definition get_session :: "cookie_codec \<Rightarrow> bool \<Rightarrow> instant \<Rightarrow> cookies \<Rightarrow> api_error + string option" where
  "get_session ck authConfigured now cs =
     bindE (assertAuthConfigured authConfigured) (\<lambda>_. Inr (map_option ses_sub (readSession ck now cs)))"

definition put_user_pin :: "(string \<Rightarrow> string) \<Rightarrow> db \<Rightarrow> int \<Rightarrow> string \<Rightarrow> auth_db \<Rightarrow> (api_error + bool) \<times> auth_db" where
  "put_user_pin hashPassword d userId pin a =
     (if getUser d userId = None then (Inl notFound, a) else (Inr True, setUserPin a userId (hashPassword pin)))"

definition delete_user_pin :: "db \<Rightarrow> int \<Rightarrow> auth_db \<Rightarrow> (api_error + bool) \<times> auth_db" where
  "delete_user_pin d userId a =
     (if getUser d userId = None then (Inl notFound, a) else (Inr False, fst (clearUserPin a userId)))"

definition get_user_pin :: "db \<Rightarrow> auth_db \<Rightarrow> int \<Rightarrow> api_error + bool" where
  "get_user_pin d a userId = (if getUser d userId = None then Inl notFound else Inr (hasUserPin a userId))"

section \<open>How often a password can be guessed\<close>

text \<open>Logins that fail, one after the other: the attempts whose password is verified.\<close>

fun failed_logins :: "(instant \<times> string) list \<Rightarrow> limiter \<Rightarrow> (instant \<times> string) list" where
  "failed_logins [] l = []"
| "failed_logins ((t, key) # ts) l =
     (case login_begin True t key l of
        (Inl _, l') \<Rightarrow> failed_logins ts l'
      | (Inr _, l') \<Rightarrow> (t, key) # failed_logins ts (snd (login_end t key (None :: unit option) l')))"

definition guesses :: "string \<Rightarrow> (instant \<times> string) list \<Rightarrow> instant list" where
  "guesses key vs = map fst (filter (\<lambda>v. snd v = key) vs)"

text \<open>A sequence of windows: each starts with its first guess and the next starts when it has elapsed.\<close>

fun windows_ok :: "int \<Rightarrow> int \<Rightarrow> instant \<Rightarrow> instant list list \<Rightarrow> bool" where
  "windows_ok m w lo [] = True"
| "windows_ok m w lo (b # bs) =
     (b \<noteq> [] \<and> lo \<le> hd b \<and> int (length b) \<le> m \<and> (\<forall>x \<in> set b. hd b \<le> x \<and> x < hd b + w) \<and> windows_ok m w (hd b + w) bs)"

definition among :: "instant \<Rightarrow> instant \<Rightarrow> instant list \<Rightarrow> instant list" where
  "among lo hi xs = filter (\<lambda>x. lo \<le> x \<and> x < hi) xs"

lemma among_append: "among lo hi (xs @ ys) = among lo hi xs @ among lo hi ys"
  by (simp add: among_def)

lemma windows_after: "windows_ok m w lo bs \<Longrightarrow> 0 \<le> w \<Longrightarrow> x \<in> set (concat bs) \<Longrightarrow> lo \<le> x"
  by (induction bs arbitrary: lo) fastforce+

lemma among_beyond: "windows_ok m w lo bs \<Longrightarrow> 0 \<le> w \<Longrightarrow> hi \<le> lo \<Longrightarrow> among t hi (concat bs) = []"
  using windows_after by (fastforce simp: among_def filter_empty_conv)

lemma among_length: "int (length (among lo hi b)) \<le> int (length b)"
  by (simp add: among_def)

lemma among_le: "int (length b) \<le> m \<Longrightarrow> int (length (among lo hi b)) \<le> m"
  using among_length by (rule order_trans)

lemma among_tail:
  assumes "b \<noteq> []" "hd b < lo" "int (length b) \<le> m"
  shows "int (length (among lo hi b)) \<le> m - 1"
proof -
  obtain x xs where b: "b = x # xs" using assms(1) by (cases b) auto
  then have "among lo hi b = among lo hi xs" using assms(2) by (simp add: among_def)
  then show ?thesis using among_length [of lo hi xs] assms(3) b by simp
qed

lemma windows_bound:
  assumes "windows_ok m w lo bs" "0 \<le> w" "1 \<le> m"
  shows "int (length (among t (t + w) (concat bs))) \<le> 2 * m - 1"
  using assms(1)
proof (induction bs arbitrary: lo)
  case (Cons b bs)
  then have b: "b \<noteq> []" "int (length b) \<le> m" and rest: "windows_ok m w (hd b + w) bs" by auto
  show ?case
  proof (cases "among t (t + w) b = []")
    case True
    then show ?thesis using Cons.IH [OF rest] by (simp add: among_append)
  next
    case False
    then obtain x where x: "x \<in> set b" "t \<le> x" by (auto simp: among_def filter_empty_conv)
    then have hd: "t < hd b + w" using Cons.prems by fastforce
    show ?thesis
    proof (cases bs)
      case Nil
      then show ?thesis using among_le [OF b(2), of t "t + w"] assms(3) by (simp add: among_append)
    next
      case second: (Cons c cs)
      then have c: "int (length c) \<le> m" "hd b + w \<le> hd c" and far: "windows_ok m w (hd c + w) cs" using rest by auto
      have none: "among t (t + w) (concat cs) = []" using among_beyond [OF far assms(2)] c(2) hd by simp
      have "int (length (among t (t + w) b)) + int (length (among t (t + w) c)) \<le> 2 * m - 1"
      proof (cases "hd b < t")
        case True
        then show ?thesis using among_tail [OF b(1) True b(2), of "t + w"] among_le [OF c(1), of t "t + w"] by simp
      next
        case False
        then have "windows_ok m w (hd b + w) [c]" "t + w \<le> hd b + w" using rest second by auto
        then have "among t (t + w) (concat [c]) = []" using among_beyond assms(2) by blast
        then have "among t (t + w) c = []" by simp
        then show ?thesis using among_le [OF b(2), of t "t + w"] assms(3) by simp
      qed
      then show ?thesis by (simp add: second among_append none)
    qed
  qed
qed (use assms(3) in \<open>simp add: among_def\<close>)

text \<open>What the limiter does to the window of one key.\<close>

definition window_of :: "limiter \<Rightarrow> string \<Rightarrow> attempt_window option" where
  "window_of l key = map_of (lim_windows l) key"

definition live :: "instant \<Rightarrow> string \<Rightarrow> limiter \<Rightarrow> attempt_window option" where
  "live now key l =
     (case window_of l key of None \<Rightarrow> None | Some w \<Rightarrow> if now - aw_startedAt w \<ge> lim_windowMs l then None else Some w)"

lemma map_of_delete: "map_of (AList.delete k m) j = (if j = k then None else map_of m j)"
  by (simp add: AList.delete_conv')

lemma lim_current_effect:
  "fst (lim_current now key l) = live now key l" "window_of (snd (lim_current now key l)) key = live now key l"
  "k \<noteq> key \<Longrightarrow> window_of (snd (lim_current now key l)) k = window_of l k"
  "lim_windowMs (snd (lim_current now key l)) = lim_windowMs l" "lim_maxAttempts (snd (lim_current now key l)) = lim_maxAttempts l"
  by (auto simp: lim_current_def live_def window_of_def map_of_delete split: option.splits)

lemma isBlocked_effect:
  "fst (isBlocked now key l) \<longleftrightarrow> (case live now key l of None \<Rightarrow> False | Some w \<Rightarrow> aw_count w \<ge> lim_maxAttempts l)"
  "window_of (snd (isBlocked now key l)) key = live now key l"
  "k \<noteq> key \<Longrightarrow> window_of (snd (isBlocked now key l)) k = window_of l k"
  "lim_windowMs (snd (isBlocked now key l)) = lim_windowMs l" "lim_maxAttempts (snd (isBlocked now key l)) = lim_maxAttempts l"
  by (simp_all add: isBlocked_def case_prod_unfold lim_current_effect split: option.splits)

lemma recordFailure_effect:
  "window_of (recordFailure now key l) key =
     Some (case live now key l of None \<Rightarrow> \<lparr>aw_count = 1, aw_startedAt = now\<rparr> | Some w \<Rightarrow> w\<lparr>aw_count := aw_count w + 1\<rparr>)"
  "k \<noteq> key \<Longrightarrow> window_of (recordFailure now key l) k = window_of l k"
  "lim_windowMs (recordFailure now key l) = lim_windowMs l" "lim_maxAttempts (recordFailure now key l) = lim_maxAttempts l"
proof -
  obtain w l' where c: "lim_current now key l = (w, l')" by fastforce
  note effect = lim_current_effect(1,2,4,5) [of now key l, unfolded c, simplified]
  show "window_of (recordFailure now key l) key =
      Some (case live now key l of None \<Rightarrow> \<lparr>aw_count = 1, aw_startedAt = now\<rparr> | Some w \<Rightarrow> w\<lparr>aw_count := aw_count w + 1\<rparr>)"
    using effect by (auto simp: recordFailure_def c window_of_def split: option.splits)
  show "window_of (recordFailure now key l) k = window_of l k" if "k \<noteq> key"
    using effect that lim_current_effect(3) [OF that, of now l]
    by (auto simp: recordFailure_def c window_of_def split: option.splits)
  show "lim_windowMs (recordFailure now key l) = lim_windowMs l" "lim_maxAttempts (recordFailure now key l) = lim_maxAttempts l"
    using effect by (auto simp: recordFailure_def c split: option.splits)
qed

text \<open>One failed login, as it acts on the window of a key.\<close>

lemma login_begin_cases:
  "login_begin True t key l =
     (if case live t key l of None \<Rightarrow> False | Some w \<Rightarrow> aw_count w \<ge> lim_maxAttempts l
      then (Inl too_many_requests, snd (isBlocked t key l)) else (Inr (), snd (isBlocked t key l)))"
  by (simp add: login_begin_def assertAuthConfigured_def case_prod_unfold isBlocked_effect(1))

lemma live_after_check: "live t key (snd (isBlocked t key l)) = live t key l"
  using isBlocked_effect(2,4) [of t key l] by (auto simp: live_def split: option.splits if_splits)

lemma other_key_unchanged:
  assumes "k \<noteq> key"
  shows "window_of (snd (login_begin True t key l)) k = window_of l k"
    "window_of (snd (login_end t key (None :: unit option) l)) k = window_of l k"
  using assms by (simp_all add: login_begin_cases login_end_def isBlocked_effect recordFailure_effect)

lemma limits_unchanged:
  "lim_windowMs (snd (login_begin True t key l)) = lim_windowMs l" "lim_maxAttempts (snd (login_begin True t key l)) = lim_maxAttempts l"
  "lim_windowMs (snd (login_end t key (None :: unit option) l)) = lim_windowMs l"
  "lim_maxAttempts (snd (login_end t key (None :: unit option) l)) = lim_maxAttempts l"
  by (simp_all add: login_begin_cases login_end_def isBlocked_effect recordFailure_effect)

text \<open>
  What is verified from a state on: the rest of the open window of the key, then whole windows.
\<close>

definition follows_window :: "int \<Rightarrow> int \<Rightarrow> attempt_window option \<Rightarrow> instant \<Rightarrow> instant list \<Rightarrow> bool" where
  "follows_window m w cur lo xs \<longleftrightarrow>
     (case cur of
        None \<Rightarrow> \<exists>bs. xs = concat bs \<and> windows_ok m w lo bs
      | Some a \<Rightarrow>
          \<exists>b bs. xs = b @ concat bs \<and> (b \<noteq> [] \<longrightarrow> aw_count a + int (length b) \<le> m)
            \<and> (\<forall>x \<in> set b. aw_startedAt a \<le> x \<and> x < aw_startedAt a + w) \<and> windows_ok m w (aw_startedAt a + w) bs)"

lemma follows_guess:
  assumes rest: "follows_window m w (Some a) lo' xs" and a: "a = \<lparr>aw_count = 1, aw_startedAt = t\<rparr>"
    and "lo \<le> t" "1 \<le> m" "0 < w"
  shows "\<exists>bs. t # xs = concat bs \<and> windows_ok m w lo bs"
proof -
  obtain b bs where b: "xs = b @ concat bs" "b \<noteq> [] \<longrightarrow> 1 + int (length b) \<le> m"
    "\<forall>x \<in> set b. t \<le> x \<and> x < t + w" "windows_ok m w (t + w) bs"
    using rest by (auto simp: follows_window_def a)
  have "windows_ok m w lo ((t # b) # bs)" using b assms(3-5) by (cases "b = []") auto
  with b(1) show ?thesis by (intro exI [of _ "(t # b) # bs"]) simp
qed

lemma windows_ok_mono: "lo \<le> t \<Longrightarrow> windows_ok m w t bs \<Longrightarrow> windows_ok m w lo bs"
  by (cases bs) auto

lemma follows_window_mono: "lo \<le> t \<Longrightarrow> follows_window m w cur t xs \<Longrightarrow> follows_window m w cur lo xs"
  by (auto simp: follows_window_def split: option.splits intro: windows_ok_mono)

lemma follows_more:
  assumes "follows_window m w (Some (a\<lparr>aw_count := aw_count a + 1\<rparr>)) t xs" "aw_startedAt a \<le> t" "t < aw_startedAt a + w" "aw_count a < m"
  shows "follows_window m w (Some a) lo (t # xs)"
proof -
  obtain b bs where b: "xs = b @ concat bs" "b \<noteq> [] \<longrightarrow> aw_count a + 1 + int (length b) \<le> m"
    "\<forall>x \<in> set b. aw_startedAt a \<le> x \<and> x < aw_startedAt a + w" "windows_ok m w (aw_startedAt a + w) bs"
    using assms(1) by (auto simp: follows_window_def)
  have "aw_count a + int (length (t # b)) \<le> m" using b(2) assms(4) by (cases "b = []") auto
  with b assms(2,3) show ?thesis
    unfolding follows_window_def option.case by (intro exI [of _ "t # b"] exI [of _ bs]) simp
qed

lemma guesses_follow:
  assumes "sorted (map fst ts)" "\<forall>t \<in> set (map fst ts). lo \<le> t" "1 \<le> lim_maxAttempts l" "0 < lim_windowMs l"
    "\<And>a. window_of l key = Some a \<Longrightarrow> aw_startedAt a \<le> lo"
  shows "follows_window (lim_maxAttempts l) (lim_windowMs l) (window_of l key) lo (guesses key (failed_logins ts l))"
  using assms
proof (induction ts arbitrary: l lo)
  case Nil
  then show ?case
    by (auto simp: guesses_def follows_window_def split: option.splits intro: exI [of _ "[]"])
next
  case (Cons p ts)
  obtain t k where p: "p = (t, k)" by (cases p)
  have ts: "sorted (map fst ts)" "\<forall>x \<in> set (map fst ts). t \<le> x" "lo \<le> t" using Cons.prems(1,2) by (auto simp: p)
  let ?l1 = "snd (login_begin True t k l)"
  let ?l2 = "snd (login_end t k (None :: unit option) ?l1)"
  have run: "failed_logins (p # ts) l =
      (if fst (login_begin True t k l) = Inl too_many_requests then failed_logins ts ?l1 else (t, k) # failed_logins ts ?l2)"
    by (simp add: p login_begin_cases)
  have ih1: "follows_window (lim_maxAttempts l) (lim_windowMs l) (window_of ?l1 key) t (guesses key (failed_logins ts ?l1))"
    if "\<And>a. window_of ?l1 key = Some a \<Longrightarrow> aw_startedAt a \<le> t"
    using Cons.IH [of t ?l1] ts that Cons.prems(3,4) by (simp add: limits_unchanged)
  have ih2: "follows_window (lim_maxAttempts l) (lim_windowMs l) (window_of ?l2 key) t (guesses key (failed_logins ts ?l2))"
    if "\<And>a. window_of ?l2 key = Some a \<Longrightarrow> aw_startedAt a \<le> t"
    using Cons.IH [of t ?l2] ts that Cons.prems(3,4) by (simp add: limits_unchanged)
  show ?case
  proof (cases "k = key")
    case False
    then have same: "window_of ?l1 key = window_of l key" "window_of ?l2 key = window_of l key"
      using other_key_unchanged [of key k] by auto
    have "guesses key (failed_logins (p # ts) l) =
        guesses key (failed_logins ts (if fst (login_begin True t k l) = Inl too_many_requests then ?l1 else ?l2))"
      using False by (simp add: run guesses_def)
    moreover have "aw_startedAt a \<le> t" if "window_of l key = Some a" for a using Cons.prems(5) [OF that] ts(3) by simp
    ultimately show ?thesis using ih1 ih2 same by (auto intro: follows_window_mono [OF ts(3)])
  next
    case True
    have l1: "window_of ?l1 key = live t key l" by (simp add: True login_begin_cases isBlocked_effect)
    have l2: "window_of ?l2 key = Some (case live t key l of None \<Rightarrow> \<lparr>aw_count = 1, aw_startedAt = t\<rparr> | Some a \<Rightarrow> a\<lparr>aw_count := aw_count a + 1\<rparr>)"
      by (simp add: True login_begin_cases login_end_def recordFailure_effect live_after_check)
    have old: "window_of l key = Some a \<and> aw_startedAt a \<le> t \<and> t < aw_startedAt a + lim_windowMs l" if "live t key l = Some a" for a
      using that Cons.prems(5) [of a] ts(3) by (auto simp: live_def split: option.splits if_splits)
    show ?thesis
    proof (cases "live t key l")
      case None
      have "follows_window (lim_maxAttempts l) (lim_windowMs l) (Some \<lparr>aw_count = 1, aw_startedAt = t\<rparr>) t (guesses key (failed_logins ts ?l2))"
        using ih2 by (simp add: l2 None)
      from follows_guess [OF this refl _ Cons.prems(3,4)]
      have fresh: "\<exists>bs. t # guesses key (failed_logins ts ?l2) = concat bs \<and> windows_ok (lim_maxAttempts l) (lim_windowMs l) lo' bs"
        if "lo' \<le> t" for lo' using that .
      have now: "guesses key (failed_logins (p # ts) l) = t # guesses key (failed_logins ts ?l2)"
        unfolding run using None by (simp add: login_begin_cases True guesses_def)
      show ?thesis
      proof (cases "window_of l key")
        case None
        then show ?thesis using fresh [OF ts(3)] by (simp add: follows_window_def now)
      next
        case (Some a)
        then have "aw_startedAt a + lim_windowMs l \<le> t" using \<open>live t key l = None\<close> by (auto simp: live_def split: if_splits)
        from fresh [OF this] obtain bs where "t # guesses key (failed_logins ts ?l2) = concat bs"
          "windows_ok (lim_maxAttempts l) (lim_windowMs l) (aw_startedAt a + lim_windowMs l) bs" by blast
        then show ?thesis
          unfolding follows_window_def now Some option.case by (intro exI [of _ "[]"] exI [of _ bs]) simp
      qed
    next
      case (Some a)
      show ?thesis
      proof (cases "lim_maxAttempts l \<le> aw_count a")
        case True
        have "guesses key (failed_logins (p # ts) l) = guesses key (failed_logins ts ?l1)"
          unfolding run using Some True \<open>k = key\<close> by (simp add: login_begin_cases)
        then show ?thesis using ih1 old [OF Some] l1 Some by (auto intro: follows_window_mono [OF ts(3)])
      next
        case False
        have now: "guesses key (failed_logins (p # ts) l) = t # guesses key (failed_logins ts ?l2)"
          unfolding run using Some False \<open>k = key\<close> by (simp add: login_begin_cases guesses_def)
        have "follows_window (lim_maxAttempts l) (lim_windowMs l) (Some (a\<lparr>aw_count := aw_count a + 1\<rparr>)) t (guesses key (failed_logins ts ?l2))"
          using ih2 old [OF Some] by (simp add: l2 Some)
        then show ?thesis unfolding now using follows_more old [OF Some] False by auto
      qed
    qed
  qed
qed

lemma guesses_bound:
  assumes "sorted (map fst ts)" "1 \<le> m" "0 < w" "window_of l key = None" "lim_maxAttempts l = m" "lim_windowMs l = w"
  shows "int (length (among t (t + w) (guesses key (failed_logins ts l)))) \<le> 2 * m - 1"
proof -
  define lo where "lo = (case ts of [] \<Rightarrow> 0 | p # _ \<Rightarrow> fst p)"
  have "\<forall>x \<in> set (map fst ts). lo \<le> x" using assms(1) by (cases ts) (auto simp: lo_def)
  with guesses_follow [OF assms(1) this, of l key] assms
  obtain bs where "guesses key (failed_logins ts l) = concat bs" "windows_ok m w lo bs" by (auto simp: follows_window_def)
  then show ?thesis using windows_bound [of m w lo bs t] assms(2,3) by simp
qed

section \<open>Properties\<close>

text \<open>
  C14: Failed logins one after the other: in any span as long as the window, at most twice the permitted number less
  one passwords of an address are verified, however many are sent and whatever other addresses do.
\<close>

theorem sequential_guesses_bounded:
  assumes "sorted (map fst ts)" "1 \<le> m" "0 < w"
  shows "int (length (among t (t + w) (guesses key (failed_logins ts (new_FixedWindowRateLimiter (Some m) (Some w)))))) \<le> 2 * m - 1"
  by (rule guesses_bound [OF assms]) (simp_all add: new_FixedWindowRateLimiter_def window_of_def)

lemma sequential_guesses_bounded_witness:
  "int (length (among 999 1999 (guesses ''ip'' (failed_logins
     [(0, ''ip''), (999, ''ip''), (999, ''ip''), (1000, ''ip''), (1001, ''ip''), (1001, ''ip''), (1002, ''ip'')]
     (new_FixedWindowRateLimiter (Some 2) (Some 1000)))))) \<le> 3"
  using sequential_guesses_bounded [of "[(0, ''ip''), (999, ''ip''), (999, ''ip''), (1000, ''ip''), (1001, ''ip''), (1001, ''ip''), (1002, ''ip'')]" 2 1000 999 "''ip''"]
  by simp

text \<open>Logins that are all checked before the first password hash answers.\<close>

fun begin_all :: "nat \<Rightarrow> instant \<Rightarrow> string \<Rightarrow> limiter \<Rightarrow> (api_error + unit) list \<times> limiter" where
  "begin_all 0 now key l = ([], l)"
| "begin_all (Suc n) now key l =
     (case login_begin True now key l of (r, l') \<Rightarrow> (case begin_all n now key l' of (rs, l'') \<Rightarrow> (r # rs, l'')))"

fun end_all :: "nat \<Rightarrow> instant \<Rightarrow> string \<Rightarrow> limiter \<Rightarrow> limiter" where
  "end_all 0 now key l = l"
| "end_all (Suc n) now key l = end_all n now key (snd (login_end now key (None :: unit option) l))"

lemma begin_all_fresh: "window_of l key = None \<Longrightarrow> begin_all n now key l = (replicate n (Inr ()), l)"
proof (induction n)
  case (Suc n)
  have "login_begin True now key l = (Inr (), l)"
    using Suc.prems by (simp add: login_begin_def assertAuthConfigured_def isBlocked_def lim_current_def window_of_def)
  then show ?case using Suc by simp
qed simp

lemma end_all_count:
  assumes "window_of l key = Some \<lparr>aw_count = c, aw_startedAt = now\<rparr>" "0 < lim_windowMs l"
  shows "window_of (end_all n now key l) key = Some \<lparr>aw_count = c + int n, aw_startedAt = now\<rparr>"
  using assms
proof (induction n arbitrary: l c)
  case (Suc n)
  have "live now key l = Some \<lparr>aw_count = c, aw_startedAt = now\<rparr>" using Suc.prems by (simp add: live_def)
  then have "window_of (recordFailure now key l) key = Some \<lparr>aw_count = c + 1, aw_startedAt = now\<rparr>"
    by (simp add: recordFailure_effect)
  from Suc.IH [OF this] Suc.prems(2) show ?case by (simp add: login_end_def recordFailure_effect)
qed simp

text \<open>
  C15: Parallel logins are not bounded: any number of them passes the check, and all their passwords are verified,
  because a failure is recorded only when the password hash has answered.
\<close>

theorem parallel_guesses_unbounded:
  "case begin_all (Suc n) now key (new_FixedWindowRateLimiter None None) of (answers, l) \<Rightarrow>
     answers = replicate (Suc n) (Inr ())
     \<and> window_of (end_all (Suc n) now key l) key = Some \<lparr>aw_count = int (Suc n), aw_startedAt = now\<rparr>"
proof -
  let ?l = "new_FixedWindowRateLimiter None None"
  have none: "window_of ?l key = None" by (simp add: new_FixedWindowRateLimiter_def window_of_def)
  then have "window_of (recordFailure now key ?l) key = Some \<lparr>aw_count = 1, aw_startedAt = now\<rparr>"
    by (simp add: recordFailure_effect live_def)
  from end_all_count [OF this, of n] show ?thesis
    using begin_all_fresh [OF none, of "Suc n" now]
    by (simp add: login_end_def recordFailure_effect new_FixedWindowRateLimiter_def DEFAULT_RATE_LIMIT_WINDOW_MS_def)
qed

text \<open>What the cookies rely on: a signed value is given back, and a written payload is read back.\<close>

definition codec_ok :: "cookie_codec \<Rightarrow> bool" where
  "codec_ok ck \<longleftrightarrow> (\<forall>v. ck_unsign ck (ck_sign ck v) = Some v) \<and> (\<forall>j. ck_read ck (ck_write ck j) = Some j)"

lemmas cookie_defs = readSession_def readPinSession_def issueSession_def issuePinSession_def decodeSession_def decodePinSession_def
  encodeSession_def encodePinSession_def sessionPayloadSchema_def pinSessionPayloadSchema_def json_get_def codec_ok_def

text \<open>
  C32: A session is accepted from the moment it is issued until its lifetime is over and not longer, whatever other
  cookies the browser holds: seven days for the admin, twelve hours for a child.
\<close>

theorem session_accepted_exactly_for_its_lifetime:
  assumes "codec_ok ck" "username \<noteq> []" "0 < userId" "1000 \<le> t"
  shows "readSession ck t' (issueSession ck t username cs) =
      (if t' div 1000 - t div 1000 \<le> 604800 then Some \<lparr>ses_sub = username, ses_iat = t div 1000\<rparr> else None)
    \<and> readPinSession ck t' (issuePinSession ck t userId cs) =
      (if t' div 1000 - t div 1000 \<le> 43200 then Some \<lparr>pin_uid = userId, pin_iat = t div 1000\<rparr> else None)"
proof -
  have "0 < t div 1000" using assms(4) by simp
  then show ?thesis
    using assms by (simp add: cookie_defs epoch_seconds_def SESSION_TTL_SECONDS_def PIN_SESSION_TTL_SECONDS_def Suc_le_eq)
qed

text \<open>A codec of that kind: values numbered, written in unary.\<close>

instance char :: countable
  by countable_datatype

instance json :: countable
  by countable_datatype

definition unary_codec :: cookie_codec where
  "unary_codec = \<lparr>ck_sign = (\<lambda>v. CHR ''!'' # v), ck_unsign = (\<lambda>v. case v of [] \<Rightarrow> None | c # v' \<Rightarrow> if c = CHR ''!'' then Some v' else None),
     ck_write = (\<lambda>j. replicate (to_nat j) (CHR ''I'')), ck_read = (\<lambda>v. Some (from_nat (length v)))\<rparr>"

lemma unary_codec_ok: "codec_ok unary_codec"
  by (simp add: codec_ok_def unary_codec_def)

lemma session_accepted_exactly_for_its_lifetime_witness:
  "readSession unary_codec 604801999 (issueSession unary_codec 1000 ''mum'' []) = Some \<lparr>ses_sub = ''mum'', ses_iat = 1\<rparr>
   \<and> readPinSession unary_codec 43202000 (issuePinSession unary_codec 1000 7 []) = None"
  using session_accepted_exactly_for_its_lifetime [OF unary_codec_ok, of "''mum''" 7 1000 604801999 "[]"]
    session_accepted_exactly_for_its_lifetime [OF unary_codec_ok, of "''mum''" 7 1000 43202000 "[]"]
  by simp

text \<open>
  C33: The two kinds of session do not stand in for each other: although one key signs both and the signature does
  not cover the name of the cookie, a PIN session sent under the name of the admin cookie is refused, and the reverse.
\<close>

theorem sessions_do_not_cross:
  assumes "codec_ok ck" "map_of cs SESSION_COOKIE = map_of (issuePinSession ck t userId ds) PIN_SESSION_COOKIE"
    and "map_of es PIN_SESSION_COOKIE = map_of (issueSession ck t username ds) SESSION_COOKIE"
  shows "requireAdmin True ck t' cs = Inl unauthorized \<and> requirePinSession True ck t' es = Inl unauthorized"
  using assms by (simp add: requireAdmin_def requirePinSession_def assertAuthConfigured_def cookie_defs)

lemma sessions_do_not_cross_witness:
  "requireAdmin True unary_codec 2000 [(SESSION_COOKIE, the (map_of (issuePinSession unary_codec 1000 7 []) PIN_SESSION_COOKIE))] = Inl unauthorized"
  using sessions_do_not_cross [OF unary_codec_ok,
      of "[(SESSION_COOKIE, the (map_of (issuePinSession unary_codec 1000 7 []) PIN_SESSION_COOKIE))]" 1000 7 "[]"
        "[(PIN_SESSION_COOKIE, the (map_of (issueSession unary_codec 1000 ''mum'' []) SESSION_COOKIE))]" "''mum''" 2000]
  by (simp add: issuePinSession_def issueSession_def)

text \<open>
  C0: The admin login answers a session exactly when authentication is configured, the address is not blocked, and the
  name and the password are those of the one admin.
\<close>

theorem admin_login_exact:
  "fst (post_login ck verify configured now ip username password a s) = Inr u \<longleftrightarrow>
     configured \<and> fst (isBlocked now ip (fst s)) = False
     \<and> (\<exists>adm. adb_admin a = Some adm \<and> adm_username adm = username \<and> verify (adm_passwordHash adm) password \<and> u = username)"
  by (auto simp: post_login_def login_begin_def login_end_def assertAuthConfigured_def admin_principal_def
      split: prod.splits option.splits if_splits)

end
