(* ===== verification/Policy_Invariant.thy ===== *)
theory Policy_Invariant
  imports Policy_Api
begin

text \<open>
  What the policy routes of \<open>Policy_Api\<close> keep and promise: a refused request changes nothing, every sequence
  of requests leaves the policy tables sound (unique keys that are never reused, owners and members that exist,
  every storage check). Which accepted changes reach the clients is in \<open>Policy_Delivery\<close>.
\<close>

section \<open>Inversion of handlers\<close>

named_theorems handler_iff "when a handler succeeds or fails, and with what state"

lemma reply_iff [handler_iff]: "reply x s = (r, s') \<longleftrightarrow> r = Inr x \<and> s' = s"
  by (auto simp: reply_def)

lemma api_throw_iff [handler_iff]: "api_throw e s = (r, s') \<longleftrightarrow> r = Inl e \<and> s' = s"
  by (auto simp: api_throw_def)

lemma then_api_Inr [handler_iff]: "then_api m f s = (Inr x, s') \<longleftrightarrow> (\<exists>y s1. m s = (Inr y, s1) \<and> f y s1 = (Inr x, s'))"
  by (auto simp: then_api_def split: prod.splits sum.splits)

lemma then_api_Inl [handler_iff]:
  "then_api m f s = (Inl e, s') \<longleftrightarrow> m s = (Inl e, s') \<or> (\<exists>y s1. m s = (Inr y, s1) \<and> f y s1 = (Inl e, s'))"
  by (auto simp: then_api_def split: prod.splits sum.splits)

lemma query_iff [handler_iff]: "query f s = (r, s') \<longleftrightarrow> r = Inr (f (fst s)) \<and> s' = s"
  by (auto simp: query_def)

lemma db_write_iff [handler_iff]:
  "db_write f s = (r, s') \<longleftrightarrow> r = Inr (snd (f (fst s))) \<and> s' = (fst (f (fst s)), snd s)"
  by (auto simp: db_write_def split: prod.splits)

lemma push_commands_iff [handler_iff]: "push_commands cmds s = (r, s') \<longleftrightarrow> r = Inr () \<and> s' = (fst s, snd s @ cmds)"
  by (auto simp: push_commands_def)

lemma asConflict_Inr [handler_iff]:
  "asConflict f s = (Inr x, s') \<longleftrightarrow> f (fst s) = Inr (fst s', x) \<and> snd s' = snd s"
  by (cases s') (auto simp: asConflict_def split: sum.splits violation.splits)

lemma asConflict_Inl [handler_iff]: "asConflict f s = (Inl e, s') \<longleftrightarrow> s' = s \<and> fst (asConflict f s) = Inl e"
  by (auto simp: asConflict_def split: sum.splits violation.splits)

lemma asValidated_Inr [handler_iff]:
  "asValidated f s = (Inr x, s') \<longleftrightarrow> f (fst s) = Inr (fst s', x) \<and> snd s' = snd s"
  by (cases s') (auto simp: asValidated_def split: sum.splits store_error.splits)

lemma asValidated_Inl [handler_iff]: "asValidated f s = (Inl e, s') \<longleftrightarrow> s' = s \<and> fst (asValidated f s) = Inl e"
  by (auto simp: asValidated_def split: sum.splits store_error.splits)

lemma asReordered_Inr [handler_iff]:
  "asReordered f s = (Inr x, s') \<longleftrightarrow> with_store f (fst s) = Inr (fst s', x) \<and> snd s' = snd s"
  by (cases s') (auto simp: asReordered_def split: sum.splits store_error.splits)

lemma asReordered_Inl [handler_iff]: "asReordered f s = (Inl e, s') \<longleftrightarrow> s' = s \<and> fst (asReordered f s) = Inl e"
  by (auto simp: asReordered_def split: sum.splits store_error.splits)

lemma assertFound_iff [handler_iff]:
  "assertFound row s = (r, s') \<longleftrightarrow> s' = s \<and> r = (case row of None \<Rightarrow> Inl notFound | Some x \<Rightarrow> Inr x)"
  by (auto simp: assertFound_def handler_iff split: option.splits)

lemma assertRemoved_iff [handler_iff]:
  "assertRemoved b s = (r, s') \<longleftrightarrow> s' = s \<and> r = (if b then Inr () else Inl notFound)"
  by (auto simp: assertRemoved_def handler_iff)

definition target_exists :: "store \<Rightarrow> scope \<Rightarrow> int option \<Rightarrow> bool" where
  "target_exists st kind target =
     (case target of
        None \<Rightarrow> kind = Overall
      | Some t \<Rightarrow> (kind = Activity \<and> getActivity st t \<noteq> None) \<or> (kind = Group \<and> getActivityGroup st t \<noteq> None))"

lemma assertTarget_iff [handler_iff]:
  "assertTarget kind target s = (r, s') \<longleftrightarrow>
     s' = s \<and> r = (if target_exists (db_policy (fst s)) kind target then Inr () else Inl bad_target)"
  by (cases kind; cases target) (auto simp: assertTarget_def target_exists_def then_api_def query_def api_throw_def reply_def)

lemma with_store_Inr [handler_iff]:
  "with_store f d = Inr (d', x) \<longleftrightarrow> (\<exists>st. f (db_policy d) = Inr (st, x) \<and> d' = d\<lparr>db_policy := st\<rparr>)"
  by (auto simp: with_store_def split: sum.splits)

lemma on_store_iff: "on_store f d = (d\<lparr>db_policy := fst (f (db_policy d))\<rparr>, snd (f (db_policy d)))"
  by (simp add: on_store_def split: prod.splits)

lemma answered_Inr [handler_iff]: "answered h s = (Inr x, s') \<longleftrightarrow> (\<exists>y. h s = (Inr y, s'))"
  by (auto simp: answered_def handler_iff)

lemma answered_Inl [handler_iff]: "answered h s = (Inl e, s') \<longleftrightarrow> h s = (Inl e, s')"
  by (auto simp: answered_def handler_iff)

lemmas handler_defs = post_user_def patch_user_route_def delete_user_def post_client_def patch_client_route_def
  delete_client_def put_link_def delete_link_def post_user_group_def patch_user_group_def delete_user_group_def
  put_member_def delete_member_def post_activity_def patch_activity_route_def delete_activity_def
  post_activity_group_def patch_activity_group_def delete_activity_group_def put_group_activity_def
  delete_group_activity_def post_budget_def patch_budget_route_def delete_budget_def post_group_budget_def
  patch_group_budget_def delete_group_budget_def post_schedule_def patch_schedule_route_def delete_schedule_def
  post_group_schedule_def patch_group_schedule_def delete_group_schedule_def post_exception_def
  patch_exception_route_def delete_exception_def post_group_exception_def patch_group_exception_def
  delete_group_exception_def put_notification_def delete_notification_def put_user_order_def put_group_order_def
  push_to_user_def push_to_members_def

section \<open>Sound tables\<close>

text \<open>A table with an auto-incremented key, an owner column and storage checks.\<close>

definition table_ok :: "('r \<Rightarrow> int) \<Rightarrow> ('r \<Rightarrow> int) \<Rightarrow> ('r \<Rightarrow> bool) \<Rightarrow> int set \<Rightarrow> int \<Rightarrow> 'r list \<Rightarrow> bool" where
  "table_ok key own P owners seq rows \<longleftrightarrow>
     distinct (map key rows) \<and> (\<forall>r \<in> set rows. key r \<le> seq \<and> own r \<in> owners \<and> P r)"

lemma table_ok_snoc:
  assumes "table_ok key own P owners seq rows" "key r = seq + 1" "own r \<in> owners" "P r"
  shows "table_ok key own P owners (seq + 1) (rows @ [r])"
  using assms by (force simp: table_ok_def)

lemma table_ok_filter:
  assumes "table_ok key own P owners seq rows" "\<And>r. r \<in> set rows \<Longrightarrow> Q r \<Longrightarrow> own r \<in> owners \<Longrightarrow> own r \<in> owners'"
  shows "table_ok key own P owners' seq (filter Q rows)"
  using assms by (auto simp: table_ok_def)

lemma table_ok_map:
  assumes "table_ok key own P owners seq rows" "\<And>r. key (f r) = key r" "\<And>r. own (f r) = own r"
    "\<And>r. r \<in> set rows \<Longrightarrow> P r \<Longrightarrow> P (f r)"
  shows "table_ok key own P owners seq (map f rows)"
  using assms by (auto simp: table_ok_def comp_def)

lemma table_ok_mono: "table_ok key own P owners seq rows \<Longrightarrow> owners \<subseteq> owners' \<Longrightarrow> table_ok key own P owners' seq rows"
  by (auto simp: table_ok_def)

lemma table_ok_Nil [simp]: "table_ok key own P owners seq []"
  by (simp add: table_ok_def)

text \<open>A key finds the one row that has it.\<close>

lemma table_ok_find:
  assumes "table_ok key own P owners seq rows" "List.find (\<lambda>r. key r = i) rows = Some r" "q \<in> set rows" "key q = i"
  shows "q = r"
  using find_in_set [OF assms(2)] assms(1,3,4) by (auto simp: table_ok_def distinct_map dest: inj_onD)

definition names_ok :: "int \<Rightarrow> (int \<times> string) list \<Rightarrow> bool" where
  "names_ok seq rows \<longleftrightarrow> table_ok fst fst (\<lambda>_. True) UNIV seq rows \<and> distinct (map snd rows)"

abbreviation budgets_ok :: "int set \<Rightarrow> int \<Rightarrow> budget_row list \<Rightarrow> bool" where
  "budgets_ok \<equiv> table_ok fst (fst \<circ> snd) (budget_checks \<circ> snd \<circ> snd)"

abbreviation rules_ok :: "int set \<Rightarrow> int \<Rightarrow> schedule_row list \<Rightarrow> bool" where
  "rules_ok \<equiv> table_ok (sr_id \<circ> snd) fst (schedule_checks \<circ> snd)"

abbreviation exceptions_ok :: "int set \<Rightarrow> int \<Rightarrow> exception_row list \<Rightarrow> bool" where
  "exceptions_ok \<equiv> table_ok (xi_id \<circ> snd) fst (exception_checks \<circ> snd)"

definition members_ok :: "int set \<Rightarrow> int set \<Rightarrow> (int \<times> int) list \<Rightarrow> bool" where
  "members_ok as bs rows \<longleftrightarrow> distinct rows \<and> (\<forall>(a, b) \<in> set rows. a \<in> as \<and> b \<in> bs)"

definition notifications_ok :: "int set \<Rightarrow> notification_row list \<Rightarrow> bool" where
  "notifications_ok us rows \<longleftrightarrow> distinct (map np_userId rows) \<and> (\<forall>n \<in> set rows. np_userId n \<in> us \<and> notification_checks n)"

abbreviation group_ids :: "store \<Rightarrow> int set" where
  "group_ids st \<equiv> fst ` set (st_groups st)"

text \<open>What the usage pipeline wrote belongs to rows that exist.\<close>

definition usage_ok :: "int set \<Rightarrow> int set \<Rightarrow> store \<Rightarrow> bool" where
  "usage_ok us cs st \<longleftrightarrow>
     (\<forall>x \<in> set (st_samples st). us_userId x \<in> us \<and> us_clientId x \<in> cs \<and> us_activityId x \<in> act_id ` set (st_activities st))
     \<and> (\<forall>g \<in> set (st_grants st). fst g \<in> us)"

definition store_ok :: "int set \<Rightarrow> int set \<Rightarrow> store \<Rightarrow> bool" where
  "store_ok us cs st \<longleftrightarrow>
     names_ok (st_groupSeq st) (st_groups st) \<and> members_ok us (group_ids st) (st_memberships st)
     \<and> table_ok act_id act_id (\<lambda>_. True) UNIV (st_activitySeq st) (st_activities st)
     \<and> names_ok (st_activityGroupSeq st) (st_activityGroups st)
     \<and> members_ok (act_id ` set (st_activities st)) (fst ` set (st_activityGroups st)) (st_activityMembers st)
     \<and> budgets_ok us (st_budgetSeq st) (st_budgets st)
     \<and> budgets_ok (group_ids st) (st_groupBudgetSeq st) (st_groupBudgets st)
     \<and> rules_ok us (st_scheduleSeq st) (st_schedules st)
     \<and> rules_ok (group_ids st) (st_groupScheduleSeq st) (st_groupSchedules st)
     \<and> exceptions_ok us (st_exceptionSeq st) (st_exceptions st)
     \<and> exceptions_ok (group_ids st) (st_groupExceptionSeq st) (st_groupExceptions st)
     \<and> notifications_ok us (st_notifications st) \<and> usage_ok us cs st"

abbreviation user_ids :: "db \<Rightarrow> int set" where
  "user_ids d \<equiv> user_id ` set (db_users d)"

abbreviation client_ids :: "db \<Rightarrow> int set" where
  "client_ids d \<equiv> client_id ` set (db_clients d)"

definition api_ok :: "db \<Rightarrow> bool" where
  "api_ok d \<longleftrightarrow> db_ok d \<and> store_ok (user_ids d) (client_ids d) (db_policy d)"

lemma usage_ok_mono: "usage_ok us cs st \<Longrightarrow> us \<subseteq> vs \<Longrightarrow> cs \<subseteq> ds \<Longrightarrow> usage_ok vs ds st"
  by (auto simp: usage_ok_def)

lemma store_ok_mono: "store_ok us cs st \<Longrightarrow> us \<subseteq> vs \<Longrightarrow> cs \<subseteq> ds \<Longrightarrow> store_ok vs ds st"
  using usage_ok_mono [of us cs st vs ds]
  by (auto simp: store_ok_def members_ok_def notifications_ok_def intro: table_ok_mono)

lemma store_okD:
  assumes "store_ok us cs st"
  shows store_ok_groups: "names_ok (st_groupSeq st) (st_groups st)"
    and store_ok_memberships: "members_ok us (group_ids st) (st_memberships st)"
    and store_ok_activities: "table_ok act_id act_id (\<lambda>_. True) UNIV (st_activitySeq st) (st_activities st)"
    and store_ok_activityGroups: "names_ok (st_activityGroupSeq st) (st_activityGroups st)"
    and store_ok_activityMembers:
      "members_ok (act_id ` set (st_activities st)) (fst ` set (st_activityGroups st)) (st_activityMembers st)"
    and store_ok_budgets: "budgets_ok us (st_budgetSeq st) (st_budgets st)"
    and store_ok_groupBudgets: "budgets_ok (group_ids st) (st_groupBudgetSeq st) (st_groupBudgets st)"
    and store_ok_schedules: "rules_ok us (st_scheduleSeq st) (st_schedules st)"
    and store_ok_groupSchedules: "rules_ok (group_ids st) (st_groupScheduleSeq st) (st_groupSchedules st)"
    and store_ok_exceptions: "exceptions_ok us (st_exceptionSeq st) (st_exceptions st)"
    and store_ok_groupExceptions: "exceptions_ok (group_ids st) (st_groupExceptionSeq st) (st_groupExceptions st)"
    and store_ok_notifications: "notifications_ok us (st_notifications st)"
    and store_ok_usage: "usage_ok us cs st"
  using assms unfolding store_ok_def by blast+

lemma empty_store_ok: "store_ok us cs empty_store"
  by (simp add: store_ok_def empty_store_def names_ok_def members_ok_def notifications_ok_def usage_ok_def)

lemma getUserGroup_None: "getUserGroup st i = None \<longleftrightarrow> i \<notin> group_ids st"
  by (auto simp: getUserGroup_def find_None_set)

lemma getActivity_None: "getActivity st i = None \<longleftrightarrow> i \<notin> act_id ` set (st_activities st)"
  by (auto simp: getActivity_def find_None_set)

lemma getActivityGroup_None: "getActivityGroup st i = None \<longleftrightarrow> i \<notin> fst ` set (st_activityGroups st)"
  by (auto simp: getActivityGroup_def find_None_set)

section \<open>Every write keeps the tables sound\<close>

lemma names_ok_snoc: "names_ok seq rows \<Longrightarrow> n \<notin> snd ` set rows \<Longrightarrow> names_ok (seq + 1) (rows @ [(seq + 1, n)])"
  by (auto simp: names_ok_def intro!: table_ok_snoc)

lemma renamed_ids [simp]: "map fst (renamed i n rows) = map fst rows"
  by (auto simp: renamed_def)

lemma renamed_id_set [simp]: "fst ` set (renamed i n rows) = fst ` set rows"
  by (metis renamed_ids set_map)

lemma names_ok_renamed:
  assumes "names_ok seq rows" "\<not> name_taken i n rows"
  shows "names_ok seq (renamed i n rows)"
proof -
  have ids: "inj_on fst (set rows)" "distinct rows" "distinct (map snd rows)"
    using assms(1) by (auto simp: names_ok_def table_ok_def distinct_map)
  have "inj_on (\<lambda>g. snd (if fst g = i then (i, nullish n (snd g)) else g)) (set rows)"
    using ids assms(2) by (cases n) (auto simp: inj_on_def name_taken_def distinct_map rev_image_eqI)
  then have "distinct (map snd (renamed i n rows))"
    using ids by (simp add: renamed_def distinct_map comp_def)
  moreover have "table_ok fst fst (\<lambda>_. True) UNIV seq (renamed i n rows)"
    unfolding table_ok_def renamed_ids using assms(1) by (auto simp: names_ok_def table_ok_def renamed_def)
  ultimately show ?thesis by (simp add: names_ok_def)
qed

lemma members_ok_add: "members_ok as bs rows \<Longrightarrow> a \<in> as \<Longrightarrow> b \<in> bs \<Longrightarrow>
    members_ok as bs (if (a, b) \<in> set rows then rows else rows @ [(a, b)])"
  by (auto simp: members_ok_def)

lemma members_ok_filter:
  assumes "members_ok as bs rows" "\<And>a b. (a, b) \<in> set rows \<Longrightarrow> Q (a, b) \<Longrightarrow> a \<in> as \<Longrightarrow> b \<in> bs \<Longrightarrow> a \<in> as' \<and> b \<in> bs'"
  shows "members_ok as' bs' (filter Q rows)"
  using assms by (auto simp: members_ok_def)

text \<open>A patched table is sound when the patched row passes the checks.\<close>

lemma table_ok_patch:
  assumes ok: "table_ok key own P owners seq rows" and key: "\<And>r. key (f r) = key r" and own: "\<And>r. own (f r) = own r"
    and found: "case List.find (\<lambda>r. key r = i) (map (\<lambda>r. if key r = i then f r else r) rows) of None \<Rightarrow> True | Some r \<Rightarrow> P r"
  shows "table_ok key own P owners seq (map (\<lambda>r. if key r = i then f r else r) rows)"
proof (rule table_ok_map [OF ok])
  fix r
  assume r: "r \<in> set rows" "P r"
  have "P (f r)" if i: "key r = i"
  proof -
    have "List.find (\<lambda>r. key r = i) (map (\<lambda>r. if key r = i then f r else r) rows)
        = map_option (\<lambda>r. if key r = i then f r else r) (List.find (\<lambda>r. key r = i) rows)"
      by (simp add: find_map_conv key cong: find_cong_set if_cong)
    moreover obtain q where "List.find (\<lambda>r. key r = i) rows = Some q"
      using r i by (cases "List.find (\<lambda>r. key r = i) rows") (auto simp: find_None_set)
    moreover from table_ok_find [OF ok this r(1) i] have "q = r" by simp
    ultimately show ?thesis using found i by simp
  qed
  then show "P (if key r = i then f r else r)" using r by simp
qed (simp_all add: key own)

lemma patch_budgets_map: "patch_budgets i p rows = map (\<lambda>r. if fst r = i then (fst r, fst (snd r), patch_budget p (snd (snd r))) else r) rows"
  by (auto simp: patch_budgets_def)

lemma patch_exceptions_map:
  "patch_exceptions i p rows = map (\<lambda>r. if (xi_id \<circ> snd) r = i then (fst r, patch_exception p (snd r)) else r) rows"
  by (auto simp: patch_exceptions_def)

lemma update_rows_map: "update_rows i f rows = map (\<lambda>r. if (sr_id \<circ> snd) r = i then (fst r, f (snd r)) else r) rows"
  by (auto simp: update_rows_def)

lemma patch_ids [simp]: "xi_id (patch_exception p x) = xi_id x" "sr_id (patch_schedule q r) = sr_id r"
  by (simp_all add: patch_exception_def patch_schedule_def)

lemma budgets_ok_patch:
  assumes "budgets_ok us seq rows" "\<not> (case find_budget i (patch_budgets i p rows) of None \<Rightarrow> False | Some (_, _, b) \<Rightarrow> \<not> budget_checks b)"
  shows "budgets_ok us seq (patch_budgets i p rows)"
  unfolding patch_budgets_map using assms(2)
  by (intro table_ok_patch [OF assms(1)])
    (auto simp: find_budget_def patch_budgets_map split: option.splits prod.splits if_splits)

lemma exceptions_ok_patch:
  assumes "exceptions_ok us seq rows"
    "\<not> (case find_exception i (patch_exceptions i p rows) of None \<Rightarrow> False | Some (_, x) \<Rightarrow> \<not> exception_checks x)"
  shows "exceptions_ok us seq (patch_exceptions i p rows)"
  unfolding patch_exceptions_map using assms(2)
  by (intro table_ok_patch [OF assms(1)])
    (auto simp: find_exception_def patch_exceptions_map split: option.splits prod.splits if_splits)

lemma rules_ok_patch:
  assumes "rules_ok us seq rows"
    "\<not> (case find_schedule i (update_rows i (patch_schedule p) rows) of None \<Rightarrow> False | Some r \<Rightarrow> \<not> schedule_checks r)"
  shows "rules_ok us seq (update_rows i (patch_schedule p) rows)"
  unfolding update_rows_map using assms(2)
  by (intro table_ok_patch [OF assms(1)])
    (auto simp: find_schedule_def update_rows_map case_prod_unfold comp_def split: option.splits prod.splits if_splits)

lemma rules_ok_ordinals:
  assumes "rules_ok us seq rows"
  shows "rules_ok us seq (write_ordinals rs rows)"
  unfolding write_ordinals_map using assms by (auto intro!: table_ok_map split: option.splits)

lemma notifications_ok_upsert:
  assumes "notifications_ok us rows" "u \<in> us"
    "rows' = (if List.find (\<lambda>n. np_userId n = u) rows = None then rows @ [fresh]
       else update_where (\<lambda>n. np_userId n = u) (patch_notification p) rows)" "np_userId fresh = u"
    "case List.find (\<lambda>n. np_userId n = u) rows' of None \<Rightarrow> True | Some n \<Rightarrow> notification_checks n"
  shows "notifications_ok us rows'"
proof (cases "List.find (\<lambda>n. np_userId n = u) rows")
  case None
  then show ?thesis
    using assms None by (auto simp: notifications_ok_def find_append) (auto simp: find_None_set)
next
  case (Some n)
  have ids: "distinct (map np_userId rows)" using assms(1) by (simp add: notifications_ok_def)
  have rows': "rows' = map (\<lambda>n. if np_userId n = u then patch_notification p n else n) rows"
    using assms(3) Some by (simp add: update_where_def)
  have ok: "table_ok np_userId np_userId notification_checks us (Max (insert 0 (np_userId ` set rows))) rows"
    using assms(1) by (auto simp: table_ok_def notifications_ok_def)
  have "table_ok np_userId np_userId notification_checks us (Max (insert 0 (np_userId ` set rows))) rows'"
    unfolding rows' by (rule table_ok_patch [OF ok]) (use assms(5) rows' in \<open>simp_all add: patch_notification_def\<close>)
  then show ?thesis by (auto simp: table_ok_def notifications_ok_def)
qed

section \<open>A write that finds no row changes nothing\<close>

lemma update_where_none: "\<forall>r \<in> set rows. \<not> P r \<Longrightarrow> update_where P f rows = rows"
  by (auto simp: update_where_def intro: map_idI)

lemma find_update_None: "(\<And>r. P r \<Longrightarrow> P (f r)) \<Longrightarrow> List.find P (update_where P f rows) = None \<longleftrightarrow> (\<forall>r \<in> set rows. \<not> P r)"
  by (auto simp: find_None_set set_update_where)

named_theorems no_row "writes that find no row"

lemma updateUser_no_row [no_row]: "snd (updateUser d i p) = None \<Longrightarrow> fst (updateUser d i p) = d"
  by (simp add: updateUser_def Let_def getUser_def find_update_None patch_user_def update_where_none)

lemma updateClient_no_row [no_row]: "updateClient d i p = Inr (d', None) \<Longrightarrow> d' = d"
  by (auto simp: updateClient_def Let_def getClient_def find_update_None patch_client_def update_where_none split: if_splits)

lemma deleteLink_no_row [no_row]: "snd (deleteLink d u c) = None \<Longrightarrow> fst (deleteLink d u c) = d"
  by (simp add: deleteLink_def find_None_set)

lemma deleteUser_no_row [no_row]:
  assumes "api_ok d" "\<not> snd (deleteUser d i)"
  shows "fst (deleteUser d i) = d"
proof -
  have i: "i \<notin> user_ids d" using assms(2) by (simp add: deleteUser_def getUser_None)
  have "filter (\<lambda>m. fst m \<noteq> i) (st_memberships (db_policy d)) = st_memberships (db_policy d)"
    "filter (\<lambda>b. fst (snd b) \<noteq> i) (st_budgets (db_policy d)) = st_budgets (db_policy d)"
    "filter (\<lambda>r. fst r \<noteq> i) (st_schedules (db_policy d)) = st_schedules (db_policy d)"
    "filter (\<lambda>r. fst r \<noteq> i) (st_exceptions (db_policy d)) = st_exceptions (db_policy d)"
    "filter (\<lambda>x. us_userId x \<noteq> i) (st_samples (db_policy d)) = st_samples (db_policy d)"
    "filter (\<lambda>r. fst r \<noteq> i) (st_grants (db_policy d)) = st_grants (db_policy d)"
    "filter (\<lambda>n. np_userId n \<noteq> i) (st_notifications (db_policy d)) = st_notifications (db_policy d)"
    using assms(1) i
    by (auto simp: api_ok_def store_ok_def table_ok_def members_ok_def notifications_ok_def usage_ok_def filter_id_conv)
  moreover have "filter (\<lambda>u. user_id u \<noteq> i) (db_users d) = db_users d" "filter (\<lambda>l. link_userId l \<noteq> i) (db_links d) = db_links d"
    using assms(1) i by (auto simp: api_ok_def db_ok_def links_ok_def filter_id_conv)
  ultimately show ?thesis by (simp add: deleteUser_def forget_user_def)
qed

lemma deleteClient_no_row [no_row]:
  assumes "api_ok d" "\<not> snd (deleteClient d i)"
  shows "fst (deleteClient d i) = d"
proof -
  have i: "i \<notin> client_ids d" using assms(2) by (simp add: deleteClient_def getClient_None)
  have "filter (\<lambda>c. client_id c \<noteq> i) (db_clients d) = db_clients d" "filter (\<lambda>l. link_clientId l \<noteq> i) (db_links d) = db_links d"
    "filter (\<lambda>q. q_clientId q \<noteq> i) (db_queue d) = db_queue d"
    "filter (\<lambda>x. us_clientId x \<noteq> i) (st_samples (db_policy d)) = st_samples (db_policy d)"
    using assms(1) i by (auto simp: api_ok_def db_ok_def links_ok_def queue_ok_def store_ok_def usage_ok_def filter_id_conv)
  then show ?thesis by (simp add: deleteClient_def forget_client_def)
qed

lemma table_ok_keep:
  assumes "table_ok key own P owners seq rows" "i \<notin> owners" "\<And>r. \<not> Q r \<Longrightarrow> own r = i"
  shows "filter Q rows = rows"
  using assms by (auto simp: filter_id_conv table_ok_def)

lemma deleteUserGroup_no_row [no_row]:
  assumes ok: "store_ok us cs st" and none: "\<not> snd (deleteUserGroup st i)"
  shows "fst (deleteUserGroup st i) = st"
proof -
  have i: "i \<notin> group_ids st" using none by (simp add: deleteUserGroup_def getUserGroup_None)
  have "filter (\<lambda>g. fst g \<noteq> i) (st_groups st) = st_groups st" using i by (auto simp: filter_id_conv)
  moreover have "filter (\<lambda>m. snd m \<noteq> i) (st_memberships st) = st_memberships st"
    using ok i by (auto simp: store_ok_def members_ok_def filter_id_conv)
  moreover have "filter (\<lambda>r. fst r \<noteq> i) (st_groupSchedules st) = st_groupSchedules st"
    by (rule table_ok_keep [OF store_ok_groupSchedules [OF ok] i]) simp
  moreover have "filter (\<lambda>r. fst r \<noteq> i) (st_groupExceptions st) = st_groupExceptions st"
    by (rule table_ok_keep [OF store_ok_groupExceptions [OF ok] i]) simp
  moreover have "filter (\<lambda>(b, g, _). g \<noteq> i) (st_groupBudgets st) = st_groupBudgets st"
    by (rule table_ok_keep [OF store_ok_groupBudgets [OF ok] i]) auto
  ultimately show ?thesis by (simp add: deleteUserGroup_def)
qed

lemma deleteActivity_no_row [no_row]:
  assumes "store_ok us cs st" "\<not> snd (deleteActivity st i)"
  shows "fst (deleteActivity st i) = st"
proof -
  have i: "i \<notin> act_id ` set (st_activities st)" using assms(2) by (auto simp: deleteActivity_def)
  have "filter (\<lambda>a. act_id a \<noteq> i) (st_activities st) = st_activities st"
    "filter (\<lambda>m. fst m \<noteq> i) (st_activityMembers st) = st_activityMembers st"
    "filter (\<lambda>x. us_activityId x \<noteq> i) (st_samples st) = st_samples st"
    using assms(1) i by (auto simp: store_ok_def members_ok_def usage_ok_def filter_id_conv)
  then show ?thesis by (simp add: deleteActivity_def)
qed

lemma deleteActivityGroup_no_row [no_row]:
  assumes "store_ok us cs st" "\<not> snd (deleteActivityGroup st i)"
  shows "fst (deleteActivityGroup st i) = st"
proof -
  have i: "i \<notin> fst ` set (st_activityGroups st)" using assms(2) by (auto simp: deleteActivityGroup_def getActivityGroup_None)
  have "filter (\<lambda>g. fst g \<noteq> i) (st_activityGroups st) = st_activityGroups st"
    "filter (\<lambda>m. snd m \<noteq> i) (st_activityMembers st) = st_activityMembers st"
    using assms(1) i by (auto simp: store_ok_def members_ok_def filter_id_conv)
  then show ?thesis by (simp add: deleteActivityGroup_def)
qed

text \<open>A patch that finds no row maps every row to itself.\<close>

definition patched :: "('r \<Rightarrow> int) \<Rightarrow> int \<Rightarrow> ('r \<Rightarrow> 'r) \<Rightarrow> 'r list \<Rightarrow> 'r list" where
  "patched key i f rows = map (\<lambda>r. if key r = i then f r else r) rows"

lemma patched_absent:
  assumes "\<forall>y \<in> set (patched key i f rows). key y \<noteq> i" "\<And>r. key (f r) = key r"
  shows "patched key i f rows = rows"
  unfolding patched_def
proof (rule map_idI)
  fix r
  assume "r \<in> set rows"
  then have "(if key r = i then f r else r) \<in> set (patched key i f rows)" by (simp add: patched_def)
  with assms(1) have "key (if key r = i then f r else r) \<noteq> i" by blast
  then have "key r \<noteq> i" using assms(2) by metis
  then show "(if key r = i then f r else r) = r" by simp
qed

lemma patch_budgets_patched:
  "patch_budgets i p rows = patched fst i (\<lambda>r. (fst r, fst (snd r), patch_budget p (snd (snd r)))) rows"
  by (simp only: patch_budgets_map patched_def)

lemma patch_exceptions_patched: "patch_exceptions i p rows = patched (xi_id \<circ> snd) i (\<lambda>r. (fst r, patch_exception p (snd r))) rows"
  by (simp only: patch_exceptions_map patched_def)

lemma update_rows_patched: "update_rows i f rows = patched (sr_id \<circ> snd) i (\<lambda>r. (fst r, f (snd r))) rows"
  by (simp only: update_rows_map patched_def)

lemma renamed_patched: "renamed i n rows = patched fst i (\<lambda>g. (fst g, nullish n (snd g))) rows"
  by (auto simp: renamed_def patched_def)

lemma patch_budgets_none: "find_budget i (patch_budgets i p rows) = None \<Longrightarrow> patch_budgets i p rows = rows"
  unfolding find_budget_def patch_budgets_patched find_None_set by (rule patched_absent) simp_all

lemma patch_exceptions_none: "find_exception i (patch_exceptions i p rows) = None \<Longrightarrow> patch_exceptions i p rows = rows"
  unfolding find_exception_def patch_exceptions_patched find_None_set by (rule patched_absent) simp_all

lemma update_rows_none:
  "find_schedule i (update_rows i (patch_schedule p) rows) = None \<Longrightarrow> update_rows i (patch_schedule p) rows = rows"
  unfolding find_schedule_def update_rows_patched find_None_set map_option_is_None
  by (rule patched_absent) (simp_all add: case_prod_unfold)

lemma renamed_none: "List.find (\<lambda>g. fst g = i) (renamed i n rows) = None \<Longrightarrow> renamed i n rows = rows"
  unfolding renamed_patched find_None_set by (rule patched_absent) simp_all

lemmas patch_none = patch_budgets_none patch_exceptions_none update_rows_none renamed_none

lemma updateUserGroup_no_row [no_row]: "updateUserGroup st i n = Inr (st', None) \<Longrightarrow> st' = st"
  by (auto simp: updateUserGroup_def Let_def patch_none split: if_splits)

lemma updateActivityGroup_no_row [no_row]: "updateActivityGroup st i n = Inr (st', None) \<Longrightarrow> st' = st"
  by (auto simp: updateActivityGroup_def Let_def patch_none split: if_splits)

lemma updateActivity_no_row [no_row]: "snd (updateActivity st i p) = None \<Longrightarrow> fst (updateActivity st i p) = st"
  by (simp add: updateActivity_def Let_def find_update_None patch_activity_def update_where_none)

lemma updateBudget_no_row [no_row]: "updateBudget st i p = Inr (st', None) \<Longrightarrow> st' = st"
  by (auto simp: updateBudget_def Let_def patch_none split: if_splits)

lemma updateGroupBudget_no_row [no_row]: "updateGroupBudget st i p = Inr (st', None) \<Longrightarrow> st' = st"
  by (auto simp: updateGroupBudget_def Let_def patch_none split: if_splits)

lemma updateException_no_row [no_row]: "updateException st i p = Inr (st', None) \<Longrightarrow> st' = st"
  by (auto simp: updateException_def Let_def patch_none split: if_splits)

lemma updateGroupException_no_row [no_row]: "updateGroupException st i p = Inr (st', None) \<Longrightarrow> st' = st"
  by (auto simp: updateGroupException_def Let_def patch_none split: if_splits)

lemma updateSchedule_no_row [no_row]: "updateSchedule st i p = Inr (st', None) \<Longrightarrow> st' = st"
  by (auto simp: updateSchedule_def Let_def patch_none split: if_splits)

lemma updateGroupSchedule_no_row [no_row]: "updateGroupSchedule st i p = Inr (st', None) \<Longrightarrow> st' = st"
  by (auto simp: updateGroupSchedule_def Let_def patch_none split: if_splits)

lemma filter_neq [simp]: "x \<notin> set xs \<Longrightarrow> filter (\<lambda>m. m \<noteq> x) xs = xs"
  by (auto simp: filter_id_conv)

lemma removeUserFromGroup_no_row [no_row]: "\<not> snd (removeUserFromGroup st g u) \<Longrightarrow> fst (removeUserFromGroup st g u) = st"
  by (simp add: removeUserFromGroup_def)

lemma removeActivityFromGroup_no_row [no_row]:
  "\<not> snd (removeActivityFromGroup st g u) \<Longrightarrow> fst (removeActivityFromGroup st g u) = st"
  by (simp add: removeActivityFromGroup_def)

lemma deleteNotification_no_row [no_row]:
  assumes "\<not> snd (deleteNotificationPolicy st u)"
  shows "fst (deleteNotificationPolicy st u) = st"
proof -
  have "filter (\<lambda>n. np_userId n \<noteq> u) (st_notifications st) = st_notifications st"
    using assms by (simp add: deleteNotificationPolicy_def getNotificationPolicy_def find_None_set filter_id_conv)
  then show ?thesis by (simp add: deleteNotificationPolicy_def)
qed

section \<open>A refused request changes nothing\<close>

lemma none_pair: "(\<forall>a b. y \<noteq> Some (a, b)) \<longleftrightarrow> y = None" "(\<forall>a b c. y' \<noteq> Some (a, b, c)) \<longleftrightarrow> y' = None"
  by (cases y; auto) (cases y'; auto)

lemma serve_refused:
  assumes ok: "api_ok (fst s)" and r: "serve e r s = (Inl x, s')"
  shows "s' = s"
proof -
  obtain d p where s: "s = (d, p)" by (cases s)
  have st: "store_ok (user_ids d) (client_ids d) (db_policy d)" and d: "api_ok d" using ok by (simp_all add: api_ok_def s)
  note absent = updateUser_no_row updateClient_no_row deleteLink_no_row deleteUser_no_row [OF d] deleteClient_no_row [OF d]
    updateUserGroup_no_row updateActivityGroup_no_row updateActivity_no_row updateBudget_no_row updateGroupBudget_no_row
    updateException_no_row updateGroupException_no_row updateSchedule_no_row updateGroupSchedule_no_row
    removeUserFromGroup_no_row removeActivityFromGroup_no_row deleteNotification_no_row
    deleteUserGroup_no_row [OF st] deleteActivity_no_row [OF st] deleteActivityGroup_no_row [OF st]
  show ?thesis
    using r unfolding s
    by (cases r) (auto simp: handler_defs handler_iff on_store_iff none_pair absent split: option.splits if_splits dest: absent)
qed

section \<open>An accepted request keeps the tables sound\<close>

lemma createBudget_ok:
  "store_ok us cs st \<Longrightarrow> u \<in> us \<Longrightarrow> createBudget st u b = Inr (st', row) \<Longrightarrow> store_ok us cs st'"
  by (auto simp: createBudget_def Let_def store_ok_def usage_ok_def split: if_splits intro!: table_ok_snoc)

lemma createGroupBudget_ok:
  "store_ok us cs st \<Longrightarrow> g \<in> group_ids st \<Longrightarrow> createGroupBudget st g b = Inr (st', row) \<Longrightarrow> store_ok us cs st'"
  by (auto simp: createGroupBudget_def Let_def store_ok_def usage_ok_def split: if_splits intro!: table_ok_snoc; force)

lemma createSchedule_ok:
  "store_ok us cs st \<Longrightarrow> u \<in> us \<Longrightarrow> createSchedule st u c = Inr (st', row) \<Longrightarrow> store_ok us cs st'"
  by (auto simp: createSchedule_def schedule_values_def Let_def store_ok_def usage_ok_def split: if_splits intro!: table_ok_snoc)

lemma createGroupSchedule_ok:
  "store_ok us cs st \<Longrightarrow> g \<in> group_ids st \<Longrightarrow> createGroupSchedule st g c = Inr (st', row) \<Longrightarrow> store_ok us cs st'"
  by (auto simp: createGroupSchedule_def schedule_values_def Let_def store_ok_def usage_ok_def split: if_splits intro!: table_ok_snoc; force)

lemma createException_ok:
  "store_ok us cs st \<Longrightarrow> u \<in> us \<Longrightarrow> createException st now u c = Inr (st', row) \<Longrightarrow> store_ok us cs st'"
  by (auto simp: createException_def exception_values_def Let_def store_ok_def usage_ok_def split: if_splits intro!: table_ok_snoc)

lemma createGroupException_ok:
  "store_ok us cs st \<Longrightarrow> g \<in> group_ids st \<Longrightarrow> createGroupException st now g c = Inr (st', row) \<Longrightarrow> store_ok us cs st'"
  by (auto simp: createGroupException_def exception_values_def Let_def store_ok_def usage_ok_def split: if_splits intro!: table_ok_snoc; force)

lemma updateBudget_ok: "store_ok us cs st \<Longrightarrow> updateBudget st i p = Inr (st', row) \<Longrightarrow> store_ok us cs st'"
  using budgets_ok_patch [of us "st_budgetSeq st" "st_budgets st" i p]
  by (auto simp: updateBudget_def Let_def store_ok_def usage_ok_def split: if_splits)

lemma updateGroupBudget_ok: "store_ok us cs st \<Longrightarrow> updateGroupBudget st i p = Inr (st', row) \<Longrightarrow> store_ok us cs st'"
  using budgets_ok_patch [of "group_ids st" "st_groupBudgetSeq st" "st_groupBudgets st" i p]
  by (auto simp: updateGroupBudget_def Let_def store_ok_def usage_ok_def split: if_splits)

lemma updateException_ok: "store_ok us cs st \<Longrightarrow> updateException st i p = Inr (st', row) \<Longrightarrow> store_ok us cs st'"
  using exceptions_ok_patch [of us "st_exceptionSeq st" "st_exceptions st" i p]
  by (auto simp: updateException_def Let_def store_ok_def usage_ok_def split: if_splits)

lemma updateGroupException_ok: "store_ok us cs st \<Longrightarrow> updateGroupException st i p = Inr (st', row) \<Longrightarrow> store_ok us cs st'"
  using exceptions_ok_patch [of "group_ids st" "st_groupExceptionSeq st" "st_groupExceptions st" i p]
  by (auto simp: updateGroupException_def Let_def store_ok_def usage_ok_def split: if_splits)

lemma updateGroupSchedule_ok: "store_ok us cs st \<Longrightarrow> updateGroupSchedule st i p = Inr (st', row) \<Longrightarrow> store_ok us cs st'"
  using rules_ok_patch [of "group_ids st" "st_groupScheduleSeq st" "st_groupSchedules st" i p]
  by (auto simp: updateGroupSchedule_def Let_def store_ok_def usage_ok_def split: if_splits)

lemma updateSchedule_ok:
  assumes "store_ok us cs st" "updateSchedule st i p = Inr (st', row)"
  shows "store_ok us cs st'"
proof -
  have "rules_ok us (st_scheduleSeq st) (update_rows i (patch_schedule p) (st_schedules st))"
    using assms(2) find_in_set
    by (intro rules_ok_patch [OF store_ok_schedules [OF assms(1)]])
      (fastforce simp: updateSchedule_def Let_def list_all_iff find_schedule_def split: if_splits option.splits)
  then show ?thesis
    using assms by (auto simp: updateSchedule_def Let_def store_ok_def usage_ok_def split: if_splits)
qed

lemma deleteBudget_ok: "store_ok us cs st \<Longrightarrow> store_ok us cs (fst (deleteBudget st i))"
  by (auto simp: deleteBudget_def store_ok_def usage_ok_def intro!: table_ok_filter)

lemma deleteGroupBudget_ok: "store_ok us cs st \<Longrightarrow> store_ok us cs (fst (deleteGroupBudget st i))"
  by (auto simp: deleteGroupBudget_def store_ok_def usage_ok_def intro!: table_ok_filter)

lemma deleteException_ok: "store_ok us cs st \<Longrightarrow> store_ok us cs (fst (deleteException st i))"
  by (auto simp: deleteException_def store_ok_def usage_ok_def intro!: table_ok_filter)

lemma deleteGroupException_ok: "store_ok us cs st \<Longrightarrow> store_ok us cs (fst (deleteGroupException st i))"
  by (auto simp: deleteGroupException_def store_ok_def usage_ok_def intro!: table_ok_filter)

lemma deleteSchedule_ok: "store_ok us cs st \<Longrightarrow> store_ok us cs (fst (deleteSchedule st i))"
  by (auto simp: deleteSchedule_def store_ok_def usage_ok_def intro!: table_ok_filter)

lemma deleteGroupSchedule_ok: "store_ok us cs st \<Longrightarrow> store_ok us cs (fst (deleteGroupSchedule st i))"
  by (auto simp: deleteGroupSchedule_def store_ok_def usage_ok_def intro!: table_ok_filter)

lemma reorderUserSchedules_ok: "store_ok us cs st \<Longrightarrow> reorderUserSchedules st u ids = Inr (st', rows) \<Longrightarrow> store_ok us cs st'"
  by (auto simp: reorderUserSchedules_def Let_def store_ok_def usage_ok_def rules_ok_ordinals split: sum.splits)

lemma reorderGroupSchedules_ok: "store_ok us cs st \<Longrightarrow> reorderGroupSchedules st g ids = Inr (st', rows) \<Longrightarrow> store_ok us cs st'"
  by (auto simp: reorderGroupSchedules_def Let_def store_ok_def usage_ok_def rules_ok_ordinals split: sum.splits)

lemma members_ok_mono: "members_ok as bs rows \<Longrightarrow> as \<subseteq> as' \<Longrightarrow> bs \<subseteq> bs' \<Longrightarrow> members_ok as' bs' rows"
  by (auto simp: members_ok_def)

lemma createUserGroup_ok:
  assumes "store_ok us cs st" "createUserGroup st n = Inr (st', row)"
  shows "store_ok us cs st'"
proof -
  have st': "st' = st\<lparr>st_groups := st_groups st @ [(st_groupSeq st + 1, n)], st_groupSeq := st_groupSeq st + 1\<rparr>"
    and n: "n \<notin> snd ` set (st_groups st)"
    using assms(2) by (auto simp: createUserGroup_def Let_def split: if_splits)
  have sub: "group_ids st \<subseteq> group_ids st'" by (auto simp: st')
  note rest = members_ok_mono [OF store_ok_memberships [OF assms(1)] subset_refl sub]
    table_ok_mono [OF store_ok_groupBudgets [OF assms(1)] sub]
    table_ok_mono [OF store_ok_groupSchedules [OF assms(1)] sub]
    table_ok_mono [OF store_ok_groupExceptions [OF assms(1)] sub]
    names_ok_snoc [OF store_ok_groups [OF assms(1)] n]
  show ?thesis
    using rest assms(1) unfolding store_ok_def by (simp add: st' usage_ok_def)
qed

lemma updateUserGroup_ok:
  assumes "store_ok us cs st" "updateUserGroup st i n = Inr (st', row)"
  shows "store_ok us cs st'"
  using assms names_ok_renamed [OF store_ok_groups [OF assms(1)], of i n]
  by (auto simp: updateUserGroup_def Let_def store_ok_def usage_ok_def split: if_splits)

lemma members_ok_remove:
  "members_ok as bs rows \<Longrightarrow> members_ok (as - {i}) bs (filter (\<lambda>m. fst m \<noteq> i) rows)"
  "members_ok as bs rows \<Longrightarrow> members_ok as (bs - {i}) (filter (\<lambda>m. snd m \<noteq> i) rows)"
  by (auto simp: members_ok_def)

lemma names_ok_filter: "names_ok seq rows \<Longrightarrow> names_ok seq (filter Q rows)"
  by (auto simp: names_ok_def intro: table_ok_filter)

lemma fst_filter_neq: "fst ` set (filter (\<lambda>g. fst g \<noteq> i) rows) = fst ` set rows - {i}"
  by auto

lemma table_ok_remove:
  "table_ok key own P owners seq rows \<Longrightarrow> (\<And>r. Q r \<Longrightarrow> own r \<noteq> i) \<Longrightarrow> table_ok key own P (owners - {i}) seq (filter Q rows)"
  by (auto intro: table_ok_filter)

lemma deleteUserGroup_ok: "store_ok us cs st \<Longrightarrow> store_ok us cs (fst (deleteUserGroup st i))"
  unfolding deleteUserGroup_def store_ok_def
  by (simp only: fst_conv store.simps store.select_convs store.update_convs)
    (simp add: fst_filter_neq names_ok_filter members_ok_remove usage_ok_def table_ok_remove case_prod_unfold
      del: set_filter)

lemma addUserToGroup_ok:
  "store_ok us cs st \<Longrightarrow> u \<in> us \<Longrightarrow> g \<in> group_ids st \<Longrightarrow> store_ok us cs (addUserToGroup st g u)"
  using members_ok_add [of us "group_ids st" "st_memberships st" u g]
  by (simp add: addUserToGroup_def store_ok_def usage_ok_def split del: if_split)

lemma removeUserFromGroup_ok: "store_ok us cs st \<Longrightarrow> store_ok us cs (fst (removeUserFromGroup st g u))"
  by (auto simp: removeUserFromGroup_def store_ok_def usage_ok_def intro: members_ok_filter)

lemma addActivityToGroup_ok:
  "store_ok us cs st \<Longrightarrow> a \<in> act_id ` set (st_activities st) \<Longrightarrow> g \<in> fst ` set (st_activityGroups st)
    \<Longrightarrow> store_ok us cs (addActivityToGroup st g a)"
  using members_ok_add [of "act_id ` set (st_activities st)" "fst ` set (st_activityGroups st)" "st_activityMembers st" a g]
  by (simp add: addActivityToGroup_def store_ok_def usage_ok_def split del: if_split)

lemma removeActivityFromGroup_ok: "store_ok us cs st \<Longrightarrow> store_ok us cs (fst (removeActivityFromGroup st g a))"
  by (auto simp: removeActivityFromGroup_def store_ok_def usage_ok_def intro: members_ok_filter)

lemma createActivity_ok:
  assumes "store_ok us cs st"
  shows "store_ok us cs (fst (createActivity st c))"
proof -
  define row where "row = snd (createActivity st c)"
  have st': "fst (createActivity st c) = st\<lparr>st_activities := st_activities st @ [row], st_activitySeq := st_activitySeq st + 1\<rparr>"
    and i: "act_id row = st_activitySeq st + 1"
    by (simp_all add: row_def createActivity_def Let_def)
  have "table_ok act_id act_id (\<lambda>_. True) UNIV (st_activitySeq st + 1) (st_activities st @ [row])"
    using store_ok_activities [OF assms] i by (auto intro: table_ok_snoc)
  moreover have "members_ok (act_id ` set (st_activities st @ [row])) (fst ` set (st_activityGroups st)) (st_activityMembers st)"
    using store_ok_activityMembers [OF assms] by (rule members_ok_mono) auto
  moreover have "usage_ok us cs (fst (createActivity st c))"
    using store_ok_usage [OF assms] by (auto simp: usage_ok_def st')
  ultimately show ?thesis using assms unfolding store_ok_def by (simp add: st')
qed

lemma updateActivity_ok:
  assumes "store_ok us cs st"
  shows "store_ok us cs (fst (updateActivity st i p))"
proof -
  have ids: "map act_id (update_where (\<lambda>a. act_id a = i) (patch_activity p) (st_activities st)) = map act_id (st_activities st)"
    by (simp add: patch_activity_def)
  then have "act_id ` set (update_where (\<lambda>a. act_id a = i) (patch_activity p) (st_activities st)) = act_id ` set (st_activities st)"
    by (metis set_map)
  then show ?thesis
    using assms ids
    by (auto simp: updateActivity_def Let_def store_ok_def usage_ok_def table_ok_def set_update_where patch_activity_def)
qed

lemma deleteActivity_ok:
  assumes "store_ok us cs st"
  shows "store_ok us cs (fst (deleteActivity st i))"
proof -
  have ids: "act_id ` set (filter (\<lambda>a. act_id a \<noteq> i) (st_activities st)) = act_id ` set (st_activities st) - {i}" by auto
  have "table_ok act_id act_id (\<lambda>_. True) UNIV (st_activitySeq st) (filter (\<lambda>a. act_id a \<noteq> i) (st_activities st))"
    using store_ok_activities [OF assms] by (rule table_ok_filter) simp
  moreover note members_ok_remove(1) [OF store_ok_activityMembers [OF assms], of i]
  moreover have "usage_ok us cs (fst (deleteActivity st i))"
    using store_ok_usage [OF assms] by (auto simp: usage_ok_def deleteActivity_def)
  ultimately show ?thesis using assms unfolding store_ok_def deleteActivity_def by (simp add: ids del: set_filter)
qed

lemma createActivityGroup_ok:
  assumes "store_ok us cs st" "createActivityGroup st n = Inr (st', row)"
  shows "store_ok us cs st'"
proof -
  have st': "st' = st\<lparr>st_activityGroups := st_activityGroups st @ [(st_activityGroupSeq st + 1, n)],
        st_activityGroupSeq := st_activityGroupSeq st + 1\<rparr>"
    and n: "n \<notin> snd ` set (st_activityGroups st)"
    using assms(2) by (auto simp: createActivityGroup_def Let_def split: if_splits)
  have "members_ok (act_id ` set (st_activities st)) (fst ` set (st_activityGroups st')) (st_activityMembers st)"
    using store_ok_activityMembers [OF assms(1)] by (rule members_ok_mono) (auto simp: st')
  with names_ok_snoc [OF store_ok_activityGroups [OF assms(1)] n] show ?thesis
    using assms(1) unfolding store_ok_def by (simp add: st' usage_ok_def)
qed

lemma updateActivityGroup_ok:
  assumes "store_ok us cs st" "updateActivityGroup st i n = Inr (st', row)"
  shows "store_ok us cs st'"
  using assms names_ok_renamed [OF store_ok_activityGroups [OF assms(1)], of i n]
  by (auto simp: updateActivityGroup_def Let_def store_ok_def usage_ok_def split: if_splits)

lemma deleteActivityGroup_ok: "store_ok us cs st \<Longrightarrow> store_ok us cs (fst (deleteActivityGroup st i))"
  unfolding deleteActivityGroup_def store_ok_def
  by (simp only: fst_conv store.simps store.select_convs store.update_convs)
    (simp add: fst_filter_neq names_ok_filter members_ok_remove usage_ok_def del: set_filter)

lemma upsertNotification_ok:
  assumes "store_ok us cs st" "u \<in> us" "upsertNotificationPolicy st u p = Inr (st', row)"
  shows "store_ok us cs st'"
proof -
  define rows where "rows = (if getNotificationPolicy st u = None
      then st_notifications st @ [patch_notification p (default_notification u)]
      else update_where (\<lambda>n. np_userId n = u) (patch_notification p) (st_notifications st))"
  have st': "st' = st\<lparr>st_notifications := rows\<rparr>"
    and c: "case List.find (\<lambda>n. np_userId n = u) rows of None \<Rightarrow> True | Some n \<Rightarrow> notification_checks n"
    using assms(3) by (auto simp: upsertNotificationPolicy_def Let_def rows_def split: if_splits option.splits)
  have "notifications_ok us rows"
    by (rule notifications_ok_upsert [OF store_ok_notifications [OF assms(1)] assms(2)
        rows_def [unfolded getNotificationPolicy_def] _ c])
      (simp add: patch_notification_def default_notification_def)
  then show ?thesis using assms(1) unfolding store_ok_def by (simp add: st' usage_ok_def)
qed

lemma deleteNotification_ok: "store_ok us cs st \<Longrightarrow> store_ok us cs (fst (deleteNotificationPolicy st u))"
  by (auto simp: deleteNotificationPolicy_def store_ok_def usage_ok_def notifications_ok_def)

lemma forget_user_ok: "store_ok us cs st \<Longrightarrow> store_ok (us - {i}) cs (forget_user i st)"
  unfolding forget_user_def store_ok_def
  by (simp add: members_ok_remove usage_ok_def table_ok_remove) (simp add: notifications_ok_def)

lemma forget_client_ok: "store_ok us cs st \<Longrightarrow> store_ok us (cs - {i}) (forget_client i st)"
  by (auto simp: forget_client_def store_ok_def usage_ok_def)

lemma client_ids_update: "updateClient d i p = Inr (d', row) \<Longrightarrow> client_ids d' = client_ids d \<and> user_ids d' = user_ids d \<and> db_policy d' = db_policy d"
  using image_update_where [of "\<lambda>c. client_id c = i" client_id "patch_client p" "db_clients d"]
  by (auto simp: updateClient_def Let_def patch_client_def split: if_splits)

lemma user_ids_update: "user_ids (fst (updateUser d i p)) = user_ids d"
  using image_update_where [of "\<lambda>c. user_id c = i" user_id "patch_user p" "db_users d"]
  by (simp add: updateUser_def Let_def patch_user_def)

lemma with_policy_ok: "api_ok d \<Longrightarrow> store_ok (user_ids d) (client_ids d) st \<Longrightarrow> api_ok (d\<lparr>db_policy := st\<rparr>)"
  by (simp add: api_ok_def db_ok_def users_ok_def clients_ok_def links_ok_def queue_ok_def)

lemma api_user_ok:
  assumes "api_ok d"
  shows "api_ok (fst (createUser d c))" "api_ok (fst (updateUser d i p))" "api_ok (fst (deleteUser d i))"
proof -
  have ok: "db_ok d" "store_ok (user_ids d) (client_ids d) (db_policy d)" using assms by (simp_all add: api_ok_def)
  show "api_ok (fst (createUser d c))"
    using createUser_ok [OF ok(1), of c] store_ok_mono [OF ok(2) subset_insertI subset_refl]
    by (simp add: api_ok_def createUser_def Let_def)
  show "api_ok (fst (updateUser d i p))"
    using updateUser_ok [OF ok(1), of i p] ok(2) user_ids_update [of d i p]
    by (simp add: api_ok_def updateUser_def Let_def)
  have "user_ids (fst (deleteUser d i)) = user_ids d - {i}" by (auto simp: deleteUser_def)
  then show "api_ok (fst (deleteUser d i))"
    using deleteUser_ok [OF ok(1), of i] forget_user_ok [OF ok(2), of i] by (simp add: api_ok_def deleteUser_def)
qed

lemma api_client_ok:
  assumes "api_ok d"
  shows "createClient d c = Inr (d', row) \<Longrightarrow> api_ok d'" "updateClient d i p = Inr (d', row') \<Longrightarrow> api_ok d'"
    "api_ok (fst (deleteClient d i))"
proof -
  have ok: "db_ok d" "store_ok (user_ids d) (client_ids d) (db_policy d)" using assms by (simp_all add: api_ok_def)
  show "api_ok d'" if "createClient d c = Inr (d', row)"
    using createClient_ok [OF ok(1), of c] store_ok_mono [OF ok(2) subset_refl subset_insertI] that
    by (auto simp: api_ok_def createClient_def Let_def split: if_splits)
  show "api_ok d'" if "updateClient d i p = Inr (d', row')"
    using updateClient_ok [OF ok(1), of i p] ok(2) client_ids_update [OF that] that by (simp add: api_ok_def)
  have "client_ids (fst (deleteClient d i)) = client_ids d - {i}" by (auto simp: deleteClient_def)
  then show "api_ok (fst (deleteClient d i))"
    using deleteClient_ok [OF ok(1), of i] forget_client_ok [OF ok(2), of i] by (simp add: api_ok_def deleteClient_def)
qed

lemma api_link_ok:
  assumes "api_ok d"
  shows "upsertLink d u c n r = Inr (d', row) \<Longrightarrow> api_ok d'" "api_ok (fst (deleteLink d u c))"
proof -
  have ok: "db_ok d" "store_ok (user_ids d) (client_ids d) (db_policy d)" using assms by (simp_all add: api_ok_def)
  show "api_ok d'" if "upsertLink d u c n r = Inr (d', row)"
    using upsertLink_ok [OF ok(1), of u c n r] ok(2) that by (auto simp: api_ok_def upsertLink_def Let_def split: if_splits)
  show "api_ok (fst (deleteLink d u c))"
    using deleteLink_ok [OF ok(1), of u c] ok(2) by (simp add: api_ok_def deleteLink_def)
qed

lemmas store_write_ok = createBudget_ok createGroupBudget_ok createSchedule_ok createGroupSchedule_ok createException_ok
  createGroupException_ok updateBudget_ok updateGroupBudget_ok updateException_ok updateGroupException_ok
  updateGroupSchedule_ok updateSchedule_ok deleteBudget_ok deleteGroupBudget_ok deleteException_ok deleteGroupException_ok
  deleteSchedule_ok deleteGroupSchedule_ok reorderUserSchedules_ok reorderGroupSchedules_ok createUserGroup_ok
  updateUserGroup_ok deleteUserGroup_ok addUserToGroup_ok removeUserFromGroup_ok addActivityToGroup_ok
  removeActivityFromGroup_ok createActivity_ok updateActivity_ok deleteActivity_ok createActivityGroup_ok
  updateActivityGroup_ok deleteActivityGroup_ok upsertNotification_ok deleteNotification_ok

lemma getUser_Some_id: "getUser d u = Some row \<Longrightarrow> u \<in> user_ids d"
  using getUser_None [of d u] by simp

lemma getUserGroup_Some_id: "getUserGroup st g = Some row \<Longrightarrow> g \<in> group_ids st"
  using getUserGroup_None [of st g] by simp

lemma getActivity_Some_id: "getActivity st a = Some row \<Longrightarrow> a \<in> act_id ` set (st_activities st)"
  using getActivity_None [of st a] by simp

lemma getActivityGroup_Some_id: "getActivityGroup st g = Some row \<Longrightarrow> g \<in> fst ` set (st_activityGroups st)"
  using getActivityGroup_None [of st g] by simp

lemma serve_accepted_ok:
  assumes ok: "api_ok (fst s)" and r: "serve e r s = (Inr x, s')"
  shows "api_ok (fst s')"
proof -
  obtain d p where s: "s = (d, p)" by (cases s)
  have st: "store_ok (user_ids d) (client_ids d) (db_policy d)" and d: "api_ok d" using ok by (simp_all add: api_ok_def s)
  note writes = api_user_ok [OF d] api_client_ok [OF d] api_link_ok [OF d] with_policy_ok [OF d]
  show ?thesis
    using r unfolding s
    by (cases r)
      (auto simp: handler_defs handler_iff on_store_iff split: option.splits if_splits;
        blast intro: writes store_write_ok [OF st] getUser_Some_id getUserGroup_Some_id getActivity_Some_id getActivityGroup_Some_id)+
qed

lemma serve_ok: "api_ok (fst s) \<Longrightarrow> api_ok (fst (snd (serve e r s)))"
  using serve_refused serve_accepted_ok by (metis prod.collapse sum.exhaust_sel)

lemma served_ok: "api_ok (fst (served rs))"
proof (induction rs rule: rev_induct)
  case Nil
  then show ?case
    by (simp add: served_def empty_db_def api_ok_def empty_store_ok db_ok_def users_ok_def clients_ok_def links_ok_def queue_ok_def)
next
  case (snoc r rs)
  then show ?case by (cases r) (simp add: served_def serve_ok)
qed

section \<open>A key is never handed out twice\<close>

text \<open>
  A later state of a table against an earlier one: the sequence has not gone back, and a row whose key was
  already handed out is a row that was there. A key of a deleted row therefore never comes back.
\<close>

definition no_reuse :: "int set \<Rightarrow> int \<Rightarrow> int set \<Rightarrow> int \<Rightarrow> bool" where
  "no_reuse ids seq ids' seq' \<longleftrightarrow> seq \<le> seq' \<and> (\<forall>i \<in> ids'. i \<le> seq \<longrightarrow> i \<in> ids)"

definition store_no_reuse :: "store \<Rightarrow> store \<Rightarrow> bool" where
  "store_no_reuse st st' \<longleftrightarrow>
     no_reuse (group_ids st) (st_groupSeq st) (group_ids st') (st_groupSeq st')
     \<and> no_reuse (act_id ` set (st_activities st)) (st_activitySeq st) (act_id ` set (st_activities st')) (st_activitySeq st')
     \<and> no_reuse (fst ` set (st_activityGroups st)) (st_activityGroupSeq st)
         (fst ` set (st_activityGroups st')) (st_activityGroupSeq st')
     \<and> no_reuse (fst ` set (st_budgets st)) (st_budgetSeq st) (fst ` set (st_budgets st')) (st_budgetSeq st')
     \<and> no_reuse (fst ` set (st_groupBudgets st)) (st_groupBudgetSeq st)
         (fst ` set (st_groupBudgets st')) (st_groupBudgetSeq st')
     \<and> no_reuse ((\<lambda>r. sr_id (snd r)) ` set (st_schedules st)) (st_scheduleSeq st)
         ((\<lambda>r. sr_id (snd r)) ` set (st_schedules st')) (st_scheduleSeq st')
     \<and> no_reuse ((\<lambda>r. sr_id (snd r)) ` set (st_groupSchedules st)) (st_groupScheduleSeq st)
         ((\<lambda>r. sr_id (snd r)) ` set (st_groupSchedules st')) (st_groupScheduleSeq st')
     \<and> no_reuse ((\<lambda>x. xi_id (snd x)) ` set (st_exceptions st)) (st_exceptionSeq st)
         ((\<lambda>x. xi_id (snd x)) ` set (st_exceptions st')) (st_exceptionSeq st')
     \<and> no_reuse ((\<lambda>x. xi_id (snd x)) ` set (st_groupExceptions st)) (st_groupExceptionSeq st)
         ((\<lambda>x. xi_id (snd x)) ` set (st_groupExceptions st')) (st_groupExceptionSeq st')"

definition keys_never_reused :: "db \<Rightarrow> db \<Rightarrow> bool" where
  "keys_never_reused d d' \<longleftrightarrow>
     no_reuse (user_ids d) (db_userSeq d) (user_ids d') (db_userSeq d')
     \<and> no_reuse (client_ids d) (db_clientSeq d) (client_ids d') (db_clientSeq d')
     \<and> store_no_reuse (db_policy d) (db_policy d')"

lemma no_reuse_refl [simp]: "no_reuse ids seq ids seq"
  by (simp add: no_reuse_def)

lemma no_reuse_snoc [simp]: "no_reuse ids seq (insert (seq + 1) ids) (seq + 1)"
  by (auto simp: no_reuse_def)

lemma no_reuse_subset: "ids' \<subseteq> ids \<Longrightarrow> no_reuse ids seq ids' seq"
  by (auto simp: no_reuse_def)

lemma no_reuse_filter [simp]: "no_reuse (key ` set rows) seq (key ` set (filter Q rows)) seq"
  by (rule no_reuse_subset) auto

lemma no_reuse_filter' [simp]: "no_reuse (key ` set rows) seq (key ` {r \<in> set rows. Q r}) seq"
  by (rule no_reuse_subset) auto

lemma no_reuse_trans: "no_reuse ids seq ids' seq' \<Longrightarrow> no_reuse ids' seq' ids'' seq'' \<Longrightarrow> no_reuse ids seq ids'' seq''"
  by (force simp: no_reuse_def)

lemma keys_never_reused_refl: "keys_never_reused d d"
  by (simp add: keys_never_reused_def store_no_reuse_def)

lemma keys_never_reused_trans: "keys_never_reused d d' \<Longrightarrow> keys_never_reused d' d'' \<Longrightarrow> keys_never_reused d d''"
  unfolding keys_never_reused_def store_no_reuse_def by (auto elim: no_reuse_trans)

lemma patched_key_set:
  assumes "\<And>r. key (f r) = key r"
  shows "key ` set (patched key i f rows) = key ` set rows"
proof -
  have "map key (patched key i f rows) = map key rows" by (simp add: patched_def assms)
  then show ?thesis by (metis set_map)
qed

lemma patch_key_sets [simp]:
  "fst ` set (patch_budgets i p bs) = fst ` set bs"
  "(\<lambda>x. xi_id (snd x)) ` set (patch_exceptions i q xs) = (\<lambda>x. xi_id (snd x)) ` set xs"
  "(\<lambda>r. sr_id (snd r)) ` set (update_rows i (patch_schedule u) rs) = (\<lambda>r. sr_id (snd r)) ` set rs"
  using patched_key_set [of fst "\<lambda>r. (fst r, fst (snd r), patch_budget p (snd (snd r)))" i bs]
    patched_key_set [of "xi_id \<circ> snd" "\<lambda>r. (fst r, patch_exception q (snd r))" i xs]
    patched_key_set [of "sr_id \<circ> snd" "\<lambda>r. (fst r, patch_schedule u (snd r))" i rs]
  by (simp_all add: patch_budgets_patched patch_exceptions_patched update_rows_patched comp_def)

lemma write_ordinals_key_set [simp]: "(\<lambda>r. sr_id (snd r)) ` set (write_ordinals rs rows) = (\<lambda>r. sr_id (snd r)) ` set rows"
  unfolding write_ordinals_map by (force split: option.splits)

named_theorems reuse "writes that hand out no key twice"

lemma createBudget_reuse [reuse]: "createBudget st u b = Inr (st', row) \<Longrightarrow> store_no_reuse st st'"
  by (auto simp: createBudget_def Let_def store_no_reuse_def split: if_splits)

lemma createGroupBudget_reuse [reuse]: "createGroupBudget st u b = Inr (st', row) \<Longrightarrow> store_no_reuse st st'"
  by (auto simp: createGroupBudget_def Let_def store_no_reuse_def split: if_splits)

lemma createSchedule_reuse [reuse]: "createSchedule st u c = Inr (st', row) \<Longrightarrow> store_no_reuse st st'"
  by (auto simp: createSchedule_def schedule_values_def Let_def store_no_reuse_def split: if_splits)

lemma createGroupSchedule_reuse [reuse]: "createGroupSchedule st u c = Inr (st', row) \<Longrightarrow> store_no_reuse st st'"
  by (auto simp: createGroupSchedule_def schedule_values_def Let_def store_no_reuse_def split: if_splits)

lemma createException_reuse [reuse]: "createException st now u c = Inr (st', row) \<Longrightarrow> store_no_reuse st st'"
  by (auto simp: createException_def exception_values_def Let_def store_no_reuse_def split: if_splits)

lemma createGroupException_reuse [reuse]: "createGroupException st now u c = Inr (st', row) \<Longrightarrow> store_no_reuse st st'"
  by (auto simp: createGroupException_def exception_values_def Let_def store_no_reuse_def split: if_splits)

lemma update_reuse [reuse]:
  "updateBudget st i bp = Inr (st', b) \<Longrightarrow> store_no_reuse st st'"
  "updateGroupBudget st i bp = Inr (st', b) \<Longrightarrow> store_no_reuse st st'"
  "updateException st i xp = Inr (st', x) \<Longrightarrow> store_no_reuse st st'"
  "updateGroupException st i xp = Inr (st', x) \<Longrightarrow> store_no_reuse st st'"
  "updateSchedule st i sp = Inr (st', r) \<Longrightarrow> store_no_reuse st st'"
  "updateGroupSchedule st i sp = Inr (st', r) \<Longrightarrow> store_no_reuse st st'"
  by (auto simp: updateBudget_def updateGroupBudget_def updateException_def updateGroupException_def updateSchedule_def
      updateGroupSchedule_def Let_def store_no_reuse_def split: if_splits)

lemma delete_reuse [reuse]:
  "store_no_reuse st (fst (deleteBudget st i))" "store_no_reuse st (fst (deleteGroupBudget st i))"
  "store_no_reuse st (fst (deleteException st i))" "store_no_reuse st (fst (deleteGroupException st i))"
  "store_no_reuse st (fst (deleteSchedule st i))" "store_no_reuse st (fst (deleteGroupSchedule st i))"
  "store_no_reuse st (fst (deleteUserGroup st i))" "store_no_reuse st (fst (deleteActivity st i))"
  "store_no_reuse st (fst (deleteActivityGroup st i))" "store_no_reuse st (fst (deleteNotificationPolicy st i))"
  by (simp_all add: deleteBudget_def deleteGroupBudget_def deleteException_def deleteGroupException_def deleteSchedule_def
      deleteGroupSchedule_def deleteUserGroup_def deleteActivity_def deleteActivityGroup_def deleteNotificationPolicy_def
      store_no_reuse_def)

lemma group_reuse [reuse]:
  "createUserGroup st n = Inr (st', g) \<Longrightarrow> store_no_reuse st st'"
  "updateUserGroup st i p = Inr (st', g') \<Longrightarrow> store_no_reuse st st'"
  "createActivityGroup st n = Inr (st', g) \<Longrightarrow> store_no_reuse st st'"
  "updateActivityGroup st i p = Inr (st', g') \<Longrightarrow> store_no_reuse st st'"
  by (auto simp: createUserGroup_def updateUserGroup_def createActivityGroup_def updateActivityGroup_def Let_def
      store_no_reuse_def split: if_splits)

lemma member_reuse [reuse]:
  "store_no_reuse st (addUserToGroup st g u)" "store_no_reuse st (fst (removeUserFromGroup st g u))"
  "store_no_reuse st (addActivityToGroup st g a)" "store_no_reuse st (fst (removeActivityFromGroup st g a))"
  by (simp_all add: addUserToGroup_def removeUserFromGroup_def addActivityToGroup_def removeActivityFromGroup_def
      store_no_reuse_def)

lemma createActivity_reuse [reuse]: "store_no_reuse st (fst (createActivity st c))"
  by (simp add: createActivity_def Let_def store_no_reuse_def)

lemma updateActivity_reuse [reuse]: "store_no_reuse st (fst (updateActivity st i p))"
  using image_update_where [of "\<lambda>a. act_id a = i" act_id "patch_activity p" "st_activities st"]
  by (simp add: updateActivity_def Let_def patch_activity_def store_no_reuse_def)

lemma upsertNotification_reuse [reuse]: "upsertNotificationPolicy st u p = Inr (st', row) \<Longrightarrow> store_no_reuse st st'"
  by (auto simp: upsertNotificationPolicy_def Let_def store_no_reuse_def split: if_splits option.splits)

lemma reorder_reuse [reuse]:
  "reorderUserSchedules st u ids = Inr (st', rows) \<Longrightarrow> store_no_reuse st st'"
  "reorderGroupSchedules st g ids = Inr (st', rows) \<Longrightarrow> store_no_reuse st st'"
  by (auto simp: reorderUserSchedules_def reorderGroupSchedules_def Let_def store_no_reuse_def split: sum.splits)

lemma with_policy_reuse: "store_no_reuse (db_policy d) st \<Longrightarrow> keys_never_reused d (d\<lparr>db_policy := st\<rparr>)"
  by (simp add: keys_never_reused_def)

lemma user_reuse:
  "keys_never_reused d (fst (createUser d c))" "keys_never_reused d (fst (updateUser d i p))"
  "keys_never_reused d (fst (deleteUser d i))"
  using user_ids_update [of d i p]
  by (simp_all add: keys_never_reused_def createUser_def updateUser_def deleteUser_def forget_user_def Let_def store_no_reuse_def)

lemma client_reuse:
  "createClient d c = Inr (d', row) \<Longrightarrow> keys_never_reused d d'" "updateClient d i p = Inr (d', row') \<Longrightarrow> keys_never_reused d d'"
  "keys_never_reused d (fst (deleteClient d i))"
  using client_ids_update [of d i p d' row']
  by (auto simp: keys_never_reused_def createClient_def updateClient_def deleteClient_def forget_client_def Let_def
      store_no_reuse_def split: if_splits)

lemma link_reuse:
  "upsertLink d u c n r = Inr (d', row) \<Longrightarrow> keys_never_reused d d'" "keys_never_reused d (fst (deleteLink d u c))"
  by (auto simp: keys_never_reused_def upsertLink_def deleteLink_def Let_def store_no_reuse_def split: if_splits)

lemma serve_accepted_reuse:
  assumes "serve e r s = (Inr x, s')"
  shows "keys_never_reused (fst s) (fst s')"
  using assms
  by (cases s; cases r)
    (auto simp: handler_defs handler_iff on_store_iff split: option.splits if_splits;
      blast intro: user_reuse client_reuse link_reuse with_policy_reuse reuse)+

lemma served_append: "served (rs @ rs') = foldl (\<lambda>s (e, r). snd (serve e r s)) (served rs) rs'"
  by (simp add: served_def)

lemma served_reuse: "keys_never_reused (fst (served rs)) (fst (served (rs @ rs')))"
proof (induction rs' rule: rev_induct)
  case (snoc q rs')
  obtain e r where q: "q = (e, r)" by (cases q)
  have step: "keys_never_reused (fst (served (rs @ rs'))) (fst (snd (serve e r (served (rs @ rs')))))"
    using serve_refused [OF served_ok, of e r "rs @ rs'"] serve_accepted_reuse [of e r "served (rs @ rs')"]
    by (cases "serve e r (served (rs @ rs'))"; cases "fst (serve e r (served (rs @ rs')))")
      (auto simp: keys_never_reused_refl)
  show ?case using keys_never_reused_trans [OF snoc step] by (simp add: served_append q)
qed (simp add: keys_never_reused_refl)

section \<open>Properties\<close>

text \<open>
  C20: A request that is answered with an error changes nothing, whatever was served before: neither a table nor the
  commands handed to the push.
\<close>

theorem refused_request_changes_nothing:
  "case serve e r (served rs) of (Inl _, s') \<Rightarrow> s' = served rs | (Inr _, _) \<Rightarrow> True"
  using serve_refused [OF served_ok] by (auto split: prod.splits sum.splits)

text \<open>
  C19: After any sequence of policy requests the database is sound: keys are unique, names of groups are
  unique, every membership, budget, rule, exception and notification setting belongs to a user, a group or an
  activity that exists, and every stored row passes the storage checks. Whatever is served afterwards, no key
  is used again: no sequence goes back, and a row of the later database whose key had been handed out by then
  was a row of the earlier one.
\<close>

theorem served_database_sound:
  "api_ok (fst (served rs)) \<and> keys_never_reused (fst (served rs)) (fst (served (rs @ rs')))"
  using served_ok served_reuse by blast

end
