(* ===== verification/Enrolment.thy ===== *)
theory Enrolment
  imports Auth_Session Policy_Invariant
begin

text \<open>
  Client enrolment: the one-time tokens and the transaction that redeems one (\<open>policy/enrolment.ts\<close>), the checks
  before it (\<open>api/clients/service.ts\<close>) and the two routes with their limiter (\<open>api/clients/routes.ts\<close>).
  The random secrets are arguments, the hash of a secret is a parameter. The component versions a client reports are
  read but not stored, the observed source address and the SSH public key handed out are left out. Bodies hold trimmed
  strings. The last part interleaves these routes with the policy requests of \<open>Policy_Api\<close>.
\<close>

section \<open>Tokens\<close>

type_synonym bound_user = "int \<times> string"

record enrolment_token =
  et_id :: int
  et_tokenHash :: string
  et_hostname :: "string option"
  et_friendlyName :: "string option"
  et_supervisedUsers :: "bound_user list"
  et_expiresAt :: instant
  et_consumedAt :: "instant option"
  et_consumedClientId :: "int option"

record enrol_db =
  ed_db :: db
  ed_tokens :: "enrolment_token list"
  ed_tokenSeq :: int

definition findEnrolmentTokenByHash :: "enrol_db \<Rightarrow> string \<Rightarrow> enrolment_token option" where
  "findEnrolmentTokenByHash s h = List.find (\<lambda>t. et_tokenHash t = h) (ed_tokens s)"

record token_create =
  tc_tokenHash :: string
  tc_hostname :: "string option"
  tc_friendlyName :: "string option"
  tc_supervisedUsers :: "bound_user list"
  tc_expiresAt :: instant

definition createEnrolmentToken :: "enrol_db \<Rightarrow> token_create \<Rightarrow> violation + enrol_db \<times> enrolment_token" where
  "createEnrolmentToken s c =
     (let row = \<lparr>et_id = ed_tokenSeq s + 1, et_tokenHash = tc_tokenHash c, et_hostname = tc_hostname c,
                 et_friendlyName = tc_friendlyName c, et_supervisedUsers = tc_supervisedUsers c,
                 et_expiresAt = stored_timestamp (tc_expiresAt c), et_consumedAt = None, et_consumedClientId = None\<rparr>
      in if tc_tokenHash c \<in> et_tokenHash ` set (ed_tokens s) then Inl Unique_Violation
         else Inr (s\<lparr>ed_tokens := ed_tokens s @ [row], ed_tokenSeq := et_id row\<rparr>, row))"

section \<open>The enrolment transaction\<close>

record enrol_link =
  el_userId :: int
  el_osUsername :: string
  el_osUserRef :: string

record enrol_write =
  ew_hostname :: string
  ew_friendlyName :: "string option"
  ew_sshUser :: string
  ew_bearerTokenHash :: string
  ew_links :: "enrol_link list"
  ew_reportedIps :: "string list option"
  ew_agentVersion :: "string option"
  ew_versionsReportedAt :: "instant option"

datatype enrol_failure = Storage violation | Token_Consumed

definition insert_client :: "db \<Rightarrow> enrol_write \<Rightarrow> violation + db \<times> client_row" where
  "insert_client d w =
     (let i = db_clientSeq d + 1;
          row = \<lparr>client_id = i, client_hostname = ew_hostname w, client_friendlyName = ew_friendlyName w,
                 client_sshUser = ew_sshUser w, client_bearerTokenHash = Some (ew_bearerTokenHash w), client_lastSeen = None,
                 client_sshTarget = None, client_lastTelemetryPullAt = None, client_agentVersion = ew_agentVersion w,
                 client_versionsReportedAt = map_option stored_timestamp (ew_versionsReportedAt w), client_platform = Linux,
                 client_updateRequired = False, client_lastVerifiedAt = None, client_lastVerifyReachable = None,
                 client_lastVerifyReason = None, client_capabilities = None, client_reportedIps = ew_reportedIps w\<rparr>
      in if ew_hostname w \<in> client_hostname ` set (db_clients d)
            \<or> Some (ew_bearerTokenHash w) \<in> client_bearerTokenHash ` set (db_clients d) then Inl Unique_Violation
         else Inr (d\<lparr>db_clients := db_clients d @ [row], db_clientSeq := i\<rparr>, row))"

text \<open>A plain insert, where the link route upserts.\<close>

definition insert_link :: "int \<Rightarrow> db \<times> link_row list \<Rightarrow> enrol_link \<Rightarrow> violation + db \<times> link_row list" where
  "insert_link clientId acc e =
     (let d = fst acc;
          row = \<lparr>link_userId = el_userId e, link_clientId = clientId, link_osUsername = el_osUsername e, link_osUserRef = el_osUserRef e\<rparr>
      in if \<exists>l \<in> set (db_links d). same_link (el_userId e) clientId l
              \<or> link_clientId l = clientId \<and> link_osUserRef l = el_osUserRef e then Inl Unique_Violation
         else if getUser d (el_userId e) = None \<or> getClient d clientId = None then Inl Foreign_Key_Violation
         else Inr (d\<lparr>db_links := db_links d @ [row]\<rparr>, snd acc @ [row]))"

definition consume_token :: "instant \<Rightarrow> int \<Rightarrow> int \<Rightarrow> enrolment_token list \<Rightarrow> enrolment_token list" where
  "consume_token now tokenId clientId =
     update_where (\<lambda>t. et_id t = tokenId \<and> et_consumedAt t = None)
       (\<lambda>t. t\<lparr>et_consumedAt := Some (stored_timestamp now), et_consumedClientId := Some clientId\<rparr>)"

text \<open>A failure rolls the whole transaction back: it leaves the state of the caller.\<close>

definition consumeTokenAndEnrol ::
    "instant \<Rightarrow> enrol_db \<Rightarrow> int \<Rightarrow> enrol_write \<Rightarrow> enrol_failure + enrol_db \<times> client_row \<times> link_row list" where
  "consumeTokenAndEnrol now s tokenId w =
     (case insert_client (ed_db s) w of
        Inl v \<Rightarrow> Inl (Storage v)
      | Inr (d, client) \<Rightarrow>
          (case foldE (insert_link (client_id client)) (d, []) (ew_links w) of
             Inl v \<Rightarrow> Inl (Storage v)
           | Inr (d', links) \<Rightarrow>
               if length (filter (\<lambda>t. et_id t = tokenId \<and> et_consumedAt t = None) (ed_tokens s)) \<noteq> 1 then Inl Token_Consumed
               else Inr (s\<lparr>ed_db := d', ed_tokens := consume_token now tokenId (client_id client) (ed_tokens s)\<rparr>, client, links)))"

section \<open>The service\<close>

record mint_request =
  mr_supervisedUsers :: "bound_user list"
  mr_ttlSeconds :: int
  mr_hostname :: "string option"
  mr_friendlyName :: "string option"

definition MAX_ENROLMENT_TTL_SECONDS :: int where "MAX_ENROLMENT_TTL_SECONDS = 24 * 60 * 60"

definition label_text :: "nat \<Rightarrow> string \<Rightarrow> bool" where
  "label_text n s \<longleftrightarrow> 1 \<le> length s \<and> length s \<le> n"

definition optional_label :: "nat \<Rightarrow> string option \<Rightarrow> bool" where
  "optional_label n s = (case s of None \<Rightarrow> True | Some t \<Rightarrow> label_text n t)"

definition distinctUsernames :: "string list \<Rightarrow> bool" where
  "distinctUsernames names \<longleftrightarrow> length (js_set_of names) = length names"

definition mintEnrolmentTokenSchema :: "mint_request \<Rightarrow> bool" where
  "mintEnrolmentTokenSchema r \<longleftrightarrow>
     mr_supervisedUsers r \<noteq> [] \<and> list_all (\<lambda>(userId, osUsername). 0 < userId \<and> label_text 32 osUsername) (mr_supervisedUsers r)
     \<and> distinctUsernames (map snd (mr_supervisedUsers r))
     \<and> 0 < mr_ttlSeconds r \<and> mr_ttlSeconds r \<le> MAX_ENROLMENT_TTL_SECONDS
     \<and> optional_label 253 (mr_hostname r) \<and> optional_label 100 (mr_friendlyName r)"

definition mintEnrolmentToken ::
    "(string \<Rightarrow> string) \<Rightarrow> instant \<Rightarrow> string \<Rightarrow> enrol_db \<Rightarrow> mint_request \<Rightarrow> api_error + enrol_db \<times> enrolment_token" where
  "mintEnrolmentToken hashToken now token s r =
     (if \<exists>e \<in> set (mr_supervisedUsers r). getUser (ed_db s) (fst e) = None then Inl notFound
      else case createEnrolmentToken s
             \<lparr>tc_tokenHash = hashToken token, tc_hostname = mr_hostname r, tc_friendlyName = mr_friendlyName r,
              tc_supervisedUsers = mr_supervisedUsers r, tc_expiresAt = now + mr_ttlSeconds r * 1000\<rparr> of
          Inl _ \<Rightarrow> Inl Internal_Error
        | Inr (s', row) \<Rightarrow> Inr (s', row))"

record enrol_request =
  er_hostname :: string
  er_sshUser :: string
  er_supervisedUsers :: "(string \<times> string) list"
  er_agentVersion :: "string option"
  er_componentVersions :: "(string \<times> string) list option"
  er_reportedIps :: "string list option"

definition hexadecimal :: "char \<Rightarrow> bool" where
  "hexadecimal c \<longleftrightarrow> (let n = of_char c :: nat in 48 \<le> n \<and> n \<le> 57 \<or> 65 \<le> n \<and> n \<le> 70 \<or> 97 \<le> n \<and> n \<le> 102)"

definition osUserRefSchema :: "string \<Rightarrow> bool" where
  "osUserRefSchema s \<longleftrightarrow> label_text 64 s \<and> list_all (\<lambda>c. alphanumeric c \<or> c \<in> set ''._:-'') s"

definition versionStringSchema :: "string \<Rightarrow> bool" where
  "versionStringSchema s \<longleftrightarrow> label_text 64 s \<and> list_all (\<lambda>c. alphanumeric c \<or> c \<in> set ''._+~:-'') s"

definition reportedIpSchema :: "string \<Rightarrow> bool" where
  "reportedIpSchema s \<longleftrightarrow> label_text 64 s \<and> list_all (\<lambda>c. hexadecimal c \<or> c \<in> set ''.:%'') s"

definition componentVersionsSchema :: "(string \<times> string) list \<Rightarrow> bool" where
  "componentVersionsSchema = list_all (\<lambda>(k, v). k \<in> set [''timekpr'', ''e2guardian'', ''activitywatch''] \<and> versionStringSchema v)"

definition enrolClientSchema :: "enrol_request \<Rightarrow> bool" where
  "enrolClientSchema r \<longleftrightarrow>
     label_text 253 (er_hostname r) \<and> label_text 64 (er_sshUser r)
     \<and> er_supervisedUsers r \<noteq> [] \<and> list_all (\<lambda>(osUsername, ref). label_text 32 osUsername \<and> osUserRefSchema ref) (er_supervisedUsers r)
     \<and> distinctUsernames (map fst (er_supervisedUsers r))
     \<and> (case er_agentVersion r of None \<Rightarrow> True | Some v \<Rightarrow> versionStringSchema v)
     \<and> (case er_componentVersions r of None \<Rightarrow> True | Some cs \<Rightarrow> componentVersionsSchema cs)
     \<and> (case er_reportedIps r of None \<Rightarrow> True | Some ips \<Rightarrow> length ips \<le> 16 \<and> list_all reportedIpSchema ips)"

text \<open>The agent version, the component versions and when they were reported.\<close>

definition resolveReportedVersions ::
    "instant \<Rightarrow> string option \<Rightarrow> (string \<times> string) list option \<Rightarrow> string option \<times> (string \<times> string) list option \<times> instant option" where
  "resolveReportedVersions now agentVersion components =
     (let componentVersions = (case components of None \<Rightarrow> None | Some cs \<Rightarrow> if cs \<noteq> [] then Some cs else None);
          reported = agentVersion \<noteq> None \<or> componentVersions \<noteq> None
      in (agentVersion, componentVersions, if reported then Some now else None))"

definition token_invalid :: api_error where "token_invalid = Api_Error 401 ''enrolment_token_invalid''"
definition token_used :: api_error where "token_used = Api_Error 401 ''enrolment_token_used''"
definition token_expired :: api_error where "token_expired = Api_Error 401 ''enrolment_token_expired''"
definition user_mismatch :: api_error where "user_mismatch = Api_Error 400 ''enrolment_user_mismatch''"
definition user_gone :: api_error where "user_gone = Api_Error 409 ''user_no_longer_exists''"
definition enrol_conflict :: api_error where "enrol_conflict = Api_Error 409 ''conflict''"

definition requestByName :: "(string \<times> string) list \<Rightarrow> (string \<times> string) list" where
  "requestByName entries = fold (\<lambda>e m. AList.update (fst e) (snd e) m) entries []"

definition enrol_links :: "db \<Rightarrow> (string \<times> string) list \<Rightarrow> bound_user list \<Rightarrow> api_error + enrol_link list" where
  "enrol_links d byName =
     mapE (\<lambda>(userId, osUsername).
       case map_of byName osUsername of
         None \<Rightarrow> Inl user_mismatch
       | Some ref \<Rightarrow>
           if getUser d userId = None then Inl user_gone
           else Inr \<lparr>el_userId = userId, el_osUsername = osUsername, el_osUserRef = ref\<rparr>)"

definition reported_ips :: "string list option \<Rightarrow> string list option" where
  "reported_ips ips = (case ips of None \<Rightarrow> None | Some xs \<Rightarrow> if length xs > 0 then Some xs else None)"

definition enrol_write_of :: "(string \<Rightarrow> string) \<Rightarrow> instant \<Rightarrow> string \<Rightarrow> enrol_request \<Rightarrow> enrolment_token \<Rightarrow> enrol_link list \<Rightarrow> enrol_write" where
  "enrol_write_of hashToken now bearerToken r row links =
     (case resolveReportedVersions now (er_agentVersion r) (er_componentVersions r) of (agentVersion, _, versionsReportedAt) \<Rightarrow>
        \<lparr>ew_hostname = er_hostname r, ew_friendlyName = et_friendlyName row, ew_sshUser = er_sshUser r,
         ew_bearerTokenHash = hashToken bearerToken, ew_links = links, ew_reportedIps = reported_ips (er_reportedIps r),
         ew_agentVersion = agentVersion, ew_versionsReportedAt = versionsReportedAt\<rparr>)"

definition enrolClient ::
    "(string \<Rightarrow> string) \<Rightarrow> instant \<Rightarrow> string \<Rightarrow> enrol_db \<Rightarrow> string \<Rightarrow> enrol_request \<Rightarrow> api_error + enrol_db \<times> client_row \<times> link_row list" where
  "enrolClient hashToken now bearerToken s token r =
     (case findEnrolmentTokenByHash s (hashToken token) of
        None \<Rightarrow> Inl token_invalid
      | Some row \<Rightarrow>
          if et_consumedAt row \<noteq> None then Inl token_used
          else if et_expiresAt row \<le> now then Inl token_expired
          else let byName = requestByName (er_supervisedUsers r); minted = et_supervisedUsers row in
            if length minted \<noteq> length (er_supervisedUsers r) \<or> (\<exists>e \<in> set minted. map_of byName (snd e) = None) then Inl user_mismatch
            else bindE (enrol_links (ed_db s) byName minted) (\<lambda>links.
              case consumeTokenAndEnrol now s (et_id row) (enrol_write_of hashToken now bearerToken r row links) of
                Inl Token_Consumed \<Rightarrow> Inl token_used
              | Inl (Storage Unique_Violation) \<Rightarrow> Inl enrol_conflict
              | Inl (Storage Foreign_Key_Violation) \<Rightarrow> Inl Internal_Error
              | Inr res \<Rightarrow> Inr res))"

section \<open>The routes\<close>

definition ENROL_RATE_LIMIT_MAX_ATTEMPTS :: int where "ENROL_RATE_LIMIT_MAX_ATTEMPTS = 10"
definition ENROL_RATE_LIMIT_WINDOW_MS :: int where "ENROL_RATE_LIMIT_WINDOW_MS = 15 * 60 * 1000"

definition enrol_limiter :: limiter where
  "enrol_limiter = new_FixedWindowRateLimiter (Some ENROL_RATE_LIMIT_MAX_ATTEMPTS) (Some ENROL_RATE_LIMIT_WINDOW_MS)"

fun is_auth_failure :: "api_error \<Rightarrow> bool" where
  "is_auth_failure (Api_Error status _) = (status = 401)"
| "is_auth_failure Internal_Error = False"

text \<open>
  \<open>POST /clients/enrolment-tokens\<close>, the admin check passed, and \<open>POST /clients/enrol\<close>. A body that fails its schema
  does not reach the handler. The token of the \<open>Authorization\<close> header is already parsed.
\<close>

definition validation_failed :: api_error where "validation_failed = Api_Error 400 ''validation_error''"

definition post_enrolment_token ::
    "(string \<Rightarrow> string) \<Rightarrow> instant \<Rightarrow> string \<Rightarrow> mint_request \<Rightarrow> enrol_db \<Rightarrow> (api_error + enrolment_token) \<times> enrol_db" where
  "post_enrolment_token hashToken now token r s =
     (if \<not> mintEnrolmentTokenSchema r then (Inl validation_failed, s)
      else case mintEnrolmentToken hashToken now token s r of Inl e \<Rightarrow> (Inl e, s) | Inr (s', row) \<Rightarrow> (Inr row, s'))"

definition post_enrol ::
    "(string \<Rightarrow> string) \<Rightarrow> instant \<Rightarrow> string \<Rightarrow> string \<Rightarrow> string option \<Rightarrow> enrol_request \<Rightarrow> limiter \<times> enrol_db
      \<Rightarrow> (api_error + client_row \<times> link_row list) \<times> limiter \<times> enrol_db" where
  "post_enrol hashToken now bearerToken ip header r s =
     (if \<not> enrolClientSchema r then (Inl validation_failed, s)
      else case isBlocked now ip (fst s) of
        (True, l) \<Rightarrow> (Inl too_many_requests, l, snd s)
      | (False, l) \<Rightarrow>
          (case header of
             None \<Rightarrow> (Inl unauthorized, recordFailure now ip l, snd s)
           | Some token \<Rightarrow>
               (case enrolClient hashToken now bearerToken (snd s) token r of
                  Inl e \<Rightarrow> (Inl e, if is_auth_failure e then recordFailure now ip l else l, snd s)
                | Inr (s', res) \<Rightarrow> (Inr res, recordSuccess ip l, s'))))"

section \<open>The routes among the policy requests\<close>

text \<open>A policy request may delete a client: the token that made it forgets it (\<open>ON DELETE SET NULL\<close>).\<close>

definition forget_deleted :: "db \<Rightarrow> enrolment_token list \<Rightarrow> enrolment_token list" where
  "forget_deleted d =
     map (et_consumedClientId_update (\<lambda>c. case c of None \<Rightarrow> None | Some i \<Rightarrow> if getClient d i = None then None else Some i))"

definition policy_request :: "api_env \<Rightarrow> api_request \<Rightarrow> enrol_db \<Rightarrow> enrol_db" where
  "policy_request e r s =
     (let d = fst (snd (serve e r (ed_db s, []))) in s\<lparr>ed_db := d, ed_tokens := forget_deleted d (ed_tokens s)\<rparr>)"

datatype enrol_event =
    Mint instant string mint_request
  | Enrol instant string string "string option" enrol_request
  | Policy_Request api_env api_request

text \<open>The state of the server, and the hashes of the tokens redeemed so far, each with the time.\<close>

type_synonym enrol_state = "(limiter \<times> enrol_db) \<times> (string \<times> instant) list"

fun enrol_step :: "(string \<Rightarrow> string) \<Rightarrow> enrol_state \<Rightarrow> enrol_event \<Rightarrow> enrol_state" where
  "enrol_step hashToken ((l, s), redeemed) (Mint now token r) =
     ((l, snd (post_enrolment_token hashToken now token r s)), redeemed)"
| "enrol_step hashToken ((l, s), redeemed) (Enrol now bearerToken ip header r) =
     (case post_enrol hashToken now bearerToken ip header r (l, s) of
        (Inl _, ls) \<Rightarrow> (ls, redeemed)
      | (Inr _, ls) \<Rightarrow> (ls, redeemed @ [(hashToken (the header), now)]))"
| "enrol_step hashToken ((l, s), redeemed) (Policy_Request e r) = ((l, policy_request e r s), redeemed)"

definition enrolled :: "(string \<Rightarrow> string) \<Rightarrow> enrol_event list \<Rightarrow> enrol_state" where
  "enrolled hashToken = foldl (enrol_step hashToken) ((enrol_limiter, \<lparr>ed_db = empty_db, ed_tokens = [], ed_tokenSeq = 0\<rparr>), [])"

section \<open>What the transaction writes\<close>

definition link_of :: "int \<Rightarrow> enrol_link \<Rightarrow> link_row" where
  "link_of i e = \<lparr>link_userId = el_userId e, link_clientId = i, link_osUsername = el_osUsername e, link_osUserRef = el_osUserRef e\<rparr>"

lemma link_of_select [simp]:
  "link_userId (link_of i e) = el_userId e" "link_clientId (link_of i e) = i" "link_osUsername (link_of i e) = el_osUsername e"
  "link_osUserRef (link_of i e) = el_osUserRef e"
  by (simp_all add: link_of_def)

lemma lookups_of_links [simp]:
  "getUser (d\<lparr>db_links := ls\<rparr>) u = getUser d u" "getClient (d\<lparr>db_links := ls\<rparr>) c = getClient d c"
  by (simp_all add: getUser_def getClient_def)

definition clashes :: "int \<Rightarrow> link_row list \<Rightarrow> enrol_link \<Rightarrow> bool" where
  "clashes i ls e \<longleftrightarrow> (\<exists>l \<in> set ls. link_clientId l = i \<and> (link_userId l = el_userId e \<or> link_osUserRef l = el_osUserRef e))"

lemma insert_link_Inr:
  "getClient (fst acc) i \<noteq> None \<Longrightarrow> insert_link i acc e = Inr r \<longleftrightarrow>
     \<not> clashes i (db_links (fst acc)) e \<and> getUser (fst acc) (el_userId e) \<noteq> None
     \<and> r = ((fst acc)\<lparr>db_links := db_links (fst acc) @ [link_of i e]\<rparr>, snd acc @ [link_of i e])"
  by (auto simp: insert_link_def Let_def clashes_def same_link_def link_of_def)

lemma insert_links_Inr:
  assumes "getClient d i \<noteq> None"
  shows "foldE (insert_link i) (d, acc) es = Inr r \<longleftrightarrow>
     list_all (\<lambda>e. \<not> clashes i (db_links d) e \<and> getUser d (el_userId e) \<noteq> None) es
     \<and> distinct (map el_userId es) \<and> distinct (map el_osUserRef es)
     \<and> r = (d\<lparr>db_links := db_links d @ map (link_of i) es\<rparr>, acc @ map (link_of i) es)"
  using assms
proof (induction es arbitrary: d acc)
  case Nil
  then show ?case by auto
next
  case (Cons e es)
  have "foldE (insert_link i) (d, acc) (e # es) = Inr r \<longleftrightarrow>
      \<not> clashes i (db_links d) e \<and> getUser d (el_userId e) \<noteq> None
      \<and> foldE (insert_link i) (d\<lparr>db_links := db_links d @ [link_of i e]\<rparr>, acc @ [link_of i e]) es = Inr r"
    using Cons.prems by (auto simp: bindE_eq_Inr insert_link_Inr)
  moreover have "clashes i (db_links d @ [link_of i e]) e' \<longleftrightarrow>
      clashes i (db_links d) e' \<or> el_userId e = el_userId e' \<or> el_osUserRef e = el_osUserRef e'" for e'
    by (auto simp: clashes_def)
  ultimately show ?case
    using Cons.IH [of "d\<lparr>db_links := db_links d @ [link_of i e]\<rparr>" "acc @ [link_of i e]"] Cons.prems
    by (auto simp: list_all_iff)
qed

definition client_fits :: "db \<Rightarrow> string \<Rightarrow> string \<Rightarrow> bool" where
  "client_fits d hostname bearerHash \<longleftrightarrow>
     hostname \<notin> client_hostname ` set (db_clients d) \<and> Some bearerHash \<notin> client_bearerTokenHash ` set (db_clients d)"

lemma insert_client_Inr:
  assumes "insert_client d w = Inr (d', c)"
  shows insert_client_db: "d' = d\<lparr>db_clients := db_clients d @ [c], db_clientSeq := client_id c\<rparr>"
    and insert_client_id: "client_id c = db_clientSeq d + 1"
    and insert_client_found: "getClient d' (client_id c) \<noteq> None"
    and insert_client_users: "getUser d' u = getUser d u" "db_links d' = db_links d"
  using assms by (auto simp: insert_client_def Let_def getClient_None getUser_def split: if_splits)

lemma insert_client_fits: "(\<exists>r. insert_client d w = Inr r) \<longleftrightarrow> client_fits d (ew_hostname w) (ew_bearerTokenHash w)"
  by (auto simp: insert_client_def Let_def client_fits_def)

lemma lookups_of_client [simp]:
  "getUser (d\<lparr>db_clients := cs, db_clientSeq := n\<rparr>) u = getUser d u"
  "getClient (d\<lparr>db_clients := cs @ [c], db_clientSeq := n\<rparr>) (client_id c) \<noteq> None"
  by (simp_all add: getUser_def getClient_None)

definition token_open :: "enrol_db \<Rightarrow> int \<Rightarrow> bool" where
  "token_open s tokenId \<longleftrightarrow> length (filter (\<lambda>t. et_id t = tokenId \<and> et_consumedAt t = None) (ed_tokens s)) = 1"

lemma consumeTokenAndEnrol_Inr:
  assumes "consumeTokenAndEnrol now s tokenId w = Inr (s', c, ls)"
  shows "ls = map (link_of (client_id c)) (ew_links w)
    \<and> s' = s\<lparr>ed_db := (ed_db s)\<lparr>db_clients := db_clients (ed_db s) @ [c], db_clientSeq := client_id c, db_links := db_links (ed_db s) @ ls\<rparr>,
             ed_tokens := consume_token now tokenId (client_id c) (ed_tokens s)\<rparr>
    \<and> token_open s tokenId \<and> (\<exists>d. insert_client (ed_db s) w = Inr (d, c))"
proof -
  obtain d q where q: "insert_client (ed_db s) w = Inr (d, c)" "foldE (insert_link (client_id c)) (d, []) (ew_links w) = Inr (q, ls)"
    "token_open s tokenId" "s' = s\<lparr>ed_db := q, ed_tokens := consume_token now tokenId (client_id c) (ed_tokens s)\<rparr>"
    using assms by (auto simp: consumeTokenAndEnrol_def token_open_def split: sum.splits if_splits)
  have "q = d\<lparr>db_links := db_links d @ map (link_of (client_id c)) (ew_links w)\<rparr> \<and> ls = map (link_of (client_id c)) (ew_links w)"
    using q(2) unfolding insert_links_Inr [OF insert_client_found [OF q(1)]] by simp
  moreover have "d = (ed_db s)\<lparr>db_clients := db_clients (ed_db s) @ [c], db_clientSeq := client_id c\<rparr>" by (rule insert_client_db [OF q(1)])
  ultimately show ?thesis using q by auto
qed

lemma no_clash_fresh:
  assumes "api_ok d" "i = db_clientSeq d + 1"
  shows "\<not> clashes i (db_links d) e"
  using assms by (force simp: clashes_def api_ok_def db_ok_def links_ok_def clients_ok_def)

lemma consumeTokenAndEnrol_accepts:
  assumes "api_ok (ed_db s)"
  shows "(\<exists>r. consumeTokenAndEnrol now s tokenId w = Inr r) \<longleftrightarrow>
    client_fits (ed_db s) (ew_hostname w) (ew_bearerTokenHash w) \<and> token_open s tokenId
    \<and> list_all (\<lambda>e. getUser (ed_db s) (el_userId e) \<noteq> None) (ew_links w)
    \<and> distinct (map el_userId (ew_links w)) \<and> distinct (map el_osUserRef (ew_links w))"
proof (cases "insert_client (ed_db s) w")
  case (Inl v)
  then have "\<not> client_fits (ed_db s) (ew_hostname w) (ew_bearerTokenHash w)" using insert_client_fits [of "ed_db s" w] by auto
  with Inl show ?thesis by (simp add: consumeTokenAndEnrol_def)
next
  case (Inr r)
  obtain d c where r: "r = (d, c)" by (cases r)
  note d = Inr [unfolded r]
  have free: "\<not> clashes (client_id c) (db_links (ed_db s)) e" for e using no_clash_fresh [OF assms insert_client_id [OF d]] .
  have links: "foldE (insert_link (client_id c)) (d, []) (ew_links w) = Inr q \<longleftrightarrow>
      list_all (\<lambda>e. getUser (ed_db s) (el_userId e) \<noteq> None) (ew_links w)
      \<and> distinct (map el_userId (ew_links w)) \<and> distinct (map el_osUserRef (ew_links w))
      \<and> q = (d\<lparr>db_links := db_links d @ map (link_of (client_id c)) (ew_links w)\<rparr>, map (link_of (client_id c)) (ew_links w))" for q
    unfolding insert_links_Inr [OF insert_client_found [OF d]] insert_client_users [OF d] using free by simp
  have "(\<exists>r. consumeTokenAndEnrol now s tokenId w = Inr r) \<longleftrightarrow>
      (\<exists>q. foldE (insert_link (client_id c)) (d, []) (ew_links w) = Inr q) \<and> token_open s tokenId"
    by (auto simp: consumeTokenAndEnrol_def Inr r token_open_def split: sum.splits)
  then show ?thesis unfolding links using insert_client_fits [of "ed_db s" w] Inr by simp blast
qed

text \<open>The writes keep the tables sound.\<close>

lemma insert_link_ok:
  assumes "insert_link i acc e = Inr (d', ls)" "api_ok (fst acc)"
  shows "api_ok d'"
proof -
  have "upsertLink (fst acc) (el_userId e) i (el_osUsername e) (el_osUserRef e) = Inr (d', link_of i e)"
    using assms(1) by (auto simp: insert_link_def upsertLink_def Let_def link_of_def split: if_splits)
  then show ?thesis using api_link_ok assms(2) by blast
qed

lemma insert_links_ok: "foldE (insert_link i) acc es = Inr r \<Longrightarrow> api_ok (fst acc) \<Longrightarrow> api_ok (fst r)"
  by (induction es arbitrary: acc) (fastforce simp: bindE_eq_Inr dest: insert_link_ok)+

lemma insert_client_ok:
  assumes "insert_client d w = Inr (d', c)" "api_ok d"
  shows "api_ok d'"
proof -
  have host: "client_hostname c \<notin> client_hostname ` set (db_clients d)"
    using assms(1) by (auto simp: insert_client_def Let_def split: if_splits)
  have ok: "db_ok d" "store_ok (user_ids d) (client_ids d) (db_policy d)" using assms(2) by (simp_all add: api_ok_def)
  note d' = insert_client_db [OF assms(1)] and id = insert_client_id [OF assms(1)]
  have "db_ok d'"
    using ok(1) host fresh_key [of "db_clients d" client_id "db_clientSeq d"]
    by (auto simp: d' id db_ok_def users_ok_def clients_ok_def links_ok_def queue_ok_def)
  moreover have "store_ok (user_ids d') (client_ids d') (db_policy d')"
    using store_ok_mono [OF ok(2) subset_refl subset_insertI] by (simp add: d')
  ultimately show ?thesis by (simp add: api_ok_def)
qed

lemma consumeTokenAndEnrol_ok:
  "consumeTokenAndEnrol now s tokenId w = Inr (s', r) \<Longrightarrow> api_ok (ed_db s) \<Longrightarrow> api_ok (ed_db s')"
  using insert_client_ok insert_links_ok by (fastforce simp: consumeTokenAndEnrol_def split: sum.splits if_splits)

section \<open>What the service accepts\<close>

definition named_link :: "(string \<times> string) list \<Rightarrow> bound_user \<Rightarrow> enrol_link" where
  "named_link byName e = \<lparr>el_userId = fst e, el_osUsername = snd e, el_osUserRef = the (map_of byName (snd e))\<rparr>"

lemma named_link_select [simp]:
  "el_userId (named_link m e) = fst e" "el_osUsername (named_link m e) = snd e" "el_osUserRef (named_link m e) = the (map_of m (snd e))"
  by (simp_all add: named_link_def)

lemma enrol_links_Inr:
  "enrol_links d m es = Inr ls \<longleftrightarrow>
     list_all (\<lambda>e. map_of m (snd e) \<noteq> None \<and> getUser d (fst e) \<noteq> None) es \<and> ls = map (named_link m) es"
  by (induction es arbitrary: ls)
    (auto simp: enrol_links_def bindE_eq_Inr named_link_def split: option.splits if_splits)

lemma enrol_write_select [simp]:
  "ew_hostname (enrol_write_of h now b r row ls) = er_hostname r" "ew_bearerTokenHash (enrol_write_of h now b r row ls) = h b"
  "ew_links (enrol_write_of h now b r row ls) = ls"
  by (simp_all add: enrol_write_of_def split: prod.splits)

lemma enrolClient_Inr:
  "enrolClient h now b s token r = Inr res \<longleftrightarrow>
     (\<exists>row. findEnrolmentTokenByHash s (h token) = Some row \<and> et_consumedAt row = None \<and> now < et_expiresAt row
        \<and> length (et_supervisedUsers row) = length (er_supervisedUsers r)
        \<and> list_all (\<lambda>e. map_of (requestByName (er_supervisedUsers r)) (snd e) \<noteq> None \<and> getUser (ed_db s) (fst e) \<noteq> None) (et_supervisedUsers row)
        \<and> consumeTokenAndEnrol now s (et_id row)
            (enrol_write_of h now b r row (map (named_link (requestByName (er_supervisedUsers r))) (et_supervisedUsers row))) = Inr res)"
  by (auto simp: enrolClient_def Let_def bindE_eq_Inr enrol_links_Inr list_all_iff not_less
      split: option.splits if_splits sum.splits enrol_failure.splits violation.splits)

lemma post_enrol_Inr:
  "post_enrol h now b ip header r (l, s) = (Inr res, l', s') \<longleftrightarrow>
     enrolClientSchema r \<and> \<not> fst (isBlocked now ip l)
     \<and> (\<exists>token. header = Some token \<and> enrolClient h now b s token r = Inr (s', res))
     \<and> l' = recordSuccess ip (snd (isBlocked now ip l))"
  by (auto simp: post_enrol_def split: prod.splits bool.splits option.splits sum.splits if_splits)

lemma post_enrol_Inl: "post_enrol h now b ip header r (l, s) = (Inl e, l', s') \<Longrightarrow> s' = s"
  by (auto simp: post_enrol_def split: prod.splits bool.splits option.splits sum.splits if_splits)

lemma distinctUsernames_iff: "distinctUsernames names \<longleftrightarrow> distinct names"
proof -
  have "length (js_set_of names) = card (set names)" using distinct_card [of "js_set_of names"] by simp
  then show ?thesis by (auto simp: distinctUsernames_def distinct_card intro: card_distinct)
qed

lemma requestByName_lookup: "distinct (map fst es) \<Longrightarrow> map_of (requestByName es) = map_of es"
proof -
  have "map_of (fold (\<lambda>e. AList.update (fst e) (snd e)) es m) = map_of m ++ map_of es" if "distinct (map fst es)" for m
    using that
  proof (induction es arbitrary: m)
    case (Cons e es)
    then have "fst e \<notin> dom (map_of es)" by (simp add: dom_map_of_conv_image_fst)
    then show ?case using Cons by (auto simp: update_conv' map_add_def fun_eq_iff split: option.splits)
  qed simp
  then show "distinct (map fst es) \<Longrightarrow> map_of (requestByName es) = map_of es" by (simp add: requestByName_def)
qed

section \<open>The tokens along every run\<close>

definition tokens_ok :: "enrolment_token list \<Rightarrow> int \<Rightarrow> bool" where
  "tokens_ok ts seq \<longleftrightarrow>
     distinct (map et_id ts) \<and> distinct (map et_tokenHash ts) \<and> (\<forall>t \<in> set ts. et_id t \<le> seq \<and> distinct (map snd (et_supervisedUsers t)))"

definition redeemed_token :: "enrol_db \<Rightarrow> string \<times> instant \<Rightarrow> bool" where
  "redeemed_token s e =
     (case findEnrolmentTokenByHash s (fst e) of
        None \<Rightarrow> False
      | Some row \<Rightarrow> et_consumedAt row = Some (stored_timestamp (snd e)) \<and> snd e < et_expiresAt row)"

definition run_ok :: "enrol_state \<Rightarrow> bool" where
  "run_ok st =
     (case st of ((_, s), redeemed) \<Rightarrow>
        api_ok (ed_db s) \<and> tokens_ok (ed_tokens s) (ed_tokenSeq s)
        \<and> distinct (map fst redeemed) \<and> list_all (redeemed_token s) redeemed)"

lemma find_map_keep:
  "(\<And>x. key (f x) = key x) \<Longrightarrow> List.find (\<lambda>x. key x = k) (map f xs) = map_option f (List.find (\<lambda>x. key x = k) xs)"
  by (induction xs) simp_all

lemma find_snoc: "List.find P (xs @ [x]) = (case List.find P xs of None \<Rightarrow> if P x then Some x else None | Some y \<Rightarrow> Some y)"
  by (induction xs) simp_all

lemma tokens_ok_map:
  assumes "tokens_ok ts seq" "\<And>t. et_id (f t) = et_id t" "\<And>t. et_tokenHash (f t) = et_tokenHash t"
    "\<And>t. et_supervisedUsers (f t) = et_supervisedUsers t"
  shows "tokens_ok (map f ts) seq"
  using assms by (simp add: tokens_ok_def comp_def)

lemma redeemed_token_map:
  assumes "redeemed_token s e" "\<And>t. et_tokenHash (f t) = et_tokenHash t" "\<And>t. et_expiresAt (f t) = et_expiresAt t"
    "\<And>t. et_consumedAt t \<noteq> None \<Longrightarrow> et_consumedAt (f t) = et_consumedAt t"
  shows "redeemed_token (s\<lparr>ed_db := d, ed_tokens := map f (ed_tokens s)\<rparr>) e"
  using assms find_map_keep [of et_tokenHash f "fst e" "ed_tokens s"]
  by (auto simp: redeemed_token_def findEnrolmentTokenByHash_def split: option.splits)

lemma consume_token_map:
  "consume_token now i c ts = map (\<lambda>t. if et_id t = i \<and> et_consumedAt t = None
     then t\<lparr>et_consumedAt := Some (stored_timestamp now), et_consumedClientId := Some c\<rparr> else t) ts"
  by (simp add: consume_token_def update_where_def)

lemma policy_request_ok:
  assumes "run_ok ((l, s), redeemed)"
  shows "run_ok ((l, policy_request e r s), redeemed)"
proof -
  have "api_ok (fst (snd (serve e r (ed_db s, []))))" using serve_ok [of "(ed_db s, [])"] assms by (simp add: run_ok_def)
  moreover have "tokens_ok (ed_tokens (policy_request e r s)) (ed_tokenSeq (policy_request e r s))"
    using assms by (auto simp: run_ok_def policy_request_def Let_def forget_deleted_def intro!: tokens_ok_map)
  moreover have "redeemed_token (policy_request e r s) x" if "redeemed_token s x" for x
    unfolding policy_request_def Let_def forget_deleted_def by (rule redeemed_token_map [OF that]) simp_all
  ultimately show ?thesis
    using assms by (auto simp: run_ok_def policy_request_def Let_def elim: list.pred_mono_strong)
qed

lemma mint_ok:
  assumes "run_ok ((l, s), redeemed)"
  shows "run_ok ((l, snd (post_enrolment_token h now token r s)), redeemed)"
proof (cases "post_enrolment_token h now token r s")
  case (Pair a s')
  show ?thesis
  proof (cases a)
    case (Inl e)
    then have "s' = s" using Pair by (auto simp: post_enrolment_token_def split: sum.splits if_splits)
    then show ?thesis using assms Pair by simp
  next
    case (Inr row)
    have new: "et_id row = ed_tokenSeq s + 1" "et_tokenHash row \<notin> et_tokenHash ` set (ed_tokens s)"
        "s' = s\<lparr>ed_tokens := ed_tokens s @ [row], ed_tokenSeq := et_id row\<rparr>" "et_supervisedUsers row = mr_supervisedUsers r"
        "distinctUsernames (map snd (mr_supervisedUsers r))"
      using Pair Inr
      by (auto simp: post_enrolment_token_def mintEnrolmentToken_def createEnrolmentToken_def mintEnrolmentTokenSchema_def Let_def
          split: if_splits sum.splits)
    have "redeemed_token s' x" if "redeemed_token s x" for x
      using that by (auto simp: redeemed_token_def findEnrolmentTokenByHash_def new(3) find_snoc split: option.splits)
    moreover have "tokens_ok (ed_tokens s') (ed_tokenSeq s')"
      using assms new by (force simp: run_ok_def tokens_ok_def distinctUsernames_iff)
    ultimately show ?thesis using assms by (auto simp: run_ok_def Pair new(3) elim: list.pred_mono_strong)
  qed
qed

lemma find_distinct: "distinct (map key xs) \<Longrightarrow> List.find (\<lambda>x. key x = k) xs = Some r \<longleftrightarrow> r \<in> set xs \<and> key r = k"
  by (induction xs) (auto simp: image_iff)

lemma filter_this: "distinct xs \<Longrightarrow> x \<in> set xs \<Longrightarrow> filter (\<lambda>t. t = x) xs = [x]"
  by (induction xs) (auto simp: filter_empty_conv)

lemma find_token:
  assumes "tokens_ok (ed_tokens s) seq"
  shows "findEnrolmentTokenByHash s h = Some row \<longleftrightarrow> row \<in> set (ed_tokens s) \<and> et_tokenHash row = h"
  using assms find_distinct [of et_tokenHash "ed_tokens s" h row] by (simp add: findEnrolmentTokenByHash_def tokens_ok_def)

lemma token_open_row:
  assumes "tokens_ok (ed_tokens s) seq" "row \<in> set (ed_tokens s)" "et_consumedAt row = None"
  shows "token_open s (et_id row)"
proof -
  have "filter (\<lambda>t. et_id t = et_id row \<and> et_consumedAt t = None) (ed_tokens s) = filter (\<lambda>t. t = row) (ed_tokens s)"
    using assms by (intro filter_cong refl) (auto simp: tokens_ok_def distinct_map dest: inj_onD)
  moreover have "length (filter (\<lambda>t. t = row) (ed_tokens s)) = 1"
    using assms(1,2) filter_this [of "ed_tokens s" row] by (simp add: tokens_ok_def distinct_map)
  ultimately show ?thesis by (simp add: token_open_def)
qed

lemma accepted_enrol_ok:
  assumes ok: "run_ok ((l, s), redeemed)" and r: "enrolClient h now b s token r = Inr (s', c, ls)"
  shows "run_ok ((l', s'), redeemed @ [(h token, now)])"
proof -
  obtain row w where row: "findEnrolmentTokenByHash s (h token) = Some row" "et_consumedAt row = None" "now < et_expiresAt row"
    and w: "consumeTokenAndEnrol now s (et_id row) w = Inr (s', c, ls)"
    using iffD1 [OF enrolClient_Inr r] by blast
  have ok': "api_ok (ed_db s)" "tokens_ok (ed_tokens s) (ed_tokenSeq s)" "distinct (map fst redeemed)" "list_all (redeemed_token s) redeemed"
    using ok by (simp_all add: run_ok_def)
  have s': "s' = s\<lparr>ed_db := ed_db s', ed_tokens := consume_token now (et_id row) (client_id c) (ed_tokens s)\<rparr>"
    using consumeTokenAndEnrol_Inr [OF w] by simp
  have old: "redeemed_token s' x" if "redeemed_token s x" for x
    by (subst s', unfold consume_token_map, rule redeemed_token_map [OF that]) simp_all
  have "findEnrolmentTokenByHash s' (h token) = Some (row\<lparr>et_consumedAt := Some (stored_timestamp now), et_consumedClientId := Some (client_id c)\<rparr>)"
    using row(1,2) find_map_keep [of et_tokenHash "\<lambda>t. if et_id t = et_id row \<and> et_consumedAt t = None
      then t\<lparr>et_consumedAt := Some (stored_timestamp now), et_consumedClientId := Some (client_id c)\<rparr> else t" "h token" "ed_tokens s"]
    by (subst s') (simp add: findEnrolmentTokenByHash_def consume_token_map)
  then have "redeemed_token s' (h token, now)" using row(3) by (simp add: redeemed_token_def)
  moreover have "h token \<notin> fst ` set redeemed"
    using ok'(4) row(1,2) by (auto simp: list_all_iff redeemed_token_def)
  moreover have "tokens_ok (ed_tokens s') (ed_tokenSeq s')"
    using ok'(2) by (subst s', subst (2) s') (auto simp: consume_token_map intro: tokens_ok_map)
  moreover have "list_all (redeemed_token s') redeemed" using ok'(4) old by (auto elim: list.pred_mono_strong)
  ultimately show ?thesis using ok'(3) consumeTokenAndEnrol_ok [OF w ok'(1)] by (simp add: run_ok_def)
qed

lemma enrol_step_ok:
  assumes "run_ok st"
  shows "run_ok (enrol_step h st ev)"
proof -
  obtain l s red where st: "st = ((l, s), red)" by (metis prod.exhaust)
  have other_limiter: "run_ok ((l', s), red)" for l' using assms by (simp add: run_ok_def st)
  show ?thesis
  proof (cases ev)
    case (Mint now token r)
    then show ?thesis using mint_ok assms by (simp add: st)
  next
    case (Enrol now b ip header r)
    obtain a l' s' where p: "post_enrol h now b ip header r (l, s) = (a, l', s')" by (metis prod.exhaust)
    show ?thesis
    proof (cases a)
      case (Inl e)
      then show ?thesis using p post_enrol_Inl [of h now b ip header r l s e l' s'] other_limiter by (simp add: st Enrol)
    next
      case (Inr res)
      obtain c ls where "res = (c, ls)" by (cases res)
      with Inr p obtain token where "header = Some token" "enrolClient h now b s token r = Inr (s', c, ls)"
        by (auto simp: post_enrol_Inr)
      then show ?thesis using accepted_enrol_ok assms Inr p by (simp add: st Enrol \<open>res = (c, ls)\<close>)
    qed
  next
    case (Policy_Request e r)
    then show ?thesis using policy_request_ok assms by (simp add: st)
  qed
qed

lemma enrolled_ok: "run_ok (enrolled h evs)"
proof (induction evs rule: rev_induct)
  case Nil
  have "api_ok empty_db" using served_ok [of "[]"] by (simp add: served_def)
  then show ?case by (simp add: enrolled_def run_ok_def tokens_ok_def)
next
  case (snoc ev evs)
  then show ?case by (simp add: enrolled_def enrol_step_ok)
qed

lemma joined_refs:
  assumes "distinct (map fst req)" "distinct (map snd minted)" "length minted = length req" "snd ` set minted \<subseteq> fst ` set req"
  shows "distinct (map (\<lambda>e. the (map_of req (snd e))) minted) \<longleftrightarrow> distinct (map snd req)"
proof -
  let ?f = "\<lambda>n. the (map_of req n)"
  have "set (map snd minted) = set (map fst req)"
    using assms distinct_card [of "map snd minted"] distinct_card [of "map fst req"] by (intro card_subset_eq) auto
  then have "mset (map snd minted) = mset (map fst req)" using set_eq_iff_mset_eq_distinct [of "map snd minted" "map fst req"] assms(1,2) by blast
  then have "mset (map ?f (map snd minted)) = mset (map ?f (map fst req))" by (metis mset_map)
  moreover have "map ?f (map fst req) = map snd req" using assms(1) by (auto simp: map_of_is_SomeI)
  ultimately have "mset (map (\<lambda>e. ?f (snd e)) minted) = mset (map snd req)" by (simp only: map_map comp_def)
  then show ?thesis by (rule mset_eq_imp_distinct_iff)
qed

lemma names_known: "list_all (\<lambda>e. map_of req (snd e) \<noteq> None \<and> getUser d (fst e) \<noteq> None) es \<longleftrightarrow>
    snd ` set es \<subseteq> fst ` set req \<and> fst ` set es \<subseteq> user_ids d"
  by (auto simp: list_all_iff getUser_None map_of_eq_None_iff)

lemma enrolClient_accepts:
  assumes "api_ok (ed_db s)" "tokens_ok (ed_tokens s) seq" "enrolClientSchema r"
  shows "(\<exists>res. enrolClient h now b s token r = Inr res) \<longleftrightarrow>
      client_fits (ed_db s) (er_hostname r) (h b) \<and> distinct (map snd (er_supervisedUsers r))
      \<and> (\<exists>row. findEnrolmentTokenByHash s (h token) = Some row
           \<and> et_consumedAt row = None \<and> now < et_expiresAt row
           \<and> length (et_supervisedUsers row) = length (er_supervisedUsers r)
           \<and> snd ` set (et_supervisedUsers row) \<subseteq> fst ` set (er_supervisedUsers r)
           \<and> fst ` set (et_supervisedUsers row) \<subseteq> user_ids (ed_db s)
           \<and> distinct (map fst (et_supervisedUsers row)))"
proof (cases "findEnrolmentTokenByHash s (h token)")
  case None
  then show ?thesis by (simp add: enrolClient_Inr)
next
  case (Some row)
  let ?es = "et_supervisedUsers row"
  let ?w = "enrol_write_of h now b r row (map (named_link (er_supervisedUsers r)) ?es)"
  have req: "distinct (map fst (er_supervisedUsers r))" using assms(3) by (simp add: enrolClientSchema_def distinctUsernames_iff)
  have same: "named_link (requestByName (er_supervisedUsers r)) = named_link (er_supervisedUsers r)"
    by (simp add: fun_eq_iff named_link_def requestByName_lookup [OF req])
  have row: "row \<in> set (ed_tokens s)" "distinct (map snd ?es)" using Some find_token [OF assms(2)] assms(2) by (auto simp: tokens_ok_def)
  have "(\<exists>res. enrolClient h now b s token r = Inr res) \<longleftrightarrow>
      et_consumedAt row = None \<and> now < et_expiresAt row \<and> length ?es = length (er_supervisedUsers r)
      \<and> snd ` set ?es \<subseteq> fst ` set (er_supervisedUsers r) \<and> fst ` set ?es \<subseteq> user_ids (ed_db s)
      \<and> (\<exists>res. consumeTokenAndEnrol now s (et_id row) ?w = Inr res)"
    unfolding enrolClient_Inr same requestByName_lookup [OF req] names_known by (simp add: Some)
  moreover have "(\<exists>res. consumeTokenAndEnrol now s (et_id row) ?w = Inr res) \<longleftrightarrow>
      client_fits (ed_db s) (er_hostname r) (h b) \<and> distinct (map fst ?es) \<and> distinct (map snd (er_supervisedUsers r))"
    if "et_consumedAt row = None" "length ?es = length (er_supervisedUsers r)"
      "snd ` set ?es \<subseteq> fst ` set (er_supervisedUsers r)" "fst ` set ?es \<subseteq> user_ids (ed_db s)"
    using token_open_row [OF assms(2) row(1) that(1)] joined_refs [OF req row(2) that(2,3)] that(4)
    unfolding consumeTokenAndEnrol_accepts [OF assms(1)]
    by (auto simp: comp_def list_all_iff getUser_None image_subset_iff)
  ultimately show ?thesis using Some by auto
qed

section \<open>Properties\<close>

text \<open>
  C16: An enrolment that is refused changes nothing in the database. An accepted one appends one client, links it to
  exactly the users the token was minted for, under the account names of the token and account references the client
  reported, marks that token as used by the new client, and changes nothing else.
\<close>

theorem enrolment_all_or_nothing:
  "case post_enrol h now b ip header r (l, s) of
     (Inl e, _, s') \<Rightarrow> s' = s
   | (Inr (client, links), _, s') \<Rightarrow>
       \<exists>token row. header = Some token \<and> findEnrolmentTokenByHash s (h token) = Some row
         \<and> et_consumedAt row = None \<and> now < et_expiresAt row
         \<and> map (\<lambda>k. (link_userId k, link_osUsername k)) links = et_supervisedUsers row
         \<and> (\<lambda>k. (link_osUsername k, link_osUserRef k)) ` set links \<subseteq> set (er_supervisedUsers r)
         \<and> link_clientId ` set links \<subseteq> {client_id client}
         \<and> client_id client = db_clientSeq (ed_db s) + 1 \<and> client_hostname client = er_hostname r
         \<and> client_bearerTokenHash client = Some (h b)
         \<and> s' = s\<lparr>ed_db := (ed_db s)\<lparr>db_clients := db_clients (ed_db s) @ [client], db_clientSeq := client_id client,
                                      db_links := db_links (ed_db s) @ links\<rparr>,
                  ed_tokens := consume_token now (et_id row) (client_id client) (ed_tokens s)\<rparr>"
proof (cases "post_enrol h now b ip header r (l, s)")
  case (fields a l' s')
  show ?thesis
  proof (cases a)
    case (Inl e)
    show ?thesis using post_enrol_Inl [OF fields [unfolded Inl]] by (simp add: fields Inl)
  next
    case (Inr res)
    obtain client links where res: "res = (client, links)" by (cases res)
    obtain token where token: "header = Some token" "enrolClient h now b s token r = Inr (s', client, links)" and
      schema: "enrolClientSchema r"
      using fields unfolding Inr res post_enrol_Inr by blast
    let ?m = "requestByName (er_supervisedUsers r)"
    obtain row where row: "findEnrolmentTokenByHash s (h token) = Some row" "et_consumedAt row = None" "now < et_expiresAt row"
      and names: "list_all (\<lambda>e. map_of ?m (snd e) \<noteq> None \<and> getUser (ed_db s) (fst e) \<noteq> None) (et_supervisedUsers row)"
      and c: "consumeTokenAndEnrol now s (et_id row) (enrol_write_of h now b r row (map (named_link ?m) (et_supervisedUsers row))) = Inr (s', client, links)"
      using iffD1 [OF enrolClient_Inr token(2)] by blast
    note wrote = consumeTokenAndEnrol_Inr [OF c]
    then obtain d where d: "insert_client (ed_db s) (enrol_write_of h now b r row (map (named_link ?m) (et_supervisedUsers row))) = Inr (d, client)" by blast
    have "map_of ?m = map_of (er_supervisedUsers r)"
      using schema by (intro requestByName_lookup) (simp add: enrolClientSchema_def distinctUsernames_iff)
    then have refs: "(snd e, the (map_of ?m (snd e))) \<in> set (er_supervisedUsers r)" if "e \<in> set (et_supervisedUsers row)" for e
      using names that by (auto simp: list_all_iff intro: map_of_SomeD)
    have "client_hostname client = er_hostname r" "client_bearerTokenHash client = Some (h b)"
      using d by (auto simp: insert_client_def Let_def split: if_splits)
    then show ?thesis
      unfolding fields Inr res prod.case sum.case
      using wrote row token(1) insert_client_id [OF d] refs
      by (intro exI [of _ token] exI [of _ row]) (auto simp: comp_def)
  qed
qed

text \<open>
  C17: In every interleaving of minting, enrolling and policy requests no token is redeemed twice, every redeemed token
  had not expired then and records when it was used, and the database stays sound.
\<close>

theorem tokens_redeemed_once:
  "case enrolled h evs of ((_, s), redeemed) \<Rightarrow>
     api_ok (ed_db s) \<and> distinct (map fst redeemed) \<and> list_all (redeemed_token s) redeemed"
  using enrolled_ok [of h evs] by (auto simp: run_ok_def split: prod.splits)

text \<open>
  C18: In every state the server can reach, an enrolment is accepted exactly when the body is well formed, the address is
  not blocked, the token is known, unused and not expired, the account names are those of the token, its users exist
  and are distinct, the account references are distinct, and the hostname and the new secret are not taken. So a token
  minted with two accounts of one user, which the mint accepts, can never be redeemed.
\<close>

theorem enrolment_accepted_exactly:
  "case enrolled h evs of ((l, s), _) \<Rightarrow>
     isl (fst (post_enrol h now b ip header r (l, s))) = False \<longleftrightarrow>
       enrolClientSchema r \<and> fst (isBlocked now ip l) = False \<and> client_fits (ed_db s) (er_hostname r) (h b)
       \<and> distinct (map snd (er_supervisedUsers r))
       \<and> (\<exists>token row. header = Some token \<and> findEnrolmentTokenByHash s (h token) = Some row
            \<and> et_consumedAt row = None \<and> now < et_expiresAt row
            \<and> length (et_supervisedUsers row) = length (er_supervisedUsers r)
            \<and> snd ` set (et_supervisedUsers row) \<subseteq> fst ` set (er_supervisedUsers r)
            \<and> fst ` set (et_supervisedUsers row) \<subseteq> user_ids (ed_db s)
            \<and> distinct (map fst (et_supervisedUsers row)))"
proof -
  obtain l s red where run: "enrolled h evs = ((l, s), red)" by (metis prod.exhaust)
  have ok: "api_ok (ed_db s)" "tokens_ok (ed_tokens s) (ed_tokenSeq s)" using enrolled_ok [of h evs] by (simp_all add: run run_ok_def)
  let ?m = "requestByName (er_supervisedUsers r)"
  have accepted: "(\<exists>res. enrolClient h now b s token r = Inr res) \<longleftrightarrow>
      client_fits (ed_db s) (er_hostname r) (h b) \<and> distinct (map snd (er_supervisedUsers r))
      \<and> (\<exists>row. findEnrolmentTokenByHash s (h token) = Some row
           \<and> et_consumedAt row = None \<and> now < et_expiresAt row
           \<and> length (et_supervisedUsers row) = length (er_supervisedUsers r)
           \<and> snd ` set (et_supervisedUsers row) \<subseteq> fst ` set (er_supervisedUsers r)
           \<and> fst ` set (et_supervisedUsers row) \<subseteq> user_ids (ed_db s)
           \<and> distinct (map fst (et_supervisedUsers row)))" if schema: "enrolClientSchema r" for token
    by (rule enrolClient_accepts [OF ok schema])
  have "isl (fst (post_enrol h now b ip header r (l, s))) = False \<longleftrightarrow>
      enrolClientSchema r \<and> fst (isBlocked now ip l) = False
      \<and> (\<exists>token. header = Some token \<and> (\<exists>res. enrolClient h now b s token r = Inr res))"
    by (auto simp: post_enrol_def split: prod.splits bool.splits option.splits sum.splits if_splits)
  also have "\<dots> \<longleftrightarrow>
       enrolClientSchema r \<and> fst (isBlocked now ip l) = False \<and> client_fits (ed_db s) (er_hostname r) (h b)
       \<and> distinct (map snd (er_supervisedUsers r))
       \<and> (\<exists>token row. header = Some token \<and> findEnrolmentTokenByHash s (h token) = Some row
            \<and> et_consumedAt row = None \<and> now < et_expiresAt row
            \<and> length (et_supervisedUsers row) = length (er_supervisedUsers r)
            \<and> snd ` set (et_supervisedUsers row) \<subseteq> fst ` set (er_supervisedUsers r)
            \<and> fst ` set (et_supervisedUsers row) \<subseteq> user_ids (ed_db s)
            \<and> distinct (map fst (et_supervisedUsers row)))"
  proof (cases "enrolClientSchema r")
    case True
    show ?thesis unfolding accepted [OF True] by blast
  qed simp
  finally show ?thesis by (simp add: run)
qed

end
