(* ===== verification/Activity_Matcher.thy ===== *)
theory Activity_Matcher
  imports Policy_Model "HOL-Library.Sublist"
begin

text \<open>
  \<open>policy/activity-matcher.ts\<close>: the grammar that resolves the name of an application to one
  activity. The regular expression engine of the language, \<open>new RegExp(source, "i")\<close>, is a parameter:
  it gives no predicate when the source does not compile. On the sources \<open>compileGlob\<close> builds,
  anchored sequences of literals, escaped characters, \<open>.\<close> and \<open>.*\<close>, its documented behaviour is the
  executable matcher \<open>simple_regexp\<close>, and \<open>regexp_engine\<close> says that an engine agrees with it there.
  Names are ASCII text: \<open>toLowerCase\<close> folds the letters A to Z.
\<close>

section \<open>The matcher grammar\<close>

type_synonym regexp_ctor = "string \<Rightarrow> (string \<Rightarrow> bool) option"

definition lower_char :: "char \<Rightarrow> char" where
  "lower_char c = (let n = (of_char c :: nat) in if 65 \<le> n \<and> n \<le> 90 then char_of (n + 32) else c)"

definition toLowerCase :: "string \<Rightarrow> string" where
  "toLowerCase s = map lower_char s"

definition is_meta :: "char \<Rightarrow> bool" where
  "is_meta c \<longleftrightarrow> c \<in> set [CHR ''.'', CHR ''*'', CHR ''+'', CHR ''?'', CHR ''^'', CHR ''$'', CHR ''{'', CHR ''}'',
     CHR ''('', CHR '')'', CHR ''|'', CHR ''['', CHR '']'', CHR 0x5C]"

definition escapeRegExp :: "string \<Rightarrow> string" where
  "escapeRegExp literal = concat (map (\<lambda>c. if is_meta c then [CHR 0x5C, c] else [c]) literal)"

text \<open>\<open>split(/([*?])/)\<close>: the runs between wildcards, and the wildcards.\<close>

fun glob_parts :: "string \<Rightarrow> string list" where
  "glob_parts [] = [[]]"
| "glob_parts (c # s) =
     (if c = CHR ''*'' \<or> c = CHR ''?'' then [] # [c] # glob_parts s
      else case glob_parts s of [] \<Rightarrow> [[c]] | p # ps \<Rightarrow> (c # p) # ps)"

definition glob_part :: "string \<Rightarrow> string" where
  "glob_part part = (if part = ''*'' then ''.*'' else if part = ''?'' then ''.'' else escapeRegExp part)"

definition compileGlob :: "regexp_ctor \<Rightarrow> string \<Rightarrow> (string \<Rightarrow> bool) option" where
  "compileGlob regexp glob =
     regexp (CHR ''^'' # concat (map glob_part (glob_parts glob)) @ [CHR ''$''])"

definition compileMatcher :: "regexp_ctor \<Rightarrow> match_type \<Rightarrow> string \<Rightarrow> (string \<Rightarrow> bool) option" where
  "compileMatcher regexp matchType matcher =
     (case matchType of
        Exact \<Rightarrow> Some (\<lambda>candidate. toLowerCase candidate = toLowerCase matcher)
      | Substring \<Rightarrow> Some (\<lambda>candidate. sublist (toLowerCase matcher) (toLowerCase candidate))
      | Glob \<Rightarrow> compileGlob regexp matcher
      | Regex \<Rightarrow> regexp matcher)"

definition isValidMatcher :: "regexp_ctor \<Rightarrow> match_type \<Rightarrow> string \<Rightarrow> bool" where
  "isValidMatcher regexp matchType matcher \<longleftrightarrow> compileMatcher regexp matchType matcher \<noteq> None"

record matchable_activity =
  ma_id :: int
  ma_matchType :: match_type
  ma_matcher :: string

record compiled_matcher =
  cm_id :: int
  cm_isExact :: bool
  cm_test :: "string \<Rightarrow> bool"

definition compile_one :: "regexp_ctor \<Rightarrow> matchable_activity \<Rightarrow> compiled_matcher option" where
  "compile_one regexp a =
     map_option (\<lambda>test. \<lparr>cm_id = ma_id a, cm_isExact = (ma_matchType a = Exact), cm_test = test\<rparr>)
       (compileMatcher regexp (ma_matchType a) (ma_matcher a))"

definition compileMatchers :: "regexp_ctor \<Rightarrow> matchable_activity list \<Rightarrow> compiled_matcher list" where
  "compileMatchers regexp activities = sort_key cm_id (List.map_filter (compile_one regexp) activities)"

fun resolve_scan :: "string \<Rightarrow> int option \<Rightarrow> compiled_matcher list \<Rightarrow> int option" where
  "resolve_scan candidate firstPattern [] = firstPattern"
| "resolve_scan candidate firstPattern (m # ms) =
     (if \<not> cm_test m candidate then resolve_scan candidate firstPattern ms
      else if cm_isExact m then Some (cm_id m)
      else resolve_scan candidate (if firstPattern = None then Some (cm_id m) else firstPattern) ms)"

definition resolveActivityId :: "compiled_matcher list \<Rightarrow> string \<Rightarrow> int option" where
  "resolveActivityId compiled candidate = resolve_scan candidate None compiled"

section \<open>The engine on the sources of a glob\<close>

datatype re_atom = Re_Lit char | Re_Any | Re_Run

text \<open>The dot matches no line terminator.\<close>

definition re_any :: "char \<Rightarrow> bool" where
  "re_any c \<longleftrightarrow> c \<noteq> CHR 0x0A \<and> c \<noteq> CHR 0x0D"

fun parse_atoms :: "string \<Rightarrow> re_atom list option" where
  "parse_atoms [] = Some []"
| "parse_atoms (c # s) =
     (if c = CHR 0x5C
      then (case s of [] \<Rightarrow> None | e # s' \<Rightarrow> if is_meta e then map_option ((#) (Re_Lit e)) (parse_atoms s') else None)
      else if c = CHR ''.''
      then (case s of [] \<Rightarrow> Some [Re_Any]
            | q # s' \<Rightarrow> if q = CHR ''*'' then map_option ((#) Re_Run) (parse_atoms s')
                        else map_option ((#) Re_Any) (parse_atoms s))
      else if is_meta c then None
      else map_option ((#) (Re_Lit c)) (parse_atoms s))"

fun match_atoms :: "re_atom list \<Rightarrow> string \<Rightarrow> bool" where
  "match_atoms [] s = (s = [])"
| "match_atoms (Re_Lit c # as) s = (case s of [] \<Rightarrow> False | x # xs \<Rightarrow> lower_char x = lower_char c \<and> match_atoms as xs)"
| "match_atoms (Re_Any # as) s = (case s of [] \<Rightarrow> False | x # xs \<Rightarrow> re_any x \<and> match_atoms as xs)"
| "match_atoms (Re_Run # as) s =
     (match_atoms as s \<or> (case s of [] \<Rightarrow> False | x # xs \<Rightarrow> re_any x \<and> match_atoms (Re_Run # as) xs))"

definition anchored :: "string \<Rightarrow> string option" where
  "anchored source =
     (if length source \<ge> 2 \<and> hd source = CHR ''^'' \<and> last source = CHR ''$'' then Some (butlast (tl source)) else None)"

definition simple_regexp :: regexp_ctor where
  "simple_regexp source =
     (case anchored source of None \<Rightarrow> None | Some body \<Rightarrow> map_option match_atoms (parse_atoms body))"

definition regexp_engine :: "regexp_ctor \<Rightarrow> bool" where
  "regexp_engine regexp \<longleftrightarrow> (\<forall>source test. simple_regexp source = Some test \<longrightarrow> regexp source = Some test)"

section \<open>Globs\<close>

text \<open>What a glob means: a run of characters for a star, one for a question mark, else the character itself.\<close>

fun glob_matches :: "string \<Rightarrow> string \<Rightarrow> bool" where
  "glob_matches [] s = (s = [])"
| "glob_matches (g # gs) s =
     (if g = CHR ''*'' then (\<exists>run rest. s = run @ rest \<and> list_all re_any run \<and> glob_matches gs rest)
      else (\<exists>x rest. s = x # rest \<and> (if g = CHR ''?'' then re_any x else lower_char x = lower_char g) \<and> glob_matches gs rest))"

definition glob_atom :: "char \<Rightarrow> re_atom" where
  "glob_atom c = (if c = CHR ''*'' then Re_Run else if c = CHR ''?'' then Re_Any else Re_Lit c)"

definition glob_char :: "char \<Rightarrow> string" where
  "glob_char c = (if c = CHR ''*'' then ''.*'' else if c = CHR ''?'' then ''.'' else if is_meta c then [CHR 0x5C, c] else [c])"

lemma meta_facts: "is_meta (CHR ''.'')" "is_meta (CHR ''*'')" "is_meta (CHR 0x5C)" "is_meta (CHR ''?'')"
  by (simp_all add: is_meta_def)

lemma glob_parts_shape:
  "\<exists>p ps. glob_parts s = p # ps \<and> CHR ''*'' \<notin> set p \<and> CHR ''?'' \<notin> set p"
proof (induction s)
  case (Cons c s)
  then show ?case by (auto split: list.splits)
qed simp

lemma plain_part: "CHR ''*'' \<notin> set p \<Longrightarrow> CHR ''?'' \<notin> set p \<Longrightarrow> glob_part p = escapeRegExp p"
  by (auto simp: glob_part_def)

lemma glob_body: "concat (map glob_part (glob_parts g)) = concat (map glob_char g)"
proof (induction g)
  case Nil
  then show ?case by (simp add: glob_part_def escapeRegExp_def)
next
  case (Cons c s)
  obtain p ps where p: "glob_parts s = p # ps" "CHR ''*'' \<notin> set p" "CHR ''?'' \<notin> set p"
    using glob_parts_shape by blast
  show ?case
  proof (cases "c = CHR ''*'' \<or> c = CHR ''?''")
    case True
    then show ?thesis using Cons by (auto simp: glob_part_def glob_char_def escapeRegExp_def)
  next
    case False
    then have "glob_part (c # p) = glob_char c @ glob_part p"
      using p(2,3) by (subst (1 2) plain_part) (auto simp: escapeRegExp_def glob_char_def)
    then show ?thesis using False Cons p by simp
  qed
qed

lemma parse_dot: "s = [] \<or> hd s \<noteq> CHR ''*'' \<Longrightarrow> parse_atoms (CHR ''.'' # s) = map_option ((#) Re_Any) (parse_atoms s)"
  by (cases s) auto

lemma glob_char_hd: "glob_char c \<noteq> [] \<and> hd (glob_char c) \<noteq> CHR ''*''"
  by (auto simp: glob_char_def is_meta_def)

lemma parse_glob_char:
  assumes "s = [] \<or> hd s \<noteq> CHR ''*''"
  shows "parse_atoms (glob_char c @ s) = map_option ((#) (glob_atom c)) (parse_atoms s)"
proof -
  consider "c = CHR ''*''" | "c = CHR ''?''" | "c \<noteq> CHR ''*''" "c \<noteq> CHR ''?''" "is_meta c"
    | "c \<noteq> CHR ''*''" "c \<noteq> CHR ''?''" "\<not> is_meta c" by blast
  then show ?thesis
  proof cases
    case 2
    then show ?thesis using parse_dot [OF assms] by (simp add: glob_char_def glob_atom_def)
  qed (use meta_facts in \<open>auto simp: glob_char_def glob_atom_def\<close>)
qed

lemma parse_glob_body: "parse_atoms (concat (map glob_char g)) = Some (map glob_atom g)"
proof (induction g)
  case (Cons c g)
  have "concat (map glob_char g) = [] \<or> hd (concat (map glob_char g)) \<noteq> CHR ''*''"
    using glob_char_hd by (cases g) simp_all
  from parse_glob_char [OF this, of c] Cons show ?case by simp
qed simp

lemma match_run:
  "match_atoms (Re_Run # as) s \<longleftrightarrow> (\<exists>run rest. s = run @ rest \<and> list_all re_any run \<and> match_atoms as rest)"
proof (induction s)
  case (Cons x xs)
  have "match_atoms (Re_Run # as) (x # xs) \<longleftrightarrow>
      match_atoms as (x # xs) \<or> re_any x \<and> (\<exists>run rest. xs = run @ rest \<and> list_all re_any run \<and> match_atoms as rest)"
    using Cons by simp
  also have "\<dots> \<longleftrightarrow> (\<exists>run rest. x # xs = run @ rest \<and> list_all re_any run \<and> match_atoms as rest)" (is "_ \<longleftrightarrow> ?R")
  proof
    assume "match_atoms as (x # xs) \<or> re_any x \<and> (\<exists>run rest. xs = run @ rest \<and> list_all re_any run \<and> match_atoms as rest)"
    then show ?R
    proof
      assume "match_atoms as (x # xs)"
      then have "x # xs = [] @ x # xs \<and> list_all re_any [] \<and> match_atoms as (x # xs)" by simp
      then show ?R by blast
    next
      assume "re_any x \<and> (\<exists>run rest. xs = run @ rest \<and> list_all re_any run \<and> match_atoms as rest)"
      then obtain run rest where "x # xs = (x # run) @ rest \<and> list_all re_any (x # run) \<and> match_atoms as rest" by auto
      then show ?R by blast
    qed
  next
    assume ?R
    then obtain run rest where "x # xs = run @ rest" "list_all re_any run" "match_atoms as rest" by blast
    then show "match_atoms as (x # xs) \<or> re_any x \<and> (\<exists>run rest. xs = run @ rest \<and> list_all re_any run \<and> match_atoms as rest)"
      by (cases run) auto
  qed
  finally show ?case .
qed simp

lemma match_glob_atoms: "match_atoms (map glob_atom g) s = glob_matches g s"
proof (induction g arbitrary: s)
  case (Cons c g)
  then show ?case
    by (cases "c = CHR ''*''") (auto simp: glob_atom_def match_run split: list.splits simp del: match_atoms.simps(4))
qed simp

lemma simple_glob: "compileGlob simple_regexp g = Some (glob_matches g)"
  by (auto simp: compileGlob_def simple_regexp_def anchored_def glob_body parse_glob_body match_glob_atoms butlast_append)

section \<open>Properties\<close>

definition activity_matches :: "regexp_ctor \<Rightarrow> string \<Rightarrow> matchable_activity \<Rightarrow> bool" where
  "activity_matches regexp candidate a \<longleftrightarrow>
     (case compileMatcher regexp (ma_matchType a) (ma_matcher a) of None \<Rightarrow> False | Some test \<Rightarrow> test candidate)"

text \<open>
  A glob matcher compiles on every engine and accepts exactly the names the glob describes: its
  literal characters are escaped, so none of them acts as a regular expression operator.
\<close>

theorem glob_matcher_exact:
  assumes "regexp_engine regexp"
  shows "compileMatcher regexp Glob g = Some (glob_matches g)"
proof -
  have "regexp source = Some test" if "simple_regexp source = Some test" for source test
    using assms that by (simp add: regexp_engine_def)
  then show ?thesis using simple_glob [of g] by (simp add: compileMatcher_def compileGlob_def)
qed

lemma glob_matcher_exact_witness:
  "compileMatcher simple_regexp Glob ''c++*'' = Some (glob_matches ''c++*'')"
  by (rule glob_matcher_exact) (simp add: regexp_engine_def)

lemma glob_sample: "glob_matches ''c++*'' ''C++ Builder''" "\<not> glob_matches ''c++*'' ''cccx''"
  unfolding match_glob_atoms [symmetric] by code_simp+

lemma compile_one_Some:
  "compile_one regexp a = Some m \<Longrightarrow> cm_test m candidate = activity_matches regexp candidate a
    \<and> cm_id m = ma_id a \<and> cm_isExact m = (ma_matchType a = Exact)"
  by (auto simp: compile_one_def activity_matches_def)

lemma compile_one_None: "compile_one regexp a = None \<Longrightarrow> \<not> activity_matches regexp candidate a"
  by (auto simp: compile_one_def activity_matches_def)

lemma resolve_scan_find:
  "resolve_scan candidate fp ms =
     (case List.find (\<lambda>m. cm_isExact m \<and> cm_test m candidate) ms of
        Some m \<Rightarrow> Some (cm_id m)
      | None \<Rightarrow> (case fp of Some i \<Rightarrow> Some i | None \<Rightarrow> map_option cm_id (List.find (\<lambda>m. cm_test m candidate) ms)))"
  by (induction ms arbitrary: fp) (auto split: option.splits)

lemma find_sorted_Min:
  assumes "sorted (map f xs)" "List.find P xs = Some x"
  shows "f x = Min (f ` {y \<in> set xs. P y})"
proof -
  from find_split [OF assms(2)] obtain us vs where xs: "xs = us @ x # vs" "P x" "\<forall>u \<in> set us. \<not> P u" by blast
  have "f x \<le> f y" if "y \<in> set xs" "P y" for y using assms(1) xs that by (auto simp: sorted_append)
  then show ?thesis using xs by (intro Min_eqI [symmetric]) auto
qed

lemma compiled_set:
  "f ` {m \<in> set (compileMatchers regexp activities). P m} =
     (\<Union>a \<in> set activities. case compile_one regexp a of None \<Rightarrow> {} | Some m \<Rightarrow> if P m then {f m} else {})"
  by (auto simp: compileMatchers_def List.map_filter_def image_iff split: option.splits if_splits) force+

lemma compiled_ids:
  assumes "\<And>a m. compile_one regexp a = Some m \<Longrightarrow> P m = (Q a \<and> activity_matches regexp candidate a)"
  shows "cm_id ` {m \<in> set (compileMatchers regexp activities). P m}
    = ma_id ` {a \<in> set activities. Q a \<and> activity_matches regexp candidate a}"
proof -
  have "(case compile_one regexp a of None \<Rightarrow> {} | Some m \<Rightarrow> if P m then {cm_id m} else {})
      = (if Q a \<and> activity_matches regexp candidate a then {ma_id a} else {})" for a
    using assms [of a] compile_one_Some [of regexp a] compile_one_None [of regexp a candidate]
    by (auto split: option.splits)
  then show ?thesis unfolding compiled_set by auto
qed

text \<open>
  A name resolves to the lowest activity id among the exact matchers that accept it, else to the
  lowest among the patterns that do; an uncompilable pattern never matches, and with no match at
  all the name resolves to nothing.
\<close>

theorem resolveActivityId_precedence:
  "resolveActivityId (compileMatchers regexp activities) candidate =
     (let hits = filter (activity_matches regexp candidate) activities;
          exact = filter (\<lambda>a. ma_matchType a = Exact) hits
      in if exact \<noteq> [] then Some (Min (ma_id ` set exact))
         else if hits \<noteq> [] then Some (Min (ma_id ` set hits)) else None)"
proof -
  let ?ms = "compileMatchers regexp activities"
  let ?E = "\<lambda>m. cm_isExact m \<and> cm_test m candidate" and ?T = "\<lambda>m. cm_test m candidate"
  have sorted: "sorted (map cm_id ?ms)" by (simp add: compileMatchers_def)
  have E: "cm_id ` {m \<in> set ?ms. ?E m} = ma_id ` {a \<in> set activities. ma_matchType a = Exact \<and> activity_matches regexp candidate a}"
    by (rule compiled_ids) (auto dest: compile_one_Some)
  have T: "cm_id ` {m \<in> set ?ms. ?T m} = ma_id ` {a \<in> set activities. True \<and> activity_matches regexp candidate a}"
    by (rule compiled_ids) (auto dest: compile_one_Some)
  have none: "List.find P ?ms = None \<longleftrightarrow> cm_id ` {m \<in> set ?ms. P m} = {}" for P
    by (auto simp: find_None_iff)
  show ?thesis
  proof (cases "List.find ?E ?ms")
    case (Some m)
    then have "cm_id m = Min (ma_id ` {a \<in> set activities. ma_matchType a = Exact \<and> activity_matches regexp candidate a})"
      using find_sorted_Min [OF sorted Some] E by simp
    moreover have "cm_id ` {m \<in> set ?ms. ?E m} \<noteq> {}" using Some none [of ?E] by simp
    ultimately show ?thesis using Some E
      by (auto simp: resolveActivityId_def resolve_scan_find Let_def filter_empty_conv conj_commute)
  next
    case None
    then have no: "{a \<in> set activities. ma_matchType a = Exact \<and> activity_matches regexp candidate a} = {}"
      using none [of ?E] E by simp
    show ?thesis
    proof (cases "List.find ?T ?ms")
      case (Some m)
      then have "cm_id m = Min (ma_id ` {a \<in> set activities. activity_matches regexp candidate a})"
        using find_sorted_Min [OF sorted Some] T by simp
      moreover have "{a \<in> set activities. activity_matches regexp candidate a} \<noteq> {}" using Some none [of ?T] T by simp
      ultimately show ?thesis using None Some no
        by (auto simp: resolveActivityId_def resolve_scan_find Let_def filter_empty_conv)
    next
      case n: None
      then have "{a \<in> set activities. activity_matches regexp candidate a} = {}" using none [of ?T] T by simp
      then show ?thesis using None n no
        by (auto simp: resolveActivityId_def resolve_scan_find Let_def filter_empty_conv)
    qed
  qed
qed

end
