(* ===== verification/Shell_Command.thy ===== *)
theory Shell_Command
  imports Activity_Matcher
begin

text \<open>
  Command lines that leave the dashboard: \<open>transport/ssh/shell-quote.ts\<close>, which renders an argument
  vector as one command string for the remote login shell, and \<open>enforcement/force-close-pkill.ts\<close>,
  which builds the \<open>pkill\<close> fallback of a force-close. The remote shell is a parameter: \<open>posix_shell\<close>
  says that it splits into words, as POSIX documents it, a command made of plain characters, blanks,
  single quotes and backslashes; nothing is said of other commands.
\<close>

section \<open>Quoting\<close>

definition replace_quote :: "string \<Rightarrow> string" where
  "replace_quote s = concat (map (\<lambda>c. if c = CHR 0x27 then [CHR 0x27, CHR 0x5C, CHR 0x27, CHR 0x27] else [c]) s)"

definition quoteArg :: "string \<Rightarrow> string" where
  "quoteArg arg =
     (if length arg = 0 then [CHR 0x27, CHR 0x27] else CHR 0x27 # replace_quote arg @ [CHR 0x27])"

datatype quote_error = RangeError

definition shellQuoteCommand :: "string list \<Rightarrow> quote_error + string" where
  "shellQuoteCommand argv = (if length argv = 0 then Inl RangeError else Inr (js_join '' '' (map quoteArg argv)))"

section \<open>The \<open>pkill\<close> fallback\<close>

text \<open>The metacharacters of an extended regular expression are those of \<open>is_meta\<close>.\<close>

definition escapeEre :: "string \<Rightarrow> string" where
  "escapeEre literal = concat (map (\<lambda>c. if is_meta c then [CHR 0x5C, c] else [c]) literal)"

definition globToEre :: "string \<Rightarrow> string" where
  "globToEre glob =
     concat (map (\<lambda>c. if c = CHR ''*'' then ''.*'' else if c = CHR ''?'' then ''.'' else escapeEre [c]) glob)"

definition buildPkillArgv :: "string \<Rightarrow> string \<Rightarrow> match_type \<Rightarrow> string list option" where
  "buildPkillArgv osUserRef matcher matchType =
     (if length matcher = 0 then None
      else let base = [''pkill'', ''-u'', osUserRef] in
        Some (case matchType of
            Exact \<Rightarrow> base @ [''-x'', escapeEre matcher]
          | Substring \<Rightarrow> base @ [''-f'', escapeEre matcher]
          | Glob \<Rightarrow> base @ [''-f'', globToEre matcher]
          | Regex \<Rightarrow> base @ [''-f'', matcher]))"

section \<open>The remote shell\<close>

text \<open>The words of a command, the word under construction first; no answer for other syntax.\<close>

definition plain_char :: "char \<Rightarrow> bool" where
  "plain_char c \<longleftrightarrow> (let n = (of_char c :: nat) in
     48 \<le> n \<and> n \<le> 57 \<or> 65 \<le> n \<and> n \<le> 90 \<or> 97 \<le> n \<and> n \<le> 122) \<or> c \<in> set ''_-./,:+@%''"

definition more :: "string option \<Rightarrow> string \<Rightarrow> string option" where
  "more word s = Some (nullish word [] @ s)"

fun sh_words :: "string option \<Rightarrow> string \<Rightarrow> string list option" and sh_quoted :: "string option \<Rightarrow> string \<Rightarrow> string list option" where
  "sh_words word [] = Some (case word of None \<Rightarrow> [] | Some w \<Rightarrow> [w])"
| "sh_words word (c # s) =
     (if c = CHR '' '' then (case word of None \<Rightarrow> sh_words None s | Some w \<Rightarrow> map_option ((#) w) (sh_words None s))
      else if c = CHR 0x27 then sh_quoted (more word []) s
      else if c = CHR 0x5C
      then (case s of [] \<Rightarrow> None | e # s' \<Rightarrow> if e = CHR 0x0A then sh_words word s' else sh_words (more word [e]) s')
      else if plain_char c then sh_words (more word [c]) s
      else None)"
| "sh_quoted word [] = None"
| "sh_quoted word (c # s) = (if c = CHR 0x27 then sh_words word s else sh_quoted (more word [c]) s)"

definition posix_shell :: "(string \<Rightarrow> string list option) \<Rightarrow> bool" where
  "posix_shell shell \<longleftrightarrow> (\<forall>command words. sh_words None command = Some words \<longrightarrow> shell command = Some words)"

lemma more_simps [simp]: "more (Some w) s = Some (w @ s)" "more None s = Some s" "more (more word s) t = more word (s @ t)"
  by (simp_all add: more_def)

lemma quoted_arg: "sh_quoted (Some w) (replace_quote arg @ CHR 0x27 # rest) = sh_words (Some (w @ arg)) rest"
  by (induction arg arbitrary: w) (simp_all add: replace_quote_def)

lemma words_quoteArg: "sh_words None (quoteArg arg @ rest) = sh_words (Some arg) rest"
  using quoted_arg [of "[]" arg rest] by (simp add: quoteArg_def replace_quote_def)

lemma words_join: "argv \<noteq> [] \<Longrightarrow> sh_words None (js_join '' '' (map quoteArg argv)) = Some argv"
proof (induction "'' ''" argv rule: js_join.induct)
  case (2 w)
  show ?case using words_quoteArg [of w "[]"] by simp
next
  case (3 w v vs)
  then show ?case using words_quoteArg [of w "CHR '' '' # js_join '' '' (map quoteArg (v # vs))"] by simp
qed simp

section \<open>Properties\<close>

text \<open>
  C36 Whatever the arguments hold, quotes, blanks, operators or newlines, the remote shell splits the
  quoted command into exactly the argument vector it was built from.
\<close>

theorem shell_quote_roundtrip:
  assumes "posix_shell shell" "shellQuoteCommand argv = Inr command"
  shows "shell command = Some argv"
  using assms words_join [of argv] by (auto simp: shellQuoteCommand_def posix_shell_def split: if_splits)

lemma shell_quote_roundtrip_witness:
  "\<exists>command. shellQuoteCommand [''pkill'', ''-f'', ''it'' @ CHR 0x27 # ''s; rm''] = Inr command
     \<and> sh_words None command = Some [''pkill'', ''-f'', ''it'' @ CHR 0x27 # ''s; rm'']"
proof -
  have "posix_shell (sh_words None)" by (simp add: posix_shell_def)
  moreover have "shellQuoteCommand [''pkill'', ''-f'', ''it'' @ CHR 0x27 # ''s; rm''] =
      Inr (js_join '' '' (map quoteArg [''pkill'', ''-f'', ''it'' @ CHR 0x27 # ''s; rm'']))"
    by (simp add: shellQuoteCommand_def)
  ultimately show ?thesis using shell_quote_roundtrip by blast
qed

section \<open>What the fallback's pattern matches\<close>

text \<open>The atoms of an extended regular expression: here the dot matches every character and case counts.\<close>

fun ere_matches :: "re_atom list \<Rightarrow> string \<Rightarrow> bool" where
  "ere_matches [] s = (s = [])"
| "ere_matches (Re_Lit c # as) s = (case s of [] \<Rightarrow> False | x # xs \<Rightarrow> x = c \<and> ere_matches as xs)"
| "ere_matches (Re_Any # as) s = (case s of [] \<Rightarrow> False | x # xs \<Rightarrow> ere_matches as xs)"
| "ere_matches (Re_Run # as) s =
     (ere_matches as s \<or> (case s of [] \<Rightarrow> False | x # xs \<Rightarrow> ere_matches (Re_Run # as) xs))"

definition simple_ere :: "string \<Rightarrow> (string \<Rightarrow> bool) option" where
  "simple_ere source = map_option ere_matches (parse_atoms source)"

text \<open>A matcher of whole strings that agrees with it wherever it answers.\<close>

definition ere_engine :: "(string \<Rightarrow> (string \<Rightarrow> bool) option) \<Rightarrow> bool" where
  "ere_engine ere \<longleftrightarrow> (\<forall>source test. simple_ere source = Some test \<longrightarrow> ere source = Some test)"

fun glob_exact :: "string \<Rightarrow> string \<Rightarrow> bool" where
  "glob_exact [] s = (s = [])"
| "glob_exact (g # gs) s =
     (if g = CHR ''*'' then \<exists>run rest. s = run @ rest \<and> glob_exact gs rest
      else \<exists>x rest. s = x # rest \<and> (g = CHR ''?'' \<or> x = g) \<and> glob_exact gs rest)"

lemma globToEre_chars: "globToEre g = concat (map glob_char g)"
  unfolding globToEre_def by (rule arg_cong [of _ _ concat]) (auto simp: escapeEre_def glob_char_def)

lemma parse_escaped: "parse_atoms (escapeEre m) = Some (map Re_Lit m)"
  by (induction m) (auto simp: escapeEre_def is_meta_def)

lemma ere_literal: "ere_matches (map Re_Lit m) s \<longleftrightarrow> s = m"
  by (induction m arbitrary: s) (auto split: list.splits)

lemma ere_run: "ere_matches (Re_Run # as) s \<longleftrightarrow> (\<exists>run rest. s = run @ rest \<and> ere_matches as rest)"
proof (induction s)
  case (Cons x xs)
  have "ere_matches (Re_Run # as) (x # xs) \<longleftrightarrow>
      ere_matches as (x # xs) \<or> (\<exists>run rest. xs = run @ rest \<and> ere_matches as rest)"
    using Cons by simp
  also have "\<dots> \<longleftrightarrow> (\<exists>run rest. x # xs = run @ rest \<and> ere_matches as rest)"
    by (metis append_Cons append_Nil neq_Nil_conv list.inject)
  finally show ?case .
qed simp

lemma ere_glob: "ere_matches (map glob_atom g) s \<longleftrightarrow> glob_exact g s"
proof (induction g arbitrary: s)
  case (Cons c g)
  consider "c = CHR ''*''" | "c = CHR ''?''" | "c \<noteq> CHR ''*''" "c \<noteq> CHR ''?''" by blast
  then show ?case
  proof cases
    case 1
    then show ?thesis using Cons by (simp only: list.map glob_atom_def if_True ere_run glob_exact.simps simp_thms)
  qed (use Cons in \<open>auto simp: glob_atom_def split: list.splits\<close>)
qed simp

text \<open>
  The fallback is scoped to the supervised account and its pattern means what the matcher means:
  an exact or substring matcher becomes a pattern for exactly that text, with no character left that
  the pattern language reads, and a glob a pattern for exactly the texts of the glob, case included.
\<close>

theorem pkill_pattern_exact:
  assumes "ere_engine ere" "matcher \<noteq> []"
  shows "\<exists>flag pattern. buildPkillArgv ref matcher matchType = Some [''pkill'', ''-u'', ref, flag, pattern]
     \<and> flag = (if matchType = Exact then ''-x'' else ''-f'')
     \<and> (case matchType of
          Regex \<Rightarrow> pattern = matcher
        | Glob \<Rightarrow> \<exists>test. ere pattern = Some test \<and> (\<forall>s. test s \<longleftrightarrow> glob_exact matcher s)
        | _ \<Rightarrow> \<exists>test. ere pattern = Some test \<and> (\<forall>s. test s \<longleftrightarrow> s = matcher))"
proof -
  have "simple_ere (escapeEre matcher) = Some (ere_matches (map Re_Lit matcher))"
    and "simple_ere (globToEre matcher) = Some (ere_matches (map glob_atom matcher))"
    by (simp_all add: simple_ere_def parse_escaped globToEre_chars parse_glob_body)
  then show ?thesis using assms
    by (cases matchType) (auto simp: buildPkillArgv_def ere_engine_def ere_literal ere_glob)
qed

lemma pkill_pattern_exact_witness:
  "buildPkillArgv ''1000'' ''c++'' Exact = Some [''pkill'', ''-u'', ''1000'', ''-x'', ''c'' @ [CHR 0x5C] @ ''+'' @ [CHR 0x5C] @ ''+'']"
proof -
  have "ere_engine simple_ere" by (simp add: ere_engine_def)
  from pkill_pattern_exact [OF this, of "''c++''" "''1000''" Exact]
  obtain pattern where "buildPkillArgv ''1000'' ''c++'' Exact = Some [''pkill'', ''-u'', ''1000'', ''-x'', pattern]" by auto
  moreover have "escapeEre ''c++'' = ''c'' @ [CHR 0x5C] @ ''+'' @ [CHR 0x5C] @ ''+''" by code_simp
  ultimately show ?thesis by (simp add: buildPkillArgv_def)
qed

text \<open>
  A matcher that starts with a dash is passed where an option may stand: no \<open>--\<close> precedes the
  pattern and the dash is not escaped, so the matcher \<open>-uroot\<close> adds the argument \<open>-uroot\<close>.
\<close>

theorem pkill_matcher_may_be_an_option:
  "\<exists>flag. buildPkillArgv ref ''-uroot'' matchType = Some [''pkill'', ''-u'', ref, flag, ''-uroot'']"
proof -
  have "escapeEre ''-uroot'' = ''-uroot''" "globToEre ''-uroot'' = ''-uroot''" by code_simp+
  then show ?thesis by (cases matchType) (simp_all add: buildPkillArgv_def)
qed

end
