(* ===== verification/Ssh_Transport.thy ===== *)
theory Ssh_Transport
  imports Shell_Command
begin

text \<open>
  The SSH facade: the error taxonomy (\<open>transport/ssh/errors.ts\<close>), the execution of one command over
  a channel (\<open>exec-buffer.ts\<close>) and the pooled transport (\<open>facade.ts\<close>). A channel is the list of the
  events it delivers, in order, the timer's included; the buffer is a machine that reads them. The
  chain of causes of an error may be cyclic: it is a codatatype. Output is text, not bytes. A
  connection is named by the number of its client object.
\<close>

section \<open>Errors\<close>

record target_ref =
  ref_host :: string
  ref_port :: int
  ref_username :: string

definition formatTarget :: "target_ref \<Rightarrow> string" where
  "formatTarget t = ref_username t @ ''@'' @ ref_host t @ '':'' @ show_int (ref_port t)"

datatype unreachable_reason = Dns | Connection_Refused | Timed_Out | Auth | Handshake | Unknown_Reason

record exec_result =
  er_stdout :: string
  er_stderr :: string
  er_code :: "int option"
  er_signal :: "string option"

datatype ssh_error =
    SshUnreachableError target_ref unreachable_reason
  | SshCommandError target_ref "string list" exec_result
  | SshParseError target_ref "string list" string
  | SshExecTimeoutError target_ref "string list" int
  | Unexpected string

fun retriable :: "ssh_error \<Rightarrow> bool" where
  "retriable (SshUnreachableError _ _) = True"
| "retriable (SshCommandError _ _ _) = False"
| "retriable (SshParseError _ _ _) = False"
| "retriable (SshExecTimeoutError _ _ _) = True"
| "retriable (Unexpected _) = False"

definition exit_status :: "exec_result \<Rightarrow> string" where
  "exit_status r = (case er_code r of
      Some c \<Rightarrow> ''exit code '' @ show_int c
    | None \<Rightarrow> ''signal '' @ (case er_signal r of Some s \<Rightarrow> s | None \<Rightarrow> ''null''))"

fun ssh_message :: "ssh_error \<Rightarrow> string" where
  "ssh_message (SshUnreachableError t _) = ''SSH host unreachable: '' @ formatTarget t"
| "ssh_message (SshCommandError t argv r) = ''Remote command failed ('' @ exit_status r @ '') on '' @ formatTarget t @ '': '' @ hd argv"
| "ssh_message (SshParseError t argv _) = ''Could not parse stdout of '' @ hd argv @ '' on '' @ formatTarget t"
| "ssh_message (SshExecTimeoutError t argv ms) =
     ''Remote command timed out after '' @ show_int ms @ ''ms on '' @ formatTarget t @ '': '' @ hd argv"
| "ssh_message (Unexpected m) = m"

text \<open>A link of a chain of causes: a value that is no object, or an object with the fields the code reads.\<close>

codatatype error_cause =
    Cause_Value string
  | Cause_Object (cause_code: "string option") (cause_level: "string option") (cause_syscall: "string option")
      (cause_message: "string option") (cause_next: "error_cause option")

definition present :: "string option list \<Rightarrow> string list" where
  "present = List.map_filter id"

primrec cause_parts :: "nat \<Rightarrow> error_cause option \<Rightarrow> string list" where
  "cause_parts 0 c = []"
| "cause_parts (Suc n) c =
     (case c of
        None \<Rightarrow> []
      | Some (Cause_Value v) \<Rightarrow> [v]
      | Some (Cause_Object code level syscall message rest) \<Rightarrow> present [code, level, syscall, message] @ cause_parts n rest)"

definition errorSignature :: "error_cause option \<Rightarrow> string" where
  "errorSignature c = toLowerCase (js_join '' | '' (cause_parts 8 c))"

definition mentions :: "string \<Rightarrow> string list \<Rightarrow> bool" where
  "mentions sig words \<longleftrightarrow> list_ex (\<lambda>w. sublist w sig) words"

definition classifySshUnreachableReason :: "error_cause option \<Rightarrow> unreachable_reason" where
  "classifySshUnreachableReason c =
     (if c = None then Unknown_Reason
      else let sig = errorSignature c in
        if mentions sig [''enotfound'', ''eai_again'', ''getaddrinfo''] then Dns
        else if mentions sig [''econnrefused''] then Connection_Refused
        else if mentions sig [''etimedout'', ''ehostunreach'', ''enetunreach'', ''client-timeout'', ''timed out''] then Timed_Out
        else if mentions sig [''client-authentication'', ''authentication methods failed'', ''authentication failed''] then Auth
        else if mentions sig [''handshake'', ''key exchange'', ''protocol''] then Handshake
        else Unknown_Reason)"

definition new_SshUnreachableError :: "target_ref \<Rightarrow> error_cause option \<Rightarrow> ssh_error" where
  "new_SshUnreachableError t c = SshUnreachableError t (classifySshUnreachableReason c)"

section \<open>One command\<close>

datatype channel_event =
    Exec_Failed error_cause
  | Channel_Open
  | Stdout_Data string
  | Stderr_Data string
  | Exited "int option" "string option"
  | Closed
  | Timer_Fired

record exec_options =
  eo_ref :: target_ref
  eo_argv :: "string list"
  eo_timeoutMs :: int

record exec_buffer =
  eb_settled :: "(ssh_error + exec_result) option"
  eb_open :: bool
  eb_timer :: bool
  eb_stdoutChunks :: "string list"
  eb_stderrChunks :: "string list"
  eb_exited :: bool
  eb_code :: "int option"
  eb_signal :: "string option"
  eb_destroyed :: bool

definition new_ExecBuffer :: exec_buffer where
  "new_ExecBuffer = \<lparr>eb_settled = None, eb_open = False, eb_timer = False, eb_stdoutChunks = [], eb_stderrChunks = [],
     eb_exited = False, eb_code = None, eb_signal = None, eb_destroyed = False\<rparr>"

text \<open>\<open>finish\<close>: only the first settlement counts, and it clears the timer.\<close>

definition eb_finish :: "ssh_error + exec_result \<Rightarrow> exec_buffer \<Rightarrow> exec_buffer" where
  "eb_finish r b = (if eb_settled b \<noteq> None then b else b\<lparr>eb_settled := Some r, eb_timer := False\<rparr>)"

fun eb_step :: "exec_options \<Rightarrow> exec_buffer \<Rightarrow> channel_event \<Rightarrow> exec_buffer" where
  "eb_step opts b (Exec_Failed err) =
     (if eb_open b then b else eb_finish (Inl (new_SshUnreachableError (eo_ref opts) (Some err))) b)"
| "eb_step opts b Channel_Open = (if eb_open b then b else b\<lparr>eb_open := True, eb_timer := eo_timeoutMs opts > 0\<rparr>)"
| "eb_step opts b (Stdout_Data chunk) = (if eb_open b then b\<lparr>eb_stdoutChunks := eb_stdoutChunks b @ [chunk]\<rparr> else b)"
| "eb_step opts b (Stderr_Data chunk) = (if eb_open b then b\<lparr>eb_stderrChunks := eb_stderrChunks b @ [chunk]\<rparr> else b)"
| "eb_step opts b (Exited code signal) =
     (if eb_open b then b\<lparr>eb_exited := True, eb_code := code, eb_signal := signal\<rparr> else b)"
| "eb_step opts b Closed =
     (if \<not> eb_open b then b
      else if \<not> eb_exited b then eb_finish (Inl (new_SshUnreachableError (eo_ref opts) None)) b
      else eb_finish (Inr \<lparr>er_stdout = concat (eb_stdoutChunks b), er_stderr = concat (eb_stderrChunks b),
                            er_code = eb_code b, er_signal = eb_signal b\<rparr>) b)"
| "eb_step opts b Timer_Fired =
     (if eb_timer b
      then if eb_settled b = None
        then eb_finish (Inl (SshExecTimeoutError (eo_ref opts) (eo_argv opts) (eo_timeoutMs opts))) (b\<lparr>eb_destroyed := True\<rparr>)
        else b
      else b)"

definition eb_run :: "exec_options \<Rightarrow> channel_event list \<Rightarrow> exec_buffer" where
  "eb_run opts events = foldl (eb_step opts) new_ExecBuffer events"

section \<open>The pooled transport\<close>

record ssh_credentials =
  cr_privateKey :: string
  cr_passphrase :: "string option"
  cr_port :: "int option"

record dial_target =
  dt_host :: string
  dt_port :: "int option"
  dt_username :: string
  dt_privateKey :: string
  dt_passphrase :: "string option"

record resolved_target =
  rt_key :: string
  rt_ref :: target_ref

definition resolve_dial :: "dial_target \<Rightarrow> resolved_target" where
  "resolve_dial t =
     (let port = nullish (dt_port t) 22 in
      \<lparr>rt_key = dt_username t @ ''@'' @ dt_host t @ '':'' @ show_int port,
       rt_ref = \<lparr>ref_host = dt_host t, ref_port = port, ref_username = dt_username t\<rparr>\<rparr>)"

text \<open>The connections by key; the clients made so far with the key each was made for, and those ended.\<close>

record ssh_pool =
  po_connections :: "(string \<times> nat) list"
  po_clients :: "string list"
  po_ended :: "nat list"

definition pool_connect :: "ssh_pool \<Rightarrow> string \<Rightarrow> ssh_pool \<times> nat" where
  "pool_connect p key =
     (case map_of (po_connections p) key of
        Some c \<Rightarrow> (p, c)
      | None \<Rightarrow> let c = length (po_clients p) in
          (p\<lparr>po_connections := AList.update key c (po_connections p), po_clients := po_clients p @ [key]\<rparr>, c))"

definition pool_forget :: "ssh_pool \<Rightarrow> string \<Rightarrow> ssh_pool" where
  "pool_forget p key = p\<lparr>po_connections := AList.delete key (po_connections p)\<rparr>"

text \<open>The \<open>error\<close> and \<open>close\<close> listeners of a client drop the key it was made for.\<close>

definition pool_lost :: "ssh_pool \<Rightarrow> nat \<Rightarrow> ssh_pool" where
  "pool_lost p c = pool_forget p (po_clients p ! c)"

definition pool_dispose :: "ssh_pool \<Rightarrow> string \<Rightarrow> ssh_pool" where
  "pool_dispose p key =
     (case map_of (po_connections p) key of
        None \<Rightarrow> p
      | Some c \<Rightarrow> (pool_forget p key)\<lparr>po_ended := po_ended p @ [c]\<rparr>)"

definition pool_disposeAll :: "ssh_pool \<Rightarrow> ssh_pool" where
  "pool_disposeAll p = p\<lparr>po_connections := [], po_ended := po_ended p @ map snd (po_connections p)\<rparr>"

text \<open>
  A command on the pool: what the connection attempt and the channel do is a parameter, an action on
  a world of its own. The command string is quoted before the connection is asked for.
\<close>

type_synonym 'w ssh_peer = "nat \<Rightarrow> string \<Rightarrow> 'w \<Rightarrow> ((error_cause + channel_event list) \<times> 'w)"

definition ssh_exec ::
    "'w ssh_peer \<Rightarrow> dial_target \<Rightarrow> string list \<Rightarrow> int \<Rightarrow> ssh_pool \<times> 'w \<Rightarrow> (ssh_error + exec_result) option \<times> ssh_pool \<times> 'w" where
  "ssh_exec peer target argv timeoutMs s =
     (let resolved = resolve_dial target in
      case shellQuoteCommand argv of
        Inl RangeError \<Rightarrow> (Some (Inl (Unexpected ''RangeError'')), s)
      | Inr command \<Rightarrow>
          (case pool_connect (fst s) (rt_key resolved) of (pool, c) \<Rightarrow>
           case peer c command (snd s) of
             (Inl cause, w) \<Rightarrow>
               (Some (Inl (new_SshUnreachableError (rt_ref resolved) (Some cause))), pool_lost pool c, w)
           | (Inr events, w) \<Rightarrow>
               (case eb_settled (eb_run \<lparr>eo_ref = rt_ref resolved, eo_argv = argv, eo_timeoutMs = timeoutMs\<rparr> events) of
                  Some (Inl (SshUnreachableError t reason)) \<Rightarrow>
                    (Some (Inl (SshUnreachableError t reason)), pool_forget pool (rt_key resolved), w)
                | outcome \<Rightarrow> (outcome, pool, w))))"

definition check_exit :: "dial_target \<Rightarrow> string list \<Rightarrow> ssh_error + exec_result \<Rightarrow> ssh_error + exec_result" where
  "check_exit target argv outcome =
     bindE outcome (\<lambda>r. if er_code r \<noteq> Some 0 then Inl (SshCommandError (rt_ref (resolve_dial target)) argv r) else Inr r)"

definition parse_stdout :: "dial_target \<Rightarrow> string list \<Rightarrow> (string \<Rightarrow> 'a option) \<Rightarrow> ssh_error + exec_result \<Rightarrow> ssh_error + 'a" where
  "parse_stdout target argv schema outcome =
     bindE outcome (\<lambda>r. case schema (er_stdout r) of
        None \<Rightarrow> Inl (SshParseError (rt_ref (resolve_dial target)) argv (er_stdout r))
      | Some v \<Rightarrow> Inr v)"

definition ssh_execChecked ::
    "'w ssh_peer \<Rightarrow> dial_target \<Rightarrow> string list \<Rightarrow> int \<Rightarrow> ssh_pool \<times> 'w \<Rightarrow> (ssh_error + exec_result) option \<times> ssh_pool \<times> 'w" where
  "ssh_execChecked peer target argv timeoutMs s =
     (case ssh_exec peer target argv timeoutMs s of (outcome, s') \<Rightarrow> (map_option (check_exit target argv) outcome, s'))"

definition ssh_execAndParse ::
    "'w ssh_peer \<Rightarrow> (string \<Rightarrow> 'a option) \<Rightarrow> dial_target \<Rightarrow> string list \<Rightarrow> int \<Rightarrow> ssh_pool \<times> 'w
      \<Rightarrow> (ssh_error + 'a) option \<times> ssh_pool \<times> 'w" where
  "ssh_execAndParse peer schema target argv timeoutMs s =
     (case ssh_execChecked peer target argv timeoutMs s of
        (outcome, s') \<Rightarrow> (map_option (parse_stdout target argv schema) outcome, s'))"


section \<open>The outcome of a command\<close>

definition decisive :: "exec_options \<Rightarrow> channel_event \<Rightarrow> bool" where
  "decisive opts e \<longleftrightarrow> e = Closed \<or> e = Timer_Fired \<and> eo_timeoutMs opts > 0"

definition stdout_of :: "channel_event list \<Rightarrow> string" where
  "stdout_of es = concat (map (\<lambda>e. case e of Stdout_Data c \<Rightarrow> c | _ \<Rightarrow> []) es)"

definition stderr_of :: "channel_event list \<Rightarrow> string" where
  "stderr_of es = concat (map (\<lambda>e. case e of Stderr_Data c \<Rightarrow> c | _ \<Rightarrow> []) es)"

definition exits :: "channel_event list \<Rightarrow> (int option \<times> string option) list" where
  "exits es = concat (map (\<lambda>e. case e of Exited c s \<Rightarrow> [(c, s)] | _ \<Rightarrow> []) es)"

lemma event_sums [simp]:
  "stdout_of [] = []" "stderr_of [] = []" "exits [] = []"
  "stdout_of (es @ [e]) = stdout_of es @ (case e of Stdout_Data c \<Rightarrow> c | _ \<Rightarrow> [])"
  "stderr_of (es @ [e]) = stderr_of es @ (case e of Stderr_Data c \<Rightarrow> c | _ \<Rightarrow> [])"
  "exits (es @ [e]) = exits es @ (case e of Exited c s \<Rightarrow> [(c, s)] | _ \<Rightarrow> [])"
  by (simp_all add: stdout_of_def stderr_of_def exits_def)

definition collecting :: "exec_options \<Rightarrow> channel_event list \<Rightarrow> exec_buffer \<Rightarrow> bool" where
  "collecting opts es b \<longleftrightarrow> eb_settled b = None \<and> eb_open b \<and> (eb_timer b \<longleftrightarrow> eo_timeoutMs opts > 0)
     \<and> concat (eb_stdoutChunks b) = stdout_of es \<and> concat (eb_stderrChunks b) = stderr_of es
     \<and> (eb_exited b \<longleftrightarrow> exits es \<noteq> []) \<and> (exits es \<noteq> [] \<longrightarrow> (eb_code b, eb_signal b) = last (exits es))"

lemma eb_run_snoc: "eb_run opts (es @ [e]) = eb_step opts (eb_run opts es) e"
  by (simp add: eb_run_def)

lemma collecting_run:
  "\<not> list_ex (decisive opts) es \<Longrightarrow> collecting opts es (eb_run opts (Channel_Open # es))"
proof (induction es rule: rev_induct)
  case Nil
  then show ?case by (simp add: eb_run_def collecting_def new_ExecBuffer_def)
next
  case (snoc e es)
  then have b: "collecting opts es (eb_run opts (Channel_Open # es))" and e: "\<not> decisive opts e" by auto
  have "eb_run opts (Channel_Open # es @ [e]) = eb_step opts (eb_run opts (Channel_Open # es)) e"
    using eb_run_snoc [of opts "Channel_Open # es" e] by simp
  with b e show ?case by (cases e) (auto simp: collecting_def decisive_def)
qed

lemma settled_stays: "eb_settled b = Some r \<Longrightarrow> eb_settled (eb_step opts b e) = Some r"
  by (cases e) (auto simp: eb_finish_def)

lemma settled_fold: "eb_settled b = Some r \<Longrightarrow> eb_settled (foldl (eb_step opts) b es) = Some r"
  by (induction es arbitrary: b) (auto simp: settled_stays)

text \<open>What the first decisive event of an open channel makes of a command, given the events before it.\<close>

definition settlement :: "exec_options \<Rightarrow> channel_event list \<Rightarrow> channel_event \<Rightarrow> ssh_error + exec_result" where
  "settlement opts before e =
     (if e = Timer_Fired then Inl (SshExecTimeoutError (eo_ref opts) (eo_argv opts) (eo_timeoutMs opts))
      else if exits before = [] then Inl (SshUnreachableError (eo_ref opts) Unknown_Reason)
      else Inr \<lparr>er_stdout = stdout_of before, er_stderr = stderr_of before,
                er_code = fst (last (exits before)), er_signal = snd (last (exits before))\<rparr>)"

lemma decisive_settles:
  assumes "\<not> list_ex (decisive opts) before" "decisive opts e"
  shows "eb_settled (eb_run opts (Channel_Open # before @ e # after)) = Some (settlement opts before e)"
proof -
  let ?b = "eb_run opts (Channel_Open # before)"
  have b: "collecting opts before ?b" by (rule collecting_run [OF assms(1)])
  have pair: "(eb_code ?b, eb_signal ?b) = last (exits before) \<Longrightarrow>
      eb_code ?b = fst (last (exits before)) \<and> eb_signal ?b = snd (last (exits before))"
    by (metis fst_conv snd_conv)
  have "eb_settled (eb_step opts ?b e) = Some (settlement opts before e)"
    using b assms(2) pair by (auto simp: settlement_def collecting_def decisive_def eb_finish_def new_SshUnreachableError_def
        classifySshUnreachableReason_def)
  then have "eb_settled (foldl (eb_step opts) (eb_step opts ?b e) after) = Some (settlement opts before e)"
    by (rule settled_fold)
  then show ?thesis by (simp add: eb_run_def)
qed

text \<open>The answer to the request for a channel: the channel, or an error.\<close>

definition answer_event :: "channel_event \<Rightarrow> bool" where
  "answer_event e \<longleftrightarrow> (case e of Channel_Open \<Rightarrow> True | Exec_Failed _ \<Rightarrow> True | _ \<Rightarrow> False)"

lemma unanswered_run: "list_all (\<lambda>e. \<not> answer_event e) es \<Longrightarrow> eb_run opts es = new_ExecBuffer"
proof (induction es rule: rev_induct)
  case (snoc e es)
  then show ?case by (cases e) (auto simp: eb_run_snoc new_ExecBuffer_def answer_event_def)
qed (simp add: eb_run_def)

lemma run_from_answer: "eb_run opts es = eb_run opts (dropWhile (\<lambda>e. \<not> answer_event e) es)"
proof -
  let ?early = "takeWhile (\<lambda>e. \<not> answer_event e) es" and ?rest = "dropWhile (\<lambda>e. \<not> answer_event e) es"
  have "eb_run opts ?early = new_ExecBuffer"
    by (rule unanswered_run) (auto simp: list_all_iff dest: set_takeWhileD)
  moreover have "eb_run opts (?early @ ?rest) = foldl (eb_step opts) (eb_run opts ?early) ?rest"
    unfolding eb_run_def by (rule foldl_append)
  ultimately show ?thesis by (simp only: takeWhile_dropWhile_id eb_run_def)
qed

text \<open>The outcome that a sequence of events calls for; \<open>None\<close> while nothing has decided it.\<close>

definition exec_outcome :: "exec_options \<Rightarrow> channel_event list \<Rightarrow> (ssh_error + exec_result) option" where
  "exec_outcome opts events =
     (case dropWhile (\<lambda>e. \<not> answer_event e) events of
        Exec_Failed err # _ \<Rightarrow> Some (Inl (SshUnreachableError (eo_ref opts) (classifySshUnreachableReason (Some err))))
      | Channel_Open # es \<Rightarrow>
          (case dropWhile (\<lambda>e. \<not> decisive opts e) es of
             [] \<Rightarrow> None
           | e # _ \<Rightarrow> Some (settlement opts (takeWhile (\<lambda>e. \<not> decisive opts e) es) e))
      | _ \<Rightarrow> None)"

lemma open_outcome:
  "eb_settled (eb_run opts (Channel_Open # es)) =
     (case dropWhile (\<lambda>e. \<not> decisive opts e) es of
        [] \<Rightarrow> None
      | e # _ \<Rightarrow> Some (settlement opts (takeWhile (\<lambda>e. \<not> decisive opts e) es) e))"
proof (cases "dropWhile (\<lambda>e. \<not> decisive opts e) es")
  case Nil
  then have "\<not> list_ex (decisive opts) es" by (auto simp: list_ex_iff)
  from collecting_run [OF this] show ?thesis unfolding Nil by (simp add: collecting_def)
next
  case (Cons e rest)
  have "\<not> list_ex (decisive opts) (takeWhile (\<lambda>e. \<not> decisive opts e) es)"
    by (auto simp: list_ex_iff dest: set_takeWhileD)
  moreover have "decisive opts e" using hd_dropWhile [of "\<lambda>e. \<not> decisive opts e" es] Cons by simp
  ultimately have "eb_settled (eb_run opts (Channel_Open # takeWhile (\<lambda>e. \<not> decisive opts e) es @ e # rest))
      = Some (settlement opts (takeWhile (\<lambda>e. \<not> decisive opts e) es) e)"
    by (rule decisive_settles)
  then show ?thesis using takeWhile_dropWhile_id [of "\<lambda>e. \<not> decisive opts e" es] by (simp add: Cons)
qed

lemma failed_outcome:
  "eb_settled (eb_run opts (Exec_Failed err # es)) =
     Some (Inl (SshUnreachableError (eo_ref opts) (classifySshUnreachableReason (Some err))))"
  unfolding eb_run_def foldl_Cons
  by (rule settled_fold) (simp add: new_ExecBuffer_def eb_finish_def new_SshUnreachableError_def)

lemma answered_outcome: "eb_settled (eb_run opts (dropWhile (\<lambda>e. \<not> answer_event e) events)) = exec_outcome opts events"
proof (cases "dropWhile (\<lambda>e. \<not> answer_event e) events")
  case Nil
  show ?thesis unfolding exec_outcome_def Nil by (simp add: eb_run_def new_ExecBuffer_def)
next
  case (Cons e rest)
  then have "answer_event e" using hd_dropWhile [of "\<lambda>e. \<not> answer_event e" events] by simp
  then consider "e = Channel_Open" | err where "e = Exec_Failed err" by (cases e) (auto simp: answer_event_def)
  then show ?thesis
    unfolding exec_outcome_def Cons
    by cases (simp_all only: open_outcome failed_outcome list.case channel_event.case)
qed

text \<open>
  C35 A command settles exactly as its events call for, and once. An error in answer to the request for a
  channel rejects it as unreachable, for the reason the error is classified by. Once the channel is open, the
  first close or expiry of the time limit decides: a close after an exit status gives the collected output and
  the last status, a close without one counts as an unreachable host, and the timer gives a timeout. Until one
  of these happens it is not settled, and what comes after does not change the outcome.
\<close>

theorem exec_settles_once:
  "eb_settled (eb_run opts events) = exec_outcome opts events
   \<and> (case exec_outcome opts events of None \<Rightarrow> True | Some r \<Rightarrow> eb_settled (eb_run opts (events @ later)) = Some r)"
proof -
  have now: "eb_settled (eb_run opts events) = exec_outcome opts events"
    by (simp only: run_from_answer [of opts events] answered_outcome)
  moreover have "eb_settled (eb_run opts (events @ later)) = Some r" if "exec_outcome opts events = Some r" for r
    using settled_fold [of "eb_run opts events" r opts later] that now by (simp add: eb_run_def)
  ultimately show ?thesis by (simp split: option.split)
qed

definition sample_options :: exec_options where
  "sample_options = \<lparr>eo_ref = \<lparr>ref_host = ''pc1'', ref_port = 22, ref_username = ''pct-agent''\<rparr>, eo_argv = [''true''], eo_timeoutMs = 30000\<rparr>"

lemma exec_settles_once_witness:
  "eb_settled (eb_run sample_options [Channel_Open, Stdout_Data ''a'', Stdout_Data ''b'', Exited (Some 0) None, Closed, Timer_Fired])
     = Some (Inr \<lparr>er_stdout = ''ab'', er_stderr = [], er_code = Some 0, er_signal = None\<rparr>)"
proof -
  have "exec_outcome sample_options [Channel_Open, Stdout_Data ''a'', Stdout_Data ''b'', Exited (Some 0) None, Closed, Timer_Fired]
     = Some (Inr \<lparr>er_stdout = ''ab'', er_stderr = [], er_code = Some 0, er_signal = None\<rparr>)"
    by code_simp
  then show ?thesis by (simp only: exec_settles_once)
qed

text \<open>
  The time limit starts when the channel opens: while the peer has not answered the request for a
  channel, the command never settles, however much time passes.
\<close>

theorem unanswered_command_hangs:
  assumes "Channel_Open \<notin> set events" "\<forall>err. Exec_Failed err \<notin> set events"
  shows "eb_settled (eb_run opts events) = None"
proof -
  have "eb_settled (foldl (eb_step opts) b events) = None"
    if "eb_settled b = None" "\<not> eb_open b" "\<not> eb_timer b" for b
    using assms that
  proof (induction events arbitrary: b)
    case (Cons e events)
    then show ?case by (cases e) auto
  qed simp
  then show ?thesis by (simp add: eb_run_def new_ExecBuffer_def)
qed

lemma unanswered_command_hangs_witness: "eb_settled (eb_run sample_options (replicate 5 Timer_Fired)) = None"
  by (rule unanswered_command_hangs) auto

section \<open>The pool\<close>

definition unreachable :: "(ssh_error + exec_result) option \<Rightarrow> bool" where
  "unreachable r \<longleftrightarrow> (case r of Some (Inl (SshUnreachableError _ _)) \<Rightarrow> True | _ \<Rightarrow> False)"

lemma pool_connect_facts:
  assumes "pool_connect p key = (p', c)"
  shows "map_of (po_connections p') k = (if k = key then Some c else map_of (po_connections p) k)" "po_ended p' = po_ended p"
  using assms by (auto simp: pool_connect_def Let_def update_conv' split: option.splits)

text \<open>
  After a command the pool holds a connection for its target exactly when the host was not found
  unreachable, the connections of the other targets are as before, and no client of a connection still
  in use is ended.
\<close>

theorem exec_evicts_unreachable:
  assumes "argv \<noteq> []" "ssh_exec peer target argv timeoutMs (pool, w) = (outcome, pool', w')"
    and "\<forall>k c. map_of (po_connections pool) k = Some c \<longrightarrow> c < length (po_clients pool) \<and> po_clients pool ! c = k"
  shows "(map_of (po_connections pool') (rt_key (resolve_dial target)) = None \<longleftrightarrow> unreachable outcome)
     \<and> (\<forall>k. k \<noteq> rt_key (resolve_dial target) \<longrightarrow> map_of (po_connections pool') k = map_of (po_connections pool) k)
     \<and> po_ended pool' = po_ended pool"
proof -
  let ?key = "rt_key (resolve_dial target)"
  obtain command where command: "shellQuoteCommand argv = Inr command" using assms(1) by (simp add: shellQuoteCommand_def)
  obtain p1 c where p1: "pool_connect pool ?key = (p1, c)" by fastforce
  have own: "po_clients p1 ! c = ?key"
    using p1 assms(3) by (auto simp: pool_connect_def Let_def nth_append split: option.splits)
  note facts = pool_connect_facts [OF p1]
  show ?thesis using assms(2) facts
    by (auto simp: ssh_exec_def Let_def command p1 pool_lost_def pool_forget_def own unreachable_def
        new_SshUnreachableError_def delete_conv' split: sum.splits prod.splits option.splits ssh_error.splits)
qed


definition empty_pool :: ssh_pool where
  "empty_pool = \<lparr>po_connections = [], po_clients = [], po_ended = []\<rparr>"

definition pc1 :: dial_target where
  "pc1 = \<lparr>dt_host = ''pc1'', dt_port = None, dt_username = ''pct-agent'', dt_privateKey = ''key'', dt_passphrase = None\<rparr>"

lemma exec_evicts_unreachable_witness:
  "map_of (po_connections (fst (snd (ssh_exec (\<lambda>_ _ w. (Inr [Channel_Open, Closed], w)) pc1 [''true''] 30000 (empty_pool, ()))))) ''pct-agent@pc1:22'' = None"
proof -
  let ?run = "ssh_exec (\<lambda>_ _ w. (Inr [Channel_Open, Closed], w)) pc1 [''true''] 30000 (empty_pool, ())"
  obtain oc p u where run: "?run = (oc, p, u)" by (cases ?run) auto
  have "unreachable (fst ?run)" by code_simp
  then have "unreachable oc" by (simp only: run fst_conv)
  moreover have "rt_key (resolve_dial pc1) = ''pct-agent@pc1:22''" by code_simp
  moreover have "map_of (po_connections p) (rt_key (resolve_dial pc1)) = None \<longleftrightarrow> unreachable oc"
    using exec_evicts_unreachable [OF _ run] by (simp add: empty_pool_def)
  ultimately show ?thesis by (simp only: run fst_conv snd_conv simp_thms)
qed

text \<open>
  The listener of a connection drops whatever connection its key holds by then: when a connection
  was replaced, after an eviction or a disposal, the late close of the old client forgets the new one,
  which no later disposal ends.
\<close>

theorem stale_close_forgets_live_connection:
  "\<exists>p1 p3 old live.
     pool_connect empty_pool key = (p1, old)
     \<and> pool_connect (pool_dispose p1 key) key = (p3, live)
     \<and> live \<noteq> old \<and> map_of (po_connections p3) key = Some live
     \<and> map_of (po_connections (pool_lost p3 old)) key = None
     \<and> live \<notin> set (po_ended (pool_disposeAll (pool_lost p3 old)))"
  by (simp add: pool_connect_def empty_pool_def pool_dispose_def pool_forget_def pool_lost_def pool_disposeAll_def Let_def)

section \<open>Causes\<close>

lemma cause_parts_bound: "length (cause_parts n c) \<le> 4 * n"
proof (induction n arbitrary: c)
  case (Suc n)
  have "length (present [a, b, d, e]) \<le> 4" for a b d e :: "string option"
    by (simp add: present_def List.map_filter_def)
  then show ?case using Suc.IH by (auto split: option.split error_cause.split intro: add_mono order_trans)
qed simp

end
