(* ===== verification/Transport_Audit.thy ===== *)
theory Transport_Audit
  imports Ssh_Transport
begin

text \<open>
  The audit log of the commands sent to clients: the redaction of secrets (\<open>transport/audit/recorder.ts\<close>),
  the decorator of the SSH facade that records one entry per command (\<open>transport.ts\<close>), the sink on the
  \<open>audit_log\<close> table (\<open>sink.ts\<close>) and its paged reading (\<open>repository.ts\<close>). The wrapped transport is a
  parameter, an action on a world of its own; the clock reads that world. Whether the table accepts an
  insert is a parameter too. A field of a context may be absent (\<open>None\<close>), or present with or without a
  value.
\<close>

section \<open>Entries\<close>

record audit_context =
  ac_clientId :: "int option option"
  ac_userId :: "int option option"
  ac_actor :: "string option"
  ac_reason :: "string option option"

record outcome_fields =
  of_outcome :: audit_outcome
  of_exitCode :: "int option"
  of_signal :: "string option"
  of_errorMessage :: "string option"

record audit_entry =
  ae_target :: target_ref
  ae_command :: "string list"
  ae_fields :: outcome_fields
  ae_durationMs :: int
  ae_context :: audit_context

section \<open>Redaction\<close>

definition SENSITIVE_NAMES :: "string list" where
  "SENSITIVE_NAMES = [''password'', ''passphrase'', ''secret'', ''token'', ''apikey'', ''api-key'', ''api_key'']"

text \<open>One or two dashes and one of the names, whatever its case.\<close>

definition sensitive_flag :: "string \<Rightarrow> bool" where
  "sensitive_flag arg \<longleftrightarrow>
     (case arg of
        d # s \<Rightarrow> d = CHR ''-'' \<and> (toLowerCase s \<in> set SENSITIVE_NAMES
          \<or> (case s of d' # s' \<Rightarrow> d' = CHR ''-'' \<and> toLowerCase s' \<in> set SENSITIVE_NAMES | [] \<Rightarrow> False))
      | [] \<Rightarrow> False)"

definition REDACTED :: string where "REDACTED = ''[redacted]''"

definition flag_of :: "string \<Rightarrow> string" where
  "flag_of arg = takeWhile (\<lambda>c. c \<noteq> CHR ''='') arg"

definition inline_secret :: "string \<Rightarrow> bool" where
  "inline_secret arg \<longleftrightarrow> CHR ''='' \<in> set arg \<and> flag_of arg \<noteq> [] \<and> sensitive_flag (flag_of arg)"

fun redactArgv :: "string list \<Rightarrow> string list" where
  "redactArgv [] = []"
| "redactArgv (arg # rest) =
     (if inline_secret arg then (flag_of arg @ CHR ''='' # REDACTED) # redactArgv rest
      else if sensitive_flag arg
      then (case rest of [] \<Rightarrow> [arg] | _ # rest' \<Rightarrow> arg # REDACTED # redactArgv rest')
      else arg # redactArgv rest)"

section \<open>The decorator\<close>

definition MAX_ERROR_MESSAGE :: nat where "MAX_ERROR_MESSAGE = 2000"

definition ellipsis :: string where "ellipsis = [CHR 0xE2, CHR 0x80, CHR 0xA6]"

definition truncate_message :: "string \<Rightarrow> string" where
  "truncate_message m = (if length m > MAX_ERROR_MESSAGE then take MAX_ERROR_MESSAGE m @ ellipsis else m)"

definition is_blank :: "char \<Rightarrow> bool" where
  "is_blank c \<longleftrightarrow> c \<in> set [CHR '' '', CHR 0x09, CHR 0x0A, CHR 0x0B, CHR 0x0C, CHR 0x0D]"

definition js_trim :: "string \<Rightarrow> string" where
  "js_trim s = rev (dropWhile is_blank (rev (dropWhile is_blank s)))"

definition nonZeroExitMessage :: "exec_result \<Rightarrow> string" where
  "nonZeroExitMessage r =
     (let stderr = js_trim (er_stderr r); base = ''Command exited non-zero ('' @ exit_status r @ '')''
      in truncate_message (if length stderr > 0 then base @ '': '' @ stderr else base))"

definition settled_fields :: "audit_outcome \<Rightarrow> int option \<Rightarrow> string option \<Rightarrow> string option \<Rightarrow> outcome_fields" where
  "settled_fields oc code sig msg = \<lparr>of_outcome = oc, of_exitCode = code, of_signal = sig, of_errorMessage = msg\<rparr>"

definition fromError :: "ssh_error \<Rightarrow> outcome_fields" where
  "fromError err =
     (let message = Some (truncate_message (ssh_message err)) in
      case err of
        SshCommandError _ _ r \<Rightarrow> settled_fields Audit_Failed (er_code r) (er_signal r) message
      | SshUnreachableError _ _ \<Rightarrow> settled_fields Audit_Unreachable None None message
      | SshExecTimeoutError _ _ _ \<Rightarrow> settled_fields Audit_Timeout None None message
      | SshParseError _ _ _ \<Rightarrow> settled_fields Audit_Parse_Error None None message
      | Unexpected _ \<Rightarrow> settled_fields Audit_Failed None None message)"

definition exec_fields :: "exec_result \<Rightarrow> outcome_fields" where
  "exec_fields r =
     (if er_code r = Some 0 then settled_fields Audit_Ok (Some 0) (er_signal r) None
      else settled_fields Audit_Failed (er_code r) (er_signal r) (Some (nonZeroExitMessage r)))"

definition execChecked_fields :: "exec_result \<Rightarrow> outcome_fields" where
  "execChecked_fields r = settled_fields Audit_Ok (er_code r) (er_signal r) None"

definition parsed_fields :: "'a \<Rightarrow> outcome_fields" where
  "parsed_fields v = settled_fields Audit_Ok (Some 0) None None"

definition target_ref_of :: "dial_target \<Rightarrow> target_ref" where
  "target_ref_of t = \<lparr>ref_host = dt_host t, ref_port = nullish (dt_port t) 22, ref_username = dt_username t\<rparr>"

definition override :: "'a option \<Rightarrow> 'a option \<Rightarrow> 'a option" where
  "override old new = (case new of None \<Rightarrow> old | Some v \<Rightarrow> Some v)"

definition withContext :: "audit_context \<Rightarrow> audit_context \<Rightarrow> audit_context" where
  "withContext base c = \<lparr>ac_clientId = override (ac_clientId base) (ac_clientId c),
     ac_userId = override (ac_userId base) (ac_userId c), ac_actor = override (ac_actor base) (ac_actor c),
     ac_reason = override (ac_reason base) (ac_reason c)\<rparr>"

text \<open>The inner operation, the sink's record and the clock act on the same world.\<close>

definition audit_run ::
    "('w \<Rightarrow> int) \<Rightarrow> (audit_entry \<Rightarrow> 'l \<Rightarrow> 'l) \<Rightarrow> audit_context \<Rightarrow> ('a \<Rightarrow> outcome_fields) \<Rightarrow> dial_target \<Rightarrow> string list
      \<Rightarrow> ('w \<Rightarrow> (ssh_error + 'a) \<times> 'w) \<Rightarrow> 'l \<times> 'w \<Rightarrow> (ssh_error + 'a) \<times> 'l \<times> 'w" where
  "audit_run clock sink context classify target argv op s =
     (let startedAt = clock (snd s) in
      case op (snd s) of (outcome, w) \<Rightarrow>
        let f = (case outcome of Inl err \<Rightarrow> fromError err | Inr v \<Rightarrow> classify v);
            entry = \<lparr>ae_target = target_ref_of target, ae_command = redactArgv argv, ae_fields = f,
                     ae_durationMs = clock w - startedAt, ae_context = context\<rparr>
        in (outcome, sink entry (fst s), w))"

definition audit_exec where
  "audit_exec clock sink context inner target argv = audit_run clock sink context exec_fields target argv (inner target argv)"

definition audit_execChecked where
  "audit_execChecked clock sink context inner target argv =
     audit_run clock sink context execChecked_fields target argv (inner target argv)"

definition audit_execAndParse where
  "audit_execAndParse clock sink context inner target argv =
     audit_run clock sink context parsed_fields target argv (inner target argv)"

section \<open>The sink and the log\<close>

record audit_row =
  al_id :: int
  al_at :: instant
  al_target :: target_ref
  al_clientId :: "int option"
  al_userId :: "int option"
  al_actor :: string
  al_reason :: "string option"
  al_command :: "string list"
  al_fields :: outcome_fields
  al_durationMs :: int

record audit_log =
  lg_rows :: "audit_row list"
  lg_seq :: int

definition DEFAULT_ACTOR :: string where "DEFAULT_ACTOR = ''system''"

definition audit_row_of :: "int \<Rightarrow> instant \<Rightarrow> audit_entry \<Rightarrow> audit_row" where
  "audit_row_of i t e =
     (let c = ae_context e in
      \<lparr>al_id = i, al_at = t, al_target = ae_target e, al_clientId = nullish (ac_clientId c) None,
       al_userId = nullish (ac_userId c) None, al_actor = nullish (ac_actor c) DEFAULT_ACTOR,
       al_reason = nullish (ac_reason c) None, al_command = ae_command e, al_fields = ae_fields e,
       al_durationMs = ae_durationMs e\<rparr>)"

text \<open>A rejected insert, of a negative duration or for want of the parent rows, is logged and dropped.\<close>

definition sink_record :: "(audit_row \<Rightarrow> bool) \<Rightarrow> instant \<Rightarrow> audit_entry \<Rightarrow> audit_log \<Rightarrow> audit_log" where
  "sink_record accepted t e log =
     (let row = audit_row_of (lg_seq log + 1) t e in
      if accepted row \<and> 0 \<le> al_durationMs row then \<lparr>lg_rows = lg_rows log @ [row], lg_seq = lg_seq log + 1\<rparr> else log)"

record audit_query =
  qy_clientId :: "int option"
  qy_outcome :: "audit_outcome option"
  qy_before :: "int option"
  qy_limit :: nat

definition audit_matches :: "audit_query \<Rightarrow> audit_row \<Rightarrow> bool" where
  "audit_matches q r \<longleftrightarrow> (case qy_clientId q of None \<Rightarrow> True | Some c \<Rightarrow> al_clientId r = Some c)
     \<and> (case qy_outcome q of None \<Rightarrow> True | Some oc \<Rightarrow> of_outcome (al_fields r) = oc)
     \<and> (case qy_before q of None \<Rightarrow> True | Some b \<Rightarrow> al_id r < b)"

definition listAuditEntries :: "audit_log \<Rightarrow> audit_query \<Rightarrow> audit_row list" where
  "listAuditEntries log q = take (qy_limit q) (sort_key (\<lambda>r. - al_id r) (filter (audit_matches q) (lg_rows log)))"

section \<open>Auditing does not change a command\<close>

text \<open>
  Whatever a command does, the auditing transport returns what the wrapped one returns and leaves the
  world it leaves, and hands the sink exactly one entry, of the redacted command, whose outcome is ok
  exactly when the caller sees success with exit status 0.
\<close>

theorem auditing_is_transparent:
  assumes "audit_exec clock sink context inner target argv (l, w) = (r, l', w')"
  shows "inner target argv w = (r, w') \<and> (\<exists>entry. l' = sink entry l \<and> ae_command entry = redactArgv argv
     \<and> ae_target entry = target_ref_of target \<and> ae_context entry = context \<and> ae_durationMs entry = clock w' - clock w
     \<and> (of_outcome (ae_fields entry) = Audit_Ok \<longleftrightarrow> (\<exists>res. r = Inr res \<and> er_code res = Some 0)))"
proof -
  obtain r0 w0 where inner: "inner target argv w = (r0, w0)" by fastforce
  have "of_outcome (fromError err) \<noteq> Audit_Ok" for err by (cases err) (simp_all add: fromError_def settled_fields_def)
  moreover let ?entry = "\<lparr>ae_target = target_ref_of target, ae_command = redactArgv argv,
      ae_fields = (case r0 of Inl err \<Rightarrow> fromError err | Inr v \<Rightarrow> exec_fields v),
      ae_durationMs = clock w0 - clock w, ae_context = context\<rparr>"
  have "r = r0" "w' = w0" "l' = sink ?entry l"
    using assms by (auto simp: audit_exec_def audit_run_def inner Let_def)
  ultimately show ?thesis using inner
    by (intro conjI exI [of _ ?entry]) (auto simp: exec_fields_def settled_fields_def split: sum.split)
qed

lemma auditing_is_transparent_witness:
  "\<exists>entry. [entry] = (fst (snd (audit_exec (\<lambda>_. 0) (\<lambda>e l. l @ [e]) \<lparr>ac_clientId = None, ac_userId = None, ac_actor = None, ac_reason = None\<rparr>
      (\<lambda>_ _ w. (Inl (Unexpected ''boom''), w)) pc1 [''true''] ([], ())))) \<and> of_outcome (ae_fields entry) \<noteq> Audit_Ok"
proof -
  let ?run = "audit_exec (\<lambda>_. 0) (\<lambda>e l. l @ [e]) \<lparr>ac_clientId = None, ac_userId = None, ac_actor = None, ac_reason = None\<rparr>
      (\<lambda>_ _ w. (Inl (Unexpected ''boom''), w)) pc1 [''true''] ([], ())"
  obtain r l u where run: "?run = (r, l, u)" by (cases ?run) auto
  from auditing_is_transparent [OF run] run show ?thesis by auto
qed

section \<open>Redaction hides every secret\<close>

text \<open>Two command vectors that differ only in their secrets.\<close>

inductive same_but_secrets :: "string list \<Rightarrow> string list \<Rightarrow> bool" where
  same_nil: "same_but_secrets [] []"
| same_inline: "same_but_secrets as bs \<Longrightarrow> sensitive_flag flag \<Longrightarrow> CHR ''='' \<notin> set flag
    \<Longrightarrow> same_but_secrets ((flag @ CHR ''='' # secret) # as) ((flag @ CHR ''='' # secret') # bs)"
| same_value: "same_but_secrets as bs \<Longrightarrow> sensitive_flag flag
    \<Longrightarrow> same_but_secrets (flag # secret # as) (flag # secret' # bs)"
| same_last: "same_but_secrets [flag] [flag]"
| same_plain: "same_but_secrets as bs \<Longrightarrow> \<not> sensitive_flag a \<Longrightarrow> same_but_secrets (a # as) (a # bs)"

lemma sensitive_plain: "sensitive_flag flag \<Longrightarrow> CHR ''='' \<notin> set flag"
  by (auto simp: sensitive_flag_def SENSITIVE_NAMES_def toLowerCase_def lower_char_def split: list.splits)


lemma inline_flag: "flag_of (flag @ CHR ''='' # s) = flag" if "CHR ''='' \<notin> set flag" for flag s
  using that unfolding flag_of_def by (subst takeWhile_append2) auto

lemma flag_not_inline: "sensitive_flag flag \<Longrightarrow> \<not> inline_secret flag"
  using sensitive_plain by (simp add: inline_secret_def)

lemma redact_same_but_secrets: "same_but_secrets as bs \<Longrightarrow> redactArgv as = redactArgv bs"
proof (induction rule: same_but_secrets.induct)
  case (same_inline as bs flag secret secret')
  then have "flag \<noteq> []" by (auto simp: sensitive_flag_def)
  with same_inline inline_flag show ?case by (simp add: inline_secret_def)
qed (simp_all add: flag_not_inline)

text \<open>A position holds the value of the flag before it, when that is a flag and not a value itself.\<close>

fun value_of_flag :: "string list \<Rightarrow> nat \<Rightarrow> bool" where
  "value_of_flag argv 0 \<longleftrightarrow> False"
| "value_of_flag argv (Suc i) \<longleftrightarrow> sensitive_flag (argv ! i) \<and> \<not> value_of_flag argv i"

definition recorded_at :: "string list \<Rightarrow> nat \<Rightarrow> string" where
  "recorded_at argv i =
     (if value_of_flag argv i then REDACTED
      else if inline_secret (argv ! i) then flag_of (argv ! i) @ CHR ''='' # REDACTED else argv ! i)"

lemma value_of_flag_plain: "\<not> sensitive_flag a \<Longrightarrow> value_of_flag (a # argv) (Suc i) = value_of_flag argv i"
  by (induction i) auto

lemma value_of_flag_value: "sensitive_flag a \<Longrightarrow> value_of_flag (a # v # argv) (Suc (Suc i)) = value_of_flag argv i"
  by (induction i) auto

lemma recorded_at_shift:
  "\<not> sensitive_flag a \<Longrightarrow> recorded_at (a # argv) (Suc i) = recorded_at argv i"
  "sensitive_flag a \<Longrightarrow> recorded_at (a # v # argv) (Suc (Suc i)) = recorded_at argv i"
  by (simp_all add: recorded_at_def value_of_flag_plain value_of_flag_value del: value_of_flag.simps(2))

lemma upt_shift: "map f [0..<Suc n] = f 0 # map (\<lambda>i. f (Suc i)) [0..<n]"
  by (simp add: upt_conv_Cons map_Suc_upt [symmetric] del: upt_Suc)

lemma redactArgv_recorded: "redactArgv argv = map (recorded_at argv) [0..<length argv]"
proof (induction argv rule: redactArgv.induct)
  case (2 arg rest)
  have first: "recorded_at (arg # rest) 0 = (if inline_secret arg then flag_of arg @ CHR ''='' # REDACTED else arg)"
    by (simp add: recorded_at_def)
  show ?case
  proof (cases "sensitive_flag arg")
    case False
    then show ?thesis using 2 first by (simp add: upt_shift recorded_at_shift del: upt_Suc)
  next
    case True
    then have plain: "\<not> inline_secret arg" by (rule flag_not_inline)
    show ?thesis
    proof (cases rest)
      case Nil
      then show ?thesis using True plain first by simp
    next
      case (Cons v rest')
      have "recorded_at (arg # v # rest') (Suc 0) = REDACTED" using True by (simp add: recorded_at_def)
      then show ?thesis
        using 2(2) [OF plain True Cons] True plain first by (simp add: Cons upt_shift recorded_at_shift del: upt_Suc)
    qed
  qed
qed simp

text \<open>
  C37 Redaction hides the secrets and nothing else. Two command vectors that differ only in what follows a
  password, passphrase, secret, token or key flag, in the next argument or after an equals sign, are
  recorded alike. The record has one entry for each argument: the value after such a flag is replaced as a
  whole, an argument with an inline secret keeps its flag, and every other argument is kept as it is.
\<close>

theorem redaction_hides_secrets:
  "(same_but_secrets as bs \<longrightarrow> redactArgv as = redactArgv bs)
   \<and> redactArgv as = map (\<lambda>i. if value_of_flag as i then REDACTED
       else if inline_secret (as ! i) then flag_of (as ! i) @ CHR ''='' # REDACTED else as ! i) [0..<length as]"
proof (intro conjI impI)
  show "redactArgv as = redactArgv bs" if "same_but_secrets as bs" using that by (rule redact_same_but_secrets)
qed (simp only: redactArgv_recorded recorded_at_def [abs_def])

lemma redaction_hides_secrets_witness:
  "redactArgv [''ansible'', ''--token'', ''abc'', ''--password=hunter2''] = redactArgv [''ansible'', ''--token'', ''xyz'', ''--password=swordfish'']
   \<and> redactArgv [''ansible'', ''--token'', ''abc''] = [''ansible'', ''--token'', ''[redacted]'']"
proof
  have "same_but_secrets [''ansible'', ''--token'', ''abc'', ''--password'' @ CHR ''='' # ''hunter2'']
      [''ansible'', ''--token'', ''xyz'', ''--password'' @ CHR ''='' # ''swordfish'']"
    by (intro same_nil same_inline same_value same_plain; code_simp)
  from redaction_hides_secrets [THEN conjunct1, THEN mp, OF this]
  show "redactArgv [''ansible'', ''--token'', ''abc'', ''--password=hunter2''] = redactArgv [''ansible'', ''--token'', ''xyz'', ''--password=swordfish'']"
    by simp
  show "redactArgv [''ansible'', ''--token'', ''abc''] = [''ansible'', ''--token'', ''[redacted]'']" by code_simp
qed

section \<open>Pages of the log\<close>

definition log_ok :: "audit_log \<Rightarrow> bool" where
  "log_ok log \<longleftrightarrow> sorted_wrt (<) (map al_id (lg_rows log)) \<and> (\<forall>r \<in> set (lg_rows log). al_id r \<le> lg_seq log)"

lemma sink_record_ok: "log_ok log \<Longrightarrow> log_ok (sink_record accepted t e log)"
  by (auto simp: log_ok_def sink_record_def Let_def audit_row_of_def sorted_wrt_append)

text \<open>The matching rows without a cursor, newest first.\<close>

definition whole_log :: "audit_log \<Rightarrow> audit_query \<Rightarrow> audit_row list" where
  "whole_log log q = rev (filter (audit_matches (q\<lparr>qy_before := None\<rparr>)) (lg_rows log))"

lemma sort_newest:
  assumes "sorted_wrt (<) (map al_id rows)"
  shows "sort_key (\<lambda>r. - al_id r) rows = rev rows"
proof (rule sort_key_inj_key_eq)
  show "mset rows = mset (rev rows)" by simp
  show "inj_on (\<lambda>r. - al_id r) (set rows)"
    using assms by (auto simp: inj_on_def strict_sorted_iff distinct_map)
  have "sorted_wrt (\<lambda>a b. al_id a < al_id b) rows" using assms by (simp add: sorted_wrt_map)
  then have "sorted_wrt (\<lambda>a b. al_id b < al_id a) (rev rows)" by (simp add: sorted_wrt_rev)
  then show "sorted (map (\<lambda>r. - al_id r) (rev rows))"
    unfolding sorted_wrt_map by (rule sorted_wrt_mono_rel [rotated]) simp
qed

lemma whole_log_descends: "log_ok log \<Longrightarrow> sorted_wrt (\<lambda>a b. al_id b < al_id a) (whole_log log q)"
  by (simp add: log_ok_def whole_log_def sorted_wrt_rev sorted_wrt_map sorted_wrt_filter)

lemma listAuditEntries_eq:
  assumes "log_ok log"
  shows "listAuditEntries log q =
    take (qy_limit q) (filter (\<lambda>r. case qy_before q of None \<Rightarrow> True | Some b \<Rightarrow> al_id r < b) (whole_log log q))"
proof -
  have "sorted_wrt (<) (map al_id (filter (audit_matches q) (lg_rows log)))"
    using assms by (simp add: log_ok_def sorted_wrt_map sorted_wrt_filter)
  then have "listAuditEntries log q = take (qy_limit q) (rev (filter (audit_matches q) (lg_rows log)))"
    by (simp add: listAuditEntries_def sort_newest)
  moreover have "filter (audit_matches q) rows =
      filter (\<lambda>r. case qy_before q of None \<Rightarrow> True | Some b \<Rightarrow> al_id r < b) (filter (audit_matches (q\<lparr>qy_before := None\<rparr>)) rows)" for rows
    by (induction rows) (auto simp: audit_matches_def)
  ultimately show ?thesis by (simp add: whole_log_def rev_filter [symmetric] del: filter_filter)
qed

lemma older_than:
  assumes "sorted_wrt (\<lambda>a b. key b < key a) xs" "0 < n" "n \<le> length xs"
  shows "filter (\<lambda>r. (key r :: int) < key (xs ! (n - 1))) xs = drop n xs"
  using assms
proof (induction xs arbitrary: n)
  case (Cons x xs)
  then obtain k where n: "n = Suc k" by (cases n) auto
  show ?case
  proof (cases "k = 0")
    case True
    then show ?thesis using Cons.prems n by auto
  next
    case False
    then have "xs ! (k - 1) \<in> set xs" using Cons.prems n by simp
    then have "key (xs ! (k - 1)) < key x" using Cons.prems by simp
    then have "\<not> key x < key (xs ! (k - 1))" by simp
    then show ?thesis using Cons.IH [of k] Cons.prems n False by (simp add: nth_Cons')
  qed
qed simp

text \<open>
  Paging by the id of the last entry seen neither skips nor repeats an entry, though entries are
  appended between the pages: after the first n entries of the log as it was, the next page is the
  following entries.
\<close>

theorem audit_pages_tile:
  assumes "log_ok log" "log_ok (log\<lparr>lg_rows := lg_rows log @ newer, lg_seq := seq\<rparr>)"
    and "0 < n" "n \<le> length (whole_log log q)"
  shows "listAuditEntries (log\<lparr>lg_rows := lg_rows log @ newer, lg_seq := seq\<rparr>)
      (q\<lparr>qy_before := Some (al_id (whole_log log q ! (n - 1)))\<rparr>) = take (qy_limit q) (drop n (whole_log log q))"
proof -
  let ?log = "log\<lparr>lg_rows := lg_rows log @ newer, lg_seq := seq\<rparr>" and ?b = "al_id (whole_log log q ! (n - 1))"
  have whole: "whole_log ?log (q\<lparr>qy_before := Some b\<rparr>) = whole_log \<lparr>lg_rows = newer, lg_seq = 0\<rparr> q @ whole_log log q" for b
    by (simp add: whole_log_def)
  have "whole_log log q ! (n - 1) \<in> set (whole_log log q)" using assms(3,4) by simp
  then have "whole_log log q ! (n - 1) \<in> set (lg_rows log)" by (simp add: whole_log_def)
  then have "\<forall>r \<in> set newer. \<not> al_id r < ?b" using assms(2) by (fastforce simp: log_ok_def sorted_wrt_append)
  then have "filter (\<lambda>r. al_id r < ?b) (whole_log \<lparr>lg_rows = newer, lg_seq = 0\<rparr> q) = []"
    by (simp add: whole_log_def filter_empty_conv)
  then show ?thesis
    using older_than [OF whole_log_descends [OF assms(1)] assms(3,4)] by (simp add: listAuditEntries_eq [OF assms(2)] whole)
qed

definition log_of :: "int list \<Rightarrow> audit_log" where
  "log_of ids = \<lparr>lg_rows = map (\<lambda>i. \<lparr>al_id = i, al_at = 0, al_target = target_ref_of pc1, al_clientId = None, al_userId = None,
     al_actor = DEFAULT_ACTOR, al_reason = None, al_command = [''true''], al_fields = settled_fields Audit_Ok (Some 0) None None,
     al_durationMs = 3\<rparr>) ids, lg_seq = 9\<rparr>"

lemma audit_pages_tile_witness:
  "map al_id (listAuditEntries (log_of [1, 2, 3, 4, 5])
     \<lparr>qy_clientId = None, qy_outcome = Some Audit_Ok, qy_before = Some 3, qy_limit = 2\<rparr>) = [2, 1]"
proof -
  let ?q = "\<lparr>qy_clientId = None, qy_outcome = Some Audit_Ok, qy_before = None, qy_limit = 2\<rparr>"
  have whole: "map al_id (whole_log (log_of [1, 2, 3, 4]) ?q) = [4, 3, 2, 1]"
    by (simp add: whole_log_def log_of_def audit_matches_def settled_fields_def)
  have ids: "al_id (whole_log (log_of [1, 2, 3, 4]) ?q ! Suc 0) = 3" and len: "length (whole_log (log_of [1, 2, 3, 4]) ?q) = 4"
    by (simp_all add: whole_log_def log_of_def audit_matches_def settled_fields_def)
  have new: "(log_of [1, 2, 3, 4])\<lparr>lg_rows := lg_rows (log_of [1, 2, 3, 4]) @ lg_rows (log_of [5]), lg_seq := 9\<rparr> = log_of [1, 2, 3, 4, 5]"
    by (simp add: log_of_def)
  have "log_ok (log_of [1, 2, 3, 4])" "log_ok (log_of [1, 2, 3, 4, 5])" by (simp_all add: log_ok_def log_of_def)
  then have "listAuditEntries (log_of [1, 2, 3, 4, 5]) (?q\<lparr>qy_before := Some 3\<rparr>) = take 2 (drop 2 (whole_log (log_of [1, 2, 3, 4]) ?q))"
    using audit_pages_tile [where log = "log_of [1, 2, 3, 4]" and newer = "lg_rows (log_of [5])" and seq = 9 and n = 2 and q = ?q] by (simp add: new ids len)
  then show ?thesis using whole by (simp flip: take_map drop_map)
qed

end
