(* ===== verification/Ansible_Transport.thy ===== *)
theory Ansible_Transport
  imports Transport_Audit Control_Store
begin

text \<open>
  Ansible as a subprocess: the inventory written for a run (\<open>transport/ansible/inventory.ts\<close>), the errors
  (\<open>errors.ts\<close>) and the runner (\<open>index.ts\<close>). The process is a parameter, an action on a world of its own that
  sees the temporary files; the name \<open>mkdtemp\<close> picks, and the JSON writer, are parameters as well. Creating and
  writing the temporary directory is taken to succeed, and the Ansible directory is a normalised path.
\<close>

section \<open>Errors\<close>

datatype ansible_error =
    AnsibleError string
  | AnsibleUnavailableError string
  | AnsibleUnreachableError int string string
  | AnsiblePlaybookFailedError "int option" string string "string option"
  | AnsibleInventoryError string
  | Ansible_Unexpected string

definition em_dash :: string where "em_dash = [CHR 0xE2, CHR 0x80, CHR 0x94]"

definition right_arrow :: string where "right_arrow = [CHR 0xE2, CHR 0x86, CHR 0x92]"

fun ansible_message :: "ansible_error \<Rightarrow> string" where
  "ansible_message (AnsibleError m) = m"
| "ansible_message (AnsibleUnavailableError binaryPath) =
     ''ansible-playbook is not available at '' @ binaryPath @ '' '' @ em_dash @ '' has the first-run ''
     @ ''Ansible venv been bootstrapped? (see docs/server-deployment.md '' @ right_arrow @ '' First-run setup)''"
| "ansible_message (AnsibleUnreachableError exitCode _ _) =
     ''ansible-playbook reported unreachable host(s) (exit code '' @ show_int exitCode @ '')''"
| "ansible_message (AnsiblePlaybookFailedError exitCode _ _ detail) =
     ''ansible-playbook failed ('' @ nullish detail (''exit code '' @ (case exitCode of None \<Rightarrow> ''unknown'' | Some c \<Rightarrow> show_int c)) @ '')''"
| "ansible_message (AnsibleInventoryError m) = m"
| "ansible_message (Ansible_Unexpected m) = m"

section \<open>The inventory\<close>

record ansible_host =
  ah_hostname :: string
  ah_sshUser :: string

definition INVENTORY_GROUP :: string where "INVENTORY_GROUP = ''supervised''"

text \<open>The two patterns; \<open>$\<close> matches at the very end of the text only.\<close>

definition HOSTNAME_PATTERN :: "string \<Rightarrow> bool" where
  "HOSTNAME_PATTERN s \<longleftrightarrow>
     s \<noteq> [] \<and> alphanumeric (hd s) \<and> alphanumeric (last s) \<and> list_all (\<lambda>c. alphanumeric c \<or> c \<in> set ''.-'') s"

definition SSH_USER_PATTERN :: "string \<Rightarrow> bool" where
  "SSH_USER_PATTERN s \<longleftrightarrow>
     (case s of [] \<Rightarrow> False
      | c # cs \<Rightarrow> (lower_case c \<or> c = CHR ''_'') \<and> list_all (\<lambda>c. lower_case c \<or> is_digit c \<or> c \<in> set ''_-'') cs)"

definition requireSafe :: "(string \<Rightarrow> string) \<Rightarrow> string \<Rightarrow> (string \<Rightarrow> bool) \<Rightarrow> string \<Rightarrow> ansible_error + string" where
  "requireSafe quote value pattern what =
     (if \<not> pattern value
      then Inl (AnsibleInventoryError (''refusing to build an Ansible inventory: '' @ what @ '' '' @ quote value
        @ '' contains characters that are not allowed in an inventory entry''))
      else Inr value)"

definition inventory_line :: "(string \<Rightarrow> string) \<Rightarrow> ansible_host \<Rightarrow> ansible_error + string" where
  "inventory_line quote h =
     bindE (requireSafe quote (ah_hostname h) HOSTNAME_PATTERN ''hostname'') (\<lambda>hostname.
     bindE (requireSafe quote (ah_sshUser h) SSH_USER_PATTERN ''ssh user'') (\<lambda>sshUser.
     Inr (hostname @ '' ansible_user='' @ sshUser)))"

definition buildInventory :: "(string \<Rightarrow> string) \<Rightarrow> ansible_host list \<Rightarrow> ansible_error + string" where
  "buildInventory quote hosts =
     bindE (mapE (inventory_line quote) hosts) (\<lambda>ls.
     Inr (js_join [CHR 0x0A] ((CHR ''['' # INVENTORY_GROUP @ '']'') # ls) @ [CHR 0x0A]))"

section \<open>The runner\<close>

definition UNREACHABLE_BIT :: int where "UNREACHABLE_BIT = 4"

datatype exec_code = Code_Name string | Code_Number int | Code_Null

record exec_failure =
  xf_code :: exec_code
  xf_signal :: "string option"

definition classifyFailure :: "string \<Rightarrow> exec_failure \<Rightarrow> string \<Rightarrow> string \<Rightarrow> ansible_error" where
  "classifyFailure binaryPath e stdout stderr =
     (case xf_code e of
        Code_Name n \<Rightarrow>
          if n = ''ENOENT'' \<or> n = ''EACCES'' then AnsibleUnavailableError binaryPath
          else AnsiblePlaybookFailedError None stdout stderr (Some (''terminated: '' @ n))
      | Code_Number c \<Rightarrow>
          if c AND UNREACHABLE_BIT \<noteq> 0 then AnsibleUnreachableError c stdout stderr
          else AnsiblePlaybookFailedError (Some c) stdout stderr None
      | Code_Null \<Rightarrow>
          AnsiblePlaybookFailedError None stdout stderr (Some (''terminated: '' @ nullish (xf_signal e) ''unknown error'')))"

record run_playbook_options =
  rp_playbook :: string
  rp_hosts :: "ansible_host list"
  rp_extraVars :: "json option"
  rp_limit :: "string option"

record ansible_run_result =
  arr_playbook :: string
  arr_exitCode :: int
  arr_stdout :: string
  arr_stderr :: string

text \<open>What the runner is given, and what it calls: the process sees the temporary files.\<close>

type_synonym temp_files = "(string \<times> string) list"

record 'w ansible_env =
  ansibleDir :: string
  json_stringify :: "json \<Rightarrow> string"
  mkdtemp :: "'w \<Rightarrow> string"
  execFile :: "string \<Rightarrow> string list \<Rightarrow> temp_files \<Rightarrow> 'w \<Rightarrow> (exec_failure option \<times> string \<times> string) \<times> 'w"

definition binaryPathFor :: "string \<Rightarrow> string" where
  "binaryPathFor dir = dir @ ''/venv/bin/ansible-playbook''"

definition PLAYBOOK_NAME_PATTERN :: "string \<Rightarrow> bool" where
  "PLAYBOOK_NAME_PATTERN s \<longleftrightarrow> s \<noteq> [] \<and> list_all (\<lambda>c. alphanumeric c \<or> c \<in> set ''._-'') s"

definition assertSafePlaybookName :: "(string \<Rightarrow> string) \<Rightarrow> string \<Rightarrow> ansible_error + unit" where
  "assertSafePlaybookName quote playbook =
     (if \<not> PLAYBOOK_NAME_PATTERN playbook \<or> playbook = ''.'' \<or> playbook = ''..''
      then Inl (AnsibleError (''refusing to run playbook '' @ quote playbook @ '': the name must be a bare ''
        @ ''file under the playbooks directory (letters, digits, '' @ [CHR 0x27, CHR ''.'', CHR 0x27] @ '', ''
        @ [CHR 0x27, CHR ''_'', CHR 0x27] @ '', '' @ [CHR 0x27, CHR ''-'', CHR 0x27] @ '')''))
      else Inr ())"

definition playbook_args :: "(json \<Rightarrow> string) \<Rightarrow> string \<Rightarrow> string \<Rightarrow> run_playbook_options \<Rightarrow> string list" where
  "playbook_args stringify inventoryPath playbookPath opts =
     [''-i'', inventoryPath, playbookPath]
     @ (case rp_limit opts of None \<Rightarrow> [] | Some l \<Rightarrow> [''--limit'', l])
     @ (case rp_extraVars opts of None \<Rightarrow> [] | Some v \<Rightarrow> [''--extra-vars'', stringify v])"

definition runPlaybook ::
    "'w ansible_env \<Rightarrow> run_playbook_options \<Rightarrow> temp_files \<times> 'w \<Rightarrow> (ansible_error + ansible_run_result) \<times> temp_files \<times> 'w" where
  "runPlaybook env opts s =
     (let quote = (\<lambda>v. json_stringify env (JStr v)) in
      case assertSafePlaybookName quote (rp_playbook opts) of
        Inl e \<Rightarrow> (Inl e, s)
      | Inr _ \<Rightarrow>
      (case buildInventory quote (rp_hosts opts) of
        Inl e \<Rightarrow> (Inl e, s)
      | Inr inventory \<Rightarrow>
          let playbookPath = ansibleDir env @ ''/playbooks/'' @ rp_playbook opts;
              inventoryPath = mkdtemp env (snd s) @ ''/inventory.ini'';
              files = AList.update inventoryPath inventory (fst s);
              binaryPath = binaryPathFor (ansibleDir env)
          in (case execFile env binaryPath (playbook_args (json_stringify env) inventoryPath playbookPath opts) files (snd s) of
                ((err, stdout, stderr), w) \<Rightarrow>
                  ((case err of
                      None \<Rightarrow> Inr \<lparr>arr_playbook = rp_playbook opts, arr_exitCode = 0, arr_stdout = stdout, arr_stderr = stderr\<rparr>
                    | Some e \<Rightarrow> Inl (classifyFailure binaryPath e stdout stderr)),
                   AList.delete inventoryPath files, w))))"

section \<open>What an inventory says\<close>

text \<open>A reader of the INI file: the group header, then one host per line with its login name.\<close>

definition read_line :: "string \<Rightarrow> (string \<times> string) option" where
  "read_line l =
     (case js_split (CHR '' '') l of
        [host, var] \<Rightarrow> (case js_split (CHR ''='') var of [k, v] \<Rightarrow> if k = ''ansible_user'' then Some (host, v) else None | _ \<Rightarrow> None)
      | _ \<Rightarrow> None)"

definition read_inventory :: "string \<Rightarrow> (string \<times> string) option list option" where
  "read_inventory text =
     (case js_split (CHR 0x0A) text of
        header # ls \<Rightarrow> if header = ''[supervised]'' \<and> ls \<noteq> [] \<and> last ls = [] then Some (map read_line (butlast ls)) else None
      | [] \<Rightarrow> None)"

definition safe_host :: "ansible_host \<Rightarrow> bool" where
  "safe_host h \<longleftrightarrow> HOSTNAME_PATTERN (ah_hostname h) \<and> SSH_USER_PATTERN (ah_sshUser h)"

lemma plain_chars:
  assumes "c \<in> set ('' =[]#;:'' @ [CHR 0x0A])"
  shows "\<not> alphanumeric c" "\<not> lower_case c" "\<not> is_digit c" "c \<notin> set ''._-''"
  using assms by (auto simp: alphanumeric_def lower_case_def is_digit_def Let_def)

lemma hostname_plain: "HOSTNAME_PATTERN s \<Longrightarrow> c \<in> set ('' =[]#;:'' @ [CHR 0x0A]) \<Longrightarrow> c \<notin> set s"
  using plain_chars by (fastforce simp: HOSTNAME_PATTERN_def list_all_iff)

lemma ssh_user_plain: "SSH_USER_PATTERN s \<Longrightarrow> c \<in> set ('' =[]#;:'' @ [CHR 0x0A]) \<Longrightarrow> c \<notin> set s"
  using plain_chars by (fastforce simp: SSH_USER_PATTERN_def list_all_iff split: list.splits)

lemma inventory_line_Inr:
  "inventory_line quote h = Inr l \<longleftrightarrow> safe_host h \<and> l = ah_hostname h @ '' ansible_user='' @ ah_sshUser h"
  by (auto simp: inventory_line_def requireSafe_def bindE_eq_Inr safe_host_def)

lemma read_inventory_line:
  assumes "safe_host h"
  shows "read_line (ah_hostname h @ '' ansible_user='' @ ah_sshUser h) = Some (ah_hostname h, ah_sshUser h)"
    "CHR 0x0A \<notin> set (ah_hostname h @ '' ansible_user='' @ ah_sshUser h)"
proof -
  have host: "CHR '' '' \<notin> set (ah_hostname h)" "CHR 0x0A \<notin> set (ah_hostname h)"
    and user: "CHR '' '' \<notin> set (ah_sshUser h)" "CHR ''='' \<notin> set (ah_sshUser h)" "CHR 0x0A \<notin> set (ah_sshUser h)"
    using assms hostname_plain ssh_user_plain by (auto simp: safe_host_def)
  have "js_split (CHR '' '') (ah_hostname h @ '' ansible_user='' @ ah_sshUser h) = [ah_hostname h, ''ansible_user='' @ ah_sshUser h]"
    using js_split_append [OF host(1), of "''ansible_user='' @ ah_sshUser h"] user(1) by (simp add: js_split_plain)
  moreover have "js_split (CHR ''='') (''ansible_user='' @ ah_sshUser h) = [''ansible_user'', ah_sshUser h]"
    using js_split_append [of "CHR ''=''" "''ansible_user''" "ah_sshUser h"] user(2) by (simp add: js_split_plain)
  ultimately show "read_line (ah_hostname h @ '' ansible_user='' @ ah_sshUser h) = Some (ah_hostname h, ah_sshUser h)"
    by (simp add: read_line_def)
  show "CHR 0x0A \<notin> set (ah_hostname h @ '' ansible_user='' @ ah_sshUser h)" using host user by simp
qed

lemma js_join_newline: "ls \<noteq> [] \<Longrightarrow> js_join [c] ls @ [c] = js_join [c] (ls @ [[]])"
  by (induction "[c]" ls rule: js_join.induct) auto

lemma inventory_lines:
  assumes "mapE (inventory_line quote) hosts = Inr ls"
  shows "list_all safe_host hosts \<and> map read_line ls = map (\<lambda>h. Some (ah_hostname h, ah_sshUser h)) hosts
    \<and> (\<forall>l \<in> set ls. CHR 0x0A \<notin> set l)"
  using assms
proof (induction hosts arbitrary: ls)
  case (Cons h hosts)
  then show ?case using read_inventory_line by (auto simp: bindE_eq_Inr inventory_line_Inr)
qed simp

lemma inventory_line_Inl: "inventory_line quote h = Inl e \<Longrightarrow> \<not> safe_host h \<and> (\<exists>m. e = AnsibleInventoryError m)"
  by (auto simp: inventory_line_def requireSafe_def safe_host_def split: if_splits)

lemma inventory_refused:
  "mapE (inventory_line quote) hosts = Inl e \<Longrightarrow> \<not> list_all safe_host hosts \<and> (\<exists>m. e = AnsibleInventoryError m)"
proof (induction hosts)
  case (Cons h hosts)
  show ?case
  proof (cases "inventory_line quote h")
    case (Inl a)
    then show ?thesis using Cons.prems inventory_line_Inl [OF Inl] by simp
  next
    case (Inr l)
    then show ?thesis using Cons by (cases "mapE (inventory_line quote) hosts") auto
  qed
qed simp

text \<open>A run leaves no temporary file behind, whatever the outcome.\<close>

lemma run_playbook_clean:
  "case runPlaybook env opts (files, w) of (r, files', w') \<Rightarrow>
     files' = AList.delete (mkdtemp env w @ ''/inventory.ini'') files \<or> files' = files \<and> w' = w"
  by (simp add: runPlaybook_def Let_def AList.delete_update_same split: sum.splits prod.splits)

section \<open>Properties\<close>

text \<open>
  C30: An inventory holds exactly the hosts it was built for. Read back as INI it has the one group and one line per host,
  with the host name and login name given, so no name can add a host, a variable or a group; a host whose name has
  another character is refused and nothing is written.
\<close>

theorem inventory_roundtrip:
  "case buildInventory quote hosts of
     Inr text \<Rightarrow> list_all safe_host hosts \<and> read_inventory text = Some (map (\<lambda>h. Some (ah_hostname h, ah_sshUser h)) hosts)
   | Inl e \<Rightarrow> list_all safe_host hosts = False \<and> (\<exists>m. e = AnsibleInventoryError m)"
proof (cases "mapE (inventory_line quote) hosts")
  case (Inl e)
  then show ?thesis using inventory_refused [OF Inl] by (auto simp: buildInventory_def)
next
  case (Inr ls)
  let ?all = "(CHR ''['' # INVENTORY_GROUP @ '']'') # ls"
  have "js_split (CHR 0x0A) (js_join [CHR 0x0A] ?all @ [CHR 0x0A]) = ?all @ [[]]"
    using inventory_lines [OF Inr] unfolding js_join_newline [OF list.distinct(2)]
    by (intro js_split_join) (auto simp: INVENTORY_GROUP_def)
  then show ?thesis
    using inventory_lines [OF Inr] by (simp add: buildInventory_def Inr read_inventory_def INVENTORY_GROUP_def)
qed

end
