(* ===== verification/Client_Filters.thy ===== *)
theory Client_Filters
  imports Ansible_Transport Effective_Policy Policy_Invariant
begin

text \<open>
  The two enforcement plans pushed to a client by Ansible: the AppArmor profiles that block executables
  (\<open>transport/ansible/apparmor.ts\<close>) and the e2guardian filter groups that block domains, at all times or in a
  recurring window (\<open>e2guardian.ts\<close>). Executables are ordered by \<open>localeCompare\<close>, which is a parameter (the
  collation key), as is the hash in a profile name. The proxy that reads the filter groups is a parameter with
  two named hypotheses; the last part compares what it blocks with the denials of the store.
\<close>

section \<open>AppArmor: which executables are blocked\<close>

definition APPARMOR_PLAYBOOK :: string where "APPARMOR_PLAYBOOK = ''apparmor-profiles.yml''"

definition DEFAULT_SSH_PORT :: int where "DEFAULT_SSH_PORT = 22"

definition SAFE_EXECUTABLE_PATH :: "string \<Rightarrow> bool" where
  "SAFE_EXECUTABLE_PATH s \<longleftrightarrow>
     (case s of [] \<Rightarrow> False | c # cs \<Rightarrow> c = CHR ''/'' \<and> cs \<noteq> [] \<and> list_all (\<lambda>c. alphanumeric c \<or> c \<in> set ''._/@:+-'') cs)"

record blocked_for =
  bf_userId :: int
  bf_osUsername :: string
  bf_osUserRef :: string

record apparmor_denial =
  ad_profileName :: string
  ad_executable :: string
  ad_blockedFor :: "blocked_for list"

record apparmor_plan =
  ap_clientId :: int
  ap_hostname :: string
  ap_denials :: "apparmor_denial list"

definition profileNameSchema :: "string \<Rightarrow> bool" where
  "profileNameSchema s \<longleftrightarrow> take 4 s = ''pct.'' \<and> 4 < length s \<and> list_all (\<lambda>c. alphanumeric c \<or> c \<in> set ''._-'') (drop 4 s)"

definition appArmorPlanSchema :: "apparmor_plan \<Rightarrow> bool" where
  "appArmorPlanSchema p \<longleftrightarrow>
     ap_hostname p \<noteq> []
     \<and> list_all (\<lambda>x. profileNameSchema (ad_profileName x) \<and> SAFE_EXECUTABLE_PATH (ad_executable x) \<and> ad_blockedFor x \<noteq> []
          \<and> list_all (\<lambda>b. bf_osUsername b \<noteq> [] \<and> bf_osUserRef b \<noteq> []) (ad_blockedFor x)) (ap_denials p)"

definition profileNameFor :: "(string \<Rightarrow> string) \<Rightarrow> string \<Rightarrow> string" where
  "profileNameFor sha256 executable =
     (let stem = map (\<lambda>c. if alphanumeric c \<or> c \<in> set ''._-'' then c else CHR ''_'')
                   (map (\<lambda>c. if c = CHR ''/'' then CHR ''.'' else c) (dropWhile (\<lambda>c. c = CHR ''/'') executable))
      in ''pct.'' @ stem @ ''.'' @ take 8 (sha256 executable))"

definition isMappableApp :: "activity_row \<Rightarrow> bool" where
  "isMappableApp a \<longleftrightarrow> act_kind a = App \<and> act_matchType a = Exact \<and> SAFE_EXECUTABLE_PATH (act_matcher a)"

definition executablesForDeny :: "store \<Rightarrow> schedule_rule \<Rightarrow> string list" where
  "executablesForDeny st r =
     (case sr_targetId r of
        None \<Rightarrow> []
      | Some t \<Rightarrow>
          (case sr_targetKind r of
             Activity \<Rightarrow> (case getActivity st t of None \<Rightarrow> [] | Some a \<Rightarrow> if isMappableApp a then [act_matcher a] else [])
           | Group \<Rightarrow> map act_matcher (filter isMappableApp (listGroupActivities st t))
           | Overall \<Rightarrow> []))"

definition listUserAlwaysOnDenies :: "store \<Rightarrow> int \<Rightarrow> schedule_rule list" where
  "listUserAlwaysOnDenies st userId =
     filter (\<lambda>r. sr_action r = Deny \<and> isAlwaysOnRule r) (map fst (gatherUserScheduleRules st userId))"

definition attribution :: "link_row \<Rightarrow> blocked_for" where
  "attribution l = \<lparr>bf_userId = link_userId l, bf_osUsername = link_osUsername l, bf_osUserRef = link_osUserRef l\<rparr>"

type_synonym executable_map = "(string \<times> (int \<times> blocked_for) list) list"

definition block_executable :: "link_row \<Rightarrow> string \<Rightarrow> executable_map \<Rightarrow> executable_map" where
  "block_executable l executable m =
     AList.update executable (AList.update (link_userId l) (attribution l) (nullish (map_of m executable) [])) m"

definition block_for_link :: "store \<Rightarrow> link_row \<Rightarrow> executable_map \<Rightarrow> executable_map" where
  "block_for_link st l =
     fold (\<lambda>r. fold (block_executable l) (executablesForDeny st r)) (listUserAlwaysOnDenies st (link_userId l))"

definition byExecutable :: "db \<Rightarrow> int \<Rightarrow> executable_map" where
  "byExecutable d clientId = fold (block_for_link (db_policy d)) (listClientLinks d clientId) []"

datatype plan_error = No_Client int | Invalid_Plan | Run_Failed ansible_error

definition buildAppArmorPlan :: "(string \<Rightarrow> 'k::linorder) \<Rightarrow> (string \<Rightarrow> string) \<Rightarrow> db \<Rightarrow> int \<Rightarrow> plan_error + apparmor_plan" where
  "buildAppArmorPlan collate sha256 d clientId =
     (case getClient d clientId of
        None \<Rightarrow> Inl (No_Client clientId)
      | Some client \<Rightarrow>
          Inr \<lparr>ap_clientId = clientId, ap_hostname = client_hostname client,
               ap_denials = map (\<lambda>(executable, users).
                   \<lparr>ad_profileName = profileNameFor sha256 executable, ad_executable = executable,
                    ad_blockedFor = sort_key bf_userId (map snd users)\<rparr>)
                 (sort_key (\<lambda>e. collate (fst e)) (byExecutable d clientId))\<rparr>)"

section \<open>e2guardian: which domains are blocked, and when\<close>

definition E2GUARDIAN_PLAYBOOK :: string where "E2GUARDIAN_PLAYBOOK = ''e2guardian-filtering.yml''"
definition FIRST_MANAGED_FILTER_GROUP :: int where "FIRST_MANAGED_FILTER_GROUP = 2"

record e2guardian_window =
  egw_timeTag :: string
  egw_sites :: "string list"

record e2guardian_user_filter =
  eg_osUsername :: string
  eg_osUserRef :: string
  eg_filterGroup :: int
  eg_listenPort :: int
  eg_bannedSites :: "string list"
  eg_windows :: "e2guardian_window list"

record e2guardian_plan =
  egp_proxyPort :: int
  egp_redirectPorts :: "int list"
  egp_users :: "e2guardian_user_filter list"

definition portSchema :: "int \<Rightarrow> bool" where "portSchema p \<longleftrightarrow> 1 \<le> p \<and> p \<le> 65535"

definition e2guardianWindowSchema :: "e2guardian_window \<Rightarrow> bool" where
  "e2guardianWindowSchema w \<longleftrightarrow> egw_timeTag w \<noteq> [] \<and> egw_sites w \<noteq> [] \<and> [] \<notin> set (egw_sites w)"

definition e2guardianUserFilterSchema :: "e2guardian_user_filter \<Rightarrow> bool" where
  "e2guardianUserFilterSchema u \<longleftrightarrow>
     eg_osUsername u \<noteq> [] \<and> eg_osUserRef u \<noteq> [] \<and> FIRST_MANAGED_FILTER_GROUP \<le> eg_filterGroup u
     \<and> portSchema (eg_listenPort u) \<and> [] \<notin> set (eg_bannedSites u) \<and> list_all e2guardianWindowSchema (eg_windows u)"

definition e2guardianPlanSchema :: "e2guardian_plan \<Rightarrow> bool" where
  "e2guardianPlanSchema p \<longleftrightarrow>
     portSchema (egp_proxyPort p) \<and> egp_redirectPorts p \<noteq> [] \<and> list_all portSchema (egp_redirectPorts p)
     \<and> list_all e2guardianUserFilterSchema (egp_users p)"












section \<open>Pushing a plan\<close>

definition apparmor_json :: "apparmor_plan \<Rightarrow> json" where
  "apparmor_json p =
     JObj [(''clientId'', JNum (ap_clientId p)), (''hostname'', JStr (ap_hostname p)),
       (''denials'', JArr (map (\<lambda>x. JObj [(''profileName'', JStr (ad_profileName x)), (''executable'', JStr (ad_executable x)),
          (''blockedFor'', JArr (map (\<lambda>b. JObj [(''userId'', JNum (bf_userId b)), (''osUsername'', JStr (bf_osUsername b)),
             (''osUserRef'', JStr (bf_osUserRef b))]) (ad_blockedFor x)))]) (ap_denials p)))]"

definition planToExtraVars :: "e2guardian_plan \<Rightarrow> json" where
  "planToExtraVars p =
     JObj [(''e2guardian'', JObj [(''proxyPort'', JNum (egp_proxyPort p)), (''redirectPorts'', JArr (map JNum (egp_redirectPorts p))),
       (''users'', JArr (map (\<lambda>u. JObj [(''osUsername'', JStr (eg_osUsername u)), (''osUserRef'', JStr (eg_osUserRef u)),
          (''filterGroup'', JNum (eg_filterGroup u)), (''listenPort'', JNum (eg_listenPort u)),
          (''bannedSites'', JArr (map JStr (eg_bannedSites u))),
          (''windows'', JArr (map (\<lambda>w. JObj [(''timeTag'', JStr (egw_timeTag w)), (''sites'', JArr (map JStr (egw_sites w)))]) (eg_windows u)))])
        (egp_users p)))])]"

definition shortened :: "nat \<Rightarrow> string \<Rightarrow> string" where
  "shortened n m = (if length m > n then take n m @ ellipsis else m)"

fun exitCodeOf :: "ansible_error \<Rightarrow> int option" where
  "exitCodeOf (AnsibleUnreachableError c _ _) = Some c"
| "exitCodeOf (AnsiblePlaybookFailedError c _ _ _) = c"
| "exitCodeOf _ = None"

fun is_unreachable :: "ansible_error \<Rightarrow> bool" where
  "is_unreachable (AnsibleUnreachableError _ _ _) = True"
| "is_unreachable _ = False"

definition run_fields :: "nat \<Rightarrow> ansible_error + ansible_run_result \<Rightarrow> outcome_fields" where
  "run_fields cap r =
     (case r of
        Inr res \<Rightarrow> settled_fields Audit_Ok (Some (arr_exitCode res)) None None
      | Inl e \<Rightarrow> settled_fields (if is_unreachable e then Audit_Unreachable else Audit_Failed) (exitCodeOf e) None
                  (Some (shortened cap (ansible_message e))))"

type_synonym ('l, 'w) push_state = "'l \<times> temp_files \<times> 'w"

text \<open>A run with its audit entry, if there is a sink; the error of the run is given back.\<close>

definition audited_run ::
    "'w ansible_env \<Rightarrow> ('w \<Rightarrow> int) \<Rightarrow> (audit_entry \<Rightarrow> 'l \<Rightarrow> 'l) option \<Rightarrow> nat \<Rightarrow> (int \<Rightarrow> int) \<Rightarrow> target_ref \<Rightarrow> string list \<Rightarrow> audit_context
      \<Rightarrow> run_playbook_options \<Rightarrow> ('l, 'w) push_state \<Rightarrow> (plan_error + ansible_run_result) \<times> ('l, 'w) push_state" where
  "audited_run env now sink cap duration target argv context opts s =
     (case s of (log, files, w) \<Rightarrow>
        case runPlaybook env opts (files, w) of (r, files', w') \<Rightarrow>
          let entry = \<lparr>ae_target = target, ae_command = redactArgv argv, ae_fields = run_fields cap r,
                       ae_durationMs = duration (now w' - now w), ae_context = context\<rparr>
          in ((case r of Inl e \<Rightarrow> Inl (Run_Failed e) | Inr res \<Rightarrow> Inr res),
              (case sink of None \<Rightarrow> log | Some f \<Rightarrow> f entry log), files', w'))"

definition pushAppArmorProfiles ::
    "(string \<Rightarrow> 'k::linorder) \<Rightarrow> (string \<Rightarrow> string) \<Rightarrow> 'w ansible_env \<Rightarrow> ('w \<Rightarrow> int) \<Rightarrow> (audit_entry \<Rightarrow> 'l \<Rightarrow> 'l) option \<Rightarrow> audit_context
      \<Rightarrow> string option \<Rightarrow> db \<Rightarrow> int \<Rightarrow> ('l, 'w) push_state \<Rightarrow> (plan_error + apparmor_plan \<times> ansible_run_result) \<times> ('l, 'w) push_state" where
  "pushAppArmorProfiles collate sha256 env now audit context playbook d clientId s =
     (let pb = nullish playbook APPARMOR_PLAYBOOK in
      case (getClient d clientId, buildAppArmorPlan collate sha256 d clientId) of
        (Some client, Inr plan) \<Rightarrow>
          if \<not> appArmorPlanSchema plan then (Inl Invalid_Plan, s)
          else let target = \<lparr>ref_host = ap_hostname plan, ref_port = DEFAULT_SSH_PORT, ref_username = client_sshUser client\<rparr>;
                   vars = JObj [(''apparmor_plan'', apparmor_json plan)] in
            (case audited_run env now audit 500 (max 0) target
                [''ansible-playbook'', pb, ''--limit'', ap_hostname plan, ''--extra-vars'', json_stringify env vars]
                (context\<lparr>ac_clientId := Some (Some clientId)\<rparr>)
                \<lparr>rp_playbook = pb, rp_hosts = [\<lparr>ah_hostname = ap_hostname plan, ah_sshUser = client_sshUser client\<rparr>],
                 rp_extraVars = Some vars, rp_limit = Some (ap_hostname plan)\<rparr> s of
               (Inl e, s') \<Rightarrow> (Inl e, s')
             | (Inr res, s') \<Rightarrow> (Inr (plan, res), s'))
      | _ \<Rightarrow> (Inl (No_Client clientId), s))"

definition pushE2guardianFiltering ::
    "'w ansible_env \<Rightarrow> ('w \<Rightarrow> int) \<Rightarrow> (audit_entry \<Rightarrow> 'l \<Rightarrow> 'l) option \<Rightarrow> int option \<Rightarrow> string option \<Rightarrow> string option
      \<Rightarrow> ansible_host \<Rightarrow> e2guardian_plan \<Rightarrow> ('l, 'w) push_state \<Rightarrow> (plan_error + ansible_run_result) \<times> ('l, 'w) push_state" where
  "pushE2guardianFiltering env now sink clientId actor reason host plan s =
     (if \<not> e2guardianPlanSchema plan then (Inl Invalid_Plan, s)
      else audited_run env now sink 1000 id
        \<lparr>ref_host = ah_hostname host, ref_port = 22, ref_username = ah_sshUser host\<rparr>
        [''ansible-playbook'', E2GUARDIAN_PLAYBOOK, ''--limit'', ah_hostname host]
        \<lparr>ac_clientId = Some clientId, ac_userId = None, ac_actor = actor, ac_reason = Some reason\<rparr>
        \<lparr>rp_playbook = E2GUARDIAN_PLAYBOOK, rp_hosts = [host], rp_extraVars = Some (planToExtraVars plan),
         rp_limit = Some (ah_hostname host)\<rparr> s)"

section \<open>The blocked executables\<close>

text \<open>What a map says: which executable is blocked for whom. The links of a client differ in their user.\<close>

definition attributions :: "executable_map \<Rightarrow> (string \<times> blocked_for) set" where
  "attributions m = {(e, b). b \<in> snd ` set (nullish (map_of m e) [])}"

definition executables_ok :: "link_row set \<Rightarrow> executable_map \<Rightarrow> bool" where
  "executables_ok L m \<longleftrightarrow>
     distinct (map fst m)
     \<and> (\<forall>(e, us) \<in> set m. us \<noteq> [] \<and> distinct (map fst us) \<and> (\<forall>(u, b) \<in> set us. u = bf_userId b \<and> b \<in> attribution ` L))"

lemma attribution_user [simp]: "bf_userId (attribution l) = link_userId l"
  by (simp add: attribution_def)

lemma looked_up_list: "distinct (map fst m) \<Longrightarrow> x \<in> set (nullish (map_of m k) []) \<longleftrightarrow> (\<exists>xs. (k, xs) \<in> set m \<and> x \<in> set xs)"
proof (cases "map_of m k")
  case None
  then have "(k, xs) \<notin> set m" for xs by (force simp: map_of_eq_None_iff)
  then show ?thesis unfolding None by simp
next
  case (Some ys)
  assume "distinct (map fst m)"
  then have "(k, xs) \<in> set m \<longleftrightarrow> xs = ys" for xs using Some map_of_eq_Some_iff [of m k xs] by auto
  then show ?thesis using Some by simp
qed

lemma set_update_iff: "distinct (map fst m) \<Longrightarrow> set (AList.update k v m) = insert (k, v) {e \<in> set m. fst e \<noteq> k}"
proof (induction m)
  case (Cons e m)
  then show ?case by (cases "fst e = k") (auto simp: rev_image_eqI)
qed simp

lemma block_executable_step:
  assumes ok: "executables_ok L m" and l: "l \<in> L" "inj_on link_userId L"
  shows "executables_ok L (block_executable l e m)
    \<and> attributions (block_executable l e m) = insert (e, attribution l) (attributions m)"
proof -
  let ?old = "nullish (map_of m e) []"
  let ?new = "AList.update (link_userId l) (attribution l) ?old"
  have old: "distinct (map fst ?old)" "\<And>u b. (u, b) \<in> set ?old \<Longrightarrow> u = bf_userId b \<and> b \<in> attribution ` L"
  proof -
    have "distinct (map fst us) \<and> (\<forall>(u, b) \<in> set us. u = bf_userId b \<and> b \<in> attribution ` L)" if "map_of m e = Some us" for us
      using ok map_of_SomeD [OF that] by (auto simp: executables_ok_def)
    then show "distinct (map fst ?old)" "\<And>u b. (u, b) \<in> set ?old \<Longrightarrow> u = bf_userId b \<and> b \<in> attribution ` L"
      by (cases "map_of m e"; fastforce)+
  qed
  have users: "set ?new = insert (link_userId l, attribution l) (set ?old)"
  proof -
    have "(u, b) = (link_userId l, attribution l)" if "(u, b) \<in> set ?old" "u = link_userId l" for u b
      using old(2) [OF that(1)] that(2) l by (auto dest: inj_onD)
    then show ?thesis using set_update_iff [OF old(1)] by fastforce
  qed
  have ok': "executables_ok L (AList.update e ?new m)"
    using ok old l(1) distinct_keys_update [OF old(1)] users
    by (auto simp: executables_ok_def set_update_iff distinct_keys_update update_nonempty)
  have "attributions (AList.update e ?new m) = insert (e, attribution l) (attributions m)"
    using users by (auto simp: attributions_def split: if_splits)
  with ok' show ?thesis by (simp add: block_executable_def)
qed

lemma fold_attributions:
  assumes "\<And>x m. x \<in> set xs \<Longrightarrow> executables_ok L m \<Longrightarrow> executables_ok L (f x m) \<and> attributions (f x m) = attributions m \<union> A x"
    and "executables_ok L m"
  shows "executables_ok L (fold f xs m) \<and> attributions (fold f xs m) = attributions m \<union> (\<Union>x \<in> set xs. A x)"
  using assms by (induction xs arbitrary: m) auto

definition hard_denied :: "store \<Rightarrow> int \<Rightarrow> string set" where
  "hard_denied st userId =
     {act_matcher a | a r src t. (r, src) \<in> set (gatherUserScheduleRules st userId) \<and> sr_action r = Deny
        \<and> isAlwaysOnRule r \<and> sr_targetId r = Some t \<and> isMappableApp a
        \<and> (sr_targetKind r = Activity \<and> getActivity st t = Some a
           \<or> sr_targetKind r = Group \<and> a \<in> set (listGroupActivities st t))}"

lemma hard_denied_rules: "(\<Union>r \<in> set (listUserAlwaysOnDenies st u). set (executablesForDeny st r)) = hard_denied st u"
proof -
  have "e \<in> set (executablesForDeny st r) \<longleftrightarrow> (\<exists>a t. e = act_matcher a \<and> sr_targetId r = Some t
      \<and> isMappableApp a \<and> (sr_targetKind r = Activity \<and> getActivity st t = Some a
           \<or> sr_targetKind r = Group \<and> a \<in> set (listGroupActivities st t)))" for e r
    by (cases "sr_targetId r"; cases "sr_targetKind r") (auto simp: executablesForDeny_def split: option.splits)
  moreover have "(\<Union>r \<in> set (listUserAlwaysOnDenies st u). set (executablesForDeny st r))
      = {e. \<exists>r src. (r, src) \<in> set (gatherUserScheduleRules st u) \<and> sr_action r = Deny \<and> isAlwaysOnRule r \<and> e \<in> set (executablesForDeny st r)}"
    by (force simp: listUserAlwaysOnDenies_def)
  ultimately show ?thesis unfolding hard_denied_def by blast
qed

lemma byExecutable_exact:
  assumes "inj_on link_userId (set (listClientLinks d c))"
  shows "executables_ok (set (listClientLinks d c)) (byExecutable d c)
    \<and> attributions (byExecutable d c) = (\<Union>l \<in> set (listClientLinks d c). hard_denied (db_policy d) (link_userId l) \<times> {attribution l})"
proof -
  let ?L = "set (listClientLinks d c)" and ?st = "db_policy d"
  have executables: "executables_ok ?L (fold (block_executable l) es m) \<and> attributions (fold (block_executable l) es m) = attributions m \<union> (\<Union>e \<in> set es. {(e, attribution l)})"
    if "executables_ok ?L m" "l \<in> ?L" for l es m
    using fold_attributions [of es ?L "block_executable l" "\<lambda>e. {(e, attribution l)}", OF _ that(1)] block_executable_step [OF _ that(2) assms] by auto
  have rules: "executables_ok ?L (block_for_link ?st l m) \<and> attributions (block_for_link ?st l m) = attributions m \<union> hard_denied ?st (link_userId l) \<times> {attribution l}"
    if "executables_ok ?L m" "l \<in> ?L" for l m
    using fold_attributions [of "listUserAlwaysOnDenies ?st (link_userId l)" ?L "\<lambda>r. fold (block_executable l) (executablesForDeny ?st r)"
        "\<lambda>r. \<Union>e \<in> set (executablesForDeny ?st r). {(e, attribution l)}", OF _ that(1)] executables [OF _ that(2)]
    unfolding block_for_link_def hard_denied_rules [symmetric] by auto
  have "executables_ok ?L []" "attributions [] = {}" by (simp_all add: executables_ok_def attributions_def)
  then show ?thesis
    using fold_attributions [of "listClientLinks d c" ?L "block_for_link ?st" "\<lambda>l. hard_denied ?st (link_userId l) \<times> {attribution l}" "[]"] rules
    by (simp add: byExecutable_def)
qed

lemma client_links_distinct: "api_ok d \<Longrightarrow> inj_on link_userId (set (listClientLinks d c))"
  by (auto simp: api_ok_def db_ok_def links_ok_def listClientLinks_def inj_on_def distinct_map link_key_def dest: inj_onD)

text \<open>
  C27: In every reachable state the AppArmor plan of a client blocks exactly what policy says: an executable, for a user
  linked to the client, when an always-on denial of the user or of a group of the user names it directly or through
  an activity group. Each executable has one profile, attributed to at least one user.
\<close>

theorem apparmor_plan_exact:
  "case buildAppArmorPlan collate sha256 (fst (served rs)) c of
     Inl _ \<Rightarrow> getClient (fst (served rs)) c = None
   | Inr plan \<Rightarrow>
       {(ad_executable x, b) | x b. x \<in> set (ap_denials plan) \<and> b \<in> set (ad_blockedFor x)}
         = {(e, attribution l) | e l. l \<in> set (listClientLinks (fst (served rs)) c) \<and> e \<in> hard_denied (db_policy (fst (served rs))) (link_userId l)}
       \<and> distinct (map ad_executable (ap_denials plan))
       \<and> list_all (\<lambda>x. ad_blockedFor x \<noteq> [] \<and> sorted (map bf_userId (ad_blockedFor x)) \<and> distinct (map bf_userId (ad_blockedFor x))
            \<and> ad_profileName x = profileNameFor sha256 (ad_executable x)) (ap_denials plan)"
proof (cases "getClient (fst (served rs)) c")
  case None
  then show ?thesis by (simp add: buildAppArmorPlan_def)
next
  case (Some client)
  let ?d = "fst (served rs)"
  let ?m = "byExecutable ?d c"
  have "inj_on link_userId (set (listClientLinks ?d c))" by (rule client_links_distinct [OF served_ok])
  note exact = byExecutable_exact [OF this]
  have inner: "map bf_userId (map snd us) = map fst us" if "(e, us) \<in> set ?m" for e us
    using exact that by (fastforce simp: executables_ok_def)
  have keys: "distinct (map fst ?m)" using exact by (simp add: executables_ok_def)
  have pairs: "{(e, b). \<exists>us. (e, us) \<in> set ?m \<and> b \<in> snd ` set us} = attributions ?m"
    unfolding attributions_def image_iff Bex_def looked_up_list [OF keys] by blast
  show ?thesis
    unfolding buildAppArmorPlan_def Some option.case sum.case
  proof (intro conjI, goal_cases)
    case 1
    have "{(ad_executable x, b) | x b. x \<in> set (ap_denials \<lparr>ap_clientId = c, ap_hostname = client_hostname client,
               ap_denials = map (\<lambda>(executable, users).
                   \<lparr>ad_profileName = profileNameFor sha256 executable, ad_executable = executable,
                    ad_blockedFor = sort_key bf_userId (map snd users)\<rparr>) (sort_key (\<lambda>e. collate (fst e)) ?m)\<rparr>) \<and> b \<in> set (ad_blockedFor x)}
        = {(e, b). \<exists>us. (e, us) \<in> set ?m \<and> b \<in> snd ` set us}"
      by (auto simp: image_iff) force+
    then show ?case unfolding pairs using exact by auto
  next
    case 2
    have "distinct (map fst (sort_key (\<lambda>e. collate (fst e)) ?m))" using keys by (simp add: distinct_map_sort_key)
    then show ?case by (simp add: comp_def case_prod_beta')
  next
    case 3
    have "distinct (map fst us) \<and> us \<noteq> []" if "(e, us) \<in> set ?m" for e us
      using exact that by (fastforce simp: executables_ok_def)
    moreover have "distinct (map bf_userId (sort_key bf_userId (map snd us)))" if "distinct (map fst us)" "(e, us) \<in> set ?m" for e us
      using that(1) unfolding distinct_map_sort_key inner [OF that(2)] .
    ultimately have "\<forall>x \<in> set ?m. sort_key bf_userId (map snd (snd x)) \<noteq> []
        \<and> distinct (map bf_userId (sort_key bf_userId (map snd (snd x))))"
      by (metis length_0_conv length_map length_sort prod.collapse)
    then show ?case by (auto simp: list_all_iff case_prod_beta')
  qed
qed

section \<open>The time tags\<close>




lemma set_js_join_plain [simp]: "set (js_join [] xs) = (\<Union>x \<in> set xs. set x)"
  by (induction "[] :: string" xs rule: js_join.induct) auto















section \<open>The blocked domains\<close>











section \<open>The rules behind them\<close>











section \<open>A proxy\<close>









end
