(* ===== verification/Reapply.thy ===== *)
theory Reapply
  imports Client_Filters
begin

text \<open>
  The periodic re-apply that reverts local changes (\<open>transport/reapply/scheduler.ts\<close>): one pass over the clients, the
  playbooks of one client with their audit entries, and the back-off of a client that failed. Loading the clients,
  the probe, the runner and the clocks are parameters over a world of their own; a pass does not overlap another
  (the timer suppresses that).
\<close>

section \<open>State\<close>

definition REAPPLY_AUDIT_REASON :: string where "REAPPLY_AUDIT_REASON = ''periodic-reapply''"

definition DEFAULT_REAPPLY_PLATFORMS :: "platform list" where "DEFAULT_REAPPLY_PLATFORMS = [Linux]"

record reapply_target =
  rt_id :: int
  rt_hostname :: string
  rt_sshUser :: string
  rt_platform :: platform

record reapply_backoff =
  rb_baseMs :: int
  rb_maxMs :: int

definition DEFAULT_REAPPLY_BACKOFF :: reapply_backoff where
  "DEFAULT_REAPPLY_BACKOFF = \<lparr>rb_baseMs = 5 * 60 * 1000, rb_maxMs = 6 * 60 * 60 * 1000\<rparr>"

record backoff_state =
  bo_failures :: nat
  bo_nextEligibleAt :: instant

text \<open>A probe may reject; the runner answers with an error or a result.\<close>

record 'w reapply_env =
  re_loadClients :: "'w \<Rightarrow> reapply_target list"
  re_probe :: "int \<Rightarrow> 'w \<Rightarrow> (string + bool) \<times> 'w"
  re_runner :: "run_playbook_options \<Rightarrow> 'w \<Rightarrow> (ansible_error + ansible_run_result) \<times> 'w"
  re_playbooks :: "string list"
  re_backoff :: reapply_backoff
  re_now :: "'w \<Rightarrow> instant"
  re_timer :: "'w \<Rightarrow> int"
  re_platforms :: "platform list"

record 'w reapply_state =
  rs_backoff :: "(int \<times> backoff_state) list"
  rs_audit :: "audit_entry list"
  rs_world :: 'w

section \<open>One client\<close>

text \<open>The audit fields of a run, and whether it is retryable.\<close>

definition run_outcome :: "ansible_error + ansible_run_result \<Rightarrow> outcome_fields \<times> bool" where
  "run_outcome r =
     (case r of
        Inr _ \<Rightarrow> (settled_fields Audit_Ok (Some 0) None None, False)
      | Inl err \<Rightarrow>
          let message = Some (truncate_message (ansible_message err)) in
          case err of
            AnsibleUnreachableError c _ _ \<Rightarrow> (settled_fields Audit_Unreachable (Some c) None message, True)
          | AnsiblePlaybookFailedError c _ _ _ \<Rightarrow> (settled_fields Audit_Failed c None message, False)
          | _ \<Rightarrow> (settled_fields Audit_Failed None None message, False))"

definition backoff_delay :: "reapply_backoff \<Rightarrow> nat \<Rightarrow> int" where
  "backoff_delay b failures = min (rb_baseMs b * 2 ^ (failures - 1)) (rb_maxMs b)"

definition record_failure :: "'w reapply_env \<Rightarrow> int \<Rightarrow> 'w reapply_state \<Rightarrow> 'w reapply_state" where
  "record_failure env clientId s =
     (let failures = (case map_of (rs_backoff s) clientId of None \<Rightarrow> 0 | Some b \<Rightarrow> bo_failures b) + 1;
          delay = backoff_delay (re_backoff env) failures
      in s\<lparr>rs_backoff := AList.update clientId \<lparr>bo_failures = failures, bo_nextEligibleAt = re_now env (rs_world s) + delay\<rparr> (rs_backoff s)\<rparr>)"

definition run_one_playbook :: "'w reapply_env \<Rightarrow> reapply_target \<Rightarrow> string \<Rightarrow> 'w reapply_state \<Rightarrow> (outcome_fields \<times> bool) \<times> 'w reapply_state" where
  "run_one_playbook env client playbook s =
     (let startedAt = re_timer env (rs_world s);
          command = redactArgv [''ansible-playbook'', playbook, ''--limit'', rt_hostname client];
          host = \<lparr>ah_hostname = rt_hostname client, ah_sshUser = rt_sshUser client\<rparr>
      in case re_runner env \<lparr>rp_playbook = playbook, rp_hosts = [host], rp_extraVars = None, rp_limit = Some (rt_hostname client)\<rparr> (rs_world s) of
           (r, w) \<Rightarrow>
             let entry = \<lparr>ae_target = \<lparr>ref_host = rt_hostname client, ref_port = DEFAULT_SSH_PORT, ref_username = rt_sshUser client\<rparr>,
                          ae_command = command, ae_fields = fst (run_outcome r), ae_durationMs = re_timer env w - startedAt,
                          ae_context = \<lparr>ac_clientId = Some (Some (rt_id client)), ac_userId = Some None, ac_actor = Some ''system'',
                                        ac_reason = Some (Some REAPPLY_AUDIT_REASON)\<rparr>\<rparr>
             in (run_outcome r, s\<lparr>rs_audit := rs_audit s @ [entry], rs_world := w\<rparr>))"

text \<open>The playbooks in order: \<open>None\<close> when the client went away, else whether one failed.\<close>

fun run_playbooks :: "'w reapply_env \<Rightarrow> reapply_target \<Rightarrow> string list \<Rightarrow> bool \<Rightarrow> 'w reapply_state \<Rightarrow> bool option \<times> 'w reapply_state" where
  "run_playbooks env client [] anyFailed s = (Some anyFailed, s)"
| "run_playbooks env client (p # ps) anyFailed s =
     (case run_one_playbook env client p s of
        ((f, deferred), s') \<Rightarrow>
          if deferred then (None, s')
          else run_playbooks env client ps (anyFailed \<or> of_outcome f \<noteq> Audit_Ok) s')"

definition reapplyClient :: "'w reapply_env \<Rightarrow> reapply_target \<Rightarrow> 'w reapply_state \<Rightarrow> 'w reapply_state" where
  "reapplyClient env client s =
     (case run_playbooks env client (re_playbooks env) False s of
        (None, s') \<Rightarrow> s'
      | (Some anyFailed, s') \<Rightarrow>
          if anyFailed then record_failure env (rt_id client) s'
          else s'\<lparr>rs_backoff := AList.delete (rt_id client) (rs_backoff s')\<rparr>)"

section \<open>A pass\<close>

definition in_backoff :: "'w reapply_env \<Rightarrow> int \<Rightarrow> 'w reapply_state \<Rightarrow> bool" where
  "in_backoff env clientId s \<longleftrightarrow>
     (case map_of (rs_backoff s) clientId of None \<Rightarrow> False | Some b \<Rightarrow> re_now env (rs_world s) < bo_nextEligibleAt b)"

definition reapply_step :: "'w reapply_env \<Rightarrow> 'w reapply_state \<Rightarrow> reapply_target \<Rightarrow> 'w reapply_state" where
  "reapply_step env s client =
     (if rt_platform client \<notin> set (re_platforms env) then s
      else if in_backoff env (rt_id client) s then s
      else case re_probe env (rt_id client) (rs_world s) of
        (Inl _, w) \<Rightarrow> s\<lparr>rs_world := w\<rparr>
      | (Inr online, w) \<Rightarrow>
          if \<not> online then s\<lparr>rs_world := w\<rparr> else reapplyClient env client (s\<lparr>rs_world := w\<rparr>))"

definition reapply_tick :: "'w reapply_env \<Rightarrow> 'w reapply_state \<Rightarrow> 'w reapply_state" where
  "reapply_tick env s =
     (if re_playbooks env = [] then s else foldl (reapply_step env) s (re_loadClients env (rs_world s)))"

section \<open>What a client's playbooks leave behind\<close>

lemma run_outcome_retriable: "snd (run_outcome r) \<longleftrightarrow> of_outcome (fst (run_outcome r)) = Audit_Unreachable"
  by (auto simp: run_outcome_def Let_def settled_fields_def split: sum.splits ansible_error.splits)

definition entry_outcome :: "audit_entry \<Rightarrow> audit_outcome" where
  "entry_outcome e = of_outcome (ae_fields e)"

lemma run_one_effect:
  "run_one_playbook env client p s = ((f, b), s') \<Longrightarrow>
     rs_backoff s' = rs_backoff s \<and> (\<exists>e. rs_audit s' = rs_audit s @ [e] \<and> entry_outcome e = of_outcome f)
     \<and> (b \<longleftrightarrow> of_outcome f = Audit_Unreachable)"
proof -
  assume run: "run_one_playbook env client p s = ((f, b), s')"
  obtain r w where r: "re_runner env \<lparr>rp_playbook = p, rp_hosts = [\<lparr>ah_hostname = rt_hostname client, ah_sshUser = rt_sshUser client\<rparr>],
      rp_extraVars = None, rp_limit = Some (rt_hostname client)\<rparr> (rs_world s) = (r, w)" by (metis prod.exhaust)
  then have "run_outcome r = (f, b)" "s' = s\<lparr>rs_audit := rs_audit s', rs_world := w\<rparr>"
      "\<exists>e. rs_audit s' = rs_audit s @ [e] \<and> entry_outcome e = of_outcome (fst (run_outcome r))"
    using run by (auto simp: run_one_playbook_def Let_def entry_outcome_def)
  then show ?thesis using run_outcome_retriable [of r] by (metis fst_conv snd_conv reapply_state.select_convs(1) reapply_state.surjective reapply_state.update_convs(2,3))
qed

lemma run_playbooks_effect:
  "run_playbooks env client ps failed s = (r, s') \<Longrightarrow>
     rs_backoff s' = rs_backoff s \<and>
     (\<exists>es. rs_audit s' = rs_audit s @ es
       \<and> (case r of
            None \<Rightarrow> es \<noteq> [] \<and> length es \<le> length ps \<and> entry_outcome (last es) = Audit_Unreachable
              \<and> Audit_Unreachable \<notin> entry_outcome ` set (butlast es)
          | Some b \<Rightarrow> length es = length ps \<and> Audit_Unreachable \<notin> entry_outcome ` set es
              \<and> (b \<longleftrightarrow> failed \<or> \<not> list_all (\<lambda>e. entry_outcome e = Audit_Ok) es)))"
proof (induction ps arbitrary: failed s)
  case (Cons p ps)
  obtain f b s1 where one: "run_one_playbook env client p s = ((f, b), s1)" by (metis prod.exhaust)
  obtain e where e: "rs_backoff s1 = rs_backoff s" "rs_audit s1 = rs_audit s @ [e]" "entry_outcome e = of_outcome f"
    "b \<longleftrightarrow> of_outcome f = Audit_Unreachable"
    using run_one_effect [OF one] by blast
  show ?case
  proof (cases b)
    case True
    then show ?thesis using Cons.prems one e by (auto intro!: exI [of _ "[e]"])
  next
    case False
    then have rest: "run_playbooks env client ps (failed \<or> of_outcome f \<noteq> Audit_Ok) s1 = (r, s')" using Cons.prems one by simp
    from Cons.IH [OF this] obtain es where "rs_backoff s' = rs_backoff s" "rs_audit s' = rs_audit s @ (e # es)"
      and es: "case r of
            None \<Rightarrow> es \<noteq> [] \<and> length es \<le> length ps \<and> entry_outcome (last es) = Audit_Unreachable
              \<and> Audit_Unreachable \<notin> entry_outcome ` set (butlast es)
          | Some b \<Rightarrow> length es = length ps \<and> Audit_Unreachable \<notin> entry_outcome ` set es
              \<and> (b \<longleftrightarrow> (failed \<or> of_outcome f \<noteq> Audit_Ok) \<or> \<not> list_all (\<lambda>e. entry_outcome e = Audit_Ok) es)"
      using e by auto
    then show ?thesis using e(3,4) False by (intro conjI exI [of _ "e # es"]) (auto split: option.splits)
  qed
qed (auto intro!: exI [of _ "[]"])

text \<open>A world whose clock never goes back.\<close>

definition clock_forward :: "'w reapply_env \<Rightarrow> bool" where
  "clock_forward env \<longleftrightarrow>
     (\<forall>i w. re_now env w \<le> re_now env (snd (re_probe env i w)))
     \<and> (\<forall>o' w. re_now env w \<le> re_now env (snd (re_runner env o' w)))"

definition backoffs_bounded :: "'w reapply_env \<Rightarrow> 'w reapply_state \<Rightarrow> bool" where
  "backoffs_bounded env s \<longleftrightarrow>
     (\<forall>i b. map_of (rs_backoff s) i = Some b \<longrightarrow>
        1 \<le> bo_failures b \<and> bo_nextEligibleAt b \<le> re_now env (rs_world s) + backoff_delay (re_backoff env) (bo_failures b))"

lemma backoffs_bounded_later:
  assumes "backoffs_bounded env s" "rs_backoff s' = rs_backoff s" "re_now env (rs_world s) \<le> re_now env (rs_world s')"
  shows "backoffs_bounded env s'"
  using assms by (fastforce simp: backoffs_bounded_def)

lemma run_playbooks_later:
  assumes "clock_forward env" "run_playbooks env client ps failed s = (r, s')"
  shows "re_now env (rs_world s) \<le> re_now env (rs_world s')"
  using assms(2)
proof (induction ps arbitrary: failed s)
  case (Cons p ps)
  obtain f b s1 where one: "run_one_playbook env client p s = ((f, b), s1)" by (metis prod.exhaust)
  have "re_now env (rs_world s) \<le> re_now env (rs_world s1)"
    using one assms(1) by (auto simp: run_one_playbook_def Let_def clock_forward_def split: prod.splits) (metis snd_conv)+
  moreover have "re_now env (rs_world s1) \<le> re_now env (rs_world s')"
    using Cons.IH Cons.prems one by (auto split: if_splits)
  ultimately show ?case by simp
qed simp

lemma reapply_step_bounded:
  assumes "clock_forward env" "backoffs_bounded env s"
  shows "backoffs_bounded env (reapply_step env s client)"
proof -
  obtain x w where p: "re_probe env (rt_id client) (rs_world s) = (x, w)" by (metis prod.exhaust)
  let ?s1 = "s\<lparr>rs_world := w\<rparr>"
  have "re_now env (rs_world s) \<le> re_now env w" using assms(1) p unfolding clock_forward_def by (metis snd_conv)
  then have s1: "backoffs_bounded env ?s1" using backoffs_bounded_later [OF assms(2), of ?s1] by simp
  obtain r s2 where run: "run_playbooks env client (re_playbooks env) False ?s1 = (r, s2)" by (metis prod.exhaust)
  have "backoffs_bounded env s2"
    using backoffs_bounded_later [OF s1] run_playbooks_effect [OF run] run_playbooks_later [OF assms(1) run] by blast
  then have "backoffs_bounded env (reapplyClient env client ?s1)"
    by (auto simp: reapplyClient_def run record_failure_def Let_def backoffs_bounded_def delete_conv' split: option.splits)
  then show ?thesis using assms(2) s1 by (auto simp: reapply_step_def p split: sum.splits)
qed

lemma reapply_tick_bounded: "clock_forward env \<Longrightarrow> backoffs_bounded env s \<Longrightarrow> backoffs_bounded env (reapply_tick env s)"
proof -
  have "backoffs_bounded env (foldl (reapply_step env) s cs)" if "clock_forward env" "backoffs_bounded env s" for cs
    using that by (induction cs arbitrary: s) (simp_all add: reapply_step_bounded)
  then show "clock_forward env \<Longrightarrow> backoffs_bounded env s \<Longrightarrow> ?thesis" by (simp add: reapply_tick_def)
qed

section \<open>Properties\<close>

text \<open>
  C29: What the re-apply of a client leaves behind follows from the audit entries it adds, one per playbook run and in
  their order: the first unreachable run ends it and leaves the back-off as it was, otherwise every playbook was run,
  a failure counts one more failed pass, and only a clean pass clears the back-off. Other clients are not touched.
\<close>

theorem reapply_follows_audit:
  "\<exists>es. rs_audit (reapplyClient env client s) = rs_audit s @ es
     \<and> map_of (rs_backoff (reapplyClient env client s)) =
       (if Audit_Unreachable \<in> entry_outcome ` set es then map_of (rs_backoff s)
        else if list_all (\<lambda>e. entry_outcome e = Audit_Ok) es then (map_of (rs_backoff s)) (rt_id client := None)
        else let n = (case map_of (rs_backoff s) (rt_id client) of None \<Rightarrow> 0 | Some b \<Rightarrow> bo_failures b) + 1
             in (map_of (rs_backoff s)) (rt_id client \<mapsto>
                  \<lparr>bo_failures = n, bo_nextEligibleAt = re_now env (rs_world (reapplyClient env client s)) + backoff_delay (re_backoff env) n\<rparr>))
     \<and> (if Audit_Unreachable \<in> entry_outcome ` set es
        then length es \<le> length (re_playbooks env) \<and> Audit_Unreachable \<notin> entry_outcome ` set (butlast es)
        else length es = length (re_playbooks env))"
proof -
  obtain r s' where run: "run_playbooks env client (re_playbooks env) False s = (r, s')" by (metis prod.exhaust)
  from run_playbooks_effect [OF run] obtain es where es: "rs_backoff s' = rs_backoff s" "rs_audit s' = rs_audit s @ es"
    "case r of
       None \<Rightarrow> es \<noteq> [] \<and> length es \<le> length (re_playbooks env) \<and> entry_outcome (last es) = Audit_Unreachable
         \<and> Audit_Unreachable \<notin> entry_outcome ` set (butlast es)
     | Some b \<Rightarrow> length es = length (re_playbooks env) \<and> Audit_Unreachable \<notin> entry_outcome ` set es
         \<and> (b \<longleftrightarrow> False \<or> \<not> list_all (\<lambda>e. entry_outcome e = Audit_Ok) es)"
    by blast
  show ?thesis
  proof (cases r)
    case None
    then have "Audit_Unreachable \<in> entry_outcome ` set es" using es(3) by (auto intro: image_eqI [of _ _ "last es"])
    then show ?thesis using es None by (intro exI [of _ es]) (simp add: reapplyClient_def run)
  next
    case (Some b)
    then show ?thesis using es
      by (intro exI [of _ es]) (auto simp: reapplyClient_def run record_failure_def Let_def delete_conv')
  qed
qed

text \<open>
  C28: No client is kept waiting for longer than the configured ceiling: after any number of passes, over a clock that
  does not go back, a client in back-off has failed at least once and is eligible again after at most the delay of its
  failures from now, which is at most the ceiling.
\<close>

theorem reapply_backoff_bounded:
  assumes "clock_forward env" "map_of (rs_backoff ((reapply_tick env ^^ n) \<lparr>rs_backoff = [], rs_audit = [], rs_world = w\<rparr>)) i = Some b"
  shows "1 \<le> bo_failures b
    \<and> bo_nextEligibleAt b - re_now env (rs_world ((reapply_tick env ^^ n) \<lparr>rs_backoff = [], rs_audit = [], rs_world = w\<rparr>))
      \<le> min (rb_baseMs (re_backoff env) * 2 ^ (bo_failures b - 1)) (rb_maxMs (re_backoff env))"
proof -
  have "backoffs_bounded env ((reapply_tick env ^^ n) \<lparr>rs_backoff = [], rs_audit = [], rs_world = w\<rparr>)"
    by (induction n) (simp_all add: backoffs_bounded_def [of _ "\<lparr>rs_backoff = [], rs_audit = [], rs_world = w\<rparr>"] reapply_tick_bounded [OF assms(1)])
  then show ?thesis using assms(2) by (fastforce simp: backoffs_bounded_def backoff_delay_def)
qed

text \<open>A client whose playbook always fails, on a clock that a run moves by a second.\<close>

definition failing_env :: "int reapply_env" where
  "failing_env =
     \<lparr>re_loadClients = (\<lambda>_. [\<lparr>rt_id = 4, rt_hostname = ''kids-pc'', rt_sshUser = ''pct-agent'', rt_platform = Linux\<rparr>]),
      re_probe = (\<lambda>_ w. (Inr True, w)), re_runner = (\<lambda>_ w. (Inl (AnsiblePlaybookFailedError (Some 2) [] [] None), w + 1000)),
      re_playbooks = [''apparmor-profiles.yml''], re_backoff = DEFAULT_REAPPLY_BACKOFF, re_now = id, re_timer = id,
      re_platforms = DEFAULT_REAPPLY_PLATFORMS\<rparr>"

lemma reapply_backoff_bounded_witness:
  "map_of (rs_backoff ((reapply_tick failing_env ^^ 2) \<lparr>rs_backoff = [], rs_audit = [], rs_world = 0\<rparr>)) 4
     = Some \<lparr>bo_failures = 1, bo_nextEligibleAt = 301000\<rparr> \<and> (301000 :: int) - 1000 \<le> 300000"
proof -
  have forward: "clock_forward failing_env" by (simp add: clock_forward_def failing_env_def)
  have run: "map_of (rs_backoff ((reapply_tick failing_env ^^ 2) \<lparr>rs_backoff = [], rs_audit = [], rs_world = 0\<rparr>)) 4
     = Some \<lparr>bo_failures = 1, bo_nextEligibleAt = 301000\<rparr>"
    by code_simp
  show ?thesis using reapply_backoff_bounded [OF forward run] run by simp
qed

end
