(* ===== verification/Policy_Delivery.thy ===== *)
theory Policy_Delivery
  imports Policy_Invariant
begin

text \<open>
  Which accepted requests reach the clients. The policy of a user is what the push executor and the resolvers read
  for the user: the time zone, the rules, budgets and exceptions gathered from the user and the groups of the user,
  and the notification settings. A frame lemma per write says whose policy it can change; the routes are then
  compared with the commands they hand to the push. Last comes what the push of a deleted link, and of a deleted
  user, does on the hosts.
\<close>

section \<open>The policy of a user\<close>

definition policy_of ::
    "db \<Rightarrow> int \<Rightarrow> string option option \<times> gathered_rule list \<times> gathered_budget list \<times> exception_input list \<times> notification_row option" where
  "policy_of d u =
     (map_option user_tz (getUser d u), gatherUserScheduleRules (db_policy d) u, gatherUserBudgets (db_policy d) u,
      gatherUserExceptions (db_policy d) u, getNotificationPolicy (db_policy d) u)"

definition member_groups :: "store \<Rightarrow> int \<Rightarrow> int list" where
  "member_groups st u = map fst (listUserGroupsForUser st u)"

definition own_view ::
    "store \<Rightarrow> int \<Rightarrow> schedule_rule list \<times> budget_input list \<times> exception_input list \<times> notification_row option \<times> int list" where
  "own_view st u = (listUserSchedules st u, listUserBudgets st u, listUserExceptions st u, getNotificationPolicy st u, member_groups st u)"

definition group_view :: "store \<Rightarrow> int \<Rightarrow> schedule_rule list \<times> budget_input list \<times> exception_input list" where
  "group_view st g = (listGroupSchedules st g, listGroupBudgets st g, listGroupExceptions st g)"

lemma gather_rules_groups:
  "gatherUserScheduleRules st u =
     resequence (sort_key (\<lambda>g. rule_rank (fst g)) (map (\<lambda>r. (pickScheduleRuleFields r, From_User)) (listUserSchedules st u))
       @ concat (map (\<lambda>k. map (\<lambda>r. (pickScheduleRuleFields r, From_Group k)) (listGroupSchedules st k)) (member_groups st u)))"
  by (simp add: gatherUserScheduleRules_def mergeScheduleRulesWithGroups_def Let_def member_groups_def comp_def)

definition inherit_budgets :: "store \<Rightarrow> budget_merge \<Rightarrow> int \<Rightarrow> budget_merge" where
  "inherit_budgets st acc k = inherit_group st acc (k, [])"

lemma inherit_budgets_fst [simp]: "inherit_budgets st acc (fst g) = inherit_group st acc g"
  by (simp add: inherit_budgets_def inherit_group_def)

lemma gather_budgets_groups:
  "gatherUserBudgets st u =
     fst (foldl (inherit_budgets st) (foldl own_budget ([], []) (listUserBudgets st u)) (member_groups st u))"
  by (simp add: gatherUserBudgets_def mergeBudgetsWithGroups_def member_groups_def foldl_map)

lemma gather_exceptions_groups:
  "gatherUserExceptions st u =
     sort_key newestFirst (map pickExceptionFields (listUserExceptions st u))
     @ concat (map (\<lambda>k. sort_key newestFirst (map pickExceptionFields (listGroupExceptions st k))) (member_groups st u))"
  by (simp add: gatherUserExceptions_def member_groups_def comp_def)

lemma policy_of_frame:
  assumes tz: "map_option user_tz (getUser d' u) = map_option user_tz (getUser d u)"
    and own: "own_view (db_policy d') u = own_view (db_policy d) u"
    and groups: "\<And>g. g \<in> set (member_groups (db_policy d) u) \<Longrightarrow> group_view (db_policy d') g = group_view (db_policy d) g"
  shows "policy_of d' u = policy_of d u"
proof -
  have m: "member_groups (db_policy d') u = member_groups (db_policy d) u" using own by (simp add: own_view_def)
  have g: "listGroupSchedules (db_policy d') k = listGroupSchedules (db_policy d) k
      \<and> listGroupBudgets (db_policy d') k = listGroupBudgets (db_policy d) k
      \<and> listGroupExceptions (db_policy d') k = listGroupExceptions (db_policy d) k"
    if "k \<in> set (member_groups (db_policy d) u)" for k
    using groups [OF that] by (simp add: group_view_def)
  have "gatherUserScheduleRules (db_policy d') u = gatherUserScheduleRules (db_policy d) u"
    unfolding gather_rules_groups m using own g by (simp add: own_view_def cong: map_cong)
  moreover have "gatherUserBudgets (db_policy d') u = gatherUserBudgets (db_policy d) u"
    unfolding gather_budgets_groups m using own g
    by (simp add: own_view_def inherit_budgets_def inherit_group_def cong: foldl_cong)
  moreover have "gatherUserExceptions (db_policy d') u = gatherUserExceptions (db_policy d) u"
    unfolding gather_exceptions_groups m using own g by (simp add: own_view_def cong: map_cong)
  ultimately show ?thesis using tz own by (simp add: policy_of_def own_view_def)
qed

lemma set_member_groups: "set (member_groups st u) = {g. (u, g) \<in> set (st_memberships st) \<and> g \<in> group_ids st}"
  by (force simp: member_groups_def listUserGroupsForUser_def)

text \<open>A write that no rule, budget, exception, setting or membership depends on.\<close>

lemma same_views:
  assumes "st_groups st' = st_groups st" "st_memberships st' = st_memberships st" "st_budgets st' = st_budgets st"
    "st_groupBudgets st' = st_groupBudgets st" "st_schedules st' = st_schedules st" "st_groupSchedules st' = st_groupSchedules st"
    "st_exceptions st' = st_exceptions st" "st_groupExceptions st' = st_groupExceptions st" "st_notifications st' = st_notifications st"
  shows "own_view st' = own_view st" "group_view st' = group_view st"
  unfolding fun_eq_iff own_view_def group_view_def member_groups_def listUserGroupsForUser_def listUserSchedules_def
    listUserBudgets_def listUserExceptions_def getNotificationPolicy_def listGroupSchedules_def listGroupBudgets_def
    listGroupExceptions_def assms
  by simp_all

section \<open>Whose policy a write can change\<close>

definition only_user :: "int \<Rightarrow> store \<Rightarrow> store \<Rightarrow> bool" where
  "only_user i st st' \<longleftrightarrow> (\<forall>u. u \<noteq> i \<longrightarrow> own_view st' u = own_view st u) \<and> (\<forall>g. group_view st' g = group_view st g)"

definition only_group :: "int \<Rightarrow> store \<Rightarrow> store \<Rightarrow> bool" where
  "only_group i st st' \<longleftrightarrow> (\<forall>u. own_view st' u = own_view st u) \<and> (\<forall>g. g \<noteq> i \<longrightarrow> group_view st' g = group_view st g)"

lemma owned_snoc: "owned u (rows @ [(v, r)]) = (if v = u then owned u rows @ [r] else owned u rows)"
  by (simp add: owned_def)

lemma owned_filter:
  "(\<And>r. (u, r) \<in> set rows \<Longrightarrow> Q (u, r)) \<Longrightarrow> owned u (filter Q rows) = owned u rows"
  unfolding owned_def filter_filter by (rule arg_cong [of _ _ "map snd"], rule filter_cong) auto

lemma owned_map:
  "(\<And>r. fst (f r) = fst r) \<Longrightarrow> (\<And>r. r \<in> set rows \<Longrightarrow> fst r = u \<Longrightarrow> f r = r) \<Longrightarrow> owned u (map f rows) = owned u rows"
  unfolding owned_def by (induction rows) auto

definition budget_rows :: "int \<Rightarrow> budget_row list \<Rightarrow> budget_row list" where
  "budget_rows u rows = filter (\<lambda>r. fst (snd r) = u) rows"

lemma listUserBudgets_rows: "listUserBudgets st u = map (snd \<circ> snd) (sort_key fst (budget_rows u (st_budgets st)))"
  by (simp add: listUserBudgets_def budget_rows_def case_prod_unfold comp_def)

lemma listGroupBudgets_rows: "listGroupBudgets st g = map (snd \<circ> snd) (sort_key fst (budget_rows g (st_groupBudgets st)))"
  by (simp add: listGroupBudgets_def budget_rows_def case_prod_unfold comp_def)

lemma budget_rows_snoc: "budget_rows u (rows @ [(k, v, b)]) = (if v = u then budget_rows u rows @ [(k, v, b)] else budget_rows u rows)"
  by (simp add: budget_rows_def)

lemma budget_rows_filter:
  "(\<And>r. r \<in> set rows \<Longrightarrow> fst (snd r) = u \<Longrightarrow> Q r) \<Longrightarrow> budget_rows u (filter Q rows) = budget_rows u rows"
  unfolding budget_rows_def filter_filter by (rule filter_cong) auto

lemma budget_rows_map:
  "(\<And>r. fst (snd (f r)) = fst (snd r)) \<Longrightarrow> (\<And>r. r \<in> set rows \<Longrightarrow> fst (snd r) = u \<Longrightarrow> f r = r)
    \<Longrightarrow> budget_rows u (map f rows) = budget_rows u rows"
  unfolding budget_rows_def by (induction rows) auto

lemmas view_defs = own_view_def group_view_def member_groups_def listUserGroupsForUser_def getNotificationPolicy_def
  listUserSchedules_def listGroupSchedules_def listUserExceptions_def listGroupExceptions_def
  listUserBudgets_rows listGroupBudgets_rows

text \<open>The row an identifier names has one owner.\<close>

lemma budgets_owner:
  assumes "budgets_ok us seq rows" "find_budget i rows = Some (j, v, b)" "r \<in> set rows" "fst r = i"
  shows "fst (snd r) = v"
  using table_ok_find [OF assms(1) _ assms(3), of i "(j, v, b)"] assms(2,4) by (simp add: find_budget_def)

lemma exceptions_owner:
  assumes "exceptions_ok us seq rows" "find_exception i rows = Some (v, x)" "r \<in> set rows" "xi_id (snd r) = i"
  shows "fst r = v"
  using table_ok_find [OF assms(1) _ assms(3), of i "(v, x)"] assms(2,4) by (simp add: find_exception_def)

lemma rules_owner:
  assumes "rules_ok us seq rows" "find_schedule_row i rows = Some (v, x)" "r \<in> set rows" "sr_id (snd r) = i"
  shows "fst r = v"
  using table_ok_find [OF assms(1) _ assms(3), of i "(v, x)"] assms(2,4) by (simp add: find_schedule_row_def)

lemma frame_budgets:
  assumes "\<And>u. u \<noteq> i \<Longrightarrow> budget_rows u rows = budget_rows u (st_budgets st)"
  shows "only_user i st (st\<lparr>st_budgets := rows\<rparr>)" "only_user i st (st\<lparr>st_budgets := rows, st_budgetSeq := n\<rparr>)"
  using assms by (simp_all add: only_user_def view_defs cong: if_cong)

lemma frame_groupBudgets:
  assumes "\<And>u. u \<noteq> i \<Longrightarrow> budget_rows u rows = budget_rows u (st_groupBudgets st)"
  shows "only_group i st (st\<lparr>st_groupBudgets := rows\<rparr>)" "only_group i st (st\<lparr>st_groupBudgets := rows, st_groupBudgetSeq := n\<rparr>)"
  using assms by (simp_all add: only_group_def view_defs cong: if_cong)

lemma frame_schedules:
  assumes "\<And>u. u \<noteq> i \<Longrightarrow> owned u rows = owned u (st_schedules st)"
  shows "only_user i st (st\<lparr>st_schedules := rows\<rparr>)" "only_user i st (st\<lparr>st_schedules := rows, st_scheduleSeq := n\<rparr>)"
  using assms by (simp_all add: only_user_def view_defs cong: if_cong)

lemma frame_groupSchedules:
  assumes "\<And>u. u \<noteq> i \<Longrightarrow> owned u rows = owned u (st_groupSchedules st)"
  shows "only_group i st (st\<lparr>st_groupSchedules := rows\<rparr>)" "only_group i st (st\<lparr>st_groupSchedules := rows, st_groupScheduleSeq := n\<rparr>)"
  using assms by (simp_all add: only_group_def view_defs cong: if_cong)

lemma frame_exceptions:
  assumes "\<And>u. u \<noteq> i \<Longrightarrow> owned u rows = owned u (st_exceptions st)"
  shows "only_user i st (st\<lparr>st_exceptions := rows\<rparr>)" "only_user i st (st\<lparr>st_exceptions := rows, st_exceptionSeq := n\<rparr>)"
  using assms by (simp_all add: only_user_def view_defs cong: if_cong)

lemma frame_groupExceptions:
  assumes "\<And>u. u \<noteq> i \<Longrightarrow> owned u rows = owned u (st_groupExceptions st)"
  shows "only_group i st (st\<lparr>st_groupExceptions := rows\<rparr>)" "only_group i st (st\<lparr>st_groupExceptions := rows, st_groupExceptionSeq := n\<rparr>)"
  using assms by (simp_all add: only_group_def view_defs cong: if_cong)

section \<open>The frames of the writes\<close>

lemma frame_create:
  "createBudget st u b = Inr (st', row1) \<Longrightarrow> only_user u st st'"
  "createSchedule st u c = Inr (st', row2) \<Longrightarrow> only_user u st st'"
  "createException st now u x = Inr (st', v, row3) \<Longrightarrow> only_user v st st'"
  "createGroupBudget st g b = Inr (st', row4) \<Longrightarrow> only_group g st st'"
  "createGroupSchedule st g c = Inr (st', row5) \<Longrightarrow> only_group g st st'"
  "createGroupException st now g x = Inr (st', row6) \<Longrightarrow> only_group g st st'"
  by (auto simp: createBudget_def createSchedule_def createException_def createGroupBudget_def createGroupSchedule_def
      createGroupException_def Let_def budget_rows_snoc owned_snoc split: if_splits
      intro!: frame_budgets frame_schedules frame_exceptions frame_groupBudgets frame_groupSchedules frame_groupExceptions)

lemma patch_rows_of_others:
  "budgets_ok us seq bs \<Longrightarrow> find_budget i bs = Some (j, v, b) \<Longrightarrow> u \<noteq> v \<Longrightarrow> budget_rows u (patch_budgets i p bs) = budget_rows u bs"
  "exceptions_ok us seq xs \<Longrightarrow> find_exception i xs = Some (v, x) \<Longrightarrow> u \<noteq> v \<Longrightarrow> owned u (patch_exceptions i q xs) = owned u xs"
  "rules_ok us seq rs \<Longrightarrow> find_schedule_row i rs = Some (v, r) \<Longrightarrow> u \<noteq> v \<Longrightarrow> owned u (update_rows i f rs) = owned u rs"
  unfolding patch_budgets_map patch_exceptions_map update_rows_map
  by (auto intro!: budget_rows_map owned_map dest: budgets_owner exceptions_owner rules_owner split: if_splits)

lemma remove_rows_of_others:
  "budgets_ok us seq bs \<Longrightarrow> find_budget i bs = Some (j, v, b) \<Longrightarrow> u \<noteq> v \<Longrightarrow> budget_rows u (filter (\<lambda>r. fst r \<noteq> i) bs) = budget_rows u bs"
  "exceptions_ok us seq xs \<Longrightarrow> find_exception i xs = Some (v, x) \<Longrightarrow> u \<noteq> v \<Longrightarrow>
     owned u (filter (\<lambda>r. xi_id (snd r) \<noteq> i) xs) = owned u xs"
  "rules_ok us seq rs \<Longrightarrow> find_schedule_row i rs = Some (v, r) \<Longrightarrow> u \<noteq> v \<Longrightarrow>
     owned u (filter (\<lambda>(o', r). sr_id r \<noteq> i) rs) = owned u rs"
  by (auto intro!: budget_rows_filter owned_filter dest: budgets_owner exceptions_owner rules_owner)

lemma frame_update:
  assumes "store_ok us cs st"
  shows "updateBudget st i p = Inr (st', row1) \<Longrightarrow> getBudget st i = Some (j, v, b) \<Longrightarrow> only_user v st st'"
    and "updateException st i q = Inr (st', row2) \<Longrightarrow> getException st i = Some (v, x) \<Longrightarrow> only_user v st st'"
    and "updateSchedule st i c = Inr (st', row3) \<Longrightarrow> getSchedule st i = Some (v, r) \<Longrightarrow> only_user v st st'"
    and "updateGroupBudget st i p = Inr (st', row4) \<Longrightarrow> getGroupBudget st i = Some (j, v, b) \<Longrightarrow> only_group v st st'"
    and "updateGroupException st i q = Inr (st', row5) \<Longrightarrow> getGroupException st i = Some (v, x) \<Longrightarrow> only_group v st st'"
    and "updateGroupSchedule st i c = Inr (st', row6) \<Longrightarrow> getGroupSchedule st i = Some (v, r) \<Longrightarrow> only_group v st st'"
  by (auto simp: updateBudget_def updateException_def updateSchedule_def updateGroupBudget_def updateGroupException_def
      updateGroupSchedule_def getBudget_def getException_def getSchedule_def getGroupBudget_def getGroupException_def
      getGroupSchedule_def Let_def split: if_splits
      intro!: frame_budgets frame_schedules frame_exceptions frame_groupBudgets frame_groupSchedules frame_groupExceptions
        patch_rows_of_others store_okD [OF assms])

lemma frame_delete:
  assumes "store_ok us cs st"
  shows "getBudget st i = Some (j, v, b) \<Longrightarrow> only_user v st (fst (deleteBudget st i))"
    and "getException st i = Some (v, x) \<Longrightarrow> only_user v st (fst (deleteException st i))"
    and "getSchedule st i = Some (v, r) \<Longrightarrow> only_user v st (fst (deleteSchedule st i))"
    and "getGroupBudget st i = Some (j, v, b) \<Longrightarrow> only_group v st (fst (deleteGroupBudget st i))"
    and "getGroupException st i = Some (v, x) \<Longrightarrow> only_group v st (fst (deleteGroupException st i))"
    and "getGroupSchedule st i = Some (v, r) \<Longrightarrow> only_group v st (fst (deleteGroupSchedule st i))"
  by (auto simp: deleteBudget_def deleteException_def deleteSchedule_def deleteGroupBudget_def deleteGroupException_def
      deleteGroupSchedule_def getBudget_def getException_def getSchedule_def getGroupBudget_def getGroupException_def
      getGroupSchedule_def
      intro!: frame_budgets frame_schedules frame_exceptions frame_groupBudgets frame_groupSchedules frame_groupExceptions
        remove_rows_of_others store_okD [OF assms])

lemma find_notification_other:
  "u \<noteq> i \<Longrightarrow> List.find (\<lambda>n. np_userId n = u) (rows @ [patch_notification p (default_notification i)]) = List.find (\<lambda>n. np_userId n = u) rows"
  "u \<noteq> i \<Longrightarrow> List.find (\<lambda>n. np_userId n = u) (filter (\<lambda>n. np_userId n \<noteq> i) rows) = List.find (\<lambda>n. np_userId n = u) rows"
  "u \<noteq> i \<Longrightarrow> List.find (\<lambda>n. np_userId n = u) (update_where (\<lambda>n. np_userId n = i) (patch_notification p) rows)
    = List.find (\<lambda>n. np_userId n = u) rows"
  by (induction rows) (auto simp: patch_notification_def default_notification_def update_where_def)

lemma frame_notification:
  assumes "\<And>u. u \<noteq> i \<Longrightarrow> List.find (\<lambda>n. np_userId n = u) rows = List.find (\<lambda>n. np_userId n = u) (st_notifications st)"
  shows "only_user i st (st\<lparr>st_notifications := rows\<rparr>)"
  using assms by (simp add: only_user_def view_defs cong: if_cong)

lemma frame_settings:
  "upsertNotificationPolicy st i p = Inr (st', row) \<Longrightarrow> only_user i st st'"
  "only_user i st (fst (deleteNotificationPolicy st i))"
  by (auto simp: upsertNotificationPolicy_def deleteNotificationPolicy_def Let_def find_notification_other
      split: if_splits intro!: frame_notification)

lemma frame_definitions:
  "own_view (fst (createActivity st a)) = own_view st" "group_view (fst (createActivity st a)) = group_view st"
  "own_view (fst (updateActivity st i b)) = own_view st" "group_view (fst (updateActivity st i b)) = group_view st"
  "own_view (fst (deleteActivity st i)) = own_view st" "group_view (fst (deleteActivity st i)) = group_view st"
  "own_view (fst (deleteActivityGroup st i)) = own_view st" "group_view (fst (deleteActivityGroup st i)) = group_view st"
  "own_view (addActivityToGroup st g i) = own_view st" "group_view (addActivityToGroup st g i) = group_view st"
  "own_view (fst (removeActivityFromGroup st g i)) = own_view st" "group_view (fst (removeActivityFromGroup st g i)) = group_view st"
  "own_view (forget_client i st) = own_view st" "group_view (forget_client i st) = group_view st"
  by (rule same_views; simp add: createActivity_def updateActivity_def deleteActivity_def deleteActivityGroup_def
      addActivityToGroup_def removeActivityFromGroup_def forget_client_def Let_def)+

lemma frame_named_definitions:
  "createActivityGroup st n = Inr (st', row1) \<Longrightarrow> own_view st' = own_view st \<and> group_view st' = group_view st"
  "updateActivityGroup st i m = Inr (st', row2) \<Longrightarrow> own_view st' = own_view st \<and> group_view st' = group_view st"
  by (rule conjI; rule same_views; auto simp: createActivityGroup_def updateActivityGroup_def Let_def split: if_splits)+

text \<open>A new group has no members, and a group keeps its members when it is renamed.\<close>

lemma map_insort_key: "map key (insort_key key x xs) = insort (key x) (map key xs)"
  by (induction xs) auto

lemma map_sort_key: "map key (sort_key key xs) = sort (map key xs)"
  by (induction xs) (simp_all add: map_insort_key)

lemma map_fst_filter: "map fst (filter (\<lambda>g. fst g = k) gs) = filter (\<lambda>j. j = k) (map fst gs)"
  by (induction gs) auto

lemma member_groups_names:
  "member_groups st u = sort (concat (map (\<lambda>(v, g). if v = u then filter (\<lambda>k. k = g) (map fst (st_groups st)) else []) (st_memberships st)))"
  unfolding member_groups_def listUserGroupsForUser_def map_sort_key map_concat map_map
  by (rule arg_cong [of _ _ "\<lambda>xs. sort (concat xs)"], rule map_cong) (auto simp: map_fst_filter)

lemma frame_group_names:
  assumes "store_ok us cs st"
  shows "createUserGroup st n = Inr (st', row1) \<Longrightarrow> own_view st' = own_view st \<and> group_view st' = group_view st"
    and "updateUserGroup st i m = Inr (st', row2) \<Longrightarrow> own_view st' = own_view st \<and> group_view st' = group_view st"
proof -
  have new: "st_groupSeq st + 1 \<noteq> g" if "(u, g) \<in> set (st_memberships st)" for u g
    using store_ok_memberships [OF assms] store_ok_groups [OF assms] that
    by (force simp: members_ok_def names_ok_def table_ok_def)
  show "own_view st' = own_view st \<and> group_view st' = group_view st" if "createUserGroup st n = Inr (st', row1)"
  proof -
    have st': "st' = st\<lparr>st_groups := st_groups st @ [(st_groupSeq st + 1, n)], st_groupSeq := st_groupSeq st + 1\<rparr>"
      using that by (auto simp: createUserGroup_def Let_def split: if_splits)
    have "member_groups st' = member_groups st"
      using new by (auto simp: fun_eq_iff member_groups_names st' intro!: arg_cong [of _ _ concat] arg_cong [of _ _ sort])
    then show ?thesis by (simp add: fun_eq_iff own_view_def group_view_def) (simp add: st' view_defs)
  qed
  show "own_view st' = own_view st \<and> group_view st' = group_view st" if "updateUserGroup st i m = Inr (st', row2)"
  proof -
    have st': "st' = st\<lparr>st_groups := renamed i m (st_groups st)\<rparr>"
      using that by (auto simp: updateUserGroup_def Let_def split: if_splits)
    have "member_groups st' = member_groups st" by (simp add: fun_eq_iff member_groups_names st' cong: if_cong)
    then show ?thesis by (simp add: fun_eq_iff own_view_def group_view_def) (simp add: st' view_defs)
  qed
qed

section \<open>Delivery\<close>

definition commanded :: "push_command list \<Rightarrow> int \<Rightarrow> int \<Rightarrow> bool" where
  "commanded cmds u c \<longleftrightarrow> (\<exists>cmd \<in> set cmds. pc_clientId cmd = c \<and> pc_userId cmd = Some u)"

text \<open>The requests that register no push although they change whose rules apply, or in which order.\<close>

fun silent :: "api_request \<Rightarrow> bool" where
  "silent (Put_Member _ _) = True"
| "silent (Delete_Member _ _) = True"
| "silent (Delete_User_Group _) = True"
| "silent (Put_User_Order _ _) = True"
| "silent (Put_Group_Order _ _) = True"
| "silent _ = False"

lemma commanded_user: "c \<in> set clients \<Longrightarrow> commanded (userPushCommands reason u clients detail) u c"
  by (auto simp: commanded_def userPushCommands_def)

lemma commanded_members:
  assumes "(u, g) \<in> set (st_memberships (db_policy d))" "u \<in> user_ids d" "c \<in> set (listUserClientIds d u)"
  shows "commanded (groupMemberPushCommands d reason g detail) u c"
proof -
  obtain row where "row \<in> set (db_users d)" "user_id row = u" using assms(2) by auto
  then have "row \<in> set (listGroupMembers d g)" using assms(1) by (force simp: listGroupMembers_def)
  with assms(3) \<open>user_id row = u\<close> show ?thesis
    by (fastforce simp: commanded_def groupMemberPushCommands_def userPushCommands_def)
qed

lemma linked_user: "api_ok d \<Longrightarrow> c \<in> set (listUserClientIds d u) \<Longrightarrow> u \<in> user_ids d"
  by (auto simp: api_ok_def db_ok_def links_ok_def listUserClientIds_def listUserLinks_def)

text \<open>What a write of the policy tables changes is commanded, for the owner or for every member.\<close>

lemma user_write_commanded:
  assumes "only_user i (db_policy d) st" "policy_of (d\<lparr>db_policy := st\<rparr>) u \<noteq> policy_of d u"
    "c \<in> set (listUserClientIds d u)"
  shows "commanded (userPushCommands reason i (listUserClientIds d i) detail) u c"
proof -
  have "u = i" using assms(1,2) policy_of_frame [of "d\<lparr>db_policy := st\<rparr>" u d] by (auto simp: only_user_def getUser_def)
  with assms(3) show ?thesis by (auto intro: commanded_user)
qed

lemma group_write_commanded:
  assumes ok: "api_ok d" and only: "only_group g (db_policy d) st" and change: "policy_of (d\<lparr>db_policy := st\<rparr>) u \<noteq> policy_of d u"
    and c: "c \<in> set (listUserClientIds d u)"
  shows "commanded (groupMemberPushCommands d reason g detail) u c"
    "commanded (groupMemberPushCommands (d\<lparr>db_policy := st\<rparr>) reason g detail) u c"
proof -
  have own: "own_view st u = own_view (db_policy d) u" using only by (simp add: only_group_def)
  have "\<exists>k \<in> set (member_groups (db_policy d) u). group_view st k \<noteq> group_view (db_policy d) k"
    using change own policy_of_frame [of "d\<lparr>db_policy := st\<rparr>" u d] by (auto simp: getUser_def)
  then have g: "g \<in> set (member_groups (db_policy d) u)" "g \<in> set (member_groups st u)"
    using only own by (auto simp: only_group_def own_view_def)
  have u: "u \<in> user_ids d" using linked_user [OF ok c] .
  show "commanded (groupMemberPushCommands d reason g detail) u c"
    using g(1) u c by (intro commanded_members) (auto simp: set_member_groups)
  show "commanded (groupMemberPushCommands (d\<lparr>db_policy := st\<rparr>) reason g detail) u c"
    using g(2) u c by (intro commanded_members) (auto simp: set_member_groups listUserClientIds_def listUserLinks_def)
qed

lemma view_write_unchanged:
  "own_view st = own_view (db_policy d) \<Longrightarrow> group_view st = group_view (db_policy d) \<Longrightarrow> policy_of (d\<lparr>db_policy := st\<rparr>) u = policy_of d u"
  by (rule policy_of_frame) (simp_all add: getUser_def)

lemma clients_with_policy [simp]: "listUserClientIds (d\<lparr>db_policy := st\<rparr>) u = listUserClientIds d u"
  by (simp add: listUserClientIds_def listUserLinks_def)

text \<open>A patched row keeps its owner.\<close>

lemma patched_owner:
  "updateBudget st i p = Inr (st1, Some (j', v', b')) \<Longrightarrow> getBudget st i = Some (j, v, b) \<Longrightarrow> v' = v"
  "updateGroupBudget st i p = Inr (st2, Some (j', v', b')) \<Longrightarrow> getGroupBudget st i = Some (j, v, b) \<Longrightarrow> v' = v"
  "updateException st i q = Inr (st3, Some (v', x')) \<Longrightarrow> getException st i = Some (v, x) \<Longrightarrow> v' = v"
  "updateGroupException st i q = Inr (st4, Some (v', x')) \<Longrightarrow> getGroupException st i = Some (v, x) \<Longrightarrow> v' = v"
proof -
  have b: "find_budget i (patch_budgets i p rows) = Some (j', v', b') \<Longrightarrow> find_budget i rows = Some (j, v, b) \<Longrightarrow> v' = v" for rows
    by (induction rows) (auto simp: find_budget_def patch_budgets_def split: if_splits)
  have x: "find_exception i (patch_exceptions i q rows) = Some (v', x') \<Longrightarrow> find_exception i rows = Some (v, x) \<Longrightarrow> v' = v" for rows
    by (induction rows) (auto simp: find_exception_def patch_exceptions_def split: if_splits)
  show "updateBudget st i p = Inr (st1, Some (j', v', b')) \<Longrightarrow> getBudget st i = Some (j, v, b) \<Longrightarrow> v' = v"
    using b by (auto simp: updateBudget_def getBudget_def Let_def split: if_splits)
  show "updateGroupBudget st i p = Inr (st2, Some (j', v', b')) \<Longrightarrow> getGroupBudget st i = Some (j, v, b) \<Longrightarrow> v' = v"
    using b by (auto simp: updateGroupBudget_def getGroupBudget_def Let_def split: if_splits)
  show "updateException st i q = Inr (st3, Some (v', x')) \<Longrightarrow> getException st i = Some (v, x) \<Longrightarrow> v' = v"
    using x by (auto simp: updateException_def getException_def Let_def split: if_splits)
  show "updateGroupException st i q = Inr (st4, Some (v', x')) \<Longrightarrow> getGroupException st i = Some (v, x) \<Longrightarrow> v' = v"
    using x by (auto simp: updateGroupException_def getGroupException_def Let_def split: if_splits)
qed

lemma policy_of_same: "db_users d' = db_users d \<Longrightarrow> db_policy d' = db_policy d \<Longrightarrow> policy_of d' u = policy_of d u"
  by (simp add: policy_of_def getUser_def)

lemma client_and_link_writes:
  "createClient d c = Inr (d', row1) \<Longrightarrow> policy_of d' u = policy_of d u"
  "updateClient d i p = Inr (d', row2) \<Longrightarrow> policy_of d' u = policy_of d u"
  "policy_of (fst (deleteClient d i)) u = policy_of d u"
  "upsertLink d v k n r = Inr (d', row3) \<Longrightarrow> policy_of d' u = policy_of d u"
  "policy_of (fst (deleteLink d v k)) u = policy_of d u"
proof -
  show "policy_of (fst (deleteClient d i)) u = policy_of d u"
    by (rule policy_of_frame) (simp_all add: deleteClient_def getUser_def frame_definitions)
qed (auto simp: createClient_def updateClient_def upsertLink_def deleteLink_def Let_def split: if_splits intro: policy_of_same)

lemma user_create_unlinked:
  assumes "api_ok d" "policy_of (fst (createUser d c)) u \<noteq> policy_of d u"
  shows "listUserClientIds d u = []" "listUserClientIds (fst (createUser d c)) u = []"
proof -
  have "u = db_userSeq d + 1"
    using assms(2) by (auto simp: policy_of_def getUser_def createUser_def Let_def find_append split: option.splits if_splits)
  then have u: "u \<notin> user_ids d" using assms(1) fresh_key [of "db_users d" user_id "db_userSeq d"]
    by (simp add: api_ok_def db_ok_def users_ok_def)
  then show none: "listUserClientIds d u = []" using linked_user [OF assms(1), of _ u] by (cases "listUserClientIds d u") auto
  show "listUserClientIds (fst (createUser d c)) u = []"
    using none by (simp add: createUser_def Let_def listUserClientIds_def listUserLinks_def)
qed

lemma user_update_owner:
  assumes "policy_of (fst (updateUser d i p)) u \<noteq> policy_of d u"
  shows "u = i"
proof (rule ccontr)
  assume "u \<noteq> i"
  then have "List.find (\<lambda>r. user_id r = u) (update_where (\<lambda>r. user_id r = i) (patch_user p) rows) = List.find (\<lambda>r. user_id r = u) rows" for rows
    by (induction rows) (auto simp: update_where_def patch_user_def)
  then have "policy_of (fst (updateUser d i p)) u = policy_of d u"
    by (simp add: policy_of_def getUser_def updateUser_def Let_def)
  with assms show False by simp
qed

lemma forget_user_views:
  "u \<noteq> i \<Longrightarrow> own_view (forget_user i st) u = own_view st u" "group_view (forget_user i st) = group_view st"
proof -
  show "own_view (forget_user i st) u = own_view st u" if u: "u \<noteq> i"
  proof -
    have "concat (map (\<lambda>(v, g). if v = u then F g else []) (filter (\<lambda>m. fst m \<noteq> i) ms)) = concat (map (\<lambda>(v, g). if v = u then F g else []) ms)"
      for F :: "int \<Rightarrow> (int \<times> string) list" and ms
      using u by (induction ms) auto
    then show ?thesis
      using u by (simp add: view_defs forget_user_def owned_filter budget_rows_filter find_notification_other cong: if_cong)
  qed
  show "group_view (forget_user i st) = group_view st"
    by (simp add: fun_eq_iff view_defs forget_user_def)
qed

lemma user_delete_owner:
  assumes "policy_of (fst (deleteUser d i)) u \<noteq> policy_of d u"
  shows "u = i"
proof (rule ccontr)
  assume u: "u \<noteq> i"
  then have "getUser (fst (deleteUser d i)) u = getUser d u"
    by (simp add: getUser_def deleteUser_def find_filter_conv) (rule find_cong_set, auto)
  with u have "policy_of (fst (deleteUser d i)) u = policy_of d u"
    by (intro policy_of_frame) (simp_all add: deleteUser_def forget_user_views)
  with assms show False by simp
qed

lemma clients_of_user_writes [simp]:
  "listUserClientIds (fst (updateUser d i p)) u = listUserClientIds d u"
  by (simp add: updateUser_def Let_def listUserClientIds_def listUserLinks_def)

lemma clients_after_delete: "c \<in> set (listUserClientIds (fst (deleteUser d i)) u) \<Longrightarrow> c \<in> set (listUserClientIds d u)"
  by (auto simp: deleteUser_def listUserClientIds_def listUserLinks_def)

lemma updated_user_id: "snd (updateUser d i p) = Some row \<Longrightarrow> user_id row = i"
  by (auto simp: updateUser_def Let_def getUser_def dest: find_in_set)

lemma user_update_commanded:
  assumes "policy_of (fst (updateUser d i p)) u \<noteq> policy_of d u" "snd (updateUser d i p) = Some row" "c \<in> set (listUserClientIds d u)"
  shows "commanded (userPushCommands reason (user_id row) (listUserClientIds d (user_id row)) detail) u c"
  using user_update_owner [OF assms(1)] updated_user_id [OF assms(2)] assms(3) by (auto intro: commanded_user)

lemma user_delete_commanded:
  assumes "policy_of (fst (deleteUser d i)) u \<noteq> policy_of d u" "c \<in> set (listUserClientIds d u)"
  shows "commanded (userPushCommands reason i (listUserClientIds d i) detail) u c"
  using user_delete_owner [OF assms(1)] assms(2) by (auto intro: commanded_user)

lemma user_delete_commanded_after:
  assumes "policy_of (fst (deleteUser d i)) u \<noteq> policy_of d u" "c \<in> set (listUserClientIds (fst (deleteUser d i)) u)"
  shows "commanded (userPushCommands reason i (listUserClientIds d i) detail) u c"
  using assms(1) clients_after_delete [OF assms(2)] by (rule user_delete_commanded)

lemma frame_update_row:
  assumes "store_ok us cs st"
  shows "updateBudget st i p = Inr (st1, Some (j', v', b')) \<Longrightarrow> getBudget st i = Some (j, v, b) \<Longrightarrow> only_user v' st st1"
    and "updateException st i q = Inr (st2, Some (v', x')) \<Longrightarrow> getException st i = Some (v, x) \<Longrightarrow> only_user v' st st2"
    and "updateGroupBudget st i p = Inr (st3, Some (j', v', b')) \<Longrightarrow> getGroupBudget st i = Some (j, v, b) \<Longrightarrow> only_group v' st st3"
    and "updateGroupException st i q = Inr (st4, Some (v', x')) \<Longrightarrow> getGroupException st i = Some (v, x) \<Longrightarrow> only_group v' st st4"
  by (frule patched_owner, assumption, simp add: frame_update [OF assms])+

lemma named_writes_unchanged:
  assumes "api_ok d"
  shows "createUserGroup (db_policy d) n = Inr (st1, row1) \<Longrightarrow> policy_of (d\<lparr>db_policy := st1\<rparr>) u = policy_of d u"
    and "updateUserGroup (db_policy d) i m = Inr (st2, row2) \<Longrightarrow> policy_of (d\<lparr>db_policy := st2\<rparr>) u = policy_of d u"
    and "createActivityGroup (db_policy d) n = Inr (st3, row3) \<Longrightarrow> policy_of (d\<lparr>db_policy := st3\<rparr>) u = policy_of d u"
    and "updateActivityGroup (db_policy d) i m = Inr (st4, row4) \<Longrightarrow> policy_of (d\<lparr>db_policy := st4\<rparr>) u = policy_of d u"
proof -
  have "store_ok (user_ids d) (client_ids d) (db_policy d)" using assms by (simp add: api_ok_def)
  note names = frame_group_names [OF this]
  show "createUserGroup (db_policy d) n = Inr (st1, row1) \<Longrightarrow> policy_of (d\<lparr>db_policy := st1\<rparr>) u = policy_of d u"
    using names(1) by (blast intro: view_write_unchanged)
  show "updateUserGroup (db_policy d) i m = Inr (st2, row2) \<Longrightarrow> policy_of (d\<lparr>db_policy := st2\<rparr>) u = policy_of d u"
    using names(2) by (blast intro: view_write_unchanged)
  show "createActivityGroup (db_policy d) n = Inr (st3, row3) \<Longrightarrow> policy_of (d\<lparr>db_policy := st3\<rparr>) u = policy_of d u"
    using frame_named_definitions(1) by (blast intro: view_write_unchanged)
  show "updateActivityGroup (db_policy d) i m = Inr (st4, row4) \<Longrightarrow> policy_of (d\<lparr>db_policy := st4\<rparr>) u = policy_of d u"
    using frame_named_definitions(2) by (blast intro: view_write_unchanged)
qed

text \<open>One rule per rule-changing write: what it changes is commanded.\<close>

lemmas user_writes_commanded = frame_create(1-3) [THEN user_write_commanded] frame_settings [THEN user_write_commanded]

lemmas group_writes_commanded = group_write_commanded(2) [OF _ frame_create(4)] group_write_commanded(2) [OF _ frame_create(5)]
  group_write_commanded(2) [OF _ frame_create(6)]

lemma served_change_commanded:
  assumes ok: "api_ok (fst s)" and r: "serve e r s = (Inr x, s')" and loud: "\<not> silent r"
    and change: "policy_of (fst s') u \<noteq> policy_of (fst s) u"
    and c: "c \<in> set (listUserClientIds (fst s) u) \<union> set (listUserClientIds (fst s') u)"
  shows "\<exists>cmds. snd s' = snd s @ cmds \<and> commanded cmds u c"
proof -
  obtain d p where s: "s = (d, p)" by (cases s)
  have d: "api_ok d" and st: "store_ok (user_ids d) (client_ids d) (db_policy d)" using ok by (simp_all add: api_ok_def s)
  note updates = frame_update_row(1-2) [OF st, THEN user_write_commanded] frame_update(3) [OF st, THEN user_write_commanded]
    frame_delete(1-3) [OF st, THEN user_write_commanded] frame_update_row(3-4) [OF st, THEN group_write_commanded(2) [OF d]]
    frame_update(6) [OF st, THEN group_write_commanded(2) [OF d]] frame_delete(4-6) [OF st, THEN group_write_commanded(1) [OF d]]
  show ?thesis
    using r loud change c unfolding s
    by (cases r)
      (auto simp: handler_defs handler_iff on_store_iff frame_definitions view_write_unchanged client_and_link_writes
          user_create_unlinked [OF d] named_writes_unchanged [OF d] split: option.splits if_splits,
        (rule user_writes_commanded group_writes_commanded [OF d] updates user_update_commanded user_delete_commanded
          user_delete_commanded_after; assumption)+)
qed

text \<open>
  C4: When an accepted request changes the policy of a user, every device linked to the user before or after it is
  commanded to apply the policy of that user again, unless the request is one of the five that register no push.
\<close>

theorem accepted_change_is_commanded:
  assumes "serve e r (served rs) = (Inr x, s')" "\<not> silent r"
    and "policy_of (fst s') u \<noteq> policy_of (fst (served rs)) u"
    and "c \<in> set (listUserClientIds (fst (served rs)) u) \<union> set (listUserClientIds (fst s') u)"
  shows "\<exists>cmds. snd s' = snd (served rs) @ cmds \<and> commanded cmds u c"
  using served_ok assms by (rule served_change_commanded)

section \<open>Requests that change rules and push nothing\<close>

text \<open>The identifiers of the rules in force for a user that come from a source, in the order in which they apply.\<close>

definition rules_from :: "store \<Rightarrow> int \<Rightarrow> rule_source \<Rightarrow> int list" where
  "rules_from st u src = map (\<lambda>g. sr_id (fst g)) (filter (\<lambda>g. snd g = src) (gatherUserScheduleRules st u))"

lemma resequence_keeps: "map (\<lambda>g. (sr_id (fst g), snd g)) (resequence gs) = map (\<lambda>g. (sr_id (fst g), snd g)) gs"
  by (rule nth_equalityI) (simp_all add: resequence_def)

lemma filter_by_source: "map (\<lambda>g. h (fst g)) (filter (\<lambda>g. snd g = src) gs) =
    map fst (filter (\<lambda>p. snd p = src) (map (\<lambda>g. (h (fst g), snd g)) gs))"
  by (simp add: filter_map comp_def)

lemma rules_from_gathered:
  "rules_from st u src = map (\<lambda>g. sr_id (fst g)) (filter (\<lambda>g. snd g = src)
     (map (\<lambda>r. (r, From_User)) (byOrdinal (listUserSchedules st u))
       @ concat (map (\<lambda>k. map (\<lambda>r. (r, From_Group k)) (listGroupSchedules st k)) (member_groups st u))))"
  unfolding rules_from_def gatherUserScheduleRules_def merge_gathers filter_by_source [where h = sr_id] resequence_keeps
  by (simp add: member_groups_def comp_def)

lemma rules_from_user: "rules_from st u From_User = map sr_id (listUserSchedules st u)"
proof -
  have "filter (\<lambda>g. snd g = From_User) (concat (map (\<lambda>k. map (\<lambda>r. (r, From_Group k)) (f k)) ks)) = []"
    for f :: "int \<Rightarrow> schedule_rule list" and ks by (induction ks) auto
  moreover have "byOrdinal (listUserSchedules st u) = listUserSchedules st u"
    by (intro byOrdinal_id) (simp add: listUserSchedules_def)
  ultimately show ?thesis by (simp add: rules_from_gathered filter_map comp_def)
qed

lemma rules_from_other_groups:
  "map (\<lambda>g. sr_id (fst g)) (filter (\<lambda>g. snd g = From_Group k)
      (concat (map (\<lambda>k. map (\<lambda>r. (r, From_Group k)) (f k)) ks))) =
     concat (map (\<lambda>j. if j = k then map sr_id (f k) else []) ks)"
  by (induction ks) (auto simp: filter_map comp_def filter_empty_conv)

lemma concat_once: "distinct ks \<Longrightarrow> concat (map (\<lambda>j. if j = k then xs else []) ks) = (if k \<in> set ks then xs else [])"
  by (induction ks) auto

lemma distinct_member_groups:
  assumes "store_ok us cs st"
  shows "distinct (member_groups st u)"
proof -
  have m: "distinct (st_memberships st)" and g: "distinct (map fst (st_groups st))"
    using store_ok_memberships [OF assms] store_ok_groups [OF assms] by (auto simp: members_ok_def names_ok_def table_ok_def)
  have single: "filter (\<lambda>k. k = i) js = (if i \<in> set js then [i] else [])" if "distinct js" for i and js :: "int list"
    using that by (induction js) (auto simp: filter_empty_conv)
  have "distinct (concat (map (\<lambda>(v, g). if v = u then filter (\<lambda>k. k = g) (map fst (st_groups st)) else []) ms))"
    if "distinct ms" for ms
    using that g by (induction ms) (auto simp: single [OF g])
  from this [OF m] show ?thesis by (simp add: member_groups_names)
qed

lemma rules_from_group:
  assumes "store_ok us cs st"
  shows "rules_from st u (From_Group k) =
     (if k \<in> set (member_groups st u) then map sr_id (listGroupSchedules st k) else [])"
  by (simp add: rules_from_gathered filter_map comp_def rules_from_other_groups concat_once [OF distinct_member_groups [OF assms]])

lemma member_groups_members:
  "store_ok us cs st \<Longrightarrow> k \<in> set (member_groups st u) \<longleftrightarrow> isUserGroupMember st k u"
  using store_ok_memberships [of us cs st] by (auto simp: set_member_groups isUserGroupMember_def members_ok_def)

text \<open>What an accepted request of this kind does to the rules in force.\<close>

fun rules_changed :: "api_request \<Rightarrow> store \<Rightarrow> store \<Rightarrow> bool" where
  "rules_changed (Put_Member g u) st st' \<longleftrightarrow>
     rules_from st u (From_Group g) = (if isUserGroupMember st g u then map sr_id (listGroupSchedules st g) else [])
     \<and> rules_from st' u (From_Group g) = map sr_id (listGroupSchedules st g)"
| "rules_changed (Delete_Member g u) st st' \<longleftrightarrow>
     rules_from st u (From_Group g) = map sr_id (listGroupSchedules st g) \<and> rules_from st' u (From_Group g) = []"
| "rules_changed (Delete_User_Group g) st st' \<longleftrightarrow>
     (\<forall>u. rules_from st u (From_Group g) = (if isUserGroupMember st g u then map sr_id (listGroupSchedules st g) else [])
       \<and> rules_from st' u (From_Group g) = [])"
| "rules_changed (Put_User_Order u ids) st st' \<longleftrightarrow>
     mset ids = mset (rules_from st u From_User) \<and> rules_from st' u From_User = ids"
| "rules_changed (Put_Group_Order g ids) st st' \<longleftrightarrow>
     mset ids = mset (map sr_id (listGroupSchedules st g)) \<and> map sr_id (listGroupSchedules st' g) = ids
     \<and> (\<forall>u. rules_from st' u (From_Group g) = (if isUserGroupMember st g u then ids else []))"
| "rules_changed _ st st' \<longleftrightarrow> True"

lemma reordered_user:
  assumes "store_ok us cs st" "reorderUserSchedules st u ids = Inr (st', rows)"
  shows "mset ids = mset (map sr_id (listUserSchedules st u)) \<and> map sr_id (listUserSchedules st' u) = ids"
proof -
  have ok: "schedules_ok st" using store_ok_schedules [OF assms(1)] by (force simp: schedules_ok_def table_ok_def comp_def)
  obtain rs where rs: "reorder (listUserSchedules st u) ids = Inr rs"
    using assms(2) by (auto simp: reorderUserSchedules_def split: sum.splits)
  then have "mset ids = mset (map sr_id (listUserSchedules st u))"
    using reorder_Inr_iff [of "listUserSchedules st u" ids rs] listUserSchedules_distinct [OF ok, of u] by simp
  then show ?thesis using reorderUserSchedules_persists [OF ok, where userId = u and ids = ids] assms(2) by auto
qed

text \<open>The rules of groups are ordered by the same code as the rules of users.\<close>

definition group_rules_as_users :: "store \<Rightarrow> store" where
  "group_rules_as_users st = st\<lparr>st_schedules := st_groupSchedules st, st_scheduleSeq := st_groupScheduleSeq st\<rparr>"

lemma reordered_group:
  assumes "store_ok us cs st" "reorderGroupSchedules st g ids = Inr (st', rows)"
  shows "mset ids = mset (map sr_id (listGroupSchedules st g)) \<and> map sr_id (listGroupSchedules st' g) = ids"
proof -
  have ok: "schedules_ok (group_rules_as_users st)"
    using store_ok_groupSchedules [OF assms(1)] by (force simp: schedules_ok_def table_ok_def comp_def group_rules_as_users_def)
  have lists: "listUserSchedules (group_rules_as_users s) g = listGroupSchedules s g" for s
    by (simp add: listUserSchedules_def listGroupSchedules_def group_rules_as_users_def)
  obtain rs where rs: "reorder (listGroupSchedules st g) ids = Inr rs"
      "st' = st\<lparr>st_groupSchedules := write_ordinals rs (st_groupSchedules st)\<rparr>"
    using assms(2) by (auto simp: reorderGroupSchedules_def Let_def split: sum.splits)
  have "\<exists>s. reorderUserSchedules (group_rules_as_users st) g ids = Inr (s, listGroupSchedules st' g)"
    using rs(1) by (simp add: reorderUserSchedules_def lists Let_def)
      (simp add: group_rules_as_users_def rs(2) listUserSchedules_def listGroupSchedules_def)
  then have "map sr_id (listGroupSchedules st' g) = ids"
    using reorderUserSchedules_persists [OF ok, where userId = g and ids = ids] by auto
  moreover have "mset ids = mset (map sr_id (listGroupSchedules st g))"
    using reorder_Inr_iff [of "listGroupSchedules st g" ids rs] rs(1) listUserSchedules_distinct [OF ok, of g] by (simp add: lists)
  ultimately show ?thesis by simp
qed

lemma reorder_keeps_members: "reorderGroupSchedules st g ids = Inr (st', rows) \<Longrightarrow> st_memberships st' = st_memberships st"
  by (auto simp: reorderGroupSchedules_def Let_def split: sum.splits)

lemma silent_quiet: "silent r \<Longrightarrow> serve e r s = (Inr x, s') \<Longrightarrow> snd s' = snd s"
  by (cases r) (auto simp: handler_defs handler_iff on_store_iff split: if_splits option.splits)

lemma silent_changes:
  assumes ok: "api_ok (fst s)" and silent: "silent r" and r: "serve e r s = (Inr x, s')"
  shows "rules_changed r (db_policy (fst s)) (db_policy (fst s'))"
proof -
  let ?st = "db_policy (fst s)" and ?st' = "db_policy (fst s')"
  have st: "store_ok (user_ids (fst s)) (client_ids (fst s)) ?st" using ok by (simp add: api_ok_def)
  have "api_ok (fst s')" using serve_accepted_ok [OF ok r] .
  then have st': "store_ok (user_ids (fst s')) (client_ids (fst s')) ?st'" by (simp add: api_ok_def)
  note facts = rules_from_group [OF st] rules_from_group [OF st'] member_groups_members [OF st] member_groups_members [OF st']
    rules_from_user
  show ?thesis
  proof (cases r)
    case (Put_Member g u)
    then have "?st' = addUserToGroup ?st g u"
      using r by (auto simp: handler_defs handler_iff on_store_iff split: option.splits)
    then have "isUserGroupMember ?st' g u" "listGroupSchedules ?st' g = listGroupSchedules ?st g"
      by (simp_all add: addUserToGroup_def isUserGroupMember_def listGroupSchedules_def)
    then show ?thesis unfolding Put_Member by (simp add: facts)
  next
    case (Delete_Member g u)
    then have "?st' = fst (removeUserFromGroup ?st g u)" "snd (removeUserFromGroup ?st g u)"
      using r by (auto simp: handler_defs handler_iff on_store_iff split: if_splits)
    then have "isUserGroupMember ?st g u" "\<not> isUserGroupMember ?st' g u"
      by (simp_all add: removeUserFromGroup_def isUserGroupMember_def)
    then show ?thesis unfolding Delete_Member by (simp add: facts)
  next
    case (Delete_User_Group g)
    then have "?st' = fst (deleteUserGroup ?st g)"
      using r by (auto simp: handler_defs handler_iff on_store_iff split: if_splits)
    then have "\<not> isUserGroupMember ?st' g u" for u by (simp add: deleteUserGroup_def isUserGroupMember_def)
    then show ?thesis unfolding Delete_User_Group by (simp add: facts)
  next
    case (Put_User_Order u ids)
    then obtain rows where "reorderUserSchedules ?st u ids = Inr (?st', rows)"
      using r by (auto simp: handler_defs handler_iff split: option.splits)
    from reordered_user [OF st this] show ?thesis unfolding Put_User_Order by (simp add: facts)
  next
    case (Put_Group_Order g ids)
    then obtain rows where o: "reorderGroupSchedules ?st g ids = Inr (?st', rows)"
      using r by (auto simp: handler_defs handler_iff split: option.splits)
    then have "isUserGroupMember ?st' = isUserGroupMember ?st"
      using reorder_keeps_members by (simp add: fun_eq_iff isUserGroupMember_def)
    with reordered_group [OF st o] show ?thesis unfolding Put_Group_Order by (simp add: facts)
  qed (use silent in simp_all)
qed

text \<open>
  C5: Joining a group, leaving it, deleting it and reordering the rules of a user or of a group never command a
  device, whatever was served before. A refused request changes nothing; an accepted one changes the rules in
  force: a user who joins gets the rules of the group, a user who leaves or whose group is deleted loses them, and
  a reordering puts the same rules in the requested order, for the user or for every member of the group.
\<close>

theorem membership_and_order_not_pushed:
  assumes "silent r" "serve e r (served rs) = (res, s')"
  shows "snd s' = snd (served rs)
     \<and> (case res of Inl _ \<Rightarrow> s' = served rs
        | Inr _ \<Rightarrow> rules_changed r (db_policy (fst (served rs))) (db_policy (fst s')))"
proof (cases res)
  case (Inl x)
  then have "s' = served rs" using serve_refused [OF served_ok, of e r rs] assms(2) by simp
  then show ?thesis using Inl by simp
next
  case (Inr x)
  then show ?thesis
    using silent_quiet [OF assms(1)] silent_changes [OF served_ok assms(1)] assms(2) by simp
qed

section \<open>A household\<close>

definition house_env :: api_env where
  "house_env = \<lparr>env_now = 0, env_validMatcher = (\<lambda>_ _. True), env_parse = (\<lambda>_. JNull)\<rparr>"

definition evening :: "schedule_action \<Rightarrow> schedule_create" where
  "evening a = \<lparr>sc_targetKind = Overall, sc_targetId = None, sc_action = a, sc_recurrenceDays = None,
     sc_recurrenceStartMinute = Some 1080, sc_recurrenceEndMinute = Some 1200, sc_effectiveFrom = None, sc_effectiveTo = None,
     sc_ordinal = None\<rparr>"

text \<open>A user with a linked device and two rules of its own, and a group with two rules the user is not yet in.\<close>

definition household :: "(api_env \<times> api_request) list" where
  "household = map (Pair house_env)
     [Post_User \<lparr>uc_displayName = ''kid'', uc_tz = None\<rparr>,
      Post_Client \<lparr>cc_hostname = ''desk'', cc_sshUser = ''admin'', cc_friendlyName = None\<rparr>,
      Put_Link 1 1 ''kid'' ''1000'',
      Post_Schedule 1 (evening Deny), Post_Schedule 1 (evening Allow),
      Post_User_Group ''weekdays'', Post_Group_Schedule 1 (evening Deny), Post_Group_Schedule 1 (evening Extend)]"

definition in_group :: "(api_env \<times> api_request) list" where
  "in_group = household @ [(house_env, Put_Member 1 1)]"

lemma membership_and_order_not_pushed_witness:
  "snd (snd (serve house_env (Put_Member 1 1) (served household))) = snd (served household)
   \<and> rules_from (db_policy (fst (served household))) 1 (From_Group 1) = []
   \<and> rules_from (db_policy (fst (snd (serve house_env (Put_Member 1 1) (served household))))) 1 (From_Group 1) = [1, 2]"
proof -
  obtain res s' where s': "serve house_env (Put_Member 1 1) (served household) = (res, s')"
    by (cases "serve house_env (Put_Member 1 1) (served household)")
  have facts: "fst (serve house_env (Put_Member 1 1) (served household)) = Inr ()"
    "\<not> isUserGroupMember (db_policy (fst (served household))) 1 1"
    "map sr_id (listGroupSchedules (db_policy (fst (served household))) 1) = [1, 2]"
    by code_simp+
  then show ?thesis using membership_and_order_not_pushed [OF _ s'] s' by simp
qed

text \<open>A rule of the group of a linked user.\<close>

definition changed :: "(api_env \<times> api_request) list \<Rightarrow> api_request \<Rightarrow> int \<Rightarrow> int \<Rightarrow> bool" where
  "changed rs r u c \<longleftrightarrow>
     (case served rs of (d, cmds) \<Rightarrow>
       (case serve house_env r (d, cmds) of
          (Inl _, _) \<Rightarrow> False
        | (Inr _, d', _) \<Rightarrow> policy_of d' u \<noteq> policy_of d u \<and> c \<in> set (listUserClientIds d' u)))"

lemma group_rule_changes: "changed in_group (Post_Group_Schedule 1 (evening Allow)) 1 1"
  by code_simp

lemma accepted_change_is_commanded_witness:
  "\<exists>cmds. snd (snd (serve house_env (Post_Group_Schedule 1 (evening Allow)) (served in_group))) = snd (served in_group) @ cmds
     \<and> commanded cmds 1 1"
proof -
  obtain x s' where s': "serve house_env (Post_Group_Schedule 1 (evening Allow)) (served in_group) = (Inr x, s')"
    and new: "policy_of (fst s') 1 \<noteq> policy_of (fst (served in_group)) 1" "1 \<in> set (listUserClientIds (fst s') 1)"
    using group_rule_changes by (auto simp: changed_def split: prod.splits sum.splits)
  then show ?thesis using accepted_change_is_commanded [OF s' _ new(1), of 1] by simp
qed

section \<open>What the push of a deletion does on the hosts\<close>

text \<open>
  Removing a link makes its push lift every limit of the account it carried: whole days, the maximal
  weekly and monthly caps, all days and all hours, sent to the client in that order.
\<close>

theorem unlink_lifts_limits:
  assumes "delete_link u c (d, pushed) = (Inr (), d1, pushed')" "List.find (same_link u c) (db_links d) = Some l"
    "getClient d c = Some client" "client_platform client = Linux" "assertUsername (link_osUsername l) = Inr ()"
  shows "\<exists>cmd. pushed' = pushed @ [cmd]
    \<and> policy_push_execute (linux_registry zdb log_exec) tz clock (action_of cmd) (d1, log)
      = (Inr (), d1, log @ map (\<lambda>argv. (targetFromClient client, DEFAULT_TIMEKPRA_BINARY @ argv))
           (unrestricted_commands (link_osUsername l)))"
proof -
  define detail where "detail = JObj [(''osUsername'', JStr (link_osUsername l)), (''osUserRef'', JStr (link_osUserRef l))]"
  define cmd where "cmd = \<lparr>pc_clientId = c, pc_userId = Some u, pc_reason = LINK_DELETED_REASON, pc_detail = detail\<rparr>"
  have pushed: "pushed' = pushed @ [cmd]" and d1: "d1 = d\<lparr>db_links := filter (\<lambda>l. \<not> same_link u c l) (db_links d)\<rparr>"
    using assms(1,2) by (auto simp: delete_link_def handler_iff deleteLink_def linkPushCommands_def cmd_def detail_def)
  have client: "getClient d1 c = Some client" using assms(3) by (simp add: d1 getClient_def)
  have gone: "List.find (\<lambda>l. link_clientId l = c) (listUserLinks d1 u) = None"
    by (auto simp: find_None_iff listUserLinks_def d1 same_link_def)
  have name: "link_osUsername l \<noteq> []" using assms(5) by (auto simp: assertUsername_def)
  have unlink: "unlinkDetailSchema detail = Some (link_osUsername l)"
    using name by (cases "link_osUsername l") (simp_all add: unlinkDetailSchema_def detail_def json_get_def)
  have payload: "policyPushPayloadSchema (qa_payload (action_of cmd))
      = Some \<lparr>pp_userId = Some u, pp_reason = LINK_DELETED_REASON, pp_detail = detail\<rparr>" "qa_clientId (action_of cmd) = c"
    using action_of_payload [of cmd] by (simp_all add: cmd_def detail_def LINK_DELETED_REASON_def)
  have reg: "map_of (linux_registry zdb log_exec) Linux = Some (createLinuxPolicyRunner zdb log_exec)"
    by (simp add: linux_registry_def)
  have "policy_push_execute (linux_registry zdb log_exec) tz clock (action_of cmd) (d1, log)
      = linux_unmanage log_exec \<lparr>uc_client = client, uc_username = link_osUsername l, uc_userId = u,
          uc_reason = LINK_DELETED_REASON\<rparr> (d1, log)"
    unfolding policy_push_execute_def Let_def fst_conv payload option.case push_payload.select_convs client assms(4) reg gone
    by (simp add: unlink createLinuxPolicyRunner_def)
  then show ?thesis using pushed unmanage_log [OF assms(5)] by (intro exI [of _ cmd]) simp
qed

text \<open>
  C25 Deleting a user removes the user's links too, but the push it makes does nothing on any client:
  whatever the registry, the executor finds no link and no unlink reason, so the account keeps the limits
  last pushed.
\<close>

theorem deleted_user_stays_enforced:
  assumes "delete_user u (d, pushed) = (Inr (), d', pushed @ commands)" "cmd \<in> set commands"
  shows "listUserLinks d' u = [] \<and> policy_push_execute registry tz clock (action_of cmd) (d', w) = (Inr (), d', w)"
proof -
  have d': "db_links d' = filter (\<lambda>l. link_userId l \<noteq> u) (db_links d)"
    and cmd: "pc_userId cmd = Some u" "pc_reason cmd = ''user.deleted''" "pc_detail cmd = JObj []"
    using assms by (auto simp: delete_user_def handler_iff deleteUser_def userPushCommands_def split: if_splits)
  have none: "listUserLinks d' u = []" by (simp add: listUserLinks_def d' filter_empty_conv)
  have payload: "policyPushPayloadSchema (qa_payload (action_of cmd))
      = Some \<lparr>pp_userId = Some u, pp_reason = ''user.deleted'', pp_detail = JObj []\<rparr>"
    using action_of_payload(1) [of cmd] cmd by simp
  have "policy_push_execute registry tz clock (action_of cmd) (d', w) = (Inr (), d', w)"
    unfolding policy_push_execute_def Let_def fst_conv payload option.case push_payload.select_convs none
    by (simp add: LINK_DELETED_REASON_def skip_def split: option.split)
  with none show ?thesis by simp
qed

lemma deleted_user_stays_enforced_witness:
  "\<exists>d' cmd. delete_user 1 (linked_db, []) = (Inr (), d', [cmd]) \<and> pc_clientId cmd = 1
     \<and> policy_push_execute (linux_registry sample_tzdb log_exec) ''UTC'' (\<lambda>_. 0) (action_of cmd) (d', []) = (Inr (), d', [])"
proof -
  have removed: "snd (deleteUser linked_db 1)" by code_simp
  have clients: "listUserClientIds linked_db 1 = [1]" by (simp add: listUserClientIds_def linked_db_eq)
  obtain d' cmd where r: "delete_user 1 (linked_db, []) = (Inr (), d', [] @ [cmd])" "pc_clientId cmd = 1"
    using removed by (simp add: delete_user_def handler_iff clients userPushCommands_def)
  then show ?thesis using deleted_user_stays_enforced
        [OF r(1), of cmd "linux_registry sample_tzdb log_exec" "''UTC''" "\<lambda>_. 0" "[]"] by auto
qed

end
