(* ===== verification/Usage_Normalise.thy ===== *)
theory Usage_Normalise
  imports Activity_Matcher Intervals Complex_Main
begin

text \<open>
  \<open>transport/activitywatch/normalise.ts\<close>: from the window and afk events of one pull to candidate
  usage samples. A duration of an event is any rational number of seconds, so an instant is a
  rational number of milliseconds; the rounding of floating point sums is not modelled. The merge of
  intervals meets the contract \<open>interval_merger\<close>.
\<close>

section \<open>Events and candidates\<close>

record window_event =
  we_timestamp :: instant
  we_durationSeconds :: rat
  we_app :: string

datatype afk_status = Afk | Not_Afk

record afk_event =
  ae_timestamp :: instant
  ae_durationSeconds :: rat
  ae_status :: afk_status

record usage_candidate =
  cand_userId :: int
  cand_clientId :: int
  cand_activityId :: int
  cand_startedAt :: instant
  cand_endedAt :: instant

record activity_matcher =
  am_id :: int
  am_kind :: activity_kind
  am_matcher :: string
  am_matchType :: "match_type option"

record normalise_input =
  ni_userId :: int
  ni_clientId :: int
  ni_windowEvents :: "window_event list"
  ni_afkEvents :: "afk_event list option"
  ni_activities :: "activity_matcher list"
  ni_now :: instant
  ni_futureToleranceSeconds :: "int option"

definition DEFAULT_FUTURE_TOLERANCE_SECONDS :: int where "DEFAULT_FUTURE_TOLERANCE_SECONDS = 60"

type_synonym ms_interval = "rat interval"

definition WINDOW_RESOLVABLE_KINDS :: "activity_kind list" where
  "WINDOW_RESOLVABLE_KINDS = [App, App_Group]"

definition matchable_of :: "activity_matcher \<Rightarrow> matchable_activity" where
  "matchable_of a = \<lparr>ma_id = am_id a, ma_matchType = nullish (am_matchType a) Exact, ma_matcher = am_matcher a\<rparr>"

definition buildMatchers :: "regexp_ctor \<Rightarrow> activity_matcher list \<Rightarrow> compiled_matcher list" where
  "buildMatchers regexp activities =
     compileMatchers regexp (map matchable_of (filter (\<lambda>a. am_kind a \<in> set WINDOW_RESOLVABLE_KINDS) activities))"

section \<open>Intervals\<close>

definition mergeIntervals :: "ms_interval list \<Rightarrow> ms_interval list" where
  "mergeIntervals intervals = foldl merge_step [] (sort_key iv_start intervals)"

fun intersectWithAllowed :: "ms_interval \<Rightarrow> ms_interval list \<Rightarrow> ms_interval list" where
  "intersectWithAllowed candidate [] = []"
| "intersectWithAllowed candidate (window # allowed) =
     (if iv_end window \<le> iv_start candidate then intersectWithAllowed candidate allowed
      else if iv_start window \<ge> iv_end candidate then []
      else let start = max (iv_start candidate) (iv_start window); end = min (iv_end candidate) (iv_end window)
           in (if end > start then [Interval start end] else []) @ intersectWithAllowed candidate allowed)"

definition afk_interval :: "afk_event \<Rightarrow> ms_interval option" where
  "afk_interval e =
     (if ae_status e \<noteq> Not_Afk then None
      else let start = of_int (ae_timestamp e); end = start + ae_durationSeconds e * 1000
           in if end > start then Some (Interval start end) else None)"

definition notAfkIntervals :: "afk_event list \<Rightarrow> ms_interval list" where
  "notAfkIntervals events = mergeIntervals (List.map_filter afk_interval events)"

section \<open>Normalisation\<close>

definition credited_event :: "compiled_matcher list \<Rightarrow> rat \<Rightarrow> window_event \<Rightarrow> (int \<times> ms_interval) option" where
  "credited_event matchers futureCutoff e =
     (if we_durationSeconds e \<le> 0 then None
      else let start = of_int (we_timestamp e) in
        if start > futureCutoff then None
        else case resolveActivityId matchers (we_app e) of
            None \<Rightarrow> None
          | Some activityId \<Rightarrow>
              let end = min (start + we_durationSeconds e * 1000) futureCutoff
              in if end \<le> start then None else Some (activityId, Interval start end))"

definition future_cutoff :: "normalise_input \<Rightarrow> rat" where
  "future_cutoff i =
     of_int (ni_now i + nullish (ni_futureToleranceSeconds i) DEFAULT_FUTURE_TOLERANCE_SECONDS * 1000)"

definition raw_intervals :: "regexp_ctor \<Rightarrow> normalise_input \<Rightarrow> (int \<times> (int \<times> ms_interval) list) list" where
  "raw_intervals regexp i =
     group_by fst (List.map_filter (credited_event (buildMatchers regexp (ni_activities i)) (future_cutoff i)) (ni_windowEvents i))"

definition allowed_intervals :: "normalise_input \<Rightarrow> ms_interval list option" where
  "allowed_intervals i =
     (case ni_afkEvents i of None \<Rightarrow> None | Some es \<Rightarrow> if length es > 0 then Some (notAfkIntervals es) else None)"

definition clip_to_allowed :: "ms_interval list option \<Rightarrow> ms_interval list \<Rightarrow> ms_interval list" where
  "clip_to_allowed allowed raw =
     (case allowed of None \<Rightarrow> raw | Some as \<Rightarrow> concat (map (\<lambda>iv. intersectWithAllowed iv as) raw))"

definition floor_second :: "rat \<Rightarrow> int" where
  "floor_second t = \<lfloor>t / 1000\<rfloor> * 1000"

definition candidate_of :: "normalise_input \<Rightarrow> int \<Rightarrow> ms_interval \<Rightarrow> usage_candidate option" where
  "candidate_of i activityId w =
     (let startedAt = floor_second (iv_start w); endedAt = floor_second (iv_end w) in
      if endedAt \<le> startedAt then None
      else Some \<lparr>cand_userId = ni_userId i, cand_clientId = ni_clientId i, cand_activityId = activityId,
                 cand_startedAt = startedAt, cand_endedAt = endedAt\<rparr>)"

definition activity_candidates :: "normalise_input \<Rightarrow> int \<times> (int \<times> ms_interval) list \<Rightarrow> usage_candidate list" where
  "activity_candidates i entry =
     List.map_filter (candidate_of i (fst entry))
       (mergeIntervals (clip_to_allowed (allowed_intervals i) (map snd (snd entry))))"

definition normaliseWindowEvents :: "regexp_ctor \<Rightarrow> normalise_input \<Rightarrow> usage_candidate list" where
  "normaliseWindowEvents regexp i = concat (map (activity_candidates i) (sort_key fst (raw_intervals regexp i)))"

section \<open>Lemmas on intervals\<close>

lemma mergeIntervals_sweep:
  assumes "\<forall>w \<in> set ws. proper w"
  shows "normal (mergeIntervals ws) \<and> (covers (mergeIntervals ws) m \<longleftrightarrow> covers ws m)"
  using merge_sweep [of "[]" "sort_key iv_start ws" m] covers_cong_set [of "sort_key iv_start ws" ws m] assms
  by (simp add: mergeIntervals_def)

interpretation usage: interval_merger mergeIntervals
  by unfold_locales (simp_all add: mergeIntervals_sweep)

lemma intersect_proper: "w \<in> set (intersectWithAllowed c ws) \<Longrightarrow> proper w"
  by (induction c ws rule: intersectWithAllowed.induct) (auto simp: proper_def Let_def split: if_splits)

lemma intersect_covers:
  assumes "proper c" "normal ws"
  shows "covers (intersectWithAllowed c ws) t \<longleftrightarrow> inside c t \<and> covers ws t"
  using assms
proof (induction c ws rule: intersectWithAllowed.induct)
  case (2 c w ws)
  from "2.prems" have w: "proper w" "\<forall>v \<in> set ws. iv_end w < iv_start v" "normal ws" by (auto simp: normal_Cons before_def)
  show ?case
  proof (cases "iv_end w \<le> iv_start c")
    case True
    with 2 w show ?thesis by (auto simp: covers_Cons inside_def)
  next
    case False
    show ?thesis
    proof (cases "iv_start w \<ge> iv_end c")
      case True
      have "\<not> covers (w # ws) t" if "inside c t"
        using that True w by (fastforce simp: covers_def inside_def proper_def)
      then show ?thesis using True False by auto
    next
      case later: False
      with False 2 w show ?thesis by (auto simp: covers_append covers_Cons inside_def Let_def)
    qed
  qed
qed simp

lemma notAfk_normal: "normal (notAfkIntervals es)"
  unfolding notAfkIntervals_def
  by (intro usage.merge_normal) (auto simp: afk_interval_def proper_def Let_def split: if_splits)

lemma notAfk_covers: "covers (notAfkIntervals es) t \<longleftrightarrow> (\<exists>e \<in> set es. \<exists>w. afk_interval e = Some w \<and> inside w t)"
proof -
  have "\<forall>w \<in> set (List.map_filter afk_interval es). proper w"
    by (auto simp: afk_interval_def proper_def Let_def split: if_splits)
  then show ?thesis unfolding notAfkIntervals_def usage.merge_covers [OF \<open>\<forall>w \<in> _. proper w\<close>]
    by (simp only: covers_def bex_map_filter)
qed

lemma credited_proper: "credited_event ms hi e = Some (a, w) \<Longrightarrow> proper w"
  by (auto simp: credited_event_def proper_def Let_def split: if_splits option.splits)

section \<open>What an interval of milliseconds credits\<close>

lemma floor_second_mono: "a \<le> b \<Longrightarrow> floor_second a \<le> floor_second b"
  by (simp add: floor_second_def floor_mono divide_right_mono)

lemma floor_second_aligned [simp]: "1000 dvd floor_second a"
  by (simp add: floor_second_def)

lemma floor_second_of_aligned: "1000 dvd s \<Longrightarrow> floor_second (of_int s) = s"
  by (auto simp: floor_second_def elim!: dvdE)

lemma floor_second_le: "1000 dvd s \<Longrightarrow> floor_second t \<le> s \<longleftrightarrow> t < of_int (s + 1000)"
proof -
  assume "1000 dvd s"
  then obtain k where k: "s = 1000 * k" ..
  have "floor_second t \<le> s \<longleftrightarrow> \<lfloor>t / 1000\<rfloor> \<le> k" by (simp add: floor_second_def k)
  also have "\<dots> \<longleftrightarrow> t < of_int (s + 1000)" by (simp add: floor_le_iff k field_simps)
  finally show ?thesis .
qed

lemma floor_second_less: "1000 dvd s \<Longrightarrow> s < floor_second t \<longleftrightarrow> of_int (s + 1000) \<le> t"
  using floor_second_le [of s t] by (simp add: not_le [symmetric])

text \<open>The seconds that normal intervals credit are those whose end they reach.\<close>

definition reaches_end :: "(rat \<Rightarrow> bool) \<Rightarrow> rat \<Rightarrow> bool" where
  "reaches_end used t \<longleftrightarrow> (\<exists>x < t. \<forall>y. x \<le> y \<and> y < t \<longrightarrow> used y)"

lemma reaches_end_normal:
  assumes "normal ws"
  shows "reaches_end (covers ws) t \<longleftrightarrow> (\<exists>w \<in> set ws. iv_start w < t \<and> t \<le> iv_end w)"
proof
  assume "reaches_end (covers ws) t"
  then obtain x where x: "x < t" "\<And>y. x \<le> y \<Longrightarrow> y < t \<Longrightarrow> covers ws y" by (auto simp: reaches_end_def)
  let ?E = "insert x (iv_end ` {w \<in> set ws. iv_end w < t})"
  let ?y = "Max ?E"
  have fin: "finite ?E" by simp
  have "?y \<in> ?E" by (rule Max_in) auto
  then have "?y < t" using x(1) by auto
  moreover have "x \<le> ?y" by (rule Max_ge) auto
  ultimately have "covers ws ?y" by (intro x(2))
  then obtain w where w: "w \<in> set ws" "iv_start w \<le> ?y" "?y < iv_end w"
    unfolding covers_def inside_def by blast
  have "\<not> iv_end w < t"
  proof
    assume "iv_end w < t"
    then have "iv_end w \<le> ?y" using w(1) by (intro Max_ge) auto
    with w(3) show False by (meson not_le)
  qed
  then have "iv_start w < t \<and> t \<le> iv_end w" using w(2) \<open>?y < t\<close> by (meson le_less_trans not_le)
  with w(1) show "\<exists>w \<in> set ws. iv_start w < t \<and> t \<le> iv_end w" by blast
next
  assume "\<exists>w \<in> set ws. iv_start w < t \<and> t \<le> iv_end w"
  then show "reaches_end (covers ws) t" by (fastforce simp: reaches_end_def covers_def inside_def)
qed

section \<open>The candidates of one activity\<close>

definition credits :: "usage_candidate list \<Rightarrow> int \<Rightarrow> instant \<Rightarrow> bool" where
  "credits cs a t \<longleftrightarrow> (\<exists>c \<in> set cs. cand_activityId c = a \<and> cand_startedAt c \<le> t \<and> t < cand_endedAt c)"

lemma candidate_of_Some:
  "candidate_of i a w = Some c \<longleftrightarrow> floor_second (iv_start w) < floor_second (iv_end w)
    \<and> c = \<lparr>cand_userId = ni_userId i, cand_clientId = ni_clientId i, cand_activityId = a,
           cand_startedAt = floor_second (iv_start w), cand_endedAt = floor_second (iv_end w)\<rparr>"
  by (auto simp: candidate_of_def Let_def)

lemma candidates_credit:
  assumes "normal ws" "1000 dvd s"
  shows "credits (List.map_filter (candidate_of i a) ws) a s \<longleftrightarrow> reaches_end (covers ws) (of_int (s + 1000))"
proof -
  have "credits (List.map_filter (candidate_of i a) ws) a s \<longleftrightarrow>
      (\<exists>w \<in> set ws. floor_second (iv_start w) \<le> s \<and> s < floor_second (iv_end w))"
    unfolding credits_def bex_map_filter candidate_of_Some by (intro bex_cong refl) auto
  then show ?thesis
    unfolding reaches_end_normal [OF assms(1)] floor_second_le [OF assms(2)] floor_second_less [OF assms(2)] by blast
qed

text \<open>When activity \<open>a\<close> was in the foreground and the user present, as the events tell it.\<close>

definition foreground :: "regexp_ctor \<Rightarrow> normalise_input \<Rightarrow> int \<Rightarrow> rat \<Rightarrow> bool" where
  "foreground regexp i a t \<longleftrightarrow>
     (\<exists>e \<in> set (ni_windowEvents i). resolveActivityId (buildMatchers regexp (ni_activities i)) (we_app e) = Some a
        \<and> of_int (we_timestamp e) \<le> t \<and> t < of_int (we_timestamp e) + we_durationSeconds e * 1000 \<and> t < future_cutoff i)"

definition present :: "normalise_input \<Rightarrow> rat \<Rightarrow> bool" where
  "present i t \<longleftrightarrow>
     (case ni_afkEvents i of
        None \<Rightarrow> True
      | Some es \<Rightarrow> es = [] \<or> (\<exists>e \<in> set es. ae_status e = Not_Afk \<and> of_int (ae_timestamp e) \<le> t
                                \<and> t < of_int (ae_timestamp e) + ae_durationSeconds e * 1000))"

lemma credited_event_inside:
  "(\<exists>w. credited_event ms hi e = Some (a, w) \<and> inside w t) \<longleftrightarrow>
     resolveActivityId ms (we_app e) = Some a \<and> of_int (we_timestamp e) \<le> t
     \<and> t < of_int (we_timestamp e) + we_durationSeconds e * 1000 \<and> t < hi"
  by (auto simp: credited_event_def inside_def Let_def min_def split: option.splits)

lemma afk_interval_inside:
  "(\<exists>w. afk_interval e = Some w \<and> inside w t) \<longleftrightarrow>
     ae_status e = Not_Afk \<and> of_int (ae_timestamp e) \<le> t \<and> t < of_int (ae_timestamp e) + ae_durationSeconds e * 1000"
  by (auto simp: afk_interval_def inside_def Let_def)

lemma clip_proper:
  "\<forall>w \<in> set raw. proper w \<Longrightarrow> \<forall>w \<in> set (clip_to_allowed allowed raw). proper w"
  by (auto simp: clip_to_allowed_def dest: intersect_proper split: option.splits)

lemma clip_covers:
  assumes "\<forall>w \<in> set raw. proper w"
  shows "covers (clip_to_allowed (allowed_intervals i) raw) t \<longleftrightarrow> covers raw t \<and> present i t"
proof (cases "allowed_intervals i")
  case None
  then have "present i t" by (auto simp: allowed_intervals_def present_def split: option.splits if_splits)
  then show ?thesis by (simp add: None clip_to_allowed_def)
next
  case (Some ws)
  then obtain es where es: "ni_afkEvents i = Some es" "es \<noteq> []" "ws = notAfkIntervals es"
    by (auto simp: allowed_intervals_def split: option.splits if_splits)
  have "covers (clip_to_allowed (Some ws) raw) t \<longleftrightarrow> (\<exists>w \<in> set raw. covers (intersectWithAllowed w ws) t)"
    by (auto simp: clip_to_allowed_def covers_def)
  also have "\<dots> \<longleftrightarrow> covers raw t \<and> covers ws t"
    using assms intersect_covers [OF _ notAfk_normal] by (auto simp: es(3) covers_def [of raw])
  also have "covers ws t = present i t"
    unfolding es(3) notAfk_covers afk_interval_inside by (simp add: present_def es)
  finally show ?thesis using Some by simp
qed

lemma raw_intervals_of:
  "map_of (raw_intervals regexp i) a =
     (let es = List.map_filter (credited_event (buildMatchers regexp (ni_activities i)) (future_cutoff i)) (ni_windowEvents i)
      in if a \<in> fst ` set es then Some (filter (\<lambda>x. fst x = a) es) else None)"
  by (simp add: raw_intervals_def map_of_group_by Let_def)

lemma raw_covers:
  "(case map_of (raw_intervals regexp i) a of None \<Rightarrow> False | Some rows \<Rightarrow> covers (map snd rows) t) \<longleftrightarrow> foreground regexp i a t"
proof -
  have "(case map_of (raw_intervals regexp i) a of None \<Rightarrow> False | Some rows \<Rightarrow> covers (map snd rows) t) \<longleftrightarrow>
      (\<exists>e \<in> set (ni_windowEvents i). \<exists>w. credited_event (buildMatchers regexp (ni_activities i)) (future_cutoff i) e = Some (a, w) \<and> inside w t)"
    by (force simp: raw_intervals_of Let_def covers_def)
  then show ?thesis unfolding credited_event_inside foreground_def .
qed

lemma raw_proper: "(a, rows) \<in> set (raw_intervals regexp i) \<Longrightarrow> \<forall>w \<in> set (map snd rows). proper w"
proof -
  assume "(a, rows) \<in> set (raw_intervals regexp i)"
  then have "map_of (raw_intervals regexp i) a = Some rows"
    using distinct_group_by unfolding raw_intervals_def by (intro map_of_is_SomeI) auto
  then show ?thesis
    by (auto simp: raw_intervals_of Let_def split: if_splits dest!: credited_proper)
qed

lemma credits_concat: "credits (concat css) a t \<longleftrightarrow> (\<exists>cs \<in> set css. credits cs a t)"
  by (auto simp: credits_def)

lemma credits_activity: "credits (activity_candidates i entry) a t \<Longrightarrow> fst entry = a"
  by (auto simp: credits_def activity_candidates_def candidate_of_def Let_def split: if_splits)

section \<open>Properties\<close>

text \<open>
  C7 A whole second is credited to an activity exactly when the events put the activity in the
  foreground, with the user present, through the end of that second (and before the tolerated future).
\<close>

theorem normalise_credit_exact:
  assumes "1000 dvd s"
  shows "credits (normaliseWindowEvents regexp i) a s \<longleftrightarrow>
     reaches_end (\<lambda>t. foreground regexp i a t \<and> present i t) (of_int (s + 1000))"
proof -
  let ?raw = "raw_intervals regexp i"
  have dist: "distinct (map fst ?raw)" by (simp add: raw_intervals_def distinct_group_by)
  have "credits (normaliseWindowEvents regexp i) a s \<longleftrightarrow> (\<exists>entry \<in> set ?raw. credits (activity_candidates i entry) a s)"
    by (auto simp: normaliseWindowEvents_def credits_concat)
  also have "\<dots> \<longleftrightarrow> (\<exists>rows. map_of ?raw a = Some rows \<and> credits (activity_candidates i (a, rows)) a s)"
    using dist credits_activity by (metis map_of_eq_Some_iff prod.collapse)
  also have "\<dots> \<longleftrightarrow> reaches_end (\<lambda>t. foreground regexp i a t \<and> present i t) (of_int (s + 1000))"
  proof (cases "map_of ?raw a")
    case None
    then have "\<not> foreground regexp i a t" for t using raw_covers [where regexp = regexp and i = i and a = a and t = t] by simp
    then show ?thesis using None by (auto simp: reaches_end_def)
  next
    case (Some rows)
    then have p: "\<forall>w \<in> set (map snd rows). proper w" using raw_proper by (metis map_of_SomeD)
    let ?clipped = "clip_to_allowed (allowed_intervals i) (map snd rows)"
    note c = clip_proper [OF p, of "allowed_intervals i"]
    have "covers (mergeIntervals ?clipped) = (\<lambda>t. foreground regexp i a t \<and> present i t)"
      using usage.merge_covers [OF c] clip_covers [OF p] raw_covers [where regexp = regexp and i = i and a = a] Some by (intro ext) simp_all
    then show ?thesis
      using candidates_credit [OF usage.merge_normal [OF c] assms, of i a] Some by (simp add: activity_candidates_def)
  qed
  finally show ?thesis .
qed

text \<open>Order of the candidates of one pull: by activity, and in time within an activity.\<close>

definition follows :: "usage_candidate \<Rightarrow> usage_candidate \<Rightarrow> bool" where
  "follows c c' \<longleftrightarrow> cand_activityId c < cand_activityId c'
     \<or> cand_activityId c = cand_activityId c' \<and> cand_endedAt c \<le> cand_startedAt c'"

definition well_formed_candidate :: "normalise_input \<Rightarrow> usage_candidate \<Rightarrow> bool" where
  "well_formed_candidate i c \<longleftrightarrow> cand_userId c = ni_userId i \<and> cand_clientId c = ni_clientId i
     \<and> 1000 dvd cand_startedAt c \<and> 1000 dvd cand_endedAt c \<and> cand_startedAt c < cand_endedAt c"

lemma sorted_wrt_map_filter:
  assumes "sorted_wrt R xs" "\<And>x y u v. R x y \<Longrightarrow> f x = Some u \<Longrightarrow> f y = Some v \<Longrightarrow> Q u v"
  shows "sorted_wrt Q (List.map_filter f xs)"
  using assms(1)
proof (induction xs)
  case (Cons x xs)
  then show ?case using assms(2) by (cases "f x") (auto simp: List.map_filter_simps, blast)
qed (simp add: List.map_filter_simps)

lemma candidates_follow:
  assumes "normal ws"
  shows "sorted_wrt follows (List.map_filter (candidate_of i a) ws)"
proof (rule sorted_wrt_map_filter)
  show "sorted_wrt before ws" using assms by (simp add: normal_def)
  fix w w' c c' assume "before w w'" "candidate_of i a w = Some c" "candidate_of i a w' = Some c'"
  then show "follows c c'" unfolding candidate_of_Some before_def
    by (auto simp: follows_def intro: floor_second_mono less_imp_le)
qed

lemma sorted_wrt_concat:
  assumes "\<And>x. x \<in> set xs \<Longrightarrow> sorted_wrt Q (f x)" "sorted_wrt R xs"
    and "\<And>x y u v. R x y \<Longrightarrow> u \<in> set (f x) \<Longrightarrow> v \<in> set (f y) \<Longrightarrow> Q u v"
  shows "sorted_wrt Q (concat (map f xs))"
  using assms(1,2) by (induction xs) (auto simp: sorted_wrt_append dest: assms(3))

lemma entry_normal:
  assumes "entry \<in> set (raw_intervals regexp i)"
  shows "normal (mergeIntervals (clip_to_allowed (allowed_intervals i) (map snd (snd entry))))"
  using raw_proper [of "fst entry" "snd entry" regexp i] assms by (intro usage.merge_normal clip_proper) simp

lemma candidates_follow_all: "sorted_wrt follows (normaliseWindowEvents regexp i)"
  unfolding normaliseWindowEvents_def
proof (rule sorted_wrt_concat [where R = "\<lambda>x y. fst x < fst y"])
  fix entry assume "entry \<in> set (sort_key fst (raw_intervals regexp i))"
  then show "sorted_wrt follows (activity_candidates i entry)"
    unfolding activity_candidates_def by (intro candidates_follow entry_normal) simp
next
  let ?raw = "sort_key fst (raw_intervals regexp i)"
  have "mset (map fst ?raw) = mset (map fst (raw_intervals regexp i))" by simp
  then have "distinct (map fst ?raw)" using distinct_group_by unfolding raw_intervals_def by (metis mset_eq_imp_distinct_iff)
  then have "sorted_wrt (<) (map fst ?raw)" by (simp add: strict_sorted_iff)
  then show "sorted_wrt (\<lambda>x y. fst x < fst y) ?raw" by (simp add: sorted_wrt_map)
next
  fix x y c c' assume "fst x < fst y" "c \<in> set (activity_candidates i x)" "c' \<in> set (activity_candidates i y)"
  then show "follows c c'" by (auto simp: activity_candidates_def candidate_of_Some follows_def)
qed

lemma candidate_well_formed:
  "c \<in> set (normaliseWindowEvents regexp i) \<Longrightarrow> well_formed_candidate i c"
  by (auto simp: normaliseWindowEvents_def activity_candidates_def candidate_of_Some well_formed_candidate_def)

text \<open>
  The candidates of a pull carry its user and client, start and end on whole seconds, are nonempty,
  and come in order of activity and time, without overlap within an activity.
\<close>

theorem normalise_tiles:
  "list_all (well_formed_candidate i) (normaliseWindowEvents regexp i)
    \<and> sorted_wrt follows (normaliseWindowEvents regexp i)"
  by (simp add: list_all_iff candidate_well_formed candidates_follow_all)

text \<open>One millisecond of use, before the end of a second, credits the whole second.\<close>

definition one_ms_input :: normalise_input where
  "one_ms_input = \<lparr>ni_userId = 1, ni_clientId = 1,
     ni_windowEvents = [\<lparr>we_timestamp = 999, we_durationSeconds = 1/1000, we_app = ''game''\<rparr>],
     ni_afkEvents = None, ni_activities = [\<lparr>am_id = 7, am_kind = App, am_matcher = ''Game'', am_matchType = None\<rparr>],
     ni_now = 5000, ni_futureToleranceSeconds = None\<rparr>"

lemma one_ms_resolves: "resolveActivityId (buildMatchers simple_regexp (ni_activities one_ms_input)) ''game'' = Some 7"
  by code_simp

lemma one_ms_foreground: "foreground simple_regexp one_ms_input 7 t \<longleftrightarrow> 999 \<le> t \<and> t < 1000"
  unfolding foreground_def using one_ms_resolves
  by (auto simp: one_ms_input_def future_cutoff_def DEFAULT_FUTURE_TOLERANCE_SECONDS_def)

lemma normalise_credit_exact_witness: "credits (normaliseWindowEvents simple_regexp one_ms_input) 7 0"
proof -
  have "reaches_end (\<lambda>t. foreground simple_regexp one_ms_input 7 t \<and> present one_ms_input t) (of_int (0 + 1000))"
    unfolding reaches_end_def one_ms_foreground by (intro exI [of _ 999]) (auto simp: present_def one_ms_input_def)
  then show ?thesis by (subst normalise_credit_exact) simp_all
qed

end
