(* ===== verification/Usage_Rollup.thy ===== *)
theory Usage_Rollup
  imports Control_Store Usage_Normalise
begin

text \<open>
  \<open>policy/usage.ts\<close>: the usage samples and what is rolled up from them for a budget window, and the
  durable pull cursor of \<open>policy/telemetry-cursor.ts\<close>. Seconds are rational numbers, as the code
  divides milliseconds by 1000.
\<close>

section \<open>Samples\<close>

record window_query =
  wq_userId :: int
  wq_window :: budget_window
  wq_now :: instant
  wq_tz :: string
  wq_change :: "timezone_change option"

definition sample_of :: "int \<Rightarrow> usage_candidate \<Rightarrow> sample_row" where
  "sample_of i c = \<lparr>us_id = i, us_userId = cand_userId c, us_clientId = cand_clientId c,
     us_activityId = cand_activityId c, us_startedAt = stored_timestamp (cand_startedAt c),
     us_endedAt = stored_timestamp (cand_endedAt c)\<rparr>"

datatype sample_error = Sample_Foreign_Key | Sample_Interval

text \<open>The constraints of a row of \<open>usage_samples\<close>.\<close>

definition sample_check :: "db \<Rightarrow> sample_row \<Rightarrow> sample_error + unit" where
  "sample_check d s =
     (if getUser d (us_userId s) = None \<or> getClient d (us_clientId s) = None
         \<or> getActivity (db_policy d) (us_activityId s) = None then Inl Sample_Foreign_Key
      else if us_endedAt s < us_startedAt s then Inl Sample_Interval else Inr ())"

definition insertUsageSamples :: "db \<Rightarrow> usage_candidate list \<Rightarrow> sample_error + db \<times> int" where
  "insertUsageSamples d samples =
     (if length samples = 0 then Inr (d, 0)
      else let p = db_policy d;
               rows = map (\<lambda>(k, c). sample_of (st_sampleSeq p + 1 + int k) c) (zip [0..<length samples] samples)
           in bindE (mapE (sample_check d) rows) (\<lambda>_.
                Inr (d\<lparr>db_policy := p\<lparr>st_samples := st_samples p @ rows,
                                        st_sampleSeq := st_sampleSeq p + int (length rows)\<rparr>\<rparr>,
                     int (length rows))))"

section \<open>Rollups\<close>

definition overlapSeconds :: "sample_row \<Rightarrow> instant \<Rightarrow> instant \<Rightarrow> rat" where
  "overlapSeconds row lo hi =
     (let start = max (us_startedAt row) lo; end = min (us_endedAt row) hi
      in of_int (max 0 (end - start)) / 1000)"

text \<open>A bound compared with a \<open>timestamp\<close> column is first stored as one, in whole seconds.\<close>

definition overlaps :: "instant \<Rightarrow> instant \<Rightarrow> sample_row \<Rightarrow> bool" where
  "overlaps lo hi row \<longleftrightarrow>
     us_startedAt row < stored_timestamp hi \<and> us_endedAt row > stored_timestamp lo"

definition samplesOverlapping :: "store \<Rightarrow> int \<Rightarrow> instant \<Rightarrow> instant \<Rightarrow> sample_row list" where
  "samplesOverlapping st userId lo hi =
     filter (\<lambda>s. us_userId s = userId \<and> overlaps lo hi s) (st_samples st)"

definition window_rows :: "store \<Rightarrow> int \<Rightarrow> (int \<Rightarrow> bool) \<Rightarrow> budget_bounds \<Rightarrow> sample_row list" where
  "window_rows st userId P b =
     filter (\<lambda>s. us_userId s = userId \<and> P (us_activityId s) \<and> overlaps (bw_start b) (bw_end b) s) (st_samples st)"

definition total_seconds :: "budget_bounds \<Rightarrow> sample_row list \<Rightarrow> rat" where
  "total_seconds b rows = foldl (\<lambda>total row. total + overlapSeconds row (bw_start b) (bw_end b)) 0 rows"

definition query_window :: "tzdb \<Rightarrow> window_query \<Rightarrow> tz_error + budget_bounds" where
  "query_window zdb q = effectiveWindow zdb (wq_window q) (wq_now q) (wq_tz q) (wq_change q)"

definition activitySecondsInWindow :: "tzdb \<Rightarrow> store \<Rightarrow> window_query \<Rightarrow> int \<Rightarrow> tz_error + rat" where
  "activitySecondsInWindow zdb st q activityId =
     bindE (query_window zdb q) (\<lambda>b. Inr (total_seconds b (window_rows st (wq_userId q) (\<lambda>a. a = activityId) b)))"

definition count_sample :: "budget_bounds \<Rightarrow> (int \<times> rat) list \<Rightarrow> sample_row \<Rightarrow> (int \<times> rat) list" where
  "count_sample b byActivity row =
     (let seconds = overlapSeconds row (bw_start b) (bw_end b)
      in AList.update (us_activityId row) (nullish (map_of byActivity (us_activityId row)) 0 + seconds) byActivity)"

definition usageByActivityInWindow :: "tzdb \<Rightarrow> store \<Rightarrow> window_query \<Rightarrow> tz_error + (int \<times> rat) list" where
  "usageByActivityInWindow zdb st q =
     bindE (query_window zdb q) (\<lambda>b.
       Inr (foldl (count_sample b) [] (samplesOverlapping st (wq_userId q) (bw_start b) (bw_end b))))"

definition group_members :: "store \<Rightarrow> int \<Rightarrow> int list" where
  "group_members st groupId = map fst (filter (\<lambda>m. snd m = groupId) (st_activityMembers st))"

definition groupSecondsInWindow :: "tzdb \<Rightarrow> store \<Rightarrow> window_query \<Rightarrow> int \<Rightarrow> tz_error + rat" where
  "groupSecondsInWindow zdb st q groupId =
     (let activityIds = group_members st groupId in
      if length activityIds = 0 then Inr 0
      else bindE (query_window zdb q) (\<lambda>b.
        Inr (total_seconds b (window_rows st (wq_userId q) (\<lambda>a. a \<in> set activityIds) b))))"

definition activityTimeline :: "store \<Rightarrow> int \<Rightarrow> instant \<Rightarrow> instant \<Rightarrow> sample_row list" where
  "activityTimeline st userId lo hi =
     sort_key (\<lambda>s. (us_startedAt s, us_id s)) (samplesOverlapping st userId lo hi)"

section \<open>The pull cursor\<close>

definition loadTelemetryCursors :: "db \<Rightarrow> (int \<times> instant) list" where
  "loadTelemetryCursors d =
     foldl (\<lambda>cursors c. case client_lastTelemetryPullAt c of None \<Rightarrow> cursors | Some t \<Rightarrow> AList.update (client_id c) t cursors)
       [] (filter (\<lambda>c. client_lastTelemetryPullAt c \<noteq> None) (db_clients d))"

definition saveTelemetryCursor :: "db \<Rightarrow> int \<Rightarrow> instant \<Rightarrow> db" where
  "saveTelemetryCursor d clientId end =
     set_client d clientId (\<lambda>c. c\<lparr>client_lastTelemetryPullAt := Some (stored_timestamp end)\<rparr>)"

section \<open>Lemmas\<close>

lemma stored_timestamp_mono: "a \<le> b \<Longrightarrow> stored_timestamp a \<le> stored_timestamp b"
  by (simp add: stored_timestamp_def zdiv_mono1)

lemma stored_timestamp_aligned: "1000 dvd t \<Longrightarrow> stored_timestamp t = t"
  by (simp add: stored_timestamp_def)

lemma dvd_stored_timestamp [simp]: "1000 dvd stored_timestamp t"
  by (simp add: stored_timestamp_def)

lemma stored_timestamp_idem [simp]: "stored_timestamp (stored_timestamp t) = stored_timestamp t"
  by (simp add: stored_timestamp_aligned)

lemma total_seconds_sum: "total_seconds b rows = (\<Sum>s \<leftarrow> rows. overlapSeconds s (bw_start b) (bw_end b))"
proof -
  have "foldl (\<lambda>total row. total + overlapSeconds row (bw_start b) (bw_end b)) n rows
      = n + (\<Sum>s \<leftarrow> rows. overlapSeconds s (bw_start b) (bw_end b))" for n
    by (induction rows arbitrary: n) simp_all
  then show ?thesis by (simp add: total_seconds_def)
qed

lemma overlapSeconds_nonneg [simp]: "0 \<le> overlapSeconds s a b"
  by (simp add: overlapSeconds_def Let_def)

lemma count_samples:
  "nullish (map_of (foldl (count_sample b) m rows) a) 0 =
     nullish (map_of m a) 0 + total_seconds b (filter (\<lambda>s. us_activityId s = a) rows)"
proof (induction rows arbitrary: m)
  case (Cons r rows)
  then show ?case by (simp add: count_sample_def Let_def total_seconds_sum)
qed (simp add: total_seconds_sum)

lemma window_rows_by_activity:
  "filter (\<lambda>s. us_activityId s = a) (samplesOverlapping st u (bw_start b) (bw_end b)) = window_rows st u (\<lambda>x. x = a) b"
  by (auto simp: samplesOverlapping_def window_rows_def intro: filter_cong)

lemma sum_list_swap: "(\<Sum>x \<leftarrow> xs. \<Sum>y \<leftarrow> ys. f x y) = (\<Sum>y \<leftarrow> ys. \<Sum>x \<leftarrow> xs. f x y)" for f :: "'a \<Rightarrow> 'b \<Rightarrow> rat"
  by (induction xs) (simp_all add: sum_list_addf)

lemma sum_list_pick: "distinct xs \<Longrightarrow> (\<Sum>x \<leftarrow> xs. if a = x \<and> P then c else 0) = (if a \<in> set xs \<and> P then c else 0)" for c :: rat
  by (induction xs) auto

lemma total_seconds_if:
  "total_seconds b (window_rows st u P b) = (\<Sum>s \<leftarrow> st_samples st.
     if P (us_activityId s) \<and> us_userId s = u \<and> overlaps (bw_start b) (bw_end b) s
     then overlapSeconds s (bw_start b) (bw_end b) else 0)"
  unfolding total_seconds_sum window_rows_def sum_list_map_filter' by (intro arg_cong [of _ _ sum_list] map_cong refl) auto

lemma total_seconds_members:
  assumes "distinct members"
  shows "total_seconds b (window_rows st u (\<lambda>a. a \<in> set members) b)
    = (\<Sum>a \<leftarrow> members. total_seconds b (window_rows st u (\<lambda>x. x = a) b))"
  unfolding total_seconds_if sum_list_swap [of _ "st_samples st"] sum_list_pick [OF assms] ..

lemma total_seconds_nonneg: "0 \<le> total_seconds b rows"
  unfolding total_seconds_sum by (rule sum_list_nonneg) auto

section \<open>Properties\<close>

text \<open>
  The rollups agree: for the window of the query, the per-activity map holds for each activity the
  seconds of the single-activity rollup, and the seconds of a group are the sum over its members, so
  that the same sample is never counted twice in a group.
\<close>

theorem rollups_agree:
  assumes "query_window zdb q = Inr b" "distinct (group_members st groupId)"
  shows "\<exists>m secs. usageByActivityInWindow zdb st q = Inr m
     \<and> (\<forall>a. activitySecondsInWindow zdb st q a = Inr (secs a) \<and> nullish (map_of m a) 0 = secs a \<and> 0 \<le> secs a)
     \<and> groupSecondsInWindow zdb st q groupId = Inr (\<Sum>a \<leftarrow> group_members st groupId. secs a)"
proof -
  let ?secs = "\<lambda>a. total_seconds b (window_rows st (wq_userId q) (\<lambda>x. x = a) b)"
  let ?m = "foldl (count_sample b) [] (samplesOverlapping st (wq_userId q) (bw_start b) (bw_end b))"
  have "usageByActivityInWindow zdb st q = Inr ?m" using assms(1) by (simp add: usageByActivityInWindow_def)
  moreover have "activitySecondsInWindow zdb st q a = Inr (?secs a)" for a
    using assms(1) by (simp add: activitySecondsInWindow_def)
  moreover have "nullish (map_of ?m a) 0 = ?secs a" for a by (simp add: count_samples window_rows_by_activity)
  moreover have "0 \<le> ?secs a" for a by (rule total_seconds_nonneg)
  moreover have "groupSecondsInWindow zdb st q groupId = Inr (\<Sum>a \<leftarrow> group_members st groupId. ?secs a)"
    using assms total_seconds_members [OF assms(2)] by (simp add: groupSecondsInWindow_def Let_def)
  ultimately show ?thesis by (intro exI [of _ ?m] exI [of _ ?secs] conjI allI) simp_all
qed

definition played :: store where
  "played = empty_store\<lparr>
     st_activities := [\<lparr>act_id = 7, act_kind = App, act_matcher = ''steam'', act_matchType = Exact\<rparr>], st_activitySeq := 7,
     st_activityGroups := [(3, ''Games'')], st_activityGroupSeq := 3, st_activityMembers := [(7, 3)],
     st_samples := [\<lparr>us_id = 1, us_userId = 5, us_clientId = 1, us_activityId = 7,
                     us_startedAt = 1740826000000, us_endedAt = 1740830000000\<rparr>],
     st_sampleSeq := 1\<rparr>"

lemma rollups_agree_witness:
  "groupSecondsInWindow sample_tzdb played
     \<lparr>wq_userId = 5, wq_window = Daily, wq_now = 1740830400000, wq_tz = ''America/New_York'', wq_change = None\<rparr> 3 = Inr 4000"
proof -
  let ?q = "\<lparr>wq_userId = 5, wq_window = Daily, wq_now = 1740830400000, wq_tz = ''America/New_York'', wq_change = None\<rparr>"
  have q: "query_window sample_tzdb ?q = Inr \<lparr>bw_start = 1740805200000, bw_end = 1740891600000, bw_tz = ''America/New_York''\<rparr>"
    by (simp add: query_window_def effectiveWindow_def new_york_march_1)
  have members: "group_members played 3 = [7]" by code_simp
  have "activitySecondsInWindow sample_tzdb played ?q 7 = Inr 4000"
    unfolding activitySecondsInWindow_def q bindE.simps by code_simp
  with rollups_agree [OF q, of played 3] members show ?thesis by auto
qed

text \<open>Where a window is cut, the seconds of a sample are cut with it.\<close>

lemma overlapSeconds_split:
  assumes "us_startedAt s \<le> us_endedAt s" "a \<le> m" "m \<le> b"
  shows "overlapSeconds s a b = overlapSeconds s a m + overlapSeconds s m b"
proof -
  have "max 0 (min (us_endedAt s) b - max (us_startedAt s) a) =
      max 0 (min (us_endedAt s) m - max (us_startedAt s) a) + max 0 (min (us_endedAt s) b - max (us_startedAt s) m)"
    using assms by arith
  then show ?thesis by (simp add: overlapSeconds_def Let_def add_divide_distrib flip: of_int_add)
qed

lemma overlaps_none:
  assumes "1000 dvd us_startedAt s" "1000 dvd us_endedAt s" "1000 dvd a" "1000 dvd b" "\<not> overlaps a b s"
  shows "overlapSeconds s a b = 0"
  using assms by (auto simp: overlaps_def overlapSeconds_def stored_timestamp_aligned)

definition aligned_samples :: "store \<Rightarrow> bool" where
  "aligned_samples st \<longleftrightarrow>
     (\<forall>s \<in> set (st_samples st). 1000 dvd us_startedAt s \<and> 1000 dvd us_endedAt s \<and> us_startedAt s \<le> us_endedAt s)"

lemma total_seconds_all:
  assumes "aligned_samples st" "1000 dvd bw_start b" "1000 dvd bw_end b"
  shows "total_seconds b (window_rows st u P b) =
    (\<Sum>s \<leftarrow> filter (\<lambda>s. us_userId s = u \<and> P (us_activityId s)) (st_samples st). overlapSeconds s (bw_start b) (bw_end b))"
proof -
  have "(\<Sum>s \<leftarrow> filter (\<lambda>s. us_userId s = u \<and> P (us_activityId s) \<and> overlaps (bw_start b) (bw_end b) s) rows.
        overlapSeconds s (bw_start b) (bw_end b)) =
      (\<Sum>s \<leftarrow> filter (\<lambda>s. us_userId s = u \<and> P (us_activityId s)) rows. overlapSeconds s (bw_start b) (bw_end b))"
    if "set rows \<subseteq> set (st_samples st)" for rows
    using that
  proof (induction rows)
    case (Cons r rows)
    then have "\<not> overlaps (bw_start b) (bw_end b) r \<Longrightarrow> overlapSeconds r (bw_start b) (bw_end b) = 0"
      using assms by (intro overlaps_none) (auto simp: aligned_samples_def)
    with Cons show ?case by auto
  qed simp
  then show ?thesis by (simp add: total_seconds_sum window_rows_def)
qed

text \<open>
  Cutting a window in two splits what it rolls up: no second of a sample is lost or counted in
  both parts.
\<close>

theorem rollup_splits:
  assumes "aligned_samples st" "bw_start b \<le> m" "m \<le> bw_end b"
    and "1000 dvd bw_start b" "1000 dvd m" "1000 dvd bw_end b"
  shows "total_seconds b (window_rows st u P b) =
     total_seconds (b\<lparr>bw_end := m\<rparr>) (window_rows st u P (b\<lparr>bw_end := m\<rparr>))
     + total_seconds (b\<lparr>bw_start := m\<rparr>) (window_rows st u P (b\<lparr>bw_start := m\<rparr>))"
proof -
  let ?rows = "filter (\<lambda>s. us_userId s = u \<and> P (us_activityId s)) (st_samples st)"
  have "overlapSeconds s (bw_start b) (bw_end b) = overlapSeconds s (bw_start b) m + overlapSeconds s m (bw_end b)"
    if "s \<in> set ?rows" for s
    using that assms(1-3) by (intro overlapSeconds_split) (auto simp: aligned_samples_def)
  then have "(\<Sum>s \<leftarrow> ?rows. overlapSeconds s (bw_start b) (bw_end b)) =
      (\<Sum>s \<leftarrow> ?rows. overlapSeconds s (bw_start b) m + overlapSeconds s m (bw_end b))"
    by (intro arg_cong [of _ _ sum_list] map_cong refl)
  then show ?thesis using assms by (simp add: total_seconds_all sum_list_addf)
qed


definition march_1 :: budget_bounds where
  "march_1 = \<lparr>bw_start = 1740805200000, bw_end = 1740891600000, bw_tz = ''America/New_York''\<rparr>"

lemma rollup_splits_witness:
  "total_seconds march_1 (window_rows played 5 (\<lambda>a. a = 7) march_1) = 1000 + 3000"
proof -
  have "aligned_samples played" by (simp add: aligned_samples_def played_def)
  from rollup_splits [OF this, of march_1 1740827000000 5 "\<lambda>a. a = 7"]
  show ?thesis
    by (simp add: march_1_def total_seconds_def window_rows_def played_def overlaps_def overlapSeconds_def stored_timestamp_def)
qed

end
