(* ===== verification/Telemetry.thy ===== *)
theory Telemetry
  imports Usage_Rollup Offline_Queue
begin

text \<open>
  The telemetry pull: \<open>enforcement/telemetry-consumer.ts\<close>, which turns the events of one client into
  stored samples and advances its cursor, and one pass over the clients
  (\<open>transport/activitywatch/telemetry.ts\<close>, \<open>loadTelemetryClients\<close> of \<open>enforcement/pipeline.ts\<close>). The
  tunnel and the ActivityWatch server behind it are parameters: an awaited call is an action on the
  world that may fail. The state is the in-memory cursor map beside the world. Clients are pulled one
  after the other, the concurrency of one pass being over different clients.
\<close>

section \<open>Consuming the events of a client\<close>

type_synonym cursors = "(int \<times> instant) list"

record event_query =
  eq_start :: instant
  eq_end :: instant

record 'w event_source =
  getWindowEvents :: "event_query \<Rightarrow> 'w world \<Rightarrow> (rejection + window_event list) \<times> 'w world"
  getAfkEvents :: "event_query \<Rightarrow> 'w world \<Rightarrow> (rejection + afk_event list) \<times> 'w world"

datatype consume_error = Source_Error rejection | Store_Error sample_error

definition loadActivityMatchers :: "store \<Rightarrow> activity_matcher list" where
  "loadActivityMatchers st =
     map (\<lambda>a. \<lparr>am_id = act_id a, am_kind = act_kind a, am_matcher = act_matcher a, am_matchType = Some (act_matchType a)\<rparr>)
       (st_activities st)"

definition clip_sample :: "instant \<Rightarrow> instant \<Rightarrow> usage_candidate \<Rightarrow> usage_candidate option" where
  "clip_sample lo hi c =
     (let startedAt = max (cand_startedAt c) lo; endedAt = min (cand_endedAt c) hi in
      if endedAt > startedAt then Some (c\<lparr>cand_startedAt := startedAt, cand_endedAt := endedAt\<rparr>) else None)"

definition clipToWindow :: "usage_candidate list \<Rightarrow> instant \<Rightarrow> instant \<Rightarrow> usage_candidate list" where
  "clipToWindow samples lo hi = List.map_filter (clip_sample lo hi) samples"

definition loadClientUserIds :: "db \<Rightarrow> int \<Rightarrow> int list" where
  "loadClientUserIds d clientId = map link_userId (filter (\<lambda>l. link_clientId l = clientId) (db_links d))"

text \<open>Samples and cursor are written in one transaction: both, or neither.\<close>

definition persist_pull :: "db \<Rightarrow> usage_candidate list \<Rightarrow> int \<Rightarrow> instant \<Rightarrow> sample_error + db" where
  "persist_pull d samples clientId end =
     bindE (insertUsageSamples d samples) (\<lambda>(d', _). Inr (saveTelemetryCursor d' clientId end))"

definition pull_input :: "db \<Rightarrow> int \<Rightarrow> int \<Rightarrow> window_event list \<Rightarrow> afk_event list \<Rightarrow> instant \<Rightarrow> normalise_input" where
  "pull_input d userId clientId windowEvents afkEvents end =
     \<lparr>ni_userId = userId, ni_clientId = clientId, ni_windowEvents = windowEvents, ni_afkEvents = Some afkEvents,
      ni_activities = loadActivityMatchers (db_policy d), ni_now = end, ni_futureToleranceSeconds = None\<rparr>"

definition consume ::
    "regexp_ctor \<Rightarrow> instant \<Rightarrow> int \<Rightarrow> int \<Rightarrow> 'w event_source \<Rightarrow> cursors \<times> 'w world \<Rightarrow> (consume_error + unit) \<times> cursors \<times> 'w world" where
  "consume regexp passEnd initialLookbackMs clientId source state =
     (case state of (cursor, s) \<Rightarrow>
      case loadClientUserIds (fst s) clientId of
        [userId] \<Rightarrow>
          let end = passEnd; start = nullish (map_of cursor clientId) (end - initialLookbackMs) in
          if start \<ge> end then (Inr (), cursor, s)
          else (case getWindowEvents source \<lparr>eq_start = start, eq_end = end\<rparr> s of
              (Inl e, s1) \<Rightarrow> (Inl (Source_Error e), cursor, s1)
            | (Inr windowEvents, s1) \<Rightarrow>
              (case getAfkEvents source \<lparr>eq_start = start, eq_end = end\<rparr> s1 of
                (Inl e, s2) \<Rightarrow> (Inl (Source_Error e), cursor, s2)
              | (Inr afkEvents, d, w) \<Rightarrow>
                (case persist_pull d (clipToWindow (normaliseWindowEvents regexp
                        (pull_input d userId clientId windowEvents afkEvents end)) start end) clientId end of
                   Inl e \<Rightarrow> (Inl (Store_Error e), cursor, d, w)
                 | Inr d' \<Rightarrow> (Inr (), AList.update clientId end cursor, d', w))))
      | _ \<Rightarrow> (Inr (), cursor, s))"

section \<open>One pass over the clients\<close>

record telemetry_client =
  tl_id :: int
  tl_hostname :: string
  tl_sshUser :: string
  tl_sshTarget :: "string option"

definition loadTelemetryClients :: "db \<Rightarrow> telemetry_client list" where
  "loadTelemetryClients d =
     map (\<lambda>c. \<lparr>tl_id = client_id c, tl_hostname = client_hostname c, tl_sshUser = client_sshUser c,
               tl_sshTarget = client_sshTarget c\<rparr>) (db_clients d)"

datatype tunnel_error = Ssh_Unreachable | Tunnel_Error

type_synonym 'w tunnel = "telemetry_client \<Rightarrow> 'w world \<Rightarrow> (tunnel_error + 'w event_source) \<times> 'w world"

record pull_result =
  pr_attempted :: int
  pr_succeeded :: int
  pr_skippedOffline :: int
  pr_failed :: int

definition pull_client ::
    "regexp_ctor \<Rightarrow> 'w tunnel \<Rightarrow> instant \<Rightarrow> int \<Rightarrow> pull_result \<times> cursors \<times> 'w world \<Rightarrow> telemetry_client
      \<Rightarrow> pull_result \<times> cursors \<times> 'w world" where
  "pull_client regexp tunnel passEnd lookback acc client =
     (case acc of (result, cursor, s) \<Rightarrow>
      case tunnel client s of
        (Inl Ssh_Unreachable, s') \<Rightarrow> (result\<lparr>pr_skippedOffline := pr_skippedOffline result + 1\<rparr>, cursor, s')
      | (Inl Tunnel_Error, s') \<Rightarrow> (result\<lparr>pr_failed := pr_failed result + 1\<rparr>, cursor, s')
      | (Inr source, s') \<Rightarrow>
          (case consume regexp passEnd lookback (tl_id client) source (cursor, s') of
             (Inr _, state) \<Rightarrow> (result\<lparr>pr_succeeded := pr_succeeded result + 1\<rparr>, state)
           | (Inl _, state) \<Rightarrow> (result\<lparr>pr_failed := pr_failed result + 1\<rparr>, state)))"

definition runTelemetryPull ::
    "regexp_ctor \<Rightarrow> 'w tunnel \<Rightarrow> instant \<Rightarrow> int \<Rightarrow> telemetry_client list \<Rightarrow> cursors \<times> 'w world
      \<Rightarrow> pull_result \<times> cursors \<times> 'w world" where
  "runTelemetryPull regexp tunnel passEnd lookback clients state =
     foldl (pull_client regexp tunnel passEnd lookback)
       (\<lparr>pr_attempted = int (length clients), pr_succeeded = 0, pr_skippedOffline = 0, pr_failed = 0\<rparr>, state) clients"

section \<open>The rows of one pull\<close>

definition no_double :: "sample_row \<Rightarrow> sample_row \<Rightarrow> bool" where
  "no_double s s' \<longleftrightarrow> (us_clientId s = us_clientId s' \<and> us_activityId s = us_activityId s' \<longrightarrow> us_endedAt s \<le> us_startedAt s')"

lemma clip_follows:
  assumes "follows c c'" "clip_sample lo hi c = Some u" "clip_sample lo hi c' = Some v"
  shows "follows u v"
  using assms by (auto simp: follows_def clip_sample_def Let_def split: if_splits)

definition sample_rows :: "int \<Rightarrow> usage_candidate list \<Rightarrow> sample_row list" where
  "sample_rows n cs = map (\<lambda>(k, c). sample_of (n + 1 + int k) c) (zip [0..<length cs] cs)"

lemma sample_rows_nth: "k < length cs \<Longrightarrow> sample_rows n cs ! k = sample_of (n + 1 + int k) (cs ! k)"
  by (simp add: sample_rows_def)

lemma sample_rows_set: "s \<in> set (sample_rows n cs) \<Longrightarrow> \<exists>c \<in> set cs. \<exists>i. s = sample_of i c"
  unfolding sample_rows_def by (auto dest: set_zip_rightD)

lemma sample_rows_no_double:
  assumes "sorted_wrt follows cs"
  shows "sorted_wrt no_double (sample_rows n cs)"
  unfolding sorted_wrt_iff_nth_less
proof (intro allI impI)
  fix i j assume ij: "i < j" "j < length (sample_rows n cs)"
  then have len: "i < length cs" "j < length cs" by (simp_all add: sample_rows_def)
  then have "follows (cs ! i) (cs ! j)" using assms ij(1) by (simp add: sorted_wrt_nth_less)
  then show "no_double (sample_rows n cs ! i) (sample_rows n cs ! j)"
    using len by (auto simp: sample_rows_nth no_double_def sample_of_def follows_def intro: stored_timestamp_mono)
qed

lemma clip_bounds:
  assumes "c \<in> set (clipToWindow cs lo hi)"
  shows "lo \<le> cand_startedAt c" "cand_startedAt c < cand_endedAt c" "cand_endedAt c \<le> hi"
    and "\<exists>c0 \<in> set cs. cand_clientId c = cand_clientId c0"
  using assms by (auto simp: clipToWindow_def clip_sample_def Let_def split: if_splits)

lemma clip_sorted: "sorted_wrt follows cs \<Longrightarrow> sorted_wrt follows (clipToWindow cs lo hi)"
  unfolding clipToWindow_def by (erule sorted_wrt_map_filter) (rule clip_follows)

lemma pull_rows:
  assumes "s \<in> set (sample_rows n (clipToWindow (normaliseWindowEvents regexp i) lo hi))"
  shows "us_clientId s = ni_clientId i" "stored_timestamp lo \<le> us_startedAt s" "us_endedAt s \<le> stored_timestamp hi"
proof -
  obtain c k where c: "c \<in> set (clipToWindow (normaliseWindowEvents regexp i) lo hi)" "s = sample_of k c"
    using sample_rows_set [OF assms] by blast
  note b = clip_bounds [OF c(1)]
  show "us_clientId s = ni_clientId i"
    using b(4) candidate_well_formed by (fastforce simp: c(2) sample_of_def well_formed_candidate_def)
  show "stored_timestamp lo \<le> us_startedAt s" "us_endedAt s \<le> stored_timestamp hi"
    using b(1,3) by (simp_all add: c(2) sample_of_def stored_timestamp_mono)
qed

lemma insert_rows:
  "insertUsageSamples d cs = Inr (d', n) \<Longrightarrow>
     \<exists>k. st_samples (db_policy d') = st_samples (db_policy d) @ sample_rows k cs
       \<and> d' = d\<lparr>db_policy := db_policy d'\<rparr>"
  by (auto simp: insertUsageSamples_def bindE_eq_Inr Let_def sample_rows_def split: if_splits)

section \<open>The cursor invariant\<close>

text \<open>
  The in-memory cursor and the durable one agree, every sample of a client ends by the cursor of
  the client, and samples of one activity on one client do not overlap.
\<close>

definition cursors_ok :: "cursors \<Rightarrow> db \<Rightarrow> bool" where
  "cursors_ok cursor d \<longleftrightarrow>
     (\<forall>c \<in> set (db_clients d). client_lastTelemetryPullAt c = map_option stored_timestamp (map_of cursor (client_id c)))
     \<and> (\<forall>k. map_of cursor k \<noteq> None \<longrightarrow> k \<le> db_clientSeq d)"

definition pulled_before :: "db \<Rightarrow> sample_row \<Rightarrow> bool" where
  "pulled_before d s \<longleftrightarrow>
     (\<exists>c \<in> set (db_clients d). client_id c = us_clientId s
        \<and> (\<exists>t. client_lastTelemetryPullAt c = Some t \<and> us_endedAt s \<le> t))"

definition samples_ok :: "db \<Rightarrow> bool" where
  "samples_ok d \<longleftrightarrow> sorted_wrt no_double (st_samples (db_policy d)) \<and> (\<forall>s \<in> set (st_samples (db_policy d)). pulled_before d s)"

definition telemetry_ok :: "cursors \<Rightarrow> db \<Rightarrow> bool" where
  "telemetry_ok cursor d \<longleftrightarrow> db_ok d \<and> cursors_ok cursor d \<and> samples_ok d"

lemma save_cursor_ok: "db_ok d \<Longrightarrow> db_ok (saveTelemetryCursor d i t)"
  unfolding saveTelemetryCursor_def by (rule set_client_ok) simp_all

lemma policy_ok: "db_ok (d\<lparr>db_policy := p\<rparr>) = db_ok d"
  by (simp add: db_ok_def users_ok_def clients_ok_def links_ok_def queue_ok_def)

lemma saved_client:
  "c' \<in> set (db_clients (saveTelemetryCursor d i t)) \<longleftrightarrow>
     (\<exists>c \<in> set (db_clients d). c' = (if client_id c = i then c\<lparr>client_lastTelemetryPullAt := Some (stored_timestamp t)\<rparr> else c))"
proof -
  have "db_clients (saveTelemetryCursor d i t) =
      map (\<lambda>c. if client_id c = i then c\<lparr>client_lastTelemetryPullAt := Some (stored_timestamp t)\<rparr> else c) (db_clients d)"
    by (simp add: saveTelemetryCursor_def set_client_def update_where_def)
  then show ?thesis by (simp only: set_map image_iff)
qed

lemma persist_ok:
  assumes ok: "telemetry_ok cursor d"
    and lo: "lo = nullish (map_of cursor clientId) lo0" "lo < hi"
    and p: "persist_pull d (clipToWindow (normaliseWindowEvents regexp i) lo hi) clientId hi = Inr d'"
    and i: "ni_clientId i = clientId" and present: "clientId \<in> client_id ` set (db_clients d)"
  shows "telemetry_ok (AList.update clientId hi cursor) d'"
proof -
  obtain d1 n where ins: "insertUsageSamples d (clipToWindow (normaliseWindowEvents regexp i) lo hi) = Inr (d1, n)"
    and d': "d' = saveTelemetryCursor d1 clientId hi" using p by (auto simp: persist_pull_def bindE_eq_Inr)
  from insert_rows [OF ins] obtain k where
    rows: "st_samples (db_policy d1) = st_samples (db_policy d) @ sample_rows k (clipToWindow (normaliseWindowEvents regexp i) lo hi)"
    and d1: "d1 = d\<lparr>db_policy := db_policy d1\<rparr>" by blast
  let ?new = "sample_rows k (clipToWindow (normaliseWindowEvents regexp i) lo hi)"
  have clients: "db_clients d1 = db_clients d" "db_clientSeq d1 = db_clientSeq d" by (subst d1, simp)+
  have samples: "st_samples (db_policy d') = st_samples (db_policy d) @ ?new"
    by (simp add: d' saveTelemetryCursor_def set_client_def rows)
  have old: "cursors_ok cursor d" "samples_ok d" "db_ok d" using ok by (simp_all add: telemetry_ok_def)
  have "db_ok d1" using old(3) d1 policy_ok by metis
  then have "db_ok d'" unfolding d' by (rule save_cursor_ok)
  moreover have "cursors_ok (AList.update clientId hi cursor) d'"
    using old(1,3) present unfolding cursors_ok_def d'
    by (auto simp: saved_client clients db_ok_def clients_ok_def) (simp_all add: saveTelemetryCursor_def set_client_def clients)
  moreover have late: "us_endedAt s \<le> stored_timestamp lo" if s: "s \<in> set (st_samples (db_policy d))" "us_clientId s = clientId" for s
  proof -
    from s(1) old(2) obtain c t where c: "c \<in> set (db_clients d)" "client_id c = us_clientId s"
      "client_lastTelemetryPullAt c = Some t" "us_endedAt s \<le> t" by (auto simp: samples_ok_def pulled_before_def)
    then have "map_option stored_timestamp (map_of cursor clientId) = Some t" using old(1) s(2) by (auto simp: cursors_ok_def)
    then show ?thesis using c(4) lo(1) by auto
  qed
  moreover have "samples_ok d'"
  proof -
    have "sorted_wrt no_double (st_samples (db_policy d) @ ?new)"
      unfolding sorted_wrt_append
      using old(2) sample_rows_no_double [OF clip_sorted [OF candidates_follow_all]] late pull_rows i
      by (auto simp: samples_ok_def no_double_def) (meson order_trans)
    moreover have "pulled_before d' s" if "s \<in> set (st_samples (db_policy d) @ ?new)" for s
    proof (cases "us_clientId s = clientId")
      case True
      have "us_endedAt s \<le> stored_timestamp hi"
        using that late [OF _ True] pull_rows(3) stored_timestamp_mono [of lo hi] lo(2) by fastforce
      moreover obtain c where "c \<in> set (db_clients d)" "client_id c = clientId" using present by auto
      ultimately show ?thesis unfolding pulled_before_def d'
        by (intro bexI [of _ "c\<lparr>client_lastTelemetryPullAt := Some (stored_timestamp hi)\<rparr>"]) (auto simp: True saved_client clients)
    next
      case False
      then have "s \<in> set (st_samples (db_policy d))" using that pull_rows(1) i by auto
      then obtain c t where "c \<in> set (db_clients d)" "client_id c = us_clientId s"
        "client_lastTelemetryPullAt c = Some t" "us_endedAt s \<le> t" using old(2) by (auto simp: samples_ok_def pulled_before_def)
      moreover from this have "c \<in> set (db_clients d')"
        unfolding d' saved_client clients using False by (intro bexI [of _ c]) auto
      ultimately show ?thesis unfolding pulled_before_def by blast
    qed
    ultimately show ?thesis by (simp add: samples_ok_def samples)
  qed
  ultimately show ?thesis by (simp add: telemetry_ok_def)
qed

lemma consume_ok:
  assumes "telemetry_ok cursor d" "\<And>q s. fst (snd (getWindowEvents source q s)) = fst s" "\<And>q s. fst (snd (getAfkEvents source q s)) = fst s"
    and "consume regexp passEnd lookback clientId source (cursor, d, w) = (r, cursor', d', w')"
  shows "telemetry_ok cursor' d'"
proof (cases "\<exists>u. loadClientUserIds d clientId = [u]")
  case True
  then obtain u where u: "loadClientUserIds d clientId = [u]" by blast
  define lo where "lo = nullish (map_of cursor clientId) (passEnd - lookback)"
  show ?thesis
  proof (cases "lo \<ge> passEnd")
    case True
    then show ?thesis using assms(1,4) u by (auto simp: consume_def lo_def Let_def)
  next
    case False
    define q where "q = \<lparr>eq_start = lo, eq_end = passEnd\<rparr>"
    obtain r1 w1 where r1: "getWindowEvents source q (d, w) = (r1, d, w1)" using assms(2) [of q "(d, w)"] by (metis fst_conv prod.collapse)
    obtain r2 w2 where r2: "getAfkEvents source q (d, w1) = (r2, d, w2)" using assms(3) [of q "(d, w1)"] by (metis fst_conv prod.collapse)
    have result: "consume regexp passEnd lookback clientId source (cursor, d, w) =
        (case r1 of Inl e \<Rightarrow> (Inl (Source_Error e), cursor, d, w1)
         | Inr wes \<Rightarrow> (case r2 of Inl e \<Rightarrow> (Inl (Source_Error e), cursor, d, w2)
            | Inr aes \<Rightarrow> (case persist_pull d (clipToWindow (normaliseWindowEvents regexp (pull_input d u clientId wes aes passEnd)) lo passEnd) clientId passEnd of
                 Inl e \<Rightarrow> (Inl (Store_Error e), cursor, d, w2)
               | Inr d' \<Rightarrow> (Inr (), AList.update clientId passEnd cursor, d', w2))))"
      using False r1 r2 unfolding lo_def q_def
      by (cases r1; cases r2) (simp_all add: consume_def u Let_def split: sum.split)
    have "clientId \<in> client_id ` set (db_clients d)"
    proof -
      obtain l where "l \<in> set (filter (\<lambda>l. link_clientId l = clientId) (db_links d))"
        using u by (cases "filter (\<lambda>l. link_clientId l = clientId) (db_links d)") (auto simp: loadClientUserIds_def)
      then show ?thesis using assms(1) by (auto simp: telemetry_ok_def db_ok_def links_ok_def)
    qed
    then have "telemetry_ok (AList.update clientId passEnd cursor) d1"
      if "persist_pull d (clipToWindow (normaliseWindowEvents regexp (pull_input d u clientId wes aes passEnd)) lo passEnd) clientId passEnd = Inr d1"
      for wes aes d1
      using persist_ok [OF assms(1) lo_def _ that] False by (simp add: pull_input_def)
    then show ?thesis using assms(1,4) unfolding result by (auto split: sum.splits)
  qed
next
  case False
  then have "consume regexp passEnd lookback clientId source (cursor, d, w) = (Inr (), cursor, d, w)"
    by (auto simp: consume_def split: list.split)
  then show ?thesis using assms(1,4) by simp
qed

text \<open>Any other write to the database only removes samples, keeps the cursors and adds fresh clients.\<close>

definition quiet :: "db \<Rightarrow> db \<Rightarrow> bool" where
  "quiet d d' \<longleftrightarrow>
     (\<exists>P. st_samples (db_policy d') = filter P (st_samples (db_policy d)))
     \<and> (\<forall>s \<in> set (st_samples (db_policy d')). \<forall>c \<in> set (db_clients d). client_id c = us_clientId s \<longrightarrow>
          (\<exists>c' \<in> set (db_clients d'). client_id c' = client_id c \<and> client_lastTelemetryPullAt c' = client_lastTelemetryPullAt c))
     \<and> (\<forall>c' \<in> set (db_clients d').
          (\<exists>c \<in> set (db_clients d). client_id c = client_id c' \<and> client_lastTelemetryPullAt c = client_lastTelemetryPullAt c')
          \<or> client_id c' > db_clientSeq d \<and> client_lastTelemetryPullAt c' = None)
     \<and> db_clientSeq d \<le> db_clientSeq d'"

lemma quiet_ok:
  assumes "telemetry_ok cursor d" "quiet d d'" "db_ok d'"
  shows "telemetry_ok cursor d'"
proof -
  have "cursors_ok cursor d'"
    using assms(1,2) unfolding telemetry_ok_def cursors_ok_def quiet_def
    by (metis leD map_option_is_None order.trans)
  moreover have "samples_ok d'"
  proof -
    obtain P where "st_samples (db_policy d') = filter P (st_samples (db_policy d))" using assms(2) by (auto simp: quiet_def)
    moreover have "pulled_before d' s" if s: "s \<in> set (st_samples (db_policy d'))" for s
    proof -
      have "s \<in> set (st_samples (db_policy d))" using s calculation by simp
      then have "pulled_before d s" using assms(1) by (simp add: telemetry_ok_def samples_ok_def)
      then obtain c t where c: "c \<in> set (db_clients d)" "client_id c = us_clientId s"
        "client_lastTelemetryPullAt c = Some t" "us_endedAt s \<le> t" by (auto simp: pulled_before_def)
      then obtain c' where "c' \<in> set (db_clients d')" "client_id c' = us_clientId s" "client_lastTelemetryPullAt c' = Some t"
        using assms(2) s unfolding quiet_def by fastforce
      then show ?thesis using c(4) by (auto simp: pulled_before_def)
    qed
    ultimately show ?thesis using assms(1) by (simp add: telemetry_ok_def samples_ok_def sorted_wrt_filter)
  qed
  ultimately show ?thesis using assms(3) by (simp add: telemetry_ok_def)
qed

lemma quiet_refl [simp]: "quiet d d"
  unfolding quiet_def by (auto intro: exI [of _ "\<lambda>_. True"])

lemma quiet_same_policy:
  assumes "db_policy d' = db_policy d" "db_clients d' = db_clients d" "db_clientSeq d' = db_clientSeq d"
  shows "quiet d d'"
  unfolding quiet_def using assms by (auto intro: exI [of _ "\<lambda>_. True"])

lemma quiet_set_client:
  assumes "\<And>c. client_id (f c) = client_id c" "\<And>c. client_lastTelemetryPullAt (f c) = client_lastTelemetryPullAt c"
  shows "quiet d (set_client d i f)"
proof -
  have "\<exists>c' \<in> set (update_where (\<lambda>c. client_id c = i) f (db_clients d)). client_id c' = k
      \<and> client_lastTelemetryPullAt c' = client_lastTelemetryPullAt c" if "c \<in> set (db_clients d)" "client_id c = k" for c k
    using that assms by (cases "client_id c = i") (auto simp: set_update_where)
  moreover have "\<exists>c \<in> set (db_clients d). client_id c = client_id c' \<and> client_lastTelemetryPullAt c = client_lastTelemetryPullAt c'"
    if "c' \<in> set (update_where (\<lambda>c. client_id c = i) f (db_clients d))" for c'
    using that assms by (auto simp: set_update_where)
  moreover have "\<exists>P. st_samples (db_policy d) = filter P (st_samples (db_policy d))" by (intro exI [of _ "\<lambda>_. True"]) simp
  ultimately show ?thesis unfolding quiet_def set_client_def by simp
qed

lemma quiet_updateClient: "quiet d (committed d (updateClient d i p))"
proof (cases "updateClient d i p")
  case (Inr r)
  then have "committed d (updateClient d i p) = set_client d i (patch_client p)"
    by (auto simp: updateClient_def set_client_def Let_def split: if_splits)
  then show ?thesis by (auto intro!: quiet_set_client simp: patch_client_def)
qed simp

lemma quiet_createClient: "quiet d (committed d (createClient d c))"
  by (auto simp: createClient_def Let_def quiet_def intro: exI [of _ "\<lambda>_. True"])

lemma quiet_deleteUser: "quiet d (fst (deleteUser d i))"
  by (auto simp: deleteUser_def forget_user_def quiet_def)

lemma quiet_deleteClient: "quiet d (fst (deleteClient d i))"
  by (auto simp: deleteClient_def forget_client_def quiet_def)

lemma committed_upsertLink:
  "db_policy (committed d (upsertLink d u c n r)) = db_policy d \<and> db_clients (committed d (upsertLink d u c n r)) = db_clients d
    \<and> db_clientSeq (committed d (upsertLink d u c n r)) = db_clientSeq d"
  by (auto simp: upsertLink_def Let_def)

lemma committed_enqueue:
  "db_policy (committed d (enqueue now d a)) = db_policy d \<and> db_clients (committed d (enqueue now d a)) = db_clients d
    \<and> db_clientSeq (committed d (enqueue now d a)) = db_clientSeq d"
  by (auto simp: enqueue_def Let_def split: option.split)

lemma quiet_step: "quiet d (db_step d op)"
proof (cases op)
  case (Upsert_Link u c n r)
  then show ?thesis using committed_upsertLink [of d u c n r] by (auto intro: quiet_same_policy)
next
  case (Enqueue now a)
  then show ?thesis using committed_enqueue [of d now a] by (auto intro: quiet_same_policy)
next
  case (Delete_User i)
  then show ?thesis by (simp add: quiet_deleteUser)
next
  case (Delete_Client i)
  then show ?thesis by (simp add: quiet_deleteClient)
next
  case (Create_Client c)
  then show ?thesis by (simp add: quiet_createClient)
next
  case (Update_Client i p)
  then show ?thesis by (simp add: quiet_updateClient)
next
  case (Create_User c)
  then show ?thesis by (simp add: createUser_def Let_def quiet_same_policy)
next
  case (Update_User i p)
  then show ?thesis by (simp add: updateUser_def Let_def quiet_same_policy)
next
  case (Delete_Link u c)
  then show ?thesis by (simp add: deleteLink_def quiet_same_policy)
qed (auto simp: recordClientLastSeen_def touchClientLastSeen_def recordClientVerification_def recordClientAgentVersion_def
      setClientUpdateRequired_def recordClientCapabilities_def Let_def updateActionPayload_def recordAttempt_def markFailed_def
      markDrained_def set_queued_def intro!: quiet_set_client quiet_same_policy)

lemma load_cursors:
  assumes "distinct (map client_id cs)"
  shows "map_of (foldl (\<lambda>m c. case client_lastTelemetryPullAt c of None \<Rightarrow> m | Some t \<Rightarrow> AList.update (client_id c) t m) m0
      (filter (\<lambda>c. client_lastTelemetryPullAt c \<noteq> None) cs)) k =
    (case List.find (\<lambda>c. client_id c = k \<and> client_lastTelemetryPullAt c \<noteq> None) cs of
       None \<Rightarrow> map_of m0 k | Some c \<Rightarrow> client_lastTelemetryPullAt c)"
  using assms
proof (induction cs arbitrary: m0)
  case (Cons c cs)
  have none: "List.find (\<lambda>c'. client_id c' = client_id c \<and> client_lastTelemetryPullAt c' \<noteq> None) cs = None"
    using Cons.prems by (auto simp: find_None_iff) (metis image_eqI)
  show ?case using Cons none by (auto split: option.splits)
qed simp

lemma restart_ok:
  assumes "telemetry_ok cursor d"
  shows "telemetry_ok (loadTelemetryCursors d) d"
proof -
  have ids: "distinct (map client_id (db_clients d))" "\<forall>c \<in> set (db_clients d). client_id c \<le> db_clientSeq d"
    using assms by (simp_all add: telemetry_ok_def db_ok_def clients_ok_def)
  have find: "map_of (loadTelemetryCursors d) k =
      (case List.find (\<lambda>c. client_id c = k \<and> client_lastTelemetryPullAt c \<noteq> None) (db_clients d) of
         None \<Rightarrow> None | Some c \<Rightarrow> client_lastTelemetryPullAt c)" for k
    unfolding loadTelemetryCursors_def load_cursors [OF ids(1)] by (simp split: option.split)
  have same: "map_of (loadTelemetryCursors d) (client_id c) = client_lastTelemetryPullAt c" if c: "c \<in> set (db_clients d)" for c
  proof (cases "List.find (\<lambda>c'. client_id c' = client_id c \<and> client_lastTelemetryPullAt c' \<noteq> None) (db_clients d)")
    case None
    have "map_of (loadTelemetryCursors d) (client_id c) = None" using find [of "client_id c"] unfolding None by simp
    moreover have "client_lastTelemetryPullAt c = None" using None c unfolding find_None_iff by blast
    ultimately show ?thesis by simp
  next
    case (Some c')
    then have "c' \<in> set (db_clients d)" "client_id c' = client_id c" using find_in_set [OF Some] by simp_all
    then have "c' = c" using c ids(1) by (auto simp: distinct_map inj_on_def)
    then show ?thesis using find [of "client_id c"] unfolding Some by simp
  qed
  have "map_option stored_timestamp (client_lastTelemetryPullAt c) = client_lastTelemetryPullAt c" if "c \<in> set (db_clients d)" for c
    using that assms by (auto simp: telemetry_ok_def cursors_ok_def option.map_comp comp_def)
  moreover have "map_of (loadTelemetryCursors d) k \<noteq> None \<Longrightarrow> k \<le> db_clientSeq d" for k
    using ids(2) find [of k] by (auto split: option.splits dest: find_in_set)
  ultimately have "cursors_ok (loadTelemetryCursors d) d" using same by (simp add: cursors_ok_def)
  then show ?thesis using assms by (simp add: telemetry_ok_def)
qed

section \<open>Histories of pulls\<close>

text \<open>
  The state of the pull over the life of an installation: pulls of single clients, whose sources only
  talk to the outside, restarts of the dashboard, which lose the in-memory cursor, and any other
  write to the database.
\<close>

definition outside_only :: "'w event_source \<Rightarrow> bool" where
  "outside_only source \<longleftrightarrow>
     (\<forall>q s. fst (snd (getWindowEvents source q s)) = fst s) \<and> (\<forall>q s. fst (snd (getAfkEvents source q s)) = fst s)"

inductive pulls :: "regexp_ctor \<Rightarrow> int \<Rightarrow> cursors \<Rightarrow> db \<Rightarrow> bool" for regexp :: regexp_ctor and lookback :: int where
  boot: "pulls regexp lookback [] empty_db"
| pull: "pulls regexp lookback cursor d \<Longrightarrow> outside_only source
    \<Longrightarrow> consume regexp passEnd lookback clientId source (cursor, d, ()) = (r, cursor', d', ())
    \<Longrightarrow> pulls regexp lookback cursor' d'"
| restart: "pulls regexp lookback cursor d \<Longrightarrow> pulls regexp lookback (loadTelemetryCursors d) d"
| other_write: "pulls regexp lookback cursor d \<Longrightarrow> pulls regexp lookback cursor (db_step d op)"
| activity: "pulls regexp lookback cursor d \<Longrightarrow>
    pulls regexp lookback cursor (d\<lparr>db_policy := (db_policy d)\<lparr>st_activities := activities\<rparr>\<rparr>)"

lemma telemetry_ok_policy:
  "st_samples p = st_samples (db_policy d) \<Longrightarrow> telemetry_ok cursor (d\<lparr>db_policy := p\<rparr>) = telemetry_ok cursor d"
  by (simp add: telemetry_ok_def policy_ok cursors_ok_def samples_ok_def pulled_before_def)

lemma pulls_telemetry_ok: "pulls regexp lookback cursor d \<Longrightarrow> telemetry_ok cursor d"
proof (induction rule: pulls.induct)
  case boot
  then show ?case using run_db_ok [of "[]"]
    by (simp add: telemetry_ok_def run_db_def cursors_ok_def samples_ok_def) (simp add: empty_db_def empty_store_def)
next
  case (pull cursor d source passEnd clientId r cursor' d')
  then show ?case by (intro consume_ok [OF pull.IH]) (auto simp: outside_only_def)
next
  case (restart cursor d)
  then show ?case using restart_ok by blast
next
  case (other_write cursor d op)
  then show ?case using db_step_ok by (intro quiet_ok [OF other_write.IH quiet_step]) (simp add: telemetry_ok_def)
next
  case (activity cursor d activities)
  have "telemetry_ok cursor (d\<lparr>db_policy := (db_policy d)\<lparr>st_activities := activities\<rparr>\<rparr>) = telemetry_ok cursor d"
    by (rule telemetry_ok_policy) simp
  then show ?case using activity.IH by simp
qed

section \<open>Properties\<close>

text \<open>
  C8 In every history of pulls, restarts and other writes, no two stored samples of one activity on
  one client overlap, and all of them end by the durable cursor of their client: no use is charged
  twice, whatever the ActivityWatch servers answer.
\<close>

theorem samples_never_double_count:
  assumes "pulls regexp lookback cursor d"
  shows "sorted_wrt no_double (st_samples (db_policy d))
     \<and> list_all (pulled_before d) (st_samples (db_policy d))"
  using pulls_telemetry_ok [OF assms] by (simp add: telemetry_ok_def samples_ok_def list_all_iff)

definition demo_ops :: "db_op list" where
  "demo_ops =
     [Create_User \<lparr>uc_displayName = ''Alice'', uc_tz = None\<rparr>,
      Create_Client \<lparr>cc_hostname = ''kids-pc'', cc_sshUser = ''pct-agent'', cc_friendlyName = None\<rparr>,
      Upsert_Link 1 1 ''alice'' ''1001'']"

text \<open>The database after those writes, with an activity defined, some samples stored and the cursor set.\<close>

definition demo_db :: "sample_row list \<Rightarrow> instant option \<Rightarrow> db" where
  "demo_db samples cursor =
     \<lparr>db_users = [\<lparr>user_id = 1, user_displayName = ''Alice'', user_tz = None\<rparr>], db_userSeq = 1,
      db_clients = [\<lparr>client_id = 1, client_hostname = ''kids-pc'', client_friendlyName = None, client_sshUser = ''pct-agent'',
        client_bearerTokenHash = None, client_lastSeen = None, client_sshTarget = None, client_lastTelemetryPullAt = cursor,
        client_agentVersion = None, client_versionsReportedAt = None, client_platform = Linux, client_updateRequired = False,
        client_lastVerifiedAt = None, client_lastVerifyReachable = None, client_lastVerifyReason = None, client_capabilities = None, client_reportedIps = None\<rparr>],
      db_clientSeq = 1,
      db_links = [\<lparr>link_userId = 1, link_clientId = 1, link_osUsername = ''alice'', link_osUserRef = ''1001''\<rparr>],
      db_policy = empty_store\<lparr>st_activities := [\<lparr>act_id = 7, act_kind = App, act_matcher = ''Game'', act_matchType = Exact\<rparr>],
        st_samples := samples, st_sampleSeq := int (length samples)\<rparr>,
      db_queue = [], db_queueSeq = 0\<rparr>"

definition demo_sample :: "int \<Rightarrow> instant \<Rightarrow> instant \<Rightarrow> sample_row" where
  "demo_sample i a b = \<lparr>us_id = i, us_userId = 1, us_clientId = 1, us_activityId = 7, us_startedAt = a, us_endedAt = b\<rparr>"

lemma demo_db_start: "(run_db demo_ops)\<lparr>db_policy := (db_policy (run_db demo_ops))\<lparr>st_activities :=
    [\<lparr>act_id = 7, act_kind = App, act_matcher = ''Game'', act_matchType = Exact\<rparr>]\<rparr>\<rparr> = demo_db [] None"
  by (simp add: demo_db_def demo_ops_def run_db_def empty_db_def createUser_def createClient_def upsertLink_def getUser_def
      getClient_def empty_store_def Let_def)

text \<open>A server that returns the whole of a long event in every pull.\<close>

definition long_event_source :: "unit event_source" where
  "long_event_source = \<lparr>getWindowEvents = \<lambda>q s. (Inr [\<lparr>we_timestamp = 5000, we_durationSeconds = 1000, we_app = ''game''\<rparr>], s),
     getAfkEvents = \<lambda>q s. (Inr [], s)\<rparr>"

lemma long_event_outside: "outside_only long_event_source"
  by (simp add: outside_only_def long_event_source_def)

lemma first_pull:
  "consume simple_regexp 60500 300000 1 long_event_source ([], demo_db [] None, ()) =
     (Inr (), [(1, 60500)], demo_db [demo_sample 1 5000 60000] (Some 60000), ())"
  by code_simp

lemma second_pull:
  "consume simple_regexp 100500 300000 1 long_event_source ([(1, 60500)], demo_db [demo_sample 1 5000 60000] (Some 60000), ()) =
     (Inr (), [(1, 100500)], demo_db [demo_sample 1 5000 60000, demo_sample 2 60000 100000] (Some 100000), ())"
  by code_simp

lemma samples_never_double_count_witness:
  "sorted_wrt no_double (st_samples (db_policy (demo_db [demo_sample 1 5000 60000, demo_sample 2 60000 100000] (Some 100000))))
     \<and> pulls simple_regexp 300000 [(1, 100500)] (demo_db [demo_sample 1 5000 60000, demo_sample 2 60000 100000] (Some 100000))"
proof -
  have "pulls simple_regexp 300000 [] (run_db demo_ops)"
    unfolding run_db_def demo_ops_def by (simp only: foldl.simps) (intro pulls.boot pulls.other_write)
  from pulls.activity [OF this] have "pulls simple_regexp 300000 [] (demo_db [] None)" using demo_db_start by metis
  from pulls.pull [OF pulls.pull [OF this long_event_outside first_pull] long_event_outside second_pull]
  have "pulls simple_regexp 300000 [(1, 100500)] (demo_db [demo_sample 1 5000 60000, demo_sample 2 60000 100000] (Some 100000))" .
  then show ?thesis using samples_never_double_count by blast
qed

end
