(* ===== verification/Enforcement.thy ===== *)
theory Enforcement
  imports Usage_Rollup Group_Resolution
begin

text \<open>
  Per-activity enforcement: the decision core (\<open>enforcement/decision.ts\<close>), its seam on the policy
  store (\<open>evaluate.ts\<close>) and the sweep over the supervised users (\<open>sweep.ts\<close>). Consumption is a
  rational number of seconds. The cool-down state is a map from target keys to instants. In the sweep
  the loader and the evaluation may fail and the trigger is an action on a world of its own, which
  may fail too; the code isolates each.
\<close>

section \<open>The decision\<close>

definition targetKey :: "scope \<Rightarrow> int \<Rightarrow> string" where
  "targetKey scope targetId = target_key scope (show_int targetId)"

record quota_consumption =
  qc_scope :: scope
  qc_targetId :: int
  qc_allowedSeconds :: int
  qc_consumedSeconds :: rat

type_synonym cooldowns = "(string \<times> instant) list"

record decision_input =
  di_now :: instant
  di_graceSeconds :: int
  di_cooldownSeconds :: int
  di_quotas :: "quota_consumption list"
  di_lastFiredAt :: cooldowns

record enforcement_decision =
  ed_scope :: scope
  ed_targetId :: int
  ed_allowedSeconds :: int
  ed_consumedSeconds :: rat
  ed_overageSeconds :: rat
  ed_graceSeconds :: int

record enforcement_outcome =
  eo_decisions :: "enforcement_decision list"
  eo_lastFiredAt :: cooldowns

definition isExhausted :: "quota_consumption \<Rightarrow> bool" where
  "isExhausted q \<longleftrightarrow> qc_consumedSeconds q > 0 \<and> qc_consumedSeconds q \<ge> of_int (qc_allowedSeconds q)"

definition cooling :: "decision_input \<Rightarrow> instant option \<Rightarrow> bool" where
  "cooling i firedAt \<longleftrightarrow> (case firedAt of None \<Rightarrow> False | Some t \<Rightarrow> di_now i - t < di_cooldownSeconds i * 1000)"

definition decision_of :: "decision_input \<Rightarrow> quota_consumption \<Rightarrow> enforcement_decision" where
  "decision_of i q = \<lparr>ed_scope = qc_scope q, ed_targetId = qc_targetId q, ed_allowedSeconds = qc_allowedSeconds q,
     ed_consumedSeconds = qc_consumedSeconds q, ed_overageSeconds = qc_consumedSeconds q - of_int (qc_allowedSeconds q),
     ed_graceSeconds = di_graceSeconds i\<rparr>"

definition decide_step ::
    "decision_input \<Rightarrow> enforcement_decision list \<times> cooldowns \<Rightarrow> quota_consumption \<Rightarrow> enforcement_decision list \<times> cooldowns" where
  "decide_step i acc q =
     (case acc of (decisions, fired) \<Rightarrow>
      let key = targetKey (qc_scope q) (qc_targetId q) in
      if \<not> isExhausted q then (decisions, AList.delete key fired)
      else if cooling i (map_of fired key) then (decisions, fired)
      else (decisions @ [decision_of i q], AList.update key (di_now i) fired))"

text \<open>The scopes of a decision compare as their names do: activities before groups.\<close>

definition decision_rank :: "enforcement_decision \<Rightarrow> scope \<times> int" where
  "decision_rank d = (ed_scope d, ed_targetId d)"

definition decideEnforcement :: "decision_input \<Rightarrow> enforcement_outcome" where
  "decideEnforcement i =
     (case foldl (decide_step i) ([], di_lastFiredAt i) (di_quotas i) of
        (decisions, fired) \<Rightarrow> \<lparr>eo_decisions = sort_key decision_rank decisions, eo_lastFiredAt = fired\<rparr>)"

section \<open>The evaluation of a user\<close>

definition DEFAULT_GRACE_SECONDS :: int where "DEFAULT_GRACE_SECONDS = 15"

definition graceSecondsFor :: "store \<Rightarrow> int \<Rightarrow> int" where
  "graceSecondsFor st userId =
     nullish (map_option np_graceSeconds (List.find (\<lambda>n. np_userId n = userId) (st_notifications st))) DEFAULT_GRACE_SECONDS"

record evaluate_input =
  ev_userId :: int
  ev_now :: instant
  ev_tz :: string
  ev_cooldownSeconds :: int

definition daily_query :: "evaluate_input \<Rightarrow> window_query" where
  "daily_query i = \<lparr>wq_userId = ev_userId i, wq_window = Daily, wq_now = ev_now i, wq_tz = ev_tz i, wq_change = None\<rparr>"

definition enforcement_policy :: "tzdb \<Rightarrow> store \<Rightarrow> evaluate_input \<Rightarrow> tz_error + effective_policy" where
  "enforcement_policy zdb st i =
     bindE (localCalendarDate zdb (ev_now i) (ev_tz i)) (\<lambda>date.
       effectivePolicy zdb
         \<lparr>pi_date = date, pi_tz = ev_tz i, pi_schedules = map fst (gatherUserScheduleRules st (ev_userId i)),
          pi_budgets = map fst (gatherUserBudgets st (ev_userId i)),
          pi_grants = map snd (filter (\<lambda>g. fst g = ev_userId i) (st_grants st)), pi_exceptions = []\<rparr>)"

definition measure_quota ::
    "tzdb \<Rightarrow> store \<Rightarrow> evaluate_input \<Rightarrow> (int \<times> rat) list \<Rightarrow> activity_quota \<Rightarrow> tz_error + quota_consumption" where
  "measure_quota zdb st i byActivity q =
     bindE (if aq_scope q = Activity then Inr (nullish (map_of byActivity (aq_targetId q)) 0)
            else groupSecondsInWindow zdb st (daily_query i) (aq_targetId q))
       (\<lambda>consumed. Inr \<lparr>qc_scope = aq_scope q, qc_targetId = aq_targetId q, qc_allowedSeconds = aq_seconds q,
          qc_consumedSeconds = consumed\<rparr>)"

definition evaluateUserEnforcement ::
    "tzdb \<Rightarrow> store \<Rightarrow> evaluate_input \<Rightarrow> cooldowns \<Rightarrow> tz_error + enforcement_outcome" where
  "evaluateUserEnforcement zdb st i lastFiredAt =
     bindE (enforcement_policy zdb st i) (\<lambda>policy.
     bindE (usageByActivityInWindow zdb st (daily_query i)) (\<lambda>byActivity.
     bindE (mapE (measure_quota zdb st i byActivity) (ep_perActivitySeconds policy)) (\<lambda>quotas.
       Inr (decideEnforcement \<lparr>di_now = ev_now i, di_graceSeconds = graceSecondsFor st (ev_userId i),
         di_cooldownSeconds = ev_cooldownSeconds i, di_quotas = quotas, di_lastFiredAt = lastFiredAt\<rparr>))))"

section \<open>The sweep\<close>

record supervised_user =
  sv_id :: int
  sv_tz :: "string option"

text \<open>The distinct users that hold a link.\<close>

definition loadSupervisedUsers :: "db \<Rightarrow> supervised_user list" where
  "loadSupervisedUsers d =
     remdups (concat (map (\<lambda>u. map (\<lambda>l. \<lparr>sv_id = user_id u, sv_tz = user_tz u\<rparr>)
       (filter (\<lambda>l. link_userId l = user_id u) (db_links d))) (db_users d)))"

record sweep_result =
  sw_evaluated :: int
  sw_enforced :: int
  sw_decisions :: int
  sw_failed :: int

type_synonym user_cooldowns = "(int \<times> cooldowns) list"
type_synonym 'e evaluator = "evaluate_input \<Rightarrow> cooldowns \<Rightarrow> 'e + enforcement_outcome"
type_synonym 't trigger = "int \<Rightarrow> enforcement_decision list \<Rightarrow> 't \<Rightarrow> (unit + unit) \<times> 't"

definition sweep_user ::
    "'e evaluator \<Rightarrow> 't trigger \<Rightarrow> instant \<Rightarrow> string \<Rightarrow> int \<Rightarrow> user_cooldowns
      \<Rightarrow> sweep_result \<times> user_cooldowns \<times> 't \<Rightarrow> supervised_user \<Rightarrow> sweep_result \<times> user_cooldowns \<times> 't" where
  "sweep_user evaluate trigger moment defaultTz cooldownSeconds lastFiredByUser acc user =
     (case acc of (r, kept, t) \<Rightarrow>
      let previous = nullish (map_of lastFiredByUser (sv_id user)) [] in
      case evaluate \<lparr>ev_userId = sv_id user, ev_now = moment, ev_tz = resolveEffectiveTz (sv_tz user) defaultTz,
                    ev_cooldownSeconds = cooldownSeconds\<rparr> previous of
        Inl _ \<Rightarrow> (r\<lparr>sw_failed := sw_failed r + 1\<rparr>, AList.update (sv_id user) previous kept, t)
      | Inr outcome \<Rightarrow>
          let kept1 = AList.update (sv_id user) (eo_lastFiredAt outcome) kept;
              r1 = r\<lparr>sw_evaluated := sw_evaluated r + 1\<rparr>
          in if length (eo_decisions outcome) > 0
             then (case trigger (sv_id user) (eo_decisions outcome) t of
                 (Inr _, t') \<Rightarrow>
                   (r1\<lparr>sw_enforced := sw_enforced r + 1, sw_decisions := sw_decisions r + int (length (eo_decisions outcome))\<rparr>,
                    kept1, t')
               | (Inl _, t') \<Rightarrow>
                   (r1\<lparr>sw_failed := sw_failed r + 1\<rparr>, AList.update (sv_id user) previous kept1, t'))
             else (r1, kept1, t))"

definition sweep_tick ::
    "(unit + supervised_user list) \<Rightarrow> 'e evaluator \<Rightarrow> 't trigger \<Rightarrow> instant \<Rightarrow> string \<Rightarrow> int
      \<Rightarrow> user_cooldowns \<times> 't \<Rightarrow> sweep_result \<times> user_cooldowns \<times> 't" where
  "sweep_tick loaded evaluate trigger moment defaultTz cooldownSeconds state =
     (let none = \<lparr>sw_evaluated = 0, sw_enforced = 0, sw_decisions = 0, sw_failed = 0\<rparr> in
      case loaded of
        Inl _ \<Rightarrow> (none, state)
      | Inr users \<Rightarrow> foldl (sweep_user evaluate trigger moment defaultTz cooldownSeconds (fst state)) (none, [], snd state) users)"

section \<open>Lemmas\<close>

definition consumption_key :: "quota_consumption \<Rightarrow> string" where
  "consumption_key q = targetKey (qc_scope q) (qc_targetId q)"

lemma consumption_key_eq [simp]: "consumption_key q = targetKey s t \<longleftrightarrow> qc_scope q = s \<and> qc_targetId q = t"
  by (simp add: consumption_key_def targetKey_def)

definition fires :: "decision_input \<Rightarrow> cooldowns \<Rightarrow> quota_consumption \<Rightarrow> bool" where
  "fires i fired q \<longleftrightarrow> isExhausted q \<and> \<not> cooling i (map_of fired (consumption_key q))"

definition next_cooldown :: "decision_input \<Rightarrow> quota_consumption \<Rightarrow> instant option \<Rightarrow> instant option" where
  "next_cooldown i q old = (if \<not> isExhausted q then None else if cooling i old then old else Some (di_now i))"

lemma decide_step_eq:
  "fst (decide_step i (ds, m) q) = ds @ (if fires i m q then [decision_of i q] else [])"
  "map_of (snd (decide_step i (ds, m) q)) k =
     (if k = consumption_key q then next_cooldown i q (map_of m k) else map_of m k)"
  by (simp_all add: decide_step_def fires_def consumption_key_def next_cooldown_def AList.delete_conv' Let_def)

lemma decide_fold:
  assumes "distinct (map consumption_key qs)"
  shows "fst (foldl (decide_step i) (ds, m) qs) = ds @ map (decision_of i) (filter (fires i m) qs)"
    and "q \<in> set qs \<Longrightarrow> map_of (snd (foldl (decide_step i) (ds, m) qs)) (consumption_key q) = next_cooldown i q (map_of m (consumption_key q))"
    and "k \<notin> consumption_key ` set qs \<Longrightarrow> map_of (snd (foldl (decide_step i) (ds, m) qs)) k = map_of m k"
proof -
  have "fst (foldl (decide_step i) (ds, m) qs) = ds @ map (decision_of i) (filter (fires i m) qs)
    \<and> (\<forall>q \<in> set qs. map_of (snd (foldl (decide_step i) (ds, m) qs)) (consumption_key q) = next_cooldown i q (map_of m (consumption_key q)))
    \<and> (\<forall>k. k \<notin> consumption_key ` set qs \<longrightarrow> map_of (snd (foldl (decide_step i) (ds, m) qs)) k = map_of m k)"
    using assms
  proof (induction qs arbitrary: ds m)
    case (Cons q qs)
    obtain ds' m' where step: "decide_step i (ds, m) q = (ds', m')" by fastforce
    have d: "ds' = ds @ (if fires i m q then [decision_of i q] else [])"
      and m': "map_of m' k = (if k = consumption_key q then next_cooldown i q (map_of m k) else map_of m k)" for k
      using decide_step_eq [of i ds m q] step by simp_all
    have other: "consumption_key q' \<noteq> consumption_key q" if "q' \<in> set qs" for q'
      using Cons.prems that by simp (metis image_eqI)
    then have same: "fires i m' q' = fires i m q'" if "q' \<in> set qs" for q' using that by (simp add: fires_def m')
    have "filter (fires i m') qs = filter (fires i m) qs" using same by (simp cong: filter_cong)
    with Cons.IH [of ds' m'] Cons.prems other show ?case by (auto simp: step d m')
  qed simp
  then show "fst (foldl (decide_step i) (ds, m) qs) = ds @ map (decision_of i) (filter (fires i m) qs)"
    and "q \<in> set qs \<Longrightarrow> map_of (snd (foldl (decide_step i) (ds, m) qs)) (consumption_key q) = next_cooldown i q (map_of m (consumption_key q))"
    and "k \<notin> consumption_key ` set qs \<Longrightarrow> map_of (snd (foldl (decide_step i) (ds, m) qs)) k = map_of m k" by blast+
qed

lemma decisions_eq:
  assumes "distinct (map consumption_key (di_quotas i))"
  shows "eo_decisions (decideEnforcement i) =
     sort_key decision_rank (map (decision_of i) (filter (fires i (di_lastFiredAt i)) (di_quotas i)))"
  using decide_fold(1) [OF assms, of i "[]" "di_lastFiredAt i"] by (simp add: decideEnforcement_def case_prod_unfold)

lemma next_fired_eq:
  "eo_lastFiredAt (decideEnforcement i) = snd (foldl (decide_step i) ([], di_lastFiredAt i) (di_quotas i))"
  by (simp add: decideEnforcement_def split: prod.split)

lemma decision_set:
  assumes "distinct (map consumption_key (di_quotas i))"
  shows "set (eo_decisions (decideEnforcement i)) = decision_of i ` {q \<in> set (di_quotas i). fires i (di_lastFiredAt i) q}"
  unfolding decisions_eq [OF assms] by auto

lemma decisions_sorted:
  assumes "distinct (map consumption_key (di_quotas i))"
  shows "sorted_wrt (<) (map decision_rank (eo_decisions (decideEnforcement i)))"
proof -
  let ?ds = "map (decision_of i) (filter (fires i (di_lastFiredAt i)) (di_quotas i))"
  have "inj_on (\<lambda>q. decision_rank (decision_of i q)) (set (di_quotas i))"
  proof (rule inj_onI)
    fix q q' assume q: "q \<in> set (di_quotas i)" "q' \<in> set (di_quotas i)" "decision_rank (decision_of i q) = decision_rank (decision_of i q')"
    then have "consumption_key q = consumption_key q'" by (simp add: decision_rank_def decision_of_def consumption_key_def)
    then show "q = q'" using assms q by (simp add: distinct_map inj_on_def)
  qed
  then have "distinct (map decision_rank ?ds)"
    using assms by (auto simp: distinct_map comp_def intro: inj_on_subset)
  then have "distinct (map decision_rank (sort_key decision_rank ?ds))" by (metis mset_eq_imp_distinct_iff mset_map mset_sort)
  then show ?thesis unfolding decisions_eq [OF assms] strict_sorted_iff by simp
qed

section \<open>Properties\<close>

text \<open>
  C6 One evaluation stops exactly the targets that are over their quota with usage to stop and not
  cooling down, once each, activities before groups by id; it stamps them with the time of the
  evaluation, forgets the targets back under their quota and leaves every other cool-down alone.
\<close>

theorem decideEnforcement_exact:
  assumes "distinct (map consumption_key (di_quotas i))"
  shows "set (eo_decisions (decideEnforcement i)) =
       decision_of i ` {q \<in> set (di_quotas i). isExhausted q \<and> \<not> cooling i (map_of (di_lastFiredAt i) (consumption_key q))}
     \<and> sorted_wrt (<) (map decision_rank (eo_decisions (decideEnforcement i)))
     \<and> (\<forall>q \<in> set (di_quotas i). map_of (eo_lastFiredAt (decideEnforcement i)) (consumption_key q) =
          next_cooldown i q (map_of (di_lastFiredAt i) (consumption_key q)))
     \<and> (\<forall>k. k \<notin> consumption_key ` set (di_quotas i) \<longrightarrow>
          map_of (eo_lastFiredAt (decideEnforcement i)) k = map_of (di_lastFiredAt i) k)"
  using decision_set [OF assms] decisions_sorted [OF assms] decide_fold(2,3) [OF assms, of _ i "[]" "di_lastFiredAt i"]
  by (simp add: next_fired_eq fires_def)

definition sample_quotas :: decision_input where
  "sample_quotas = \<lparr>di_now = 600000, di_graceSeconds = 15, di_cooldownSeconds = 300,
     di_quotas = [\<lparr>qc_scope = Group, qc_targetId = 2, qc_allowedSeconds = 60, qc_consumedSeconds = 61\<rparr>,
                  \<lparr>qc_scope = Activity, qc_targetId = 9, qc_allowedSeconds = 0, qc_consumedSeconds = 0\<rparr>,
                  \<lparr>qc_scope = Activity, qc_targetId = 7, qc_allowedSeconds = 60, qc_consumedSeconds = 60\<rparr>],
     di_lastFiredAt = [(''activity:7'', 200000)]\<rparr>"

lemma decideEnforcement_exact_witness:
  "set (eo_decisions (decideEnforcement sample_quotas)) =
     {\<lparr>ed_scope = Group, ed_targetId = 2, ed_allowedSeconds = 60, ed_consumedSeconds = 61, ed_overageSeconds = 1, ed_graceSeconds = 15\<rparr>,
      \<lparr>ed_scope = Activity, ed_targetId = 7, ed_allowedSeconds = 60, ed_consumedSeconds = 60, ed_overageSeconds = 0, ed_graceSeconds = 15\<rparr>}"
proof -
  have "distinct (map consumption_key (di_quotas sample_quotas))" by (simp add: sample_quotas_def consumption_key_def targetKey_def)
  from decideEnforcement_exact [OF this, THEN conjunct1]
  have "set (eo_decisions (decideEnforcement sample_quotas)) = decision_of sample_quotas ` set (filter (\<lambda>q. isExhausted q \<and>
      \<not> cooling sample_quotas (map_of (di_lastFiredAt sample_quotas) (consumption_key q))) (di_quotas sample_quotas))" by simp
  also have "\<dots> =
     {\<lparr>ed_scope = Group, ed_targetId = 2, ed_allowedSeconds = 60, ed_consumedSeconds = 61, ed_overageSeconds = 1, ed_graceSeconds = 15\<rparr>,
      \<lparr>ed_scope = Activity, ed_targetId = 7, ed_allowedSeconds = 60, ed_consumedSeconds = 60, ed_overageSeconds = 0, ed_graceSeconds = 15\<rparr>}"
    by code_simp
  finally show ?thesis .
qed

text \<open>A sequence of evaluations of one user, the cool-down state carried from one to the next.\<close>

fun cooldown_after :: "decision_input list \<Rightarrow> cooldowns \<Rightarrow> cooldowns" where
  "cooldown_after [] m = m"
| "cooldown_after (i # is) m = cooldown_after is (eo_lastFiredAt (decideEnforcement (i\<lparr>di_lastFiredAt := m\<rparr>)))"

definition stops_at :: "decision_input list \<Rightarrow> cooldowns \<Rightarrow> nat \<Rightarrow> scope \<Rightarrow> int \<Rightarrow> bool" where
  "stops_at inputs m k s t \<longleftrightarrow>
     (\<exists>d \<in> set (eo_decisions (decideEnforcement ((inputs ! k)\<lparr>di_lastFiredAt := cooldown_after (take k inputs) m\<rparr>))).
        ed_scope d = s \<and> ed_targetId d = t)"

lemma cooldown_after_snoc:
  "cooldown_after (is @ [i]) m = eo_lastFiredAt (decideEnforcement (i\<lparr>di_lastFiredAt := cooldown_after is m\<rparr>))"
  by (induction "is" arbitrary: m) simp_all

lemma cooldown_step:
  assumes "distinct (map consumption_key (di_quotas i))"
    and "\<forall>q \<in> set (di_quotas i). qc_scope q = s \<and> qc_targetId q = t \<longrightarrow> isExhausted q"
    and "map_of m (targetKey s t) = Some a" "lo \<le> a" "lo \<le> di_now i"
  shows "\<exists>b. map_of (eo_lastFiredAt (decideEnforcement (i\<lparr>di_lastFiredAt := m\<rparr>))) (targetKey s t) = Some b \<and> lo \<le> b"
proof (cases "targetKey s t \<in> consumption_key ` set (di_quotas i)")
  case True
  then obtain q where q: "q \<in> set (di_quotas i)" "consumption_key q = targetKey s t" by (metis imageE)
  have "distinct (map consumption_key (di_quotas (i\<lparr>di_lastFiredAt := m\<rparr>)))" using assms(1) by simp
  from decide_fold(2) [OF this, of q "i\<lparr>di_lastFiredAt := m\<rparr>" "[]" m] q assms(2-5)
  show ?thesis by (auto simp: next_fired_eq next_cooldown_def)
next
  case False
  have "distinct (map consumption_key (di_quotas (i\<lparr>di_lastFiredAt := m\<rparr>)))" using assms(1) by simp
  from decide_fold(3) [OF this, of "targetKey s t" "i\<lparr>di_lastFiredAt := m\<rparr>" "[]" m] False assms(3,4)
  show ?thesis by (simp add: next_fired_eq)
qed

lemma stop_stamps:
  assumes "distinct (map consumption_key (di_quotas i))"
    and "d \<in> set (eo_decisions (decideEnforcement (i\<lparr>di_lastFiredAt := m\<rparr>)))"
  shows "map_of (eo_lastFiredAt (decideEnforcement (i\<lparr>di_lastFiredAt := m\<rparr>))) (targetKey (ed_scope d) (ed_targetId d)) = Some (di_now i)"
    and "\<not> cooling i (map_of m (targetKey (ed_scope d) (ed_targetId d)))"
proof -
  let ?i = "i\<lparr>di_lastFiredAt := m\<rparr>"
  have dist: "distinct (map consumption_key (di_quotas ?i))" using assms(1) by simp
  from assms(2) decision_set [OF dist] obtain q where q: "q \<in> set (di_quotas i)" "fires ?i m q" "d = decision_of ?i q" by auto
  then have key: "targetKey (ed_scope d) (ed_targetId d) = consumption_key q" by (simp add: decision_of_def consumption_key_def)
  have "cooling ?i = cooling i" by (simp add: cooling_def fun_eq_iff split: option.split)
  then show "\<not> cooling i (map_of m (targetKey (ed_scope d) (ed_targetId d)))" using q(2) unfolding key by (simp add: fires_def)
  from decide_fold(2) [OF dist, of q ?i "[]" m] q
  show "map_of (eo_lastFiredAt (decideEnforcement ?i)) (targetKey (ed_scope d) (ed_targetId d)) = Some (di_now i)"
    unfolding key by (simp add: next_fired_eq next_cooldown_def fires_def)
qed

text \<open>
  Between two stops of a target that stays over its quota (or without one) at every evaluation
  between them, at least the cool-down passes, however often the target is evaluated.
\<close>

theorem cooldown_respected:
  assumes "\<forall>i \<in> set inputs. distinct (map consumption_key (di_quotas i)) \<and> di_cooldownSeconds i = c"
    and "sorted (map di_now inputs)" "j < k" "k < length inputs"
    and "stops_at inputs m j s t" "stops_at inputs m k s t"
    and "\<forall>l. j < l \<and> l < k \<longrightarrow> (\<forall>q \<in> set (di_quotas (inputs ! l)). qc_scope q = s \<and> qc_targetId q = t \<longrightarrow> isExhausted q)"
  shows "c * 1000 \<le> di_now (inputs ! k) - di_now (inputs ! j)"
proof -
  have dist: "distinct (map consumption_key (di_quotas (inputs ! l)))" if "l < length inputs" for l using assms(1) that by simp
  let ?key = "targetKey s t"
  have take: "cooldown_after (take (Suc l) inputs) m =
      eo_lastFiredAt (decideEnforcement ((inputs ! l)\<lparr>di_lastFiredAt := cooldown_after (take l inputs) m\<rparr>))"
    if "l < length inputs" for l using that by (simp add: take_Suc_conv_app_nth cooldown_after_snoc)
  have kept: "l < length inputs \<longrightarrow> l < k \<longrightarrow>
      (\<exists>a. map_of (cooldown_after (take (Suc l) inputs) m) ?key = Some a \<and> di_now (inputs ! j) \<le> a)" if "j \<le> l" for l
    using that
  proof (induction l rule: dec_induct)
    case base
    from assms(5) obtain d where d: "d \<in> set (eo_decisions (decideEnforcement ((inputs ! j)\<lparr>di_lastFiredAt := cooldown_after (take j inputs) m\<rparr>)))"
      "ed_scope d = s" "ed_targetId d = t" by (auto simp: stops_at_def)
    show ?case using stop_stamps(1) [OF dist d(1)] d(2,3) take by auto
  next
    case (step l)
    show ?case
    proof (intro impI)
      assume l: "Suc l < length inputs" "Suc l < k"
      then obtain a where a: "map_of (cooldown_after (take (Suc l) inputs) m) ?key = Some a" "di_now (inputs ! j) \<le> a"
        using step.IH by auto
      have "di_now (inputs ! j) \<le> di_now (inputs ! Suc l)" using sorted_nth_mono [OF assms(2), of j "Suc l"] l(1) step.hyps by simp
      moreover have "\<forall>q \<in> set (di_quotas (inputs ! Suc l)). qc_scope q = s \<and> qc_targetId q = t \<longrightarrow> isExhausted q"
        using assms(7) [rule_format, of "Suc l"] l(2) step.hyps(1) by auto
      ultimately show "\<exists>a. map_of (cooldown_after (take (Suc (Suc l)) inputs) m) ?key = Some a \<and> di_now (inputs ! j) \<le> a"
        unfolding take [OF l(1)] using a dist [OF l(1)] by (intro cooldown_step)
    qed
  qed
  obtain l where l: "k = Suc l" "j \<le> l" using assms(3) by (cases k) auto
  then obtain a where a: "map_of (cooldown_after (take k inputs) m) ?key = Some a" "di_now (inputs ! j) \<le> a"
    using kept [of l] assms(4) by auto
  from assms(6) obtain d where d: "d \<in> set (eo_decisions (decideEnforcement ((inputs ! k)\<lparr>di_lastFiredAt := cooldown_after (take k inputs) m\<rparr>)))"
    "ed_scope d = s" "ed_targetId d = t" by (auto simp: stops_at_def)
  have "\<not> cooling (inputs ! k) (Some a)" using stop_stamps(2) [OF dist [OF assms(4)] d(1)] d(2,3) a(1) by simp
  then have "c * 1000 \<le> di_now (inputs ! k) - a" using assms(1,4) by (simp add: cooling_def)
  then show ?thesis using a(2) by simp
qed

definition over_quota_at :: "instant \<Rightarrow> decision_input" where
  "over_quota_at t = \<lparr>di_now = t, di_graceSeconds = 15, di_cooldownSeconds = 300,
     di_quotas = [\<lparr>qc_scope = Activity, qc_targetId = 7, qc_allowedSeconds = 60, qc_consumedSeconds = 90\<rparr>], di_lastFiredAt = []\<rparr>"

lemma cooldown_respected_witness:
  "(300 * 1000 :: int) \<le> 300000 - 0 \<and> stops_at (map over_quota_at [0, 150000, 300000]) [] 2 Activity 7"
proof
  have "stops_at (map over_quota_at [0, 150000, 300000]) [] 0 Activity 7" by code_simp
  moreover show two: "stops_at (map over_quota_at [0, 150000, 300000]) [] 2 Activity 7" by code_simp
  ultimately have "300 * 1000 \<le> di_now (map over_quota_at [0, 150000, 300000] ! 2) - di_now (map over_quota_at [0, 150000, 300000] ! 0)"
    by (intro cooldown_respected [where s = Activity and t = 7 and m = "[]"])
      (auto simp: over_quota_at_def consumption_key_def isExhausted_def less_Suc_eq numeral_2_eq_2)
  then show "(300 * 1000 :: int) \<le> 300000 - 0" by (simp add: over_quota_at_def)
qed

text \<open>What the user spent on a target of a quota today.\<close>

definition spent :: "tzdb \<Rightarrow> store \<Rightarrow> evaluate_input \<Rightarrow> activity_quota \<Rightarrow> tz_error + rat" where
  "spent zdb st i q =
     (if aq_scope q = Activity then activitySecondsInWindow zdb st (daily_query i) (aq_targetId q)
      else groupSecondsInWindow zdb st (daily_query i) (aq_targetId q))"

lemma measure_quota_spent:
  assumes "usageByActivityInWindow zdb st (daily_query i) = Inr m"
  shows "measure_quota zdb st i m q = Inr c \<longleftrightarrow> (\<exists>s. spent zdb st i q = Inr s
     \<and> c = \<lparr>qc_scope = aq_scope q, qc_targetId = aq_targetId q, qc_allowedSeconds = aq_seconds q, qc_consumedSeconds = s\<rparr>)"
proof -
  obtain b where b: "query_window zdb (daily_query i) = Inr b"
    using assms by (auto simp: usageByActivityInWindow_def bindE_eq_Inr)
  have m: "m = foldl (count_sample b) [] (samplesOverlapping st (wq_userId (daily_query i)) (bw_start b) (bw_end b))"
    using assms b by (simp add: usageByActivityInWindow_def)
  have "activitySecondsInWindow zdb st (daily_query i) a = Inr (nullish (map_of m a) 0)" for a
    unfolding m count_samples window_rows_by_activity using b by (simp add: activitySecondsInWindow_def)
  then show ?thesis by (auto simp: measure_quota_def spent_def bindE_eq_Inr)
qed

lemma policy_quotas_sorted:
  assumes "enforcement_policy zdb st i = Inr policy"
  shows "sorted_wrt (\<lambda>a b. quota_rank a < quota_rank b) (ep_perActivitySeconds policy)"
  using assms buildActivityQuotas_quotas
  by (auto simp: enforcement_policy_def effectivePolicy_def bindE_eq_Inr Let_def)

text \<open>
  C3 A user's evaluation that succeeds stops exactly the targets whose quota of the day, of the user's
  own and inherited budgets and grants, is used up by what the samples of the day add up to, where some
  use is recorded (more than zero seconds) and unless the target is cooling down; the overage is that
  difference and the grace is the user's.
\<close>

theorem enforcement_follows_policy:
  assumes "evaluateUserEnforcement zdb st i fired = Inr outcome"
  shows "\<exists>policy. enforcement_policy zdb st i = Inr policy \<and> set (eo_decisions outcome) =
     {\<lparr>ed_scope = aq_scope q, ed_targetId = aq_targetId q, ed_allowedSeconds = aq_seconds q, ed_consumedSeconds = s,
       ed_overageSeconds = s - of_int (aq_seconds q), ed_graceSeconds = graceSecondsFor st (ev_userId i)\<rparr> | q s.
      q \<in> set (ep_perActivitySeconds policy) \<and> spent zdb st i q = Inr s \<and> 0 < s \<and> of_int (aq_seconds q) \<le> s
      \<and> \<not> (\<exists>t. map_of fired (targetKey (aq_scope q) (aq_targetId q)) = Some t \<and> ev_now i - t < ev_cooldownSeconds i * 1000)}"
proof -
  obtain policy m quotas where p: "enforcement_policy zdb st i = Inr policy"
    and m: "usageByActivityInWindow zdb st (daily_query i) = Inr m"
    and quotas: "mapE (measure_quota zdb st i m) (ep_perActivitySeconds policy) = Inr quotas"
    and outcome: "outcome = decideEnforcement \<lparr>di_now = ev_now i, di_graceSeconds = graceSecondsFor st (ev_userId i),
         di_cooldownSeconds = ev_cooldownSeconds i, di_quotas = quotas, di_lastFiredAt = fired\<rparr>"
    using assms unfolding evaluateUserEnforcement_def bindE_eq_Inr by auto
  define inp where "inp = \<lparr>di_now = ev_now i, di_graceSeconds = graceSecondsFor st (ev_userId i),
         di_cooldownSeconds = ev_cooldownSeconds i, di_quotas = quotas, di_lastFiredAt = fired\<rparr>"
  have pairs: "list_all2 (\<lambda>q c. measure_quota zdb st i m q = Inr c) (ep_perActivitySeconds policy) quotas"
    using quotas by (simp add: mapE_eq_Inr)
  have keys: "map consumption_key quotas = map (\<lambda>q. targetKey (aq_scope q) (aq_targetId q)) (ep_perActivitySeconds policy)"
    using pairs by (induction rule: list_all2_induct) (auto simp: measure_quota_spent [OF m] consumption_key_def)
  have "sorted_wrt (<) (map quota_rank (ep_perActivitySeconds policy))"
    using policy_quotas_sorted [OF p] by (simp add: sorted_wrt_map)
  then have "distinct (map quota_rank (ep_perActivitySeconds policy))" by (simp add: strict_sorted_iff)
  then have "distinct (map consumption_key (di_quotas inp))"
    by (simp add: inp_def keys distinct_map inj_on_def quota_rank_def targetKey_def)
  from decision_set [OF this]
  have "set (eo_decisions outcome) = decision_of inp ` {c \<in> set quotas. fires inp fired c}"
    unfolding outcome inp_def [symmetric] by (simp add: inp_def)
  then have stopped: "d \<in> set (eo_decisions outcome) \<longleftrightarrow> (\<exists>c. c \<in> set quotas \<and> fires inp fired c \<and> d = decision_of inp c)" for d
    by auto
  have "c \<in> set quotas \<longleftrightarrow> (\<exists>q \<in> set (ep_perActivitySeconds policy). measure_quota zdb st i m q = Inr c)" for c
    using pairs by (induction rule: list_all2_induct) auto
  then have measured: "c \<in> set quotas \<longleftrightarrow> (\<exists>q s. q \<in> set (ep_perActivitySeconds policy) \<and> spent zdb st i q = Inr s
      \<and> c = \<lparr>qc_scope = aq_scope q, qc_targetId = aq_targetId q, qc_allowedSeconds = aq_seconds q, qc_consumedSeconds = s\<rparr>)" for c
    by (simp add: measure_quota_spent [OF m] Bex_def)
  have fires: "fires inp fired c \<longleftrightarrow> isExhausted c
      \<and> \<not> (\<exists>t. map_of fired (consumption_key c) = Some t \<and> ev_now i - t < ev_cooldownSeconds i * 1000)" for c
    by (simp add: fires_def cooling_def inp_def split: option.splits)
  have inp: "di_graceSeconds inp = graceSecondsFor st (ev_userId i)" by (simp add: inp_def)
  show ?thesis
  proof (intro exI [of _ policy] conjI p set_eqI)
    fix d
    show "d \<in> set (eo_decisions outcome) \<longleftrightarrow> d \<in> {\<lparr>ed_scope = aq_scope q, ed_targetId = aq_targetId q,
         ed_allowedSeconds = aq_seconds q, ed_consumedSeconds = s, ed_overageSeconds = s - of_int (aq_seconds q),
         ed_graceSeconds = graceSecondsFor st (ev_userId i)\<rparr> | q s.
        q \<in> set (ep_perActivitySeconds policy) \<and> spent zdb st i q = Inr s \<and> 0 < s \<and> of_int (aq_seconds q) \<le> s
        \<and> \<not> (\<exists>t. map_of fired (targetKey (aq_scope q) (aq_targetId q)) = Some t \<and> ev_now i - t < ev_cooldownSeconds i * 1000)}"
      unfolding stopped measured fires mem_Collect_eq
      apply (auto simp add: isExhausted_def decision_of_def consumption_key_def inp simp del: not_less)
      subgoal for q s
        by (rule exI [of _ "\<lparr>qc_scope = aq_scope q, qc_targetId = aq_targetId q, qc_allowedSeconds = aq_seconds q, qc_consumedSeconds = s\<rparr>"]) auto
      done
  qed
qed


definition quota_store :: store where
  "quota_store = played\<lparr>st_budgets :=
     [(1, 5, \<lparr>bi_scope = Activity, bi_targetId = Some 7, bi_window = Daily, bi_secondsAllowed = 3600, bi_recurrenceDays = None\<rparr>)]\<rparr>"

definition quota_query :: evaluate_input where
  "quota_query = \<lparr>ev_userId = 5, ev_now = 1740830400000, ev_tz = ''America/New_York'', ev_cooldownSeconds = 300\<rparr>"

definition stop_steam :: enforcement_decision where
  "stop_steam = \<lparr>ed_scope = Activity, ed_targetId = 7, ed_allowedSeconds = 3600, ed_consumedSeconds = 4000,
     ed_overageSeconds = 400, ed_graceSeconds = 15\<rparr>"

definition steam_quota :: activity_quota where
  "steam_quota = \<lparr>aq_scope = Activity, aq_targetId = 7, aq_seconds = 3600\<rparr>"

lemma quota_policy: "\<exists>p. enforcement_policy sample_tzdb quota_store quota_query = Inr p \<and> ep_perActivitySeconds p = [steam_quota]"
proof -
  let ?b = "\<lparr>bi_scope = Activity, bi_targetId = Some 7, bi_window = Daily, bi_secondsAllowed = 3600, bi_recurrenceDays = None\<rparr>"
  have "civil_of_day (local_day new_york_2025 1740830400000) = (2025, 3, 1)" by code_simp
  then have bounds: "localDayBounds sample_tzdb 2025 3 1 ''America/New_York'' =
      Inr \<lparr>bw_start = 1740805200000, bw_end = 1740891600000, bw_tz = ''America/New_York''\<rparr>"
    by (subst localDayBounds_daily [of _ _ 1740830400000]) (simp_all add: zone_of_def sample_tzdb_def flip: new_york_march_1)
  have "map fst (gatherUserBudgets quota_store 5) = [?b]" "st_grants quota_store = []" by code_simp+
  moreover have "selectBudgetsForWeekday [?b] w = [?b]" for w by (simp add: selectBudgetsForWeekday_def group_by_def group_add_def slot_rows_for_weekday_def covers_weekday_def)
  moreover have "buildActivityQuotas [?b] [] 1740805200000 1740891600000 = [steam_quota]" by code_simp
  ultimately show ?thesis by (simp add: enforcement_policy_def effectivePolicy_def quota_query_def new_york_march_1_date bounds Let_def)
qed

lemma quota_usage: "usageByActivityInWindow sample_tzdb quota_store (daily_query quota_query) = Inr [(7, 4000)]"
proof -
  have "query_window sample_tzdb (daily_query quota_query) =
      Inr \<lparr>bw_start = 1740805200000, bw_end = 1740891600000, bw_tz = ''America/New_York''\<rparr>"
    by (simp add: query_window_def effectiveWindow_def daily_query_def quota_query_def new_york_march_1)
  note q = this
  show ?thesis unfolding usageByActivityInWindow_def q bindE.simps by code_simp
qed

lemma enforcement_follows_policy_witness:
  "\<exists>policy q. enforcement_policy sample_tzdb quota_store quota_query = Inr policy
     \<and> q \<in> set (ep_perActivitySeconds policy) \<and> spent sample_tzdb quota_store quota_query q = Inr 4000 \<and> aq_targetId q = 7"
proof -
  obtain p where p: "enforcement_policy sample_tzdb quota_store quota_query = Inr p" "ep_perActivitySeconds p = [steam_quota]"
    using quota_policy by blast
  let ?c = "\<lparr>qc_scope = Activity, qc_targetId = 7, qc_allowedSeconds = 3600, qc_consumedSeconds = 4000\<rparr>"
  have "measure_quota sample_tzdb quota_store quota_query [(7, 4000)] steam_quota = Inr ?c"
    by (simp add: measure_quota_def steam_quota_def)
  moreover have "ev_now quota_query = 1740830400000" "ev_cooldownSeconds quota_query = 300" "graceSecondsFor quota_store (ev_userId quota_query) = 15"
    by (simp_all add: quota_query_def graceSecondsFor_def quota_store_def played_def empty_store_def DEFAULT_GRACE_SECONDS_def)
  ultimately have "evaluateUserEnforcement sample_tzdb quota_store quota_query [] = Inr (decideEnforcement
      \<lparr>di_now = 1740830400000, di_graceSeconds = 15, di_cooldownSeconds = 300, di_quotas = [?c], di_lastFiredAt = []\<rparr>)"
    by (simp add: evaluateUserEnforcement_def p quota_usage)
  moreover have "decideEnforcement
      \<lparr>di_now = 1740830400000, di_graceSeconds = 15, di_cooldownSeconds = 300, di_quotas = [?c], di_lastFiredAt = []\<rparr> =
     \<lparr>eo_decisions = [\<lparr>ed_scope = Activity, ed_targetId = 7, ed_allowedSeconds = 3600, ed_consumedSeconds = 4000,
     ed_overageSeconds = 400, ed_graceSeconds = 15\<rparr>], eo_lastFiredAt = [(''activity:7'', 1740830400000)]\<rparr>"
  proof -
    have "targetKey Activity 7 = ''activity:7''" by code_simp
    then show ?thesis by (simp add: decideEnforcement_def decide_step_def isExhausted_def cooling_def decision_of_def)
  qed
  ultimately have run: "evaluateUserEnforcement sample_tzdb quota_store quota_query [] =
      Inr \<lparr>eo_decisions = [stop_steam], eo_lastFiredAt = [(''activity:7'', 1740830400000)]\<rparr>" by (simp add: stop_steam_def)
  have "stop_steam \<in> set (eo_decisions \<lparr>eo_decisions = [stop_steam], eo_lastFiredAt = [(''activity:7'', 1740830400000)]\<rparr>)" by simp
  then obtain policy q s where q: "enforcement_policy sample_tzdb quota_store quota_query = Inr policy"
      "q \<in> set (ep_perActivitySeconds policy)" "spent sample_tzdb quota_store quota_query q = Inr s"
      "ed_targetId stop_steam = aq_targetId q" "ed_consumedSeconds stop_steam = s"
    using enforcement_follows_policy [OF run] by (smt (verit) enforcement_decision.simps(2,4) mem_Collect_eq)
  then show ?thesis by (intro exI [of _ policy] exI [of _ q]) (simp add: stop_steam_def)
qed

section \<open>The sweep isolates a failing user\<close>

text \<open>A trigger that records its calls and fails for the users of a set.\<close>

definition recorder :: "(int \<Rightarrow> bool) \<Rightarrow> (int \<times> enforcement_decision list) list trigger" where
  "recorder fails u ds calls = (if fails u then Inl () else Inr (), calls @ [(u, ds)])"

definition pass_input :: "instant \<Rightarrow> string \<Rightarrow> int \<Rightarrow> supervised_user \<Rightarrow> evaluate_input" where
  "pass_input moment defaultTz cooldownSeconds user = \<lparr>ev_userId = sv_id user, ev_now = moment,
     ev_tz = resolveEffectiveTz (sv_tz user) defaultTz, ev_cooldownSeconds = cooldownSeconds\<rparr>"

definition carried :: "user_cooldowns \<Rightarrow> supervised_user \<Rightarrow> cooldowns" where
  "carried fired user = nullish (map_of fired (sv_id user)) []"

definition stops_of :: "'e + enforcement_outcome \<Rightarrow> enforcement_decision list" where
  "stops_of r = (case r of Inl _ \<Rightarrow> [] | Inr oc \<Rightarrow> eo_decisions oc)"

definition cooldown_of :: "bool \<Rightarrow> cooldowns \<Rightarrow> 'e + enforcement_outcome \<Rightarrow> cooldowns" where
  "cooldown_of failing previous r =
     (case r of Inl _ \<Rightarrow> previous
      | Inr oc \<Rightarrow> if failing \<and> eo_decisions oc \<noteq> [] then previous else eo_lastFiredAt oc)"

lemma sweep_user_recorder:
  assumes "sweep_user evaluate (recorder fails) moment tz c fired (r, kept, calls) u = (r', kept', calls')"
  defines "res \<equiv> evaluate (pass_input moment tz c u) (carried fired u)"
  shows "calls' = calls @ (if stops_of res = [] then [] else [(sv_id u, stops_of res)])"
    and "map_of kept' = (map_of kept)(sv_id u \<mapsto> cooldown_of (fails (sv_id u)) (carried fired u) res)"
  using assms(1) unfolding res_def
  by (auto simp: sweep_user_def recorder_def pass_input_def carried_def stops_of_def cooldown_of_def Let_def
        AList.update_conv' split: sum.splits if_splits)

lemma sweep_fold:
  assumes "distinct (map sv_id users)"
    and "foldl (sweep_user evaluate (recorder fails) moment tz c fired) (r, kept, calls) users = (r', kept', calls')"
  defines "res u \<equiv> evaluate (pass_input moment tz c u) (carried fired u)"
  shows "calls' = calls @ map (\<lambda>u. (sv_id u, stops_of (res u))) (filter (\<lambda>u. stops_of (res u) \<noteq> []) users)
     \<and> map_of kept' = map_of kept ++ map_of (map (\<lambda>u. (sv_id u, cooldown_of (fails (sv_id u)) (carried fired u) (res u))) users)"
  using assms(1,2)
proof (induction users arbitrary: r kept calls)
  case (Cons u us)
  obtain r1 kept1 calls1 where step: "sweep_user evaluate (recorder fails) moment tz c fired (r, kept, calls) u = (r1, kept1, calls1)"
    using prod_cases3 by blast
  let ?next = "\<lambda>u. (sv_id u, cooldown_of (fails (sv_id u)) (carried fired u) (res u))"
  have new: "sv_id u \<notin> dom (map_of (map ?next us))" using Cons.prems by (auto simp: dom_map_of_conv_image_fst)
  note upd = sweep_user_recorder [OF step, folded res_def]
  have rest: "calls' = calls1 @ map (\<lambda>u. (sv_id u, stops_of (res u))) (filter (\<lambda>u. stops_of (res u) \<noteq> []) us)
      \<and> map_of kept' = map_of kept1 ++ map_of (map ?next us)"
    using Cons.prems by (intro Cons.IH) (simp_all add: step)
  have "map_of kept1 ++ map_of (map ?next us) = map_of kept ++ map_of (map ?next (u # us))"
    unfolding upd(2) map_add_upd_left [OF new] by (auto simp: map_add_def fun_eq_iff split: option.splits)
  then have "map_of kept' = map_of kept ++ map_of (map ?next (u # us))" using rest by (simp only:)
  moreover have "calls' = calls @ map (\<lambda>u. (sv_id u, stops_of (res u))) (filter (\<lambda>u. stops_of (res u) \<noteq> []) (u # us))"
    using rest upd(1) by simp
  ultimately show ?case by (intro conjI)
qed simp

text \<open>
  A pass of the sweep isolates its users: whatever fails for the others, each supervised user is
  evaluated on the cool-downs kept for them alone and, when it stops something, triggered once in the
  order of the users; a user whose evaluation or trigger fails keeps the previous cool-downs, and the
  cool-downs of users no longer supervised are dropped.
\<close>

theorem sweep_isolates_users:
  assumes "distinct (map sv_id users)"
    and "sweep_tick (Inr users) evaluate (recorder fails) moment tz c (fired, []) = (r, fired', calls)"
  shows "calls = filter (\<lambda>(u, ds). ds \<noteq> [])
         (map (\<lambda>u. (sv_id u, stops_of (evaluate (pass_input moment tz c u) (carried fired u)))) users)
     \<and> map_of fired' = map_of (map (\<lambda>u. (sv_id u,
            cooldown_of (fails (sv_id u)) (carried fired u) (evaluate (pass_input moment tz c u) (carried fired u)))) users)"
  using sweep_fold [OF assms(1), of evaluate fails moment tz c fired _ "[]" "[]"] assms(2)
  by (simp add: sweep_tick_def Let_def filter_map comp_def)

lemma sweep_isolates_users_witness:
  "map_of [(5, []), (6, [(''activity:7'', 1740830400000)])] (6::int) = Some [(''activity:7'', 1740830400000 :: instant)]"
proof -
  have "sweep_tick (Inr [\<lparr>sv_id = 5, sv_tz = None\<rparr>, \<lparr>sv_id = 6, sv_tz = None\<rparr>])
      (\<lambda>i m. if ev_userId i = 5 then Inl () else Inr \<lparr>eo_decisions = [stop_steam], eo_lastFiredAt = [(''activity:7'', ev_now i)]\<rparr>)
      (recorder (\<lambda>_. False)) 1740830400000 ''Etc/UTC'' 300 ([], []) =
    (\<lparr>sw_evaluated = 1, sw_enforced = 1, sw_decisions = 1, sw_failed = 1\<rparr>,
     [(5, []), (6, [(''activity:7'', 1740830400000)])], [(6, [stop_steam])])" by code_simp
  from sweep_isolates_users [OF _ this] show ?thesis by (simp add: pass_input_def cooldown_of_def)
qed

end
