(* ===== verification/Event_Stream.thy ===== *)
theory Event_Stream
  imports Control_Store
begin

text \<open>
  The event stream of the clients: the taxonomy of pushed events and the capability each needs
  (\<open>events/taxonomy.ts\<close>, \<open>capabilities.ts\<close>), the fan-out registry (\<open>hub.ts\<close>), the opening handshake
  (\<open>protocol.ts\<close>), the heartbeat (\<open>heartbeat.ts\<close>) and the life of one connection (\<open>stream.ts\<close>). A socket
  is a number; whether it is open is a parameter of a send, and what is sent is a list of sends. A
  connection is a machine on the events of its socket and timers. \<open>JSON.parse\<close> is a parameter; a frame
  is a value, not its text.
\<close>

section \<open>Events and capabilities\<close>

datatype server_event =
    Grant_Applied (ev_user: int) int string "int option"
  | Policy_Changed (ev_user: int) "string option"
  | Force_Close (ev_user: int) int
  | Session_Lock (ev_user: int)
  | Lockout_Cleared (ev_user: int)

definition per_app_close :: string where "per_app_close = ''per_app_close''"

definition session_budget :: string where "session_budget = ''session_budget''"

fun capabilityForEvent :: "server_event \<Rightarrow> string option" where
  "capabilityForEvent (Force_Close _ _) = Some per_app_close"
| "capabilityForEvent (Session_Lock _) = Some session_budget"
| "capabilityForEvent (Lockout_Cleared _) = Some session_budget"
| "capabilityForEvent (Grant_Applied _ _ _ _) = None"
| "capabilityForEvent (Policy_Changed _ _) = None"

text \<open>The bounds of the wire schema.\<close>

definition positive :: "int \<Rightarrow> bool" where "positive n \<longleftrightarrow> 0 < n"

definition short_text :: "string \<Rightarrow> bool" where "short_text s \<longleftrightarrow> 1 \<le> length s \<and> length s \<le> 200"

fun serverEventSchema :: "server_event \<Rightarrow> bool" where
  "serverEventSchema (Grant_Applied u seconds reason activity) \<longleftrightarrow>
     positive u \<and> positive seconds \<and> short_text reason \<and> pred_option positive activity"
| "serverEventSchema (Policy_Changed u summary) \<longleftrightarrow> positive u \<and> pred_option short_text summary"
| "serverEventSchema (Force_Close u activity) \<longleftrightarrow> positive u \<and> positive activity"
| "serverEventSchema (Session_Lock u) \<longleftrightarrow> positive u"
| "serverEventSchema (Lockout_Cleared u) \<longleftrightarrow> positive u"

section \<open>The hub\<close>

type_synonym socket = nat
type_synonym connections = "(socket \<times> string list) list"

record event_frame =
  fr_seq :: int
  fr_at :: instant
  fr_event :: server_event

record event_hub =
  hub_byClient :: "(int \<times> connections) list"
  hub_seq :: int

definition new_EventHub :: event_hub where "new_EventHub = \<lparr>hub_byClient = [], hub_seq = 0\<rparr>"

definition hub_register :: "event_hub \<Rightarrow> int \<Rightarrow> socket \<Rightarrow> string list \<Rightarrow> event_hub" where
  "hub_register h clientId s capabilities =
     (let caps = js_set_of capabilities in
      case map_of (hub_byClient h) clientId of
        None \<Rightarrow> h\<lparr>hub_byClient := AList.update clientId [(s, caps)] (hub_byClient h)\<rparr>
      | Some conns \<Rightarrow> h\<lparr>hub_byClient := AList.update clientId (AList.update s caps conns) (hub_byClient h)\<rparr>)"

definition hub_unregister :: "event_hub \<Rightarrow> int \<Rightarrow> socket \<Rightarrow> event_hub" where
  "hub_unregister h clientId s =
     (case map_of (hub_byClient h) clientId of
        None \<Rightarrow> h
      | Some conns \<Rightarrow>
          let conns' = AList.delete s conns in
          if length conns' = 0 then h\<lparr>hub_byClient := AList.delete clientId (hub_byClient h)\<rparr>
          else h\<lparr>hub_byClient := AList.update clientId conns' (hub_byClient h)\<rparr>)"

definition hub_frame :: "event_hub \<Rightarrow> instant \<Rightarrow> server_event \<Rightarrow> event_hub \<times> event_frame" where
  "hub_frame h t e =
     (let h' = h\<lparr>hub_seq := hub_seq h + 1\<rparr> in (h', \<lparr>fr_seq = hub_seq h', fr_at = t, fr_event = e\<rparr>))"

text \<open>
  A socket that is not open is skipped and stays registered. A \<open>send\<close> that throws, which would leave \<open>#write\<close>
  with the exception, is not modelled: \<open>ws\<close> throws only while a socket is connecting, and such a socket is not
  open.
\<close>

definition hub_write :: "(socket \<Rightarrow> bool) \<Rightarrow> connections \<Rightarrow> event_frame \<Rightarrow> string option \<Rightarrow> (socket \<times> event_frame) list" where
  "hub_write is_open conns f required =
     map (\<lambda>(s, caps). (s, f))
       (filter (\<lambda>(s, caps). is_open s \<and> (case required of None \<Rightarrow> True | Some c \<Rightarrow> c \<in> set caps)) conns)"

text \<open>The number of sockets reached is the length of the sends.\<close>

definition publishToClient ::
    "(socket \<Rightarrow> bool) \<Rightarrow> instant \<Rightarrow> int \<Rightarrow> server_event \<Rightarrow> event_hub \<Rightarrow> event_hub \<times> (socket \<times> event_frame) list" where
  "publishToClient is_open t clientId e h =
     (case map_of (hub_byClient h) clientId of
        None \<Rightarrow> (h, [])
      | Some conns \<Rightarrow> (case hub_frame h t e of (h', f) \<Rightarrow> (h', hub_write is_open conns f (capabilityForEvent e))))"

definition broadcast :: "(socket \<Rightarrow> bool) \<Rightarrow> instant \<Rightarrow> server_event \<Rightarrow> event_hub \<Rightarrow> event_hub \<times> (socket \<times> event_frame) list" where
  "broadcast is_open t e h =
     (case hub_frame h t e of (h', f) \<Rightarrow>
       (h', concat (map (\<lambda>(c, conns). hub_write is_open conns f (capabilityForEvent e)) (hub_byClient h))))"

definition isClientLive :: "event_hub \<Rightarrow> int \<Rightarrow> bool" where
  "isClientLive h clientId \<longleftrightarrow> map_of (hub_byClient h) clientId \<noteq> None"

definition liveClientIds :: "event_hub \<Rightarrow> int list" where
  "liveClientIds h = map fst (hub_byClient h)"

definition connectionCount :: "event_hub \<Rightarrow> nat" where
  "connectionCount h = sum_list (map (\<lambda>(c, conns). length conns) (hub_byClient h))"

section \<open>The handshake\<close>

definition API_VERSION :: int where "API_VERSION = 1"

definition EVENT_PROTOCOL :: int where "EVENT_PROTOCOL = 1"

definition DEFAULT_COMPAT_WINDOW :: int where "DEFAULT_COMPAT_WINDOW = 1"

record hello_frame =
  he_agentVersion :: string
  he_eventProtocol :: int
  he_capabilities :: "string list"

definition flag_text :: "json \<Rightarrow> string option" where
  "flag_text j = (case j of JStr s \<Rightarrow> if 1 \<le> length s \<and> length s \<le> 100 then Some s else None | _ \<Rightarrow> None)"

fun all_some :: "'a option list \<Rightarrow> 'a list option" where
  "all_some [] = Some []"
| "all_some (x # xs) = (case x of None \<Rightarrow> None | Some v \<Rightarrow> map_option ((#) v) (all_some xs))"

definition helloFrameSchema :: "json \<Rightarrow> hello_frame option" where
  "helloFrameSchema j =
     (case j of
        JObj fs \<Rightarrow>
          if map_of fs ''type'' \<noteq> Some (JStr ''hello'') then None
          else (case (Option.bind (map_of fs ''agentVersion'') flag_text, map_of fs ''eventProtocol'', map_of fs ''capabilities'') of
              (Some version, Some (JNum p), caps) \<Rightarrow>
                if p \<le> 0 then None
                else (case caps of
                    None \<Rightarrow> Some \<lparr>he_agentVersion = version, he_eventProtocol = p, he_capabilities = []\<rparr>
                  | Some (JArr cs) \<Rightarrow>
                      if length cs > 64 then None
                      else map_option (\<lambda>names. \<lparr>he_agentVersion = version, he_eventProtocol = p, he_capabilities = names\<rparr>)
                             (all_some (map flag_text cs))
                  | _ \<Rightarrow> None)
            | _ \<Rightarrow> None)
      | _ \<Rightarrow> None)"

definition parseHello :: "(string \<Rightarrow> json option) \<Rightarrow> string \<Rightarrow> hello_frame option" where
  "parseHello json_parse raw = Option.bind (json_parse raw) helloFrameSchema"

datatype refusal_reason = Client_Too_Old | Server_Too_Old | Malformed_Hello

datatype negotiation = Accept int int | Refuse refusal_reason

definition negotiate :: "hello_frame option \<Rightarrow> int \<Rightarrow> int \<Rightarrow> int \<Rightarrow> negotiation" where
  "negotiate hello serverProtocol apiVersion compatWindow =
     (case hello of
        None \<Rightarrow> Refuse Malformed_Hello
      | Some h \<Rightarrow>
          let window = max 1 compatWindow; oldestAccepted = serverProtocol - window; client = he_eventProtocol h
          in if client > serverProtocol then Refuse Server_Too_Old
             else if client \<ge> oldestAccepted then Accept client apiVersion
             else Refuse Client_Too_Old)"

section \<open>A connection\<close>

datatype close_reason = Close_Hello_Timeout | Close_Refused refusal_reason | Close_Bookkeeping_Failed

datatype stream_action = Send_Handshake negotiation | Close_Socket int close_reason | Ping_Socket | Terminate_Socket

datatype stream_event = Hello_Timer | Message string | Ping_Timer | Pong | Socket_Closed

record stream_conn =
  sc_settled :: bool
  sc_helloTimer :: bool
  sc_listening :: bool
  sc_accepted :: bool
  sc_heartbeat :: bool
  sc_alive :: bool

definition new_stream_conn :: stream_conn where
  "new_stream_conn = \<lparr>sc_settled = False, sc_helloTimer = True, sc_listening = True, sc_accepted = False,
     sc_heartbeat = False, sc_alive = False\<rparr>"

record stream_config =
  cfg_clientId :: int
  cfg_socket :: socket
  cfg_updateRequired :: bool
  cfg_serverProtocol :: int
  cfg_compatWindow :: int

type_synonym stream_state = "stream_conn \<times> event_hub \<times> db"

definition HANDSHAKE_CLOSE_CODE :: int where "HANDSHAKE_CLOSE_CODE = 1008"

text \<open>
  The writes of an accepted handshake, one after the other and in no transaction: a database that
  fails takes only the first \<open>n\<close> of them (\<open>Some n\<close>).
\<close>

definition connect_writes :: "stream_config \<Rightarrow> instant \<Rightarrow> hello_frame \<Rightarrow> (db \<Rightarrow> db) list" where
  "connect_writes cfg t hello =
     [\<lambda>d. recordClientAgentVersion d (cfg_clientId cfg) (he_agentVersion hello) t,
      \<lambda>d. recordClientCapabilities d (cfg_clientId cfg) (he_capabilities hello)]
     @ (if cfg_updateRequired cfg then [\<lambda>d. setClientUpdateRequired d (cfg_clientId cfg) False] else [])
     @ [\<lambda>d. touchClientLastSeen d (cfg_clientId cfg) t]"

definition apply_writes :: "(db \<Rightarrow> db) list \<Rightarrow> db \<Rightarrow> db" where
  "apply_writes writes d = foldl (\<lambda>d w. w d) d writes"

fun heartbeat_tick :: "stream_conn \<Rightarrow> stream_conn \<times> stream_action list" where
  "heartbeat_tick c =
     (if \<not> sc_alive c then (c, [Terminate_Socket]) else (c\<lparr>sc_alive := False\<rparr>, [Ping_Socket]))"

definition on_message ::
    "(string \<Rightarrow> json option) \<Rightarrow> nat option \<Rightarrow> stream_config \<Rightarrow> instant \<Rightarrow> string \<Rightarrow> stream_state \<Rightarrow> stream_state \<times> stream_action list" where
  "on_message json_parse db_fails cfg t raw s =
     (case s of (c, h, d) \<Rightarrow>
      let c1 = c\<lparr>sc_listening := False\<rparr> in
      if sc_settled c then ((c1, h, d), [])
      else let c2 = c1\<lparr>sc_settled := True, sc_helloTimer := False\<rparr>;
               hello = parseHello json_parse raw;
               answer = negotiate hello (cfg_serverProtocol cfg) API_VERSION (cfg_compatWindow cfg)
        in case answer of
             Refuse reason \<Rightarrow>
               ((c2, h, if reason = Client_Too_Old then setClientUpdateRequired d (cfg_clientId cfg) True else d),
                [Send_Handshake answer, Close_Socket HANDSHAKE_CLOSE_CODE (Close_Refused reason)])
           | Accept _ _ \<Rightarrow>
               let writes = (case hello of None \<Rightarrow> [] | Some he \<Rightarrow> connect_writes cfg t he);
                   caps = (case hello of None \<Rightarrow> [] | Some he \<Rightarrow> he_capabilities he)
               in (case db_fails of
                   Some n \<Rightarrow> ((c2, h, apply_writes (take n writes) d), [Close_Socket 1011 Close_Bookkeeping_Failed])
                 | None \<Rightarrow>
                     ((c2\<lparr>sc_accepted := True, sc_heartbeat := True, sc_alive := True\<rparr>,
                       hub_register h (cfg_clientId cfg) (cfg_socket cfg) caps, apply_writes writes d),
                      [Send_Handshake answer])))"

fun stream_step ::
    "(string \<Rightarrow> json option) \<Rightarrow> stream_config \<Rightarrow> stream_state \<Rightarrow> nat option \<times> instant \<times> stream_event
      \<Rightarrow> stream_state \<times> stream_action list" where
  "stream_step json_parse cfg (c, h, d) (db_fails, t, Hello_Timer) =
     (if \<not> sc_helloTimer c \<or> sc_settled c then ((c, h, d), [])
      else ((c\<lparr>sc_settled := True, sc_helloTimer := False\<rparr>, h, d),
            [Send_Handshake (negotiate None (cfg_serverProtocol cfg) API_VERSION (cfg_compatWindow cfg)),
             Close_Socket HANDSHAKE_CLOSE_CODE Close_Hello_Timeout]))"
| "stream_step json_parse cfg (c, h, d) (db_fails, t, Message raw) =
     (if sc_listening c then on_message json_parse db_fails cfg t raw (c, h, d) else ((c, h, d), []))"
| "stream_step json_parse cfg (c, h, d) (db_fails, t, Ping_Timer) =
     (if sc_heartbeat c then (case heartbeat_tick c of (c', out) \<Rightarrow> ((c', h, d), out)) else ((c, h, d), []))"
| "stream_step json_parse cfg (c, h, d) (db_fails, t, Pong) =
     (if sc_accepted c then ((c\<lparr>sc_alive := True\<rparr>, h, d), []) else ((c, h, d), []))"
| "stream_step json_parse cfg (c, h, d) (db_fails, t, Socket_Closed) =
     (let c1 = c\<lparr>sc_helloTimer := False\<rparr> in
      if sc_accepted c
      then ((c1\<lparr>sc_heartbeat := False\<rparr>, hub_unregister h (cfg_clientId cfg) (cfg_socket cfg),
             touchClientLastSeen d (cfg_clientId cfg) t), [])
      else ((c1, h, d), []))"


definition stream_run where
  "stream_run json_parse cfg s events =
     foldl (\<lambda>acc e. case acc of (s, out) \<Rightarrow> (case stream_step json_parse cfg s e of (s', out') \<Rightarrow> (s', out @ out'))) (s, []) events"

section \<open>The registry reflects its history\<close>

definition hub_lookup :: "event_hub \<Rightarrow> int \<Rightarrow> socket \<Rightarrow> string list option" where
  "hub_lookup h c s = Option.bind (map_of (hub_byClient h) c) (\<lambda>conns. map_of conns s)"

definition conns_ok :: "connections \<Rightarrow> bool" where
  "conns_ok conns \<longleftrightarrow> conns \<noteq> [] \<and> distinct (map fst conns)"

definition hub_ok :: "event_hub \<Rightarrow> bool" where
  "hub_ok h \<longleftrightarrow> distinct (map fst (hub_byClient h)) \<and> (\<forall>c. pred_option conns_ok (map_of (hub_byClient h) c))"

lemma hub_conns_ok: "hub_ok h \<Longrightarrow> map_of (hub_byClient h) c = Some conns \<Longrightarrow> conns_ok conns"
  unfolding hub_ok_def by (metis option.pred_inject(2))

lemma hub_live: "hub_ok h \<Longrightarrow> isClientLive h c \<longleftrightarrow> (\<exists>s. hub_lookup h c s \<noteq> None)"
proof (cases "map_of (hub_byClient h) c")
  case (Some conns)
  assume "hub_ok h"
  then have "conns \<noteq> []" using hub_conns_ok [OF _ Some] by (simp add: conns_ok_def)
  then have "\<exists>s. map_of conns s \<noteq> None" by (metis list.set_intros(1) map_of_eq_None_iff neq_Nil_conv image_eqI)
  then show ?thesis unfolding isClientLive_def hub_lookup_def Some by simp
qed (simp add: isClientLive_def hub_lookup_def)

lemma hub_ok_update:
  "hub_ok h \<Longrightarrow> conns_ok conns \<Longrightarrow> hub_ok (h\<lparr>hub_byClient := AList.update c conns (hub_byClient h)\<rparr>)"
  unfolding hub_ok_def by (simp add: distinct_update update_conv')

lemma hub_ok_delete: "hub_ok h \<Longrightarrow> hub_ok (h\<lparr>hub_byClient := AList.delete c (hub_byClient h)\<rparr>)"
  unfolding hub_ok_def by (simp add: distinct_delete delete_conv')

lemma hub_register_ok: "hub_ok h \<Longrightarrow> hub_ok (hub_register h c s caps)"
proof (cases "map_of (hub_byClient h) c")
  case None
  assume "hub_ok h"
  then show ?thesis by (simp add: hub_register_def Let_def None hub_ok_update conns_ok_def)
next
  case (Some conns)
  assume h: "hub_ok h"
  then have "conns_ok (AList.update s (js_set_of caps) conns)"
    using hub_conns_ok [OF h Some] by (simp add: conns_ok_def distinct_update update_nonempty)
  then show ?thesis by (simp add: hub_register_def Let_def Some hub_ok_update h)
qed

lemma hub_register_lookup:
  "hub_lookup (hub_register h c s caps) c' s' = (if c' = c \<and> s' = s then Some (js_set_of caps) else hub_lookup h c' s')"
  by (cases "map_of (hub_byClient h) c") (simp_all add: hub_lookup_def hub_register_def Let_def update_conv')

lemma hub_unregister_ok: "hub_ok h \<Longrightarrow> hub_ok (hub_unregister h c s)"
proof (cases "map_of (hub_byClient h) c")
  case (Some conns)
  assume h: "hub_ok h"
  then have "distinct (map fst (AList.delete s conns))"
    using hub_conns_ok [OF h Some] by (simp add: conns_ok_def distinct_delete)
  then show ?thesis
    by (simp add: hub_unregister_def Let_def Some hub_ok_update hub_ok_delete h conns_ok_def)
qed (simp add: hub_unregister_def)

lemma delete_lookup: "map_of (AList.delete s conns) s' = (if s' = s then None else map_of conns s')"
  by (simp add: delete_conv')

lemma hub_unregister_lookup:
  "hub_lookup (hub_unregister h c s) c' s' = (if c' = c \<and> s' = s then None else hub_lookup h c' s')"
proof (cases "map_of (hub_byClient h) c")
  case (Some conns)
  have "map_of conns s' = None" if "AList.delete s conns = []" "s' \<noteq> s"
    using delete_lookup [of s conns s'] that by simp
  then show ?thesis
    by (simp add: hub_lookup_def hub_unregister_def Let_def Some update_conv' delete_lookup)
qed (simp add: hub_lookup_def hub_unregister_def)

text \<open>A history of the hub, and what it says of a socket.\<close>

datatype hub_op = Op_Register int socket "string list" | Op_Unregister int socket | Op_Publish int server_event | Op_Broadcast server_event

fun hub_apply :: "(socket \<Rightarrow> bool) \<Rightarrow> event_hub \<Rightarrow> hub_op \<Rightarrow> event_hub" where
  "hub_apply is_open h (Op_Register c s caps) = hub_register h c s caps"
| "hub_apply is_open h (Op_Unregister c s) = hub_unregister h c s"
| "hub_apply is_open h (Op_Publish c e) = fst (publishToClient is_open 0 c e h)"
| "hub_apply is_open h (Op_Broadcast e) = fst (broadcast is_open 0 e h)"

definition hub_after :: "(socket \<Rightarrow> bool) \<Rightarrow> hub_op list \<Rightarrow> event_hub" where
  "hub_after is_open ops = foldr (\<lambda>op h. hub_apply is_open h op) ops new_EventHub"

fun registered :: "hub_op list \<Rightarrow> int \<Rightarrow> socket \<Rightarrow> string list option" where
  "registered [] c s = None"
| "registered (op # earlier) c s =
     (case op of
        Op_Register c' s' caps \<Rightarrow> if c' = c \<and> s' = s then Some caps else registered earlier c s
      | Op_Unregister c' s' \<Rightarrow> if c' = c \<and> s' = s then None else registered earlier c s
      | _ \<Rightarrow> registered earlier c s)"

lemma publish_lookup:
  "hub_byClient (fst (publishToClient is_open t c e h)) = hub_byClient h"
  "hub_byClient (fst (broadcast is_open t e h)) = hub_byClient h"
  by (simp_all add: publishToClient_def broadcast_def hub_frame_def Let_def split: option.split)

lemma publish_keeps:
  "hub_ok (fst (publishToClient is_open t c e h)) = hub_ok h" "hub_lookup (fst (publishToClient is_open t c e h)) = hub_lookup h"
  "hub_ok (fst (broadcast is_open t e h)) = hub_ok h" "hub_lookup (fst (broadcast is_open t e h)) = hub_lookup h"
  by (simp_all only: hub_ok_def hub_lookup_def fun_eq_iff publish_lookup simp_thms)

lemma hub_history:
  shows "hub_ok (hub_after is_open ops) \<and> hub_lookup (hub_after is_open ops) c s = map_option js_set_of (registered ops c s)"
proof (induction ops arbitrary: c s)
  case Nil
  then show ?case by (simp add: hub_after_def hub_ok_def new_EventHub_def hub_lookup_def)
next
  case (Cons op ops)
  have step: "hub_after is_open (x # ops) = hub_apply is_open (hub_after is_open ops) x" for x by (simp add: hub_after_def)
  show ?case using Cons.IH
    by (cases op) (simp_all add: step hub_register_ok hub_register_lookup hub_unregister_ok hub_unregister_lookup publish_keeps)
qed

text \<open>
  The sockets of a client in the order in which they were registered. A socket that is registered again keeps its
  place, as it does in a JavaScript map.
\<close>

fun connected :: "hub_op list \<Rightarrow> int \<Rightarrow> socket list" where
  "connected [] c = []"
| "connected (op # earlier) c =
     (case op of
        Op_Register c' s _ \<Rightarrow> if c' = c \<and> s \<notin> set (connected earlier c) then connected earlier c @ [s] else connected earlier c
      | Op_Unregister c' s \<Rightarrow> if c' = c then removeAll s (connected earlier c) else connected earlier c
      | _ \<Rightarrow> connected earlier c)"

definition hub_connections :: "event_hub \<Rightarrow> int \<Rightarrow> connections" where
  "hub_connections h c = (case map_of (hub_byClient h) c of None \<Rightarrow> [] | Some conns \<Rightarrow> conns)"

lemma register_connections:
  "hub_connections (hub_register h c s caps) c' =
     (if c' = c then AList.update s (js_set_of caps) (hub_connections h c) else hub_connections h c')"
  by (cases "map_of (hub_byClient h) c") (simp_all add: hub_connections_def hub_register_def Let_def update_conv')

lemma unregister_connections:
  "hub_connections (hub_unregister h c s) c' = (if c' = c then AList.delete s (hub_connections h c) else hub_connections h c')"
  by (cases "map_of (hub_byClient h) c")
    (simp_all add: hub_connections_def hub_unregister_def Let_def update_conv' delete_conv')

lemma connected_history: "map fst (hub_connections (hub_after is_open ops) c) = connected ops c"
proof (induction ops arbitrary: c)
  case Nil
  show ?case by (simp add: hub_after_def hub_connections_def new_EventHub_def)
next
  case (Cons op ops)
  have step: "hub_after is_open (x # ops) = hub_apply is_open (hub_after is_open ops) x" for x by (simp add: hub_after_def)
  have same: "hub_connections (fst (publishToClient is_open 0 k e h)) c = hub_connections h c"
      "hub_connections (fst (broadcast is_open 0 e h)) c = hub_connections h c" for k e h
    by (simp_all only: hub_connections_def publish_lookup)
  show ?case
    using Cons.IH [of c]
    by (cases op)
      (auto simp: step same register_connections unregister_connections update_keys delete_keys simp del: set_map)
qed

text \<open>
  C38 After any history of connections, disconnections and publishes, latest first, an event published
  to a client is written, in the order in which its sockets were registered, to exactly those that are open
  and, where the event needs a capability, were registered with it, each once, in a frame with the next
  sequence number. The others are skipped and stay registered; a client counts as live exactly while a socket
  of it is registered.
\<close>

theorem publish_reaches_capable_sockets:
  shows "snd (publishToClient is_open t c e (hub_after is_open ops)) =
      map (\<lambda>s. (s, \<lparr>fr_seq = hub_seq (hub_after is_open ops) + 1, fr_at = t, fr_event = e\<rparr>))
        (filter (\<lambda>s. is_open s \<and> (case capabilityForEvent e of None \<Rightarrow> True
            | Some need \<Rightarrow> (case registered ops c s of None \<Rightarrow> False | Some caps \<Rightarrow> need \<in> set caps))) (connected ops c))
    \<and> set (connected ops c) = {s. registered ops c s \<noteq> None} \<and> distinct (connected ops c)
    \<and> hub_lookup (fst (publishToClient is_open t c e (hub_after is_open ops))) = hub_lookup (hub_after is_open ops)
    \<and> (isClientLive (hub_after is_open ops) c \<longleftrightarrow> (\<exists>s. registered ops c s \<noteq> None))"
proof -
  let ?h = "hub_after is_open ops" and ?f = "\<lparr>fr_seq = hub_seq (hub_after is_open ops) + 1, fr_at = t, fr_event = e\<rparr>"
  have ok: "hub_ok ?h" and look: "hub_lookup ?h c s = map_option js_set_of (registered ops c s)" for s
    using hub_history [of is_open ops] by auto
  have live: "isClientLive ?h c \<longleftrightarrow> (\<exists>s. registered ops c s \<noteq> None)" by (simp add: hub_live [OF ok] look)
  have d: "distinct (map fst (hub_connections ?h c))"
    using hub_conns_ok [OF ok, of c] by (cases "map_of (hub_byClient ?h) c") (simp_all add: hub_connections_def conns_ok_def)
  have of_conns: "map_of (hub_connections ?h c) s = map_option js_set_of (registered ops c s)" for s
    using look [of s] by (cases "map_of (hub_byClient ?h) c") (simp_all add: hub_connections_def hub_lookup_def)
  have reg: "map_option js_set_of (registered ops c s) = Some caps" if "(s, caps) \<in> set (hub_connections ?h c)" for s caps
    using that d of_conns [of s] by simp
  have sends: "snd (publishToClient is_open t c e ?h) = hub_write is_open (hub_connections ?h c) ?f (capabilityForEvent e)"
    by (cases "map_of (hub_byClient ?h) c")
      (simp_all add: publishToClient_def hub_connections_def hub_frame_def hub_write_def Let_def)
  have "s \<in> set (connected ops c) \<longleftrightarrow> map_of (hub_connections ?h c) s \<noteq> None" for s
    by (simp add: connected_history [of is_open, symmetric] map_of_eq_None_iff)
  then have "set (connected ops c) = {s. registered ops c s \<noteq> None}" by (auto simp: of_conns)
  moreover have "hub_write is_open (hub_connections ?h c) ?f (capabilityForEvent e) = map (\<lambda>s. (s, ?f))
        (filter (\<lambda>s. is_open s \<and> (case capabilityForEvent e of None \<Rightarrow> True
            | Some need \<Rightarrow> (case registered ops c s of None \<Rightarrow> False | Some caps \<Rightarrow> need \<in> set caps))) (connected ops c))"
    unfolding hub_write_def connected_history [of is_open, symmetric] filter_map map_map comp_def case_prod_unfold
    by (rule arg_cong [where f = "map _"], rule filter_cong [OF refl]) (auto dest: reg split: option.splits)
  ultimately show ?thesis
    using d live sends by (simp only: publish_keeps connected_history simp_thms)
qed

section \<open>The handshake registers once\<close>

definition handshakes :: "stream_action list \<Rightarrow> negotiation list" where
  "handshakes out = concat (map (\<lambda>a. case a of Send_Handshake n \<Rightarrow> [n] | _ \<Rightarrow> []) out)"

lemma handshakes_simps [simp]:
  "handshakes [] = []" "handshakes (out @ out') = handshakes out @ handshakes out'"
  "handshakes (a # out) = (case a of Send_Handshake n \<Rightarrow> [n] | _ \<Rightarrow> []) @ handshakes out"
  by (simp_all add: handshakes_def)

lemma handshake_sent: "Send_Handshake n \<in> set out \<longleftrightarrow> n \<in> set (handshakes out)"
  by (induction out) (auto split: stream_action.splits)

fun accepts :: "negotiation \<Rightarrow> bool" where
  "accepts (Accept _ _) = True"
| "accepts (Refuse _) = False"

definition in_window :: "stream_config \<Rightarrow> negotiation \<Rightarrow> bool" where
  "in_window cfg n \<longleftrightarrow> (case n of
      Accept v _ \<Rightarrow> cfg_serverProtocol cfg - max 1 (cfg_compatWindow cfg) \<le> v \<and> v \<le> cfg_serverProtocol cfg
    | Refuse _ \<Rightarrow> True)"

lemma negotiate_in_window: "in_window cfg (negotiate hello (cfg_serverProtocol cfg) api (cfg_compatWindow cfg))"
  by (auto simp: in_window_def negotiate_def Let_def split: option.split)

text \<open>What the state of a connection says of the frames sent so far and of the registry.\<close>

definition conn_inv :: "stream_config \<Rightarrow> event_hub \<Rightarrow> stream_conn \<Rightarrow> event_hub \<Rightarrow> negotiation list \<Rightarrow> bool" where
  "conn_inv cfg h0 c h sent \<longleftrightarrow>
     (\<not> sc_settled c \<longrightarrow> sent = [] \<and> \<not> sc_accepted c) \<and> (sc_accepted c \<longrightarrow> (\<exists>n. sent = [n] \<and> accepts n))
     \<and> (\<not> sc_accepted c \<longrightarrow> sent = [] \<or> (\<exists>n. sent = [n] \<and> \<not> accepts n)) \<and> (\<forall>n \<in> set sent. in_window cfg n)
     \<and> (hub_lookup h (cfg_clientId cfg) (cfg_socket cfg) \<noteq> None \<longleftrightarrow> sc_accepted c)
     \<and> (\<forall>c' s'. (c', s') \<noteq> (cfg_clientId cfg, cfg_socket cfg) \<longrightarrow> hub_lookup h c' s' = hub_lookup h0 c' s')"

lemma on_message_inv:
  assumes "conn_inv cfg h0 c h sent" "on_message jp fails cfg t raw (c, h, d) = ((c', h', d'), out)"
  shows "conn_inv cfg h0 c' h' (sent @ handshakes out)"
proof (cases "sc_settled c")
  case True
  then show ?thesis using assms by (auto simp: on_message_def Let_def conn_inv_def)
next
  case False
  let ?answer = "negotiate (parseHello jp raw) (cfg_serverProtocol cfg) API_VERSION (cfg_compatWindow cfg)"
  from False assms(1) have none: "sent = []" "\<not> sc_accepted c" by (auto simp: conn_inv_def)
  have "in_window cfg ?answer" by (rule negotiate_in_window)
  then show ?thesis using assms False none
    by (cases ?answer; cases fails) (auto simp: on_message_def Let_def conn_inv_def hub_register_lookup)
qed

lemma stream_step_inv:
  assumes "conn_inv cfg h0 c h sent" "stream_step jp cfg (c, h, d) (fails, t, e) = ((c', h', d'), out)" "e \<noteq> Socket_Closed"
  shows "conn_inv cfg h0 c' h' (sent @ handshakes out)"
proof (cases e)
  case Hello_Timer
  have "\<not> accepts (negotiate None p a w)" for p a w by (simp add: negotiate_def)
  then show ?thesis using assms Hello_Timer negotiate_in_window [of cfg None]
    by (auto simp: conn_inv_def split: if_splits)
next
  case (Message raw)
  then show ?thesis using assms on_message_inv [OF assms(1)] by (auto split: if_splits)
qed (use assms in \<open>auto simp: conn_inv_def split: if_splits\<close>)

lemma stream_run_snoc:
  "stream_run jp cfg s (es @ [e]) = (case stream_run jp cfg s es of (s', out) \<Rightarrow>
     (case stream_step jp cfg s' e of (s'', out') \<Rightarrow> (s'', out @ out')))"
  by (simp add: stream_run_def)

lemma stream_run_inv:
  assumes "hub_lookup h (cfg_clientId cfg) (cfg_socket cfg) = None" "Socket_Closed \<notin> (snd \<circ> snd) ` set es"
    and "stream_run jp cfg (new_stream_conn, h, d) es = ((c', h', d'), out)"
  shows "conn_inv cfg h c' h' (handshakes out)"
  using assms(2,3)
proof (induction es arbitrary: c' h' d' out rule: rev_induct)
  case Nil
  then show ?case using assms(1) by (auto simp: stream_run_def conn_inv_def new_stream_conn_def)
next
  case (snoc e es)
  obtain c1 h1 d1 out1 where run: "stream_run jp cfg (new_stream_conn, h, d) es = ((c1, h1, d1), out1)"
    by (metis prod.exhaust)
  obtain fails t ev where e: "e = (fails, t, ev)" by (cases e)
  from snoc.prems run e obtain out2 where step: "stream_step jp cfg (c1, h1, d1) (fails, t, ev) = ((c', h', d'), out2)" "out = out1 @ out2"
    by (auto simp: stream_run_snoc split: prod.splits)
  have "conn_inv cfg h c1 h1 (handshakes out1)" using snoc run by auto
  from stream_step_inv [OF this step(1)] show ?case using snoc.prems(1) step(2) e by (auto simp: eq_commute)
qed

text \<open>
  However the opening message, the timers and the pongs of a connection interleave, and wherever the
  database fails, at most one handshake frame is sent, an acceptance only of a dialect within the
  window; the socket is registered exactly while it was sent an acceptance, no other socket's
  registration changes, and when the socket closes it is unregistered.
\<close>

theorem handshake_registers_once:
  assumes "hub_lookup h (cfg_clientId cfg) (cfg_socket cfg) = None" "Socket_Closed \<notin> (snd \<circ> snd) ` set es"
    and "stream_run jp cfg (new_stream_conn, h, d) es = ((c', h', d'), out)"
    and "stream_step jp cfg (c', h', d') (fails, t, Socket_Closed) = ((c'', h'', d''), out')"
  shows "length (handshakes out) \<le> 1 \<and> (\<forall>n \<in> set (handshakes out). in_window cfg n)
    \<and> (hub_lookup h' (cfg_clientId cfg) (cfg_socket cfg) \<noteq> None \<longleftrightarrow> (\<exists>v api. Send_Handshake (Accept v api) \<in> set out))
    \<and> hub_lookup h'' = hub_lookup h"
proof -
  note inv = stream_run_inv [OF assms(1-3)]
  then have "length (handshakes out) \<le> 1" "\<forall>n \<in> set (handshakes out). in_window cfg n" by (auto simp: conn_inv_def)
  moreover have "sc_accepted c' \<longleftrightarrow> (\<exists>v api. Send_Handshake (Accept v api) \<in> set out)"
    using inv by (auto simp: conn_inv_def handshake_sent elim: accepts.elims)
  moreover have "hub_lookup h'' c s = hub_lookup h c s" for c s
    using inv assms(1,4) by (cases "(c, s) = (cfg_clientId cfg, cfg_socket cfg)")
      (auto simp: conn_inv_def Let_def hub_unregister_lookup split: if_splits)
  ultimately show ?thesis using inv by (auto simp: conn_inv_def fun_eq_iff)
qed

definition sample_config :: stream_config where
  "sample_config = \<lparr>cfg_clientId = 1, cfg_socket = 4, cfg_updateRequired = False, cfg_serverProtocol = 1, cfg_compatWindow = 1\<rparr>"

lemma handshake_registers_once_witness:
  "handshakes (snd (stream_run (\<lambda>raw. None) sample_config (new_stream_conn, new_EventHub, empty_db)
     [(None, 0, Message ''hi''), (None, 10000, Hello_Timer)])) = [Refuse Malformed_Hello]"
proof -
  let ?es = "[(None, 0, Message ''hi''), (None, 10000, Hello_Timer)]"
  let ?run = "stream_run (\<lambda>raw. None) sample_config (new_stream_conn, new_EventHub, empty_db) ?es"
  obtain c h d out where run: "?run = ((c, h, d), out)" by (metis prod.exhaust)
  obtain c2 h2 d2 out2 where close: "stream_step (\<lambda>raw. None) sample_config (c, h, d) (None, 0, Socket_Closed) = ((c2, h2, d2), out2)"
    by (metis prod.exhaust)
  have "length (handshakes out) \<le> 1"
    using handshake_registers_once [OF _ _ run close] by (simp add: hub_lookup_def new_EventHub_def)
  moreover have "Refuse Malformed_Hello \<in> set (handshakes (snd ?run))"
    by (simp add: stream_run_def new_stream_conn_def on_message_def parseHello_def negotiate_def Let_def)
  ultimately show ?thesis unfolding run by (cases "handshakes out") auto
qed

end
