(* ===== verification/Force_Close.thy ===== *)
theory Force_Close
  imports Enforcement Event_Stream Transport_Audit Policy_Push
begin

text \<open>
  The force-close trigger (\<open>enforcement/force-close.ts\<close>) and its collaborators (\<open>force-close-deps.ts\<close>):
  the grace timers of the stops the sweep decides, and, when one elapses, the fan-out of the stop to
  every client of the user, over the event stream where a socket takes it and by \<open>pkill\<close> over SSH
  where none does. The SSH transport is a parameter, an action on a world of its own; the database is
  read when the timer fires. The fan-out runs in order; what happens to the world between its steps is
  the parameter's.
\<close>

section \<open>Targets\<close>

record force_close_client =
  fc_clientId :: int
  fc_osUserRef :: string
  fc_sshTarget :: dial_target

record force_close_activity =
  fa_activityId :: int
  fa_matcher :: string
  fa_matchType :: match_type

definition FORCE_CLOSABLE_KINDS :: "activity_kind list" where "FORCE_CLOSABLE_KINDS = [App, App_Group]"

definition closable :: "activity_row \<Rightarrow> force_close_activity" where
  "closable a = \<lparr>fa_activityId = act_id a, fa_matcher = act_matcher a, fa_matchType = act_matchType a\<rparr>"

definition resolveActivities :: "store \<Rightarrow> scope \<Rightarrow> int \<Rightarrow> force_close_activity list" where
  "resolveActivities st scope targetId =
     (if scope = Activity
      then map closable (filter (\<lambda>a. act_id a = targetId \<and> act_kind a \<in> set FORCE_CLOSABLE_KINDS) (st_activities st))
      else concat (map (\<lambda>(activityId, groupId).
             if groupId = targetId
             then map closable (filter (\<lambda>a. act_id a = activityId \<and> act_kind a \<in> set FORCE_CLOSABLE_KINDS) (st_activities st))
             else []) (st_activityMembers st)))"

definition dialTarget :: "client_row \<Rightarrow> ssh_credentials \<Rightarrow> dial_target" where
  "dialTarget c credentials =
     \<lparr>dt_host = sshHostForClient c, dt_port = cr_port credentials, dt_username = client_sshUser c,
      dt_privateKey = cr_privateKey credentials, dt_passphrase = cr_passphrase credentials\<rparr>"

definition clientsForUser :: "ssh_credentials \<Rightarrow> db \<Rightarrow> int \<Rightarrow> force_close_client list" where
  "clientsForUser credentials d userId =
     concat (map (\<lambda>l. if link_userId l = userId
         then (case getClient d (link_clientId l) of
             None \<Rightarrow> []
           | Some c \<Rightarrow> [\<lparr>fc_clientId = link_clientId l, fc_osUserRef = link_osUserRef l, fc_sshTarget = dialTarget c credentials\<rparr>])
         else []) (db_links d))"

section \<open>The two paths and their audit\<close>

definition fromThrown :: "ssh_error \<Rightarrow> outcome_fields" where
  "fromThrown err =
     settled_fields (case err of SshUnreachableError _ _ \<Rightarrow> Audit_Unreachable | SshExecTimeoutError _ _ _ \<Rightarrow> Audit_Timeout | _ \<Rightarrow> Audit_Failed)
       None None (Some (truncate_message (ssh_message err)))"

definition fromResult :: "exec_result \<Rightarrow> outcome_fields" where
  "fromResult r =
     (let succeeded = er_code r = Some 0 \<or> er_code r = Some 1 in
      settled_fields (if succeeded then Audit_Ok else Audit_Failed) (er_code r) (er_signal r)
        (if succeeded then None
         else Some (truncate_message (''pkill exited '' @ (case er_code r of Some c \<Rightarrow> show_int c | None \<Rightarrow> ''by signal'')
                                       @ '': '' @ js_trim (er_stderr r)))))"

definition force_close_context :: "int \<Rightarrow> int \<Rightarrow> audit_context" where
  "force_close_context clientId userId =
     \<lparr>ac_clientId = Some (Some clientId), ac_userId = Some (Some userId), ac_actor = Some ''system'',
      ac_reason = Some (Some ''enforce.force_close'')\<rparr>"

definition event_entry :: "force_close_client \<Rightarrow> int \<Rightarrow> int \<Rightarrow> audit_entry" where
  "event_entry client userId activityId =
     \<lparr>ae_target = target_ref_of (fc_sshTarget client),
      ae_command = [''enforce.force_close'', ''--user'', show_int userId, ''--activity'', show_int activityId, ''--via'', ''event-stream''],
      ae_fields = settled_fields Audit_Ok None None None, ae_durationMs = 0,
      ae_context = force_close_context (fc_clientId client) userId\<rparr>"

definition pkill_entry :: "force_close_client \<Rightarrow> int \<Rightarrow> string list \<Rightarrow> outcome_fields \<Rightarrow> int \<Rightarrow> audit_entry" where
  "pkill_entry client userId argv f duration =
     \<lparr>ae_target = target_ref_of (fc_sshTarget client), ae_command = redactArgv argv, ae_fields = f, ae_durationMs = duration,
      ae_context = force_close_context (fc_clientId client) userId\<rparr>"

record 'w close_world =
  cw_hub :: event_hub
  cw_sent :: "(socket \<times> event_frame) list"
  cw_audit :: "audit_entry list"
  cw_peer :: 'w

record 'w close_env =
  ce_open :: "socket \<Rightarrow> bool"
  ce_now :: "'w \<Rightarrow> instant"
  ce_exec :: "dial_target \<Rightarrow> string list \<Rightarrow> 'w \<Rightarrow> (ssh_error + exec_result) \<times> 'w"

definition forceCloseOverSsh ::
    "'w close_env \<Rightarrow> int \<Rightarrow> force_close_client \<Rightarrow> force_close_activity \<Rightarrow> 'w close_world \<Rightarrow> 'w close_world" where
  "forceCloseOverSsh env userId client activity cw =
     (case buildPkillArgv (fc_osUserRef client) (fa_matcher activity) (fa_matchType activity) of
        None \<Rightarrow> cw
      | Some argv \<Rightarrow>
          let startedAt = ce_now env (cw_peer cw) in
          (case ce_exec env (fc_sshTarget client) argv (cw_peer cw) of
             (outcome, w) \<Rightarrow>
               let f = (case outcome of Inr r \<Rightarrow> fromResult r | Inl err \<Rightarrow> fromThrown err) in
               cw\<lparr>cw_peer := w, cw_audit := cw_audit cw @ [pkill_entry client userId argv f (ce_now env w - startedAt)]\<rparr>))"

definition closeOnClient ::
    "'w close_env \<Rightarrow> int \<Rightarrow> force_close_client \<Rightarrow> force_close_activity \<Rightarrow> 'w close_world \<Rightarrow> 'w close_world" where
  "closeOnClient env userId client activity cw =
     (case publishToClient (ce_open env) (ce_now env (cw_peer cw)) (fc_clientId client)
             (Force_Close userId (fa_activityId activity)) (cw_hub cw) of
        (hub, sends) \<Rightarrow>
          let cw' = cw\<lparr>cw_hub := hub, cw_sent := cw_sent cw @ sends\<rparr> in
          if length sends > 0
          then cw'\<lparr>cw_audit := cw_audit cw @ [event_entry client userId (fa_activityId activity)]\<rparr>
          else forceCloseOverSsh env userId client activity cw')"

definition dispatch_close ::
    "'w close_env \<Rightarrow> ssh_credentials \<Rightarrow> db \<Rightarrow> int \<Rightarrow> enforcement_decision \<Rightarrow> 'w close_world \<Rightarrow> 'w close_world" where
  "dispatch_close env credentials d userId decision cw =
     (let activities = resolveActivities (db_policy d) (ed_scope decision) (ed_targetId decision) in
      if length activities = 0 then cw
      else let clients = clientsForUser credentials d userId in
        if length clients = 0 then cw
        else foldl (\<lambda>cw client. foldl (\<lambda>cw activity. closeOnClient env userId client activity cw) cw activities) cw clients)"

section \<open>The trigger\<close>

definition pendingKey :: "int \<Rightarrow> scope \<Rightarrow> int \<Rightarrow> string" where
  "pendingKey userId scope targetId = show_int userId @ CHR '':'' # targetKey scope targetId"

record grace_timer =
  gt_userId :: int
  gt_decision :: enforcement_decision
  gt_delayMs :: int

definition timer_key :: "grace_timer \<Rightarrow> string" where
  "timer_key g = pendingKey (gt_userId g) (ed_scope (gt_decision g)) (ed_targetId (gt_decision g))"

record close_trigger =
  ct_pending :: "string list"
  ct_timers :: "grace_timer list"

definition new_ForceCloseTrigger :: close_trigger where
  "new_ForceCloseTrigger = \<lparr>ct_pending = [], ct_timers = []\<rparr>"

definition enforce_one :: "int \<Rightarrow> close_trigger \<Rightarrow> enforcement_decision \<Rightarrow> close_trigger" where
  "enforce_one userId t decision =
     (let key = pendingKey userId (ed_scope decision) (ed_targetId decision) in
      if key \<in> set (ct_pending t) then t
      else t\<lparr>ct_pending := ct_pending t @ [key],
             ct_timers := ct_timers t @ [\<lparr>gt_userId = userId, gt_decision = decision, gt_delayMs = ed_graceSeconds decision * 1000\<rparr>]\<rparr>)"

definition trigger_enforce :: "int \<Rightarrow> enforcement_decision list \<Rightarrow> close_trigger \<Rightarrow> close_trigger" where
  "trigger_enforce userId decisions t = foldl (enforce_one userId) t decisions"

text \<open>The callback of the k-th outstanding timer: it first takes the target off the pending ones.\<close>

definition timer_take :: "nat \<Rightarrow> close_trigger \<Rightarrow> close_trigger" where
  "timer_take k t =
     (if k < length (ct_timers t)
      then t\<lparr>ct_pending := removeAll (timer_key (ct_timers t ! k)) (ct_pending t),
             ct_timers := take k (ct_timers t) @ drop (Suc k) (ct_timers t)\<rparr>
      else t)"

definition timer_fired ::
    "'w close_env \<Rightarrow> ssh_credentials \<Rightarrow> db \<Rightarrow> nat \<Rightarrow> close_trigger \<times> 'w close_world \<Rightarrow> close_trigger \<times> 'w close_world" where
  "timer_fired env credentials d k s =
     (case s of (t, cw) \<Rightarrow>
      if k < length (ct_timers t)
      then let g = ct_timers t ! k in (timer_take k t, dispatch_close env credentials d (gt_userId g) (gt_decision g) cw)
      else s)"

section \<open>One timer per target\<close>

inductive trigger_reach :: "close_trigger \<Rightarrow> bool" where
  trigger_new: "trigger_reach new_ForceCloseTrigger"
| trigger_more: "trigger_reach t \<Longrightarrow> trigger_reach (trigger_enforce userId decisions t)"
| trigger_fire: "trigger_reach t \<Longrightarrow> trigger_reach (timer_take k t)"

definition trigger_ok :: "close_trigger \<Rightarrow> bool" where
  "trigger_ok t \<longleftrightarrow> ct_pending t = map timer_key (ct_timers t) \<and> distinct (ct_pending t)"

lemma pendingKey_inject [simp]: "pendingKey u s t = pendingKey u' s' t' \<longleftrightarrow> u = u' \<and> s = s' \<and> t = t'"
proof
  assume eq: "pendingKey u s t = pendingKey u' s' t'"
  have key: "takeWhile (\<lambda>c. c \<noteq> CHR '':'') (pendingKey u s t) = show_int u"
      "dropWhile (\<lambda>c. c \<noteq> CHR '':'') (pendingKey u s t) = CHR '':'' # targetKey s t" for u s t
    by (auto simp: pendingKey_def takeWhile_append dropWhile_append)
  from eq key [of u s t] key [of u' s' t'] have "show_int u = show_int u'" "targetKey s t = targetKey s' t'" by auto
  then show "u = u' \<and> s = s' \<and> t = t'" by (simp add: targetKey_def)
qed simp

lemma enforce_one_ok: "trigger_ok t \<Longrightarrow> trigger_ok (enforce_one userId t d)"
  by (auto simp: enforce_one_def trigger_ok_def Let_def timer_key_def comp_def)

lemma trigger_ok_enforce: "trigger_ok t \<Longrightarrow> trigger_ok (trigger_enforce userId decisions t)"
  unfolding trigger_enforce_def by (induction decisions arbitrary: t) (auto simp: enforce_one_ok)

lemma removeAll_nth:
  "distinct xs \<Longrightarrow> k < length xs \<Longrightarrow> removeAll (xs ! k) xs = take k xs @ drop (Suc k) xs"
proof -
  assume d: "distinct xs" and k: "k < length xs"
  then have "xs = take k xs @ xs ! k # drop (Suc k) xs" by (simp add: id_take_nth_drop)
  moreover from this d have "xs ! k \<notin> set (take k xs)" "xs ! k \<notin> set (drop (Suc k) xs)"
    by (metis distinct_append disjoint_iff distinct.simps(2) list.set_intros(1) not_distinct_conv_prefix)+
  ultimately show ?thesis by (metis removeAll.simps(2) removeAll_append removeAll_id)
qed

lemma trigger_ok_fire: "trigger_ok t \<Longrightarrow> trigger_ok (timer_take k t)"
proof (cases "k < length (ct_timers t)")
  case True
  assume "trigger_ok t"
  then have ok: "ct_pending t = map timer_key (ct_timers t)" "distinct (map timer_key (ct_timers t))" by (auto simp: trigger_ok_def)
  then have "removeAll (timer_key (ct_timers t ! k)) (ct_pending t)
      = map timer_key (take k (ct_timers t) @ drop (Suc k) (ct_timers t))"
    using True removeAll_nth [of "ct_pending t" k] by (simp add: take_map drop_map)
  moreover have "distinct (removeAll (timer_key (ct_timers t ! k)) (ct_pending t))"
    using ok by (simp add: distinct_removeAll)
  ultimately show ?thesis by (simp add: timer_take_def True trigger_ok_def)
qed (simp add: timer_take_def)

lemma trigger_reach_ok: "trigger_reach t \<Longrightarrow> trigger_ok t"
proof (induction rule: trigger_reach.induct)
  case trigger_new
  show ?case by (simp add: trigger_ok_def new_ForceCloseTrigger_def)
qed (simp_all add: trigger_ok_enforce trigger_ok_fire)

lemma enforce_keeps: "set (ct_timers t) \<subseteq> set (ct_timers (trigger_enforce userId ds t))"
  unfolding trigger_enforce_def
proof (induction ds arbitrary: t)
  case (Cons d ds)
  have "set (ct_timers t) \<subseteq> set (ct_timers (enforce_one userId t d))" by (auto simp: enforce_one_def Let_def)
  with Cons.IH [of "enforce_one userId t d"] show ?case by auto
qed simp

lemma enforce_schedules:
  assumes "trigger_ok t" "d \<in> set ds"
  shows "pendingKey userId (ed_scope d) (ed_targetId d) \<in> timer_key ` set (ct_timers (trigger_enforce userId ds t))"
  using assms
proof (induction ds arbitrary: t)
  case (Cons d' ds)
  have step: "trigger_enforce userId (d' # ds) t = trigger_enforce userId ds (enforce_one userId t d')"
    by (simp add: trigger_enforce_def)
  show ?case
  proof (cases "d = d'")
    case True
    have "pendingKey userId (ed_scope d') (ed_targetId d') \<in> timer_key ` set (ct_timers (enforce_one userId t d'))"
      using Cons.prems(1) by (auto simp: enforce_one_def trigger_ok_def Let_def timer_key_def)
    then show ?thesis using True step enforce_keeps [of "enforce_one userId t d'"] by auto
  next
    case False
    then show ?thesis using Cons.prems step Cons.IH [OF enforce_one_ok [OF Cons.prems(1)]] by simp
  qed
qed simp

text \<open>
  However stops are decided and grace timers fire, no target of a user ever has two timers, and
  every stop handed to the trigger has exactly one timer afterwards, its own or the one that was
  already running; the timers that were running keep running.
\<close>

theorem stop_scheduled_once:
  assumes "trigger_reach t" "d \<in> set decisions"
  shows "(\<exists>!g. g \<in> set (ct_timers (trigger_enforce userId decisions t)) \<and> gt_userId g = userId
       \<and> ed_scope (gt_decision g) = ed_scope d \<and> ed_targetId (gt_decision g) = ed_targetId d)
     \<and> set (ct_timers t) \<subseteq> set (ct_timers (trigger_enforce userId decisions t))"
proof -
  have ok: "trigger_ok t" by (rule trigger_reach_ok [OF assms(1)])
  then have "trigger_ok (trigger_enforce userId decisions t)" by (rule trigger_ok_enforce)
  then have "distinct (map timer_key (ct_timers (trigger_enforce userId decisions t)))" by (auto simp: trigger_ok_def)
  then have "inj_on timer_key (set (ct_timers (trigger_enforce userId decisions t)))" by (simp add: distinct_map)
  moreover obtain g where "g \<in> set (ct_timers (trigger_enforce userId decisions t))"
      "timer_key g = pendingKey userId (ed_scope d) (ed_targetId d)"
    using enforce_schedules [OF ok assms(2)] by (metis imageE)
  ultimately have "\<exists>!g. g \<in> set (ct_timers (trigger_enforce userId decisions t)) \<and> timer_key g = pendingKey userId (ed_scope d) (ed_targetId d)"
    by (metis inj_onD)
  then show ?thesis using enforce_keeps by (simp add: timer_key_def)
qed

lemma stop_scheduled_once_witness:
  "\<exists>!g. g \<in> set (ct_timers (trigger_enforce 5 [stop_steam, stop_steam] new_ForceCloseTrigger)) \<and> gt_userId g = 5
       \<and> ed_scope (gt_decision g) = Activity \<and> ed_targetId (gt_decision g) = 7"
  using stop_scheduled_once [OF trigger_new, of stop_steam "[stop_steam, stop_steam]" 5] by (simp add: stop_steam_def)

section \<open>Every app on every client\<close>

definition takes_close :: "(socket \<Rightarrow> bool) \<Rightarrow> event_hub \<Rightarrow> int \<Rightarrow> bool" where
  "takes_close is_open h c \<longleftrightarrow> (\<exists>s caps. hub_lookup h c s = Some caps \<and> is_open s \<and> per_app_close \<in> set caps)"

text \<open>The sockets of a client that are open and take the close, in the order of their registration.\<close>

definition close_sockets :: "(socket \<Rightarrow> bool) \<Rightarrow> event_hub \<Rightarrow> int \<Rightarrow> socket list" where
  "close_sockets is_open h c = map fst (filter (\<lambda>(s, caps). is_open s \<and> per_app_close \<in> set caps) (hub_connections h c))"

text \<open>
  What closing one app on one client does to the outside world: the frames that are written, the audit entry, and
  the world afterwards. On the stream nothing is run; over SSH the \<open>pkill\<close> of the app is run on the client's
  target, and its outcome and duration are what the entry records.
\<close>

definition carried_out ::
    "'w close_env \<Rightarrow> event_hub \<Rightarrow> int \<Rightarrow> force_close_client \<times> force_close_activity \<Rightarrow> 'w
      \<Rightarrow> (socket \<times> event_frame) list \<Rightarrow> audit_entry \<Rightarrow> 'w \<Rightarrow> bool" where
  "carried_out env h userId p w sends entry w' =
     (case p of (client, activity) \<Rightarrow>
      if takes_close (ce_open env) h (fc_clientId client)
      then w' = w \<and> entry = event_entry client userId (fa_activityId activity)
        \<and> (\<exists>n. sends = map (\<lambda>s. (s, \<lparr>fr_seq = n, fr_at = ce_now env w, fr_event = Force_Close userId (fa_activityId activity)\<rparr>))
              (close_sockets (ce_open env) h (fc_clientId client)))
      else sends = []
        \<and> (\<exists>argv outcome. buildPkillArgv (fc_osUserRef client) (fa_matcher activity) (fa_matchType activity) = Some argv
             \<and> ce_exec env (fc_sshTarget client) argv w = (outcome, w')
             \<and> entry = pkill_entry client userId argv
                 (case outcome of Inr r \<Rightarrow> fromResult r | Inl err \<Rightarrow> fromThrown err) (ce_now env w' - ce_now env w)))"

inductive fan_out ::
    "'w close_env \<Rightarrow> event_hub \<Rightarrow> int \<Rightarrow> (force_close_client \<times> force_close_activity) list \<Rightarrow> 'w
      \<Rightarrow> (socket \<times> event_frame) list \<Rightarrow> audit_entry list \<Rightarrow> 'w \<Rightarrow> bool"
  for env h userId where
  fan_out_done: "fan_out env h userId [] w [] [] w"
| fan_out_one: "carried_out env h userId p w sends entry w1 \<Longrightarrow> fan_out env h userId ps w1 rest entries w2
    \<Longrightarrow> fan_out env h userId (p # ps) w (sends @ rest) (entry # entries) w2"

inductive_cases fan_out_NilE: "fan_out env h userId [] w sends entries w'"
inductive_cases fan_out_ConsE: "fan_out env h userId (p # ps) w sends entries w'"

definition attemptable :: "(socket \<Rightarrow> bool) \<Rightarrow> event_hub \<Rightarrow> force_close_client \<times> force_close_activity \<Rightarrow> bool" where
  "attemptable is_open h p \<longleftrightarrow> takes_close is_open h (fc_clientId (fst p)) \<or> fa_matcher (snd p) \<noteq> []"

lemma close_sockets_takers:
  assumes "hub_ok h"
  shows "close_sockets is_open h c \<noteq> [] \<longleftrightarrow> takes_close is_open h c"
proof (cases "map_of (hub_byClient h) c")
  case None
  then show ?thesis by (simp add: close_sockets_def hub_connections_def takes_close_def hub_lookup_def)
next
  case (Some conns)
  then have "distinct (map fst conns)" using hub_conns_ok [OF assms] by (simp add: conns_ok_def)
  then have "(s, caps) \<in> set conns \<longleftrightarrow> hub_lookup h c s = Some caps" for s caps by (simp add: hub_lookup_def Some)
  then show ?thesis by (auto simp: close_sockets_def hub_connections_def Some takes_close_def filter_empty_conv)
qed

lemma publish_close_sends:
  "snd (publishToClient is_open t c (Force_Close u a) h) =
     map (\<lambda>s. (s, \<lparr>fr_seq = hub_seq h + 1, fr_at = t, fr_event = Force_Close u a\<rparr>)) (close_sockets is_open h c)"
  by (cases "map_of (hub_byClient h) c")
    (simp_all add: publishToClient_def close_sockets_def hub_connections_def hub_frame_def Let_def hub_write_def
      case_prod_unfold comp_def)

lemma closeOnClient_attempt:
  assumes "hub_ok (cw_hub cw)" and cw': "cw' = closeOnClient env u c a cw"
  shows "hub_byClient (cw_hub cw') = hub_byClient (cw_hub cw)"
    and "\<exists>sends entries. cw_sent cw' = cw_sent cw @ sends \<and> cw_audit cw' = cw_audit cw @ entries
        \<and> fan_out env (cw_hub cw) u (filter (attemptable (ce_open env) (cw_hub cw)) [(c, a)]) (cw_peer cw) sends entries (cw_peer cw')"
proof -
  let ?publish = "publishToClient (ce_open env) (ce_now env (cw_peer cw)) (fc_clientId c) (Force_Close u (fa_activityId a)) (cw_hub cw)"
  obtain hub sends where p: "?publish = (hub, sends)" by fastforce
  have hub: "hub_byClient hub = hub_byClient (cw_hub cw)" using publish_lookup(1) p by (metis fst_conv)
  have frames: "sends = map (\<lambda>s. (s, \<lparr>fr_seq = hub_seq (cw_hub cw) + 1, fr_at = ce_now env (cw_peer cw),
      fr_event = Force_Close u (fa_activityId a)\<rparr>)) (close_sockets (ce_open env) (cw_hub cw) (fc_clientId c))"
    using publish_close_sends p by (metis snd_conv)
  then have sent: "sends \<noteq> [] \<longleftrightarrow> takes_close (ce_open env) (cw_hub cw) (fc_clientId c)"
    using close_sockets_takers [OF assms(1)] by simp
  have argv: "buildPkillArgv (fc_osUserRef c) (fa_matcher a) (fa_matchType a) = None \<longleftrightarrow> fa_matcher a = []"
    by (auto simp: buildPkillArgv_def Let_def split: if_splits)
  show "hub_byClient (cw_hub cw') = hub_byClient (cw_hub cw)"
    by (simp add: cw' closeOnClient_def p hub forceCloseOverSsh_def Let_def split: option.split prod.split)
  consider (stream) "sends \<noteq> []" | (skipped) "sends = []" "fa_matcher a = []"
    | (ssh) argv where "sends = []" "buildPkillArgv (fc_osUserRef c) (fa_matcher a) (fa_matchType a) = Some argv"
    using argv by fastforce
  then show "\<exists>sends entries. cw_sent cw' = cw_sent cw @ sends \<and> cw_audit cw' = cw_audit cw @ entries
        \<and> fan_out env (cw_hub cw) u (filter (attemptable (ce_open env) (cw_hub cw)) [(c, a)]) (cw_peer cw) sends entries (cw_peer cw')"
  proof cases
    case stream
    with sent have takes: "takes_close (ce_open env) (cw_hub cw) (fc_clientId c)" by simp
    then have "carried_out env (cw_hub cw) u (c, a) (cw_peer cw) sends (event_entry c u (fa_activityId a)) (cw_peer cw)"
      using frames by (auto simp: carried_out_def)
    from fan_out_one [OF this fan_out_done] show ?thesis
      using takes stream by (auto simp: cw' closeOnClient_def p attemptable_def Let_def)
  next
    case skipped
    then show ?thesis using sent argv
      by (auto simp: cw' closeOnClient_def p attemptable_def forceCloseOverSsh_def Let_def intro: fan_out_done)
  next
    case (ssh argv')
    have takes: "\<not> takes_close (ce_open env) (cw_hub cw) (fc_clientId c)" and m: "fa_matcher a \<noteq> []"
      using ssh sent argv by auto
    obtain outcome w where run: "ce_exec env (fc_sshTarget c) argv' (cw_peer cw) = (outcome, w)" by fastforce
    have "carried_out env (cw_hub cw) u (c, a) (cw_peer cw) [] (pkill_entry c u argv'
        (case outcome of Inr r \<Rightarrow> fromResult r | Inl err \<Rightarrow> fromThrown err) (ce_now env w - ce_now env (cw_peer cw))) w"
      using takes ssh run by (auto simp: carried_out_def)
    from fan_out_one [OF this fan_out_done] show ?thesis
      using takes ssh m run by (auto simp: cw' closeOnClient_def p attemptable_def forceCloseOverSsh_def Let_def)
  qed
qed

lemma foldl_pairs:
  "foldl (\<lambda>w c. foldl (\<lambda>w a. f c a w) w as) w cs = foldl (\<lambda>w p. f (fst p) (snd p) w) w (concat (map (\<lambda>c. map (Pair c) as) cs))"
proof (induction cs arbitrary: w)
  case (Cons c cs)
  have "foldl (\<lambda>w p. f (fst p) (snd p) w) w (map (Pair c) as) = foldl (\<lambda>w a. f c a w) w as" for w
    by (induction as arbitrary: w) auto
  then show ?case using Cons by simp
qed simp

lemma same_takers:
  assumes "hub_byClient h = hub_byClient h'"
  shows "carried_out env h = carried_out env h'" "attemptable is_open h = attemptable is_open h'" "hub_ok h = hub_ok h'"
proof -
  have "close_sockets is_open h = close_sockets is_open h'" "takes_close is_open h = takes_close is_open h'" for is_open
    using assms by (simp_all add: fun_eq_iff close_sockets_def hub_connections_def takes_close_def hub_lookup_def)
  then show "carried_out env h = carried_out env h'" "attemptable is_open h = attemptable is_open h'"
    unfolding fun_eq_iff carried_out_def attemptable_def by simp_all
  show "hub_ok h = hub_ok h'" using assms by (simp add: hub_ok_def)
qed

lemma fan_out_same:
  assumes "hub_byClient h = hub_byClient h'" "fan_out env h u ps w sends entries w'"
  shows "fan_out env h' u ps w sends entries w'"
  using assms(2) by induction (auto simp: same_takers(1) [OF assms(1)] intro: fan_out.intros)

lemma fan_out_append:
  "fan_out env h u ps w sends entries w1 \<Longrightarrow> fan_out env h u qs w1 sends' entries' w2
    \<Longrightarrow> fan_out env h u (ps @ qs) w (sends @ sends') (entries @ entries') w2"
  by (induction rule: fan_out.induct) (auto intro: fan_out.intros)

definition close_all ::
    "'w close_env \<Rightarrow> int \<Rightarrow> 'w close_world \<Rightarrow> (force_close_client \<times> force_close_activity) list \<Rightarrow> 'w close_world" where
  "close_all env u = foldl (\<lambda>w p. closeOnClient env u (fst p) (snd p) w)"

lemma close_pairs:
  assumes "hub_ok (cw_hub cw)"
  shows "\<exists>sends entries. cw_sent (close_all env u cw ps) = cw_sent cw @ sends \<and> cw_audit (close_all env u cw ps) = cw_audit cw @ entries
    \<and> fan_out env (cw_hub cw) u (filter (attemptable (ce_open env) (cw_hub cw)) ps) (cw_peer cw) sends entries (cw_peer (close_all env u cw ps))"
  using assms
proof (induction ps arbitrary: cw)
  case Nil
  show ?case by (auto simp: close_all_def intro: fan_out_done)
next
  case (Cons p ps)
  let ?cw = "closeOnClient env u (fst p) (snd p) cw"
  have step: "close_all env u cw (p # ps) = close_all env u ?cw ps" by (simp add: close_all_def)
  have hub: "hub_byClient (cw_hub ?cw) = hub_byClient (cw_hub cw)" by (rule closeOnClient_attempt(1) [OF Cons.prems refl])
  note same = same_takers [OF hub]
  obtain ss es where one: "cw_sent ?cw = cw_sent cw @ ss" "cw_audit ?cw = cw_audit cw @ es"
      "fan_out env (cw_hub cw) u (filter (attemptable (ce_open env) (cw_hub cw)) [p]) (cw_peer cw) ss es (cw_peer ?cw)"
    using closeOnClient_attempt(2) [OF Cons.prems refl, of env u "fst p" "snd p"] by auto
  obtain ss' es' where rest: "cw_sent (close_all env u ?cw ps) = cw_sent ?cw @ ss'" "cw_audit (close_all env u ?cw ps) = cw_audit ?cw @ es'"
      "fan_out env (cw_hub ?cw) u (filter (attemptable (ce_open env) (cw_hub ?cw)) ps) (cw_peer ?cw) ss' es' (cw_peer (close_all env u ?cw ps))"
    using Cons.IH [of ?cw] Cons.prems same(3) by auto
  from fan_out_append [OF one(3) fan_out_same [OF hub rest(3)]]
  have "fan_out env (cw_hub cw) u (filter (attemptable (ce_open env) (cw_hub cw)) (p # ps)) (cw_peer cw) (ss @ ss') (es @ es')
      (cw_peer (close_all env u cw (p # ps)))"
    unfolding same(2) step filter_append [symmetric] append_Cons append_Nil .
  then show ?case using one(1,2) rest(1,2) by (intro exI [of _ "ss @ ss'"] exI [of _ "es @ es'"]) (simp add: step)
qed

text \<open>
  C11 When a stop is carried out, every closable app of its target is closed on every client of the user, client by
  client and app by app, each in the world the one before left. Where an open socket with the capability is
  registered, the close is written to exactly these sockets and nothing is run; otherwise the account-scoped
  \<open>pkill\<close> is run on the client's target, once. Each leaves one audit entry: of the event, or of that command with
  its outcome and its duration. Only an app without a matcher is skipped, on a client where no socket takes it.
\<close>

theorem stop_reaches_every_client:
  assumes "hub_ok (cw_hub cw)"
  shows "\<exists>sends entries.
       cw_sent (dispatch_close env credentials d userId decision cw) = cw_sent cw @ sends
     \<and> cw_audit (dispatch_close env credentials d userId decision cw) = cw_audit cw @ entries
     \<and> fan_out env (cw_hub cw) userId
          (filter (attemptable (ce_open env) (cw_hub cw))
            (List.product (clientsForUser credentials d userId) (resolveActivities (db_policy d) (ed_scope decision) (ed_targetId decision))))
          (cw_peer cw) sends entries (cw_peer (dispatch_close env credentials d userId decision cw))"
proof -
  let ?cs = "clientsForUser credentials d userId" and ?as = "resolveActivities (db_policy d) (ed_scope decision) (ed_targetId decision)"
  have "dispatch_close env credentials d userId decision cw =
      foldl (\<lambda>w p. closeOnClient env userId (fst p) (snd p) w) cw (concat (map (\<lambda>c. map (Pair c) ?as) ?cs))"
  proof (cases "?as = [] \<or> ?cs = []")
    case True
    then have none: "concat (map (\<lambda>c. map (Pair c) ?as) ?cs) = []" by auto
    show ?thesis unfolding none using True by (auto simp: dispatch_close_def Let_def)
  next
    case False
    then show ?thesis by (simp add: dispatch_close_def Let_def foldl_pairs)
  qed
  moreover have "List.product ?cs ?as = concat (map (\<lambda>c. map (Pair c) ?as) ?cs)" by (simp add: product_concat_map)
  ultimately show ?thesis using close_pairs [OF assms, of env userId "List.product ?cs ?as"] by (simp add: close_all_def)
qed

definition family_db :: db where
  "family_db = empty_db\<lparr>
     db_clients := [\<lparr>client_id = 1, client_hostname = ''pc1'', client_friendlyName = None, client_sshUser = ''pct-agent'',
       client_bearerTokenHash = None, client_lastSeen = None, client_sshTarget = None, client_lastTelemetryPullAt = None,
       client_agentVersion = None, client_versionsReportedAt = None, client_platform = Linux, client_updateRequired = False,
       client_lastVerifiedAt = None, client_lastVerifyReachable = None, client_lastVerifyReason = None, client_capabilities = None, client_reportedIps = None\<rparr>],
     db_links := [\<lparr>link_userId = 5, link_clientId = 1, link_osUsername = ''kid'', link_osUserRef = ''1000''\<rparr>],
     db_policy := played\<rparr>"

text \<open>A host that cannot be reached; its world counts the attempts.\<close>

definition dead_host :: "int close_env" where
  "dead_host = \<lparr>ce_open = (\<lambda>_. False), ce_now = (\<lambda>n. n), ce_exec = (\<lambda>_ _ n. (Inl (Unexpected ''x''), n + 1))\<rparr>"

lemma dead_host_simps [simp]:
  "ce_open dead_host s = False" "ce_now dead_host n = n" "ce_exec dead_host target argv n = (Inl (Unexpected ''x''), n + 1)"
  by (simp_all add: dead_host_def)

lemma stop_reaches_every_client_witness:
  "\<exists>argv. cw_audit (dispatch_close dead_host \<lparr>cr_privateKey = ''key'', cr_passphrase = None, cr_port = None\<rparr> family_db 5 stop_steam
      \<lparr>cw_hub = new_EventHub, cw_sent = [], cw_audit = [], cw_peer = 0\<rparr>) =
     [pkill_entry \<lparr>fc_clientId = 1, fc_osUserRef = ''1000'', fc_sshTarget = pc1\<rparr> 5 argv (fromThrown (Unexpected ''x'')) 1]
   \<and> cw_peer (dispatch_close dead_host \<lparr>cr_privateKey = ''key'', cr_passphrase = None, cr_port = None\<rparr> family_db 5 stop_steam
      \<lparr>cw_hub = new_EventHub, cw_sent = [], cw_audit = [], cw_peer = 0\<rparr>) = 1"
proof -
  let ?cr = "\<lparr>cr_privateKey = ''key'', cr_passphrase = None, cr_port = None\<rparr>"
  let ?cw = "\<lparr>cw_hub = new_EventHub, cw_sent = [], cw_audit = [], cw_peer = 0 :: int\<rparr>"
  have ok: "hub_ok (cw_hub ?cw)" by (simp add: hub_ok_def new_EventHub_def)
  have clients: "clientsForUser ?cr family_db 5 = [\<lparr>fc_clientId = 1, fc_osUserRef = ''1000'', fc_sshTarget = pc1\<rparr>]"
    by (simp add: clientsForUser_def family_db_def getClient_def dialTarget_def sshHostForClient_def pc1_def)
  have apps: "resolveActivities (db_policy family_db) Activity 7 = [\<lparr>fa_activityId = 7, fa_matcher = ''steam'', fa_matchType = Exact\<rparr>]"
    by (simp add: resolveActivities_def family_db_def played_def closable_def FORCE_CLOSABLE_KINDS_def)
  show ?thesis
    using stop_reaches_every_client [OF ok, of dead_host ?cr family_db 5 stop_steam]
    by (auto simp: clients apps stop_steam_def attemptable_def carried_out_def takes_close_def
        elim!: fan_out_ConsE fan_out_NilE) blast
qed

end
