(* ===== verification/Agent_Cadence.thy ===== *)
theory Agent_Cadence
  imports Event_Stream Complex_Main
begin

text \<open>
  The countdown of the per-user agent (\<open>src/client/agent\<close>): the warning cadence (\<open>cadence.ts\<close>), the cached
  budgets (\<open>budget.ts\<close>) and the orchestrator (\<open>agent.ts\<close>), whose effects are values of \<open>agent_action\<close>, in
  order. Seconds may be fractional: they are rationals until \<open>floor\<close>. The loop over the coarse
  boundaries is a \<open>function\<close> with its termination proof. The socket client and the timers that
  drive a tick are not modelled.
\<close>

section \<open>The cadence\<close>

definition SECONDS_PER_MINUTE :: int where "SECONDS_PER_MINUTE = 60"

definition COARSE_INTERVAL_MINUTES :: int where "COARSE_INTERVAL_MINUTES = 15"

definition MID_TIER_MINUTES :: int where "MID_TIER_MINUTES = 10"

definition FINE_TIER_MINUTES :: "int list" where "FINE_TIER_MINUTES = [5, 4, 3, 2, 1]"

datatype cadence_kind = Warning | Times_Up

record cadence_warning =
  wa_budgetKey :: string
  wa_budgetLabel :: string
  wa_kind :: cadence_kind
  wa_remainingSeconds :: int
  wa_thresholdSeconds :: int

definition whole_seconds :: "rat \<Rightarrow> int" where
  "whole_seconds s = max 0 \<lfloor>s\<rfloor>"

function coarse_minutes :: "int \<Rightarrow> int \<Rightarrow> int list" where
  "coarse_minutes secs m =
     (if m * SECONDS_PER_MINUTE < secs then m # coarse_minutes secs (m + COARSE_INTERVAL_MINUTES) else [])"
  by auto

termination
  by (relation "measure (\<lambda>(secs, m). nat (secs - m * 60))")
    (auto simp: SECONDS_PER_MINUTE_def COARSE_INTERVAL_MINUTES_def)

declare coarse_minutes.simps [simp del]

definition warningThresholdsSeconds :: "rat \<Rightarrow> int list" where
  "warningThresholdsSeconds totalSeconds =
     (let secs = whole_seconds totalSeconds;
          coarse = fold js_set_add (coarse_minutes secs COARSE_INTERVAL_MINUTES) [];
          minutes = fold js_set_add (filter (\<lambda>m. m * SECONDS_PER_MINUTE < secs) (MID_TIER_MINUTES # FINE_TIER_MINUTES)) coarse
      in sort_key (\<lambda>s. - s) (map (\<lambda>m. m * SECONDS_PER_MINUTE) minutes))"

record cadence_tracker =
  tr_budgetKey :: string
  tr_budgetLabel :: string
  tr_thresholds :: "int list"
  tr_lastAnnounced :: "int option"
  tr_finalAnnounced :: bool

text \<open>No announcement yet is infinity.\<close>

definition new_CadenceTracker :: "string \<Rightarrow> string \<Rightarrow> rat \<Rightarrow> cadence_tracker" where
  "new_CadenceTracker key label totalSeconds =
     \<lparr>tr_budgetKey = key, tr_budgetLabel = label, tr_thresholds = warningThresholdsSeconds totalSeconds,
      tr_lastAnnounced = None, tr_finalAnnounced = False\<rparr>"

definition cadence_warning_of :: "cadence_tracker \<Rightarrow> cadence_kind \<Rightarrow> int \<Rightarrow> int \<Rightarrow> cadence_warning" where
  "cadence_warning_of tr kind remaining threshold =
     \<lparr>wa_budgetKey = tr_budgetKey tr, wa_budgetLabel = tr_budgetLabel tr, wa_kind = kind,
      wa_remainingSeconds = remaining, wa_thresholdSeconds = threshold\<rparr>"

definition below_announced :: "cadence_tracker \<Rightarrow> int \<Rightarrow> bool" where
  "below_announced tr threshold \<longleftrightarrow> (case tr_lastAnnounced tr of None \<Rightarrow> True | Some a \<Rightarrow> threshold < a)"

definition observe :: "cadence_tracker \<Rightarrow> rat \<Rightarrow> cadence_tracker \<times> cadence_warning option" where
  "observe tr remainingSeconds =
     (let remaining = whole_seconds remainingSeconds in
      if remaining \<le> 0
      then if tr_finalAnnounced tr then (tr, None)
        else (tr\<lparr>tr_finalAnnounced := True, tr_lastAnnounced := Some 0\<rparr>, Some (cadence_warning_of tr Times_Up 0 0))
      else case foldl (\<lambda>deepest threshold.
             if below_announced tr threshold \<and> remaining \<le> threshold then Some threshold else deepest) None (tr_thresholds tr) of
          None \<Rightarrow> (tr, None)
        | Some deepest \<Rightarrow>
            (tr\<lparr>tr_lastAnnounced := Some deepest\<rparr>, Some (cadence_warning_of tr Warning remaining deepest)))"

record coalesced_warning =
  co_kind :: cadence_kind
  co_thresholdSeconds :: int
  co_budgets :: "(string \<times> string) list"
  co_message :: string

definition joinLabels :: "string list \<Rightarrow> string" where
  "joinLabels labels =
     (if length labels \<le> 1 then (case labels of [] \<Rightarrow> [] | l # _ \<Rightarrow> l)
      else if length labels = 2 then labels ! 0 @ '' and '' @ labels ! 1
      else js_join '', '' (butlast labels) @ '' and '' @ last labels)"

definition times_up_text :: string where
  "times_up_text = ''Time'' @ [CHR 0x27] @ ''s up '' @ [CHR 0xE2, CHR 0x80, CHR 0x94] @ '' save and quit! ''"

text \<open>\<open>Math.round\<close> rounds halves up.\<close>

definition js_round :: "rat \<Rightarrow> int" where
  "js_round x = \<lfloor>x + 1 / 2\<rfloor>"

definition formatCadenceMessage :: "cadence_kind \<Rightarrow> int \<Rightarrow> string list \<Rightarrow> string" where
  "formatCadenceMessage kind thresholdSeconds labels =
     (let subject = joinLabels labels; many = length labels > 1 in
      if kind = Times_Up then times_up_text @ subject @ '' '' @ (if many then ''are'' else ''is'') @ '' out of time.''
      else let minutes = js_round (of_int thresholdSeconds / of_int SECONDS_PER_MINUTE);
               unit = (if minutes = 1 then ''minute'' else ''minutes'')
           in subject @ '' '' @ (if many then ''have'' else ''has'') @ '' '' @ show_int minutes @ '' '' @ unit @ '' left.'')"

definition same_boundary :: "coalesced_warning \<Rightarrow> cadence_warning \<Rightarrow> bool" where
  "same_boundary g w \<longleftrightarrow> co_kind g = wa_kind w \<and> co_thresholdSeconds g = wa_thresholdSeconds w"

definition coalesce_add :: "coalesced_warning list \<Rightarrow> cadence_warning \<Rightarrow> coalesced_warning list" where
  "coalesce_add groups w =
     (if list_ex (\<lambda>g. same_boundary g w) groups
      then map (\<lambda>g. if same_boundary g w then g\<lparr>co_budgets := co_budgets g @ [(wa_budgetKey w, wa_budgetLabel w)]\<rparr> else g) groups
      else groups @ [\<lparr>co_kind = wa_kind w, co_thresholdSeconds = wa_thresholdSeconds w,
                      co_budgets = [(wa_budgetKey w, wa_budgetLabel w)], co_message = []\<rparr>])"

definition coalesceWarnings :: "cadence_warning list \<Rightarrow> coalesced_warning list" where
  "coalesceWarnings warnings =
     map (\<lambda>g. g\<lparr>co_message := formatCadenceMessage (co_kind g) (co_thresholdSeconds g) (map snd (co_budgets g))\<rparr>)
       (foldl coalesce_add [] warnings)"

section \<open>The cached budgets\<close>

definition OVERALL_BUDGET_KEY :: string where "OVERALL_BUDGET_KEY = ''overall''"

definition budgetKey :: "int option \<Rightarrow> string" where
  "budgetKey activityId = (case activityId of None \<Rightarrow> OVERALL_BUDGET_KEY | Some i \<Rightarrow> ''activity:'' @ show_int i)"

record cached_budget =
  cb_key :: string
  cb_label :: string
  cb_activityId :: "int option"
  cb_totalSeconds :: rat

definition remainingSeconds :: "rat \<Rightarrow> rat \<Rightarrow> int" where
  "remainingSeconds totalSeconds usedSeconds = max 0 (\<lfloor>totalSeconds\<rfloor> - \<lfloor>usedSeconds\<rfloor>)"

type_synonym budget_cache = "(string \<times> cached_budget) list"

definition cache_replace :: "cached_budget list \<Rightarrow> budget_cache" where
  "cache_replace budgets = foldl (\<lambda>m b. AList.update (cb_key b) b m) [] budgets"

definition cache_list :: "budget_cache \<Rightarrow> cached_budget list" where
  "cache_list m = map snd m"

definition cache_get :: "budget_cache \<Rightarrow> string \<Rightarrow> cached_budget option" where
  "cache_get m key = map_of m key"

definition applyGrant :: "budget_cache \<Rightarrow> int option \<Rightarrow> rat \<Rightarrow> budget_cache \<times> cached_budget option" where
  "applyGrant m activityId grantedSeconds =
     (let key = budgetKey activityId in
      case map_of m key of
        None \<Rightarrow> (m, None)
      | Some b \<Rightarrow>
          let updated = b\<lparr>cb_totalSeconds := cb_totalSeconds b + of_int (max 0 \<lfloor>grantedSeconds\<rfloor>)\<rparr>
          in (AList.update key updated m, Some updated))"

section \<open>The agent\<close>

datatype urgency = Low | Normal | Critical

datatype sound_event = Sound_Warning | Sound_Final_Warning | Sound_Times_Up | Sound_Grant

datatype agent_action =
    Notify string string urgency
  | Play sound_event
  | Begin_Close int string
  | Close_Now int string
  | Cancel_Close int string

record notification_prefs =
  pf_enabled :: bool
  pf_soundOff :: bool

record agent_state =
  ag_prefs :: notification_prefs
  ag_budgets :: budget_cache
  ag_trackers :: "(string \<times> cadence_tracker) list"

definition FINAL_WARNING_SECONDS :: int where "FINAL_WARNING_SECONDS = 60"

definition trackerFor :: "(string \<times> cadence_tracker) list \<Rightarrow> cached_budget \<Rightarrow> cadence_tracker" where
  "trackerFor trackers b =
     nullish (map_of trackers (cb_key b)) (new_CadenceTracker (cb_key b) (cb_label b) (cb_totalSeconds b))"

definition toast :: "notification_prefs \<Rightarrow> string \<Rightarrow> string \<Rightarrow> urgency \<Rightarrow> agent_action list" where
  "toast prefs title body urgency = (if pf_enabled prefs then [Notify title body urgency] else [])"

definition play_sound :: "notification_prefs \<Rightarrow> sound_event \<Rightarrow> agent_action list" where
  "play_sound prefs e = (if \<not> pf_enabled prefs \<or> pf_soundOff prefs then [] else [Play e])"

text \<open>\<open>/^activity:(\d+)$/\<close>\<close>

definition digits_value :: "string \<Rightarrow> int" where
  "digits_value s = foldl (\<lambda>n c. n * 10 + (of_char c - 48)) 0 s"

definition activityIdForKey :: "string \<Rightarrow> int option" where
  "activityIdForKey key =
     (if take 9 key = ''activity:'' \<and> drop 9 key \<noteq> [] \<and> list_all is_digit (drop 9 key)
      then Some (digits_value (drop 9 key)) else None)"

definition times_up_title :: string where "times_up_title = ''Time'' @ [CHR 0x27] @ ''s up''"

definition soundEventFor :: "coalesced_warning \<Rightarrow> sound_event" where
  "soundEventFor g =
     (if co_kind g = Times_Up then Sound_Times_Up
      else if co_thresholdSeconds g \<le> FINAL_WARNING_SECONDS then Sound_Final_Warning else Sound_Warning)"

definition begin_closes :: "(string \<times> string) list \<Rightarrow> agent_action list" where
  "begin_closes budgets =
     concat (map (\<lambda>(key, label). case activityIdForKey key of None \<Rightarrow> [] | Some i \<Rightarrow> [Begin_Close i label]) budgets)"

definition renderTimesUp :: "notification_prefs \<Rightarrow> coalesced_warning \<Rightarrow> agent_action list" where
  "renderTimesUp prefs g =
     (let overall = filter (\<lambda>b. activityIdForKey (fst b) = None) (co_budgets g) in
      begin_closes (co_budgets g)
      @ (if length overall > 0 \<and> pf_enabled prefs
         then Notify times_up_title (formatCadenceMessage Times_Up 0 (map snd overall)) Critical # play_sound prefs Sound_Times_Up
         else []))"

definition render_group :: "notification_prefs \<Rightarrow> coalesced_warning \<Rightarrow> agent_action list" where
  "render_group prefs g =
     (if co_kind g = Times_Up then renderTimesUp prefs g
      else if pf_enabled prefs
      then Notify ''Time remaining'' (co_message g) (if co_thresholdSeconds g \<le> FINAL_WARNING_SECONDS then Critical else Normal)
           # play_sound prefs (soundEventFor g)
      else [])"

definition tick_budget ::
    "(string \<times> rat) list \<Rightarrow> (string \<times> cadence_tracker) list \<times> cadence_warning list \<Rightarrow> cached_budget
      \<Rightarrow> (string \<times> cadence_tracker) list \<times> cadence_warning list" where
  "tick_budget usedByKey acc b =
     (case acc of (trackers, warnings) \<Rightarrow>
      let used = nullish (map_of usedByKey (cb_key b)) 0;
          (tr, w) = observe (trackerFor trackers b) (of_int (remainingSeconds (cb_totalSeconds b) used))
      in (AList.update (cb_key b) tr trackers, case w of None \<Rightarrow> warnings | Some v \<Rightarrow> warnings @ [v]))"

definition agent_tick :: "(string \<times> rat) list \<Rightarrow> agent_state \<Rightarrow> agent_state \<times> agent_action list" where
  "agent_tick usedByKey ag =
     (case foldl (tick_budget usedByKey) (ag_trackers ag, []) (cache_list (ag_budgets ag)) of
        (trackers, warnings) \<Rightarrow>
          (ag\<lparr>ag_trackers := trackers\<rparr>, concat (map (render_group (ag_prefs ag)) (coalesceWarnings warnings))))"

definition whole_minutes :: "rat \<Rightarrow> int" where
  "whole_minutes s = max 1 (js_round (s / 60))"

definition middle_dot :: string where "middle_dot = [CHR 0xC2, CHR 0xB7]"

definition em_dash :: string where "em_dash = [CHR 0xE2, CHR 0x80, CHR 0x94]"

definition onGrant :: "agent_state \<Rightarrow> int option \<Rightarrow> int \<Rightarrow> string \<Rightarrow> agent_state \<times> agent_action list" where
  "onGrant ag activityId grantedSeconds reason =
     (case applyGrant (ag_budgets ag) activityId (of_int grantedSeconds) of (budgets, updated) \<Rightarrow>
      let ag1 = ag\<lparr>ag_budgets := budgets\<rparr>;
          ag2 = (case updated of
              None \<Rightarrow> ag1
            | Some b \<Rightarrow> ag1\<lparr>ag_trackers :=
                AList.update (cb_key b) (new_CadenceTracker (cb_key b) (cb_label b) (cb_totalSeconds b)) (ag_trackers ag)\<rparr>);
          mins = CHR ''+'' # show_int (whole_minutes (of_int grantedSeconds))
      in (ag2,
          (case activityId of
             None \<Rightarrow> []
           | Some i \<Rightarrow> [Cancel_Close i (mins @ '' min '' @ em_dash @ '' keep going'')])
          @ toast (ag_prefs ag) ''More time!'' (mins @ '' min granted '' @ middle_dot @ '' '' @ reason) Normal
          @ play_sound (ag_prefs ag) Sound_Grant))"

definition out_of_time_text :: string where
  "out_of_time_text = ''You'' @ [CHR 0x27] @ ''re out of screen time for now.''"

fun onEvent :: "agent_state \<Rightarrow> server_event \<Rightarrow> agent_state \<times> agent_action list" where
  "onEvent ag (Grant_Applied _ seconds reason activityId) = onGrant ag activityId seconds reason"
| "onEvent ag (Policy_Changed _ summary) =
     (ag, case summary of None \<Rightarrow> [] | Some text \<Rightarrow> toast (ag_prefs ag) ''Limit updated'' text Normal)"
| "onEvent ag (Force_Close _ activityId) =
     (ag, [Close_Now activityId (nullish (map_option cb_label (cache_get (ag_budgets ag) (budgetKey (Some activityId)))) ''This app'')])"
| "onEvent ag (Session_Lock _) = (ag, toast (ag_prefs ag) times_up_title out_of_time_text Critical)"
| "onEvent ag (Lockout_Cleared _) = (ag, toast (ag_prefs ag) ''More time!'' ''You can log back in.'' Normal)"

section \<open>The boundaries\<close>

lemma coarse_minutes_set:
  "set (coarse_minutes secs m) = {m + 15 * int k | k. (m + 15 * int k) * 60 < secs}"
proof (induction secs m rule: coarse_minutes.induct)
  case (1 secs m)
  show ?case
  proof (cases "m * 60 < secs")
    case False
    then have "\<not> (m + 15 * int k) * 60 < secs" for k by simp
    then show ?thesis using False by (subst coarse_minutes.simps) (simp add: SECONDS_PER_MINUTE_def)
  next
    case True
    have shift: "{m + 15 * int k | k. (m + 15 * int k) * 60 < secs}
        = insert m {m + 15 + 15 * int k | k. (m + 15 + 15 * int k) * 60 < secs}" (is "?L = ?R")
    proof (intro set_eqI iffI)
      fix x assume "x \<in> ?L"
      then obtain k where k: "x = m + 15 * int k" "(m + 15 * int k) * 60 < secs" by blast
      then show "x \<in> ?R" by (cases k) (auto simp: algebra_simps)
    next
      fix x assume "x \<in> ?R"
      then consider "x = m" | k where "x = m + 15 + 15 * int k" "(m + 15 + 15 * int k) * 60 < secs" by blast
      then show "x \<in> ?L"
      proof cases
        case 1
        then show ?thesis using True by (auto intro: exI [of _ 0])
      next
        case 2
        then show ?thesis by (auto intro!: exI [of _ "Suc k"] simp: algebra_simps)
      qed
    qed
    have "set (coarse_minutes secs m) = insert m (set (coarse_minutes secs (m + 15)))"
      using True by (subst coarse_minutes.simps) (simp add: SECONDS_PER_MINUTE_def COARSE_INTERVAL_MINUTES_def)
    then show ?thesis using 1 True shift by (simp add: SECONDS_PER_MINUTE_def COARSE_INTERVAL_MINUTES_def)
  qed
qed


definition boundary :: "int \<Rightarrow> int \<Rightarrow> bool" where
  "boundary secs t \<longleftrightarrow> 0 < t \<and> t < secs \<and> (900 dvd t \<or> t \<in> {600, 300, 240, 180, 120, 60})"

definition warning_minutes :: "int \<Rightarrow> int list" where
  "warning_minutes secs = fold js_set_add (filter (\<lambda>m. m * SECONDS_PER_MINUTE < secs) (MID_TIER_MINUTES # FINE_TIER_MINUTES))
     (fold js_set_add (coarse_minutes secs COARSE_INTERVAL_MINUTES) [])"

lemma thresholds_sorted_minutes:
  "warningThresholdsSeconds s = sort_key (\<lambda>s. - s) (map (\<lambda>m. m * 60) (warning_minutes (whole_seconds s)))"
  by (simp add: warningThresholdsSeconds_def warning_minutes_def SECONDS_PER_MINUTE_def Let_def)

lemma warning_minutes_set: "(\<lambda>m. m * 60) ` set (warning_minutes secs) = {t. boundary secs t}"
proof (intro set_eqI iffI)
  fix t assume "t \<in> (\<lambda>m. m * 60) ` set (warning_minutes secs)"
  then obtain m where m: "t = m * 60" "m \<in> set (warning_minutes secs)" by blast
  then consider k where "m = 15 + 15 * int k" "(15 + 15 * int k) * 60 < secs" | "m \<in> {10, 5, 4, 3, 2, 1}" "m * 60 < secs"
    by (auto simp: warning_minutes_def coarse_minutes_set COARSE_INTERVAL_MINUTES_def SECONDS_PER_MINUTE_def
        MID_TIER_MINUTES_def FINE_TIER_MINUTES_def split: if_splits)
  then show "t \<in> {t. boundary secs t}"
  proof cases
    case 1
    then have "t = 900 * (1 + int k)" using m(1) by simp
    then show ?thesis using 1 m(1) by (simp add: boundary_def)
  qed (use m(1) in \<open>auto simp: boundary_def\<close>)
next
  fix t assume "t \<in> {t. boundary secs t}"
  then consider q where "t = 900 * q" "0 < t" "t < secs" | "t \<in> {600, 300, 240, 180, 120, 60}" "t < secs"
    by (auto simp: boundary_def elim: dvdE)
  then show "t \<in> (\<lambda>m. m * 60) ` set (warning_minutes secs)"
  proof cases
    case 1
    then have q: "15 * q = 15 + 15 * int (nat (q - 1))" by auto
    then have "15 * q \<in> set (warning_minutes secs)"
      using 1 by (auto simp: warning_minutes_def coarse_minutes_set COARSE_INTERVAL_MINUTES_def intro!: exI [of _ "nat (q - 1)"])
    then show ?thesis using 1(1) by (intro image_eqI [of _ _ "15 * q"]) simp_all
  next
    case 2
    then have "t div 60 \<in> set (warning_minutes secs)"
      by (auto simp: warning_minutes_def SECONDS_PER_MINUTE_def MID_TIER_MINUTES_def FINE_TIER_MINUTES_def)
    then show ?thesis using 2(1) by (intro image_eqI [of _ _ "t div 60"]) auto
  qed
qed

lemma thresholds_facts:
  "set (warningThresholdsSeconds s) = {t. boundary (whole_seconds s) t}"
  "sorted_wrt (\<lambda>a b. b < a) (warningThresholdsSeconds s)"
proof -
  show set: "set (warningThresholdsSeconds s) = {t. boundary (whole_seconds s) t}"
    by (simp add: thresholds_sorted_minutes warning_minutes_set)
  have "distinct (warning_minutes secs)" for secs
  proof -
    have "distinct (fold js_set_add xs ys) = distinct ys" for xs ys :: "int list" by (induction xs arbitrary: ys) simp_all
    then show ?thesis by (simp add: warning_minutes_def)
  qed
  then have "distinct (warningThresholdsSeconds s)"
    by (simp add: thresholds_sorted_minutes distinct_map inj_on_def)
  then have "distinct (map uminus (warningThresholdsSeconds s))" by (simp add: distinct_map inj_on_def)
  moreover have "sorted (map uminus (warningThresholdsSeconds s))"
    unfolding thresholds_sorted_minutes by (rule sorted_sort_key)
  ultimately have "sorted_wrt (<) (map uminus (warningThresholdsSeconds s))" by (simp add: strict_sorted_iff)
  then show "sorted_wrt (\<lambda>a b. b < a) (warningThresholdsSeconds s)" by (simp add: sorted_wrt_map)
qed

text \<open>
  The loop over the boundaries ends for every total, and yields, from the highest down and each
  once, exactly the quarter hours and the last 10, 5, 4, 3, 2 and 1 minutes strictly below the total.
\<close>

theorem warning_boundaries_exact:
  "sorted_wrt (\<lambda>a b. b < a) (warningThresholdsSeconds s) \<and>
   set (warningThresholdsSeconds s) =
     {t. 0 < t \<and> t < whole_seconds s \<and> (900 dvd t \<or> t \<in> {600, 300, 240, 180, 120, 60})}"
  using thresholds_facts [of s] by (auto simp: boundary_def)

section \<open>A tracker\<close>

text \<open>The deepest boundary a reading has reached, zero included.\<close>

definition depth :: "int list \<Rightarrow> rat \<Rightarrow> int option" where
  "depth thresholds r =
     (if whole_seconds r = 0 then Some 0
      else let ts = filter (\<lambda>t. whole_seconds r \<le> t) thresholds in if ts = [] then None else Some (last ts))"

definition observe_all :: "cadence_tracker \<Rightarrow> rat list \<Rightarrow> cadence_tracker" where
  "observe_all tr rs = foldl (\<lambda>tr r. fst (observe tr r)) tr rs"

lemma deepest_fold:
  "foldl (\<lambda>deepest t. if P t then Some t else deepest) d ts =
     (if filter P ts = [] then d else Some (last (filter P ts)))"
  by (induction ts rule: rev_induct) auto

lemma last_descending:
  "sorted_wrt (\<lambda>a b. b < a) xs \<Longrightarrow> x \<in> set xs \<Longrightarrow> last xs \<le> x" for xs :: "int list"
proof (induction xs)
  case (Cons y ys)
  show ?case
  proof (cases "ys = []")
    case False
    then have "last ys \<le> y" using Cons.prems(1) by (simp add: less_imp_le)
    then show ?thesis using Cons.IH Cons.prems False by (cases "x = y") simp_all
  qed (use Cons in simp)
qed simp

lemma filter_last: "xs \<noteq> [] \<Longrightarrow> P (last xs) \<Longrightarrow> filter P xs \<noteq> [] \<and> last (filter P xs) = last xs"
  by (induction xs rule: rev_induct) auto

lemma deepest_boundary:
  fixes r :: int
  assumes "sorted_wrt (\<lambda>a b. b < a) ts" and down: "\<And>x y. P y \<Longrightarrow> x \<le> y \<Longrightarrow> P x"
  shows "foldl (\<lambda>deepest t. if P t \<and> r \<le> t then Some t else deepest) None ts =
     (let xs = filter (\<lambda>t. r \<le> t) ts in if xs \<noteq> [] \<and> P (last xs) then Some (last xs) else None)"
proof -
  let ?xs = "filter (\<lambda>t. r \<le> t) ts"
  have sorted: "sorted_wrt (\<lambda>a b. b < a) ?xs" using assms(1) by (rule sorted_wrt_filter)
  have both: "filter (\<lambda>t. P t \<and> r \<le> t) ts = filter P ?xs" by (simp add: conj_commute)
  show ?thesis
  proof (cases "?xs = []")
    case True
    then show ?thesis unfolding deepest_fold both Let_def by simp
  next
    case False
    have "P (last ?xs) \<Longrightarrow> filter P ?xs \<noteq> [] \<and> last (filter P ?xs) = last ?xs" using filter_last False by blast
    moreover have "filter P ?xs = []" if "\<not> P (last ?xs)"
    proof -
      have "\<not> P x" if "x \<in> set ?xs" for x
        using down last_descending [OF sorted that] \<open>\<not> P (last ?xs)\<close> by blast
      then show ?thesis by (simp only: filter_empty_conv) blast
    qed
    ultimately show ?thesis unfolding deepest_fold both Let_def using False by auto
  qed
qed


definition announced :: "int list \<Rightarrow> rat list \<Rightarrow> int \<Rightarrow> bool" where
  "announced ts hs d \<longleftrightarrow> (\<exists>h \<in> set hs. \<exists>d'. depth ts h = Some d' \<and> d' \<le> d)"

lemma announced_mono: "announced ts hs a \<Longrightarrow> a \<le> b \<Longrightarrow> announced ts hs b"
  unfolding announced_def by (meson order_trans)

lemma depth_nonneg: "depth ts r = Some d \<Longrightarrow> 0 \<le> d"
proof -
  have "0 \<le> whole_seconds r" by (simp add: whole_seconds_def)
  moreover assume "depth ts r = Some d"
  ultimately show ?thesis
    using last_in_set [of "filter (\<lambda>t. whole_seconds r \<le> t) ts"] by (auto simp: depth_def Let_def split: if_splits)
qed

text \<open>The state of a tracker: what it has announced is what its readings reached.\<close>

definition tracks :: "cadence_tracker \<Rightarrow> string \<Rightarrow> string \<Rightarrow> int list \<Rightarrow> rat list \<Rightarrow> bool" where
  "tracks tr key label ts hs \<longleftrightarrow> tr_budgetKey tr = key \<and> tr_budgetLabel tr = label \<and> tr_thresholds tr = ts
     \<and> (tr_finalAnnounced tr \<longleftrightarrow> announced ts hs 0) \<and> (\<forall>d. below_announced tr d \<longleftrightarrow> \<not> announced ts hs d)"

lemma observe_tracks:
  fixes r :: rat
  assumes "tracks tr key label ts hs" "sorted_wrt (\<lambda>a b. b < a) ts" "\<forall>t \<in> set ts. 0 < t"
  defines "d \<equiv> depth ts r"
  shows "tracks (fst (observe tr r)) key label ts (hs @ [r]) \<and> snd (observe tr r) =
    (case d of None \<Rightarrow> None | Some n \<Rightarrow> if announced ts hs n then None
       else Some \<lparr>wa_budgetKey = key, wa_budgetLabel = label, wa_kind = (if n = 0 then Times_Up else Warning),
                  wa_remainingSeconds = whole_seconds r, wa_thresholdSeconds = n\<rparr>)"
proof -
  have hist: "announced ts (hs @ [r]) n \<longleftrightarrow> announced ts hs n \<or> (\<exists>d'. d = Some d' \<and> d' \<le> n)" for n
    by (auto simp: announced_def d_def)
  have neg: "\<not> announced ts hs n" if "n < 0" for n using that depth_nonneg by (fastforce simp: announced_def)
  have w: "0 \<le> whole_seconds r" by (simp add: whole_seconds_def)
  show ?thesis
  proof (cases "whole_seconds r = 0")
    case True
    then have d: "d = Some 0" by (simp add: d_def depth_def)
    show ?thesis
    proof (cases "announced ts hs 0")
      case final: True
      have "announced ts (hs @ [r]) n \<longleftrightarrow> announced ts hs n" for n
        unfolding hist d using final announced_mono [OF final] by auto
      then show ?thesis using assms(1) final True d by (simp add: observe_def tracks_def Let_def)
    next
      case False
      have "announced ts (hs @ [r]) n \<longleftrightarrow> 0 \<le> n" for n
        unfolding hist d using neg [of n] by (cases "n < 0") auto
      then show ?thesis using assms(1) False True d
        by (simp add: observe_def tracks_def Let_def below_announced_def cadence_warning_of_def not_le)
    qed
  next
    case False
    let ?xs = "filter (\<lambda>t. whole_seconds r \<le> t) ts"
    have down: "below_announced tr y \<Longrightarrow> x \<le> y \<Longrightarrow> below_announced tr x" for x y
      by (auto simp: below_announced_def split: option.splits)
    have fold: "foldl (\<lambda>deepest t. if below_announced tr t \<and> whole_seconds r \<le> t then Some t else deepest) None (tr_thresholds tr) =
        (if ?xs \<noteq> [] \<and> below_announced tr (last ?xs) then Some (last ?xs) else None)"
      using deepest_boundary [OF assms(2), of "below_announced tr" "whole_seconds r"] down assms(1) by (simp add: tracks_def Let_def)
    have d: "d = (if ?xs = [] then None else Some (last ?xs))" using False by (simp add: d_def depth_def Let_def)
    show ?thesis
    proof (cases "?xs \<noteq> [] \<and> below_announced tr (last ?xs)")
      case True
      then have pos: "last ?xs > 0" using last_in_set [of ?xs] w False by auto
      have fresh: "\<not> announced ts hs 0"
        using True pos announced_mono [of ts hs 0 "last ?xs"] assms(1) by (auto simp: tracks_def)
      have "announced ts (hs @ [r]) n \<longleftrightarrow> last ?xs \<le> n" for n
      proof -
        have "\<not> announced ts hs n" if "n < last ?xs" using True down [of "last ?xs" n] that assms(1) by (auto simp: tracks_def)
        then show ?thesis unfolding hist d using True by (cases "n < last ?xs") auto
      qed
      then show ?thesis using assms(1) True fold False pos d w fresh
        by (auto simp: observe_def tracks_def Let_def below_announced_def cadence_warning_of_def not_le)
    next
      case quiet: False
      then have old: "d = Some n \<Longrightarrow> announced ts hs n" for n using d assms(1) by (auto simp: tracks_def split: if_splits)
      have "announced ts (hs @ [r]) n \<longleftrightarrow> announced ts hs n" for n
        unfolding hist using old announced_mono by blast
      then show ?thesis using assms(1) quiet fold False old w
        by (auto simp: observe_def tracks_def Let_def split: option.split)
    qed
  qed
qed


lemma observe_all_tracks:
  "tracks (observe_all (new_CadenceTracker key label secs) hs) key label (warningThresholdsSeconds secs) hs"
proof (induction hs rule: rev_induct)
  case Nil
  show ?case by (simp add: observe_all_def tracks_def new_CadenceTracker_def announced_def below_announced_def)
next
  case (snoc r hs)
  have "\<forall>t \<in> set (warningThresholdsSeconds secs). 0 < t" by (simp add: thresholds_facts(1) boundary_def)
  from observe_tracks [OF snoc thresholds_facts(2) this, of r] show ?case by (simp add: observe_all_def)
qed

text \<open>
  After any readings, rising or falling, a reading is announced exactly when it has reached a
  boundary (zero the last) deeper than every one reached before, and then for the deepest boundary it
  has reached; so no boundary is announced twice and a jump skips the stale ones.
\<close>

theorem tracker_announces_new_depth:
  "snd (observe (observe_all (new_CadenceTracker key label secs) hs) r) =
    (case depth (warningThresholdsSeconds secs) r of
       None \<Rightarrow> None
     | Some d \<Rightarrow>
         if \<exists>h \<in> set hs. \<exists>d'. depth (warningThresholdsSeconds secs) h = Some d' \<and> d' \<le> d then None
         else Some \<lparr>wa_budgetKey = key, wa_budgetLabel = label, wa_kind = (if d = 0 then Times_Up else Warning),
                    wa_remainingSeconds = whole_seconds r, wa_thresholdSeconds = d\<rparr>)"
proof -
  have "\<forall>t \<in> set (warningThresholdsSeconds secs). 0 < t" by (simp add: thresholds_facts(1) boundary_def)
  from observe_tracks [OF observe_all_tracks thresholds_facts(2) this, of key label hs r] show ?thesis
    by (simp add: announced_def split: option.split)
qed

section \<open>Coalescing\<close>

definition group_holds :: "cadence_warning list \<Rightarrow> coalesced_warning \<Rightarrow> bool" where
  "group_holds ws g \<longleftrightarrow> co_budgets g = map (\<lambda>w. (wa_budgetKey w, wa_budgetLabel w)) (filter (same_boundary g) ws) \<and> co_budgets g \<noteq> []"

definition boundary_of :: "coalesced_warning \<Rightarrow> cadence_kind \<times> int" where
  "boundary_of g = (co_kind g, co_thresholdSeconds g)"

lemma same_boundary_of: "same_boundary g w \<longleftrightarrow> boundary_of g = (wa_kind w, wa_thresholdSeconds w)"
  by (auto simp: same_boundary_def boundary_of_def)

lemma coalesce_fold:
  "distinct (map boundary_of (foldl coalesce_add [] ws)) \<and> list_all (group_holds ws) (foldl coalesce_add [] ws)
   \<and> boundary_of ` set (foldl coalesce_add [] ws) = (\<lambda>w. (wa_kind w, wa_thresholdSeconds w)) ` set ws"
proof (induction ws rule: rev_induct)
  case (snoc w ws)
  let ?gs = "foldl coalesce_add [] ws"
  let ?push = "\<lambda>g. if same_boundary g w then g\<lparr>co_budgets := co_budgets g @ [(wa_budgetKey w, wa_budgetLabel w)]\<rparr> else g"
  have push: "boundary_of (?push g) = boundary_of g" "same_boundary (?push g) = same_boundary g" for g
    by (simp_all add: boundary_of_def same_boundary_def fun_eq_iff)
  have same: "same_boundary (g\<lparr>co_budgets := bs\<rparr>) = same_boundary g" for g bs by (simp add: same_boundary_def fun_eq_iff)
  have grown: "group_holds (ws @ [w]) (?push g)" if "group_holds ws g" for g
    using that by (cases "same_boundary g w") (auto simp: group_holds_def same)
  show ?case
  proof (cases "list_ex (\<lambda>g. same_boundary g w) ?gs")
    case True
    then have eq: "foldl coalesce_add [] (ws @ [w]) = map ?push ?gs" by (simp add: coalesce_add_def)
    have keys: "map boundary_of (map ?push ?gs) = map boundary_of ?gs" using push(1) by simp
    moreover have "boundary_of ` set (map ?push ?gs) = boundary_of ` set ?gs"
      unfolding set_map [symmetric, of boundary_of] keys ..
    moreover have "(wa_kind w, wa_thresholdSeconds w) \<in> boundary_of ` set ?gs"
      using True by (auto simp: list_ex_iff same_boundary_of intro: rev_image_eqI)
    moreover have "list_all (group_holds (ws @ [w])) (map ?push ?gs)"
      using snoc.IH grown unfolding list_all_iff set_map by blast
    ultimately have "distinct (map boundary_of (map ?push ?gs)) \<and> list_all (group_holds (ws @ [w])) (map ?push ?gs)
        \<and> boundary_of ` set (map ?push ?gs) = insert (wa_kind w, wa_thresholdSeconds w) ((\<lambda>w. (wa_kind w, wa_thresholdSeconds w)) ` set ws)"
      using snoc.IH by (metis insert_absorb)
    then show ?thesis unfolding eq by (simp only: set_append list.set image_Un image_insert image_empty Un_insert_right Un_empty_right)
  next
    case False
    let ?g = "\<lparr>co_kind = wa_kind w, co_thresholdSeconds = wa_thresholdSeconds w,
        co_budgets = [(wa_budgetKey w, wa_budgetLabel w)], co_message = []\<rparr>"
    have eq: "foldl coalesce_add [] (ws @ [w]) = ?gs @ [?g]" using False by (simp add: coalesce_add_def)
    have fresh: "boundary_of ?g \<notin> boundary_of ` set ?gs" using False by (auto simp: list_ex_iff same_boundary_of boundary_of_def)
    then have "boundary_of ?g \<notin> (\<lambda>w. (wa_kind w, wa_thresholdSeconds w)) ` set ws" using snoc.IH by simp
    then have none: "filter (same_boundary ?g) ws = []" by (auto simp: filter_empty_conv same_boundary_of)
    have "list_all (group_holds (ws @ [w])) ?gs"
      using snoc.IH False by (auto simp: list_all_iff list_ex_iff group_holds_def)
    moreover have "group_holds (ws @ [w]) ?g" using none by (simp add: group_holds_def same_boundary_def)
    moreover have "boundary_of ?g = (wa_kind w, wa_thresholdSeconds w)" by (simp add: boundary_of_def)
    ultimately show ?thesis unfolding eq using snoc.IH fresh by simp
  qed
qed simp


text \<open>
  The warnings of a tick are coalesced without loss: there is one toast for each kind and boundary
  that was crossed, and it names exactly the budgets that crossed it, in their order.
\<close>

theorem coalesced_warnings_partition:
  "distinct (map boundary_of (coalesceWarnings ws))
   \<and> set (map boundary_of (coalesceWarnings ws)) = set (map (\<lambda>w. (wa_kind w, wa_thresholdSeconds w)) ws)
   \<and> list_all (\<lambda>g. co_budgets g = map (\<lambda>w. (wa_budgetKey w, wa_budgetLabel w)) (filter (same_boundary g) ws)
        \<and> co_message g = formatCadenceMessage (co_kind g) (co_thresholdSeconds g) (map snd (co_budgets g))) (coalesceWarnings ws)"
proof -
  let ?msg = "\<lambda>g. g\<lparr>co_message := formatCadenceMessage (co_kind g) (co_thresholdSeconds g) (map snd (co_budgets g))\<rparr>"
  have same: "boundary_of (?msg g) = boundary_of g" "same_boundary (?msg g) = same_boundary g" for g
    by (simp_all add: boundary_of_def same_boundary_def fun_eq_iff)
  have "map boundary_of (coalesceWarnings ws) = map boundary_of (foldl coalesce_add [] ws)"
    by (simp add: coalesceWarnings_def boundary_of_def)
  moreover have budgets: "co_budgets (?msg g) = map (\<lambda>w. (wa_budgetKey w, wa_budgetLabel w)) (filter (same_boundary (?msg g)) ws)"
    if "g \<in> set (foldl coalesce_add [] ws)" for g
    using coalesce_fold [of ws] that unfolding same(2) by (simp add: list_all_iff group_holds_def)
  moreover from budgets have "list_all (\<lambda>g. co_budgets g = map (\<lambda>w. (wa_budgetKey w, wa_budgetLabel w)) (filter (same_boundary g) ws)
      \<and> co_message g = formatCadenceMessage (co_kind g) (co_thresholdSeconds g) (map snd (co_budgets g))) (coalesceWarnings ws)"
    by (simp add: coalesceWarnings_def list_all_iff)
  ultimately show ?thesis using coalesce_fold [of ws] by (simp only: set_map simp_thms)
qed

section \<open>Enforcement does not depend on the preferences\<close>

fun enforces :: "agent_action \<Rightarrow> bool" where
  "enforces (Begin_Close _ _) = True"
| "enforces (Close_Now _ _) = True"
| "enforces (Cancel_Close _ _) = True"
| "enforces (Notify _ _ _) = False"
| "enforces (Play _) = False"

datatype agent_input = Tick "(string \<times> rat) list" | Event server_event

definition agent_step :: "agent_state \<Rightarrow> agent_input \<Rightarrow> agent_state \<times> agent_action list" where
  "agent_step ag i = (case i of Tick used \<Rightarrow> agent_tick used ag | Event e \<Rightarrow> onEvent ag e)"

definition agent_run :: "agent_state \<Rightarrow> agent_input list \<Rightarrow> agent_state \<times> agent_action list" where
  "agent_run ag is = foldl (\<lambda>acc i. case acc of (ag, out) \<Rightarrow> (case agent_step ag i of (ag', out') \<Rightarrow> (ag', out @ out'))) (ag, []) is"

lemma quiet_actions [simp]:
  "filter enforces (toast prefs t b u) = []" "filter enforces (play_sound prefs e) = []"
  by (simp_all add: toast_def play_sound_def)

lemma render_enforces: "filter enforces (render_group prefs g) = filter enforces (render_group prefs' g)"
  by (simp add: render_group_def renderTimesUp_def Let_def)

lemma render_all_enforces:
  "filter enforces (concat (map (render_group prefs) gs)) = filter enforces (concat (map (render_group prefs') gs))"
  by (induction gs) (use render_enforces in \<open>auto simp: filter_append\<close>)

lemma agent_step_prefs:
  "fst (agent_step (ag\<lparr>ag_prefs := p\<rparr>) i) = (fst (agent_step ag i))\<lparr>ag_prefs := p\<rparr>
   \<and> filter enforces (snd (agent_step (ag\<lparr>ag_prefs := p\<rparr>) i)) = filter enforces (snd (agent_step ag i))"
proof (cases i)
  case (Tick used)
  obtain trackers ws where "foldl (tick_budget used) (ag_trackers ag, []) (cache_list (ag_budgets ag)) = (trackers, ws)" by fastforce
  then show ?thesis using render_all_enforces [of p _ "ag_prefs ag"] by (simp add: Tick agent_step_def agent_tick_def)
next
  case (Event e)
  show ?thesis unfolding Event agent_step_def
    by (cases e) (auto simp: onGrant_def Let_def split: prod.split option.split)
qed

text \<open>
  Notifications off or sounds off change nothing of what is enforced: over any sequence of ticks and
  events, the force-closes the agent begins, orders and cancels are the same under any preferences, in
  the same order.
\<close>

theorem enforcement_ignores_preferences:
  "filter enforces (snd (agent_run (ag\<lparr>ag_prefs := p\<rparr>) is)) = filter enforces (snd (agent_run ag is))"
proof -
  have "fst (agent_run (ag\<lparr>ag_prefs := p\<rparr>) is) = (fst (agent_run ag is))\<lparr>ag_prefs := p\<rparr>
    \<and> filter enforces (snd (agent_run (ag\<lparr>ag_prefs := p\<rparr>) is)) = filter enforces (snd (agent_run ag is))"
  proof (induction "is" rule: rev_induct)
    case (snoc i "is")
    obtain a out where run: "agent_run ag is = (a, out)" by fastforce
    obtain a2 out2 where run2: "agent_run (ag\<lparr>ag_prefs := p\<rparr>) is = (a2, out2)" by fastforce
    from snoc have "a2 = a\<lparr>ag_prefs := p\<rparr>" "filter enforces out2 = filter enforces out" by (simp_all add: run run2)
    moreover have "agent_run ag (is @ [i]) = (fst (agent_step a i), out @ snd (agent_step a i))"
      "agent_run (ag\<lparr>ag_prefs := p\<rparr>) (is @ [i]) = (fst (agent_step a2 i), out2 @ snd (agent_step a2 i))"
      using run run2 by (simp_all add: agent_run_def case_prod_beta)
    ultimately show ?case using agent_step_prefs [where ag = a and p = p and i = i] by simp
  qed (simp add: agent_run_def)
  then show ?thesis ..
qed

end
