(* ===== verification/Agent_Force_Close.thy ===== *)
theory Agent_Force_Close
  imports Agent_Cadence
begin

text \<open>
  The force-close state machine of the agent (\<open>agent/force-close.ts\<close>). The controller is driven by its
  callers, by its timers and by the promises it awaits; each of them is an event, so that every
  interleaving is a list of events. A suspended call is an entry of \<open>fs_waiting\<close>, which an event of its
  number resumes: a toast that is shown, a sound that was played, the processes that were resolved,
  or a rejection, which ends the call. The countdown objects live in a store, since a suspended call
  holds on to its own after the map forgot it. A signal carries the activity it is sent for, as its
  log line does; a signaller that throws is not modelled.
\<close>

section \<open>The controller\<close>

type_synonym toast_handle = "int option"

record close_countdown =
  cd_activityId :: int
  cd_label :: string
  cd_remaining :: int
  cd_handle :: toast_handle
  cd_timer :: "nat option"
  cd_escalation :: "nat option"

datatype suspended_call =
    Await_Notify int string int
  | Await_Sound int string int toast_handle
  | Await_Pids int nat
  | Await_Update nat

datatype close_timer = Countdown_Timer int | Escalation_Timer int "int list"

datatype close_signal = Sigterm | Sigkill

datatype close_effect =
    Show_Toast string string urgency
  | Update_Toast toast_handle string string urgency
  | Play_Sound string
  | Send_Signal int int close_signal

record close_deps =
  dp_graceSeconds :: int
  dp_renderToasts :: bool
  dp_hasSoundPlayer :: bool

record close_state =
  fs_active :: "(int \<times> nat) list"
  fs_cells :: "close_countdown list"
  fs_waiting :: "(nat \<times> suspended_call) list"
  fs_timers :: "(nat \<times> close_timer) list"
  fs_next :: nat

datatype close_event =
    Begin_Call int string
  | Close_Now_Call int string
  | Cancel_Call int string
  | Stop_Call
  | Toast_Settled nat toast_handle
  | Sound_Played nat
  | Pids_Resolved nat "int list"
  | Await_Rejected nat
  | Timer_Due nat

definition new_ForceCloseController :: close_state where
  "new_ForceCloseController = \<lparr>fs_active = [], fs_cells = [], fs_waiting = [], fs_timers = [], fs_next = 0\<rparr>"

definition isCountingDown :: "close_state \<Rightarrow> int \<Rightarrow> bool" where
  "isCountingDown s a \<longleftrightarrow> map_of (fs_active s) a \<noteq> None"

definition soundNameForEvent :: "sound_event \<Rightarrow> string" where
  "soundNameForEvent e =
     (case e of Sound_Warning \<Rightarrow> ''message-new-instant'' | Sound_Final_Warning \<Rightarrow> ''dialog-warning''
      | Sound_Grant \<Rightarrow> ''complete'' | Sound_Times_Up \<Rightarrow> ''bell'')"

definition countdownBody :: "string \<Rightarrow> int \<Rightarrow> string" where
  "countdownBody label secondsLeft =
     (if secondsLeft \<le> 0 then label @ '' is out of time '' @ em_dash @ '' closing now.''
      else label @ '' is out of time. Save now '' @ em_dash @ '' closing in '' @ show_int secondsLeft @ '' ''
           @ (if secondsLeft = 1 then ''second'' else ''seconds'') @ ''.'')"

definition suspend :: "suspended_call \<Rightarrow> close_state \<Rightarrow> close_state" where
  "suspend c s = s\<lparr>fs_waiting := fs_waiting s @ [(fs_next s, c)], fs_next := fs_next s + 1\<rparr>"

definition arm :: "close_timer \<Rightarrow> close_state \<Rightarrow> close_state" where
  "arm t s = s\<lparr>fs_timers := fs_timers s @ [(fs_next s, t)], fs_next := fs_next s + 1\<rparr>"

definition cancel_timer :: "nat option \<Rightarrow> close_state \<Rightarrow> close_state" where
  "cancel_timer handle s = (case handle of None \<Rightarrow> s | Some n \<Rightarrow> s\<lparr>fs_timers := AList.delete n (fs_timers s)\<rparr>)"

definition clearTimers :: "close_countdown \<Rightarrow> close_state \<Rightarrow> close_state" where
  "clearTimers c s = cancel_timer (cd_escalation c) (cancel_timer (cd_timer c) s)"

definition notify_toast :: "close_deps \<Rightarrow> string \<Rightarrow> string \<Rightarrow> close_effect list" where
  "notify_toast dp title body = (if dp_renderToasts dp then [Show_Toast title body Critical] else [])"

definition update_toast :: "close_deps \<Rightarrow> toast_handle \<Rightarrow> string \<Rightarrow> string \<Rightarrow> urgency \<Rightarrow> close_effect list" where
  "update_toast dp h title body u = (if dp_renderToasts dp then [Update_Toast h title body u] else [])"

definition playTimesUp :: "close_deps \<Rightarrow> close_effect list" where
  "playTimesUp dp = (if dp_renderToasts dp \<and> dp_hasSoundPlayer dp then [Play_Sound (soundNameForEvent Sound_Times_Up)] else [])"

text \<open>A start runs to its first await, the toast.\<close>

definition start_close :: "close_deps \<Rightarrow> int \<Rightarrow> string \<Rightarrow> int \<Rightarrow> close_state \<Rightarrow> close_state \<times> close_effect list" where
  "start_close dp a label grace s =
     (if map_of (fs_active s) a \<noteq> None then (s, [])
      else (suspend (Await_Notify a label grace) s, notify_toast dp times_up_title (countdownBody label grace)))"

definition begin_close :: "close_deps \<Rightarrow> int \<Rightarrow> string \<Rightarrow> close_state \<Rightarrow> close_state \<times> close_effect list" where
  "begin_close dp a label = start_close dp a label (max 0 (dp_graceSeconds dp))"

definition forceCloseNow :: "close_deps \<Rightarrow> int \<Rightarrow> string \<Rightarrow> close_state \<Rightarrow> close_state \<times> close_effect list" where
  "forceCloseNow dp a label = start_close dp a label 0"

definition forceClose :: "int \<Rightarrow> close_state \<Rightarrow> close_state" where
  "forceClose a s = (case map_of (fs_active s) a of None \<Rightarrow> s | Some r \<Rightarrow> suspend (Await_Pids a r) s)"

text \<open>A start after its toast and its sound.\<close>

definition start_countdown :: "int \<Rightarrow> string \<Rightarrow> int \<Rightarrow> toast_handle \<Rightarrow> close_state \<Rightarrow> close_state" where
  "start_countdown a label grace handle s =
     (let r = length (fs_cells s);
          c = \<lparr>cd_activityId = a, cd_label = label, cd_remaining = grace, cd_handle = handle, cd_timer = None, cd_escalation = None\<rparr>;
          s1 = s\<lparr>fs_cells := fs_cells s @ [c], fs_active := AList.update a r (fs_active s)\<rparr>
      in if grace \<le> 0 then forceClose a s1
         else (arm (Countdown_Timer a) s1)\<lparr>fs_cells := fs_cells s @ [c\<lparr>cd_timer := Some (fs_next s)\<rparr>]\<rparr>)"

definition cancel_close :: "close_deps \<Rightarrow> int \<Rightarrow> string \<Rightarrow> close_state \<Rightarrow> close_state \<times> close_effect list" where
  "cancel_close dp a message s =
     (case map_of (fs_active s) a of
        None \<Rightarrow> (s, [])
      | Some r \<Rightarrow> ((clearTimers (fs_cells s ! r) s)\<lparr>fs_active := AList.delete a (fs_active s)\<rparr>,
                   update_toast dp (cd_handle (fs_cells s ! r)) ''More time!'' message Normal))"

definition stop_controller :: "close_state \<Rightarrow> close_state" where
  "stop_controller s = (fold (\<lambda>(a, r). clearTimers (fs_cells s ! r)) (fs_active s) s)\<lparr>fs_active := []\<rparr>"

definition close_tick :: "close_deps \<Rightarrow> int \<Rightarrow> close_state \<Rightarrow> close_state \<times> close_effect list" where
  "close_tick dp a s =
     (case map_of (fs_active s) a of
        None \<Rightarrow> (s, [])
      | Some r \<Rightarrow>
          let c = (fs_cells s ! r)\<lparr>cd_remaining := cd_remaining (fs_cells s ! r) - 1\<rparr> in
          if cd_remaining c > 0
          then (suspend (Await_Update r) (s\<lparr>fs_cells := (fs_cells s)[r := c]\<rparr>),
                update_toast dp (cd_handle c) times_up_title (countdownBody (cd_label c) (cd_remaining c)) Critical)
          else (forceClose a ((cancel_timer (cd_timer c) s)\<lparr>fs_cells := (fs_cells s)[r := c\<lparr>cd_timer := None\<rparr>]\<rparr>), []))"

definition signals_to :: "int \<Rightarrow> int list \<Rightarrow> close_signal \<Rightarrow> close_effect list" where
  "signals_to a pids sig = map (\<lambda>pid. Send_Signal a pid sig) pids"

definition pids_resolved :: "int \<Rightarrow> nat \<Rightarrow> int list \<Rightarrow> close_state \<Rightarrow> close_state \<times> close_effect list" where
  "pids_resolved a r pids s =
     (if pids = [] then (s\<lparr>fs_active := AList.delete a (fs_active s)\<rparr>, [])
      else ((arm (Escalation_Timer a pids) s)\<lparr>fs_cells := (fs_cells s)[r := (fs_cells s ! r)\<lparr>cd_escalation := Some (fs_next s)\<rparr>]\<rparr>,
            signals_to a pids Sigterm))"

definition timer_due :: "close_deps \<Rightarrow> nat \<Rightarrow> close_state \<Rightarrow> close_state \<times> close_effect list" where
  "timer_due dp n s =
     (case map_of (fs_timers s) n of
        None \<Rightarrow> (s, [])
      | Some (Countdown_Timer a) \<Rightarrow> close_tick dp a s
      | Some (Escalation_Timer a pids) \<Rightarrow>
          (s\<lparr>fs_timers := AList.delete n (fs_timers s), fs_active := AList.delete a (fs_active s)\<rparr>, signals_to a pids Sigkill))"

definition resumed :: "nat \<Rightarrow> close_state \<Rightarrow> close_state" where
  "resumed n s = s\<lparr>fs_waiting := AList.delete n (fs_waiting s)\<rparr>"

definition close_step :: "close_deps \<Rightarrow> close_state \<Rightarrow> close_event \<Rightarrow> close_state \<times> close_effect list" where
  "close_step dp s e =
     (case e of
        Begin_Call a label \<Rightarrow> begin_close dp a label s
      | Close_Now_Call a label \<Rightarrow> forceCloseNow dp a label s
      | Cancel_Call a message \<Rightarrow> cancel_close dp a message s
      | Stop_Call \<Rightarrow> (stop_controller s, [])
      | Toast_Settled n h \<Rightarrow>
          (case map_of (fs_waiting s) n of
             Some (Await_Notify a label grace) \<Rightarrow>
               (suspend (Await_Sound a label grace (if dp_renderToasts dp then h else None)) (resumed n s), playTimesUp dp)
           | Some (Await_Update r) \<Rightarrow>
               ((resumed n s)\<lparr>fs_cells := (fs_cells s)[r := (fs_cells s ! r)\<lparr>cd_handle :=
                   (if dp_renderToasts dp then h else cd_handle (fs_cells s ! r))\<rparr>]\<rparr>, [])
           | _ \<Rightarrow> (s, []))
      | Sound_Played n \<Rightarrow>
          (case map_of (fs_waiting s) n of
             Some (Await_Sound a label grace h) \<Rightarrow> (start_countdown a label grace h (resumed n s), [])
           | _ \<Rightarrow> (s, []))
      | Pids_Resolved n pids \<Rightarrow>
          (case map_of (fs_waiting s) n of
             Some (Await_Pids a r) \<Rightarrow> pids_resolved a r pids (resumed n s)
           | _ \<Rightarrow> (s, []))
      | Await_Rejected n \<Rightarrow> (resumed n s, [])
      | Timer_Due n \<Rightarrow> timer_due dp n s)"

fun close_run :: "close_deps \<Rightarrow> close_state \<Rightarrow> close_event list \<Rightarrow> close_state \<times> close_effect list" where
  "close_run dp s [] = (s, [])"
| "close_run dp s (e # es) =
     (let (s1, out1) = close_step dp s e; (s2, out2) = close_run dp s1 es in (s2, out1 @ out2))"

section \<open>A kill follows a termination request\<close>

lemma close_run_append:
  "close_run dp s (es @ fs) =
     (let (s1, out1) = close_run dp s es; (s2, out2) = close_run dp s1 fs in (s2, out1 @ out2))"
  by (induction es arbitrary: s) (auto simp: Let_def split: prod.splits)

definition escalates :: "close_state \<Rightarrow> int \<Rightarrow> int \<Rightarrow> bool" where
  "escalates s a pid \<longleftrightarrow> (\<exists>n pids. (n, Escalation_Timer a pids) \<in> set (fs_timers s) \<and> pid \<in> set pids)"

lemma delete_member [simp]: "x \<in> set (AList.delete k m) \<longleftrightarrow> x \<in> set m \<and> fst x \<noteq> k"
  by (auto simp: AList.delete_eq)

lemma output_split:
  "first @ rest = xs @ z # ys \<Longrightarrow> z \<in> set first \<or> (\<exists>zs. xs = first @ zs \<and> rest = zs @ z # ys)"
  by (auto simp: append_eq_append_conv2 Cons_eq_append_conv append_eq_Cons_conv)

lemma timers_cancel [simp]: "set (fs_timers (cancel_timer h s)) \<subseteq> set (fs_timers s)"
  by (auto simp: cancel_timer_def split: option.splits)

lemma timers_clear: "set (fs_timers (clearTimers c s)) \<subseteq> set (fs_timers s)"
  unfolding clearTimers_def using timers_cancel by blast

lemma timers_clear_all: "set (fs_timers (fold (\<lambda>(a, r). clearTimers (f r)) xs s)) \<subseteq> set (fs_timers s)"
proof (induction xs arbitrary: s)
  case (Cons x xs)
  then show ?case using timers_clear by (fastforce split: prod.splits)
qed simp

lemma timers_stop: "set (fs_timers (stop_controller s)) \<subseteq> set (fs_timers s)"
  unfolding stop_controller_def using timers_clear_all [of "\<lambda>r. fs_cells s ! r" "fs_active s" s] by simp

lemma timers_suspend [simp]: "fs_timers (suspend c s) = fs_timers s"
  by (simp add: suspend_def)

lemma timers_resumed [simp]: "fs_timers (resumed n s) = fs_timers s"
  by (simp add: resumed_def)

lemma timers_arm [simp]: "fs_timers (arm t s) = fs_timers s @ [(fs_next s, t)]"
  by (simp add: arm_def)

lemma timers_forceClose [simp]: "fs_timers (forceClose a s) = fs_timers s"
  by (simp add: forceClose_def split: option.splits)

lemma timers_tick: "set (fs_timers (fst (close_tick dp a s))) \<subseteq> set (fs_timers s)"
  using timers_cancel by (auto simp: close_tick_def Let_def split: option.splits)

lemma signals_in [simp]:
  "Send_Signal a pid sig \<in> set (signals_to b pids sig') \<longleftrightarrow> a = b \<and> sig = sig' \<and> pid \<in> set pids"
  by (auto simp: signals_to_def)

lemma no_signal_in [simp]:
  "Send_Signal a pid sig \<notin> set (notify_toast dp t b)" "Send_Signal a pid sig \<notin> set (update_toast dp h t b u)"
  "Send_Signal a pid sig \<notin> set (playTimesUp dp)" "Send_Signal a pid sig \<notin> set (snd (close_tick dp c s))"
  by (auto simp: notify_toast_def update_toast_def playTimesUp_def close_tick_def Let_def split: option.splits)

lemma escalates_step:
  assumes "escalates (fst (close_step dp s e)) a pid"
  shows "escalates s a pid \<or> Send_Signal a pid Sigterm \<in> set (snd (close_step dp s e))"
proof -
  have sub: "escalates s a pid" if "escalates s' a pid" "set (fs_timers s') \<subseteq> set (fs_timers s)" for s'
    using that by (auto simp: escalates_def)
  show ?thesis
  proof (cases e)
    case (Begin_Call b l)
    then show ?thesis using assms sub by (simp add: close_step_def begin_close_def start_close_def escalates_def split: if_splits)
  next
    case (Close_Now_Call b l)
    then show ?thesis using assms sub by (simp add: close_step_def forceCloseNow_def start_close_def escalates_def split: if_splits)
  next
    case (Cancel_Call b m)
    then have "set (fs_timers (fst (close_step dp s e))) \<subseteq> set (fs_timers s)"
      using timers_clear by (auto simp: close_step_def cancel_close_def split: option.splits)
    with assms sub show ?thesis by blast
  next
    case Stop_Call
    then show ?thesis using assms sub timers_stop by (auto simp: close_step_def)
  next
    case (Toast_Settled n h)
    then have "fs_timers (fst (close_step dp s e)) = fs_timers s"
      by (simp add: close_step_def split: option.splits suspended_call.splits)
    with assms sub show ?thesis by simp
  next
    case (Sound_Played n)
    have "escalates (start_countdown b l g h (resumed n s)) a pid \<Longrightarrow> escalates s a pid" for b l g h
      by (auto simp: start_countdown_def escalates_def Let_def split: if_splits)
    with Sound_Played assms show ?thesis by (auto simp: close_step_def split: option.splits suspended_call.splits)
  next
    case (Pids_Resolved n pids)
    have "escalates (fst (pids_resolved b r pids (resumed n s))) a pid \<Longrightarrow>
        escalates s a pid \<or> Send_Signal a pid Sigterm \<in> set (snd (pids_resolved b r pids (resumed n s)))" for b r
      by (auto simp: pids_resolved_def escalates_def split: if_splits)
    with Pids_Resolved assms show ?thesis by (auto simp: close_step_def split: option.splits suspended_call.splits)
  next
    case (Await_Rejected n)
    then show ?thesis using assms sub by (simp add: close_step_def)
  next
    case (Timer_Due n)
    then have "set (fs_timers (fst (close_step dp s e))) \<subseteq> set (fs_timers s)"
      using timers_tick by (auto simp: close_step_def timer_due_def split: option.splits close_timer.splits)
    with assms sub show ?thesis by blast
  qed
qed

lemma kill_escalates:
  assumes "Send_Signal a pid Sigkill \<in> set (snd (close_step dp s e))"
  shows "escalates s a pid"
  using assms
  by (auto simp: close_step_def begin_close_def forceCloseNow_def start_close_def cancel_close_def pids_resolved_def
      timer_due_def escalates_def split: close_event.splits option.splits suspended_call.splits close_timer.splits if_splits
      dest!: map_of_SomeD)

lemma kill_follows_term:
  assumes "snd (close_run dp s es) = xs @ Send_Signal a pid Sigkill # ys"
  shows "escalates s a pid \<or> Send_Signal a pid Sigterm \<in> set xs"
  using assms
proof (induction es arbitrary: s xs)
  case (Cons e es)
  let ?o = "snd (close_step dp s e)" and ?s = "fst (close_step dp s e)"
  have out: "?o @ snd (close_run dp ?s es) = xs @ Send_Signal a pid Sigkill # ys"
    using Cons.prems by (simp add: Let_def split: prod.splits)
  from output_split [OF this] show ?case
  proof
    assume "Send_Signal a pid Sigkill \<in> set ?o"
    then show ?thesis using kill_escalates by blast
  next
    assume "\<exists>zs. xs = ?o @ zs \<and> snd (close_run dp ?s es) = zs @ Send_Signal a pid Sigkill # ys"
    with Cons.IH [of ?s] escalates_step [of dp s e a pid] show ?thesis by auto
  qed
qed simp

text \<open>
  However calls, timers and promises interleave, a process is never killed outright: every SIGKILL
  was preceded by a SIGTERM to the same process for the same activity.
\<close>

theorem kill_after_term:
  assumes "snd (close_run dp new_ForceCloseController es) = xs @ Send_Signal a pid Sigkill # ys"
  shows "Send_Signal a pid Sigterm \<in> set xs"
  using kill_follows_term [OF assms] by (simp add: escalates_def new_ForceCloseController_def)

section \<open>One call or timer per activity\<close>

fun call_activity :: "suspended_call \<Rightarrow> int option" where
  "call_activity (Await_Notify a l g) = Some a"
| "call_activity (Await_Sound a l g h) = Some a"
| "call_activity (Await_Pids a r) = Some a"
| "call_activity (Await_Update r) = None"

fun timer_activity :: "close_timer \<Rightarrow> int" where
  "timer_activity (Countdown_Timer a) = a"
| "timer_activity (Escalation_Timer a pids) = a"

definition calls_of :: "close_state \<Rightarrow> int \<Rightarrow> (nat \<times> suspended_call) list" where
  "calls_of s a = filter (\<lambda>(n, c). call_activity c = Some a) (fs_waiting s)"

definition timers_of :: "close_state \<Rightarrow> int \<Rightarrow> (nat \<times> close_timer) list" where
  "timers_of s a = filter (\<lambda>(n, t). timer_activity t = a) (fs_timers s)"

definition countdown_of :: "close_state \<Rightarrow> int \<Rightarrow> (nat \<times> nat option \<times> nat option) option" where
  "countdown_of s a = map_option (\<lambda>r. (r, cd_timer (fs_cells s ! r), cd_escalation (fs_cells s ! r))) (map_of (fs_active s) a)"

text \<open>
  What is in flight for an activity: nothing, a start, a countdown, a resolution of its processes, an
  escalation, or, after a rejected resolution, a countdown that nothing moves any more.
\<close>

datatype close_phase = Idle | Starting | Counting nat nat | Resolving nat nat | Escalating nat nat | Stuck nat

definition in_phase :: "close_state \<Rightarrow> int \<Rightarrow> close_phase \<Rightarrow> bool" where
  "in_phase s a p \<longleftrightarrow>
     (case p of
        Idle \<Rightarrow> countdown_of s a = None \<and> calls_of s a = [] \<and> timers_of s a = []
      | Starting \<Rightarrow> countdown_of s a = None \<and> timers_of s a = []
          \<and> (\<exists>n l g h. calls_of s a = [(n, Await_Notify a l g)] \<or> calls_of s a = [(n, Await_Sound a l g h)])
      | Counting r n \<Rightarrow> countdown_of s a = Some (r, Some n, None) \<and> calls_of s a = [] \<and> timers_of s a = [(n, Countdown_Timer a)]
      | Resolving r n \<Rightarrow> countdown_of s a = Some (r, None, None) \<and> calls_of s a = [(n, Await_Pids a r)] \<and> timers_of s a = []
      | Escalating r n \<Rightarrow> countdown_of s a = Some (r, None, Some n) \<and> calls_of s a = []
          \<and> (\<exists>pids. timers_of s a = [(n, Escalation_Timer a pids)])
      | Stuck r \<Rightarrow> countdown_of s a = Some (r, None, None) \<and> calls_of s a = [] \<and> timers_of s a = [])"

definition resolving :: "close_state \<Rightarrow> int \<Rightarrow> bool" where
  "resolving s a \<longleftrightarrow> list_ex (\<lambda>(n, c). \<exists>r. c = Await_Pids a r) (calls_of s a)"

text \<open>
  A serial history: no start overlaps another start of its activity, and no cancellation or shutdown
  comes while the processes of the activity are being resolved.
\<close>

definition serial_event :: "close_state \<Rightarrow> close_event \<Rightarrow> bool" where
  "serial_event s e =
     (case e of
        Begin_Call a l \<Rightarrow> calls_of s a = []
      | Close_Now_Call a l \<Rightarrow> calls_of s a = []
      | Cancel_Call a m \<Rightarrow> \<not> resolving s a
      | Stop_Call \<Rightarrow> list_all (\<lambda>(a, r). \<not> resolving s a) (fs_active s)
      | _ \<Rightarrow> True)"

inductive serial_reach :: "close_deps \<Rightarrow> close_state \<Rightarrow> bool" for dp where
  serial_new: "serial_reach dp new_ForceCloseController"
| serial_more: "serial_reach dp s \<Longrightarrow> serial_event s e \<Longrightarrow> serial_reach dp (fst (close_step dp s e))"

definition numbered :: "close_state \<Rightarrow> bool" where
  "numbered s \<longleftrightarrow> distinct (map fst (fs_waiting s)) \<and> distinct (map fst (fs_timers s))
     \<and> (\<forall>x \<in> set (fs_waiting s). fst x < fs_next s) \<and> (\<forall>x \<in> set (fs_timers s). fst x < fs_next s)
     \<and> distinct (map fst (fs_active s)) \<and> distinct (map snd (fs_active s))
     \<and> (\<forall>x \<in> set (fs_active s). snd x < length (fs_cells s))"

definition close_ok :: "close_state \<Rightarrow> bool" where
  "close_ok s \<longleftrightarrow> numbered s \<and> (\<forall>a. \<exists>p. in_phase s a p)"

lemma resumed_sel [simp]:
  "fs_cells (resumed n s) = fs_cells s" "fs_active (resumed n s) = fs_active s" "fs_next (resumed n s) = fs_next s"
  by (simp_all add: resumed_def)

lemma calls_suspend: "calls_of (suspend c s) a = calls_of s a @ (if call_activity c = Some a then [(fs_next s, c)] else [])"
  by (simp add: calls_of_def suspend_def)

lemma timers_of_suspend [simp]: "timers_of (suspend c s) a = timers_of s a"
  by (simp add: timers_of_def)

lemma timers_of_arm: "timers_of (arm t s) a = timers_of s a @ (if timer_activity t = a then [(fs_next s, t)] else [])"
  by (simp add: timers_of_def)

lemma calls_of_arm [simp]: "calls_of (arm t s) a = calls_of s a"
  by (simp add: calls_of_def arm_def)

lemma filter_delete: "filter P (AList.delete k m) = AList.delete k (filter P m)"
  by (simp add: AList.delete_eq conj_commute)

lemma calls_resumed: "calls_of (resumed n s) a = AList.delete n (calls_of s a)"
  by (simp add: calls_of_def resumed_def filter_delete)

lemma delete_other: "(\<And>x. x \<in> set m \<Longrightarrow> fst x \<noteq> k) \<Longrightarrow> AList.delete k m = m"
  unfolding AList.delete_eq by (rule filter_True) force

lemma calls_resumed_other:
  assumes "numbered s" "map_of (fs_waiting s) n = Some c" "call_activity c \<noteq> Some a"
  shows "calls_of (resumed n s) a = calls_of s a"
proof -
  have "fst x \<noteq> n" if "x \<in> set (calls_of s a)" for x
  proof
    assume "fst x = n"
    with that have "(n, snd x) \<in> set (fs_waiting s)" "call_activity (snd x) = Some a" by (auto simp: calls_of_def)
    with assms show False by (auto simp: numbered_def)
  qed
  then show ?thesis unfolding calls_resumed by (rule delete_other)
qed

lemma calls_resumed_own:
  assumes "numbered s" "map_of (fs_waiting s) n = Some c" "call_activity c = Some a" "in_phase s a p"
  shows "calls_of s a = [(n, c)]" "calls_of (resumed n s) a = []"
proof -
  have "(n, c) \<in> set (calls_of s a)" using assms(2,3) by (auto simp: calls_of_def dest: map_of_SomeD)
  then show "calls_of s a = [(n, c)]" using assms(4) by (auto simp: in_phase_def split: close_phase.splits)
  then show "calls_of (resumed n s) a = []" by (simp add: calls_resumed AList.delete_eq)
qed

lemma timer_own:
  assumes "map_of (fs_timers s) n = Some t" "timer_activity t = a" "in_phase s a p"
  shows "timers_of s a = [(n, t)]"
proof -
  have "(n, t) \<in> set (timers_of s a)" using assms(1,2) by (auto simp: timers_of_def dest: map_of_SomeD)
  then show ?thesis using assms(3) by (auto simp: in_phase_def split: close_phase.splits)
qed

lemma timers_delete: "timers_of (s\<lparr>fs_timers := AList.delete n (fs_timers s)\<rparr>) a = AList.delete n (timers_of s a)"
  by (simp add: timers_of_def filter_delete)

lemma countdown_of_simps [simp]:
  "countdown_of (suspend c s) a = countdown_of s a" "countdown_of (resumed n s) a = countdown_of s a"
  "countdown_of (arm t s) a = countdown_of s a" "countdown_of (s\<lparr>fs_timers := ts\<rparr>) a = countdown_of s a"
  by (simp_all add: countdown_of_def suspend_def resumed_def arm_def)

lemma calls_of_simps [simp]:
  "calls_of (s\<lparr>fs_timers := ts\<rparr>) a = calls_of s a" "calls_of (s\<lparr>fs_active := m\<rparr>) a = calls_of s a"
  "calls_of (s\<lparr>fs_cells := cs\<rparr>) a = calls_of s a"
  by (simp_all add: calls_of_def)

lemma timers_of_simps [simp]:
  "timers_of (resumed n s) a = timers_of s a" "timers_of (s\<lparr>fs_active := m\<rparr>) a = timers_of s a"
  "timers_of (s\<lparr>fs_cells := cs\<rparr>) a = timers_of s a"
  by (simp_all add: timers_of_def)

definition same_view :: "close_state \<Rightarrow> close_state \<Rightarrow> int \<Rightarrow> bool" where
  "same_view s s' x \<longleftrightarrow> countdown_of s' x = countdown_of s x \<and> calls_of s' x = calls_of s x \<and> timers_of s' x = timers_of s x"

lemma same_view_phase: "same_view s s' x \<Longrightarrow> in_phase s' x p \<longleftrightarrow> in_phase s x p"
  by (simp add: same_view_def in_phase_def split: close_phase.splits)

lemma close_ok_intro:
  assumes "close_ok s" "numbered s'" "in_phase s' a p" "\<And>x. x \<noteq> a \<Longrightarrow> same_view s s' x"
  shows "close_ok s'"
  unfolding close_ok_def
proof (intro conjI allI)
  fix x
  show "\<exists>p. in_phase s' x p"
  proof (cases "x = a")
    case False
    then show ?thesis using assms(1) same_view_phase [OF assms(4)] by (auto simp: close_ok_def)
  qed (use assms(3) in blast)
qed (rule assms(2))

lemma numbered_suspend [simp]: "numbered s \<Longrightarrow> numbered (suspend c s)"
  by (auto simp: numbered_def suspend_def less_SucI)

lemma numbered_arm [simp]: "numbered s \<Longrightarrow> numbered (arm t s)"
  by (auto simp: numbered_def arm_def less_SucI)

lemma distinct_delete: "distinct (map f m) \<Longrightarrow> distinct (map f (AList.delete k m))"
  unfolding AList.delete_eq by (induction m) auto

lemma numbered_resumed [simp]: "numbered s \<Longrightarrow> numbered (resumed n s)"
  by (auto simp: numbered_def resumed_def distinct_delete)

lemma numbered_cells [simp]: "length cs = length (fs_cells s) \<Longrightarrow> numbered (s\<lparr>fs_cells := cs\<rparr>) \<longleftrightarrow> numbered s"
  by (simp add: numbered_def)

lemma numbered_timers [simp]: "numbered s \<Longrightarrow> numbered (s\<lparr>fs_timers := AList.delete n (fs_timers s)\<rparr>)"
  by (auto simp: numbered_def distinct_delete)

lemma numbered_cancel [simp]: "numbered s \<Longrightarrow> numbered (cancel_timer h s)"
  by (simp add: cancel_timer_def split: option.splits)

lemma numbered_clear [simp]: "numbered s \<Longrightarrow> numbered (clearTimers c s)"
  by (simp add: clearTimers_def)

lemma numbered_forget [simp]: "numbered s \<Longrightarrow> numbered (s\<lparr>fs_active := AList.delete a (fs_active s)\<rparr>)"
  by (auto simp: numbered_def distinct_delete)

lemma countdown_of_None [simp]: "countdown_of s a = None \<longleftrightarrow> map_of (fs_active s) a = None"
  by (simp add: countdown_of_def)

lemma countdown_of_forget [simp]:
  "countdown_of (s\<lparr>fs_active := AList.delete a (fs_active s)\<rparr>) x = (if x = a then None else countdown_of s x)"
  by (simp add: countdown_of_def AList.delete_conv')

lemma active_other:
  assumes "numbered s" "map_of (fs_active s) a = Some r" "map_of (fs_active s) x = Some r'" "x \<noteq> a"
  shows "r' \<noteq> r"
proof
  assume "r' = r"
  with assms have "(a, r) \<in> set (fs_active s)" "(x, r) \<in> set (fs_active s)" by (auto dest: map_of_SomeD)
  moreover have "inj_on snd (set (fs_active s))" using assms(1) by (simp add: numbered_def distinct_map)
  ultimately show False using assms(4) inj_onD [of snd "set (fs_active s)" "(a, r)" "(x, r)"] by simp
qed

lemma countdown_of_cell_other [simp]:
  assumes "numbered s" "map_of (fs_active s) a = Some r" "x \<noteq> a"
  shows "countdown_of (s\<lparr>fs_cells := (fs_cells s)[r := c]\<rparr>) x = countdown_of s x"
  using active_other [OF assms(1,2) _ assms(3)] by (cases "map_of (fs_active s) x") (simp_all add: countdown_of_def)

lemma active_bound: "numbered s \<Longrightarrow> map_of (fs_active s) a = Some r \<Longrightarrow> r < length (fs_cells s)"
  by (force simp: numbered_def dest: map_of_SomeD)

lemma countdown_of_cell_own:
  assumes "numbered s" "map_of (fs_active s) a = Some r"
  shows "countdown_of (s\<lparr>fs_cells := (fs_cells s)[r := c]\<rparr>) a = Some (r, cd_timer c, cd_escalation c)"
  using assms active_bound [OF assms] by (simp add: countdown_of_def)

lemma cancel_view:
  assumes "numbered s" "\<And>n t. h = Some n \<Longrightarrow> map_of (fs_timers s) n = Some t \<Longrightarrow> timer_activity t = a" "x \<noteq> a"
  shows "same_view s (cancel_timer h s) x"
proof (cases h)
  case (Some n)
  have "fst y \<noteq> n" if "y \<in> set (timers_of s x)" for y
  proof
    assume "fst y = n"
    with that have "(n, snd y) \<in> set (fs_timers s)" "timer_activity (snd y) = x" by (auto simp: timers_of_def)
    with assms(1) have "map_of (fs_timers s) n = Some (snd y)" "timer_activity (snd y) = x" by (auto simp: numbered_def)
    with assms(2,3) Some show False by auto
  qed
  with Some show ?thesis by (simp add: same_view_def cancel_timer_def timers_delete delete_other)
qed (simp add: same_view_def cancel_timer_def)

lemma in_phase_obtain:
  assumes "close_ok s"
  obtains p where "in_phase s a p"
  using assms by (auto simp: close_ok_def)

lemma close_ok_numbered: "close_ok s \<Longrightarrow> numbered s"
  by (simp add: close_ok_def)

lemma start_ok:
  assumes "close_ok s" "calls_of s a = []"
  shows "close_ok (fst (start_close dp a label grace s))"
proof (cases "map_of (fs_active s) a")
  case None
  from assms(1) obtain p where p: "in_phase s a p" by (rule in_phase_obtain)
  have "countdown_of s a = None" by (simp add: None)
  with p have "timers_of s a = []" by (cases p) (auto simp: in_phase_def)
  then have "in_phase (suspend (Await_Notify a label grace) s) a Starting"
    by (simp add: in_phase_def None calls_suspend assms(2))
  moreover have "same_view s (suspend (Await_Notify a label grace) s) x" if "x \<noteq> a" for x
    using that by (simp add: same_view_def calls_suspend)
  ultimately show ?thesis using None close_ok_numbered [OF assms(1)] assms(1)
    by (auto simp: start_close_def intro: close_ok_intro)
qed (simp add: start_close_def assms(1))

lemma update_keeps: "f c = f (cs ! r) \<Longrightarrow> f (cs[r := c] ! k) = f (cs ! k)"
  by (cases "k = r"; cases "r < length cs") (auto simp: list_update_beyond)

lemma toast_ok:
  assumes "close_ok s"
  shows "close_ok (fst (close_step dp s (Toast_Settled n h)))"
proof -
  note num = close_ok_numbered [OF assms]
  consider (start) a l g where "map_of (fs_waiting s) n = Some (Await_Notify a l g)"
    | (update) r where "map_of (fs_waiting s) n = Some (Await_Update r)"
    | (other) "fst (close_step dp s (Toast_Settled n h)) = s"
    by (cases "map_of (fs_waiting s) n"; cases "the (map_of (fs_waiting s) n)") (auto simp: close_step_def)
  then show ?thesis
  proof cases
    case start
    from assms obtain p where p: "in_phase s a p" by (rule in_phase_obtain)
    have own: "calls_of s a = [(n, Await_Notify a l g)]" "calls_of (resumed n s) a = []"
      using calls_resumed_own [OF num start _ p] by simp_all
    with p have "map_of (fs_active s) a = None" "timers_of s a = []" by (auto simp: in_phase_def split: close_phase.splits)
    then have "in_phase (fst (close_step dp s (Toast_Settled n h))) a Starting"
      by (simp add: close_step_def start in_phase_def calls_suspend own)
    moreover have "same_view s (fst (close_step dp s (Toast_Settled n h))) x" if "x \<noteq> a" for x
      using that calls_resumed_other [OF num start, of x] by (simp add: close_step_def start same_view_def calls_suspend)
    ultimately show ?thesis using num by (auto simp: close_step_def start intro: close_ok_intro [OF assms])
  next
    case update
    let ?s = "fst (close_step dp s (Toast_Settled n h))"
    have "same_view s ?s x" for x
    proof -
      have "countdown_of ?s x = countdown_of s x"
        by (cases "map_of (fs_active s) x") (simp_all add: close_step_def update countdown_of_def resumed_def
            update_keeps [where f = cd_timer] update_keeps [where f = cd_escalation])
      then show ?thesis using calls_resumed_other [OF num update, of x] by (simp add: same_view_def close_step_def update)
    qed
    moreover have "numbered ?s" using numbered_resumed [OF num, of n] by (simp add: close_step_def update numbered_def resumed_def)
    ultimately show ?thesis using assms same_view_phase unfolding close_ok_def by blast
  qed (simp add: assms)
qed

lemma forceClose_phase:
  assumes "map_of (fs_active s) a = Some r" "countdown_of s a = Some (r, None, None)" "calls_of s a = []" "timers_of s a = []"
  shows "in_phase (forceClose a s) a (Resolving r (fs_next s))"
  using assms by (simp add: forceClose_def in_phase_def calls_suspend)

lemma forceClose_view: "x \<noteq> a \<Longrightarrow> same_view s (forceClose a s) x"
  by (simp add: forceClose_def same_view_def calls_suspend split: option.split)

lemma numbered_forceClose [simp]: "numbered s \<Longrightarrow> numbered (forceClose a s)"
  by (simp add: forceClose_def split: option.split)

lemma same_view_trans: "same_view s t x \<Longrightarrow> same_view t u x \<Longrightarrow> same_view s u x"
  by (simp add: same_view_def)

lemma sound_ok:
  assumes "close_ok s" "map_of (fs_waiting s) n = Some (Await_Sound a l g h)"
  shows "close_ok (start_countdown a l g h (resumed n s))"
proof -
  note num = close_ok_numbered [OF assms(1)]
  let ?s = "resumed n s" and ?r = "length (fs_cells s)"
  from assms(1) obtain p where p: "in_phase s a p" by (rule in_phase_obtain)
  have own: "calls_of s a = [(n, Await_Sound a l g h)]" "calls_of ?s a = []"
    using calls_resumed_own [OF num assms(2) _ p] by simp_all
  with p have idle: "map_of (fs_active s) a = None" "timers_of s a = []" by (auto simp: in_phase_def split: close_phase.splits)
  have keys: "a \<notin> fst ` set (fs_active s)" using idle(1) by (simp add: map_of_eq_None_iff)
  let ?c = "\<lambda>t. \<lparr>cd_activityId = a, cd_label = l, cd_remaining = g, cd_handle = h, cd_timer = t, cd_escalation = None\<rparr>"
  let ?new = "\<lambda>t. ?s\<lparr>fs_cells := fs_cells s @ [?c t], fs_active := AList.update a ?r (fs_active s)\<rparr>"
  have new_num: "numbered (?new t)" for t
    using numbered_resumed [OF num, of n] keys by (auto simp: numbered_def update_absent resumed_def less_SucI)
  have new_own: "countdown_of (?new t) a = Some (?r, t, None)" "calls_of (?new t) a = []" "timers_of (?new t) a = []" for t
    using own idle by (simp_all add: countdown_of_def calls_of_def timers_of_def resumed_def)
  have new_other: "same_view s (?new t) x" if "x \<noteq> a" for x t
  proof -
    have "countdown_of (?new t) x = countdown_of s x"
      using that active_bound [OF num, of x] by (cases "map_of (fs_active s) x") (simp_all add: countdown_of_def nth_append)
    moreover have "calls_of (?new t) x = calls_of s x"
      using calls_resumed_other [OF num assms(2), of x] that by simp
    ultimately show ?thesis by (simp add: same_view_def)
  qed
  have cells: "fs_cells ?s = fs_cells s" "fs_active ?s = fs_active s" "fs_next ?s = fs_next s" by (simp_all add: resumed_def)
  show ?thesis
  proof (cases "g \<le> 0")
    case True
    have eq: "start_countdown a l g h ?s = forceClose a (?new None)" using True by (simp add: start_countdown_def cells Let_def)
    have "in_phase (forceClose a (?new None)) a (Resolving ?r (fs_next (?new None)))"
      by (rule forceClose_phase) (simp_all add: new_own del: calls_of_simps timers_of_simps)
    then show ?thesis unfolding eq
      by (intro close_ok_intro [OF assms(1)] numbered_forceClose new_num same_view_trans [OF new_other forceClose_view])
  next
    case False
    let ?t = "arm (Countdown_Timer a) (?new (Some (fs_next s)))"
    have eq: "start_countdown a l g h ?s = ?t" using False by (simp add: start_countdown_def cells Let_def arm_def)
    have "in_phase ?t a (Counting ?r (fs_next s))"
      by (simp add: in_phase_def new_own timers_of_arm cells del: calls_of_simps(2,3) timers_of_simps countdown_of_None)
    moreover have "same_view s ?t x" if "x \<noteq> a" for x
      using new_other [OF that, of "Some (fs_next s)"] that by (simp add: same_view_def timers_of_arm)
    ultimately show ?thesis unfolding eq using new_num by (intro close_ok_intro [OF assms(1)]) auto
  qed
qed

lemma countdown_of_Some: "countdown_of s a = Some (r, t, k) \<Longrightarrow> map_of (fs_active s) a = Some r"
  by (auto simp: countdown_of_def)

lemma pids_ok:
  assumes "close_ok s" "map_of (fs_waiting s) n = Some (Await_Pids a r)"
  shows "close_ok (fst (pids_resolved a r pids (resumed n s)))"
proof -
  note num = close_ok_numbered [OF assms(1)]
  let ?s = "resumed n s"
  from assms(1) obtain p where p: "in_phase s a p" by (rule in_phase_obtain)
  have own: "calls_of s a = [(n, Await_Pids a r)]" "calls_of ?s a = []"
    using calls_resumed_own [OF num assms(2) _ p] by simp_all
  with p have c: "countdown_of s a = Some (r, None, None)" "timers_of s a = []" by (auto simp: in_phase_def split: close_phase.splits)
  then have act: "map_of (fs_active s) a = Some r" by (simp add: countdown_of_Some)
  have other: "same_view s ?s x" if "x \<noteq> a" for x
    using calls_resumed_other [OF num assms(2), of x] that by (simp add: same_view_def)
  show ?thesis
  proof (cases "pids = []")
    case True
    have "in_phase (?s\<lparr>fs_active := AList.delete a (fs_active ?s)\<rparr>) a Idle" using own c by (simp add: in_phase_def AList.delete_conv')
    moreover have "same_view s (?s\<lparr>fs_active := AList.delete a (fs_active ?s)\<rparr>) x" if "x \<noteq> a" for x
      using other [OF that] that countdown_of_forget [of a "resumed n s" x] by (simp add: same_view_def)
    moreover have "numbered (?s\<lparr>fs_active := AList.delete a (fs_active ?s)\<rparr>)"
      by (rule numbered_forget [OF numbered_resumed [OF num]])
    ultimately have "close_ok (?s\<lparr>fs_active := AList.delete a (fs_active ?s)\<rparr>)" by (intro close_ok_intro [OF assms(1)])
    then show ?thesis using True by (simp add: pids_resolved_def)
  next
    case False
    let ?t = "arm (Escalation_Timer a pids) ?s"
    let ?u = "?t\<lparr>fs_cells := (fs_cells ?t)[r := (fs_cells s ! r)\<lparr>cd_escalation := Some (fs_next s)\<rparr>]\<rparr>"
    have eq: "fst (pids_resolved a r pids ?s) = ?u" using False by (simp add: pids_resolved_def arm_def resumed_def)
    have t: "numbered ?t" "map_of (fs_active ?t) a = Some r" using num act by (simp, simp add: arm_def resumed_def)
    have "cd_timer (fs_cells s ! r) = None" using c by (auto simp: countdown_of_def)
    then have "in_phase ?u a (Escalating r (fs_next s))"
      using countdown_of_cell_own [OF t] own c by (simp add: in_phase_def timers_of_arm)
    moreover have "same_view s ?u x" if "x \<noteq> a" for x
      using countdown_of_cell_other [OF t that] other [OF that] that by (simp add: same_view_def timers_of_arm)
    moreover have "numbered ?u" using t(1) by simp
    ultimately show ?thesis unfolding eq by (intro close_ok_intro [OF assms(1)])
  qed
qed

lemma tick_ok:
  assumes "close_ok s" "map_of (fs_timers s) n = Some (Countdown_Timer a)"
  shows "close_ok (fst (close_tick dp a s))"
proof -
  note num = close_ok_numbered [OF assms(1)]
  from assms(1) obtain p where p: "in_phase s a p" by (rule in_phase_obtain)
  have "timers_of s a = [(n, Countdown_Timer a)]" using timer_own [OF assms(2) _ p] by simp
  with p obtain r where c: "countdown_of s a = Some (r, Some n, None)" "calls_of s a = []" "timers_of s a = [(n, Countdown_Timer a)]"
    by (auto simp: in_phase_def split: close_phase.splits)
  then have act: "map_of (fs_active s) a = Some r" and cell: "cd_timer (fs_cells s ! r) = Some n" "cd_escalation (fs_cells s ! r) = None"
    by (auto simp: countdown_of_def)
  let ?c = "(fs_cells s ! r)\<lparr>cd_remaining := cd_remaining (fs_cells s ! r) - 1\<rparr>"
  show ?thesis
  proof (cases "cd_remaining ?c > 0")
    case True
    let ?t = "suspend (Await_Update r) (s\<lparr>fs_cells := (fs_cells s)[r := ?c]\<rparr>)"
    have "in_phase ?t a (Counting r n)" using c cell countdown_of_cell_own [OF num act] by (simp add: in_phase_def calls_suspend)
    moreover have "same_view s ?t x" if "x \<noteq> a" for x
      using countdown_of_cell_other [OF num act that] by (simp add: same_view_def calls_suspend)
    moreover have "numbered ?t" using num by simp
    ultimately show ?thesis using True by (simp add: close_tick_def act Let_def close_ok_intro [OF assms(1)])
  next
    case False
    let ?t = "cancel_timer (Some n) s"
    let ?u = "?t\<lparr>fs_cells := (fs_cells ?t)[r := ?c\<lparr>cd_timer := None\<rparr>]\<rparr>"
    have eq: "fst (close_tick dp a s) = forceClose a ?u" using False by (simp add: close_tick_def act cell Let_def cancel_timer_def)
    have t: "numbered ?t" "map_of (fs_active ?t) a = Some r" using num act by (simp_all add: cancel_timer_def)
    have gone: "timers_of ?t a = []" by (simp add: cancel_timer_def timers_delete c(3))
    have "calls_of ?t a = []" using c(2) by (simp add: cancel_timer_def)
    then have "in_phase (forceClose a ?u) a (Resolving r (fs_next ?u))"
      using t(2) gone cell countdown_of_cell_own [OF t] by (intro forceClose_phase) simp_all
    moreover have "same_view s ?u x" if "x \<noteq> a" for x
    proof -
      have "same_view s ?t x" by (rule cancel_view [OF num _ that]) (use assms(2) in simp)
      then show ?thesis using countdown_of_cell_other [OF t that] by (simp add: same_view_def)
    qed
    moreover have "numbered (forceClose a ?u)" using t(1) by simp
    ultimately show ?thesis unfolding eq
      by (intro close_ok_intro [OF assms(1)] same_view_trans [OF _ forceClose_view])
  qed
qed

lemma clear_phase:
  assumes "close_ok s" "map_of (fs_active s) a = Some r" "\<not> resolving s a"
  defines "t \<equiv> (clearTimers (fs_cells s ! r) s)\<lparr>fs_active := AList.delete a (fs_active s)\<rparr>"
  shows "in_phase t a Idle" "x \<noteq> a \<Longrightarrow> same_view s t x" "numbered t"
    and "x \<noteq> a \<Longrightarrow> map_of (fs_active t) x = map_of (fs_active s) x" "fs_cells t = fs_cells s"
proof -
  note num = close_ok_numbered [OF assms(1)]
  from assms(1) obtain p where p: "in_phase s a p" by (rule in_phase_obtain)
  have c: "countdown_of s a = Some (r, cd_timer (fs_cells s ! r), cd_escalation (fs_cells s ! r))"
    using assms(2) by (simp add: countdown_of_def)
  have calls: "calls_of s a = []" using p c assms(3) by (auto simp: in_phase_def resolving_def split: close_phase.splits)
  have clear: "fs_active (clearTimers d s) = fs_active s" "fs_cells (clearTimers d s) = fs_cells s" for d
    by (simp_all add: clearTimers_def cancel_timer_def split: option.split)
  have one: "\<exists>h. clearTimers (fs_cells s ! r) s = cancel_timer h s \<and> (case h of None \<Rightarrow> timers_of s a = []
        | Some n \<Rightarrow> \<exists>u. timers_of s a = [(n, u)])"
    using p c assms(3) calls
    by (intro exI [of _ "case p of Counting r n \<Rightarrow> Some n | Escalating r n \<Rightarrow> Some n | _ \<Rightarrow> None"], cases p)
      (auto simp: in_phase_def clearTimers_def cancel_timer_def)
  then obtain h where h: "clearTimers (fs_cells s ! r) s = cancel_timer h s"
    and own: "case h of None \<Rightarrow> timers_of s a = [] | Some n \<Rightarrow> \<exists>u. timers_of s a = [(n, u)]" by blast
  have t: "t = (cancel_timer h s)\<lparr>fs_active := AList.delete a (fs_active (cancel_timer h s))\<rparr>"
    using clear [of "fs_cells s ! r"] by (simp add: t_def h)
  have "timers_of (cancel_timer h s) a = []"
    using own by (cases h) (auto simp: cancel_timer_def timers_delete)
  moreover have "calls_of (cancel_timer h s) a = []" using calls by (simp add: cancel_timer_def split: option.split)
  ultimately show "in_phase t a Idle" by (simp add: t in_phase_def AList.delete_conv')
  show "numbered t" unfolding t using num by simp
  show "fs_cells t = fs_cells s" using clear by (simp add: t_def)
  show "map_of (fs_active t) x = map_of (fs_active s) x" if "x \<noteq> a" using that clear by (simp add: t_def AList.delete_conv')
  show "same_view s t x" if "x \<noteq> a"
  proof -
    have "same_view s (cancel_timer h s) x"
    proof (rule cancel_view [OF num _ that])
      fix n u assume "h = Some n" "map_of (fs_timers s) n = Some u"
      with own obtain v where "timers_of s a = [(n, v)]" by auto
      then have "(n, v) \<in> set (timers_of s a)" by simp
      then have "(n, v) \<in> set (fs_timers s)" "timer_activity v = a" by (auto simp: timers_of_def)
      with num \<open>map_of (fs_timers s) n = Some u\<close> show "timer_activity u = a" by (auto simp: numbered_def)
    qed
    then show ?thesis using that by (simp add: t same_view_def)
  qed
qed

lemma cancel_ok:
  assumes "close_ok s" "\<not> resolving s a"
  shows "close_ok (fst (cancel_close dp a m s))"
  using clear_phase [OF assms(1) _ assms(2)]
  by (auto simp: cancel_close_def assms(1) split: option.split intro: close_ok_intro [OF assms(1), where a = a])

lemma rejected_ok:
  assumes "close_ok s"
  shows "close_ok (resumed n s)"
proof -
  note num = close_ok_numbered [OF assms]
  have "\<exists>p. in_phase (resumed n s) a p" for a
  proof -
    from assms obtain p where p: "in_phase s a p" by (rule in_phase_obtain)
    have calls: "calls_of (resumed n s) a = AList.delete n (calls_of s a)" by (rule calls_resumed)
    show ?thesis
    proof (cases "n \<in> fst ` set (calls_of s a)")
      case False
      then have "calls_of (resumed n s) a = calls_of s a" unfolding calls by (intro delete_other) force
      with p show ?thesis using same_view_phase [of s "resumed n s" a p] by (auto simp: same_view_def)
    next
      case True
      then have "in_phase (resumed n s) a (if map_of (fs_active s) a = None then Idle else Stuck (the (map_of (fs_active s) a)))"
        using p calls by (cases p) (auto simp: in_phase_def AList.delete_eq dest: countdown_of_Some)
      then show ?thesis by blast
    qed
  qed
  then show ?thesis using num by (simp add: close_ok_def)
qed

lemma escalation_due_ok:
  assumes "close_ok s" "map_of (fs_timers s) n = Some (Escalation_Timer a pids)"
  shows "close_ok (s\<lparr>fs_timers := AList.delete n (fs_timers s), fs_active := AList.delete a (fs_active s)\<rparr>)"
proof -
  note num = close_ok_numbered [OF assms(1)]
  let ?t = "cancel_timer (Some n) s"
  let ?u = "?t\<lparr>fs_active := AList.delete a (fs_active ?t)\<rparr>"
  from assms(1) obtain p where p: "in_phase s a p" by (rule in_phase_obtain)
  have own: "timers_of s a = [(n, Escalation_Timer a pids)]" using timer_own [OF assms(2) _ p] by simp
  with p have "calls_of s a = []" by (auto simp: in_phase_def split: close_phase.splits)
  with own have "in_phase ?u a Idle" by (simp add: in_phase_def cancel_timer_def timers_delete AList.delete_conv')
  moreover have "same_view s ?u x" if "x \<noteq> a" for x
  proof -
    have "same_view s ?t x" by (rule cancel_view [OF num _ that]) (use assms(2) in simp)
    then show ?thesis using that countdown_of_forget [of a ?t x] by (simp add: same_view_def)
  qed
  moreover have "numbered ?u" using num by simp
  ultimately have "close_ok ?u" by (intro close_ok_intro [OF assms(1)])
  then show ?thesis by (simp add: cancel_timer_def)
qed

lemma close_step_ok:
  assumes "close_ok s" "serial_event s e" "e \<noteq> Stop_Call"
  shows "close_ok (fst (close_step dp s e))"
proof (cases e)
  case (Sound_Played n)
  then show ?thesis using assms(1) sound_ok [OF assms(1)]
    by (cases "map_of (fs_waiting s) n"; cases "the (map_of (fs_waiting s) n)") (auto simp: close_step_def)
next
  case (Pids_Resolved n pids)
  then show ?thesis using assms(1) pids_ok [OF assms(1)]
    by (cases "map_of (fs_waiting s) n"; cases "the (map_of (fs_waiting s) n)") (auto simp: close_step_def)
next
  case (Timer_Due n)
  then show ?thesis using assms(1) tick_ok [OF assms(1)] escalation_due_ok [OF assms(1)]
    by (auto simp: close_step_def timer_due_def split: option.split close_timer.split)
next
  case (Toast_Settled n h)
  then show ?thesis using toast_ok [OF assms(1)] by simp
qed (use assms start_ok cancel_ok rejected_ok in
    \<open>simp_all add: close_step_def serial_event_def begin_close_def forceCloseNow_def\<close>)

text \<open>A shutdown cancels its countdowns one by one.\<close>

definition drop_countdown :: "close_countdown list \<Rightarrow> int \<times> nat \<Rightarrow> close_state \<Rightarrow> close_state" where
  "drop_countdown cells x s = (clearTimers (cells ! snd x) s)\<lparr>fs_active := AList.delete (fst x) (fs_active s)\<rparr>"

lemma clearTimers_active: "clearTimers c (s\<lparr>fs_active := m\<rparr>) = (clearTimers c s)\<lparr>fs_active := m\<rparr>"
  by (simp add: clearTimers_def cancel_timer_def split: option.split)

lemma drop_countdowns:
  "(fold (drop_countdown cells) xs s)\<lparr>fs_active := []\<rparr> = (fold (\<lambda>x. clearTimers (cells ! snd x)) xs s)\<lparr>fs_active := []\<rparr>"
proof (induction xs arbitrary: s)
  case (Cons x xs)
  have "(fold (\<lambda>x. clearTimers (cells ! snd x)) xs (s\<lparr>fs_active := m\<rparr>))\<lparr>fs_active := []\<rparr>
      = (fold (\<lambda>x. clearTimers (cells ! snd x)) xs s)\<lparr>fs_active := []\<rparr>" for m and s :: close_state
    by (induction xs arbitrary: s m) (auto simp: clearTimers_active)
  with Cons show ?case by (simp add: drop_countdown_def)
qed simp

lemma drop_countdowns_ok:
  assumes "close_ok s" "fs_active s = xs" "fs_cells s = cells" "\<And>a r. (a, r) \<in> set xs \<Longrightarrow> \<not> resolving s a"
  shows "close_ok (fold (drop_countdown cells) xs s) \<and> fs_active (fold (drop_countdown cells) xs s) = []"
  using assms
proof (induction xs arbitrary: s)
  case (Cons x xs)
  obtain a r where x: "x = (a, r)" by (cases x)
  let ?t = "(clearTimers (fs_cells s ! r) s)\<lparr>fs_active := AList.delete a (fs_active s)\<rparr>"
  have a: "map_of (fs_active s) a = Some r" "\<not> resolving s a" using Cons.prems by (auto simp: x)
  note clear = clear_phase [OF Cons.prems(1) a]
  have ok: "close_ok ?t" by (rule close_ok_intro [OF Cons.prems(1) clear(3,1,2)])
  have keys: "a \<notin> fst ` set xs" using close_ok_numbered [OF Cons.prems(1)] Cons.prems(2) by (auto simp: numbered_def x)
  then have "AList.delete a xs = xs" by (intro delete_other) force
  then have active: "fs_active ?t = xs" using Cons.prems(2) by (simp add: x)
  have "\<not> resolving ?t b" if "(b, k) \<in> set xs" for b k
  proof -
    have "b \<noteq> a" using that keys by force
    from clear(2) [OF this] Cons.prems(4) [of b k] that show ?thesis by (simp add: same_view_def resolving_def)
  qed
  from Cons.IH [OF ok active _ this] clear(5) Cons.prems(3) show ?case by (simp add: drop_countdown_def x)
qed simp

lemma stop_ok:
  assumes "close_ok s" "serial_event s Stop_Call"
  shows "close_ok (stop_controller s)"
proof -
  have "\<not> resolving s a" if "(a, r) \<in> set (fs_active s)" for a r
    using assms(2) that by (auto simp: serial_event_def list_all_iff)
  from drop_countdowns_ok [OF assms(1) refl refl this]
  have ok: "close_ok (fold (drop_countdown (fs_cells s)) (fs_active s) s)"
    and none: "fs_active (fold (drop_countdown (fs_cells s)) (fs_active s) s) = []" by auto
  have "fold (drop_countdown (fs_cells s)) (fs_active s) s = (fold (drop_countdown (fs_cells s)) (fs_active s) s)\<lparr>fs_active := []\<rparr>"
    using none by (cases "fold (drop_countdown (fs_cells s)) (fs_active s) s") simp
  then have "stop_controller s = fold (drop_countdown (fs_cells s)) (fs_active s) s"
    using drop_countdowns [of "fs_cells s" "fs_active s" s] none by (simp add: stop_controller_def split_def)
  with ok show ?thesis by simp
qed

lemma serial_reach_ok: "serial_reach dp s \<Longrightarrow> close_ok s"
proof (induction rule: serial_reach.induct)
  case serial_new
  have "in_phase new_ForceCloseController a Idle" for a
    by (simp add: in_phase_def calls_of_def timers_of_def new_ForceCloseController_def)
  then show ?case by (auto simp: close_ok_def numbered_def new_ForceCloseController_def)
next
  case (serial_more s e)
  then show ?case using close_step_ok stop_ok by (cases "e = Stop_Call") (auto simp: close_step_def)
qed

section \<open>A cancellation spares the process\<close>

definition begins :: "int \<Rightarrow> close_event \<Rightarrow> bool" where
  "begins a e \<longleftrightarrow> (\<exists>l. e = Begin_Call a l \<or> e = Close_Now_Call a l)"

definition signalled :: "int \<Rightarrow> close_effect list \<Rightarrow> bool" where
  "signalled a out \<longleftrightarrow> (\<exists>pid sig. Send_Signal a pid sig \<in> set out)"

lemma idle_iff: "in_phase s a Idle \<longleftrightarrow> map_of (fs_active s) a = None \<and> calls_of s a = [] \<and> timers_of s a = []"
  by (simp add: in_phase_def)

lemma calls_member: "(n, c) \<in> set (fs_waiting s) \<Longrightarrow> calls_of s a = [] \<Longrightarrow> call_activity c \<noteq> Some a"
  by (auto simp: calls_of_def filter_empty_conv)

lemma timers_member: "(n, t) \<in> set (fs_timers s) \<Longrightarrow> timers_of s a = [] \<Longrightarrow> timer_activity t \<noteq> a"
  by (auto simp: timers_of_def filter_empty_conv)

lemma idle_clear: "in_phase s a Idle \<Longrightarrow> in_phase (clearTimers c s) a Idle"
  by (auto simp: idle_iff clearTimers_def cancel_timer_def timers_delete split: option.split)

lemma idle_clear_all: "in_phase s a Idle \<Longrightarrow> in_phase (fold (\<lambda>(b, r). clearTimers (cells ! r)) xs s) a Idle"
  by (induction xs arbitrary: s) (auto simp: idle_clear split: prod.splits)

lemma idle_forget: "in_phase s a Idle \<Longrightarrow> in_phase (s\<lparr>fs_active := AList.delete b (fs_active s)\<rparr>) a Idle"
  by (simp add: idle_iff AList.delete_conv')

lemma idle_suspend: "in_phase s a Idle \<Longrightarrow> call_activity c \<noteq> Some a \<Longrightarrow> in_phase (suspend c s) a Idle"
  by (simp add: idle_iff calls_suspend) (simp add: suspend_def)

lemma idle_resumed: "in_phase s a Idle \<Longrightarrow> in_phase (resumed n s) a Idle"
  by (simp add: idle_iff calls_resumed)

lemma idle_cells: "in_phase (s\<lparr>fs_cells := cs\<rparr>) a Idle \<longleftrightarrow> in_phase s a Idle"
  by (simp add: idle_iff)

lemma idle_arm: "in_phase s a Idle \<Longrightarrow> timer_activity t \<noteq> a \<Longrightarrow> in_phase (arm t s) a Idle"
  by (simp add: idle_iff timers_of_arm) (simp add: arm_def)

lemma idle_forceClose: "in_phase s a Idle \<Longrightarrow> b \<noteq> a \<Longrightarrow> in_phase (forceClose b s) a Idle"
  by (simp add: forceClose_def idle_suspend split: option.split)

lemma idle_start: "in_phase s a Idle \<Longrightarrow> b \<noteq> a \<Longrightarrow> in_phase (start_countdown b l g h s) a Idle"
proof -
  assume idle: "in_phase s a Idle" and b: "b \<noteq> a"
  have "in_phase (s\<lparr>fs_cells := cs, fs_active := AList.update b r (fs_active s)\<rparr>) a Idle" for cs r
    using idle b by (simp add: idle_iff)
  with b show ?thesis by (simp add: start_countdown_def idle_forceClose idle_cells idle_arm Let_def)
qed

lemma idle_step:
  assumes "in_phase s a Idle" "\<not> begins a e"
  shows "in_phase (fst (close_step dp s e)) a Idle \<and> \<not> signalled a (snd (close_step dp s e))"
proof (cases e)
  case (Begin_Call b l)
  then have "b \<noteq> a" using assms(2) by (auto simp: begins_def)
  then show ?thesis using assms(1) Begin_Call
    by (auto simp: close_step_def begin_close_def start_close_def signalled_def idle_suspend)
next
  case (Close_Now_Call b l)
  then have "b \<noteq> a" using assms(2) by (auto simp: begins_def)
  then show ?thesis using assms(1) Close_Now_Call
    by (auto simp: close_step_def forceCloseNow_def start_close_def signalled_def idle_suspend)
next
  case (Cancel_Call b m)
  have "fs_active (clearTimers c s) = fs_active s" for c by (simp add: clearTimers_def cancel_timer_def split: option.split)
  then have "in_phase ((clearTimers c s)\<lparr>fs_active := AList.delete b (fs_active s)\<rparr>) a Idle" for c
    using idle_forget [OF idle_clear [OF assms(1)], of b c] by simp
  with Cancel_Call assms(1) show ?thesis by (auto simp: close_step_def cancel_close_def signalled_def split: option.split)
next
  case Stop_Call
  then show ?thesis using idle_clear_all [OF assms(1), of "fs_cells s" "fs_active s"]
    by (simp add: close_step_def stop_controller_def signalled_def idle_iff)
next
  case (Toast_Settled n h)
  show ?thesis
  proof (cases "map_of (fs_waiting s) n")
    case (Some c)
    then have "call_activity c \<noteq> Some a" using calls_member assms(1) by (auto simp: idle_iff dest: map_of_SomeD)
    then show ?thesis using Some Toast_Settled assms(1)
      by (cases c) (auto simp: close_step_def signalled_def idle_suspend idle_resumed idle_cells)
  qed (use Toast_Settled assms(1) in \<open>simp add: close_step_def signalled_def\<close>)
next
  case (Sound_Played n)
  show ?thesis
  proof (cases "map_of (fs_waiting s) n")
    case (Some c)
    then have "call_activity c \<noteq> Some a" using calls_member assms(1) by (auto simp: idle_iff dest: map_of_SomeD)
    then show ?thesis using Some Sound_Played assms(1)
      by (cases c) (auto simp: close_step_def signalled_def idle_start idle_resumed)
  qed (use Sound_Played assms(1) in \<open>simp add: close_step_def signalled_def\<close>)
next
  case (Pids_Resolved n pids)
  show ?thesis
  proof (cases "map_of (fs_waiting s) n")
    case (Some c)
    then have "call_activity c \<noteq> Some a" using calls_member assms(1) by (auto simp: idle_iff dest: map_of_SomeD)
    then show ?thesis using Some Pids_Resolved assms(1) idle_forget [OF idle_resumed [OF assms(1), of n]]
      by (cases c) (auto simp: close_step_def pids_resolved_def signalled_def idle_arm idle_cells idle_resumed)
  qed (use Pids_Resolved assms(1) in \<open>simp add: close_step_def signalled_def\<close>)
next
  case (Await_Rejected n)
  then show ?thesis using assms(1) by (simp add: close_step_def signalled_def idle_resumed)
next
  case (Timer_Due n)
  show ?thesis
  proof (cases "map_of (fs_timers s) n")
    case (Some t)
    then have t: "timer_activity t \<noteq> a" using timers_member [OF map_of_SomeD [OF Some]] assms(1) by (simp add: idle_iff)
    have cancel: "in_phase (cancel_timer h s) a Idle" for h
      using assms(1) by (auto simp: idle_iff cancel_timer_def timers_delete split: option.split)
    show ?thesis
    proof (cases t)
      case (Countdown_Timer b)
      then show ?thesis using Some Timer_Due t assms(1) cancel
        by (auto simp: close_step_def timer_due_def close_tick_def signalled_def idle_suspend idle_cells idle_forceClose Let_def
            split: option.split)
    next
      case (Escalation_Timer b pids)
      then show ?thesis using Some Timer_Due t assms(1)
        by (auto simp: close_step_def timer_due_def signalled_def idle_iff AList.delete_conv' timers_delete)
    qed
  qed (use Timer_Due assms(1) in \<open>simp add: close_step_def timer_due_def signalled_def\<close>)
qed

lemma idle_run:
  assumes "in_phase s a Idle" "list_all (\<lambda>e. \<not> begins a e) es"
  shows "\<not> signalled a (snd (close_run dp s es))"
  using assms
proof (induction es arbitrary: s)
  case (Cons e es)
  then have e: "in_phase (fst (close_step dp s e)) a Idle" "\<not> signalled a (snd (close_step dp s e))"
    using idle_step [of s a e dp] by auto
  have "\<not> signalled a (snd (close_run dp (fst (close_step dp s e)) es))" using Cons.IH [OF e(1)] Cons.prems(2) by simp
  with e(2) show ?case by (simp add: signalled_def Let_def case_prod_beta)
qed (simp add: signalled_def)

text \<open>
  C12 In a history in which no start overlaps another start of the activity and none is cancelled while its processes
  are being looked up, a cancellation in the grace period or before the escalation is the end: no signal of
  the activity follows until it is started again, whatever timers, promises and calls come.
\<close>

theorem cancel_spares_process:
  assumes "serial_reach dp s" "\<not> resolving s a" "isCountingDown s a" "list_all (\<lambda>e. \<not> begins a e) es"
  shows "\<not> signalled a (snd (close_run dp s (Cancel_Call a message # es)))
     \<and> \<not> isCountingDown (fst (close_run dp s [Cancel_Call a message])) a"
proof -
  obtain r where r: "map_of (fs_active s) a = Some r" using assms(3) by (auto simp: isCountingDown_def)
  note idle = clear_phase(1) [OF serial_reach_ok [OF assms(1)] r assms(2)]
  have step: "fst (close_step dp s (Cancel_Call a message))
      = (clearTimers (fs_cells s ! r) s)\<lparr>fs_active := AList.delete a (fs_active s)\<rparr>"
    by (simp add: close_step_def cancel_close_def r)
  have "\<not> signalled a (snd (close_step dp s (Cancel_Call a message)))"
    by (simp add: close_step_def cancel_close_def r signalled_def)
  moreover have "\<not> signalled a (snd (close_run dp (fst (close_step dp s (Cancel_Call a message))) es))"
    unfolding step by (rule idle_run [OF idle assms(4)])
  ultimately show ?thesis using idle step
    by (simp add: signalled_def Let_def case_prod_beta isCountingDown_def idle_iff)
qed

text \<open>A countdown that is cancelled after a tick, and one cancelled after its SIGTERM.\<close>

definition demo_deps :: close_deps where
  "demo_deps = \<lparr>dp_graceSeconds = 2, dp_renderToasts = True, dp_hasSoundPlayer = True\<rparr>"

lemmas close_eval =
  close_step_def begin_close_def forceCloseNow_def start_close_def cancel_close_def stop_controller_def timer_due_def close_tick_def
  pids_resolved_def start_countdown_def forceClose_def suspend_def arm_def resumed_def clearTimers_def cancel_timer_def
  signals_to_def notify_toast_def update_toast_def playTimesUp_def new_ForceCloseController_def demo_deps_def
  soundNameForEvent_def Let_def

definition demo_countdown :: close_state where
  "demo_countdown = fst (close_run demo_deps new_ForceCloseController
     [Begin_Call 7 ''Steam'', Toast_Settled 0 (Some 1), Sound_Played 1, Timer_Due 2, Toast_Settled 3 (Some 1)])"

lemma demo_countdown_eq:
  "demo_countdown = \<lparr>fs_active = [(7, 0)],
     fs_cells = [\<lparr>cd_activityId = 7, cd_label = ''Steam'', cd_remaining = 1, cd_handle = Some 1, cd_timer = Some 2, cd_escalation = None\<rparr>],
     fs_waiting = [], fs_timers = [(2, Countdown_Timer 7)], fs_next = 4\<rparr>"
  by (simp add: demo_countdown_def close_eval AList.delete_eq)

lemma serial_run:
  "serial_reach dp s \<Longrightarrow> (\<And>xs e ys. es = xs @ e # ys \<Longrightarrow> serial_event (fst (close_run dp s xs)) e) \<Longrightarrow>
     serial_reach dp (fst (close_run dp s es))"
proof (induction es arbitrary: s)
  case (Cons e es)
  have "serial_event s e" using Cons.prems(2) [of "[]" e es] by simp
  then have s: "serial_reach dp (fst (close_step dp s e))" by (rule serial_more [OF Cons.prems(1)])
  have "serial_event (fst (close_run dp (fst (close_step dp s e)) xs)) x" if "es = xs @ x # ys" for xs x ys
    using Cons.prems(2) [of "e # xs" x ys] that by (simp add: Let_def case_prod_beta)
  from Cons.IH [OF s this] show ?case by (simp add: Let_def case_prod_beta)
qed simp

lemma demo_countdown_serial: "serial_reach demo_deps demo_countdown"
  unfolding demo_countdown_def
  by (rule serial_run [OF serial_new])
    (auto simp: Cons_eq_append_conv serial_event_def calls_of_def new_ForceCloseController_def)

lemma cancel_spares_process_witness:
  "\<not> signalled 7 (snd (close_run demo_deps demo_countdown [Cancel_Call 7 ''15 min'', Timer_Due 2, Pids_Resolved 4 [42]]))"
  using cancel_spares_process [OF demo_countdown_serial, of 7 "[Timer_Due 2, Pids_Resolved 4 [42]]" "''15 min''"]
  by (simp add: demo_countdown_eq resolving_def calls_of_def isCountingDown_def begins_def)

lemma kill_after_term_witness:
  "\<exists>xs ys. snd (close_run (demo_deps\<lparr>dp_renderToasts := False\<rparr>) new_ForceCloseController
       [Close_Now_Call 7 ''Steam'', Toast_Settled 0 None, Sound_Played 1, Pids_Resolved 2 [42], Timer_Due 3]) = xs @ Send_Signal 7 42 Sigkill # ys
     \<and> Send_Signal 7 42 Sigterm \<in> set xs"
  using kill_after_term [of "demo_deps\<lparr>dp_renderToasts := False\<rparr>"
      "[Close_Now_Call 7 ''Steam'', Toast_Settled 0 None, Sound_Played 1, Pids_Resolved 2 [42], Timer_Due 3]" "[Send_Signal 7 42 Sigterm]" 7 42 "[]"]
  by (intro exI [of _ "[Send_Signal 7 42 Sigterm]"] exI [of _ "[]"]) (simp add: close_eval AList.delete_eq)

section \<open>The course of a countdown, and its races\<close>

lemma countdown_ticks:
  assumes "fs_active s = [(a, 0)]" "fs_cells s = [c]" "cd_timer c = Some t" "fs_timers s = [(t, Countdown_Timer a)]"
    and "int n < cd_remaining c"
  shows "fs_active (fst (close_run dp s (replicate n (Timer_Due t)))) = [(a, 0)]
    \<and> fs_cells (fst (close_run dp s (replicate n (Timer_Due t)))) = [c\<lparr>cd_remaining := cd_remaining c - int n\<rparr>]
    \<and> fs_timers (fst (close_run dp s (replicate n (Timer_Due t)))) = [(t, Countdown_Timer a)]
    \<and> calls_of (fst (close_run dp s (replicate n (Timer_Due t)))) a = calls_of s a
    \<and> \<not> signalled a (snd (close_run dp s (replicate n (Timer_Due t))))"
  using assms
proof (induction n arbitrary: s c)
  case (Suc n)
  let ?c = "c\<lparr>cd_remaining := cd_remaining c - 1\<rparr>" and ?s = "fst (close_step dp s (Timer_Due t))"
  have s: "fs_active ?s = [(a, 0)]" "fs_cells ?s = [?c]" "fs_timers ?s = [(t, Countdown_Timer a)]" "calls_of ?s a = calls_of s a"
    "\<not> signalled a (snd (close_step dp s (Timer_Due t)))"
    using Suc.prems by (simp_all add: close_step_def timer_due_def close_tick_def suspend_def calls_of_def signalled_def Let_def)
  from Suc.IH [OF s(1,2) _ s(3)] Suc.prems s(4,5) show ?case
    by (simp add: Let_def case_prod_beta signalled_def algebra_simps)
qed (simp add: signalled_def)

text \<open>
  The grace period is given in full: after a start the processes are looked up at the tick that ends the period, not
  before, and nothing was signalled until then.
\<close>

theorem grace_given_in_full:
  assumes "int n \<le> dp_graceSeconds dp" "0 < n"
  shows "(resolving (fst (close_run dp new_ForceCloseController
         ([Begin_Call a label, Toast_Settled 0 h, Sound_Played 1] @ replicate n (Timer_Due 2)))) a \<longleftrightarrow> int n = dp_graceSeconds dp)
     \<and> \<not> signalled a (snd (close_run dp new_ForceCloseController
         ([Begin_Call a label, Toast_Settled 0 h, Sound_Played 1] @ replicate n (Timer_Due 2))))"
proof -
  obtain m where n: "n = Suc m" using assms(2) by (cases n) auto
  let ?s0 = "close_run dp new_ForceCloseController [Begin_Call a label, Toast_Settled 0 h, Sound_Played 1]"
  let ?c = "\<lparr>cd_activityId = a, cd_label = label, cd_remaining = dp_graceSeconds dp,
    cd_handle = (if dp_renderToasts dp then h else None), cd_timer = Some 2, cd_escalation = None\<rparr>"
  have s0: "fs_active (fst ?s0) = [(a, 0)]" "fs_cells (fst ?s0) = [?c]" "fs_timers (fst ?s0) = [(2, Countdown_Timer a)]"
    "calls_of (fst ?s0) a = []" "\<not> signalled a (snd ?s0)"
    using assms by (auto simp: close_eval AList.delete_eq calls_of_def signalled_def)
  let ?s1 = "close_run dp (fst ?s0) (replicate m (Timer_Due 2))"
  have "int m < cd_remaining ?c" using assms n by simp
  from countdown_ticks [OF s0(1,2) _ s0(3) this, of dp]
  have s1: "fs_active (fst ?s1) = [(a, 0)]" "fs_cells (fst ?s1) = [?c\<lparr>cd_remaining := dp_graceSeconds dp - int m\<rparr>]"
    "fs_timers (fst ?s1) = [(2, Countdown_Timer a)]" "calls_of (fst ?s1) a = []" "\<not> signalled a (snd ?s1)"
    using s0(4) by auto
  let ?s2 = "close_step dp (fst ?s1) (Timer_Due 2)"
  have s2: "resolving (fst ?s2) a \<longleftrightarrow> int n = dp_graceSeconds dp" "\<not> signalled a (snd ?s2)"
    using s1(1-4) assms(1) by (auto simp: n close_step_def timer_due_def close_tick_def forceClose_def suspend_def cancel_timer_def
      resolving_def calls_of_def signalled_def Let_def)
  have run: "close_run dp new_ForceCloseController ([Begin_Call a label, Toast_Settled 0 h, Sound_Played 1] @ replicate n (Timer_Due 2))
      = (fst ?s2, snd ?s0 @ snd ?s1 @ snd ?s2)"
  proof -
    have "replicate n (Timer_Due 2) = replicate m (Timer_Due 2) @ [Timer_Due 2]" by (simp add: n replicate_append_same)
    then show ?thesis by (simp only: close_run_append) (simp add: Let_def case_prod_beta)
  qed
  show ?thesis unfolding run using s2 s0(5) s1(5) by (auto simp: signalled_def)
qed

lemma grace_given_in_full_witness:
  "resolving (fst (close_run demo_deps new_ForceCloseController
     ([Begin_Call 7 ''Steam'', Toast_Settled 0 (Some 1), Sound_Played 1] @ replicate 2 (Timer_Due 2)))) 7"
  using grace_given_in_full [of 2 demo_deps 7 "''Steam''" "Some 1"] by (simp add: demo_deps_def)

text \<open>
  A cancellation that arrives while the processes are being looked up is lost: the time was granted and the toast
  says so, yet the processes are sent SIGTERM and then SIGKILL.
\<close>

theorem cancel_during_lookup_still_kills:
  "snd (close_run (demo_deps\<lparr>dp_renderToasts := False\<rparr>) new_ForceCloseController
     [Close_Now_Call 7 ''Steam'', Toast_Settled 0 None, Sound_Played 1,
      Cancel_Call 7 ''15 min granted'', Pids_Resolved 2 [42], Timer_Due 3])
   = [Send_Signal 7 42 Sigterm, Send_Signal 7 42 Sigkill]"
  by (simp add: close_eval AList.delete_eq)

text \<open>
  Two starts that overlap both pass the check for a running countdown: two timers tick on one countdown, and
  a grace of four seconds is over after two.
\<close>

theorem overlapping_starts_halve_grace:
  "fs_waiting (fst (close_run (demo_deps\<lparr>dp_graceSeconds := 4, dp_renderToasts := False\<rparr>) new_ForceCloseController
     [Begin_Call 7 ''Steam'', Begin_Call 7 ''Steam'', Toast_Settled 0 None, Toast_Settled 1 None, Sound_Played 2, Sound_Played 3,
      Timer_Due 4, Timer_Due 5, Toast_Settled 6 None, Toast_Settled 7 None, Timer_Due 4, Timer_Due 5, Toast_Settled 8 None]))
   = [(9, Await_Pids 7 1)]"
  by (simp add: close_eval AList.delete_eq)

end
