(* ===== verification/Time_Today.thy ===== *)
theory Time_Today
  imports Policy_Push Transport_Audit
begin

text \<open>
  \<open>transport/time-today\<close>: the "Add time today" lever (\<open>adjust.ts\<close>), its offline form as a queued action
  (\<open>queued.ts\<close>) and the executor that replays it (\<open>executor.ts\<close>). The client the lever drives is a
  parameter, an action on the whole world, as is the reading of \<open>--userinfo\<close>; the clock and the source of
  random identifiers read the outside world. A calendar date is compared as the string it is printed as.
\<close>

section \<open>Queued adjustments\<close>

definition TIME_TODAY_KIND :: string where "TIME_TODAY_KIND = ''timekpr.time-today''"

record today_payload =
  tp_userId :: int
  tp_osUsername :: string
  tp_targetDate :: string
  tp_operation :: string
  tp_seconds :: int
  tp_resolvedTargetSeconds :: "int option"

fun int_from :: "int \<Rightarrow> json option \<Rightarrow> int option" where
  "int_from lo (Some (JNum n)) = (if lo \<le> n then Some n else None)"
| "int_from lo _ = None"

definition is_date_text :: "string \<Rightarrow> bool" where
  "is_date_text s \<longleftrightarrow> length s = 10 \<and> s ! 4 = CHR ''-'' \<and> s ! 7 = CHR ''-''
     \<and> list_all (\<lambda>i. is_digit (s ! i)) [0, 1, 2, 3, 5, 6, 8, 9]"

fun date_text :: "json option \<Rightarrow> string option" where
  "date_text (Some (JStr s)) = (if is_date_text s then Some s else None)"
| "date_text _ = None"

fun operation_text :: "json option \<Rightarrow> string option" where
  "operation_text (Some (JStr s)) = (if s \<in> set TIME_LEFT_OPERATIONS then Some s else None)"
| "operation_text _ = None"

fun nullable_target :: "json option \<Rightarrow> int option option" where
  "nullable_target (Some JNull) = Some None"
| "nullable_target j = map_option Some (int_from 0 j)"

definition timeTodayPayloadSchema :: "json \<Rightarrow> today_payload option" where
  "timeTodayPayloadSchema j =
     (case (int_from 1 (json_get ''userId'' j), nonempty_string (json_get ''osUsername'' j), date_text (json_get ''targetDate'' j),
            operation_text (json_get ''operation'' j), int_from 0 (json_get ''seconds'' j),
            nullable_target (json_get ''resolvedTargetSeconds'' j)) of
        (Some u, Some os, Some date, Some oper, Some secs, Some target) \<Rightarrow>
          Some \<lparr>tp_userId = u, tp_osUsername = os, tp_targetDate = date, tp_operation = oper, tp_seconds = secs,
                tp_resolvedTargetSeconds = target\<rparr>
      | _ \<Rightarrow> None)"

definition payload_json :: "today_payload \<Rightarrow> json" where
  "payload_json p = JObj
     [(''userId'', JNum (tp_userId p)), (''osUsername'', JStr (tp_osUsername p)), (''targetDate'', JStr (tp_targetDate p)),
      (''operation'', JStr (tp_operation p)), (''seconds'', JNum (tp_seconds p)),
      (''resolvedTargetSeconds'', case tp_resolvedTargetSeconds p of None \<Rightarrow> JNull | Some n \<Rightarrow> JNum n)]"

definition formatCalendarDate :: "civil \<Rightarrow> string" where
  "formatCalendarDate date = (case date of (y, m, d) \<Rightarrow> show_int y @ CHR ''-'' # pad2 m @ CHR ''-'' # pad2 d)"

record offline_adjustment =
  oa_clientId :: int
  oa_userId :: int
  oa_osUsername :: string
  oa_targetDate :: string
  oa_operation :: string
  oa_seconds :: int

definition queuedActionForOfflineAdjustment :: "string \<Rightarrow> offline_adjustment \<Rightarrow> new_action" where
  "queuedActionForOfflineAdjustment uuid a =
     \<lparr>na_clientId = oa_clientId a, na_coalesceKey = ''time-today:'' @ show_int (oa_userId a) @ '':'' @ uuid,
      na_kind = TIME_TODAY_KIND,
      na_payload = payload_json \<lparr>tp_userId = oa_userId a, tp_osUsername = oa_osUsername a, tp_targetDate = oa_targetDate a,
        tp_operation = oa_operation a, tp_seconds = oa_seconds a,
        tp_resolvedTargetSeconds = (if oa_operation a = ''='' then Some (oa_seconds a) else None)\<rparr>\<rparr>"

section \<open>The lever\<close>

record 'w today_env =
  te_clock :: "'w \<Rightarrow> instant"
  te_uuid :: "'w \<Rightarrow> string \<times> 'w"
  te_setTimeLeft :: "client_row \<Rightarrow> string \<Rightarrow> int \<Rightarrow> string \<Rightarrow> int \<Rightarrow> 'w act"
  te_getUserInfo :: "client_row \<Rightarrow> string \<Rightarrow> int \<Rightarrow> 'w world \<Rightarrow> (rejection + (string \<times> string) list) \<times> 'w world"
  te_defaultTz :: string

record adjustment =
  aj_userId :: int
  aj_operation :: string
  aj_seconds :: int
  aj_clientId :: "int option"

datatype adjustment_status = Applied | Queued_Later | Unreachable | Adjustment_Failed

record adjustment_result =
  ar_clientId :: int
  ar_osUsername :: string
  ar_status :: adjustment_status
  ar_error :: "string option"

datatype adjust_error = TimeTodayTargetError string | Adjust_Tz tz_error | Adjust_Storage violation

definition result_for :: "link_row \<Rightarrow> adjustment_status \<Rightarrow> string option \<Rightarrow> adjustment_result" where
  "result_for l st msg = \<lparr>ar_clientId = link_clientId l, ar_osUsername = link_osUsername l, ar_status = st, ar_error = msg\<rparr>"

definition user_zone :: "db \<Rightarrow> int \<Rightarrow> string \<Rightarrow> string" where
  "user_zone d userId defaultTz = nullish (case getUser d userId of None \<Rightarrow> None | Some u \<Rightarrow> user_tz u) defaultTz"

definition queue_adjustment ::
    "tzdb \<Rightarrow> 'w today_env \<Rightarrow> adjustment \<Rightarrow> link_row \<Rightarrow> 'w world \<Rightarrow> (adjust_error + unit) \<times> 'w world" where
  "queue_adjustment zdb env a l s =
     (case s of (d, w) \<Rightarrow>
      case localCalendarDate zdb (te_clock env w) (user_zone d (aj_userId a) (te_defaultTz env)) of
        Inl e \<Rightarrow> (Inl (Adjust_Tz e), s)
      | Inr date \<Rightarrow>
          (case te_uuid env w of (uuid, w') \<Rightarrow>
           case enqueue (te_clock env w') d (queuedActionForOfflineAdjustment uuid
                 \<lparr>oa_clientId = link_clientId l, oa_userId = aj_userId a, oa_osUsername = link_osUsername l,
                  oa_targetDate = formatCalendarDate date, oa_operation = aj_operation a, oa_seconds = aj_seconds a\<rparr>) of
             Inl v \<Rightarrow> (Inl (Adjust_Storage v), d, w')
           | Inr (d', _) \<Rightarrow> (Inr (), d', w')))"

text \<open>One linked client; the flag tells whether the offline variant is enabled.\<close>

definition adjust_link ::
    "tzdb \<Rightarrow> 'w today_env \<Rightarrow> bool \<Rightarrow> adjustment \<Rightarrow> link_row \<Rightarrow> 'w world \<Rightarrow> (adjust_error + adjustment_result) \<times> 'w world" where
  "adjust_link zdb env offline a l s =
     (case getClient (fst s) (link_clientId l) of
        None \<Rightarrow> (Inr (result_for l Adjustment_Failed (Some (''Client '' @ show_int (link_clientId l) @ '' no longer exists''))), s)
      | Some client \<Rightarrow>
          (case te_setTimeLeft env client (link_osUsername l) (aj_userId a) (aj_operation a) (aj_seconds a) s of
             (Inr _, s') \<Rightarrow> (Inr (result_for l Applied None), s')
           | (Inl e, s') \<Rightarrow>
               if offline \<and> isRetriable e
               then (case queue_adjustment zdb env a l s' of
                       (Inl err, s'') \<Rightarrow> (Inl err, s'')
                     | (Inr _, s'') \<Rightarrow> (Inr (result_for l Queued_Later None), s''))
               else (Inr (result_for l (if isRetriable e then Unreachable else Adjustment_Failed) (Some (errorMessage e))), s')))"

fun adjust_links ::
    "tzdb \<Rightarrow> 'w today_env \<Rightarrow> bool \<Rightarrow> adjustment \<Rightarrow> link_row list \<Rightarrow> 'w world
      \<Rightarrow> (adjust_error + adjustment_result list) \<times> 'w world" where
  "adjust_links zdb env offline a [] s = (Inr [], s)"
| "adjust_links zdb env offline a (l # ls) s =
     (case adjust_link zdb env offline a l s of
        (Inl e, s') \<Rightarrow> (Inl e, s')
      | (Inr r, s') \<Rightarrow>
          (case adjust_links zdb env offline a ls s' of
             (Inl e, s'') \<Rightarrow> (Inl e, s'')
           | (Inr rs, s'') \<Rightarrow> (Inr (r # rs), s'')))"

definition adjust_targets :: "db \<Rightarrow> adjustment \<Rightarrow> link_row list" where
  "adjust_targets d a =
     (case aj_clientId a of
        None \<Rightarrow> listUserLinks d (aj_userId a)
      | Some c \<Rightarrow> filter (\<lambda>l. link_clientId l = c) (listUserLinks d (aj_userId a)))"

definition adjustTimeToday ::
    "tzdb \<Rightarrow> 'w today_env \<Rightarrow> bool \<Rightarrow> adjustment \<Rightarrow> 'w world \<Rightarrow> (adjust_error + adjustment_result list) \<times> 'w world" where
  "adjustTimeToday zdb env offline a s =
     (let targets = adjust_targets (fst s) a in
      if aj_clientId a \<noteq> None \<and> length targets = 0
      then (Inl (TimeTodayTargetError (''User '' @ show_int (aj_userId a) @ '' is not linked to client '' @ show_int (the (aj_clientId a)))), s)
      else if length targets = 0
      then (Inl (TimeTodayTargetError (''User '' @ show_int (aj_userId a) @ '' is not linked to any client; nothing to adjust'')), s)
      else adjust_links zdb env offline a targets s)"

section \<open>The executor\<close>

definition TIME_LEFT_DAY_KEY :: string where "TIME_LEFT_DAY_KEY = ''TIME_LEFT_DAY''"

text \<open>
  \<open>Number\<close> of a trimmed string, where the result is an integer (\<open>None\<close> otherwise): the empty string is 0,
  a radix prefix takes no sign, and a decimal literal may have a fraction and an exponent. The value is
  exact; the rounding of literals beyond the precision of a double is not modelled.
\<close>

definition radix_digits :: "nat \<Rightarrow> string \<Rightarrow> int option" where
  "radix_digits base s =
     (let value = (\<lambda>c. if is_digit c then digit_val c
                       else if CHR ''a'' \<le> c \<and> c \<le> CHR ''f'' then of_char c - 87
                       else if CHR ''A'' \<le> c \<and> c \<le> CHR ''F'' then of_char c - 55 else base)
      in if s \<noteq> [] \<and> list_all (\<lambda>c. value c < base) s then Some (int (foldl (\<lambda>n c. base * n + value c) 0 s)) else None)"

definition split_sign :: "string \<Rightarrow> bool \<times> string" where
  "split_sign s = (case s of c # r \<Rightarrow> if c = CHR ''-'' then (True, r) else if c = CHR ''+'' then (False, r) else (False, s) | [] \<Rightarrow> (False, s))"

definition exponent_value :: "string \<Rightarrow> int option" where
  "exponent_value s =
     (case s of
        [] \<Rightarrow> Some 0
      | c # r \<Rightarrow>
          if c \<notin> {CHR ''e'', CHR ''E''} then None
          else (case split_sign r of (negative, ds) \<Rightarrow>
                 if ds \<noteq> [] \<and> list_all is_digit ds then Some (if negative then - int (read_nat ds) else int (read_nat ds)) else None))"

definition scaled :: "int \<Rightarrow> int \<Rightarrow> int option" where
  "scaled n k =
     (if k \<ge> 0 then Some (n * 10 ^ nat k) else if 10 ^ nat (- k) dvd n then Some (n div 10 ^ nat (- k)) else None)"

definition decimal_value :: "string \<Rightarrow> int option" where
  "decimal_value s =
     (case split_sign s of (negative, r) \<Rightarrow>
      let whole = takeWhile is_digit r; r1 = dropWhile is_digit r;
          dotted = r1 \<noteq> [] \<and> hd r1 = CHR ''.'';
          fraction = (if dotted then takeWhile is_digit (tl r1) else []);
          r2 = (if dotted then dropWhile is_digit (tl r1) else r1)
      in if whole @ fraction = [] then None
         else case exponent_value r2 of
             None \<Rightarrow> None
           | Some e \<Rightarrow> map_option (\<lambda>n. if negative then - n else n) (scaled (int (read_nat (whole @ fraction))) (e - int (length fraction))))"

definition js_integer :: "string \<Rightarrow> int option" where
  "js_integer s =
     (case s of
        [] \<Rightarrow> Some 0
      | CHR ''0'' # c # r \<Rightarrow>
          if c \<in> {CHR ''x'', CHR ''X''} then radix_digits 16 r
          else if c \<in> {CHR ''o'', CHR ''O''} then radix_digits 8 r
          else if c \<in> {CHR ''b'', CHR ''B''} then radix_digits 2 r
          else decimal_value s
      | _ \<Rightarrow> decimal_value s)"

text \<open>Messages quote the offending value in JSON; here the value is given.\<close>

definition parseRemaining :: "string option \<Rightarrow> rejection + int" where
  "parseRemaining raw =
     (case raw of
        None \<Rightarrow> Inl (fatal (''timekpra --userinfo: missing '' @ TIME_LEFT_DAY_KEY))
      | Some r \<Rightarrow>
          (case js_integer (js_trim r) of
             Some n \<Rightarrow> if n < 0 then Inl (fatal (''timekpra --userinfo: '' @ TIME_LEFT_DAY_KEY @ '' is not a non-negative integer: '' @ r)) else Inr n
           | None \<Rightarrow> Inl (fatal (''timekpra --userinfo: '' @ TIME_LEFT_DAY_KEY @ '' is not a non-negative integer: '' @ r))))"

definition deferred_target :: "string \<Rightarrow> int \<Rightarrow> int \<Rightarrow> int" where
  "deferred_target oper seconds remaining = max 0 (remaining + (if oper = ''-'' then - seconds else seconds))"

definition time_today_execute :: "tzdb \<Rightarrow> 'w today_env \<Rightarrow> 'w executor" where
  "time_today_execute zdb env action s =
     (let (d, w) = s in
      case timeTodayPayloadSchema (qa_payload action) of
        None \<Rightarrow> throw (fatal ''ZodError'') s
      | Some p \<Rightarrow>
      (case getClient d (qa_clientId action) of
        None \<Rightarrow> skip s
      | Some client \<Rightarrow>
      (case localCalendarDate zdb (te_clock env w) (user_zone d (tp_userId p) (te_defaultTz env)) of
        Inl _ \<Rightarrow> throw (fatal ''InvalidTimeZoneError'') s
      | Inr date \<Rightarrow>
          if tp_targetDate p < formatCalendarDate date then skip s
          else case tp_resolvedTargetSeconds p of
              Some target \<Rightarrow> te_setTimeLeft env client (tp_osUsername p) (tp_userId p) ''='' target s
            | None \<Rightarrow>
                (case qa_id action of
                   None \<Rightarrow> throw (fatal ''time-today: cannot persist a deferred-resolved target without a row id'') s
                 | Some i \<Rightarrow>
                   (case te_getUserInfo env client (tp_osUsername p) (tp_userId p) s of
                      (Inl e, s') \<Rightarrow> (Inl e, s')
                    | (Inr info, d', w') \<Rightarrow>
                        (case parseRemaining (userinfo_get info TIME_LEFT_DAY_KEY) of
                           Inl e \<Rightarrow> (Inl e, d', w')
                         | Inr remaining \<Rightarrow>
                             let target = deferred_target (tp_operation p) (tp_seconds p) remaining;
                                 d'' = fst (updateActionPayload (te_clock env w') d' i (payload_json (p\<lparr>tp_resolvedTargetSeconds := Some target\<rparr>)))
                             in te_setTimeLeft env client (tp_osUsername p) (tp_userId p) ''='' target (d'', w')))))))"

section \<open>The fan-out\<close>

definition result_of :: "bool \<Rightarrow> link_row \<Rightarrow> adjustment_result \<Rightarrow> bool" where
  "result_of offline l r \<longleftrightarrow> ar_clientId r = link_clientId l \<and> ar_osUsername r = link_osUsername l
     \<and> ar_status r \<noteq> (if offline then Unreachable else Queued_Later)
     \<and> (ar_error r = None \<longleftrightarrow> ar_status r \<in> {Applied, Queued_Later})"

lemma adjust_link_result:
  "adjust_link zdb env offline a l s = (Inr r, s') \<Longrightarrow> result_of offline l r"
  by (auto simp: adjust_link_def result_for_def result_of_def split: option.splits prod.splits sum.splits if_splits)

lemma adjust_links_results:
  "adjust_links zdb env offline a ls s = (Inr rs, s') \<Longrightarrow> list_all2 (result_of offline) ls rs"
proof (induction ls arbitrary: s rs)
  case (Cons l ls)
  then show ?case using adjust_link_result [of zdb env offline a l s]
    by (fastforce split: prod.splits sum.splits)
qed simp

text \<open>
  An adjustment that is not refused reports on every client it is meant for, once and in order: one that could
  not be reached is queued when the offline variant is on and unreachable when it is not, and exactly the
  results that are neither applied nor queued carry an error.
\<close>

theorem adjustment_reports_every_client:
  assumes "adjustTimeToday zdb env offline a s = (Inr rs, s')"
  shows "list_all2 (result_of offline) (adjust_targets (fst s) a) rs \<and> rs \<noteq> []"
proof -
  have run: "adjust_links zdb env offline a (adjust_targets (fst s) a) s = (Inr rs, s')" "adjust_targets (fst s) a \<noteq> []"
    using assms by (auto simp: adjustTimeToday_def Let_def split: if_splits)
  from adjust_links_results [OF run(1)] run(2) show ?thesis by (auto simp: list_all2_Cons1 neq_Nil_conv)
qed

section \<open>Replays\<close>

definition valid_today_payload :: "today_payload \<Rightarrow> bool" where
  "valid_today_payload p \<longleftrightarrow> 1 \<le> tp_userId p \<and> tp_osUsername p \<noteq> [] \<and> is_date_text (tp_targetDate p)
     \<and> tp_operation p \<in> set TIME_LEFT_OPERATIONS \<and> 0 \<le> tp_seconds p
     \<and> (case tp_resolvedTargetSeconds p of None \<Rightarrow> True | Some n \<Rightarrow> 0 \<le> n)"

lemma payload_roundtrip: "valid_today_payload p \<Longrightarrow> timeTodayPayloadSchema (payload_json p) = Some p"
  by (auto simp: timeTodayPayloadSchema_def payload_json_def json_get_def valid_today_payload_def split: option.splits)

text \<open>The day of the payload is not over at the host's clock, and the client still exists.\<close>

definition still_due :: "tzdb \<Rightarrow> 'w today_env \<Rightarrow> today_payload \<Rightarrow> int \<Rightarrow> client_row \<Rightarrow> 'w world \<Rightarrow> bool" where
  "still_due zdb env p clientId client s \<longleftrightarrow> getClient (fst s) clientId = Some client
     \<and> (case localCalendarDate zdb (te_clock env (snd s)) (user_zone (fst s) (tp_userId p) (te_defaultTz env)) of
          Inl _ \<Rightarrow> False | Inr date \<Rightarrow> formatCalendarDate date \<le> tp_targetDate p)"

lemma execute_resolved:
  assumes "timeTodayPayloadSchema (qa_payload action) = Some p" "still_due zdb env p (qa_clientId action) client s"
    and "tp_resolvedTargetSeconds p = Some target"
  shows "time_today_execute zdb env action s = te_setTimeLeft env client (tp_osUsername p) (tp_userId p) ''='' target s"
  using assms by (cases s) (auto simp: time_today_execute_def still_due_def not_less split: sum.splits)

text \<open>
  C23 A queued bonus or deduction is turned into an absolute target once: the first replay reads the time left, computes
  the target, stores it in its row and sets it; every later replay of that row, after a crash or a lost answer, sets
  the same target again whatever time is left by then.
\<close>

theorem replay_reasserts_target:
  assumes "getQueued (fst s) i = Some row" "q_id row = i" "q_payload row = payload_json p" "valid_today_payload p"
    and "tp_resolvedTargetSeconds p = None" "still_due zdb env p (q_clientId row) client s"
    and "te_getUserInfo env client (tp_osUsername p) (tp_userId p) s = (Inr info, d', w')" "getQueued d' i = Some row"
    and "parseRemaining (userinfo_get info TIME_LEFT_DAY_KEY) = Inr remaining"
  defines "target \<equiv> deferred_target (tp_operation p) (tp_seconds p) remaining"
  shows "\<exists>d'' row'. time_today_execute zdb env (toAction row) s
       = te_setTimeLeft env client (tp_osUsername p) (tp_userId p) ''='' target (d'', w')
     \<and> getQueued d'' i = Some row' \<and> q_clientId row' = q_clientId row
     \<and> (\<forall>later client'. still_due zdb env p (q_clientId row) client' later \<longrightarrow>
          time_today_execute zdb env (toAction row') later
            = te_setTimeLeft env client' (tp_osUsername p) (tp_userId p) ''='' target later)"
proof -
  let ?p = "p\<lparr>tp_resolvedTargetSeconds := Some target\<rparr>"
  let ?f = "\<lambda>q. q\<lparr>q_payload := payload_json ?p, q_updatedAt := stored_timestamp (te_clock env w')\<rparr>"
  let ?d = "fst (updateActionPayload (te_clock env w') d' i (payload_json ?p))"
  have parse: "timeTodayPayloadSchema (qa_payload (toAction row)) = Some p"
    using payload_roundtrip [OF assms(4)] by (simp add: toAction_def assms(3))
  have run: "time_today_execute zdb env (toAction row) s
      = te_setTimeLeft env client (tp_osUsername p) (tp_userId p) ''='' target (?d, w')"
    using assms(2,5-7,9) parse
    by (cases s) (auto simp: time_today_execute_def still_due_def toAction_def target_def Let_def not_less split: sum.splits)
  have stored: "getQueued ?d i = Some (?f row)"
    using getQueued_set_queued [of ?f i d' i] assms(8) by (simp add: updateActionPayload_def)
  have "0 \<le> target" by (simp add: target_def deferred_target_def)
  then have "valid_today_payload ?p" using assms(4) by (simp add: valid_today_payload_def)
  then have "timeTodayPayloadSchema (qa_payload (toAction (?f row))) = Some ?p" by (simp add: toAction_def payload_roundtrip)
  moreover have "still_due zdb env ?p c client' later \<longleftrightarrow> still_due zdb env p c client' later" for c client' later
    by (simp add: still_due_def split: sum.split)
  ultimately have "still_due zdb env p (q_clientId row) client' later \<Longrightarrow>
      time_today_execute zdb env (toAction (?f row)) later
        = te_setTimeLeft env client' (tp_osUsername p) (tp_userId p) ''='' target later" for later client'
    using execute_resolved [of "toAction (?f row)" ?p zdb env client' later target] by (simp add: toAction_def)
  with run stored show ?thesis by (intro exI [of _ ?d] exI [of _ "?f row"]) auto
qed

text \<open>A nudge whose day is over in the user's time zone is dropped: no command is sent and nothing changes.\<close>

theorem stale_nudge_dropped:
  assumes "timeTodayPayloadSchema (qa_payload action) = Some p" "getClient (fst s) (qa_clientId action) = Some client"
    and "localCalendarDate zdb (te_clock env (snd s)) (user_zone (fst s) (tp_userId p) (te_defaultTz env)) = Inr date"
    and "tp_targetDate p < formatCalendarDate date"
  shows "time_today_execute zdb env action s = (Inr (), s)"
  using assms by (cases s) (simp add: time_today_execute_def skip_def)

section \<open>A lost answer\<close>

text \<open>
  A host that applies every command but whose answer to a relative one is lost; the outside world is the time left
  on it.
\<close>

definition lost_answer_host :: "instant \<Rightarrow> string \<Rightarrow> string \<Rightarrow> int today_env" where
  "lost_answer_host now uuid tz = \<lparr>te_clock = (\<lambda>_. now), te_uuid = (\<lambda>w. (uuid, w)),
     te_setTimeLeft = (\<lambda>client username userId oper secs (d, w).
       if oper = ''='' then (Inr (), d, secs)
       else (Inl \<lparr>rej_retriable = True, rej_message = ''timed out''\<rparr>, d, if oper = ''+'' then w + secs else max 0 (w - secs))),
     te_getUserInfo = (\<lambda>client username userId (d, w). (Inr [(''TIME_LEFT_DAY'', show_int w)], d, w)),
     te_defaultTz = tz\<rparr>"

text \<open>The time left after an adjustment has been applied once.\<close>

definition adjusted_once :: "adjustment \<Rightarrow> int \<Rightarrow> int" where
  "adjusted_once a n = (if aj_operation a = ''+'' then n + aj_seconds a else max 0 (n - aj_seconds a))"

lemma trim_digits: "(\<And>c. c \<in> set s \<Longrightarrow> is_digit c) \<Longrightarrow> js_trim s = s"
proof -
  assume digits: "\<And>c. c \<in> set s \<Longrightarrow> is_digit c"
  have "\<not> is_blank c" if "c \<in> set s" for c using digits [OF that] by (auto simp: is_digit_def is_blank_def)
  then have "dropWhile is_blank s = s" "dropWhile is_blank (rev s) = rev s"
    by (auto simp: dropWhile_eq_self_iff hd_rev)
  then show ?thesis by (simp add: js_trim_def)
qed

lemma decimal_digits: "s \<noteq> [] \<Longrightarrow> (\<And>c. c \<in> set s \<Longrightarrow> is_digit c) \<Longrightarrow> decimal_value s = Some (int (read_nat s))"
proof -
  assume s: "s \<noteq> []" and digits: "\<And>c. c \<in> set s \<Longrightarrow> is_digit c"
  have sign: "split_sign s = (False, s)"
    using s digits by (cases s) (auto simp: split_sign_def is_digit_def)
  have whole: "takeWhile is_digit s = s" "dropWhile is_digit s = []" using digits by auto
  show ?thesis using s by (simp add: decimal_value_def sign whole exponent_value_def scaled_def Let_def)
qed

lemma integer_digits:
  assumes "s \<noteq> []" "\<And>c. c \<in> set s \<Longrightarrow> is_digit c"
  shows "js_integer s = Some (int (read_nat s))"
proof -
  have "js_integer s = decimal_value s"
  proof (cases "\<exists>c r. s = CHR ''0'' # c # r")
    case True
    then obtain c r where s: "s = CHR ''0'' # c # r" by blast
    then have "is_digit c" using assms(2) by simp
    then show ?thesis by (auto simp: s js_integer_def is_digit_def)
  next
    case False
    then show ?thesis using assms(1) unfolding js_integer_def by (auto split: list.split char.split bool.split)
  qed
  then show ?thesis using decimal_digits [OF assms] by simp
qed

lemma remaining_shown: "0 \<le> n \<Longrightarrow> parseRemaining (Some (show_int n)) = Inr n"
proof -
  assume n: "0 \<le> n"
  have digits: "is_digit c" if "c \<in> set (show_int n)" for c using that n by (auto simp: show_int_def dest: show_nat_digits)
  have "js_integer (show_int n) = Some n"
    using integer_digits [OF _ digits, of "show_int n"] n by (simp add: show_int_def)
  then show ?thesis using n trim_digits [OF digits] by (simp add: parseRemaining_def)
qed

lemma lost_answer_queued:
  assumes "adjust_targets d a = [l]" "getClient d (link_clientId l) = Some client"
    and "\<forall>q \<in> set (db_queue d). q_clientId q \<noteq> link_clientId l"
    and "localCalendarDate zdb now (user_zone d (aj_userId a) tz) = Inr date"
    and "aj_operation a \<in> {''+'', ''-''}"
  shows "\<exists>row. adjustTimeToday zdb (lost_answer_host now uuid tz) True a (d, n) =
      (Inr [result_for l Queued_Later None], d\<lparr>db_queue := db_queue d @ [row], db_queueSeq := db_queueSeq d + 1\<rparr>, adjusted_once a n)
    \<and> q_clientId row = link_clientId l \<and> q_status row = Q_Pending
    \<and> q_payload row = payload_json \<lparr>tp_userId = aj_userId a, tp_osUsername = link_osUsername l,
        tp_targetDate = formatCalendarDate date, tp_operation = aj_operation a, tp_seconds = aj_seconds a,
        tp_resolvedTargetSeconds = None\<rparr>"
proof -
  have fresh: "List.find (same_target (link_clientId l) key) (db_queue d) = None" for key
    using assms(3) by (auto simp: find_None_set same_target_def)
  have nonempty: "\<not> (aj_clientId a \<noteq> None \<and> length (adjust_targets d a) = 0)" "length (adjust_targets d a) \<noteq> 0"
    by (simp_all add: assms(1))
  have relative: "aj_operation a \<noteq> ''=''" using assms(5) by auto
  show ?thesis
    using assms(2,4) relative fresh nonempty
    by (auto simp: adjustTimeToday_def assms(1) adjust_link_def lost_answer_host_def isRetriable_def queue_adjustment_def
        enqueue_def queuedActionForOfflineAdjustment_def adjusted_once_def Let_def)
qed

lemma lost_answer_replayed:
  assumes "getClient d (q_clientId row) = Some client" "q_payload row = payload_json p" "valid_today_payload p"
    and "localCalendarDate zdb now (user_zone d (tp_userId p) tz) = Inr date" "tp_targetDate p = formatCalendarDate date"
    and "tp_resolvedTargetSeconds p = None" "0 \<le> m"
  shows "\<exists>d'. time_today_execute zdb (lost_answer_host now uuid tz) (toAction row) (d, m) =
      (Inr (), d', deferred_target (tp_operation p) (tp_seconds p) m)"
  using assms payload_roundtrip [OF assms(3)] remaining_shown [OF assms(7)]
  by (simp add: time_today_execute_def toAction_def lost_answer_host_def userinfo_get_def TIME_LEFT_DAY_KEY_def Let_def)

text \<open>
  C24 An additive adjustment whose answer is lost is applied twice, whatever the bonus or penalty, the time left
  and the user: the host has applied it when the command times out, the lever queues it as if it had not, and the
  replay applies it to the time left a second time. Here one client is targeted, it exists, nothing is queued for
  it, and the replay happens on the same day.
\<close>

theorem timed_out_bonus_given_twice:
  assumes "adjust_targets d a = [l]" "getClient d (link_clientId l) = Some client"
    and "\<forall>q \<in> set (db_queue d). q_clientId q \<noteq> link_clientId l"
    and "localCalendarDate zdb now (user_zone d (aj_userId a) tz) = Inr date" "is_date_text (formatCalendarDate date)"
    and "aj_operation a \<in> {''+'', ''-''}" "0 \<le> aj_seconds a" "0 \<le> n" "1 \<le> aj_userId a" "link_osUsername l \<noteq> []"
  shows "\<exists>s1. adjustTimeToday zdb (lost_answer_host now uuid tz) True a (d, n) = (Inr [result_for l Queued_Later None], s1)
     \<and> snd s1 = adjusted_once a n
     \<and> snd (snd (drainClient (\<lambda>_. now) (time_today_execute zdb (lost_answer_host now uuid tz)) (link_clientId l) s1))
         = adjusted_once a (adjusted_once a n)"
proof -
  from lost_answer_queued [OF assms(1-4,6), of uuid n] obtain row where
    run: "adjustTimeToday zdb (lost_answer_host now uuid tz) True a (d, n) =
      (Inr [result_for l Queued_Later None], d\<lparr>db_queue := db_queue d @ [row], db_queueSeq := db_queueSeq d + 1\<rparr>, adjusted_once a n)"
    and row: "q_clientId row = link_clientId l" "q_status row = Q_Pending"
    and payload: "q_payload row = payload_json \<lparr>tp_userId = aj_userId a, tp_osUsername = link_osUsername l,
        tp_targetDate = formatCalendarDate date, tp_operation = aj_operation a, tp_seconds = aj_seconds a,
        tp_resolvedTargetSeconds = None\<rparr>" by blast
  let ?d = "d\<lparr>db_queue := db_queue d @ [row], db_queueSeq := db_queueSeq d + 1\<rparr>"
  have client: "getClient ?d (q_clientId row) = Some client" using assms(2) row by (simp add: getClient_def)
  have zone: "user_zone ?d u tz = user_zone d u tz" for u by (simp add: user_zone_def getUser_def)
  have "0 \<le> adjusted_once a n" using assms(7,8) by (simp add: adjusted_once_def)
  moreover have "deferred_target (aj_operation a) (aj_seconds a) (adjusted_once a n) = adjusted_once a (adjusted_once a n)"
    using assms(6-8) by (auto simp: deferred_target_def adjusted_once_def)
  moreover have "valid_today_payload \<lparr>tp_userId = aj_userId a, tp_osUsername = link_osUsername l,
        tp_targetDate = formatCalendarDate date, tp_operation = aj_operation a, tp_seconds = aj_seconds a,
        tp_resolvedTargetSeconds = None\<rparr>"
    using assms(5-7,9,10) by (auto simp: valid_today_payload_def TIME_LEFT_OPERATIONS_def)
  ultimately obtain d' where replay: "time_today_execute zdb (lost_answer_host now uuid tz) (toAction row) (?d, adjusted_once a n) =
      (Inr (), d', adjusted_once a (adjusted_once a n))"
    using lost_answer_replayed [OF client payload, of zdb now tz date "adjusted_once a n" uuid] assms(4) zone by auto
  have "filter (\<lambda>q. q_clientId q = link_clientId l \<and> q_status q = Q_Pending) (db_queue d) = []"
    using assms(3) by (auto simp: filter_empty_conv)
  then have "listPendingForClient ?d (link_clientId l) = [row]" using row by (simp add: listPendingForClient_def)
  then show ?thesis using run replay by (simp add: drainClient_def)
qed

text \<open>A bonus for the one device of a user.\<close>

definition lost_answer_env :: "int today_env" where
  "lost_answer_env = lost_answer_host 1740830400000 ''3f2a'' ''America/New_York''"

lemmas lost_answer_fields = lost_answer_env_def lost_answer_host_def

definition alice_db :: db where
  "alice_db = foldl db_step empty_db
     [Create_User \<lparr>uc_displayName = ''Alice'', uc_tz = None\<rparr>,
      Create_Client \<lparr>cc_hostname = ''pc1'', cc_sshUser = ''pct-agent'', cc_friendlyName = None\<rparr>,
      Upsert_Link 1 1 ''alice'' ''1001'']"

definition bonus :: adjustment where
  "bonus = \<lparr>aj_userId = 1, aj_operation = ''+'', aj_seconds = 900, aj_clientId = None\<rparr>"

definition bonus_row :: queued_row where
  "bonus_row = \<lparr>q_id = 1, q_clientId = 1, q_coalesceKey = ''time-today:1:3f2a'', q_kind = TIME_TODAY_KIND,
     q_payload = payload_json \<lparr>tp_userId = 1, tp_osUsername = ''alice'', tp_targetDate = ''2025-03-01'', tp_operation = ''+'',
       tp_seconds = 900, tp_resolvedTargetSeconds = None\<rparr>,
     q_status = Q_Pending, q_attempts = 0, q_lastError = None, q_enqueuedAt = 1740830400000, q_updatedAt = 1740830400000\<rparr>"

definition alice_pc :: client_row where
  "alice_pc = \<lparr>client_id = 1, client_hostname = ''pc1'', client_friendlyName = None, client_sshUser = ''pct-agent'',
     client_bearerTokenHash = None, client_lastSeen = None, client_sshTarget = None, client_lastTelemetryPullAt = None,
     client_agentVersion = None, client_versionsReportedAt = None, client_platform = Linux, client_updateRequired = False,
     client_lastVerifiedAt = None, client_lastVerifyReachable = None, client_lastVerifyReason = None, client_capabilities = None, client_reportedIps = None\<rparr>"

lemma alice_db_eq:
  "alice_db = \<lparr>db_users = [\<lparr>user_id = 1, user_displayName = ''Alice'', user_tz = None\<rparr>], db_userSeq = 1,
     db_clients = [alice_pc], db_clientSeq = 1,
     db_links = [\<lparr>link_userId = 1, link_clientId = 1, link_osUsername = ''alice'', link_osUserRef = ''1001''\<rparr>],
     db_policy = empty_store, db_queue = [], db_queueSeq = 0\<rparr>"
  by (simp add: alice_db_def alice_pc_def empty_db_def createUser_def createClient_def upsertLink_def getUser_def getClient_def
      empty_store_def Let_def)

lemma march_1_text: "formatCalendarDate (2025, 3, 1) = ''2025-03-01''"
  by code_simp

lemma bonus_date: "localCalendarDate sample_tzdb 1740830400000 (user_zone d 1 ''America/New_York'') = Inr (2025, 3, 1)"
  if "getUser d 1 = None \<or> user_tz (the (getUser d 1)) = None"
  using that new_york_march_1_date by (auto simp: user_zone_def split: option.split)

lemma bonus_key: "''time-today:'' @ show_int 1 @ '':'' @ ''3f2a'' = ''time-today:1:3f2a''"
  by code_simp

lemma bonus_queued:
  "adjustTimeToday sample_tzdb lost_answer_env True bonus (alice_db, 600)
     = (Inr [\<lparr>ar_clientId = 1, ar_osUsername = ''alice'', ar_status = Queued_Later, ar_error = None\<rparr>],
        alice_db\<lparr>db_queue := [bonus_row], db_queueSeq := 1\<rparr>, 1500)"
proof -
  have client: "getClient alice_db 1 = Some alice_pc" and user: "user_tz (the (getUser alice_db 1)) = None"
    and links: "listUserLinks alice_db 1 = [\<lparr>link_userId = 1, link_clientId = 1, link_osUsername = ''alice'', link_osUserRef = ''1001''\<rparr>]"
    and queue: "db_queue alice_db = []" "db_queueSeq alice_db = 0"
    by (simp_all add: alice_db_eq getClient_def getUser_def listUserLinks_def alice_pc_def)
  note date = bonus_date [of alice_db] user
  show ?thesis
    by (simp add: adjustTimeToday_def adjust_targets_def bonus_def links adjust_link_def client lost_answer_fields isRetriable_def
        queue_adjustment_def date enqueue_def queue queuedActionForOfflineAdjustment_def march_1_text bonus_key [simplified] bonus_row_def
        stored_timestamp_def result_for_def Let_def)
qed

lemma timed_out_bonus_given_twice_witness:
  "\<exists>s1. adjustTimeToday sample_tzdb lost_answer_env True bonus (alice_db, 600)
       = (Inr [\<lparr>ar_clientId = 1, ar_osUsername = ''alice'', ar_status = Queued_Later, ar_error = None\<rparr>], s1)
     \<and> snd s1 = 1500
     \<and> snd (snd (drainClient (\<lambda>_. 1740830400000) (time_today_execute sample_tzdb lost_answer_env) 1 s1)) = 2400"
proof -
  let ?l = "\<lparr>link_userId = 1, link_clientId = 1, link_osUsername = ''alice'', link_osUserRef = ''1001''\<rparr>"
  have targets: "adjust_targets alice_db bonus = [?l]"
    by (simp add: adjust_targets_def bonus_def alice_db_eq listUserLinks_def)
  have client: "getClient alice_db (link_clientId ?l) = Some alice_pc" by (simp add: alice_db_eq getClient_def alice_pc_def)
  have queue: "\<forall>q \<in> set (db_queue alice_db). q_clientId q \<noteq> link_clientId ?l" by (simp add: alice_db_eq)
  have user: "user_tz (the (getUser alice_db 1)) = None" by (simp add: alice_db_eq getUser_def)
  have today: "localCalendarDate sample_tzdb 1740830400000 (user_zone alice_db (aj_userId bonus) ''America/New_York'') = Inr (2025, 3, 1)"
    using bonus_date [of alice_db] user by (simp add: bonus_def)
  have shown: "is_date_text (formatCalendarDate (2025, 3, 1))" unfolding march_1_text by (simp add: is_date_text_def is_digit_def)
  from timed_out_bonus_given_twice [OF targets client queue today shown, where n = 600 and uuid = "''3f2a''"]
  show ?thesis by (simp add: bonus_def adjusted_once_def result_for_def lost_answer_env_def [symmetric])
qed

text \<open>The hypotheses hold of the queued bonus.\<close>

lemma adjustment_reports_every_client_witness:
  "list_all2 (result_of True) (adjust_targets alice_db bonus) [\<lparr>ar_clientId = 1, ar_osUsername = ''alice'', ar_status = Queued_Later, ar_error = None\<rparr>]"
  using adjustment_reports_every_client [OF bonus_queued] by simp

definition bonus_payload :: today_payload where
  "bonus_payload = \<lparr>tp_userId = 1, tp_osUsername = ''alice'', tp_targetDate = ''2025-03-01'', tp_operation = ''+'',
     tp_seconds = 900, tp_resolvedTargetSeconds = None\<rparr>"

lemma bonus_due: "still_due sample_tzdb lost_answer_env bonus_payload 1 alice_pc (alice_db\<lparr>db_queue := q, db_queueSeq := k\<rparr>, w)"
proof -
  have "getClient (alice_db\<lparr>db_queue := q, db_queueSeq := k\<rparr>) 1 = Some alice_pc"
    "user_tz (the (getUser (alice_db\<lparr>db_queue := q, db_queueSeq := k\<rparr>) 1)) = None"
    by (simp_all add: alice_db_eq getClient_def getUser_def alice_pc_def)
  with bonus_date [of "alice_db\<lparr>db_queue := q, db_queueSeq := k\<rparr>"] show ?thesis
    by (simp add: still_due_def bonus_payload_def lost_answer_fields march_1_text)
qed

lemma bonus_payload_valid: "valid_today_payload bonus_payload"
  by (simp add: valid_today_payload_def bonus_payload_def is_date_text_def is_digit_def TIME_LEFT_OPERATIONS_def)

lemma replay_reasserts_target_witness:
  "\<exists>d'' row'. time_today_execute sample_tzdb lost_answer_env (toAction bonus_row) (alice_db\<lparr>db_queue := [bonus_row], db_queueSeq := 1\<rparr>, 1500)
       = te_setTimeLeft lost_answer_env alice_pc ''alice'' 1 ''='' 2400 (d'', 1500)
     \<and> getQueued d'' 1 = Some row'
     \<and> time_today_execute sample_tzdb lost_answer_env (toAction row') (alice_db, 300)
         = te_setTimeLeft lost_answer_env alice_pc ''alice'' 1 ''='' 2400 (alice_db, 300)"
proof -
  let ?d = "alice_db\<lparr>db_queue := [bonus_row], db_queueSeq := 1\<rparr>"
  have row: "getQueued (fst (?d, 1500 :: int)) 1 = Some bonus_row" "getQueued ?d 1 = Some bonus_row" "q_id bonus_row = 1"
    "q_payload bonus_row = payload_json bonus_payload" "q_clientId bonus_row = 1" "tp_resolvedTargetSeconds bonus_payload = None"
    by (simp_all add: getQueued_def bonus_row_def bonus_payload_def)
  have info: "te_getUserInfo lost_answer_env alice_pc (tp_osUsername bonus_payload) (tp_userId bonus_payload) (?d, 1500)
      = (Inr [(''TIME_LEFT_DAY'', show_int 1500)], ?d, 1500)" by (simp add: lost_answer_fields)
  have left: "parseRemaining (userinfo_get [(''TIME_LEFT_DAY'', show_int 1500)] TIME_LEFT_DAY_KEY) = Inr 1500" by code_simp
  have target: "deferred_target (tp_operation bonus_payload) (tp_seconds bonus_payload) 1500 = 2400"
    "tp_osUsername bonus_payload = ''alice''" "tp_userId bonus_payload = 1"
    by (simp_all add: deferred_target_def bonus_payload_def)
  have later: "still_due sample_tzdb lost_answer_env bonus_payload 1 alice_pc (alice_db, 300)"
    using bonus_due [where q = "[]" and k = 0 and w = 300] by (simp add: alice_db_eq)
  have due: "still_due sample_tzdb lost_answer_env bonus_payload (q_clientId bonus_row) alice_pc (?d, 1500)"
    using bonus_due [where q = "[bonus_row]" and k = 1 and w = 1500] by (simp only: row(5))
  from replay_reasserts_target [OF row(1,3,4) bonus_payload_valid row(6) due info row(2) left]
  show ?thesis using later unfolding target row(5) by blast
qed

lemma stale_nudge_dropped_witness:
  "time_today_execute sample_tzdb lost_answer_env
     (toAction (bonus_row\<lparr>q_payload := payload_json (bonus_payload\<lparr>tp_targetDate := ''2025-02-28''\<rparr>)\<rparr>)) (alice_db, 600) = (Inr (), alice_db, 600)"
proof (rule stale_nudge_dropped)
  have "valid_today_payload (bonus_payload\<lparr>tp_targetDate := ''2025-02-28''\<rparr>)"
    by (simp add: valid_today_payload_def bonus_payload_def is_date_text_def is_digit_def TIME_LEFT_OPERATIONS_def)
  then show "timeTodayPayloadSchema (qa_payload (toAction (bonus_row\<lparr>q_payload := payload_json (bonus_payload\<lparr>tp_targetDate := ''2025-02-28''\<rparr>)\<rparr>)))
      = Some (bonus_payload\<lparr>tp_targetDate := ''2025-02-28''\<rparr>)" by (simp add: toAction_def payload_roundtrip)
  show "getClient (fst (alice_db, 600)) (qa_clientId (toAction (bonus_row\<lparr>q_payload := payload_json (bonus_payload\<lparr>tp_targetDate := ''2025-02-28''\<rparr>)\<rparr>)))
      = Some alice_pc" by (simp add: toAction_def bonus_row_def alice_db_eq getClient_def alice_pc_def)
  show "localCalendarDate sample_tzdb (te_clock lost_answer_env (snd (alice_db, 600)))
      (user_zone (fst (alice_db, 600)) (tp_userId (bonus_payload\<lparr>tp_targetDate := ''2025-02-28''\<rparr>)) (te_defaultTz lost_answer_env)) = Inr (2025, 3, 1)"
    using bonus_date [of alice_db] by (simp add: bonus_payload_def lost_answer_fields alice_db_eq getUser_def)
  show "tp_targetDate (bonus_payload\<lparr>tp_targetDate := ''2025-02-28''\<rparr>) < formatCalendarDate (2025, 3, 1)"
    by code_simp
qed

end
