(* ===== verification/Client_Bridge.thy ===== *)
theory Client_Bridge
  imports Time_Today Event_Stream Complex_Main
begin

text \<open>
  The client's bridge (\<open>client/agent/src/bridge\<close>): its configuration (\<open>config.ts\<close>), the reconnect delay
  (\<open>backoff.ts\<close>), the decoding of frames (\<open>protocol.ts\<close>), the event-stream client (\<open>ws-client.ts\<close>) and the
  fan-out to the sockets of the local users (\<open>dispatch.ts\<close>); and the restart delay of the managed
  AdGuard Home (\<open>server/src/transport/adguard/backoff.ts\<close>). The parser and printer of JSON, the checks of a
  URL and of a timestamp and the random numbers are parameters. A socket is a number; its callbacks
  are events, so that callbacks of sockets that were dropped are events too.
\<close>

section \<open>Delays\<close>

record backoff_options =
  bo_baseMs :: int
  bo_maxMs :: int

definition DEFAULT_BACKOFF :: backoff_options where "DEFAULT_BACKOFF = \<lparr>bo_baseMs = 1000, bo_maxMs = 60000\<rparr>"

text \<open>An attempt is a whole number here; the bounds are whole milliseconds.\<close>

definition backoff_cap :: "int \<Rightarrow> backoff_options \<Rightarrow> int" where
  "backoff_cap attempt opts =
     (let safeAttempt = max 0 attempt;
          exponential = (if safeAttempt \<ge> 31 then bo_maxMs opts else min (bo_maxMs opts) (bo_baseMs opts * 2 ^ nat safeAttempt))
      in max (bo_baseMs opts) (min (bo_maxMs opts) exponential))"

definition computeBackoffDelayMs :: "int \<Rightarrow> backoff_options \<Rightarrow> rat \<Rightarrow> int" where
  "computeBackoffDelayMs attempt opts draw = \<lfloor>draw * of_int (backoff_cap attempt opts)\<rfloor>"

record restart_options =
  ro_maxRestarts :: int
  ro_stableMs :: int
  ro_baseMs :: int
  ro_maxMs :: int

record restart_backoff =
  rb_count :: int
  rb_startedAt :: "instant option"

definition new_RestartBackoff :: restart_backoff where "new_RestartBackoff = \<lparr>rb_count = 0, rb_startedAt = None\<rparr>"

definition markStarted :: "instant \<Rightarrow> restart_backoff \<Rightarrow> restart_backoff" where
  "markStarted now b = b\<lparr>rb_startedAt := Some now\<rparr>"

definition nextDelayMs :: "restart_options \<Rightarrow> instant \<Rightarrow> restart_backoff \<Rightarrow> restart_backoff \<times> int option" where
  "nextDelayMs opts now b =
     (let b1 = (case rb_startedAt b of None \<Rightarrow> b | Some t \<Rightarrow> if now - t \<ge> ro_stableMs opts then b\<lparr>rb_count := 0\<rparr> else b) in
      if rb_count b1 \<ge> ro_maxRestarts opts then (b1, None)
      else let b2 = b1\<lparr>rb_count := rb_count b1 + 1\<rparr>
        in (b2, Some (min (ro_baseMs opts * 2 ^ nat (rb_count b2 - 1)) (ro_maxMs opts))))"

section \<open>Configuration\<close>

definition DEFAULT_SOCKET_DIR :: string where "DEFAULT_SOCKET_DIR = ''/run/pct''"

definition DEFAULT_SOCKET_MODE :: int where "DEFAULT_SOCKET_MODE = 384"

record user_mapping =
  um_userId :: int
  um_linuxUid :: int

record bridge_config =
  bc_serverUrl :: string
  bc_token :: string
  bc_socketDir :: string
  bc_socketMode :: int
  bc_users :: "user_mapping list"
  bc_backoff :: backoff_options

definition userMappingSchema :: "json \<Rightarrow> user_mapping option" where
  "userMappingSchema j =
     (case (int_from 1 (json_get ''userId'' j), int_from 0 (json_get ''linuxUid'' j)) of
        (Some u, Some l) \<Rightarrow> Some \<lparr>um_userId = u, um_linuxUid = l\<rparr>
      | _ \<Rightarrow> None)"

definition usersSchema :: "json option \<Rightarrow> user_mapping list option" where
  "usersSchema j =
     (case j of
        Some (JArr xs) \<Rightarrow>
          (case all_some (map userMappingSchema xs) of
             None \<Rightarrow> None
           | Some us \<Rightarrow> if length us < 1 \<or> \<not> distinct (map um_userId us) \<or> \<not> distinct (map um_linuxUid us) then None else Some us)
      | _ \<Rightarrow> None)"

definition backoffSchema :: "int option \<Rightarrow> int option \<Rightarrow> backoff_options option" where
  "backoffSchema baseMs maxMs =
     (case (baseMs, maxMs) of
        (Some b, Some m) \<Rightarrow> if b < 1 \<or> m < 1 \<or> m < b then None else Some \<lparr>bo_baseMs = b, bo_maxMs = m\<rparr>
      | _ \<Rightarrow> None)"

record bridge_env =
  be_serverUrl :: "string option"
  be_token :: "string option"
  be_socketDir :: "string option"
  be_socketMode :: "string option"
  be_users :: "string option"
  be_backoffBaseMs :: "string option"
  be_backoffMaxMs :: "string option"

datatype config_error = ConfigError string

text \<open>
  A variable that is a number but no whole number fails here; in the code it passes and is rejected by the
  schema, with the same error class.
\<close>

definition parseOptionalInt :: "string \<Rightarrow> string option \<Rightarrow> config_error + int option" where
  "parseOptionalInt name v =
     (case v of
        None \<Rightarrow> Inr None
      | Some s \<Rightarrow>
          if js_trim s = [] then Inl (ConfigError (name @ '' is empty''))
          else case js_integer (js_trim s) of
              None \<Rightarrow> Inl (ConfigError (name @ '' is not a number: '' @ s))
            | Some n \<Rightarrow> Inr (Some n))"

definition invalid_config :: config_error where "invalid_config = ConfigError ''invalid bridge configuration''"

definition bridgeConfigSchema ::
    "(string \<Rightarrow> bool) \<Rightarrow> bridge_env \<Rightarrow> json option \<Rightarrow> int option \<Rightarrow> (int option \<times> int option) option \<Rightarrow> bridge_config option" where
  "bridgeConfigSchema ws_url env users mode backoff =
     (case (be_serverUrl env, be_token env, usersSchema users) of
        (Some url, Some token, Some us) \<Rightarrow>
          (let dir = nullish (be_socketDir env) DEFAULT_SOCKET_DIR; m = nullish mode DEFAULT_SOCKET_MODE;
               bo = (case backoff of None \<Rightarrow> Some DEFAULT_BACKOFF | Some (b, x) \<Rightarrow> backoffSchema b x)
           in if \<not> ws_url url \<or> length token < 1 \<or> length dir < 1 \<or> m < 0 then None
              else map_option (\<lambda>o'. \<lparr>bc_serverUrl = url, bc_token = token, bc_socketDir = dir, bc_socketMode = m,
                     bc_users = us, bc_backoff = o'\<rparr>) bo)
      | _ \<Rightarrow> None)"

definition loadConfigFromEnv ::
    "(string \<Rightarrow> json option) \<Rightarrow> (string \<Rightarrow> bool) \<Rightarrow> bridge_env \<Rightarrow> config_error + bridge_config" where
  "loadConfigFromEnv json_parse ws_url env =
     bindE (case be_users env of
              None \<Rightarrow> Inr None
            | Some s \<Rightarrow> (case json_parse s of None \<Rightarrow> Inl (ConfigError ''PCT_BRIDGE_USERS is not valid JSON'') | Some j \<Rightarrow> Inr (Some j)))
       (\<lambda>users. bindE (parseOptionalInt ''PCT_BRIDGE_SOCKET_MODE'' (be_socketMode env)) (\<lambda>mode.
        bindE (if be_backoffBaseMs env \<noteq> None \<or> be_backoffMaxMs env \<noteq> None
               then bindE (parseOptionalInt ''PCT_BRIDGE_BACKOFF_BASE_MS'' (be_backoffBaseMs env)) (\<lambda>b.
                    bindE (parseOptionalInt ''PCT_BRIDGE_BACKOFF_MAX_MS'' (be_backoffMaxMs env)) (\<lambda>x. Inr (Some (b, x))))
               else Inr None)
          (\<lambda>backoff. case bridgeConfigSchema ws_url env users mode backoff of None \<Rightarrow> Inl invalid_config | Some c \<Rightarrow> Inr c)))"

definition socketPathForUid :: "bridge_config \<Rightarrow> int \<Rightarrow> string" where
  "socketPathForUid c linuxUid =
     (let dir = (if bc_socketDir c \<noteq> [] \<and> last (bc_socketDir c) = CHR ''/'' then butlast (bc_socketDir c) else bc_socketDir c)
      in dir @ CHR ''/'' # show_int linuxUid @ ''.sock'')"

section \<open>Frames\<close>

text \<open>
  A frame as the client decodes it; its time stays the text it was sent as. Keys the schema does not name are
  dropped, and a nullable activity must be present.
\<close>

record client_frame =
  cf_seq :: int
  cf_at :: string
  cf_event :: server_event

definition bounded_text :: "json option \<Rightarrow> string option" where
  "bounded_text j = (case j of Some (JStr s) \<Rightarrow> if short_text s then Some s else None | _ \<Rightarrow> None)"

definition nullable_positive :: "json option \<Rightarrow> int option option" where
  "nullable_positive j = (case j of Some JNull \<Rightarrow> Some None | _ \<Rightarrow> map_option Some (int_from 1 j))"

definition optional_text :: "json option \<Rightarrow> string option option" where
  "optional_text j = (case j of None \<Rightarrow> Some None | _ \<Rightarrow> map_option Some (bounded_text j))"

definition decode_event :: "json \<Rightarrow> server_event option" where
  "decode_event j =
     (case int_from 1 (json_get ''userId'' j) of
        None \<Rightarrow> None
      | Some u \<Rightarrow>
          if json_get ''type'' j = Some (JStr ''grant.applied'') then
            (case (int_from 1 (json_get ''grantedSeconds'' j), bounded_text (json_get ''reason'' j), nullable_positive (json_get ''activityId'' j)) of
               (Some secs, Some reason, Some a) \<Rightarrow> Some (Grant_Applied u secs reason a) | _ \<Rightarrow> None)
          else if json_get ''type'' j = Some (JStr ''policy.changed'') then map_option (Policy_Changed u) (optional_text (json_get ''summary'' j))
          else if json_get ''type'' j = Some (JStr ''enforce.force_close'') then map_option (Force_Close u) (int_from 1 (json_get ''activityId'' j))
          else if json_get ''type'' j = Some (JStr ''enforce.session_lock'') then Some (Session_Lock u)
          else if json_get ''type'' j = Some (JStr ''lockout.cleared'') then Some (Lockout_Cleared u)
          else None)"

definition eventFrameSchema :: "(string \<Rightarrow> bool) \<Rightarrow> json \<Rightarrow> client_frame option" where
  "eventFrameSchema iso_datetime j =
     (case (int_from 0 (json_get ''seq'' j), json_get ''at'' j, Option.bind (json_get ''event'' j) decode_event) of
        (Some n, Some (JStr t), Some e) \<Rightarrow> if iso_datetime t then Some \<lparr>cf_seq = n, cf_at = t, cf_event = e\<rparr> else None
      | _ \<Rightarrow> None)"

datatype frame_error = Not_Json | Schema_Failed

definition decodeFrame :: "(string \<Rightarrow> json option) \<Rightarrow> (string \<Rightarrow> bool) \<Rightarrow> string \<Rightarrow> frame_error + client_frame" where
  "decodeFrame json_parse iso_datetime text =
     (case json_parse text of
        None \<Rightarrow> Inl Not_Json
      | Some j \<Rightarrow> (case eventFrameSchema iso_datetime j of None \<Rightarrow> Inl Schema_Failed | Some f \<Rightarrow> Inr f))"

text \<open>A frame as \<open>JSON.stringify\<close> sees it.\<close>

fun event_json :: "server_event \<Rightarrow> json" where
  "event_json (Grant_Applied u secs reason a) = JObj [(''type'', JStr ''grant.applied''), (''userId'', JNum u), (''grantedSeconds'', JNum secs),
     (''reason'', JStr reason), (''activityId'', case a of None \<Rightarrow> JNull | Some i \<Rightarrow> JNum i)]"
| "event_json (Policy_Changed u summary) = JObj ([(''type'', JStr ''policy.changed''), (''userId'', JNum u)]
     @ (case summary of None \<Rightarrow> [] | Some s \<Rightarrow> [(''summary'', JStr s)]))"
| "event_json (Force_Close u a) = JObj [(''type'', JStr ''enforce.force_close''), (''userId'', JNum u), (''activityId'', JNum a)]"
| "event_json (Session_Lock u) = JObj [(''type'', JStr ''enforce.session_lock''), (''userId'', JNum u)]"
| "event_json (Lockout_Cleared u) = JObj [(''type'', JStr ''lockout.cleared''), (''userId'', JNum u)]"

definition frame_json :: "client_frame \<Rightarrow> json" where
  "frame_json f = JObj [(''seq'', JNum (cf_seq f)), (''at'', JStr (cf_at f)), (''event'', event_json (cf_event f))]"

section \<open>The event-stream client\<close>

record ws_client =
  ws_socket :: "nat option"
  ws_reconnectTimer :: "nat option"
  ws_attempt :: int
  ws_stopped :: bool

text \<open>Beside it, what it has created: the sockets not closed yet, and the timers that are set.\<close>

record 'c link_world =
  lk_client :: 'c
  lk_live :: "nat list"
  lk_timers :: "nat list"
  lk_next :: nat

datatype link_event = Start_Call | Stop_Link | Opened nat | Data nat string | Errored nat | Closed_Link nat rat | Timer_Expired nat

datatype 'm link_action = Connect_To nat | Wait_Ms int | Drop_Socket nat | Deliver 'm

definition new_WsClient :: "ws_client link_world" where
  "new_WsClient = \<lparr>lk_client = \<lparr>ws_socket = None, ws_reconnectTimer = None, ws_attempt = 0, ws_stopped = False\<rparr>,
     lk_live = [], lk_timers = [], lk_next = 0\<rparr>"

definition ws_connect :: "ws_client link_world \<Rightarrow> ws_client link_world \<times> 'm link_action list" where
  "ws_connect w =
     (w\<lparr>lk_client := (lk_client w)\<lparr>ws_reconnectTimer := None, ws_socket := Some (lk_next w)\<rparr>,
        lk_live := lk_live w @ [lk_next w], lk_next := lk_next w + 1\<rparr>, [Connect_To (lk_next w)])"

definition ws_start :: "ws_client link_world \<Rightarrow> ws_client link_world \<times> 'm link_action list" where
  "ws_start w = ws_connect (w\<lparr>lk_client := (lk_client w)\<lparr>ws_stopped := False\<rparr>\<rparr>)"

definition ws_stop :: "ws_client link_world \<Rightarrow> ws_client link_world \<times> 'm link_action list" where
  "ws_stop w =
     (let c = lk_client w in
      (w\<lparr>lk_client := c\<lparr>ws_stopped := True, ws_reconnectTimer := None, ws_socket := None\<rparr>,
         lk_timers := (case ws_reconnectTimer c of None \<Rightarrow> lk_timers w | Some t \<Rightarrow> removeAll t (lk_timers w))\<rparr>,
       case ws_socket c of None \<Rightarrow> [] | Some s \<Rightarrow> [Drop_Socket s]))"

definition ws_scheduleReconnect :: "backoff_options \<Rightarrow> rat \<Rightarrow> ws_client link_world \<Rightarrow> ws_client link_world \<times> 'm link_action list" where
  "ws_scheduleReconnect opts draw w =
     (w\<lparr>lk_client := (lk_client w)\<lparr>ws_attempt := ws_attempt (lk_client w) + 1, ws_reconnectTimer := Some (lk_next w)\<rparr>,
        lk_timers := lk_timers w @ [lk_next w], lk_next := lk_next w + 1\<rparr>,
      [Wait_Ms (computeBackoffDelayMs (ws_attempt (lk_client w)) opts draw)])"

definition ws_closed :: "backoff_options \<Rightarrow> nat \<Rightarrow> rat \<Rightarrow> ws_client link_world \<Rightarrow> ws_client link_world \<times> 'm link_action list" where
  "ws_closed opts s draw w =
     (let w1 = w\<lparr>lk_client := (lk_client w)\<lparr>ws_socket := None\<rparr>, lk_live := removeAll s (lk_live w)\<rparr> in
      if ws_stopped (lk_client w) then (w1, []) else ws_scheduleReconnect opts draw w1)"

definition ws_timer_expired :: "nat \<Rightarrow> ws_client link_world \<Rightarrow> ws_client link_world \<times> 'm link_action list" where
  "ws_timer_expired t w =
     (let w1 = w\<lparr>lk_timers := removeAll t (lk_timers w)\<rparr> in
      if ws_stopped (lk_client w) then (w1, []) else ws_connect w1)"

record link_config =
  lc_backoff :: backoff_options
  lc_json :: "string \<Rightarrow> json option"
  lc_isoDatetime :: "string \<Rightarrow> bool"

definition ws_onMessage :: "link_config \<Rightarrow> string \<Rightarrow> client_frame link_action list" where
  "ws_onMessage cfg text = (case decodeFrame (lc_json cfg) (lc_isoDatetime cfg) text of Inl _ \<Rightarrow> [] | Inr f \<Rightarrow> [Deliver f])"

text \<open>
  The callbacks of a socket come while it is open, those of a timer while it is set. The draw of the random
  numbers for the delay is part of a close.
\<close>

fun ws_step :: "link_config \<Rightarrow> ws_client link_world \<Rightarrow> link_event \<Rightarrow> ws_client link_world \<times> client_frame link_action list" where
  "ws_step cfg w Start_Call = ws_start w"
| "ws_step cfg w Stop_Link = ws_stop w"
| "ws_step cfg w (Opened s) = (if s \<in> set (lk_live w) then (w\<lparr>lk_client := (lk_client w)\<lparr>ws_attempt := 0\<rparr>\<rparr>, []) else (w, []))"
| "ws_step cfg w (Data s text) = (w, if s \<in> set (lk_live w) then ws_onMessage cfg text else [])"
| "ws_step cfg w (Errored s) = (w, [])"
| "ws_step cfg w (Closed_Link s draw) = (if s \<in> set (lk_live w) then ws_closed (lc_backoff cfg) s draw w else (w, []))"
| "ws_step cfg w (Timer_Expired t) = (if t \<in> set (lk_timers w) then ws_timer_expired t w else (w, []))"

section \<open>The dispatcher\<close>

record user_socket =
  dk_userId :: int
  dk_linuxUid :: int
  dk_path :: string
  dk_connections :: "nat list"

text \<open>With the sockets, the paths that exist in the file system.\<close>

record dispatcher =
  dp_byUserId :: "(int \<times> user_socket) list"
  dp_files :: "string list"

definition new_Dispatcher :: "bridge_config \<Rightarrow> string list \<Rightarrow> dispatcher" where
  "new_Dispatcher c files =
     \<lparr>dp_byUserId = foldl (\<lambda>m u. AList.update (um_userId u)
        \<lparr>dk_userId = um_userId u, dk_linuxUid = um_linuxUid u, dk_path = socketPathForUid c (um_linuxUid u), dk_connections = []\<rparr> m) [] (bc_users c),
      dp_files = files\<rparr>"

text \<open>A bind may fail, before its file exists, and the change of its mode may, after.\<close>

datatype bind_result = Bound | Bind_Failed | Chmod_Failed

definition listen_socket :: "(string \<Rightarrow> bind_result) \<Rightarrow> string \<Rightarrow> string list \<Rightarrow> bool \<times> string list" where
  "listen_socket bind path files =
     (let files1 = removeAll path files in
      case bind path of
        Bound \<Rightarrow> (True, files1 @ [path])
      | Bind_Failed \<Rightarrow> (False, files1)
      | Chmod_Failed \<Rightarrow> (False, files1 @ [path]))"

fun listen_all :: "(string \<Rightarrow> bind_result) \<Rightarrow> user_socket list \<Rightarrow> string list \<Rightarrow> bool \<times> string list" where
  "listen_all bind [] files = (True, files)"
| "listen_all bind (u # us) files =
     (case listen_socket bind (dk_path u) files of
        (True, files1) \<Rightarrow> listen_all bind us files1
      | (False, files1) \<Rightarrow> (False, files1))"

definition dispatcher_stop :: "dispatcher \<Rightarrow> dispatcher" where
  "dispatcher_stop d =
     \<lparr>dp_byUserId = map (\<lambda>(i, u). (i, u\<lparr>dk_connections := []\<rparr>)) (dp_byUserId d),
      dp_files = foldl (\<lambda>files u. removeAll (dk_path u) files) (dp_files d) (map snd (dp_byUserId d))\<rparr>"

definition dispatcher_start :: "(string \<Rightarrow> bind_result) \<Rightarrow> dispatcher \<Rightarrow> bool \<times> dispatcher" where
  "dispatcher_start bind d =
     (case listen_all bind (map snd (dp_byUserId d)) (dp_files d) of
        (True, files) \<Rightarrow> (True, d\<lparr>dp_files := files\<rparr>)
      | (False, files) \<Rightarrow> (False, dispatcher_stop (d\<lparr>dp_files := files\<rparr>)))"

definition agent_connected :: "int \<Rightarrow> nat \<Rightarrow> dispatcher \<Rightarrow> dispatcher" where
  "agent_connected userId conn d =
     (case map_of (dp_byUserId d) userId of
        None \<Rightarrow> d
      | Some u \<Rightarrow> d\<lparr>dp_byUserId := AList.update userId (u\<lparr>dk_connections := js_set_add conn (dk_connections u)\<rparr>) (dp_byUserId d)\<rparr>)"

definition agent_dropped :: "int \<Rightarrow> nat \<Rightarrow> dispatcher \<Rightarrow> dispatcher" where
  "agent_dropped userId conn d =
     (case map_of (dp_byUserId d) userId of
        None \<Rightarrow> d
      | Some u \<Rightarrow> d\<lparr>dp_byUserId := AList.update userId (u\<lparr>dk_connections := removeAll conn (dk_connections u)\<rparr>) (dp_byUserId d)\<rparr>)"

text \<open>The writes a frame causes: a line for each connection of the user it is addressed to.\<close>

definition dispatch_frame :: "(json \<Rightarrow> string) \<Rightarrow> client_frame \<Rightarrow> dispatcher \<Rightarrow> (nat \<times> string) list" where
  "dispatch_frame stringify f d =
     (case map_of (dp_byUserId d) (ev_user (cf_event f)) of
        None \<Rightarrow> []
      | Some u \<Rightarrow> map (\<lambda>conn. (conn, stringify (frame_json f) @ [CHR 0x0A])) (dk_connections u))"

definition dispatcher_connectionCount :: "dispatcher \<Rightarrow> int \<Rightarrow> int" where
  "dispatcher_connectionCount d userId =
     (case map_of (dp_byUserId d) userId of None \<Rightarrow> 0 | Some u \<Rightarrow> int (length (dk_connections u)))"

section \<open>Bounds of the delays\<close>

text \<open>
  A reconnect delay is never negative and stays below the doubled base of its attempt and below the ceiling; from
  the thirty-first attempt on only the ceiling bounds it.
\<close>

theorem reconnect_delay_bounded:
  assumes "0 < bo_baseMs opts" "bo_baseMs opts \<le> bo_maxMs opts" "0 \<le> draw" "draw < 1" "0 \<le> k"
  shows "0 \<le> computeBackoffDelayMs k opts draw
     \<and> computeBackoffDelayMs k opts draw < (if k < 31 then min (bo_maxMs opts) (bo_baseMs opts * 2 ^ nat k) else bo_maxMs opts)"
proof -
  have one: "bo_baseMs opts \<le> bo_baseMs opts * 2 ^ nat k" using assms(1) by simp
  have cap: "backoff_cap k opts = (if k < 31 then min (bo_maxMs opts) (bo_baseMs opts * 2 ^ nat k) else bo_maxMs opts)"
    using assms(2,5) one by (auto simp: backoff_cap_def Let_def)
  have pos: "0 < backoff_cap k opts" using assms(1,2) one unfolding cap by auto
  then have "draw * of_int (backoff_cap k opts) < 1 * of_int (backoff_cap k opts)"
    using assms(4) by (intro mult_strict_right_mono) auto
  then have "computeBackoffDelayMs k opts draw < backoff_cap k opts"
    unfolding computeBackoffDelayMs_def by (simp add: floor_less_iff)
  moreover have "0 \<le> computeBackoffDelayMs k opts draw" using pos assms(3) by (simp add: computeBackoffDelayMs_def)
  ultimately show ?thesis unfolding cap by blast
qed

lemma reconnect_delay_bounded_witness: "0 \<le> computeBackoffDelayMs 3 DEFAULT_BACKOFF (1 / 2) \<and> computeBackoffDelayMs 3 DEFAULT_BACKOFF (1 / 2) < 8000"
  using reconnect_delay_bounded [of DEFAULT_BACKOFF "1 / 2" 3] by (simp add: DEFAULT_BACKOFF_def eval_nat_numeral)

text \<open>The answers to a series of crashes, each given by when its run started and ended.\<close>

fun restart_answers :: "restart_options \<Rightarrow> restart_backoff \<Rightarrow> (instant \<times> instant) list \<Rightarrow> int option list" where
  "restart_answers opts b [] = []"
| "restart_answers opts b ((started, ended) # runs) =
     (case nextDelayMs opts ended (markStarted started b) of (b', answer) \<Rightarrow> answer # restart_answers opts b' runs)"

lemma restart_answers_short:
  assumes "list_all (\<lambda>(started, ended). ended - started < ro_stableMs opts) runs" "0 \<le> rb_count b" "rb_count b \<le> ro_maxRestarts opts"
  shows "restart_answers opts b runs =
     map (\<lambda>i. if rb_count b + int i < ro_maxRestarts opts then Some (min (ro_baseMs opts * 2 ^ (nat (rb_count b) + i)) (ro_maxMs opts)) else None)
       [0..<length runs]"
  using assms
proof (induction runs arbitrary: b)
  case (Cons run runs)
  obtain started ended where run: "run = (started, ended)" by (cases run)
  have short: "\<not> ro_stableMs opts \<le> ended - started" using Cons.prems(1) by (simp add: run)
  have upt: "[0..<Suc n] = 0 # map Suc [0..<n]" for n by (simp add: upt_conv_Cons map_Suc_upt del: upt_Suc)
  have counted: "nat (rb_count b + 1) = Suc (nat (rb_count b))" using Cons.prems(2) by simp
  show ?case
  proof (cases "rb_count b < ro_maxRestarts opts")
    case True
    let ?b = "\<lparr>rb_count = rb_count b + 1, rb_startedAt = Some started\<rparr>"
    have step: "nextDelayMs opts ended (markStarted started b) = (?b, Some (min (ro_baseMs opts * 2 ^ nat (rb_count b)) (ro_maxMs opts)))"
      using short True by (simp add: nextDelayMs_def markStarted_def Let_def)
    have "restart_answers opts ?b runs =
        map (\<lambda>i. if rb_count b + (1 + int i) < ro_maxRestarts opts then Some (min (ro_baseMs opts * 2 ^ (Suc (nat (rb_count b)) + i)) (ro_maxMs opts)) else None)
          [0..<length runs]"
      using Cons.IH [of ?b] Cons.prems True counted by (simp add: add.assoc cong: if_cong)
    then show ?thesis unfolding run restart_answers.simps step length_Cons upt prod.case using True by (simp add: comp_def)
  next
    case False
    let ?b = "markStarted started b"
    have step: "nextDelayMs opts ended ?b = (?b, None)"
      using short False by (simp add: nextDelayMs_def markStarted_def Let_def)
    have count: "rb_count ?b = rb_count b" by (simp add: markStarted_def)
    have "restart_answers opts ?b runs =
        map (\<lambda>i. if rb_count b + int i < ro_maxRestarts opts then Some (min (ro_baseMs opts * 2 ^ (nat (rb_count b) + i)) (ro_maxMs opts)) else None)
          [0..<length runs]"
      using Cons.IH [of ?b] Cons.prems unfolding count by simp
    then show ?thesis unfolding run restart_answers.simps step length_Cons upt prod.case using False by (simp add: comp_def)
  qed
qed simp

text \<open>
  A child that keeps crashing before it counts as stable is restarted exactly the permitted number of times, after
  delays that double up to the ceiling, and never again.
\<close>

theorem crash_loop_gives_up:
  assumes "list_all (\<lambda>(started, ended). ended - started < ro_stableMs opts) runs" "0 \<le> ro_maxRestarts opts"
  shows "restart_answers opts new_RestartBackoff runs =
     map (\<lambda>i. if int i < ro_maxRestarts opts then Some (min (ro_baseMs opts * 2 ^ i) (ro_maxMs opts)) else None) [0..<length runs]"
  using restart_answers_short [of opts runs new_RestartBackoff] assms by (simp add: new_RestartBackoff_def)

lemma crash_loop_gives_up_witness:
  "restart_answers \<lparr>ro_maxRestarts = 2, ro_stableMs = 60000, ro_baseMs = 1000, ro_maxMs = 30000\<rparr> new_RestartBackoff [(0, 5), (1005, 1010), (3010, 3020)]
     = [Some 1000, Some 2000, None]"
  using crash_loop_gives_up [of "\<lparr>ro_maxRestarts = 2, ro_stableMs = 60000, ro_baseMs = 1000, ro_maxMs = 30000\<rparr>" "[(0, 5), (1005, 1010), (3010, 3020)]"]
  by (simp add: upt_rec)

section \<open>Frames survive the wire\<close>

lemma event_roundtrip: "serverEventSchema e \<Longrightarrow> decode_event (event_json e) = Some e"
  by (cases e) (auto simp: decode_event_def json_get_def Event_Stream.positive_def bounded_text_def nullable_positive_def optional_text_def
      split: option.splits)

lemma frame_json_roundtrip:
  assumes "0 \<le> cf_seq f" "iso_datetime (cf_at f)" "serverEventSchema (cf_event f)"
  shows "eventFrameSchema iso_datetime (frame_json f) = Some f"
  using assms event_roundtrip [OF assms(3)] by (simp add: eventFrameSchema_def frame_json_def json_get_def)

text \<open>
  Every event that is valid for the server decodes on the client to the event that was sent, as far as the JSON of the
  platform reads back the frame it wrote.
\<close>

theorem client_decodes_server_events:
  assumes "json_parse (stringify (frame_json f)) = Some (frame_json f)"
    and "0 \<le> cf_seq f" "iso_datetime (cf_at f)" "serverEventSchema (cf_event f)"
  shows "decodeFrame json_parse iso_datetime (stringify (frame_json f)) = Inr f"
  using assms frame_json_roundtrip [of f iso_datetime] by (simp add: decodeFrame_def)

definition grant_frame :: client_frame where
  "grant_frame = \<lparr>cf_seq = 4, cf_at = ''2025-03-01T12:00:00Z'', cf_event = Grant_Applied 1 900 ''chores'' None\<rparr>"

definition lock_frame :: client_frame where
  "lock_frame = \<lparr>cf_seq = 5, cf_at = ''2025-03-01T12:00:01Z'', cf_event = Session_Lock 2\<rparr>"

text \<open>A printer and a parser that know these two frames.\<close>

definition tiny_print :: "json \<Rightarrow> string" where
  "tiny_print j = (if j = frame_json grant_frame then ''{4}'' else if j = frame_json lock_frame then ''{5}'' else [])"

definition tiny_parse :: "string \<Rightarrow> json option" where
  "tiny_parse s = (if s = ''{4}'' then Some (frame_json grant_frame) else if s = ''{5}'' then Some (frame_json lock_frame) else None)"

lemma tiny_codec:
  "tiny_print (frame_json grant_frame) = ''{4}''" "tiny_print (frame_json lock_frame) = ''{5}''"
  by (simp_all add: tiny_print_def frame_json_def grant_frame_def lock_frame_def)

lemma client_decodes_server_events_witness:
  "decodeFrame tiny_parse (\<lambda>s. length s = 20) (tiny_print (frame_json grant_frame)) = Inr grant_frame"
proof (rule client_decodes_server_events)
  show "tiny_parse (tiny_print (frame_json grant_frame)) = Some (frame_json grant_frame)" by (simp only: tiny_codec) (simp add: tiny_parse_def)
qed (simp_all add: grant_frame_def Event_Stream.positive_def short_text_def)

section \<open>Links recover\<close>

text \<open>
  What a reconnecting client promises, seen from outside: it is connected, or waiting for one timer, or stopped. The
  phases and their order are the specification; both clients of the package refine it.
\<close>

datatype link_phase = Connected nat | Waiting nat | Halted

fun follows :: "link_phase \<Rightarrow> link_event \<Rightarrow> link_phase \<Rightarrow> bool" where
  "follows p Stop_Link p' \<longleftrightarrow> p' = Halted"
| "follows (Connected n) (Closed_Link m draw) p' \<longleftrightarrow> (if m = n then (case p' of Waiting t \<Rightarrow> True | _ \<Rightarrow> False) else p' = Connected n)"
| "follows (Waiting t) (Timer_Expired u) p' \<longleftrightarrow> (if u = t then (case p' of Connected n \<Rightarrow> True | _ \<Rightarrow> False) else p' = Waiting t)"
| "follows p e p' \<longleftrightarrow> p' = p"

fun link_run :: "('s \<Rightarrow> link_event \<Rightarrow> 's \<times> 'm link_action list) \<Rightarrow> 's \<Rightarrow> link_event list \<Rightarrow> 's \<times> 'm link_action list" where
  "link_run step s [] = (s, [])"
| "link_run step s (e # es) = (case step s e of (s1, out1) \<Rightarrow> case link_run step s1 es of (s2, out2) \<Rightarrow> (s2, out1 @ out2))"

lemma link_run_Cons: "link_run step s (e # es) =
    (fst (link_run step (fst (step s e)) es), snd (step s e) @ snd (link_run step (fst (step s e)) es))"
  by (simp add: case_prod_beta)

declare link_run.simps(2) [simp del]

definition connects :: "'m link_action list \<Rightarrow> bool" where
  "connects out \<longleftrightarrow> list_ex (\<lambda>a. case a of Connect_To n \<Rightarrow> True | _ \<Rightarrow> False) out"

locale reconnecting =
  fixes step :: "'s \<Rightarrow> link_event \<Rightarrow> 's \<times> 'm link_action list"
    and in_phase :: "'s \<Rightarrow> link_phase \<Rightarrow> bool"
  assumes step_follows: "in_phase s p \<Longrightarrow> e \<noteq> Start_Call \<Longrightarrow> \<exists>p'. in_phase (fst (step s e)) p' \<and> follows p e p'"
    and step_connects: "in_phase s p \<Longrightarrow> e \<noteq> Start_Call \<Longrightarrow> connects (snd (step s e)) \<longleftrightarrow> (\<exists>t. p = Waiting t \<and> e = Timer_Expired t)"
begin

lemma stays_up:
  assumes "in_phase s p" "p \<noteq> Halted" "Start_Call \<notin> set es" "Stop_Link \<notin> set es"
  shows "\<exists>p'. in_phase (fst (link_run step s es)) p' \<and> p' \<noteq> Halted"
  using assms
proof (induction es arbitrary: s p)
  case (Cons e es)
  then obtain p' where p': "in_phase (fst (step s e)) p'" "follows p e p'" using step_follows [of s p e] by auto
  have "p' \<noteq> Halted" using p'(2) Cons.prems(2,4) by (cases "(p, e, p')" rule: follows.cases) (auto split: if_splits link_phase.splits)
  from Cons.IH [OF p'(1) this] Cons.prems(3,4) show ?case by (simp add: link_run_Cons)
qed auto

lemma stays_down:
  assumes "in_phase s Halted" "Start_Call \<notin> set es"
  shows "in_phase (fst (link_run step s es)) Halted \<and> \<not> connects (snd (link_run step s es))"
  using assms
proof (induction es arbitrary: s)
  case (Cons e es)
  then obtain p' where p': "in_phase (fst (step s e)) p'" "follows Halted e p'" using step_follows [of s Halted e] by auto
  have "p' = Halted" using p'(2) by (cases e) auto
  moreover have "\<not> connects (snd (step s e))" using step_connects [of s Halted e] Cons.prems by auto
  ultimately show ?case using Cons.IH [of "fst (step s e)"] p'(1) Cons.prems(2) by (simp add: link_run_Cons connects_def)
qed (simp add: connects_def)

end

definition ws_in_phase :: "ws_client link_world \<Rightarrow> link_phase \<Rightarrow> bool" where
  "ws_in_phase w p \<longleftrightarrow>
     (case p of
        Connected s \<Rightarrow> ws_socket (lk_client w) = Some s \<and> lk_live w = [s] \<and> lk_timers w = []
          \<and> ws_reconnectTimer (lk_client w) = None \<and> \<not> ws_stopped (lk_client w)
      | Waiting t \<Rightarrow> ws_socket (lk_client w) = None \<and> lk_live w = [] \<and> lk_timers w = [t]
          \<and> ws_reconnectTimer (lk_client w) = Some t \<and> \<not> ws_stopped (lk_client w)
      | Halted \<Rightarrow> ws_socket (lk_client w) = None \<and> lk_timers w = [] \<and> ws_reconnectTimer (lk_client w) = None \<and> ws_stopped (lk_client w))"

lemmas ws_defs = ws_connect_def ws_start_def ws_stop_def ws_scheduleReconnect_def ws_closed_def ws_timer_expired_def ws_onMessage_def

interpretation ws: reconnecting "ws_step cfg" ws_in_phase
proof unfold_locales
  fix w :: "ws_client link_world" and p e
  assume "ws_in_phase w p" "e \<noteq> Start_Call"
  then show "\<exists>p'. ws_in_phase (fst (ws_step cfg w e)) p' \<and> follows p e p'"
    by (cases p; cases e) (auto simp: ws_in_phase_def ws_defs Let_def split: link_phase.splits)
next
  fix w :: "ws_client link_world" and p e
  assume "ws_in_phase w p" "e \<noteq> Start_Call"
  then show "connects (snd (ws_step cfg w e)) \<longleftrightarrow> (\<exists>t. p = Waiting t \<and> e = Timer_Expired t)"
    by (cases p; cases e) (auto simp: ws_in_phase_def ws_defs connects_def Let_def split: sum.splits)
qed

lemma ws_after_start: "ws_in_phase (fst (ws_step cfg new_WsClient Start_Call)) (Connected 0)"
  by (simp add: ws_in_phase_def ws_defs new_WsClient_def)

text \<open>
  C40 Once started and until it is stopped, the bridge never loses its stream for good and never has two: however opens,
  errors, closes, messages and timers interleave, it has one open socket, or one timer set that will connect again.
\<close>

theorem bridge_link_recovers:
  fixes cfg :: link_config
  assumes "Start_Call \<notin> set es" "Stop_Link \<notin> set es"
  defines "w \<equiv> fst (link_run (ws_step cfg) new_WsClient (Start_Call # es))"
  shows "length (lk_live w) + length (lk_timers w) = 1
     \<and> list_all (\<lambda>t. connects (snd (ws_step cfg w (Timer_Expired t)))) (lk_timers w)"
proof -
  obtain p where p: "ws_in_phase w p" "p \<noteq> Halted"
    using ws.stays_up [OF ws_after_start _ assms(1,2), of cfg] by (auto simp: w_def link_run_Cons)
  from p show ?thesis
    by (cases p) (auto simp: ws_in_phase_def ws_timer_expired_def ws_connect_def connects_def Let_def)
qed

definition demo_link :: link_config where
  "demo_link = \<lparr>lc_backoff = DEFAULT_BACKOFF, lc_json = tiny_parse, lc_isoDatetime = (\<lambda>s. length s = 20)\<rparr>"

lemma bridge_link_recovers_witness:
  "lk_timers (fst (link_run (ws_step demo_link) new_WsClient [Start_Call, Opened 0, Data 0 ''{4}'', Errored 0, Closed_Link 0 (1 / 2)])) = [1]
     \<and> length (lk_live (fst (link_run (ws_step demo_link) new_WsClient [Start_Call, Opened 0, Data 0 ''{4}'', Errored 0, Closed_Link 0 (1 / 2)]))) = 0"
proof -
  have "lk_timers (fst (link_run (ws_step demo_link) new_WsClient [Start_Call, Opened 0, Data 0 ''{4}'', Errored 0, Closed_Link 0 (1 / 2)])) = [1]"
    by (simp add: link_run_Cons ws_defs new_WsClient_def)
  with bridge_link_recovers [of "[Opened 0, Data 0 ''{4}'', Errored 0, Closed_Link 0 (1 / 2)]" demo_link] show ?thesis by simp
qed

section \<open>Every agent gets its own frames\<close>

datatype agent_op = Agent_Up int nat | Agent_Down int nat

fun apply_agent_op :: "dispatcher \<Rightarrow> agent_op \<Rightarrow> dispatcher" where
  "apply_agent_op d (Agent_Up u c) = agent_connected u c d"
| "apply_agent_op d (Agent_Down u c) = agent_dropped u c d"

text \<open>The connections of a user after a history, latest first.\<close>

fun attached :: "agent_op list \<Rightarrow> int \<Rightarrow> nat \<Rightarrow> bool" where
  "attached [] u c \<longleftrightarrow> False"
| "attached (Agent_Up u' c' # ops) u c \<longleftrightarrow> u' = u \<and> c' = c \<or> attached ops u c"
| "attached (Agent_Down u' c' # ops) u c \<longleftrightarrow> \<not> (u' = u \<and> c' = c) \<and> attached ops u c"

lemma dispatcher_sockets:
  "map_of (dp_byUserId (new_Dispatcher cfg files)) u \<noteq> None \<longleftrightarrow> u \<in> um_userId ` set (bc_users cfg)"
  "map_of (dp_byUserId (new_Dispatcher cfg files)) u = Some k \<Longrightarrow> dk_connections k = []"
proof -
  let ?step = "\<lambda>m x. AList.update (um_userId x)
    \<lparr>dk_userId = um_userId x, dk_linuxUid = um_linuxUid x, dk_path = socketPathForUid cfg (um_linuxUid x), dk_connections = []\<rparr> m"
  have dom: "map_of (foldl ?step m us) u \<noteq> None \<longleftrightarrow> u \<in> um_userId ` set us \<or> map_of m u \<noteq> None" for m us
    by (induction us arbitrary: m) simp_all
  have empty: "map_of (foldl ?step m us) u = Some k \<Longrightarrow> (\<And>k. map_of m u = Some k \<Longrightarrow> dk_connections k = []) \<Longrightarrow> dk_connections k = []" for m us
  proof (induction us arbitrary: m)
    case (Cons x us)
    have "map_of (?step m x) u = Some k' \<Longrightarrow> dk_connections k' = []" for k'
      using Cons.prems(2) by (simp split: if_splits) auto
    then show ?case using Cons.IH [of "?step m x"] Cons.prems(1) by simp
  qed simp
  show "map_of (dp_byUserId (new_Dispatcher cfg files)) u \<noteq> None \<longleftrightarrow> u \<in> um_userId ` set (bc_users cfg)"
    using dom [of "[]" "bc_users cfg"] by (simp add: new_Dispatcher_def)
  show "map_of (dp_byUserId (new_Dispatcher cfg files)) u = Some k \<Longrightarrow> dk_connections k = []"
    using empty [of "[]" "bc_users cfg"] by (simp add: new_Dispatcher_def)
qed

lemma agent_history:
  "(map_of (dp_byUserId (foldr (\<lambda>e d. apply_agent_op d e) ops (new_Dispatcher cfg files))) u \<noteq> None \<longleftrightarrow> u \<in> um_userId ` set (bc_users cfg))
   \<and> (\<forall>k. map_of (dp_byUserId (foldr (\<lambda>e d. apply_agent_op d e) ops (new_Dispatcher cfg files))) u = Some k \<longrightarrow>
        distinct (dk_connections k) \<and> (\<forall>c. c \<in> set (dk_connections k) \<longleftrightarrow> attached ops u c))"
proof (induction ops arbitrary: u)
  case Nil
  show ?case using dispatcher_sockets [of cfg files u] by simp
next
  case (Cons e ops)
  let ?d = "foldr (\<lambda>e d. apply_agent_op d e) ops (new_Dispatcher cfg files)"
  show ?case
  proof (cases e)
    case (Agent_Up v c)
    show ?thesis
    proof (cases "map_of (dp_byUserId ?d) v")
      case None
      then show ?thesis using Cons.IH [of u] by (cases "u = v") (simp_all add: Agent_Up agent_connected_def)
    next
      case (Some k)
      then show ?thesis using Cons.IH [of u] Cons.IH [of v]
        by (cases "u = v") (auto simp add: Agent_Up agent_connected_def js_set_add_def)
    qed
  next
    case (Agent_Down v c)
    show ?thesis
    proof (cases "map_of (dp_byUserId ?d) v")
      case None
      then show ?thesis using Cons.IH [of u] by (cases "u = v") (simp_all add: Agent_Down agent_dropped_def)
    next
      case (Some k)
      then show ?thesis using Cons.IH [of u] Cons.IH [of v]
        by (cases "u = v") (auto simp add: Agent_Down agent_dropped_def distinct_removeAll)
    qed
  qed
qed

text \<open>
  A frame is written, as one line, to exactly the agents that are attached to the socket of the user it is addressed to,
  once each: no other user's agent sees it, and a frame for a user the client does not supervise goes nowhere.
\<close>

theorem dispatch_reaches_own_agents:
  "set (dispatch_frame stringify f (foldr (\<lambda>e d. apply_agent_op d e) ops (new_Dispatcher cfg files))) =
      {(c, stringify (frame_json f) @ [CHR 0x0A]) | c. ev_user (cf_event f) \<in> um_userId ` set (bc_users cfg) \<and> attached ops (ev_user (cf_event f)) c}
    \<and> distinct (map fst (dispatch_frame stringify f (foldr (\<lambda>e d. apply_agent_op d e) ops (new_Dispatcher cfg files))))"
proof -
  note hist = agent_history [of ops cfg files "ev_user (cf_event f)"]
  show ?thesis
  proof (cases "map_of (dp_byUserId (foldr (\<lambda>e d. apply_agent_op d e) ops (new_Dispatcher cfg files))) (ev_user (cf_event f))")
    case None
    then show ?thesis using hist by (simp add: dispatch_frame_def)
  next
    case (Some k)
    then show ?thesis using hist by (auto simp: dispatch_frame_def distinct_map comp_def)
  qed
qed

section \<open>All the sockets or none\<close>

lemma removeAll_fold: "set (foldl (\<lambda>files u. removeAll (dk_path u) files) files us) = set files - dk_path ` set us"
  by (induction us arbitrary: files) auto

lemma listen_all_bound:
  "listen_all bind us files = (True, files') \<Longrightarrow> dk_path ` set us \<union> set files \<subseteq> set files'"
proof (induction us arbitrary: files)
  case (Cons u us)
  then show ?case by (fastforce simp: listen_socket_def Let_def split: bind_result.splits prod.splits bool.splits)
qed simp

text \<open>
  The dispatcher starts as a whole or not at all: when a socket cannot be bound or made private, none of its socket files
  is left behind, and otherwise all of them are there.
\<close>

theorem dispatcher_starts_whole:
  "(case dispatcher_start bind d of
      (True, d') \<Rightarrow> (dk_path \<circ> snd) ` set (dp_byUserId d) \<subseteq> set (dp_files d')
    | (False, d') \<Rightarrow> (dk_path \<circ> snd) ` set (dp_byUserId d) \<inter> set (dp_files d') = {})"
proof (cases "listen_all bind (map snd (dp_byUserId d)) (dp_files d)")
  case (Pair ok files)
  then show ?thesis using listen_all_bound [of bind "map snd (dp_byUserId d)" "dp_files d" files]
    by (cases ok) (auto simp: dispatcher_start_def dispatcher_stop_def removeAll_fold image_comp)
qed

section \<open>A loaded configuration\<close>

text \<open>
  A configuration that loads supervises at least one user, maps its users one to one to local accounts, and has delays that the
  backoff can use.
\<close>

theorem loaded_config_valid:
  assumes "loadConfigFromEnv json_parse ws_url env = Inr c"
  shows "bc_users c \<noteq> [] \<and> distinct (map um_userId (bc_users c)) \<and> distinct (map um_linuxUid (bc_users c))
     \<and> 0 < bo_baseMs (bc_backoff c) \<and> bo_baseMs (bc_backoff c) \<le> bo_maxMs (bc_backoff c) \<and> 0 \<le> bc_socketMode c
     \<and> bc_token c \<noteq> [] \<and> bc_socketDir c \<noteq> [] \<and> ws_url (bc_serverUrl c)"
proof -
  obtain users mode backoff where schema: "bridgeConfigSchema ws_url env users mode backoff = Some c"
    using assms by (auto simp: loadConfigFromEnv_def bindE_eq_Inr split: option.splits)
  then obtain us where us: "usersSchema users = Some us" "bc_users c = us"
    by (auto simp: bridgeConfigSchema_def Let_def split: option.splits if_splits)
  have users: "us \<noteq> []" "distinct (map um_userId us)" "distinct (map um_linuxUid us)"
    using us(1) by (auto simp: usersSchema_def split: option.splits json.splits if_splits)
  have delays: "backoffSchema b x = Some o' \<Longrightarrow> 0 < bo_baseMs o' \<and> bo_baseMs o' \<le> bo_maxMs o'" for b x o'
    by (auto simp: backoffSchema_def split: option.splits if_splits)
  have "0 < bo_baseMs (bc_backoff c) \<and> bo_baseMs (bc_backoff c) \<le> bo_maxMs (bc_backoff c)"
    using schema delays
    by (cases backoff) (auto simp: bridgeConfigSchema_def DEFAULT_BACKOFF_def Let_def split: option.splits if_splits)
  moreover have "0 \<le> bc_socketMode c \<and> bc_token c \<noteq> [] \<and> bc_socketDir c \<noteq> [] \<and> ws_url (bc_serverUrl c)"
    using schema by (auto simp: bridgeConfigSchema_def Let_def split: option.splits if_splits prod.splits)
  ultimately show ?thesis using users us(2) by simp
qed

definition demo_env :: bridge_env where
  "demo_env = \<lparr>be_serverUrl = Some ''wss://dash.example/api/events/stream'', be_token = Some ''t'', be_socketDir = None, be_socketMode = None,
     be_users = Some ''[]'', be_backoffBaseMs = None, be_backoffMaxMs = None\<rparr>"

definition demo_users :: "string \<Rightarrow> json option" where
  "demo_users s = Some (JArr [JObj [(''userId'', JNum 1), (''linuxUid'', JNum 1001)], JObj [(''userId'', JNum 2), (''linuxUid'', JNum 1002)]])"

lemma demo_config:
  "loadConfigFromEnv demo_users (\<lambda>u. take 6 u = ''wss://'') demo_env =
     Inr \<lparr>bc_serverUrl = ''wss://dash.example/api/events/stream'', bc_token = ''t'', bc_socketDir = ''/run/pct'', bc_socketMode = 384,
       bc_users = [\<lparr>um_userId = 1, um_linuxUid = 1001\<rparr>, \<lparr>um_userId = 2, um_linuxUid = 1002\<rparr>], bc_backoff = DEFAULT_BACKOFF\<rparr>"
  by (simp add: loadConfigFromEnv_def demo_env_def demo_users_def parseOptionalInt_def bridgeConfigSchema_def usersSchema_def
      userMappingSchema_def json_get_def DEFAULT_SOCKET_DIR_def DEFAULT_SOCKET_MODE_def Let_def)

lemma loaded_config_valid_witness: "distinct (map um_userId [\<lparr>um_userId = 1, um_linuxUid = 1001\<rparr>, \<lparr>um_userId = 2, um_linuxUid = 1002\<rparr>])"
  using loaded_config_valid [OF demo_config] by simp

section \<open>The bridge does not shake hands\<close>

lemma silent_run:
  assumes "list_all (\<lambda>(fails, t, e). e \<in> {Ping_Timer, Pong}) es"
  shows "stream_run jp cfg (new_stream_conn, h, d) es = ((new_stream_conn, h, d), [])"
  using assms
proof (induction es rule: rev_induct)
  case (snoc x es)
  obtain fails t e where x: "x = (fails, t, e)" by (cases x) auto
  have "stream_step jp cfg (new_stream_conn, h, d) (fails, t, e) = ((new_stream_conn, h, d), [])"
    using snoc.prems by (auto simp: x new_stream_conn_def)
  then show ?case using snoc by (simp add: x stream_run_def)
qed (simp add: stream_run_def)

text \<open>
  The event stream refuses a client that opens it and says nothing, as the bridge does, which has no action that sends: when
  the handshake timer fires the socket is closed as malformed, and it was never registered for events.
\<close>

theorem silent_client_refused:
  assumes "list_all (\<lambda>(fails, t, e). e \<in> {Ping_Timer, Pong}) es"
  shows "\<exists>c. stream_run jp cfg (new_stream_conn, h, d) (es @ [(fails, t, Hello_Timer)]) =
     ((c, h, d), [Send_Handshake (Refuse Malformed_Hello), Close_Socket HANDSHAKE_CLOSE_CODE Close_Hello_Timeout])"
proof -
  have "stream_run jp cfg (new_stream_conn, h, d) (es @ [x]) =
      (case stream_step jp cfg (new_stream_conn, h, d) x of (s', out') \<Rightarrow> (s', out'))" for x
    using silent_run [OF assms, of jp cfg h d] by (simp add: stream_run_def)
  then show ?thesis by (simp add: new_stream_conn_def negotiate_def)
qed

lemma silent_client_refused_witness:
  "\<exists>c. stream_run (\<lambda>s. None) \<lparr>cfg_clientId = 1, cfg_socket = 3, cfg_updateRequired = False, cfg_serverProtocol = 1, cfg_compatWindow = 1\<rparr>
     (new_stream_conn, new_EventHub, alice_db) ([(None, 1000, Pong)] @ [(None, 10000, Hello_Timer)]) =
     ((c, new_EventHub, alice_db), [Send_Handshake (Refuse Malformed_Hello), Close_Socket HANDSHAKE_CLOSE_CODE Close_Hello_Timeout])"
  by (rule silent_client_refused) simp

end
