(* ===== verification/Agent_Socket.thy ===== *)
theory Agent_Socket
  imports Client_Bridge
begin

text \<open>
  The agent's end of the local socket (\<open>client/agent/src/agent/socket-client.ts\<close>): the chunks that arrive are
  decoded as UTF-8 one by one, cut into lines and decoded as frames; a dropped connection is retried. Strings
  are their UTF-8 bytes, so decoding a chunk leaves complete characters as they are and replaces every
  maximal incomplete or ill-formed sequence by the replacement character, as \<open>Buffer.toString\<close> does.
\<close>

section \<open>Decoding a chunk\<close>

definition byte :: "char \<Rightarrow> nat" where "byte c = of_char c"

text \<open>The ranges of the continuation bytes a leading byte asks for.\<close>

definition continuation :: "nat \<Rightarrow> (nat \<times> nat) list option" where
  "continuation n =
     (if 0xC2 \<le> n \<and> n \<le> 0xDF then Some [(0x80, 0xBF)]
      else if n = 0xE0 then Some [(0xA0, 0xBF), (0x80, 0xBF)]
      else if n = 0xED then Some [(0x80, 0x9F), (0x80, 0xBF)]
      else if 0xE1 \<le> n \<and> n \<le> 0xEF then Some [(0x80, 0xBF), (0x80, 0xBF)]
      else if n = 0xF0 then Some [(0x90, 0xBF), (0x80, 0xBF), (0x80, 0xBF)]
      else if 0xF1 \<le> n \<and> n \<le> 0xF3 then Some [(0x80, 0xBF), (0x80, 0xBF), (0x80, 0xBF)]
      else if n = 0xF4 then Some [(0x80, 0x8F), (0x80, 0xBF), (0x80, 0xBF)]
      else None)"

fun matching :: "(nat \<times> nat) list \<Rightarrow> string \<Rightarrow> nat" where
  "matching ((lo, hi) # rs) (c # s) = (if lo \<le> byte c \<and> byte c \<le> hi then Suc (matching rs s) else 0)"
| "matching _ _ = 0"

definition replacement :: string where "replacement = [CHR 0xEF, CHR 0xBF, CHR 0xBD]"

function utf8_text :: "string \<Rightarrow> string" where
  "utf8_text [] = []"
| "utf8_text (c # s) =
     (case continuation (byte c) of
        None \<Rightarrow> (if byte c < 0x80 then [c] else replacement) @ utf8_text s
      | Some rs \<Rightarrow>
          (let k = matching rs s in (if k = length rs then c # take k s else replacement) @ utf8_text (drop k s)))"
  by pat_completeness auto
termination by (relation "measure length") auto

section \<open>The client\<close>

definition FRAME_DELIMITER :: char where "FRAME_DELIMITER = CHR 0x0A"

record agent_socket =
  as_socket :: "nat option"
  as_reconnectTimer :: "nat option"
  as_buffer :: string
  as_attempt :: int
  as_stopped :: bool

definition new_AgentSocketClient :: "agent_socket link_world" where
  "new_AgentSocketClient = \<lparr>lk_client = \<lparr>as_socket = None, as_reconnectTimer = None, as_buffer = [], as_attempt = 0, as_stopped = False\<rparr>,
     lk_live = [], lk_timers = [], lk_next = 0\<rparr>"

definition as_connect :: "agent_socket link_world \<Rightarrow> agent_socket link_world \<times> 'm link_action list" where
  "as_connect w =
     (w\<lparr>lk_client := (lk_client w)\<lparr>as_reconnectTimer := None, as_buffer := [], as_socket := Some (lk_next w)\<rparr>,
        lk_live := lk_live w @ [lk_next w], lk_next := lk_next w + 1\<rparr>, [Connect_To (lk_next w)])"

definition as_start :: "agent_socket link_world \<Rightarrow> agent_socket link_world \<times> 'm link_action list" where
  "as_start w = as_connect (w\<lparr>lk_client := (lk_client w)\<lparr>as_stopped := False\<rparr>\<rparr>)"

definition as_stop :: "agent_socket link_world \<Rightarrow> agent_socket link_world \<times> 'm link_action list" where
  "as_stop w =
     (let c = lk_client w in
      (w\<lparr>lk_client := c\<lparr>as_stopped := True, as_reconnectTimer := None, as_socket := None, as_buffer := []\<rparr>,
         lk_timers := (case as_reconnectTimer c of None \<Rightarrow> lk_timers w | Some t \<Rightarrow> removeAll t (lk_timers w))\<rparr>,
       case as_socket c of None \<Rightarrow> [] | Some s \<Rightarrow> [Drop_Socket s]))"

definition as_scheduleReconnect :: "backoff_options \<Rightarrow> rat \<Rightarrow> agent_socket link_world \<Rightarrow> agent_socket link_world \<times> 'm link_action list" where
  "as_scheduleReconnect opts draw w =
     (w\<lparr>lk_client := (lk_client w)\<lparr>as_attempt := as_attempt (lk_client w) + 1, as_reconnectTimer := Some (lk_next w)\<rparr>,
        lk_timers := lk_timers w @ [lk_next w], lk_next := lk_next w + 1\<rparr>,
      [Wait_Ms (computeBackoffDelayMs (as_attempt (lk_client w)) opts draw)])"

definition as_closed :: "backoff_options \<Rightarrow> nat \<Rightarrow> rat \<Rightarrow> agent_socket link_world \<Rightarrow> agent_socket link_world \<times> 'm link_action list" where
  "as_closed opts s draw w =
     (let w1 = w\<lparr>lk_client := (lk_client w)\<lparr>as_socket := None\<rparr>, lk_live := removeAll s (lk_live w)\<rparr> in
      if as_stopped (lk_client w) then (w1, []) else as_scheduleReconnect opts draw w1)"

definition as_timer_expired :: "nat \<Rightarrow> agent_socket link_world \<Rightarrow> agent_socket link_world \<times> 'm link_action list" where
  "as_timer_expired t w =
     (let w1 = w\<lparr>lk_timers := removeAll t (lk_timers w)\<rparr> in
      if as_stopped (lk_client w) then (w1, []) else as_connect w1)"

text \<open>The loop over the delimiters in the buffer: the lines it cuts off, and the rest.\<close>

function cut_lines :: "string \<Rightarrow> string list \<times> string" where
  "cut_lines buffer =
     (if FRAME_DELIMITER \<in> set buffer
      then (case cut_lines (tl (dropWhile (\<lambda>c. c \<noteq> FRAME_DELIMITER) buffer)) of
              (lines, rest) \<Rightarrow> (takeWhile (\<lambda>c. c \<noteq> FRAME_DELIMITER) buffer # lines, rest))
      else ([], buffer))"
  by auto
termination
proof (relation "measure length")
  fix buffer :: string
  assume "FRAME_DELIMITER \<in> set buffer"
  then have "dropWhile (\<lambda>c. c \<noteq> FRAME_DELIMITER) buffer \<noteq> []" by (auto simp: dropWhile_eq_Nil_conv)
  then have "length (tl (dropWhile (\<lambda>c. c \<noteq> FRAME_DELIMITER) buffer)) < length (dropWhile (\<lambda>c. c \<noteq> FRAME_DELIMITER) buffer)"
    by (cases "dropWhile (\<lambda>c. c \<noteq> FRAME_DELIMITER) buffer") auto
  also have "\<dots> \<le> length buffer" by (rule length_dropWhile_le)
  finally show "(tl (dropWhile (\<lambda>c. c \<noteq> FRAME_DELIMITER) buffer), buffer) \<in> measure length" by simp
qed simp

declare cut_lines.simps [simp del]

definition handleLine :: "link_config \<Rightarrow> string \<Rightarrow> server_event link_action list" where
  "handleLine cfg line =
     (case decodeFrame (lc_json cfg) (lc_isoDatetime cfg) line of Inl _ \<Rightarrow> [] | Inr f \<Rightarrow> [Deliver (cf_event f)])"

definition onData :: "link_config \<Rightarrow> string \<Rightarrow> string \<Rightarrow> string \<times> server_event link_action list" where
  "onData cfg chunk buffer =
     (case cut_lines (buffer @ utf8_text chunk) of
        (lines, rest) \<Rightarrow> (rest, concat (map (handleLine cfg) (filter (\<lambda>l. js_trim l \<noteq> []) lines))))"

fun as_step :: "link_config \<Rightarrow> agent_socket link_world \<Rightarrow> link_event \<Rightarrow> agent_socket link_world \<times> server_event link_action list" where
  "as_step cfg w Start_Call = as_start w"
| "as_step cfg w Stop_Link = as_stop w"
| "as_step cfg w (Opened s) = (if s \<in> set (lk_live w) then (w\<lparr>lk_client := (lk_client w)\<lparr>as_attempt := 0\<rparr>\<rparr>, []) else (w, []))"
| "as_step cfg w (Data s chunk) =
     (if s \<in> set (lk_live w)
      then (case onData cfg chunk (as_buffer (lk_client w)) of (buffer, out) \<Rightarrow> (w\<lparr>lk_client := (lk_client w)\<lparr>as_buffer := buffer\<rparr>\<rparr>, out))
      else (w, []))"
| "as_step cfg w (Errored s) = (w, [])"
| "as_step cfg w (Closed_Link s draw) = (if s \<in> set (lk_live w) then as_closed (lc_backoff cfg) s draw w else (w, []))"
| "as_step cfg w (Timer_Expired t) = (if t \<in> set (lk_timers w) then as_timer_expired t w else (w, []))"

section \<open>The agent's link recovers too\<close>

definition as_in_phase :: "agent_socket link_world \<Rightarrow> link_phase \<Rightarrow> bool" where
  "as_in_phase w p \<longleftrightarrow>
     (case p of
        Connected s \<Rightarrow> as_socket (lk_client w) = Some s \<and> lk_live w = [s] \<and> lk_timers w = []
          \<and> as_reconnectTimer (lk_client w) = None \<and> \<not> as_stopped (lk_client w)
      | Waiting t \<Rightarrow> as_socket (lk_client w) = None \<and> lk_live w = [] \<and> lk_timers w = [t]
          \<and> as_reconnectTimer (lk_client w) = Some t \<and> \<not> as_stopped (lk_client w)
      | Halted \<Rightarrow> as_socket (lk_client w) = None \<and> lk_timers w = [] \<and> as_reconnectTimer (lk_client w) = None \<and> as_stopped (lk_client w))"

lemmas as_defs = as_connect_def as_start_def as_stop_def as_scheduleReconnect_def as_closed_def as_timer_expired_def

lemma onData_connects: "onData cfg chunk buffer = (rest, out) \<Longrightarrow> \<not> connects out"
  by (auto simp: onData_def connects_def handleLine_def list_ex_iff split: prod.splits sum.splits)

interpretation agent_link: reconnecting "as_step cfg" as_in_phase
proof unfold_locales
  fix w :: "agent_socket link_world" and p e
  assume "as_in_phase w p" "e \<noteq> Start_Call"
  then show "\<exists>p'. as_in_phase (fst (as_step cfg w e)) p' \<and> follows p e p'"
    by (cases p; cases e) (auto simp: as_in_phase_def as_defs Let_def split: link_phase.splits prod.splits)
next
  fix w :: "agent_socket link_world" and p e
  assume "as_in_phase w p" "e \<noteq> Start_Call"
  then show "connects (snd (as_step cfg w e)) \<longleftrightarrow> (\<exists>t. p = Waiting t \<and> e = Timer_Expired t)"
  proof (cases "\<exists>s chunk. e = Data s chunk")
    case True
    then show ?thesis using onData_connects [of cfg] by (auto split: prod.splits if_splits simp: connects_def)
  next
    case False
    with \<open>as_in_phase w p\<close> \<open>e \<noteq> Start_Call\<close> show ?thesis
      by (cases p; cases e) (auto simp: as_in_phase_def as_defs connects_def Let_def)
  qed
qed

lemma as_after_start: "as_in_phase (fst (as_step cfg new_AgentSocketClient Start_Call)) (Connected 0)"
  by (simp add: as_in_phase_def as_defs new_AgentSocketClient_def)

section \<open>Events travel from the bridge to the agent\<close>

text \<open>A chunk that ends on the boundary of a character.\<close>

function complete :: "string \<Rightarrow> bool" where
  "complete [] \<longleftrightarrow> True"
| "complete (c # s) \<longleftrightarrow>
     (case continuation (byte c) of
        None \<Rightarrow> byte c < 0x80 \<and> complete s
      | Some rs \<Rightarrow> matching rs s = length rs \<and> complete (drop (length rs) s))"
  by pat_completeness auto
termination by (relation "measure length") auto

lemma utf8_complete: "complete s \<Longrightarrow> utf8_text s = s"
  by (induction s rule: complete.induct) (auto simp: Let_def split: option.splits)

lemma cut_lines_rest: "FRAME_DELIMITER \<notin> set s \<Longrightarrow> cut_lines s = ([], s)"
  by (simp add: cut_lines.simps)

lemma cut_lines_line:
  assumes "FRAME_DELIMITER \<notin> set l"
  shows "cut_lines (l @ FRAME_DELIMITER # s) = (case cut_lines s of (ls, rest) \<Rightarrow> (l # ls, rest))"
proof -
  have "takeWhile (\<lambda>c. c \<noteq> FRAME_DELIMITER) (l @ FRAME_DELIMITER # s) = l"
    "tl (dropWhile (\<lambda>c. c \<noteq> FRAME_DELIMITER) (l @ FRAME_DELIMITER # s)) = s"
    using assms by (auto simp: takeWhile_append dropWhile_append)
  then show ?thesis by (subst cut_lines.simps) simp
qed

text \<open>Cutting what is left together with more text is cutting both in one go.\<close>

lemma cut_lines_append:
  "cut_lines s = (ls, rest) \<Longrightarrow> cut_lines (s @ t) = (case cut_lines (rest @ t) of (ls', rest') \<Rightarrow> (ls @ ls', rest'))"
proof (induction s arbitrary: ls rule: cut_lines.induct)
  case (1 s)
  show ?case
  proof (cases "FRAME_DELIMITER \<in> set s")
    case False
    then show ?thesis using "1.prems" by (simp add: cut_lines_rest)
  next
    case True
    define l where "l = takeWhile (\<lambda>c. c \<noteq> FRAME_DELIMITER) s"
    define u where "u = tl (dropWhile (\<lambda>c. c \<noteq> FRAME_DELIMITER) s)"
    have d: "dropWhile (\<lambda>c. c \<noteq> FRAME_DELIMITER) s = FRAME_DELIMITER # u"
      using True hd_dropWhile [of "\<lambda>c. c \<noteq> FRAME_DELIMITER" s] by (cases "dropWhile (\<lambda>c. c \<noteq> FRAME_DELIMITER) s") (auto simp: u_def dropWhile_eq_Nil_conv)
    then have s: "s = l @ FRAME_DELIMITER # u" using takeWhile_dropWhile_id [of "\<lambda>c. c \<noteq> FRAME_DELIMITER" s] by (simp add: l_def)
    have l: "FRAME_DELIMITER \<notin> set l" by (auto simp: l_def dest: set_takeWhileD)
    obtain ls' where u: "cut_lines u = (ls', rest)" "ls = l # ls'"
      using "1.prems" cut_lines_line [OF l, of u] by (auto simp: s [symmetric] split: prod.splits)
    from "1.IH" [OF True] u(1) have "cut_lines (u @ t) = (case cut_lines (rest @ t) of (ls'', rest') \<Rightarrow> (ls' @ ls'', rest'))" by (simp add: u_def)
    then show ?thesis using cut_lines_line [OF l, of "u @ t"] u(2) by (simp add: s split: prod.splits)
  qed
qed

definition line_events :: "link_config \<Rightarrow> string list \<Rightarrow> server_event link_action list" where
  "line_events cfg ls = concat (map (handleLine cfg) (filter (\<lambda>l. js_trim l \<noteq> []) ls))"

lemma data_run:
  assumes "list_all complete chunks" "s \<in> set (lk_live w)"
  shows "snd (link_run (as_step cfg) w (map (Data s) chunks)) = line_events cfg (fst (cut_lines (as_buffer (lk_client w) @ concat chunks)))
       \<or> FRAME_DELIMITER \<in> set (as_buffer (lk_client w))"
  using assms
proof (induction chunks arbitrary: w)
  case Nil
  then show ?case by (cases "FRAME_DELIMITER \<in> set (as_buffer (lk_client w))") (auto simp: cut_lines_rest line_events_def)
next
  case (Cons chunk chunks)
  let ?b = "as_buffer (lk_client w)"
  obtain ls rest where cut: "cut_lines (?b @ chunk) = (ls, rest)" by (cases "cut_lines (?b @ chunk)")
  let ?w = "w\<lparr>lk_client := (lk_client w)\<lparr>as_buffer := rest\<rparr>\<rparr>"
  have step: "as_step cfg w (Data s chunk) = (?w, line_events cfg ls)"
    using Cons.prems by (simp add: onData_def utf8_complete cut line_events_def)
  have "FRAME_DELIMITER \<notin> set rest" if "cut_lines t = (ls, rest)" for t ls
    using that
  proof (induction t arbitrary: ls rule: cut_lines.induct)
    case (1 t)
    then show ?case by (cases "FRAME_DELIMITER \<in> set t") (auto simp: cut_lines.simps [of t] split: prod.splits)
  qed
  with cut have rest: "FRAME_DELIMITER \<notin> set rest" by blast
  have "snd (link_run (as_step cfg) ?w (map (Data s) chunks)) = line_events cfg (fst (cut_lines (rest @ concat chunks)))"
    using Cons.IH [of ?w] Cons.prems rest by simp
  moreover have "fst (cut_lines (?b @ chunk @ concat chunks)) = ls @ fst (cut_lines (rest @ concat chunks))"
    using cut_lines_append [OF cut, of "concat chunks"] by (simp split: prod.splits)
  ultimately show ?case by (simp add: link_run_Cons step line_events_def del: as_step.simps)
qed

definition frame_line :: "(json \<Rightarrow> string) \<Rightarrow> client_frame \<Rightarrow> string" where
  "frame_line stringify f = stringify (frame_json f) @ [CHR 0x0A]"

lemma cut_frame_lines:
  assumes "\<And>f. f \<in> set fs \<Longrightarrow> CHR 0x0A \<notin> set (stringify (frame_json f))"
  shows "cut_lines (concat (map (frame_line stringify) fs)) = (map (stringify \<circ> frame_json) fs, [])"
  using assms
proof (induction fs)
  case (Cons f fs)
  have "FRAME_DELIMITER \<notin> set (stringify (frame_json f))" using Cons.prems [of f] by (simp add: FRAME_DELIMITER_def)
  note cut = cut_lines_line [OF this, of "concat (map (frame_line stringify) fs)"]
  have line: "concat (map (frame_line stringify) (f # fs)) = stringify (frame_json f) @ FRAME_DELIMITER # concat (map (frame_line stringify) fs)"
    by (simp add: frame_line_def FRAME_DELIMITER_def)
  show ?case unfolding line cut using Cons by simp
qed (simp add: cut_lines_rest)

text \<open>What a printed frame is on the wire: one line that is not blank and decodes to the frame.\<close>

definition wire_frame :: "link_config \<Rightarrow> (json \<Rightarrow> string) \<Rightarrow> client_frame \<Rightarrow> bool" where
  "wire_frame cfg stringify f \<longleftrightarrow>
     CHR 0x0A \<notin> set (stringify (frame_json f)) \<and> js_trim (stringify (frame_json f)) \<noteq> []
     \<and> lc_json cfg (stringify (frame_json f)) = Some (frame_json f)
     \<and> 0 \<le> cf_seq f \<and> lc_isoDatetime cfg (cf_at f) \<and> serverEventSchema (cf_event f)"

lemma lines_arrive:
  assumes "\<forall>f \<in> set fs. wire_frame cfg stringify f" "concat chunks = concat (map (frame_line stringify) fs)"
    and "list_all complete chunks" "s \<in> set (lk_live w)" "as_buffer (lk_client w) = []"
  shows "snd (link_run (as_step cfg) w (map (Data s) chunks)) = map (\<lambda>f. Deliver (cf_event f)) fs"
proof -
  have "snd (link_run (as_step cfg) w (map (Data s) chunks)) = line_events cfg (map (stringify \<circ> frame_json) fs)"
    using data_run [OF assms(3,4), of cfg] cut_frame_lines [of fs stringify] assms(1,2,5) by (simp add: wire_frame_def)
  also have "\<dots> = map (\<lambda>f. Deliver (cf_event f)) fs"
    using assms(1)
  proof (induction fs)
    case (Cons f fs)
    then have "decodeFrame (lc_json cfg) (lc_isoDatetime cfg) (stringify (frame_json f)) = Inr f"
      using frame_json_roundtrip [of f "lc_isoDatetime cfg"] by (simp add: wire_frame_def decodeFrame_def)
    with Cons show ?case by (simp add: line_events_def handleLine_def wire_frame_def)
  qed (simp add: line_events_def)
  finally show ?thesis .
qed

text \<open>What of the writes of a dispatcher goes to one connection.\<close>

definition written_to :: "nat \<Rightarrow> (nat \<times> string) list \<Rightarrow> string" where
  "written_to conn writes = concat (map snd (filter (\<lambda>x. fst x = conn) writes))"

definition dispatcher_after :: "bridge_config \<Rightarrow> string list \<Rightarrow> agent_op list \<Rightarrow> dispatcher" where
  "dispatcher_after bridge files ops = foldr (\<lambda>e d. apply_agent_op d e) ops (new_Dispatcher bridge files)"

lemma written_once: "distinct cs \<Longrightarrow> written_to conn (map (\<lambda>c. (c, t)) cs) = (if conn \<in> set cs then t else [])"
  by (induction cs) (auto simp: written_to_def)

lemma dispatched_text:
  assumes "\<forall>v. attached ops v conn \<longleftrightarrow> v = u" "u \<in> um_userId ` set (bc_users bridge)"
  shows "written_to conn (dispatch_frame stringify f (dispatcher_after bridge files ops))
    = (if ev_user (cf_event f) = u then frame_line stringify f else [])"
proof -
  note hist = agent_history [of ops bridge files "ev_user (cf_event f)", folded dispatcher_after_def]
  show ?thesis
  proof (cases "map_of (dp_byUserId (dispatcher_after bridge files ops)) (ev_user (cf_event f))")
    case None
    then have "ev_user (cf_event f) \<noteq> u" using hist assms(2) by auto
    then show ?thesis by (simp add: dispatch_frame_def None written_to_def)
  next
    case (Some k)
    then have "distinct (dk_connections k)" "conn \<in> set (dk_connections k) \<longleftrightarrow> ev_user (cf_event f) = u"
      using hist assms(1) by auto
    then show ?thesis by (simp add: dispatch_frame_def Some written_once frame_line_def)
  qed
qed

lemma dispatched_texts:
  assumes "\<forall>v. attached ops v conn \<longleftrightarrow> v = u" "u \<in> um_userId ` set (bc_users bridge)"
  shows "written_to conn (concat (map (\<lambda>f. dispatch_frame stringify f (dispatcher_after bridge files ops)) fs))
    = concat (map (frame_line stringify) (filter (\<lambda>f. ev_user (cf_event f) = u) fs))"
proof (induction fs)
  case (Cons f fs)
  have "written_to conn (xs @ ys) = written_to conn xs @ written_to conn ys" for xs ys by (simp add: written_to_def)
  then show ?case using Cons.IH dispatched_text [OF assms, of stringify f files] by simp
qed (simp add: written_to_def)

text \<open>
  C39 What the bridge dispatches arrives: an agent attached to the socket of its user receives of any sequence of frames
  exactly the events addressed to this user, each once and in order, however the stream that the dispatcher writes to it
  is cut into chunks, as long as no chunk ends inside a character. The frames are such as the server sends: printed on
  one line and read back as they were.
\<close>

theorem dispatched_events_arrive:
  assumes "\<forall>f \<in> set fs. wire_frame cfg stringify f"
    and "\<forall>v. attached ops v conn \<longleftrightarrow> v = u" "u \<in> um_userId ` set (bc_users bridge)"
    and "concat chunks = written_to conn (concat (map (\<lambda>f. dispatch_frame stringify f (dispatcher_after bridge files ops)) fs))"
    and "list_all complete chunks" "s \<in> set (lk_live w)" "as_buffer (lk_client w) = []"
  shows "snd (link_run (as_step cfg) w (map (Data s) chunks))
     = map (\<lambda>f. Deliver (cf_event f)) (filter (\<lambda>f. ev_user (cf_event f) = u) fs)"
  using assms(1,4) dispatched_texts [OF assms(2,3), of stringify files fs]
  by (intro lines_arrive [OF _ _ assms(5-7)]) auto

definition attached_agent :: "agent_socket link_world" where
  "attached_agent = fst (as_step demo_link new_AgentSocketClient Start_Call)"

definition two_user_bridge :: bridge_config where
  "two_user_bridge = \<lparr>bc_serverUrl = ''https://dash'', bc_token = ''t'', bc_socketDir = ''/run/pct'', bc_socketMode = 384,
     bc_users = [\<lparr>um_userId = 1, um_linuxUid = 1000\<rparr>, \<lparr>um_userId = 2, um_linuxUid = 1001\<rparr>], bc_backoff = DEFAULT_BACKOFF\<rparr>"

lemma dispatched_events_arrive_witness:
  "snd (link_run (as_step demo_link) attached_agent (map (Data 0) [''{4}\<newline>{'', ''4'', ''}\<newline>'']))
     = [Deliver (cf_event grant_frame), Deliver (cf_event grant_frame)]"
proof -
  let ?fs = "[grant_frame, lock_frame, grant_frame]"
  have wire: "wire_frame demo_link tiny_print grant_frame" "wire_frame demo_link tiny_print lock_frame"
    unfolding wire_frame_def tiny_codec
    by (simp_all add: demo_link_def tiny_parse_def js_trim_def is_blank_def)
       (simp_all add: grant_frame_def lock_frame_def Event_Stream.positive_def short_text_def)
  have users: "ev_user (cf_event grant_frame) = 1" "ev_user (cf_event lock_frame) = 2"
    by (simp_all add: grant_frame_def lock_frame_def)
  have agent: "\<forall>v. attached [Agent_Up 1 3] v 3 \<longleftrightarrow> v = 1" and supervised: "1 \<in> um_userId ` set (bc_users two_user_bridge)"
    by (auto simp: two_user_bridge_def)
  have lines: "concat [''{4}\<newline>{'', ''4'', ''}\<newline>''] = written_to 3
      (concat (map (\<lambda>f. dispatch_frame tiny_print f (dispatcher_after two_user_bridge [] [Agent_Up 1 3])) ?fs))"
    unfolding dispatched_texts [OF agent supervised] by (simp add: users frame_line_def tiny_codec)
  have chunks: "list_all complete [''{4}\<newline>{'', ''4'', ''}\<newline>'']" by (simp add: continuation_def byte_def)
  have live: "0 \<in> set (lk_live attached_agent)" "as_buffer (lk_client attached_agent) = []"
    by (simp_all add: attached_agent_def as_defs new_AgentSocketClient_def)
  show ?thesis using dispatched_events_arrive [OF _ agent supervised lines chunks live] wire users by simp
qed

text \<open>
  A character whose bytes arrive in two chunks is lost: each half is decoded on its own and replaced, so that a line
  that arrives whole as sent reaches the decoder changed when it is cut inside the character.
\<close>

theorem split_character_corrupts_line:
  "cut_lines ([] @ utf8_text ([CHR 0x22, CHR 0xC3, CHR 0xA9, CHR 0x22] @ [FRAME_DELIMITER])) = ([[CHR 0x22, CHR 0xC3, CHR 0xA9, CHR 0x22]], [])
   \<and> cut_lines (snd (cut_lines ([] @ utf8_text [CHR 0x22, CHR 0xC3])) @ utf8_text ([CHR 0xA9, CHR 0x22] @ [FRAME_DELIMITER]))
       = ([CHR 0x22 # replacement @ replacement @ [CHR 0x22]], [])"
  by (simp add: cut_lines.simps continuation_def byte_def replacement_def FRAME_DELIMITER_def Let_def)

end
