(* ===== verification/Retention.thy ===== *)
theory Retention
  imports Control_Store Transport_Audit Complex_Main "HOL-Library.Char_ord" "HOL-Library.List_Lexorder"
begin

text \<open>
  Data retention: the rule (\<open>policy/retention.ts\<close>), the purge that enforces it (\<open>policy/purge.ts\<close>), the
  run ledger and the overrides (\<open>policy/repository.ts\<close>), the service and the scheduled job
  (\<open>retention/service.ts\<close>, \<open>retention/scheduler.ts\<close>) and the admin routes with their entries
  (\<open>api/retention\<close>, behind the admin check, which is not part of this model).

  A purge repeats one bounded delete until a pass comes up short, so it is a partial function: \<open>None\<close> is a
  purge that never returns. The rows of a batch are the first matching ones in row order; a delete by primary
  key removes exactly the rows of its sub-select. Instants are compared as the store holds them, in whole
  seconds. The duration of a run is an input, as is the clock of the schedule. A \<open>Date\<close> of an answer is its
  instant, before \<open>toISOString\<close> renders it.
\<close>

section \<open>The rule\<close>

definition retentionCategoryValues :: "retention_category list" where
  "retentionCategoryValues = [Usage_Samples, Grant_Ledger, Audit_Log, Date_Overrides]"

definition DEFAULT_RETENTION_DAYS :: int where "DEFAULT_RETENTION_DAYS = 365"

definition MAX_RETENTION_DAYS :: int where "MAX_RETENTION_DAYS = 36525"

definition MS_PER_RETENTION_DAY :: int where "MS_PER_RETENTION_DAY = 24 * 60 * 60 * 1000"

datatype resolved_retention = Keep_Forever | Keep_Days int

record retention_override =
  ro_category :: retention_category
  ro_keepForever :: bool
  ro_days :: "int option"
  ro_updatedAt :: instant

datatype retention_error =
    RetentionOverrideError retention_category
  | Batch_Size_Error rat
  | Check_Violation

definition overrideToResolved :: "retention_override \<Rightarrow> retention_error + resolved_retention" where
  "overrideToResolved r =
     (if ro_keepForever r then Inr Keep_Forever
      else case ro_days r of
          None \<Rightarrow> Inl (RetentionOverrideError (ro_category r))
        | Some days \<Rightarrow> if days \<le> 0 then Inl (RetentionOverrideError (ro_category r)) else Inr (Keep_Days days))"

definition resolveRetention ::
  "retention_category \<Rightarrow> int \<Rightarrow> (retention_category \<times> resolved_retention) list \<Rightarrow> resolved_retention" where
  "resolveRetention category defaultDays overrides = nullish (map_of overrides category) (Keep_Days defaultDays)"

fun isExpired :: "instant \<Rightarrow> resolved_retention \<Rightarrow> instant \<Rightarrow> bool" where
  "isExpired recordTimestamp Keep_Forever now = False"
| "isExpired recordTimestamp (Keep_Days days) now = (days * MS_PER_RETENTION_DAY < now - recordTimestamp)"

fun retentionCutoff :: "resolved_retention \<Rightarrow> instant \<Rightarrow> instant option" where
  "retentionCutoff Keep_Forever now = None"
| "retentionCutoff (Keep_Days days) now = Some (now - days * MS_PER_RETENTION_DAY)"

record retention_policy =
  rp_defaultDays :: int
  rp_overrides :: "(retention_category \<times> resolved_retention) list"

definition fromOverrides :: "int \<Rightarrow> retention_override list \<Rightarrow> retention_error + retention_policy" where
  "fromOverrides defaultDays rows =
     bindE (foldE (\<lambda>resolved row. bindE (overrideToResolved row)
                                   (\<lambda>r. Inr (AList.update (ro_category row) r resolved))) [] rows)
       (\<lambda>resolved. Inr \<lparr>rp_defaultDays = defaultDays, rp_overrides = resolved\<rparr>)"

definition forCategory :: "retention_policy \<Rightarrow> retention_category \<Rightarrow> resolved_retention" where
  "forCategory policy category = resolveRetention category (rp_defaultDays policy) (rp_overrides policy)"

definition hasOverride :: "retention_policy \<Rightarrow> retention_category \<Rightarrow> bool" where
  "hasOverride policy category \<longleftrightarrow> category \<in> fst ` set (rp_overrides policy)"

definition category_isExpired :: "retention_policy \<Rightarrow> retention_category \<Rightarrow> instant \<Rightarrow> instant \<Rightarrow> bool" where
  "category_isExpired policy category recordTimestamp now = isExpired recordTimestamp (forCategory policy category) now"

definition cutoffFor :: "retention_policy \<Rightarrow> retention_category \<Rightarrow> instant \<Rightarrow> instant option" where
  "cutoffFor policy category now = retentionCutoff (forCategory policy category) now"

definition resolveAll :: "retention_policy \<Rightarrow> (retention_category \<times> resolved_retention \<times> bool) list" where
  "resolveAll policy = map (\<lambda>c. (c, forCategory policy c, hasOverride policy c)) retentionCategoryValues"

section \<open>The tables\<close>

datatype purge_trigger = Scheduled | Manual

record purge_run_item =
  pi_category :: retention_category
  pi_cutoff :: "int option"
  pi_deleted :: nat

record purge_run =
  pr_id :: int
  pr_at :: instant
  pr_trigger :: purge_trigger
  pr_totalDeleted :: nat
  pr_durationMs :: int
  pr_items :: "purge_run_item list"

record retention_db =
  rb_policy :: store
  rb_audit :: audit_log
  rb_overrides :: "retention_override list"
  rb_runs :: "purge_run list"
  rb_runSeq :: int

definition category_name :: "retention_category \<Rightarrow> string" where
  "category_name c = (case c of Usage_Samples \<Rightarrow> ''usage_samples'' | Grant_Ledger \<Rightarrow> ''grant_ledger''
                             | Audit_Log \<Rightarrow> ''audit_log'' | Date_Overrides \<Rightarrow> ''date_overrides'')"

definition override_check :: "retention_override \<Rightarrow> bool" where
  "override_check r \<longleftrightarrow> (if ro_keepForever r then ro_days r = None
                         else case ro_days r of None \<Rightarrow> False | Some days \<Rightarrow> 0 < days)"

definition listRetentionOverrides :: "retention_db \<Rightarrow> retention_override list" where
  "listRetentionOverrides d = sort_key (category_name \<circ> ro_category) (rb_overrides d)"

definition upsertRetentionOverride ::
  "instant \<Rightarrow> retention_category \<Rightarrow> resolved_retention \<Rightarrow> retention_db \<Rightarrow> retention_error + (retention_db \<times> retention_override)" where
  "upsertRetentionOverride now category retention d =
     (let row = \<lparr>ro_category = category, ro_keepForever = (retention = Keep_Forever),
                 ro_days = (case retention of Keep_Forever \<Rightarrow> None | Keep_Days days \<Rightarrow> Some days),
                 ro_updatedAt = stored_timestamp now\<rparr> in
      if \<not> override_check row then Inl Check_Violation
      else if category \<in> set (map ro_category (rb_overrides d))
      then Inr (d\<lparr>rb_overrides := update_where (\<lambda>r. ro_category r = category) (\<lambda>_. row) (rb_overrides d)\<rparr>, row)
      else Inr (d\<lparr>rb_overrides := rb_overrides d @ [row]\<rparr>, row))"

definition deleteRetentionOverride :: "retention_category \<Rightarrow> retention_db \<Rightarrow> retention_db \<times> bool" where
  "deleteRetentionOverride category d =
     (d\<lparr>rb_overrides := filter (\<lambda>r. ro_category r \<noteq> category) (rb_overrides d)\<rparr>,
      category \<in> set (map ro_category (rb_overrides d)))"

definition recordPurgeRun ::
  "instant \<Rightarrow> purge_trigger \<Rightarrow> nat \<Rightarrow> int \<Rightarrow> purge_run_item list \<Rightarrow> retention_db \<Rightarrow> (retention_error + purge_run) \<times> retention_db" where
  "recordPurgeRun t trigger totalDeleted durationMs items d =
     (let row = \<lparr>pr_id = rb_runSeq d + 1, pr_at = stored_timestamp t, pr_trigger = trigger,
                 pr_totalDeleted = totalDeleted, pr_durationMs = durationMs, pr_items = items\<rparr> in
      if durationMs < 0 then (Inl Check_Violation, d)
      else (Inr row, d\<lparr>rb_runs := rb_runs d @ [row], rb_runSeq := rb_runSeq d + 1\<rparr>))"

definition listPurgeRuns :: "retention_db \<Rightarrow> nat \<Rightarrow> purge_run list" where
  "listPurgeRuns d limit = take limit (sort_key (\<lambda>r. (- pr_at r, - pr_id r)) (rb_runs d))"

section \<open>The purge\<close>

definition DEFAULT_PURGE_BATCH_SIZE :: rat where "DEFAULT_PURGE_BATCH_SIZE = 1000"

text \<open>One pass over a table, and the loop that repeats it until a pass deletes less than a batch.\<close>

fun delete_pass :: "nat \<Rightarrow> ('r \<Rightarrow> bool) \<Rightarrow> 'r list \<Rightarrow> nat \<times> 'r list" where
  "delete_pass batch P [] = (0, [])"
| "delete_pass batch P (r # rows) =
     (if P r \<and> 0 < batch then map_prod Suc (\<lambda>rs. rs) (delete_pass (batch - 1) P rows)
      else map_prod (\<lambda>k. k) ((#) r) (delete_pass batch P rows))"

partial_function (option) purge_loop :: "('t \<Rightarrow> nat \<times> 't) \<Rightarrow> nat \<Rightarrow> 't \<Rightarrow> (nat \<times> 't) option" where
  "purge_loop pass batch t =
     (let (n, t') = pass t in
      if n < batch then Some (n, t')
      else Option.bind (purge_loop pass batch t') (\<lambda>(deleted, t''). Some (n + deleted, t'')))"

definition purgeInBatches ::
  "(nat \<Rightarrow> 't \<Rightarrow> nat \<times> 't) \<Rightarrow> rat \<Rightarrow> 't \<Rightarrow> (retention_error + (nat \<times> 't)) option" where
  "purgeInBatches deleteOneBatch batchSize t =
     (if of_int \<lfloor>batchSize\<rfloor> \<noteq> batchSize \<or> batchSize < 1 then Some (Inl (Batch_Size_Error batchSize))
      else map_option Inr (purge_loop (deleteOneBatch (nat \<lfloor>batchSize\<rfloor>)) (nat \<lfloor>batchSize\<rfloor>) t))"

definition batchSizeOf :: "rat option \<Rightarrow> rat" where
  "batchSizeOf opts = nullish opts DEFAULT_PURGE_BATCH_SIZE"

type_synonym 'a purge = "retention_db \<Rightarrow> ((retention_error + 'a) \<times> retention_db) option"

definition done_with :: "'a \<Rightarrow> 'a purge" where
  "done_with x d = Some (Inr x, d)"

definition then_purge :: "'a purge \<Rightarrow> ('a \<Rightarrow> 'b purge) \<Rightarrow> 'b purge" where
  "then_purge m f d =
     Option.bind (m d) (\<lambda>(r, d'). case r of Inl e \<Rightarrow> Some (Inl e, d') | Inr x \<Rightarrow> f x d')"

definition purge_table ::
  "(retention_db \<Rightarrow> 'r list) \<Rightarrow> ('r list \<Rightarrow> retention_db \<Rightarrow> retention_db) \<Rightarrow> ('r \<Rightarrow> bool) \<Rightarrow> rat \<Rightarrow> nat purge" where
  "purge_table table write P batchSize d =
     map_option (\<lambda>r. case r of Inl e \<Rightarrow> (Inl e, d) | Inr (n, rows) \<Rightarrow> (Inr n, write rows d))
       (purgeInBatches (\<lambda>batch. delete_pass batch P) batchSize (table d))"

text \<open>The driver binds a \<open>Date\<close> as whole seconds, as the columns hold it.\<close>

definition older :: "instant \<Rightarrow> instant \<Rightarrow> bool" where
  "older cutoff t \<longleftrightarrow> t div 1000 < cutoff div 1000"

fun older_opt :: "instant \<Rightarrow> instant option \<Rightarrow> bool" where
  "older_opt cutoff None = False"
| "older_opt cutoff (Some t) = older cutoff t"

record category_result =
  cr_category :: retention_category
  cr_cutoff :: "instant option"
  cr_deleted :: nat

definition policy_table :: "(store \<Rightarrow> 'r list) \<Rightarrow> retention_db \<Rightarrow> 'r list" where
  "policy_table get d = get (rb_policy d)"

definition write_policy :: "('r list \<Rightarrow> store \<Rightarrow> store) \<Rightarrow> 'r list \<Rightarrow> retention_db \<Rightarrow> retention_db" where
  "write_policy put rows d = d\<lparr>rb_policy := put rows (rb_policy d)\<rparr>"

definition purgeUsageSamples :: "retention_policy \<Rightarrow> instant \<Rightarrow> rat option \<Rightarrow> category_result purge" where
  "purgeUsageSamples policy now opts =
     (case cutoffFor policy Usage_Samples now of
        None \<Rightarrow> done_with \<lparr>cr_category = Usage_Samples, cr_cutoff = None, cr_deleted = 0\<rparr>
      | Some cutoff \<Rightarrow>
          then_purge (purge_table (policy_table st_samples) (write_policy (\<lambda>rows. st_samples_update (\<lambda>_. rows)))
                        (\<lambda>s. older cutoff (us_endedAt s)) (batchSizeOf opts))
            (\<lambda>deleted. done_with \<lparr>cr_category = Usage_Samples, cr_cutoff = Some cutoff, cr_deleted = deleted\<rparr>))"

definition purgeGrants :: "retention_policy \<Rightarrow> instant \<Rightarrow> rat option \<Rightarrow> category_result purge" where
  "purgeGrants policy now opts =
     (case cutoffFor policy Grant_Ledger now of
        None \<Rightarrow> done_with \<lparr>cr_category = Grant_Ledger, cr_cutoff = None, cr_deleted = 0\<rparr>
      | Some cutoff \<Rightarrow>
          then_purge (purge_table (policy_table st_grants) (write_policy (\<lambda>rows. st_grants_update (\<lambda>_. rows)))
                        (\<lambda>g. older cutoff (gi_expiresAt (snd g))) (batchSizeOf opts))
            (\<lambda>deleted. done_with \<lparr>cr_category = Grant_Ledger, cr_cutoff = Some cutoff, cr_deleted = deleted\<rparr>))"

definition purgeAuditLog :: "retention_policy \<Rightarrow> instant \<Rightarrow> rat option \<Rightarrow> category_result purge" where
  "purgeAuditLog policy now opts =
     (case cutoffFor policy Audit_Log now of
        None \<Rightarrow> done_with \<lparr>cr_category = Audit_Log, cr_cutoff = None, cr_deleted = 0\<rparr>
      | Some cutoff \<Rightarrow>
          then_purge (purge_table (\<lambda>d. lg_rows (rb_audit d)) (\<lambda>rows d. d\<lparr>rb_audit := (rb_audit d)\<lparr>lg_rows := rows\<rparr>\<rparr>)
                        (\<lambda>r. older cutoff (al_at r)) (batchSizeOf opts))
            (\<lambda>deleted. done_with \<lparr>cr_category = Audit_Log, cr_cutoff = Some cutoff, cr_deleted = deleted\<rparr>))"

definition purgeDateOverrides :: "retention_policy \<Rightarrow> instant \<Rightarrow> rat option \<Rightarrow> category_result purge" where
  "purgeDateOverrides policy now opts =
     (case cutoffFor policy Date_Overrides now of
        None \<Rightarrow> done_with \<lparr>cr_category = Date_Overrides, cr_cutoff = None, cr_deleted = 0\<rparr>
      | Some cutoff \<Rightarrow>
          then_purge (purge_table (policy_table st_exceptions) (write_policy (\<lambda>rows. st_exceptions_update (\<lambda>_. rows)))
                        (\<lambda>x. older cutoff (xi_expiresAt (snd x))) (batchSizeOf opts)) (\<lambda>a.
          then_purge (purge_table (policy_table st_groupExceptions) (write_policy (\<lambda>rows. st_groupExceptions_update (\<lambda>_. rows)))
                        (\<lambda>x. older cutoff (xi_expiresAt (snd x))) (batchSizeOf opts)) (\<lambda>b.
          then_purge (purge_table (policy_table st_schedules) (write_policy (\<lambda>rows. st_schedules_update (\<lambda>_. rows)))
                        (\<lambda>r. older_opt cutoff (sr_effectiveTo (snd r))) (batchSizeOf opts)) (\<lambda>c.
          then_purge (purge_table (policy_table st_groupSchedules) (write_policy (\<lambda>rows. st_groupSchedules_update (\<lambda>_. rows)))
                        (\<lambda>r. older_opt cutoff (sr_effectiveTo (snd r))) (batchSizeOf opts)) (\<lambda>e.
          done_with \<lparr>cr_category = Date_Overrides, cr_cutoff = Some cutoff, cr_deleted = a + b + c + e\<rparr>)))))"

definition purgeExpiredRecords :: "retention_policy \<Rightarrow> instant \<Rightarrow> rat option \<Rightarrow> category_result list purge" where
  "purgeExpiredRecords policy now opts =
     then_purge (purgeUsageSamples policy now opts) (\<lambda>a.
     then_purge (purgeGrants policy now opts) (\<lambda>b.
     then_purge (purgeAuditLog policy now opts) (\<lambda>c.
     then_purge (purgeDateOverrides policy now opts) (\<lambda>e. done_with [a, b, c, e]))))"

section \<open>The dry run\<close>

definition countOlderThan :: "('r \<Rightarrow> bool) \<Rightarrow> 'r list \<Rightarrow> nat" where
  "countOlderThan P rows = length (filter P rows)"

definition count_category ::
  "retention_policy \<Rightarrow> instant \<Rightarrow> retention_category \<Rightarrow> (instant \<Rightarrow> nat) \<Rightarrow> category_result" where
  "count_category policy now category matching =
     (case cutoffFor policy category now of
        None \<Rightarrow> \<lparr>cr_category = category, cr_cutoff = None, cr_deleted = 0\<rparr>
      | Some cutoff \<Rightarrow> \<lparr>cr_category = category, cr_cutoff = Some cutoff, cr_deleted = matching cutoff\<rparr>)"

definition countUsageSamples :: "retention_policy \<Rightarrow> instant \<Rightarrow> retention_db \<Rightarrow> category_result" where
  "countUsageSamples policy now d =
     count_category policy now Usage_Samples (\<lambda>cutoff. countOlderThan (\<lambda>s. older cutoff (us_endedAt s)) (st_samples (rb_policy d)))"

definition countGrants :: "retention_policy \<Rightarrow> instant \<Rightarrow> retention_db \<Rightarrow> category_result" where
  "countGrants policy now d =
     count_category policy now Grant_Ledger (\<lambda>cutoff. countOlderThan (\<lambda>g. older cutoff (gi_expiresAt (snd g))) (st_grants (rb_policy d)))"

definition countAuditLog :: "retention_policy \<Rightarrow> instant \<Rightarrow> retention_db \<Rightarrow> category_result" where
  "countAuditLog policy now d =
     count_category policy now Audit_Log (\<lambda>cutoff. countOlderThan (\<lambda>r. older cutoff (al_at r)) (lg_rows (rb_audit d)))"

definition countDateOverrides :: "retention_policy \<Rightarrow> instant \<Rightarrow> retention_db \<Rightarrow> category_result" where
  "countDateOverrides policy now d =
     count_category policy now Date_Overrides (\<lambda>cutoff.
       countOlderThan (\<lambda>x. older cutoff (xi_expiresAt (snd x))) (st_exceptions (rb_policy d))
       + countOlderThan (\<lambda>x. older cutoff (xi_expiresAt (snd x))) (st_groupExceptions (rb_policy d))
       + countOlderThan (\<lambda>r. older_opt cutoff (sr_effectiveTo (snd r))) (st_schedules (rb_policy d))
       + countOlderThan (\<lambda>r. older_opt cutoff (sr_effectiveTo (snd r))) (st_groupSchedules (rb_policy d)))"

definition countExpiredRecords :: "retention_policy \<Rightarrow> instant \<Rightarrow> retention_db \<Rightarrow> category_result list" where
  "countExpiredRecords policy now d =
     [countUsageSamples policy now d, countGrants policy now d, countAuditLog policy now d, countDateOverrides policy now d]"

section \<open>Runs, previews, the schedule and the routes\<close>

definition cutoffToEpochSeconds :: "instant option \<Rightarrow> int option" where
  "cutoffToEpochSeconds cutoff = map_option (\<lambda>c. c div 1000) cutoff"

definition toRunItem :: "category_result \<Rightarrow> purge_run_item" where
  "toRunItem r = \<lparr>pi_category = cr_category r, pi_cutoff = cutoffToEpochSeconds (cr_cutoff r), pi_deleted = cr_deleted r\<rparr>"

definition runRetentionPurge ::
  "retention_policy \<Rightarrow> instant \<Rightarrow> purge_trigger \<Rightarrow> rat option \<Rightarrow> int \<Rightarrow> purge_run purge" where
  "runRetentionPurge policy now trigger batchSize durationMs =
     then_purge (purgeExpiredRecords policy now batchSize) (\<lambda>results d.
       Some (recordPurgeRun now trigger (sum_list (map cr_deleted results)) durationMs (map toRunItem results) d))"

record purge_preview =
  pv_at :: instant
  pv_totalWouldDelete :: nat
  pv_items :: "category_result list"

definition previewRetentionPurge :: "retention_policy \<Rightarrow> instant \<Rightarrow> retention_db \<Rightarrow> purge_preview" where
  "previewRetentionPurge policy now d =
     (let results = countExpiredRecords policy now d in
      \<lparr>pv_at = now, pv_totalWouldDelete = sum_list (map cr_deleted results), pv_items = results\<rparr>)"

definition with_policy :: "int \<Rightarrow> (retention_policy \<Rightarrow> 'a purge) \<Rightarrow> 'a purge" where
  "with_policy defaultDays f d =
     (case fromOverrides defaultDays (listRetentionOverrides d) of Inl e \<Rightarrow> Some (Inl e, d) | Inr policy \<Rightarrow> f policy d)"

definition retention_tick :: "int \<Rightarrow> rat option \<Rightarrow> instant \<Rightarrow> int \<Rightarrow> retention_db \<Rightarrow> retention_db option" where
  "retention_tick defaultDays batchSize now durationMs d =
     map_option snd (with_policy defaultDays (\<lambda>policy. runRetentionPurge policy now Scheduled batchSize durationMs) d)"

record retention_entry =
  re_category :: retention_category
  re_override :: bool
  re_keepForever :: bool
  re_days :: "int option"
  re_updatedAt :: "instant option"

definition toOverrideEntry :: "retention_override \<Rightarrow> retention_entry" where
  "toOverrideEntry r = \<lparr>re_category = ro_category r, re_override = True, re_keepForever = ro_keepForever r,
                        re_days = ro_days r, re_updatedAt = Some (ro_updatedAt r)\<rparr>"

definition defaultEntry :: "int \<Rightarrow> retention_category \<Rightarrow> retention_entry" where
  "defaultEntry defaultDays category = \<lparr>re_category = category, re_override = False, re_keepForever = False,
                                        re_days = Some defaultDays, re_updatedAt = None\<rparr>"

definition toRetentionConfigResponse ::
  "int \<Rightarrow> retention_category list \<Rightarrow> retention_override list \<Rightarrow> int \<times> retention_entry list" where
  "toRetentionConfigResponse defaultDays categories rows =
     (let byCategory = fold (\<lambda>r. AList.update (ro_category r) (toOverrideEntry r)) rows [] in
      (defaultDays, map (\<lambda>c. nullish (map_of byCategory c) (defaultEntry defaultDays c)) categories))"

definition setRetentionOverrideSchema :: "bool \<Rightarrow> int option \<Rightarrow> resolved_retention option" where
  "setRetentionOverrideSchema keepForever days =
     (if keepForever then Some Keep_Forever
      else case days of None \<Rightarrow> None | Some n \<Rightarrow> if 1 \<le> n \<and> n \<le> MAX_RETENTION_DAYS then Some (Keep_Days n) else None)"

definition get_retention :: "int \<Rightarrow> retention_db \<Rightarrow> int \<times> retention_entry list" where
  "get_retention defaultDays d = toRetentionConfigResponse defaultDays retentionCategoryValues (listRetentionOverrides d)"

definition put_retention ::
  "instant \<Rightarrow> retention_category \<Rightarrow> resolved_retention \<Rightarrow> retention_db \<Rightarrow> retention_error + (retention_db \<times> retention_entry)" where
  "put_retention now category body d =
     bindE (upsertRetentionOverride now category body d) (\<lambda>(d', row). Inr (d', toOverrideEntry row))"

definition delete_retention :: "int \<Rightarrow> retention_category \<Rightarrow> retention_db \<Rightarrow> retention_db \<times> retention_entry" where
  "delete_retention defaultDays category d =
     (fst (deleteRetentionOverride category d), defaultEntry defaultDays category)"

definition post_purge :: "int \<Rightarrow> rat \<Rightarrow> instant \<Rightarrow> int \<Rightarrow> purge_run purge" where
  "post_purge defaultDays purgeBatchSize now durationMs =
     with_policy defaultDays (\<lambda>policy. runRetentionPurge policy now Manual (Some purgeBatchSize) durationMs)"

definition post_preview :: "int \<Rightarrow> instant \<Rightarrow> retention_db \<Rightarrow> retention_error + purge_preview" where
  "post_preview defaultDays now d =
     bindE (fromOverrides defaultDays (listRetentionOverrides d)) (\<lambda>policy. Inr (previewRetentionPurge policy now d))"

section \<open>The loop deletes every matching row\<close>

text \<open>What one bounded pass promises, and the loop over it.\<close>

locale batched =
  fixes pass :: "'t \<Rightarrow> nat \<times> 't" and batch :: nat and remaining :: "'t \<Rightarrow> nat" and rest :: "'t \<Rightarrow> 't"
  assumes progress: "0 < batch"
    and pass_deletes: "pass t = (n, t') \<Longrightarrow> n = min batch (remaining t) \<and> remaining t' = remaining t - n \<and> rest t' = rest t"
    and pass_done: "remaining t = 0 \<Longrightarrow> rest t = t"
begin

lemma loop_exact: "purge_loop pass batch t = Some (remaining t, rest t)"
proof (induction "remaining t" arbitrary: t rule: less_induct)
  case less
  obtain n t' where p: "pass t = (n, t')" by (cases "pass t")
  note facts = pass_deletes [OF p]
  show ?case
  proof (cases "n < batch")
    case True
    then have "n = remaining t" "t' = rest t" using facts pass_done [of t'] by auto
    then show ?thesis using True p by (subst purge_loop.simps) simp
  next
    case False
    then have dec: "remaining t' < remaining t" and n: "n + remaining t' = remaining t" using facts progress by auto
    have "purge_loop pass batch t' = Some (remaining t', rest t')" by (rule less.hyps [OF dec])
    then show ?thesis using False p n facts by (subst purge_loop.simps) simp
  qed
qed

end

lemma delete_pass_exact:
  "delete_pass batch P rows = (n, rows') \<Longrightarrow>
     n = min batch (length (filter P rows)) \<and> length (filter P rows') = length (filter P rows) - n
     \<and> filter (\<lambda>r. \<not> P r) rows' = filter (\<lambda>r. \<not> P r) rows"
proof (induction batch P rows arbitrary: n rows' rule: delete_pass.induct)
  case (2 batch P r rows)
  show ?case
  proof (cases "P r \<and> 0 < batch")
    case True
    obtain k rs where k: "delete_pass (batch - 1) P rows = (k, rs)" by (cases "delete_pass (batch - 1) P rows")
    show ?thesis using 2(1) [OF True k] 2(3) True k by (cases batch) auto
  next
    case False
    obtain k rs where k: "delete_pass batch P rows = (k, rs)" by (cases "delete_pass batch P rows")
    show ?thesis using 2(2) [OF False k] 2(3) False k by auto
  qed
qed simp

interpretation table_pass: batched "delete_pass (Suc k) P" "Suc k" "\<lambda>rows. length (filter P rows)" "filter (\<lambda>r. \<not> P r)"
  for k :: nat and P :: "'r \<Rightarrow> bool"
  by unfold_locales (auto dest: delete_pass_exact simp: filter_empty_conv filter_id_conv)

definition valid_batch :: "rat option \<Rightarrow> bool" where
  "valid_batch opts \<longleftrightarrow> of_int \<lfloor>batchSizeOf opts\<rfloor> = batchSizeOf opts \<and> 1 \<le> batchSizeOf opts"

lemma purge_table_exact:
  "purge_table table write P (batchSizeOf opts) d =
     Some (if valid_batch opts
           then (Inr (length (filter P (table d))), write (filter (\<lambda>r. \<not> P r) (table d)) d)
           else (Inl (Batch_Size_Error (batchSizeOf opts)), d))"
proof (cases "valid_batch opts")
  case True
  then have "0 < nat \<lfloor>batchSizeOf opts\<rfloor>" by (simp add: valid_batch_def)
  then obtain k where k: "nat \<lfloor>batchSizeOf opts\<rfloor> = Suc k" using gr0_conv_Suc by blast
  show ?thesis using True by (simp add: purge_table_def purgeInBatches_def k table_pass.loop_exact valid_batch_def)
next
  case False
  then show ?thesis by (auto simp: purge_table_def purgeInBatches_def valid_batch_def)
qed

lemma then_purge_simps:
  "m d = Some (Inl e, d') \<Longrightarrow> then_purge m f d = Some (Inl e, d')"
  "m d = Some (Inr x, d') \<Longrightarrow> then_purge m f d = f x d'"
  by (simp_all add: then_purge_def)

section \<open>What a run removes\<close>

text \<open>The reference: every dated row that is expired, with both instants in whole seconds, is gone.\<close>

definition expired_row :: "retention_policy \<Rightarrow> instant \<Rightarrow> retention_category \<Rightarrow> instant \<Rightarrow> bool" where
  "expired_row policy now category t = category_isExpired policy category (stored_timestamp t) (stored_timestamp now)"

definition ended_override :: "retention_policy \<Rightarrow> instant \<Rightarrow> instant option \<Rightarrow> bool" where
  "ended_override policy now t = (case t of None \<Rightarrow> False | Some e \<Rightarrow> expired_row policy now Date_Overrides e)"

definition purged :: "retention_policy \<Rightarrow> instant \<Rightarrow> retention_db \<Rightarrow> retention_db" where
  "purged policy now d =
     d\<lparr>rb_policy := (rb_policy d)\<lparr>
         st_samples := filter (\<lambda>s. \<not> expired_row policy now Usage_Samples (us_endedAt s)) (st_samples (rb_policy d)),
         st_grants := filter (\<lambda>g. \<not> expired_row policy now Grant_Ledger (gi_expiresAt (snd g))) (st_grants (rb_policy d)),
         st_exceptions := filter (\<lambda>x. \<not> expired_row policy now Date_Overrides (xi_expiresAt (snd x))) (st_exceptions (rb_policy d)),
         st_groupExceptions := filter (\<lambda>x. \<not> expired_row policy now Date_Overrides (xi_expiresAt (snd x))) (st_groupExceptions (rb_policy d)),
         st_schedules := filter (\<lambda>r. \<not> ended_override policy now (sr_effectiveTo (snd r))) (st_schedules (rb_policy d)),
         st_groupSchedules := filter (\<lambda>r. \<not> ended_override policy now (sr_effectiveTo (snd r))) (st_groupSchedules (rb_policy d))\<rparr>,
       rb_audit := (rb_audit d)\<lparr>lg_rows := filter (\<lambda>r. \<not> expired_row policy now Audit_Log (al_at r)) (lg_rows (rb_audit d))\<rparr>\<rparr>"

lemma older_expired:
  "expired_row policy now category t =
     (case cutoffFor policy category now of None \<Rightarrow> False | Some cutoff \<Rightarrow> older cutoff t)"
proof (cases "forCategory policy category")
  case Keep_Forever
  then show ?thesis by (simp add: expired_row_def category_isExpired_def cutoffFor_def)
next
  case (Keep_Days days)
  have "(now - days * MS_PER_RETENTION_DAY) div 1000 = now div 1000 - days * 86400"
    by (simp add: MS_PER_RETENTION_DAY_def)
  then show ?thesis using Keep_Days
    by (simp add: expired_row_def category_isExpired_def cutoffFor_def older_def stored_timestamp_def MS_PER_RETENTION_DAY_def)
      linarith
qed

lemma older_ended:
  "ended_override policy now t =
     (case cutoffFor policy Date_Overrides now of None \<Rightarrow> False | Some cutoff \<Rightarrow> older_opt cutoff t)"
  by (cases t; cases "cutoffFor policy Date_Overrides now") (simp_all add: ended_override_def older_expired)

lemmas purge_defs = purgeUsageSamples_def purgeGrants_def purgeAuditLog_def purgeDateOverrides_def then_purge_def done_with_def
  purge_table_exact policy_table_def write_policy_def
lemmas count_defs = countUsageSamples_def countGrants_def countAuditLog_def countDateOverrides_def count_category_def countOlderThan_def

lemma purge_categories_exact:
  assumes "valid_batch opts"
  shows "purgeExpiredRecords policy now opts d = Some (Inr (countExpiredRecords policy now d), purged policy now d)"
  using assms
  by (simp add: purgeExpiredRecords_def countExpiredRecords_def purge_defs count_defs purged_def older_expired older_ended
      split: option.splits)

lemma every_category: "set retentionCategoryValues = UNIV"
proof -
  have "c \<in> set retentionCategoryValues" for c by (cases c) (simp_all add: retentionCategoryValues_def)
  then show ?thesis by auto
qed

lemma purge_invalid_batch:
  assumes "\<not> valid_batch opts"
  shows "purgeExpiredRecords policy now opts d =
    Some (if (\<forall>c \<in> set retentionCategoryValues. forCategory policy c = Keep_Forever)
          then Inr (countExpiredRecords policy now d) else Inl (Batch_Size_Error (batchSizeOf opts)), d)"
proof -
  have "forCategory policy c = Keep_Forever \<longleftrightarrow> cutoffFor policy c now = None" for c
    by (cases "forCategory policy c") (simp_all add: cutoffFor_def)
  then show ?thesis using assms
    by (simp add: purgeExpiredRecords_def countExpiredRecords_def purge_defs count_defs retentionCategoryValues_def
        split: option.splits)
qed

lemma purged_again: "purged policy now (purged policy now d) = purged policy now d"
  by (simp add: purged_def filter_id_conv)

lemma count_survivors [simp]: "countOlderThan P (filter (\<lambda>x. \<not> P x) xs) = 0"
  by (simp add: countOlderThan_def filter_empty_conv)

lemma count_purged: "sum_list (map cr_deleted (countExpiredRecords policy now (purged policy now d))) = 0"
  by (simp add: countExpiredRecords_def countUsageSamples_def countGrants_def countAuditLog_def countDateOverrides_def
      count_category_def purged_def older_expired older_ended split: option.splits)

lemma purged_ledger [simp]:
  "rb_runs (purged policy now d) = rb_runs d" "rb_runSeq (purged policy now d) = rb_runSeq d"
  "rb_overrides (purged policy now d) = rb_overrides d"
  by (simp_all add: purged_def)

text \<open>
  C9: A purge run with a positive whole batch size removes exactly the rows whose retention window has passed
  (counted in whole seconds) from every dated table and touches nothing else, whatever the batch size. It
  records one run, with the deletions the preview announced for every category, and leaves nothing for a
  second run at the same instant.
\<close>

theorem purge_run_exact:
  assumes "valid_batch opts" and "0 \<le> ms"
  shows "\<exists>run. runRetentionPurge policy now trigger opts ms d
           = Some (Inr run, (purged policy now d)\<lparr>rb_runs := rb_runs d @ [run], rb_runSeq := rb_runSeq d + 1\<rparr>)
         \<and> pr_totalDeleted run = pv_totalWouldDelete (previewRetentionPurge policy now d)
         \<and> pr_items run = map toRunItem (pv_items (previewRetentionPurge policy now d))
         \<and> pv_totalWouldDelete (previewRetentionPurge policy now (purged policy now d)) = 0"
  using assms
  by (simp add: runRetentionPurge_def then_purge_def purge_categories_exact recordPurgeRun_def previewRetentionPurge_def
      Let_def count_purged)

text \<open>
  C10: A purge returns for every batch size, either with an error or with one recorded run. It fails exactly when
  the batch size is no positive whole number and some category is not kept forever, and then before the first row
  is deleted and without recording a run; when every category is kept forever the batch size is never looked at.
\<close>

theorem purge_always_returns:
  "\<exists>r d'. runRetentionPurge policy now trigger opts (int ms) d = Some (r, d')
     \<and> (case r of Inl e \<Rightarrow> d' = d \<and> e = Batch_Size_Error (batchSizeOf opts) \<and> \<not> valid_batch opts
                          \<and> (\<exists>c. forCategory policy c \<noteq> Keep_Forever)
                | Inr run \<Rightarrow> rb_runs d' = rb_runs d @ [run]
                          \<and> (valid_batch opts \<or> (\<forall>c. forCategory policy c = Keep_Forever)))"
proof (cases "valid_batch opts")
  case True
  then show ?thesis
    by (simp add: runRetentionPurge_def then_purge_def purge_categories_exact recordPurgeRun_def Let_def)
next
  case False
  then show ?thesis
    by (auto simp: runRetentionPurge_def then_purge_def purge_invalid_batch every_category recordPurgeRun_def Let_def)
qed

definition old_history :: retention_db where
  "old_history = \<lparr>rb_policy = empty_store\<lparr>
       st_samples := [\<lparr>us_id = 1, us_userId = 1, us_clientId = 1, us_activityId = 1, us_startedAt = 0, us_endedAt = 60000\<rparr>,
                      \<lparr>us_id = 2, us_userId = 1, us_clientId = 1, us_activityId = 1, us_startedAt = 60000, us_endedAt = 90000000\<rparr>],
       st_grants := [(1, \<lparr>gi_scope = Overall, gi_targetId = None, gi_secondsGranted = 600, gi_grantedAt = 0, gi_expiresAt = 3600000,
                          gi_revokedAt = None\<rparr>)]\<rparr>,
     rb_audit = \<lparr>lg_rows = [], lg_seq = 0\<rparr>,
     rb_overrides = [\<lparr>ro_category = Grant_Ledger, ro_keepForever = True, ro_days = None, ro_updatedAt = 0\<rparr>],
     rb_runs = [], rb_runSeq = 0\<rparr>"

definition one_day_policy :: retention_policy where
  "one_day_policy = \<lparr>rp_defaultDays = 1, rp_overrides = [(Grant_Ledger, Keep_Forever)]\<rparr>"

lemma purge_run_exact_witness:
  "valid_batch (Some 1)
   \<and> (\<exists>run d'. runRetentionPurge one_day_policy 172800000 Manual (Some 1) 4 old_history = Some (Inr run, d')
        \<and> pr_totalDeleted run = 1 \<and> map us_id (st_samples (rb_policy d')) = [2] \<and> length (st_grants (rb_policy d')) = 1)"
proof -
  have valid: "valid_batch (Some 1)" by (simp add: valid_batch_def batchSizeOf_def)
  have facts: "pv_totalWouldDelete (previewRetentionPurge one_day_policy 172800000 old_history) = 1"
    "map us_id (st_samples (rb_policy (purged one_day_policy 172800000 old_history))) = [2]"
    "length (st_grants (rb_policy (purged one_day_policy 172800000 old_history))) = 1"
    by code_simp+
  show ?thesis
    using purge_run_exact [OF valid, of 4 one_day_policy 172800000 Manual old_history] valid facts by auto
qed

section \<open>The overrides\<close>

definition retention_ok :: "retention_db \<Rightarrow> bool" where
  "retention_ok d \<longleftrightarrow> distinct (map ro_category (rb_overrides d)) \<and> (\<forall>r \<in> set (rb_overrides d). override_check r)"

definition override_of :: "retention_db \<Rightarrow> retention_category \<Rightarrow> retention_override option" where
  "override_of d c = List.find (\<lambda>r. ro_category r = c) (rb_overrides d)"

definition resolved_of :: "retention_override \<Rightarrow> resolved_retention" where
  "resolved_of r = (if ro_keepForever r then Keep_Forever else Keep_Days (the (ro_days r)))"

lemma override_resolves: "override_check r \<Longrightarrow> overrideToResolved r = Inr (resolved_of r)"
  by (auto simp: override_check_def overrideToResolved_def resolved_of_def split: if_splits option.splits)

lemma map_of_fold_update:
  assumes "distinct (map k rows)"
  shows "map_of (fold (\<lambda>r. AList.update (k r) (v r)) rows m) c
    = (case List.find (\<lambda>r. k r = c) rows of None \<Rightarrow> map_of m c | Some r \<Rightarrow> Some (v r))"
  using assms
proof (induction rows arbitrary: m)
  case (Cons r rows)
  have "List.find (\<lambda>s. k s = k r) rows = None" using Cons.prems by (auto simp: find_None_iff image_iff)
  then show ?case using Cons by (simp split: option.splits) auto
qed simp

lemma foldE_total: "(\<And>x a. x \<in> set xs \<Longrightarrow> f a x = Inr (g x a)) \<Longrightarrow> foldE f a xs = Inr (fold g xs a)"
  by (induction xs arbitrary: a) auto

lemma listed_overrides:
  assumes "retention_ok d"
  shows "distinct (map ro_category (listRetentionOverrides d))"
    and "r \<in> set (listRetentionOverrides d) \<Longrightarrow> override_check r"
    and "List.find (\<lambda>r. ro_category r = c) (listRetentionOverrides d) = override_of d c"
proof -
  let ?L = "listRetentionOverrides d"
  show L: "distinct (map ro_category ?L)" using assms by (simp add: retention_ok_def listRetentionOverrides_def distinct_map)
  show "r \<in> set ?L \<Longrightarrow> override_check r" using assms by (simp add: retention_ok_def listRetentionOverrides_def)
  have members: "set ?L = set (rb_overrides d)" by (simp add: listRetentionOverrides_def)
  show "List.find (\<lambda>r. ro_category r = c) ?L = override_of d c"
  proof (cases "override_of d c")
    case None
    then have "List.find (\<lambda>r. ro_category r = c) ?L = None" using members by (auto simp: override_of_def find_None_iff)
    then show ?thesis using None by simp
  next
    case (Some r)
    then have r: "r \<in> set ?L" "ro_category r = c" using members by (auto simp: override_of_def find_Some_iff)
    then obtain s where s: "List.find (\<lambda>r. ro_category r = c) ?L = Some s"
      by (cases "List.find (\<lambda>r. ro_category r = c) ?L") (auto simp: find_None_iff)
    then have "s \<in> set ?L" "ro_category s = c" by (auto simp: find_Some_iff)
    then have "s = r" using r L by (auto simp: distinct_map inj_on_def)
    then show ?thesis using s Some by simp
  qed
qed

lemma policy_of_overrides:
  assumes "retention_ok d"
  shows "\<exists>policy. fromOverrides defaultDays (listRetentionOverrides d) = Inr policy
    \<and> forCategory policy = (\<lambda>c. case override_of d c of None \<Rightarrow> Keep_Days defaultDays | Some r \<Rightarrow> resolved_of r)"
proof -
  have "foldE (\<lambda>resolved row. bindE (overrideToResolved row) (\<lambda>r. Inr (AList.update (ro_category row) r resolved))) [] (listRetentionOverrides d)
    = Inr (fold (\<lambda>r. AList.update (ro_category r) (resolved_of r)) (listRetentionOverrides d) [])"
    by (rule foldE_total) (simp add: override_resolves [OF listed_overrides(2) [OF assms]])
  then show ?thesis
    by (simp add: fromOverrides_def forCategory_def resolveRetention_def fun_eq_iff map_of_fold_update
        listed_overrides(1,3) [OF assms] split: option.splits)
qed

lemma config_entries:
  assumes "retention_ok d"
  shows "get_retention defaultDays d = (defaultDays,
    map (\<lambda>c. case override_of d c of None \<Rightarrow> defaultEntry defaultDays c | Some r \<Rightarrow> toOverrideEntry r) retentionCategoryValues)"
  by (simp add: get_retention_def toRetentionConfigResponse_def Let_def map_of_fold_update
      listed_overrides(1,3) [OF assms] split: option.splits)

lemma category_listed [simp]: "c \<in> set retentionCategoryValues"
  by (cases c) (simp_all add: retentionCategoryValues_def)

lemma put_override:
  assumes "retention_ok d" and "setRetentionOverrideSchema keepForever days = Some body"
  shows "\<exists>d' row. upsertRetentionOverride now c body d = Inr (d', row) \<and> retention_ok d' \<and> resolved_of row = body
    \<and> ro_category row = c \<and> override_of d' = (override_of d)(c \<mapsto> row)"
proof -
  let ?row = "\<lparr>ro_category = c, ro_keepForever = (body = Keep_Forever),
    ro_days = (case body of Keep_Forever \<Rightarrow> None | Keep_Days n \<Rightarrow> Some n), ro_updatedAt = stored_timestamp now\<rparr>"
  have row: "override_check ?row" "resolved_of ?row = body"
    using assms(2) by (auto simp: setRetentionOverrideSchema_def override_check_def resolved_of_def split: if_splits option.splits)
  show ?thesis
  proof (cases "c \<in> set (map ro_category (rb_overrides d))")
    case True
    let ?rows = "update_where (\<lambda>r. ro_category r = c) (\<lambda>_. ?row) (rb_overrides d)"
    have "List.find (\<lambda>r. ro_category r = x) (update_where (\<lambda>r. ro_category r = c) (\<lambda>_. ?row) rows)
        = (if x = c then Some ?row else List.find (\<lambda>r. ro_category r = x) rows)"
      if "x = c \<longrightarrow> c \<in> set (map ro_category rows)" for x rows
      using that by (induction rows) (auto simp: update_where_def)
    then have "override_of (d\<lparr>rb_overrides := ?rows\<rparr>) = (override_of d)(c \<mapsto> ?row)"
      using True by (simp add: override_of_def fun_eq_iff)
    moreover have "map ro_category ?rows = map ro_category (rb_overrides d)" by (simp add: update_where_def)
    moreover have "\<forall>r \<in> set ?rows. override_check r"
      using assms(1) row(1) by (auto simp: retention_ok_def update_where_def)
    ultimately have "retention_ok (d\<lparr>rb_overrides := ?rows\<rparr>)"
      and "override_of (d\<lparr>rb_overrides := ?rows\<rparr>) = (override_of d)(c \<mapsto> ?row)"
      using assms(1) by (simp_all add: retention_ok_def)
    then show ?thesis using True row by (simp add: upsertRetentionOverride_def Let_def)
  next
    case False
    then have "List.find (\<lambda>r. ro_category r = c) (rb_overrides d) = None" by (auto simp: find_None_iff)
    then have "override_of (d\<lparr>rb_overrides := rb_overrides d @ [?row]\<rparr>) = (override_of d)(c \<mapsto> ?row)"
      by (auto simp: override_of_def fun_eq_iff find_append split: option.splits)
    moreover have "retention_ok (d\<lparr>rb_overrides := rb_overrides d @ [?row]\<rparr>)"
      using assms(1) row(1) False by (auto simp: retention_ok_def)
    ultimately show ?thesis using False row by (simp add: upsertRetentionOverride_def Let_def)
  qed
qed

lemma clear_override:
  assumes "retention_ok d"
  shows "retention_ok (fst (delete_retention defaultDays c d))"
    and "override_of (fst (delete_retention defaultDays c d)) c = None"
  using assms by (auto simp: delete_retention_def deleteRetentionOverride_def retention_ok_def override_of_def find_None_iff
      distinct_map intro: inj_on_subset)

text \<open>
  C0: A retention window the admin surface accepts is stored, appears in the configuration it reads back and
  governs its category from the next purge on, the other categories keep theirs; clearing it brings the
  default window back. Every stored configuration resolves.
\<close>

theorem override_takes_effect:
  assumes "retention_ok d" and "setRetentionOverrideSchema keepForever days = Some body"
    and "fromOverrides defaultDays (listRetentionOverrides d) = Inr before_policy"
  shows "\<exists>d' entry policy cleared.
     put_retention now c body d = Inr (d', entry) \<and> retention_ok d' \<and> entry \<in> set (snd (get_retention defaultDays d'))
   \<and> fromOverrides defaultDays (listRetentionOverrides d') = Inr policy
   \<and> forCategory policy = (forCategory before_policy)(c := body)
   \<and> fromOverrides defaultDays (listRetentionOverrides (fst (delete_retention defaultDays c d'))) = Inr cleared
   \<and> forCategory cleared c = Keep_Days defaultDays"
proof -
  obtain d' row where d': "upsertRetentionOverride now c body d = Inr (d', row)" "retention_ok d'" "resolved_of row = body"
    "ro_category row = c" "override_of d' = (override_of d)(c \<mapsto> row)"
    using put_override [OF assms(1,2)] by blast
  obtain policy where policy: "fromOverrides defaultDays (listRetentionOverrides d') = Inr policy"
    "forCategory policy = (\<lambda>c. case override_of d' c of None \<Rightarrow> Keep_Days defaultDays | Some r \<Rightarrow> resolved_of r)"
    using policy_of_overrides [OF d'(2)] by blast
  obtain cleared where cleared: "fromOverrides defaultDays (listRetentionOverrides (fst (delete_retention defaultDays c d'))) = Inr cleared"
    "forCategory cleared c = Keep_Days defaultDays"
    using policy_of_overrides [OF clear_override(1) [OF d'(2)], of defaultDays defaultDays c] clear_override(2) [OF d'(2)] by auto
  have "forCategory before_policy = (\<lambda>c. case override_of d c of None \<Rightarrow> Keep_Days defaultDays | Some r \<Rightarrow> resolved_of r)"
    using policy_of_overrides [OF assms(1), of defaultDays] assms(3) by auto
  then have "forCategory policy = (forCategory before_policy)(c := body)" using policy(2) d'(3,5) by (auto simp: fun_eq_iff)
  moreover have "toOverrideEntry row \<in> set (snd (get_retention defaultDays d'))"
    using d'(5) by (auto simp: config_entries [OF d'(2)] image_iff intro!: bexI [of _ c])
  ultimately show ?thesis using d' policy cleared by (auto simp: put_retention_def)
qed

lemma override_takes_effect_witness:
  "retention_ok old_history
   \<and> (\<exists>d' entry policy. put_retention 5000 Grant_Ledger (Keep_Days 30) old_history = Inr (d', entry)
        \<and> fromOverrides 365 (listRetentionOverrides d') = Inr policy \<and> forCategory policy Grant_Ledger = Keep_Days 30)"
proof -
  have ok: "retention_ok old_history" by code_simp
  have body: "setRetentionOverrideSchema False (Some 30) = Some (Keep_Days 30)" by code_simp
  obtain policy where "fromOverrides 365 (listRetentionOverrides old_history) = Inr policy"
    using policy_of_overrides [OF ok] by blast
  from override_takes_effect [OF ok body this, of 5000 Grant_Ledger] ok show ?thesis by auto
qed

end
