(* ===== verification/AdGuard_Client.thy ===== *)
theory AdGuard_Client
  imports Control_Store
begin

text \<open>
  The REST client of an AdGuard Home instance: \<open>transport/adguard/client.ts\<close> with the response schemas of
  \<open>schemas.ts\<close> and the errors of \<open>errors.ts\<close>. The one call it makes, \<open>fetch\<close>, is a parameter: an action on a
  world of its own that fails with the name of the error it threw or gives a status and, when it is JSON, a
  body. An AdGuard client keeps the fields of its object. The time limit is part of \<open>fetch\<close>.
\<close>

section \<open>Response schemas\<close>

text \<open>A field parser sees the value of its key, if the key is there, and gives the value kept, if any is.\<close>

type_synonym fields = "(string \<times> json) list"
type_synonym field_parser = "json option \<Rightarrow> json option option"

fun required :: "(json \<Rightarrow> json option) \<Rightarrow> field_parser" where
  "required p None = None"
| "required p (Some v) = map_option Some (p v)"

fun optional :: "(json \<Rightarrow> json option) \<Rightarrow> field_parser" where
  "optional p None = Some None"
| "optional p (Some v) = map_option Some (p v)"

fun nullish_or :: "json \<Rightarrow> (json \<Rightarrow> json option) \<Rightarrow> field_parser" where
  "nullish_or d p None = Some (Some d)"
| "nullish_or d p (Some v) = (if v = JNull then Some (Some d) else map_option Some (p v))"

fun zod_string :: "json \<Rightarrow> json option" where
  "zod_string (JStr s) = Some (JStr s)"
| "zod_string _ = None"

fun zod_boolean :: "json \<Rightarrow> json option" where
  "zod_boolean (JBool b) = Some (JBool b)"
| "zod_boolean _ = None"

fun zod_number :: "json \<Rightarrow> json option" where
  "zod_number (JNum n) = Some (JNum n)"
| "zod_number _ = None"

definition zod_unknown :: "json \<Rightarrow> json option" where
  "zod_unknown v = Some v"

fun zod_all :: "(json \<Rightarrow> json option) \<Rightarrow> json list \<Rightarrow> json list option" where
  "zod_all p [] = Some []"
| "zod_all p (v # vs) = (case p v of None \<Rightarrow> None | Some v' \<Rightarrow> map_option ((#) v') (zod_all p vs))"

fun zod_array :: "(json \<Rightarrow> json option) \<Rightarrow> json \<Rightarrow> json option" where
  "zod_array p (JArr vs) = map_option JArr (zod_all p vs)"
| "zod_array p _ = None"

fun zod_fields :: "(string \<times> field_parser) list \<Rightarrow> fields \<Rightarrow> fields option" where
  "zod_fields [] ob = Some []"
| "zod_fields ((k, p) # shape) ob =
     (case p (map_of ob k) of
        None \<Rightarrow> None
      | Some None \<Rightarrow> zod_fields shape ob
      | Some (Some v) \<Rightarrow> map_option ((#) (k, v)) (zod_fields shape ob))"

fun zod_object :: "(string \<times> field_parser) list \<Rightarrow> json \<Rightarrow> json option" where
  "zod_object shape (JObj ob) = map_option JObj (zod_fields shape ob)"
| "zod_object shape _ = None"

definition adGuardStatusSchema :: "json \<Rightarrow> json option" where
  "adGuardStatusSchema = zod_object
     [(''version'', required zod_string), (''running'', required zod_boolean), (''protection_enabled'', required zod_boolean),
      (''dns_addresses'', optional (zod_array zod_string)), (''dns_port'', optional zod_number), (''http_port'', optional zod_number),
      (''language'', optional zod_string), (''dhcp_available'', optional zod_boolean)]"

definition client_shape :: "(string \<times> field_parser) list" where
  "client_shape =
     [(''name'', required zod_string), (''ids'', required (zod_array zod_string)),
      (''use_global_settings'', optional zod_boolean), (''filtering_enabled'', optional zod_boolean),
      (''parental_enabled'', optional zod_boolean), (''safebrowsing_enabled'', optional zod_boolean),
      (''use_global_blocked_services'', optional zod_boolean), (''blocked_services'', optional (zod_array zod_string)),
      (''upstreams'', optional (zod_array zod_string)), (''tags'', optional (zod_array zod_string))]"

definition adGuardClientSchema :: "json \<Rightarrow> json option" where
  "adGuardClientSchema = zod_object client_shape"

definition adGuardClientsResponseSchema :: "json \<Rightarrow> json option" where
  "adGuardClientsResponseSchema = zod_object
     [(''clients'', nullish_or (JArr []) (zod_array adGuardClientSchema)),
      (''auto_clients'', optional (zod_array zod_unknown)), (''supported_tags'', optional (zod_array zod_string))]"

definition adGuardFilteringStatusSchema :: "json \<Rightarrow> json option" where
  "adGuardFilteringStatusSchema = zod_object
     [(''enabled'', optional zod_boolean), (''interval'', optional zod_number),
      (''user_rules'', nullish_or (JArr []) (zod_array zod_string))]"

text \<open>Reading a validated value.\<close>

fun the_fields :: "json \<Rightarrow> fields" where
  "the_fields (JObj ob) = ob"
| "the_fields _ = []"

fun the_items :: "json \<Rightarrow> json list" where
  "the_items (JArr vs) = vs"
| "the_items _ = []"

fun the_text :: "json \<Rightarrow> string" where
  "the_text (JStr s) = s"
| "the_text _ = []"

definition items_of :: "string \<Rightarrow> fields \<Rightarrow> json list" where
  "items_of k ob = (case map_of ob k of None \<Rightarrow> [] | Some v \<Rightarrow> the_items v)"

definition ag_name :: "fields \<Rightarrow> string" where
  "ag_name ob = (case map_of ob ''name'' of None \<Rightarrow> [] | Some v \<Rightarrow> the_text v)"

definition ag_ids :: "fields \<Rightarrow> string list" where
  "ag_ids ob = map the_text (items_of ''ids'' ob)"

section \<open>The client\<close>

datatype adguard_error =
    AdGuardUnreachableError (error_path: string) (timed_out: bool)
  | AdGuardAuthError (error_path: string) (status_code: int)
  | AdGuardRequestError (error_path: string) (status_code: int)
  | AdGuardParseError (error_path: string)
  | AdGuardScopeError (error_path: string) (client_name: string) (required_prefix: string)

datatype adguard_auth = Basic string string | Bearer string

record http_request =
  rq_url :: string
  rq_post :: bool
  rq_authorization :: "string option"
  rq_body :: "json option"

datatype http_outcome = Fetch_Threw "string option" | Answered int "json option"

type_synonym ('a, 'w) ag_act = "'w \<Rightarrow> (adguard_error + 'a) \<times> 'w"

definition then_ag :: "('a, 'w) ag_act \<Rightarrow> ('a \<Rightarrow> ('b, 'w) ag_act) \<Rightarrow> ('b, 'w) ag_act" where
  "then_ag m f w = (case m w of (Inl e, w') \<Rightarrow> (Inl e, w') | (Inr a, w') \<Rightarrow> f a w')"

definition give :: "'a \<Rightarrow> ('a, 'w) ag_act" where
  "give a w = (Inr a, w)"

record 'w adguard_client =
  ag_baseUrl :: string
  ag_auth :: "adguard_auth option"
  ag_fetch :: "http_request \<Rightarrow> 'w \<Rightarrow> http_outcome \<times> 'w"
  ag_clientPrefix :: string

definition DEFAULT_CLIENT_PREFIX :: string where "DEFAULT_CLIENT_PREFIX = ''pct:''"

definition new_AdGuardHomeClient ::
  "string \<Rightarrow> adguard_auth option \<Rightarrow> (http_request \<Rightarrow> 'w \<Rightarrow> http_outcome \<times> 'w) \<Rightarrow> string option \<Rightarrow> 'w adguard_client" where
  "new_AdGuardHomeClient baseUrl auth fetch clientPrefix =
     \<lparr>ag_baseUrl = rev (dropWhile (\<lambda>c. c = CHR ''/'') (rev baseUrl)), ag_auth = auth, ag_fetch = fetch,
      ag_clientPrefix = nullish clientPrefix DEFAULT_CLIENT_PREFIX\<rparr>"

text \<open>The base64 text of a byte string, as \<open>Buffer.toString\<close> gives it.\<close>

definition base64_digit :: "nat \<Rightarrow> char" where
  "base64_digit n =
     (if n < 26 then char_of (n + 65) else if n < 52 then char_of (n + 71) else if n < 62 then char_of (n - 4)
      else if n = 62 then CHR ''+'' else CHR ''/'')"

fun base64 :: "string \<Rightarrow> string" where
  "base64 [] = []"
| "base64 [a] = (let n = of_char a * 16 in [base64_digit (n div 64), base64_digit (n mod 64), CHR ''='', CHR ''=''])"
| "base64 [a, b] =
     (let n = (of_char a * 256 + of_char b) * 4
      in [base64_digit (n div 4096), base64_digit (n div 64 mod 64), base64_digit (n mod 64), CHR ''=''])"
| "base64 (a # b # c # r) =
     (let n = (of_char a * 256 + of_char b) * 256 + of_char c
      in base64_digit (n div 262144) # base64_digit (n div 4096 mod 64) # base64_digit (n div 64 mod 64) # base64_digit (n mod 64) # base64 r)"

definition authHeader :: "'w adguard_client \<Rightarrow> string option" where
  "authHeader c =
     (case ag_auth c of
        None \<Rightarrow> None
      | Some (Bearer token) \<Rightarrow> Some (''Bearer '' @ token)
      | Some (Basic username password) \<Rightarrow> Some (''Basic '' @ base64 (username @ '':'' @ password)))"

definition isTimeout :: "string option \<Rightarrow> bool" where
  "isTimeout cause \<longleftrightarrow> cause = Some ''TimeoutError'' \<or> cause = Some ''AbortError''"

definition ag_send :: "'w adguard_client \<Rightarrow> string \<Rightarrow> bool \<Rightarrow> json option \<Rightarrow> (int \<times> json option, 'w) ag_act" where
  "ag_send c path post body w =
     (case ag_fetch c \<lparr>rq_url = ag_baseUrl c @ path, rq_post = post, rq_authorization = authHeader c, rq_body = body\<rparr> w of
        (Fetch_Threw cause, w') \<Rightarrow> (Inl (AdGuardUnreachableError path (isTimeout cause)), w')
      | (Answered status answer, w') \<Rightarrow> (Inr (status, answer), w'))"

definition assertOk :: "string \<Rightarrow> int \<Rightarrow> (unit, 'w) ag_act" where
  "assertOk path status w =
     (if 200 \<le> status \<and> status \<le> 299 then Inr ()
      else if status = 401 \<or> status = 403 then Inl (AdGuardAuthError path status)
      else Inl (AdGuardRequestError path status), w)"

definition getJson :: "'w adguard_client \<Rightarrow> string \<Rightarrow> (json, 'w) ag_act" where
  "getJson c path =
     then_ag (ag_send c path False None) (\<lambda>(status, body).
     then_ag (assertOk path status) (\<lambda>_ w. (case body of None \<Rightarrow> Inl (AdGuardParseError path) | Some j \<Rightarrow> Inr j, w)))"

definition postOk :: "'w adguard_client \<Rightarrow> string \<Rightarrow> json \<Rightarrow> (unit, 'w) ag_act" where
  "postOk c path body = then_ag (ag_send c path True (Some body)) (\<lambda>(status, _). assertOk path status)"

definition ag_parse :: "(json \<Rightarrow> json option) \<Rightarrow> string \<Rightarrow> json \<Rightarrow> (json, 'w) ag_act" where
  "ag_parse schema path body w = (case schema body of None \<Rightarrow> Inl (AdGuardParseError path) | Some v \<Rightarrow> Inr v, w)"

definition getStatus :: "'w adguard_client \<Rightarrow> (json, 'w) ag_act" where
  "getStatus c = then_ag (getJson c ''/control/status'') (ag_parse adGuardStatusSchema ''/control/status'')"

definition ag_listClients :: "'w adguard_client \<Rightarrow> (fields list, 'w) ag_act" where
  "ag_listClients c =
     then_ag (getJson c ''/control/clients'') (\<lambda>body.
     then_ag (ag_parse adGuardClientsResponseSchema ''/control/clients'' body) (\<lambda>v.
     give (map the_fields (items_of ''clients'' (the_fields v)))))"

definition has_prefix :: "string \<Rightarrow> string \<Rightarrow> bool" where
  "has_prefix p s \<longleftrightarrow> take (length p) s = p"

definition listManagedClients :: "'w adguard_client \<Rightarrow> (fields list, 'w) ag_act" where
  "listManagedClients c =
     then_ag (ag_listClients c) (\<lambda>clients. give (filter (\<lambda>row. has_prefix (ag_clientPrefix c) (ag_name row)) clients))"

definition assertManaged :: "'w adguard_client \<Rightarrow> string \<Rightarrow> string \<Rightarrow> (unit, 'w) ag_act" where
  "assertManaged c name path w =
     (if has_prefix (ag_clientPrefix c) name then Inr () else Inl (AdGuardScopeError path name (ag_clientPrefix c)), w)"

definition addClient :: "'w adguard_client \<Rightarrow> fields \<Rightarrow> (unit, 'w) ag_act" where
  "addClient c client =
     then_ag (assertManaged c (ag_name client) ''/control/clients/add'') (\<lambda>_. postOk c ''/control/clients/add'' (JObj client))"

definition ag_updateClient :: "'w adguard_client \<Rightarrow> string \<Rightarrow> fields \<Rightarrow> (unit, 'w) ag_act" where
  "ag_updateClient c name update =
     then_ag (assertManaged c name ''/control/clients/update'') (\<lambda>_.
     then_ag (assertManaged c (ag_name update) ''/control/clients/update'') (\<lambda>_.
     postOk c ''/control/clients/update'' (JObj [(''name'', JStr name), (''data'', JObj update)])))"

definition ag_deleteClient :: "'w adguard_client \<Rightarrow> string \<Rightarrow> (unit, 'w) ag_act" where
  "ag_deleteClient c name =
     then_ag (assertManaged c name ''/control/clients/delete'') (\<lambda>_.
     postOk c ''/control/clients/delete'' (JObj [(''name'', JStr name)]))"

definition getUserRules :: "'w adguard_client \<Rightarrow> (string list, 'w) ag_act" where
  "getUserRules c =
     then_ag (getJson c ''/control/filtering/status'') (\<lambda>body.
     then_ag (ag_parse adGuardFilteringStatusSchema ''/control/filtering/status'' body) (\<lambda>v.
     give (map the_text (items_of ''user_rules'' (the_fields v)))))"

definition setUserRules :: "'w adguard_client \<Rightarrow> string list \<Rightarrow> (unit, 'w) ag_act" where
  "setUserRules c rules = postOk c ''/control/filtering/set_rules'' (JObj [(''rules'', JArr (map JStr rules))])"

end
