(* ===== verification/Dns_Blocklist.thy ===== *)
theory Dns_Blocklist
  imports AdGuard_Client Group_Resolution Transport_Audit
begin

text \<open>
  The DNS blocklist of a device (\<open>transport/adguard/blocklist.ts\<close>): the plan composed from the always-on
  domain denies of the policy store, the rewriting of the instance's user rules around a marked block, the
  reconciliation of the dashboard's AdGuard clients, and the orchestrator that runs the three over the REST
  client of \<open>AdGuard_Client\<close>.
\<close>

section \<open>The plan\<close>

definition MANAGED_BLOCK_BEGIN :: string where
  "MANAGED_BLOCK_BEGIN = ''! >>> pct-managed: do not edit (managed by the parental-controls dashboard) >>>''"

definition MANAGED_BLOCK_END :: string where
  "MANAGED_BLOCK_END = ''! <<< pct-managed <<<''"

record dns_client =
  dc_name :: string
  dc_ids :: "string list"
  dc_domains :: "string list"

record dns_skipped =
  ds_clientId :: int
  ds_name :: string
  ds_label :: string
  ds_domains :: "string list"

record dns_plan =
  dp_clients :: "dns_client list"
  dp_skipped :: "dns_skipped list"

record plan_accumulator =
  pa_label :: string
  pa_ids :: "string list"
  pa_domains :: "string list"
  pa_clientIds :: "int list"

definition labelForClient :: "string option \<Rightarrow> string \<Rightarrow> string" where
  "labelForClient friendlyName hostname =
     (let label = js_trim (nullish friendlyName hostname) in if label = [] then hostname else label)"

definition client_label :: "client_row \<Rightarrow> string" where
  "client_label c = labelForClient (client_friendlyName c) (client_hostname c)"

definition client_denies :: "db \<Rightarrow> client_row \<Rightarrow> string list" where
  "client_denies d c =
     js_set_of (concat (map (\<lambda>l. resolveAlwaysOnDomainDenies (db_policy d) (link_userId l)) (listClientLinks d (client_id c))))"

definition reported_ids :: "client_row \<Rightarrow> string list" where
  "reported_ids c = filter (\<lambda>ip. 0 < length (js_trim ip)) (nullish (client_reportedIps c) [])"

definition fresh_accumulator :: "string \<Rightarrow> plan_accumulator" where
  "fresh_accumulator label = \<lparr>pa_label = label, pa_ids = [], pa_domains = [], pa_clientIds = []\<rparr>"

definition plan_step ::
  "string \<Rightarrow> db \<Rightarrow> client_row \<Rightarrow> (string \<times> plan_accumulator) list \<Rightarrow> (string \<times> plan_accumulator) list" where
  "plan_step clientPrefix d c byName =
     (let domains = client_denies d c in
      if domains = [] then byName
      else let name = clientPrefix @ client_label c;
               entry = nullish (map_of byName name) (fresh_accumulator (client_label c))
           in AList.update name
                \<lparr>pa_label = pa_label entry, pa_ids = fold js_set_add (reported_ids c) (pa_ids entry),
                 pa_domains = fold js_set_add domains (pa_domains entry), pa_clientIds = pa_clientIds entry @ [client_id c]\<rparr> byName)"

definition plan_entries :: "string \<Rightarrow> db \<Rightarrow> (string \<times> plan_accumulator) list" where
  "plan_entries clientPrefix d = fold (plan_step clientPrefix d) (listClients d) []"

definition buildDnsBlocklistPlan :: "string \<Rightarrow> db \<Rightarrow> dns_plan" where
  "buildDnsBlocklistPlan clientPrefix d =
     (let byName = plan_entries clientPrefix d in
      \<lparr>dp_clients = sort_key dc_name
         (map (\<lambda>(name, e). \<lparr>dc_name = name, dc_ids = sort (pa_ids e), dc_domains = sort (pa_domains e)\<rparr>)
            (filter (\<lambda>(name, e). 0 < length (pa_ids e)) byName)),
       dp_skipped = sort_key ds_clientId
         (map (\<lambda>(name, e). \<lparr>ds_clientId = Min (set (pa_clientIds e)), ds_name = name, ds_label = pa_label e,
                             ds_domains = sort (pa_domains e)\<rparr>)
            (filter (\<lambda>(name, e). \<not> 0 < length (pa_ids e)) byName))\<rparr>)"

section \<open>The rules\<close>

definition escape_name :: "string \<Rightarrow> string" where
  "escape_name clientName =
     concat (map (\<lambda>c. if c = CHR 0x27 then [CHR 0x5C, c] else [c])
       (concat (map (\<lambda>c. if c = CHR 0x5C then [c, c] else [c]) clientName)))"

definition formatBlockRule :: "string \<Rightarrow> string \<Rightarrow> string" where
  "formatBlockRule domain clientName = ''||'' @ domain @ ''^$client='' @ [CHR 0x27] @ escape_name clientName @ [CHR 0x27]"

definition managedRules :: "dns_client list \<Rightarrow> string list" where
  "managedRules clients = sort (concat (map (\<lambda>c. map (\<lambda>domain. formatBlockRule domain (dc_name c)) (dc_domains c)) clients))"

definition managedBlock :: "dns_client list \<Rightarrow> string list" where
  "managedBlock clients =
     (if managedRules clients = [] then [] else MANAGED_BLOCK_BEGIN # managedRules clients @ [MANAGED_BLOCK_END])"

fun strip_step :: "bool \<Rightarrow> string list \<Rightarrow> string list" where
  "strip_step inBlock [] = []"
| "strip_step inBlock (line # lines) =
     (if line = MANAGED_BLOCK_BEGIN then strip_step True lines
      else if line = MANAGED_BLOCK_END then strip_step False lines
      else if \<not> inBlock then line # strip_step inBlock lines else strip_step inBlock lines)"

definition stripManagedRules :: "string list \<Rightarrow> string list" where
  "stripManagedRules existing = strip_step False existing"

definition composeUserRules :: "string list \<Rightarrow> dns_plan \<Rightarrow> string list" where
  "composeUserRules existing plan = stripManagedRules existing @ managedBlock (dp_clients plan)"

section \<open>Reconciling and applying\<close>

definition sameIds :: "string list \<Rightarrow> string list \<Rightarrow> bool" where
  "sameIds a b \<longleftrightarrow> length a = length b \<and> sort a = sort b"

record reconcile_summary =
  rs_added :: nat
  rs_updated :: nat
  rs_deleted :: nat
  rs_unchanged :: nat

definition client_input :: "string \<Rightarrow> string list \<Rightarrow> fields" where
  "client_input name ids = [(''name'', JStr name), (''ids'', JArr (map JStr ids)), (''use_global_settings'', JBool True)]"

definition updated_input :: "fields \<Rightarrow> string \<Rightarrow> string list \<Rightarrow> fields" where
  "updated_input current name ids =
     AList.update ''use_global_settings'' (JBool True)
       (AList.update ''ids'' (JArr (map JStr ids)) (AList.update ''name'' (JStr name) current))"

definition up_to_date :: "fields \<Rightarrow> string list \<Rightarrow> bool" where
  "up_to_date current ids \<longleftrightarrow> sameIds (ag_ids current) ids \<and> map_of current ''use_global_settings'' = Some (JBool True)"

fun reconcile_desired ::
  "'w adguard_client \<Rightarrow> (string \<times> fields) list \<Rightarrow> (string \<times> string list) list \<Rightarrow> reconcile_summary \<Rightarrow> (reconcile_summary, 'w) ag_act" where
  "reconcile_desired c existingByName [] s = give s"
| "reconcile_desired c existingByName ((name, ids) # desired) s =
     (case map_of existingByName name of
        None \<Rightarrow> then_ag (addClient c (client_input name ids)) (\<lambda>_.
                  reconcile_desired c existingByName desired (s\<lparr>rs_added := rs_added s + 1\<rparr>))
      | Some current \<Rightarrow>
          if \<not> up_to_date current ids
          then then_ag (ag_updateClient c name (updated_input current name ids)) (\<lambda>_.
                 reconcile_desired c existingByName desired (s\<lparr>rs_updated := rs_updated s + 1\<rparr>))
          else reconcile_desired c existingByName desired (s\<lparr>rs_unchanged := rs_unchanged s + 1\<rparr>))"

fun reconcile_obsolete ::
  "'w adguard_client \<Rightarrow> (string \<times> string list) list \<Rightarrow> fields list \<Rightarrow> reconcile_summary \<Rightarrow> (reconcile_summary, 'w) ag_act" where
  "reconcile_obsolete c desired [] s = give s"
| "reconcile_obsolete c desired (row # existing) s =
     (if map_of desired (ag_name row) = None
      then then_ag (ag_deleteClient c (ag_name row)) (\<lambda>_.
             reconcile_obsolete c desired existing (s\<lparr>rs_deleted := rs_deleted s + 1\<rparr>))
      else reconcile_obsolete c desired existing s)"

definition desired_clients :: "dns_plan \<Rightarrow> (string \<times> string list) list" where
  "desired_clients plan = fold (\<lambda>e. AList.update (dc_name e) (dc_ids e)) (dp_clients plan) []"

definition reconcileManagedClients :: "'w adguard_client \<Rightarrow> dns_plan \<Rightarrow> (reconcile_summary, 'w) ag_act" where
  "reconcileManagedClients c plan =
     then_ag (listManagedClients c) (\<lambda>existing.
     then_ag (reconcile_desired c (fold (\<lambda>row. AList.update (ag_name row) row) existing []) (desired_clients plan)
                \<lparr>rs_added = 0, rs_updated = 0, rs_deleted = 0, rs_unchanged = 0\<rparr>) (\<lambda>s.
     reconcile_obsolete c (desired_clients plan) existing s))"

record apply_summary =
  as_clientsManaged :: nat
  as_skipped :: nat
  as_ruleCount :: nat
  as_rulesChanged :: bool
  as_clients :: reconcile_summary

definition applyDnsBlocklist :: "'w adguard_client \<Rightarrow> db \<Rightarrow> (apply_summary, 'w) ag_act" where
  "applyDnsBlocklist c d =
     (let plan = buildDnsBlocklistPlan (ag_clientPrefix c) d in
      then_ag (reconcileManagedClients c plan) (\<lambda>clients.
      then_ag (getUserRules c) (\<lambda>existingRules.
      let nextRules = composeUserRules existingRules plan;
          rulesChanged = (existingRules \<noteq> nextRules)
      in then_ag (if rulesChanged then setUserRules c nextRules else give ()) (\<lambda>_.
         give \<lparr>as_clientsManaged = length (dp_clients plan), as_skipped = length (dp_skipped plan),
               as_ruleCount = sum_list (map (\<lambda>e. length (dc_domains e)) (dp_clients plan)),
               as_rulesChanged = rulesChanged, as_clients = clients\<rparr>))))"

section \<open>The marked block\<close>

lemma rule_is_no_marker: "formatBlockRule domain name \<noteq> MANAGED_BLOCK_BEGIN" "formatBlockRule domain name \<noteq> MANAGED_BLOCK_END"
  "MANAGED_BLOCK_BEGIN \<noteq> formatBlockRule domain name" "MANAGED_BLOCK_END \<noteq> formatBlockRule domain name"
  by (simp_all add: formatBlockRule_def MANAGED_BLOCK_BEGIN_def MANAGED_BLOCK_END_def)

lemma managed_rule: "r \<in> set (managedRules cs) \<longleftrightarrow> (\<exists>c \<in> set cs. \<exists>domain \<in> set (dc_domains c). r = formatBlockRule domain (dc_name c))"
  by (auto simp: managedRules_def)

lemma strip_no_markers: "l \<in> set (strip_step b lines) \<Longrightarrow> l \<noteq> MANAGED_BLOCK_BEGIN \<and> l \<noteq> MANAGED_BLOCK_END"
  by (induction b lines rule: strip_step.induct) (auto split: if_splits)

lemma strip_plain: "\<forall>l \<in> set lines. l \<noteq> MANAGED_BLOCK_BEGIN \<and> l \<noteq> MANAGED_BLOCK_END \<Longrightarrow>
    strip_step b (lines @ rest) = (if b then [] else lines) @ strip_step b rest"
  by (induction lines) auto

lemma strip_again: "strip_step False (strip_step b lines @ rest) = strip_step b lines @ strip_step False rest"
  by (subst strip_plain) (auto dest: strip_no_markers)

lemma strip_block: "strip_step False (managedBlock cs) = []"
proof -
  have "strip_step True (managedRules cs @ [MANAGED_BLOCK_END]) = []"
    by (subst strip_plain) (auto simp: managed_rule rule_is_no_marker)
  then show ?thesis by (simp add: managedBlock_def)
qed

text \<open>
  C31: Composing the user rules keeps every line of the household, in order, whatever state the marked block
  was left in, and replaces what the dashboard wrote before: composing again, for the same or another plan,
  gives what composing from the household's own rules gives. What is added is one rule per domain denied on a
  device of the plan, between the markers.
\<close>

theorem household_rules_kept:
  "stripManagedRules (composeUserRules existing plan) = stripManagedRules existing
   \<and> composeUserRules (composeUserRules existing plan) plan' = composeUserRules existing plan'
   \<and> set (composeUserRules existing plan) - {MANAGED_BLOCK_BEGIN, MANAGED_BLOCK_END}
     = set (stripManagedRules existing)
       \<union> {formatBlockRule domain (dc_name c) | c domain. c \<in> set (dp_clients plan) \<and> domain \<in> set (dc_domains c)}"
proof -
  have "strip_step False (composeUserRules existing plan) = strip_step False existing" for existing plan
    by (simp add: composeUserRules_def stripManagedRules_def strip_again strip_block)
  moreover have "set (managedBlock cs) - {MANAGED_BLOCK_BEGIN, MANAGED_BLOCK_END} = {formatBlockRule domain (dc_name c) | c domain. c \<in> set cs \<and> domain \<in> set (dc_domains c)}" for cs
  proof -
    have "set (managedBlock cs) - {MANAGED_BLOCK_BEGIN, MANAGED_BLOCK_END} = set (managedRules cs)"
      by (auto simp: managedBlock_def managed_rule rule_is_no_marker)
    also have "\<dots> = {formatBlockRule domain (dc_name c) | c domain. c \<in> set cs \<and> domain \<in> set (dc_domains c)}"
      unfolding set_eq_iff managed_rule by blast
    finally show ?thesis .
  qed
  moreover have "set (stripManagedRules existing) - {MANAGED_BLOCK_BEGIN, MANAGED_BLOCK_END} = set (stripManagedRules existing)"
    by (auto simp: stripManagedRules_def dest: strip_no_markers)
  ultimately show ?thesis by (simp add: composeUserRules_def stripManagedRules_def Un_Diff)
qed

section \<open>What the plan covers\<close>

definition named_clients :: "string \<Rightarrow> db \<Rightarrow> string \<Rightarrow> client_row list \<Rightarrow> client_row list" where
  "named_clients clientPrefix d n cs = filter (\<lambda>c. client_denies d c \<noteq> [] \<and> clientPrefix @ client_label c = n) cs"

lemma plan_lookup:
  "map_of (fold (plan_step clientPrefix d) cs []) n =
     (let g = named_clients clientPrefix d n cs in
      if g = [] then None
      else Some \<lparr>pa_label = drop (length clientPrefix) n, pa_ids = fold js_set_add (concat (map reported_ids g)) [],
                 pa_domains = fold js_set_add (concat (map (client_denies d) g)) [], pa_clientIds = map client_id g\<rparr>)"
proof (induction cs rule: rev_induct)
  case (snoc c cs)
  then show ?case
    by (auto simp: plan_step_def named_clients_def Let_def fresh_accumulator_def)
qed (simp add: named_clients_def)

lemma plan_names: "distinct (map fst (fold (plan_step clientPrefix d) cs []))"
  by (induction cs rule: rev_induct) (simp_all add: plan_step_def Let_def distinct_keys_update)

lemma plan_entry:
  "(n, e) \<in> set (plan_entries clientPrefix d) \<longleftrightarrow>
     (let g = named_clients clientPrefix d n (listClients d) in g \<noteq> [] \<and>
        e = \<lparr>pa_label = drop (length clientPrefix) n, pa_ids = fold js_set_add (concat (map reported_ids g)) [],
             pa_domains = fold js_set_add (concat (map (client_denies d) g)) [], pa_clientIds = map client_id g\<rparr>)"
proof -
  have "(n, e) \<in> set (plan_entries clientPrefix d) \<longleftrightarrow> map_of (plan_entries clientPrefix d) n = Some e"
    using plan_names [of clientPrefix d "listClients d"] by (simp add: plan_entries_def)
  then show ?thesis by (auto simp: plan_entries_def plan_lookup Let_def)
qed

lemma denied_domain:
  "x \<in> set (client_denies d c) \<longleftrightarrow>
     (\<exists>l \<in> set (db_links d). link_clientId l = client_id c \<and> x \<in> set (resolveAlwaysOnDomainDenies (db_policy d) (link_userId l)))"
  by (auto simp: client_denies_def listClientLinks_def)

definition blocks :: "dns_plan \<Rightarrow> string \<Rightarrow> string \<Rightarrow> bool" where
  "blocks plan n x \<longleftrightarrow> (\<exists>e \<in> set (dp_clients plan). dc_name e = n \<and> x \<in> set (dc_domains e))"

definition reports_skipped :: "dns_plan \<Rightarrow> string \<Rightarrow> string \<Rightarrow> bool" where
  "reports_skipped plan n x \<longleftrightarrow> (\<exists>s \<in> set (dp_skipped plan). ds_name s = n \<and> x \<in> set (ds_domains s))"

definition denied_on :: "db \<Rightarrow> client_row \<Rightarrow> string \<Rightarrow> bool" where
  "denied_on d c x \<longleftrightarrow>
     (\<exists>l \<in> set (db_links d). link_clientId l = client_id c \<and> x \<in> set (resolveAlwaysOnDomainDenies (db_policy d) (link_userId l)))"

definition denying_devices :: "string \<Rightarrow> db \<Rightarrow> string \<Rightarrow> client_row set" where
  "denying_devices clientPrefix d n =
     {c \<in> set (db_clients d). clientPrefix @ client_label c = n \<and> (\<exists>x. denied_on d c x)}"

lemma denying_group: "set (named_clients clientPrefix d n (listClients d)) = denying_devices clientPrefix d n"
proof -
  have "client_denies d c \<noteq> [] \<longleftrightarrow> (\<exists>x. x \<in> set (client_denies d c))" for c
    by (cases "client_denies d c") auto
  then show ?thesis
    by (auto simp: named_clients_def listClients_def denying_devices_def denied_domain denied_on_def)
qed

lemma entry_facts:
  assumes "(n, e) \<in> set (plan_entries clientPrefix d)"
  shows "set (pa_ids e) = (\<Union>c \<in> denying_devices clientPrefix d n. set (reported_ids c))"
    and "set (pa_domains e) = (\<Union>c \<in> denying_devices clientPrefix d n. {x. denied_on d c x})"
    and "pa_ids e \<noteq> [] \<longleftrightarrow> (\<exists>c \<in> denying_devices clientPrefix d n. reported_ids c \<noteq> [])"
proof -
  let ?g = "named_clients clientPrefix d n (listClients d)"
  have "set (client_denies d c) = {x. denied_on d c x}" for c by (auto simp: denied_domain denied_on_def)
  moreover have "set (pa_ids e) = (\<Union>c \<in> set ?g. set (reported_ids c))" "set (pa_domains e) = (\<Union>c \<in> set ?g. set (client_denies d c))"
    using assms by (auto simp: plan_entry Let_def)
  ultimately show ids: "set (pa_ids e) = (\<Union>c \<in> denying_devices clientPrefix d n. set (reported_ids c))"
    and "set (pa_domains e) = (\<Union>c \<in> denying_devices clientPrefix d n. {x. denied_on d c x})"
    by (simp_all add: denying_group)
  have "pa_ids e \<noteq> [] \<longleftrightarrow> set (pa_ids e) \<noteq> {}" by simp
  also have "\<dots> \<longleftrightarrow> (\<exists>c \<in> denying_devices clientPrefix d n. set (reported_ids c) \<noteq> {})" unfolding ids by auto
  finally show "pa_ids e \<noteq> [] \<longleftrightarrow> (\<exists>c \<in> denying_devices clientPrefix d n. reported_ids c \<noteq> [])" by simp
qed

lemma entry_exists:
  "denying_devices clientPrefix d n \<noteq> {} \<Longrightarrow> \<exists>e. (n, e) \<in> set (plan_entries clientPrefix d)"
  by (simp add: plan_entry Let_def flip: denying_group)

text \<open>
  C31: A domain that some supervised user of a device is denied at all times is blocked for the AdGuard client
  of that device's name, or reported as skipped under that name, and nothing else is; it is blocked exactly
  when a device of the name with such denies reported an address, and then for all addresses they reported.
  No name is planned twice.
\<close>

theorem blocklist_covers_denies:
  "blocks (buildDnsBlocklistPlan clientPrefix d) n x
     = ((\<exists>c \<in> denying_devices clientPrefix d n. denied_on d c x) \<and> (\<exists>c \<in> denying_devices clientPrefix d n. reported_ids c \<noteq> []))
   \<and> reports_skipped (buildDnsBlocklistPlan clientPrefix d) n x
     = ((\<exists>c \<in> denying_devices clientPrefix d n. denied_on d c x) \<and> (\<nexists>c. c \<in> denying_devices clientPrefix d n \<and> reported_ids c \<noteq> []))
   \<and> {ip. \<exists>e \<in> set (dp_clients (buildDnsBlocklistPlan clientPrefix d)). dc_name e = n \<and> ip \<in> set (dc_ids e)}
     = (\<Union>c \<in> denying_devices clientPrefix d n. set (reported_ids c))
   \<and> distinct (map dc_name (dp_clients (buildDnsBlocklistPlan clientPrefix d))
               @ map ds_name (dp_skipped (buildDnsBlocklistPlan clientPrefix d)))"
proof -
  let ?plan = "buildDnsBlocklistPlan clientPrefix d" and ?E = "plan_entries clientPrefix d" and ?D = "denying_devices clientPrefix d n"
  have blocked: "blocks ?plan n x \<longleftrightarrow> (\<exists>e. (n, e) \<in> set ?E \<and> pa_ids e \<noteq> [] \<and> x \<in> set (pa_domains e))"
    by (force simp: blocks_def buildDnsBlocklistPlan_def Let_def image_iff)
  have skipped: "reports_skipped ?plan n x \<longleftrightarrow> (\<exists>e. (n, e) \<in> set ?E \<and> pa_ids e = [] \<and> x \<in> set (pa_domains e))"
    by (force simp: reports_skipped_def buildDnsBlocklistPlan_def Let_def image_iff)
  have ids: "{ip. \<exists>e \<in> set (dp_clients ?plan). dc_name e = n \<and> ip \<in> set (dc_ids e)} = {ip. \<exists>e. (n, e) \<in> set ?E \<and> ip \<in> set (pa_ids e)}"
    by (force simp: buildDnsBlocklistPlan_def Let_def image_iff)
  have entry: "\<exists>e. (n, e) \<in> set ?E" if "c \<in> ?D" for c
    by (rule entry_exists) (use that in auto)
  have named: "?D \<noteq> {}" if "(n, e) \<in> set ?E" for e
    using that by (auto simp: plan_entry Let_def simp flip: denying_group)
  have chosen: "(\<exists>e. (n, e) \<in> set ?E \<and> Q e) \<longleftrightarrow> ?D \<noteq> {} \<and> R" if "\<And>e. (n, e) \<in> set ?E \<Longrightarrow> Q e = R" for Q R
    using that entry named by blast
  have "(pa_ids e \<noteq> [] \<and> x \<in> set (pa_domains e)) = ((\<exists>c \<in> ?D. reported_ids c \<noteq> []) \<and> (\<exists>c \<in> ?D. denied_on d c x))"
    if "(n, e) \<in> set ?E" for e
    by (simp add: entry_facts(2,3) [OF that])
  then have "blocks ?plan n x = (?D \<noteq> {} \<and> (\<exists>c \<in> ?D. reported_ids c \<noteq> []) \<and> (\<exists>c \<in> ?D. denied_on d c x))"
    unfolding blocked by (rule chosen)
  moreover have "(pa_ids e = [] \<and> x \<in> set (pa_domains e)) = (\<not> (\<exists>c \<in> ?D. reported_ids c \<noteq> []) \<and> (\<exists>c \<in> ?D. denied_on d c x))"
    if "(n, e) \<in> set ?E" for e
    using entry_facts(3) [OF that] by (simp add: entry_facts(2) [OF that]) blast
  then have "reports_skipped ?plan n x = (?D \<noteq> {} \<and> \<not> (\<exists>c \<in> ?D. reported_ids c \<noteq> []) \<and> (\<exists>c \<in> ?D. denied_on d c x))"
    unfolding skipped by (rule chosen)
  moreover have "{ip. \<exists>e. (n, e) \<in> set ?E \<and> ip \<in> set (pa_ids e)} = (\<Union>c \<in> ?D. set (reported_ids c))"
  proof -
    have "(\<exists>e. (n, e) \<in> set ?E \<and> ip \<in> set (pa_ids e)) = (?D \<noteq> {} \<and> (\<exists>c \<in> ?D. ip \<in> set (reported_ids c)))" for ip
      by (rule chosen) (simp add: entry_facts(1))
    then show ?thesis by auto
  qed
  moreover have "mset (map dc_name (dp_clients ?plan) @ map ds_name (dp_skipped ?plan)) = mset (map fst ?E)"
  proof -
    have "image_mset dc_name (mset (dp_clients ?plan)) = image_mset fst (mset (filter (\<lambda>(n, e). pa_ids e \<noteq> []) ?E))"
      "image_mset ds_name (mset (dp_skipped ?plan)) = image_mset fst (mset (filter (\<lambda>(n, e). pa_ids e = []) ?E))"
      by (simp_all add: buildDnsBlocklistPlan_def Let_def case_prod_beta multiset.map_comp comp_def)
    then show ?thesis
      by (simp add: case_prod_beta flip: image_mset_union)
  qed
  then have "distinct (map dc_name (dp_clients ?plan) @ map ds_name (dp_skipped ?plan))"
    using plan_names [of clientPrefix d "listClients d"] mset_eq_imp_distinct_iff by (metis plan_entries_def)
  ultimately show ?thesis unfolding ids by blast
qed

section \<open>Confinement\<close>

text \<open>The client with every request it sends written to a log beside the world.\<close>

definition recording :: "'w adguard_client \<Rightarrow> ('w \<times> http_request list) adguard_client" where
  "recording c =
     \<lparr>ag_baseUrl = ag_baseUrl c, ag_auth = ag_auth c,
      ag_fetch = (\<lambda>rq (w, log). let (r, w') = ag_fetch c rq w in (r, w', log @ [rq])),
      ag_clientPrefix = ag_clientPrefix c\<rparr>"

definition names_managed :: "'w adguard_client \<Rightarrow> fields \<Rightarrow> bool" where
  "names_managed c ob \<longleftrightarrow> has_prefix (ag_clientPrefix c) (ag_name ob)"

definition confined :: "'w adguard_client \<Rightarrow> http_request \<Rightarrow> bool" where
  "confined c rq \<longleftrightarrow>
     \<not> rq_post rq
     \<or> rq_url rq = ag_baseUrl c @ ''/control/filtering/set_rules''
     \<or> (\<exists>ob. rq_body rq = Some (JObj ob) \<and> names_managed c ob
            \<and> (rq_url rq \<in> {ag_baseUrl c @ ''/control/clients/add'', ag_baseUrl c @ ''/control/clients/delete''}
               \<or> rq_url rq = ag_baseUrl c @ ''/control/clients/update''
                  \<and> (\<exists>update. map_of ob ''data'' = Some (JObj update) \<and> names_managed c update)))"

definition confines :: "'w adguard_client \<Rightarrow> ('a, 'w \<times> http_request list) ag_act \<Rightarrow> bool" where
  "confines c m \<longleftrightarrow> (\<forall>w log. \<exists>new. snd (snd (m (w, log))) = log @ new \<and> (\<forall>rq \<in> set new. confined c rq))"

lemma confines_give: "confines c (give x)"
  by (simp add: confines_def give_def)

lemma confines_then:
  assumes "confines c m" and "\<And>x. confines c (f x)"
  shows "confines c (then_ag m f)"
  unfolding confines_def
proof (intro allI)
  fix w log
  obtain r w1 log1 where m: "m (w, log) = (r, w1, log1)" by (cases "m (w, log)") auto
  obtain new where new: "log1 = log @ new" "\<forall>rq \<in> set new. confined c rq"
    using assms(1) [unfolded confines_def, rule_format, of w log] m by auto
  show "\<exists>new. snd (snd (then_ag m f (w, log))) = log @ new \<and> (\<forall>rq \<in> set new. confined c rq)"
  proof (cases r)
    case (Inl e)
    then show ?thesis using m new by (auto simp: then_ag_def)
  next
    case (Inr x)
    obtain more where "snd (snd (f x (w1, log1))) = log1 @ more" "\<forall>rq \<in> set more. confined c rq"
      using assms(2) [unfolded confines_def, rule_format, of x w1 log1] by blast
    then show ?thesis using m new Inr by (intro exI [of _ "new @ more"]) (auto simp: then_ag_def)
  qed
qed

lemma confines_pure: "(\<And>w. snd (m w) = w) \<Longrightarrow> confines c m"
  by (simp add: confines_def)

lemma confines_send:
  assumes "\<not> post \<or> confined c \<lparr>rq_url = ag_baseUrl c @ path, rq_post = post, rq_authorization = authHeader c, rq_body = body\<rparr>"
  shows "confines c (ag_send (recording c) path post body)"
proof -
  have "authHeader (recording c) = authHeader c" by (simp add: authHeader_def recording_def split: option.splits adguard_auth.splits)
  then show ?thesis using assms
    by (auto simp: confines_def ag_send_def recording_def confined_def case_prod_beta Let_def split: http_outcome.splits)
qed

lemma confines_assert: "confines c (assertOk path status)" "confines c (ag_parse schema path body)"
  "confines c (\<lambda>w. (r, w))"
  by (rule confines_pure; simp add: assertOk_def ag_parse_def)+

lemma confines_getJson: "confines c (getJson (recording c) path)"
  unfolding getJson_def by (auto intro!: confines_then confines_send confines_assert)

lemma confines_postOk:
  assumes "confined c \<lparr>rq_url = ag_baseUrl c @ path, rq_post = True, rq_authorization = authHeader c, rq_body = Some body\<rparr>"
  shows "confines c (postOk (recording c) path body)"
  unfolding postOk_def using assms by (auto intro!: confines_then confines_send confines_assert)

lemma confines_guard:
  assumes "has_prefix (ag_clientPrefix c) name \<Longrightarrow> confines c m"
  shows "confines c (then_ag (assertManaged (recording c) name path) (\<lambda>_. m))"
proof (cases "has_prefix (ag_clientPrefix c) name")
  case True
  then have "then_ag (assertManaged (recording c) name path) (\<lambda>_. m) = m"
    by (simp add: fun_eq_iff then_ag_def assertManaged_def recording_def)
  then show ?thesis using assms True by simp
next
  case False
  then show ?thesis by (intro confines_pure) (simp add: then_ag_def assertManaged_def recording_def)
qed

lemma confines_writes:
  "confines c (addClient (recording c) row)"
  "confines c (ag_updateClient (recording c) name row)"
  "confines c (ag_deleteClient (recording c) name)"
  "confines c (setUserRules (recording c) rules)"
  unfolding addClient_def ag_updateClient_def ag_deleteClient_def setUserRules_def
  by (auto intro!: confines_guard confines_postOk simp: confined_def names_managed_def ag_name_def)

lemma confines_reconcile:
  "confines c (reconcile_desired (recording c) existingByName desired s)"
  "confines c (reconcile_obsolete (recording c) wanted existing s)"
proof -
  show "confines c (reconcile_desired (recording c) existingByName desired s)"
    by (induction desired arbitrary: s) (auto intro!: confines_then confines_writes confines_give split: option.split)
  show "confines c (reconcile_obsolete (recording c) wanted existing s)"
    by (induction existing arbitrary: s) (auto intro!: confines_then confines_writes confines_give)
qed

lemma confines_apply: "confines c (applyDnsBlocklist (recording c) d)"
  unfolding applyDnsBlocklist_def reconcileManagedClients_def listManagedClients_def ag_listClients_def getUserRules_def Let_def
  by (auto intro!: confines_then confines_getJson confines_assert confines_give confines_reconcile confines_writes)

text \<open>
  C32: Applying the blocklist, whatever the instance answers and wherever it stops, sends no write but to the
  rules list and to clients of the dashboard's own name space: each client it adds, updates, deletes or
  renames carries the prefix before and after.
\<close>

theorem foreign_clients_untouched:
  "{rq \<in> set (snd (snd (applyDnsBlocklist (recording c) d (w, [])))). \<not> confined c rq} = {}"
  using confines_apply [of c d, unfolded confines_def, rule_format, of w "[]"] by auto

section \<open>Two ways the instance and the plan drift apart\<close>

definition ag_request :: "'w adguard_client \<Rightarrow> string \<Rightarrow> json option \<Rightarrow> http_request" where
  "ag_request c path body = \<lparr>rq_url = ag_baseUrl c @ path, rq_post = (body \<noteq> None), rq_authorization = authHeader c, rq_body = body\<rparr>"

text \<open>In the world \<open>w\<close> the instance holds these persistent clients, and reading them changes nothing.\<close>

definition holds_clients :: "'w adguard_client \<Rightarrow> 'w \<Rightarrow> fields list \<Rightarrow> bool" where
  "holds_clients c w rows \<longleftrightarrow>
     ag_fetch c (ag_request c ''/control/clients'' None) w = (Answered 200 (Some (JObj [(''clients'', JArr (map JObj rows))])), w)"

text \<open>AdGuard Home refuses a client with an identifier that another client has.\<close>

definition refuses_shared_ids :: "'w adguard_client \<Rightarrow> 'w \<Rightarrow> fields list \<Rightarrow> bool" where
  "refuses_shared_ids c w rows \<longleftrightarrow>
     (\<forall>input. (\<exists>i \<in> set (ag_ids input). \<exists>row \<in> set rows. i \<in> set (ag_ids row)) \<longrightarrow>
        ag_fetch c (ag_request c ''/control/clients/add'' (Some (JObj input))) w = (Answered 400 None, w))"

lemma zod_fields_known: "zod_fields shape ob = Some ob' \<Longrightarrow> k \<notin> fst ` set shape \<Longrightarrow> map_of ob' k = None"
  by (induction shape ob arbitrary: ob' rule: zod_fields.induct) (auto split: option.splits)

lemma listed_clients:
  assumes "holds_clients c w [row]" and "adGuardClientSchema (JObj row) = Some (JObj current)"
    and "has_prefix (ag_clientPrefix c) (ag_name current)"
  shows "listManagedClients c w = (Inr [current], w)"
    and "listManagedClients (recording c) (w, log) = (Inr [current], w, log @ [ag_request c ''/control/clients'' None])"
proof -
  have auth: "authHeader (recording c) = authHeader c" by (simp add: authHeader_def recording_def split: option.splits adguard_auth.splits)
  have parse: "adGuardClientsResponseSchema (JObj [(''clients'', JArr [JObj row])]) = Some (JObj [(''clients'', JArr [JObj current])])"
    using assms(2) by (simp add: adGuardClientsResponseSchema_def)
  have items: "items_of ''clients'' [(''clients'', JArr [JObj current])] = [JObj current]" by (simp add: items_of_def)
  show "listManagedClients c w = (Inr [current], w)"
    using assms(1,3) parse items
    by (simp add: listManagedClients_def ag_listClients_def getJson_def then_ag_def ag_send_def holds_clients_def ag_request_def
        assertOk_def ag_parse_def give_def)
  show "listManagedClients (recording c) (w, log) = (Inr [current], w, log @ [ag_request c ''/control/clients'' None])"
    using assms(1,3) parse items auth
    by (simp add: listManagedClients_def ag_listClients_def getJson_def then_ag_def ag_send_def holds_clients_def ag_request_def
        assertOk_def ag_parse_def give_def recording_def)
qed

text \<open>
  C0: The update of a drifted AdGuard client sends back only the ten fields the response schema names: any
  other setting the household or a newer AdGuard stored on that client is missing from the replacement the
  instance is told to adopt.
\<close>

theorem update_drops_unknown_fields:
  assumes "holds_clients c w [row]" and "adGuardClientSchema (JObj row) = Some (JObj current)"
    and "has_prefix (ag_clientPrefix c) (ag_name current)"
    and "desired_clients plan = [(ag_name current, ids)]" and "\<not> up_to_date current ids"
    and "k \<notin> fst ` set client_shape"
  shows "\<exists>rq update. rq \<in> set (snd (snd (reconcileManagedClients (recording c) plan (w, []))))
    \<and> rq_url rq = ag_baseUrl c @ ''/control/clients/update''
    \<and> rq_body rq = Some (JObj [(''name'', JStr (ag_name current)), (''data'', JObj update)]) \<and> map_of update k = None"
proof -
  let ?n = "ag_name current" and ?u = "updated_input current (ag_name current) ids"
  have "map_of ?u k = None"
  proof -
    have "zod_fields client_shape row = Some current" using assms(2) by (auto simp: adGuardClientSchema_def)
    then have "map_of current k = None" using assms(6) by (rule zod_fields_known)
    moreover have "k \<noteq> ''name''" "k \<noteq> ''ids''" "k \<noteq> ''use_global_settings''" using assms(6) by (auto simp: client_shape_def)
    ultimately show ?thesis by (simp add: updated_input_def)
  qed
  moreover have known: "ag_name ?u = ?n" by (simp add: updated_input_def ag_name_def)
  let ?rq = "ag_request c ''/control/clients/update'' (Some (JObj [(''name'', JStr ?n), (''data'', JObj ?u)]))"
  have "authHeader (recording c) = authHeader c" by (simp add: authHeader_def recording_def split: option.splits adguard_auth.splits)
  then have upd: "\<exists>r w'. ag_updateClient (recording c) ?n ?u (w, log) = (r, w', log @ [?rq])" for log
    using assms(3) known
    by (auto simp: ag_updateClient_def then_ag_def assertManaged_def recording_def postOk_def ag_send_def ag_request_def
        assertOk_def case_prod_beta Let_def split: http_outcome.splits)
  obtain r w' where r: "ag_updateClient (recording c) ?n ?u (w, [ag_request c ''/control/clients'' None])
      = (r, w', [ag_request c ''/control/clients'' None, ?rq])"
    using upd [of "[ag_request c ''/control/clients'' None]"] by auto
  have "?rq \<in> set (snd (snd (reconcileManagedClients (recording c) plan (w, []))))"
    using assms(4,5) listed_clients(2) [OF assms(1-3), of "[]"] r
    by (cases r) (simp_all add: reconcileManagedClients_def then_ag_def give_def)
  ultimately show ?thesis by (intro exI [of _ ?rq] exI [of _ ?u]) (simp add: ag_request_def)
qed


section \<open>A household\<close>

definition old_client :: fields where
  "old_client = [(''name'', JStr ''pct:Laptop''), (''ids'', JArr [JStr ''10.0.0.2'']), (''use_global_settings'', JBool True),
                 (''safe_search'', JBool True)]"

definition strict_instance :: "unit adguard_client" where
  "strict_instance =
     \<lparr>ag_baseUrl = ''http://ag'', ag_auth = None,
      ag_fetch = (\<lambda>rq w.
        if rq_url rq = ''http://ag/control/clients''
        then (Answered 200 (Some (JObj [(''clients'', JArr [JObj old_client])])), w)
        else if rq_url rq = ''http://ag/control/clients/add''
        then (case rq_body rq of
                Some (JObj input) \<Rightarrow> (Answered (if ''10.0.0.2'' \<in> set (ag_ids input) then 400 else 200) None, w)
              | _ \<Rightarrow> (Answered 400 None, w))
        else (Answered 200 None, w)),
      ag_clientPrefix = ''pct:''\<rparr>"


lemma old_client_ids: "ag_ids old_client = [''10.0.0.2'']" by code_simp

lemma strict_facts:
  "holds_clients strict_instance () [old_client]" "refuses_shared_ids strict_instance () [old_client]"
  "adGuardClientSchema (JObj old_client) = Some (JObj (take 3 old_client))"
  "has_prefix (ag_clientPrefix strict_instance) (ag_name (take 3 old_client))"
proof -
  show "holds_clients strict_instance () [old_client]" "refuses_shared_ids strict_instance () [old_client]"
    by (simp_all add: holds_clients_def refuses_shared_ids_def strict_instance_def ag_request_def old_client_ids)
  show "adGuardClientSchema (JObj old_client) = Some (JObj (take 3 old_client))" by code_simp
  show "has_prefix (ag_clientPrefix strict_instance) (ag_name (take 3 old_client))"
    by (simp add: strict_instance_def has_prefix_def ag_name_def old_client_def numeral_3_eq_3)
qed

lemma update_drops_unknown_fields_witness:
  "map_of old_client ''safe_search'' = Some (JBool True)
   \<and> (\<exists>rq update. rq \<in> set (snd (snd (reconcileManagedClients (recording strict_instance)
            \<lparr>dp_clients = [\<lparr>dc_name = ''pct:Laptop'', dc_ids = [''10.0.0.7''], dc_domains = [''tiktok.com'']\<rparr>], dp_skipped = []\<rparr> ((), []))))
        \<and> rq_url rq = ''http://ag/control/clients/update'' \<and> map_of update ''safe_search'' = None
        \<and> rq_body rq = Some (JObj [(''name'', JStr ''pct:Laptop''), (''data'', JObj update)]))"
proof -
  let ?plan = "\<lparr>dp_clients = [\<lparr>dc_name = ''pct:Laptop'', dc_ids = [''10.0.0.7''], dc_domains = [''tiktok.com'']\<rparr>], dp_skipped = []\<rparr>"
  have name: "ag_name (take 3 old_client) = ''pct:Laptop''" by code_simp
  have plan: "desired_clients ?plan = [(ag_name (take 3 old_client), [''10.0.0.7''])]" by code_simp
  have drift: "\<not> up_to_date (take 3 old_client) [''10.0.0.7'']" by code_simp
  have field: "''safe_search'' \<notin> fst ` set client_shape" by (simp add: client_shape_def)
  have kept: "map_of old_client ''safe_search'' = Some (JBool True)" by code_simp
  have url: "ag_baseUrl strict_instance = ''http://ag''" by (simp add: strict_instance_def)
  from update_drops_unknown_fields [OF strict_facts(1,3,4) plan drift field] kept show ?thesis by (auto simp: name url)
qed


end
