(* ===== verification/Spec2Isabelle.thy ===== *)
theory Spec2Isabelle
  imports Enrolment Reapply Policy_Delivery Policy_Push Timekpr Next_Transition Telemetry Force_Close Agent_Force_Close Agent_Socket Retention Dns_Blocklist
begin

text \<open>
  A verification development of the linux-parental-controls-toolkit: a dashboard (\<open>server/src\<close>) on which an
  administrator sets screen-time policy for the supervised users of a household, and the bridge and agent
  (\<open>client/agent/src\<close>) that run on the supervised Linux machines. This theory imports all the others; each
  of them opens with a text of its own. Paths below are relative to \<open>server/src\<close> unless they begin with
  \<open>client\<close>.

  \<^bold>\<open>The program.\<close>
  The policy of a user is a set of rows in a relational database: schedule rules, budgets, dated exceptions
  and notification settings, owned by the user or by groups the user belongs to. It is used in five ways.

  \<^item> \<^emph>\<open>Resolution.\<close> \<open>policy/resolve.ts\<close> and its neighbours compute, for an instant and a time zone, which
    minutes of the day are allowed, which budgets apply and when access next flips.
  \<^item> \<^emph>\<open>Push.\<close> Every mutating route computes commands (\<open>transport/stub.ts\<close>) that go through a durable queue
    (\<open>transport/queue\<close>) to an executor (\<open>transport/policy-push\<close>), which reads the policy again and runs
    \<open>timekpra\<close> on the client over SSH. The lever that adds time today (\<open>transport/time-today\<close>) takes the same way.
  \<^item> \<^emph>\<open>Enforcement of activities.\<close> Usage is pulled from the ActivityWatch of each client, normalised to samples and
    rolled up (\<open>transport/activitywatch\<close>, \<open>policy/usage.ts\<close>); a sweep compares it with the quotas and
    stops what is used up (\<open>enforcement\<close>): by a frame over the event stream (\<open>events\<close>), which the
    bridge of the client hands to the agent of the user, or by \<open>pkill\<close> over SSH.
  \<^item> \<^emph>\<open>Filters.\<close> Denials of executables and domains become AppArmor profiles, e2guardian filter groups and
    AdGuard Home rules (\<open>transport/ansible\<close>, \<open>transport/adguard\<close>), re-applied periodically
    (\<open>transport/reapply\<close>).
  \<^item> \<^emph>\<open>Housekeeping.\<close> Commands are audited (\<open>transport/audit\<close>), old rows are purged (\<open>policy/purge.ts\<close>,
    \<open>retention\<close>), clients enrol with one-time tokens and people log in (\<open>policy/enrolment.ts\<close>, \<open>auth\<close>).
\<close>

text \<open>
  \<^bold>\<open>Theories and sources.\<close>
  Definitions carry the names of the code. Each theory groups its definitions as the file it models does.

  Foundations.
  \<^item> \<open>PC_Prelude\<close>: the containers of JavaScript (\<open>Map\<close>, \<open>Set\<close>, stable sort), sum-type sequencing, and the shared
    lemmas with their collections. \<open>JS_Date\<close>: the calendar of \<open>Date\<close>. \<open>Intervals\<close>: half-open intervals and the
    contract of a merge. \<open>Policy_Model\<close>: \<open>policy/enums.ts\<close>.

  Resolution.
  \<^item> \<open>Schedule_Precedence\<close>, \<open>Recurrence\<close>: \<open>policy/schedule-precedence.ts\<close>, \<open>recurrence.ts\<close>.
  \<^item> \<open>Budget_Window\<close>: \<open>policy/budget-window.ts\<close>. \<open>Effective_Policy\<close>: \<open>policy/resolve.ts\<close>.
  \<^item> \<open>Policy_Store\<close>, \<open>Control_Store\<close>, \<open>Policy_Records\<close>: \<open>policy/schema.ts\<close> and \<open>repository.ts\<close>. The record \<open>store\<close> holds
    the policy tables, the record \<open>db\<close> puts users, clients, links and the queue beside it; a table is the
    list of its rows and, where the code lets SQLite number them, the last key given out. A write is a
    function to a new database or a violated constraint.
  \<^item> \<open>Group_Resolution\<close>: \<open>policy/group-resolution.ts\<close>, \<open>domain-denies.ts\<close>. \<open>Next_Transition\<close>:
    \<open>policy/next-transition.ts\<close>, \<open>weekly-windows.ts\<close>.

  Routes.
  \<^item> \<open>Policy_Api\<close>: the mutating handlers of \<open>api/policy/routes\<close> and \<open>api/policy/schedule-order.ts\<close>; a request is a
    constructor of \<open>api_request\<close>, \<open>serve\<close> runs one and \<open>served\<close> a whole history.
    \<open>Policy_Invariant\<close> and \<open>Policy_Delivery\<close> prove what the routes keep and what they push.
  \<^item> \<open>Auth_Session\<close>: \<open>auth\<close> and \<open>api/app/routes.ts\<close>. \<open>Enrolment\<close>: \<open>policy/enrolment.ts\<close> and \<open>api/clients\<close>.

  Transports.
  \<^item> \<open>Offline_Queue\<close>: \<open>transport/queue\<close>. \<open>Timekpr\<close>: \<open>transport/timekpr\<close>. \<open>Policy_Push\<close>: \<open>transport/policy-push\<close>,
    \<open>transport/stub.ts\<close>. \<open>Time_Today\<close>: \<open>transport/time-today\<close>.
  \<^item> \<open>Shell_Command\<close>: \<open>transport/ssh/shell-quote.ts\<close>, \<open>enforcement/force-close-pkill.ts\<close>. \<open>Ssh_Transport\<close>:
    \<open>transport/ssh\<close>. \<open>Transport_Audit\<close>: \<open>transport/audit\<close>.
  \<^item> \<open>Ansible_Transport\<close>, \<open>Client_Filters\<close>: \<open>transport/ansible\<close>. \<open>Reapply\<close>: \<open>transport/reapply\<close>.
    \<open>AdGuard_Client\<close>, \<open>Dns_Blocklist\<close>: \<open>transport/adguard\<close>. \<open>Retention\<close>: \<open>policy/purge.ts\<close>,
    \<open>retention\<close>, \<open>api/retention\<close>.

  Usage and enforcement.
  \<^item> \<open>Activity_Matcher\<close>: \<open>policy/activity-matcher.ts\<close>. \<open>Usage_Normalise\<close>: \<open>transport/activitywatch/normalise.ts\<close>.
    \<open>Usage_Rollup\<close>: \<open>policy/usage.ts\<close>, \<open>telemetry-cursor.ts\<close>. \<open>Telemetry\<close>: \<open>transport/activitywatch/telemetry.ts\<close>,
    \<open>enforcement/telemetry-consumer.ts\<close>.
  \<^item> \<open>Enforcement\<close>: \<open>enforcement/decision.ts\<close>, \<open>evaluate.ts\<close>, \<open>sweep.ts\<close>. \<open>Force_Close\<close>: \<open>enforcement/force-close.ts\<close>,
    \<open>force-close-deps.ts\<close>. \<open>Event_Stream\<close>: \<open>events\<close>.

  The client.
  \<^item> \<open>Client_Bridge\<close>: \<open>client/agent/src/bridge\<close>. \<open>Agent_Socket\<close>, \<open>Agent_Cadence\<close>, \<open>Agent_Force_Close\<close>:
    \<open>client/agent/src/agent\<close> (\<open>socket-client.ts\<close>; \<open>cadence.ts\<close>, \<open>budget.ts\<close>, \<open>agent.ts\<close>; \<open>force-close.ts\<close>).
\<close>

text \<open>
  \<^bold>\<open>How the code is modelled.\<close>
  \<^item> An instant is an \<open>int\<close> of milliseconds since 1970, a key an \<open>int\<close>. Seconds that the code divides or sums as
    floating point numbers are rationals, without rounding. Text is a \<open>string\<close>; where bytes matter
    (\<open>Agent_Socket\<close>) it is its UTF-8 bytes.
  \<^item> A throw is an \<open>Inl\<close> of an error datatype with the constructors of the source; a handler that throws
    leaves the state it had reached.
  \<^item> An awaited call to the outside is an action, a function on the whole world that may fail; where the
    code lets other tasks write the database meanwhile, the database is part of that world.
  \<^item> What the code does between two awaits is one step. Logins, enrolments, the countdowns of the agent, the
    sockets of the bridge and the grace timers of the server are step functions or inductive reachability
    relations over the events of callers, timers and promises, so that a list of events is an interleaving.
  \<^item> Every definition is executable apart from the relations, and every loop is a terminating function:
    structural, or \<open>function\<close> with a measure. There is no fuel. The one loop that need not end, the
    batched delete of the purge, is \<open>partial_function (option)\<close>, and that it returns is proved.

  \<^bold>\<open>Locales.\<close>
  \<^item> \<open>interval_merger\<close> (\<open>Intervals\<close>): a merge returns disjoint ascending intervals of the same points. It is interpreted
    on \<open>mergeWindows\<close> of the resolver and on \<open>mergeIntervals\<close> of the normaliser.
  \<^item> \<open>rule_activity\<close> (\<open>Schedule_Precedence\<close>): rules with the same fields are active together; interpreted on
    \<open>isRuleActiveAt\<close>.
  \<^item> \<open>action_queue\<close> (\<open>Offline_Queue\<close>): what the drainer relies on; interpreted on the repository of the queue.
  \<^item> \<open>batched\<close> (\<open>Retention\<close>): a bounded delete that is repeated; interpreted on the pass over a table.
  \<^item> \<open>reconnecting\<close> (\<open>Client_Bridge\<close>): the life of a link that reconnects; interpreted on the event-stream client of the
    bridge and on the socket client of the agent.

  \<^bold>\<open>Parameters and hypotheses.\<close>
  Code outside the repository is an argument of the definitions that use it. What the code relies on is a
  named hypothesis, and a witness instantiates it.
  \<^item> The time zone database \<open>tzdb\<close>; \<open>regular_midnight\<close>: local midnight is one instant, before which the local
    clock shows earlier times, and the offset there is one the code tries.
  \<^item> The regular expressions of JavaScript (\<open>regexp_engine\<close>), the word splitting of the remote shell (\<open>posix_shell\<close>) and
    the pattern matching of \<open>pkill\<close>.
  \<^item> The SSH library, \<open>fetch\<close>, the Ansible process and the file \<open>mkdtemp\<close> names: actions on a world.
  \<^item> JSON, base64url and the cookie signature, the password and token hashes, random numbers and clocks.
  \<^item> The e2guardian proxy: any function from plans to blocked requests with \<open>reads_time_tags\<close> and
    \<open>filters_as_documented\<close>, which leave open what it does in the end minute of a window. The AdGuard instance:
    the refusal of a client whose identifier is taken.
\<close>

text \<open>
  \<^bold>\<open>What is shown.\<close>
  \<^item> \<^emph>\<open>Resolution.\<close> The allowed minutes of a day are characterised point by point, agree with the rule in effect
    now, and group rules only count where no own rule is active.
  \<^item> \<^emph>\<open>Routes.\<close> Every history of requests leaves the database sound and gives no key twice; a refused
    request changes nothing; an accepted change of a user's policy commands the devices of the user,
    apart from memberships, group deletions and reorderings, for which it is shown that it does not.
  \<^item> \<^emph>\<open>Queue and push.\<close> A drain is characterised exactly; the retry of an adjustment repeats the target of the first
    attempt. The losses of an action queued during a drain, of an answer that timed out and of the push of a
    deleted user are theorems about the code as it is.
  \<^item> \<^emph>\<open>Usage and enforcement.\<close> The seconds credited are those the events cover; samples of one activity on one
    client do not overlap; the sweep stops exactly the exhausted targets that are not cooling down; a stop
    reaches every client; a cancelled countdown signals nothing more.
  \<^item> \<^emph>\<open>Client.\<close> Frames arrive whole, once and in order under any chunking at character boundaries; a bridge that lost
    its link has a timer that connects again.
  \<^item> \<^emph>\<open>Filters and Ansible.\<close> Each plan is compared with the denials of the store; the inventory round-trips; the
    back-off of the re-apply is bounded and follows the audit.
  \<^item> \<^emph>\<open>Shell, SSH and audit.\<close> Quoting round-trips; a buffered execution settles as its events call for; records
    differ from the vector in the secret values only.
  \<^item> \<^emph>\<open>Access.\<close> The limiter bounds guesses made one after the other and not those made together; sessions are
    accepted for their lifetime in their own realm; a token is redeemed once.
  \<^item> \<^emph>\<open>Retention.\<close> A run removes exactly the rows past their window and returns for every batch size.

  Beside these, the theories hold further results on the same definitions: the round trip of the allowed-hours
  grammar and of \<open>--userinfo\<close>, the tiling of budget windows, the partition of the warnings, the pool of SSH
  connections, the overlapping starts of a countdown and the start of the dispatcher among them.

  \<^bold>\<open>Not modelled.\<close>
  \<^item> Pages, view models and typed fetch wrappers of the web front end (\<open>server/frontend\<close>), shell scripts and playbooks.
  \<^item> HTTP plumbing (\<open>api/plugin.ts\<close>, \<open>index.ts\<close>, \<open>validation.ts\<close>, \<open>errors.ts\<close>, \<open>web\<close>, the schemas of request and
    response bodies apart from those of enrolment and retention): a handler gets a body that passed its schema.
  \<^item> Read-only routes that assemble responses (\<open>api/policy/effective.ts\<close>, \<open>preview-routes.ts\<close>, \<open>api/usage\<close>, \<open>api/system\<close>,
    \<open>api/dns\<close>, \<open>api/audit\<close>, the status of clients) and the wrappers of modelled operations (\<open>push-now.ts\<close>,
    \<open>time-today.ts\<close> of \<open>api/policy\<close>).
  \<^item> Configuration, start-up and set-up (\<open>config.ts\<close>, \<open>main.ts\<close>, \<open>setup\<close>, \<open>policy/db.ts\<close>, the migration scripts) and the
    timers that start each modelled pass.
  \<^item> The managed AdGuard Home (download, supervision, health), the Timekpr mirror, the health probes, port
    forwarding and the ActivityWatch HTTP client: processes and network calls.
  \<^item> The integration tokens and bearer parsing (\<open>integrations\<close>, \<open>auth/bearer.ts\<close>), whose inbound routes are not there yet.
  \<^item> In the agent: desktop effects, the reading of processes, its configuration and its polling of usage.
\<close>

end
